(* ===== verification/Ov_Prelude.thy ===== *)
theory Ov_Prelude
  imports Main "HOL-Library.Word" "HOL-Library.Sublist" "HOL-Library.Multiset"
    "HOL-Library.AList"
begin

text \<open>
  The prelude of the development: the types every component uses, the parts of the Go
  language and of its standard library that the sources rely on, and the lemma collections
  shared by the component theories.

  \<^item> \<open>byte\<close> and \<open>bytes\<close> stand for Go's \<open>byte\<close> and \<open>[]byte\<close>. A Go string is a sequence of
    bytes, so it is a HOL \<open>string\<close> (a list of 8-bit \<open>char\<close>s).
  \<^item> \<open>put_le\<close>/\<open>get_le\<close> are \<open>encoding/binary\<close>'s fixed-width integers; \<open>put_be\<close> is the
    big-endian order.
  \<^item> \<open>itoa\<close>/\<open>atoi\<close> are \<open>strconv.Itoa\<close> (and the verb \<open>%d\<close>) and \<open>strconv.Atoi\<close> on a 64-bit
    \<open>int\<close>; \<open>cut_at\<close> and \<open>cut_last\<close> split a string at a
    byte as \<open>strings.SplitN(s, c, 2)\<close> and \<open>strings.LastIndex\<close> do. The other functions of the
    package \<open>strings\<close> stand beside the code that first uses them (\<open>Go_Net\<close>, \<open>Agent_Store\<close>).
  \<^item> instants (\<open>time.Time\<close>) are counted from Go's zero \<open>Time\<close> and are natural numbers.
\<close>

named_theorems wire_simps \<open>equations that evaluate the codecs\<close>
named_theorems inv_intros \<open>preservation rules of the components' invariants\<close>

type_synonym byte = "8 word"
type_synonym bytes = "byte list"
type_synonym instant = nat

section \<open>Fixed-width integers on the wire\<close>

fun put_le :: "nat \<Rightarrow> nat \<Rightarrow> bytes" where
  "put_le 0 x = []"
| "put_le (Suc n) x = word_of_nat x # put_le n (x div 256)"

fun get_le :: "bytes \<Rightarrow> nat" where
  "get_le [] = 0"
| "get_le (b # bs) = unat b + 256 * get_le bs"

definition put_be :: "nat \<Rightarrow> nat \<Rightarrow> bytes" where
  "put_be n x = rev (put_le n x)"

definition get_be :: "bytes \<Rightarrow> nat" where
  "get_be bs = get_le (rev bs)"

lemma length_put_le [simp, wire_simps]: "length (put_le n x) = n"
  by (induction n arbitrary: x) auto

lemma length_put_be [simp, wire_simps]: "length (put_be n x) = n"
  by (simp add: put_be_def)

lemma get_put_le_mod: "get_le (put_le n x) = x mod 256 ^ n"
proof (induction n arbitrary: x)
  case 0
  then show ?case by simp
next
  case (Suc n)
  have "get_le (put_le (Suc n) x) = x mod 256 + 256 * (x div 256 mod 256 ^ n)"
    by (simp add: Suc.IH unat_of_nat)
  also have "\<dots> = x mod (256 * 256 ^ n)"
    by (simp add: mod_mult2_eq)
  finally show ?case by simp
qed

lemma get_put_le [simp, wire_simps]: "x < 256 ^ n \<Longrightarrow> get_le (put_le n x) = x"
  by (simp add: get_put_le_mod)

lemma get_put_be [simp, wire_simps]: "x < 256 ^ n \<Longrightarrow> get_be (put_be n x) = x"
  by (simp add: get_be_def put_be_def)

lemma unat_byte_less [simp]: "unat (b :: byte) < 256"
  using unsigned_less [of b] by simp

lemma get_le_bound: "get_le bs < 256 ^ length bs"
proof (induction bs)
  case Nil
  then show ?case by simp
next
  case (Cons b bs)
  from Cons.IH have "unat b + 256 * get_le bs < 256 * 256 ^ length bs"
    using unat_byte_less [of b] by linarith
  then show ?case by simp
qed

lemma word_of_byte_sum: "(word_of_nat (unat (b :: byte) + 256 * k) :: byte) = b"
  by (rule word_unat_eq_iff [THEN iffD2])
     (simp add: unat_of_nat del: of_nat_add of_nat_mult)

lemma put_get_le [simp]: "put_le (length bs) (get_le bs) = bs"
  by (induction bs) (auto simp: word_of_byte_sum simp del: of_nat_add of_nat_mult)

section \<open>Strings\<close>

definition has_prefix :: "'a list \<Rightarrow> 'a list \<Rightarrow> bool" where
  "has_prefix s p = (take (length p) s = p)"

definition has_suffix :: "'a list \<Rightarrow> 'a list \<Rightarrow> bool" where
  "has_suffix s p = (length p \<le> length s \<and> drop (length s - length p) s = p)"

definition trim_prefix :: "'a list \<Rightarrow> 'a list \<Rightarrow> 'a list" where
  "trim_prefix s p = (if has_prefix s p then drop (length p) s else s)"

definition trim_suffix :: "'a list \<Rightarrow> 'a list \<Rightarrow> 'a list" where
  "trim_suffix s p = (if has_suffix s p then take (length s - length p) s else s)"

lemma has_prefix_append [simp]: "has_prefix (p @ s) p"
  by (simp add: has_prefix_def)

lemma has_prefix_iff: "has_prefix s p \<longleftrightarrow> (\<exists>r. s = p @ r)"
  by (metis append_take_drop_id has_prefix_append has_prefix_def)

lemma has_suffix_append [simp]: "has_suffix (s @ p) p"
  by (simp add: has_suffix_def)

lemma has_suffix_iff: "has_suffix s p \<longleftrightarrow> (\<exists>r. s = r @ p)"
  by (metis append_take_drop_id has_suffix_append has_suffix_def)

lemma trim_prefix_append [simp]: "trim_prefix (p @ s) p = s"
  by (simp add: trim_prefix_def)

lemma trim_suffix_append [simp]: "trim_suffix (s @ p) p = s"
  by (simp add: trim_suffix_def)

lemma trim_suffix_id: "\<not> has_suffix s p \<Longrightarrow> trim_suffix s p = s"
  by (simp add: trim_suffix_def)

text \<open>\<open>cut_at c s\<close> splits at the first \<open>c\<close> (\<open>strings.IndexByte\<close>, \<open>strings.SplitN(s, c, 2)\<close>);
  \<open>cut_last\<close> at the last one (\<open>strings.LastIndex\<close> of a one-byte separator).\<close>

fun cut_at :: "'a \<Rightarrow> 'a list \<Rightarrow> ('a list \<times> 'a list) option" where
  "cut_at c [] = None"
| "cut_at c (x # xs) = (if x = c then Some ([], xs)
     else case cut_at c xs of None \<Rightarrow> None | Some (a, b) \<Rightarrow> Some (x # a, b))"

definition cut_last :: "'a \<Rightarrow> 'a list \<Rightarrow> ('a list \<times> 'a list) option" where
  "cut_last c s = (case cut_at c (rev s) of None \<Rightarrow> None | Some (a, b) \<Rightarrow> Some (rev b, rev a))"

lemma cut_at_None [simp]: "cut_at c s = None \<longleftrightarrow> c \<notin> set s"
  by (induction s) (auto split: option.splits)

lemma cut_at_Some: "cut_at c s = Some (a, b) \<Longrightarrow> s = a @ c # b \<and> c \<notin> set a"
  by (induction s arbitrary: a b) (auto split: option.splits if_splits)

lemma cut_at_append [simp]: "c \<notin> set a \<Longrightarrow> cut_at c (a @ c # b) = Some (a, b)"
  by (induction a) auto

lemma cut_last_None [simp]: "cut_last c s = None \<longleftrightarrow> c \<notin> set s"
  by (auto simp: cut_last_def split: option.splits dest: cut_at_Some)
     (metis cut_at_None option.distinct(1) set_rev)

lemma cut_last_append [simp]: "c \<notin> set b \<Longrightarrow> cut_last c (a @ c # b) = Some (a, b)"
  by (simp add: cut_last_def)

text \<open>\<open>find_sub pat s\<close> is \<open>strings.Index(s, pat)\<close>, with the text before and after the match.\<close>

fun find_sub :: "'a list \<Rightarrow> 'a list \<Rightarrow> ('a list \<times> 'a list) option" where
  "find_sub pat s = (if has_prefix s pat then Some ([], drop (length pat) s)
     else case s of [] \<Rightarrow> None
       | x # xs \<Rightarrow> (case find_sub pat xs of None \<Rightarrow> None | Some (a, b) \<Rightarrow> Some (x # a, b)))"

declare find_sub.simps [simp del]

definition contains_sub :: "'a list \<Rightarrow> 'a list \<Rightarrow> bool" where
  "contains_sub s pat = (find_sub pat s \<noteq> None)"

lemma find_sub_Some: "find_sub pat s = Some (a, b) \<Longrightarrow> s = a @ pat @ b"
proof (induction pat s arbitrary: a b rule: find_sub.induct)
  case (1 pat s)
  show ?case
  proof (cases "has_prefix s pat")
    case True
    with "1.prems" show ?thesis
      by (auto simp: find_sub.simps [of pat s] has_prefix_iff)
  next
    case False
    with "1.prems" obtain x xs a' where s: "s = x # xs" and a: "a = x # a'"
        and r: "find_sub pat xs = Some (a', b)"
      by (auto simp: find_sub.simps [of pat s] split: list.splits option.splits)
    from "1.IH" [OF False s] r have "xs = a' @ pat @ b" by simp
    with s a show ?thesis by simp
  qed
qed

lemma find_sub_None: "find_sub pat s = None \<Longrightarrow> s \<noteq> a @ pat @ b"
proof (induction pat s arbitrary: a b rule: find_sub.induct)
  case (1 pat s)
  from "1.prems" have np: "\<not> has_prefix s pat"
    by (auto simp: find_sub.simps [of pat s])
  show ?case
  proof (cases s)
    case Nil
    with np show ?thesis by (auto simp: has_prefix_iff)
  next
    case (Cons x xs)
    with "1.prems" np have "find_sub pat xs = None"
      by (auto simp: find_sub.simps [of pat "x # xs"] split: option.splits)
    with "1.IH" [OF np Cons] have ih: "\<And>a b. xs \<noteq> a @ pat @ b" by blast
    show ?thesis
      using np ih Cons by (cases a) (auto simp: has_prefix_iff)
  qed
qed

lemma contains_sub_iff: "contains_sub s pat \<longleftrightarrow> (\<exists>a b. s = a @ pat @ b)"
  unfolding contains_sub_def
  by (metis find_sub_None find_sub_Some option.exhaust option.distinct(1) surj_pair)

section \<open>Decimal numbers\<close>

definition digit_char :: "nat \<Rightarrow> char" where
  "digit_char k = char_of (48 + k)"

definition char_val :: "char \<Rightarrow> nat" where
  "char_val c = of_char c"

definition is_digit :: "char \<Rightarrow> bool" where
  "is_digit c = (48 \<le> char_val c \<and> char_val c \<le> 57)"

fun nat_str :: "nat \<Rightarrow> string" where
  "nat_str n = (if n < 10 then [digit_char n] else nat_str (n div 10) @ [digit_char (n mod 10)])"

declare nat_str.simps [simp del]

definition itoa :: "int \<Rightarrow> string" where
  "itoa n = (if n < 0 then CHR ''-'' # nat_str (nat (- n)) else nat_str (nat n))"

definition dec_step :: "nat \<Rightarrow> char \<Rightarrow> nat" where
  "dec_step acc c = 10 * acc + (char_val c - 48)"

definition dec_val :: "string \<Rightarrow> nat" where
  "dec_val s = foldl dec_step 0 s"

text \<open>The accepted syntax of \<open>strconv.Atoi\<close> (base 10): an optional sign and at least one digit,
  with a value in the range of the result type, here \<open>lo..hi\<close>.\<close>

definition parse_dec :: "int \<Rightarrow> int \<Rightarrow> string \<Rightarrow> int option" where
  "parse_dec lo hi s =
     (let (neg, ds) = (case s of [] \<Rightarrow> (False, [])
        | c # cs \<Rightarrow> if c = CHR ''-'' then (True, cs)
                    else if c = CHR ''+'' then (False, cs) else (False, s));
          v = (if neg then - int (dec_val ds) else int (dec_val ds))
      in if ds \<noteq> [] \<and> list_all is_digit ds \<and> lo \<le> v \<and> v \<le> hi then Some v else None)"

definition max_int64 :: int where "max_int64 = 2 ^ 63 - 1"
definition min_int64 :: int where "min_int64 = - (2 ^ 63)"

definition atoi :: "string \<Rightarrow> int option" where
  "atoi s = parse_dec min_int64 max_int64 s"

text \<open>\<open>strconv.ParseUint(s, 10, 32)\<close>: no sign.\<close>

definition parse_uint32 :: "string \<Rightarrow> nat option" where
  "parse_uint32 s = (if s \<noteq> [] \<and> list_all is_digit s \<and> dec_val s < 2 ^ 32
     then Some (dec_val s) else None)"

lemma char_val_digit [simp]: "k < 10 \<Longrightarrow> char_val (digit_char k) = 48 + k"
  by (simp add: char_val_def digit_char_def)

lemma is_digit_digit [simp]: "k < 10 \<Longrightarrow> is_digit (digit_char k)"
  by (simp add: is_digit_def)

lemma nat_str_nonempty [simp]: "nat_str n \<noteq> []"
  by (subst nat_str.simps) simp

lemma nat_str_digits [simp]: "list_all is_digit (nat_str n)"
  by (induction n rule: nat_str.induct) (subst nat_str.simps, simp)

lemma dec_val_snoc: "dec_val (s @ [c]) = dec_step (dec_val s) c"
  by (simp add: dec_val_def)

lemma dec_val_nat_str [simp]: "dec_val (nat_str n) = n"
proof (induction n rule: nat_str.induct)
  case (1 n)
  show ?case
  proof (cases "n < 10")
    case True
    then show ?thesis
      by (subst nat_str.simps) (simp add: dec_val_def dec_step_def)
  next
    case False
    with "1.IH" have "dec_val (nat_str (n div 10)) = n div 10" by simp
    with False show ?thesis
      by (subst nat_str.simps) (simp add: dec_val_snoc dec_step_def)
  qed
qed

lemma nat_str_inj: "nat_str m = nat_str n \<Longrightarrow> m = n"
  by (metis dec_val_nat_str)

lemma digit_notin_nat_str: "\<not> is_digit c \<Longrightarrow> c \<notin> set (nat_str n)"
  using nat_str_digits [of n] by (auto simp: list_all_iff)

lemma not_digit_sep [simp]:
  "\<not> is_digit CHR '':''" "\<not> is_digit CHR ''-''" "\<not> is_digit CHR ''+''"
  "\<not> is_digit CHR ''_''" "\<not> is_digit CHR ''/''" "\<not> is_digit CHR ''@''"
  by (simp_all add: is_digit_def char_val_def)

lemma hd_nat_str: "nat_str n = c # cs \<Longrightarrow> is_digit c"
  using nat_str_digits [of n] by simp

lemma parse_dec_itoa:
  assumes "lo \<le> n" "n \<le> hi"
  shows "parse_dec lo hi (itoa n) = Some n"
proof (cases "n < 0")
  case True
  then show ?thesis using assms by (simp add: parse_dec_def itoa_def)
next
  case False
  obtain c cs where c: "nat_str (nat n) = c # cs"
    by (cases "nat_str (nat n)") auto
  then have "is_digit c" by (rule hd_nat_str)
  then have "c \<noteq> CHR ''-''" "c \<noteq> CHR ''+''" by auto
  with c have "parse_dec lo hi (nat_str (nat n)) = Some (int (dec_val (nat_str (nat n))))"
    using assms False nat_str_digits [of "nat n"] dec_val_nat_str [of "nat n"]
    by (simp add: parse_dec_def)
  with False show ?thesis by (simp add: itoa_def)
qed

lemma atoi_itoa: "min_int64 \<le> n \<Longrightarrow> n \<le> max_int64 \<Longrightarrow> atoi (itoa n) = Some n"
  by (simp add: atoi_def parse_dec_itoa)

lemma parse_uint32_nat_str: "n < 2 ^ 32 \<Longrightarrow> parse_uint32 (nat_str n) = Some n"
  by (simp add: parse_uint32_def)

lemma itoa_inj: "itoa m = itoa n \<Longrightarrow> m = n"
proof -
  assume e: "itoa m = itoa n"
  have p: "parse_dec (min m n) (max m n) (itoa m) = Some m" by (rule parse_dec_itoa) auto
  have "parse_dec (min m n) (max m n) (itoa n) = Some n" by (rule parse_dec_itoa) auto
  with p e show ?thesis by simp
qed

lemma notin_itoa: "\<not> is_digit c \<Longrightarrow> c \<noteq> CHR ''-'' \<Longrightarrow> c \<notin> set (itoa n)"
  by (auto simp: itoa_def digit_notin_nat_str)

section \<open>Association lists\<close>

text \<open>Go's maps are association lists with distinct keys.\<close>

lemma set_alist_update: "set (AList.update k v m) \<subseteq> insert (k, v) (set m)"
  by (induction m) auto

lemma set_alist_delete: "set (AList.delete k m) \<subseteq> set m"
  by (induction m) auto

lemma map_of_alist_update [simp]:
  "map_of (AList.update k v m) k' = (if k' = k then Some v else map_of m k')"
  by (simp add: update_conv')

lemma map_of_alist_delete [simp]:
  "map_of (AList.delete k m) k' = (if k' = k then None else map_of m k')"
  by (simp add: delete_conv')

lemma find_SomeD: "find P xs = Some x \<Longrightarrow> x \<in> set xs \<and> P x"
  by (induction xs) (auto split: if_splits)

end
