(* ===== verification/Limiter.thy ===== *)
theory Limiter
  imports Ov_Prelude "HOL-Library.AList"
begin

text \<open>
  \<^verbatim>\<open>relay/limiter.go\<close>: the PIN limiter shared by \<open>HandleWatch\<close> and \<open>HandleDashboardLogin\<close>.
  A Go map is an association list with distinct keys; \<open>len\<close> is its length. Every operation
  takes the value of the clock \<open>l.now()\<close> it reads, in nanoseconds since Go's zero \<open>Time\<close>, so
  a difference of instants that is negative in Go is \<open>0\<close> here: both fail \<open>> l.window\<close>.

  The limiter forgets stale addresses when its table is full. \<open>spec_run\<close> is the contract without
  that memory bound: one record per address, never forgotten. The simulation shows that
  forgetting is invisible: whether an address is allowed never depends on the pruning.
\<close>

record ip_attempts =
  fails :: nat
  windowStart :: instant
  blockedUntil :: instant

record pin_limiter =
  attempts :: "(string \<times> ip_attempts) list"
  maxFails :: nat
  window :: nat
  block :: nat
  maxIPs :: nat

definition nanos :: "nat \<Rightarrow> nat" where "nanos s = s * 1000000000"

definition newPinLimiter :: pin_limiter where
  "newPinLimiter = \<lparr>attempts = [], maxFails = 5, window = nanos 60, block = nanos 300,
     maxIPs = 10000\<rparr>"

definition allowed :: "pin_limiter \<Rightarrow> instant \<Rightarrow> string \<Rightarrow> bool" where
  "allowed l now ip = (case map_of (attempts l) ip of
      None \<Rightarrow> True
    | Some a \<Rightarrow> \<not> now < blockedUntil a)"

definition pruneLocked :: "pin_limiter \<Rightarrow> instant \<Rightarrow> pin_limiter" where
  "pruneLocked l now = l\<lparr>attempts := filter (\<lambda>(ip, a).
     \<not> (blockedUntil a < now \<and> window l < now - windowStart a)) (attempts l)\<rparr>"

definition zero_attempts :: "instant \<Rightarrow> ip_attempts" where
  "zero_attempts now = \<lparr>fails = 0, windowStart = now, blockedUntil = 0\<rparr>"

definition bump_attempts :: "pin_limiter \<Rightarrow> instant \<Rightarrow> ip_attempts \<Rightarrow> ip_attempts" where
  "bump_attempts l now a =
     (let a1 = (if window l < now - windowStart a then a\<lparr>fails := 0, windowStart := now\<rparr> else a);
          a2 = a1\<lparr>fails := fails a1 + 1\<rparr>
      in if maxFails l \<le> fails a2
         then a2\<lparr>blockedUntil := now + block l, fails := 0, windowStart := now\<rparr> else a2)"

definition recordFailure :: "pin_limiter \<Rightarrow> instant \<Rightarrow> string \<Rightarrow> pin_limiter" where
  "recordFailure l now ip =
     (case map_of (attempts l) ip of
        None \<Rightarrow>
          let l1 = (if maxIPs l \<le> length (attempts l) then pruneLocked l now else l)
          in l1\<lparr>attempts := AList.update ip (bump_attempts l now (zero_attempts now)) (attempts l1)\<rparr>
      | Some a \<Rightarrow> l\<lparr>attempts := AList.update ip (bump_attempts l now a) (attempts l)\<rparr>)"

definition recordSuccess :: "pin_limiter \<Rightarrow> string \<Rightarrow> pin_limiter" where
  "recordSuccess l ip = l\<lparr>attempts := AList.delete ip (attempts l)\<rparr>"

section \<open>Runs\<close>

datatype limiter_op = Fail string | Succeed string

fun limiter_step :: "pin_limiter \<Rightarrow> instant \<times> limiter_op \<Rightarrow> pin_limiter" where
  "limiter_step l (now, Fail ip) = recordFailure l now ip"
| "limiter_step l (now, Succeed ip) = recordSuccess l ip"

definition limiter_run :: "pin_limiter \<Rightarrow> (instant \<times> limiter_op) list \<Rightarrow> pin_limiter" where
  "limiter_run l ops = foldl limiter_step l ops"

definition limiter_wf :: "pin_limiter \<Rightarrow> bool" where
  "limiter_wf l = distinct (map fst (attempts l))"

lemma limiter_wf_new [inv_intros]: "limiter_wf newPinLimiter"
  by (simp add: limiter_wf_def newPinLimiter_def)

lemma limiter_wf_prune [inv_intros]: "limiter_wf l \<Longrightarrow> limiter_wf (pruneLocked l now)"
  by (simp add: limiter_wf_def pruneLocked_def distinct_map_filter)

lemma limiter_wf_failure [inv_intros]: "limiter_wf l \<Longrightarrow> limiter_wf (recordFailure l now ip)"
  using limiter_wf_prune [of l now]
  by (auto simp: recordFailure_def limiter_wf_def Let_def distinct_update split: option.split)

lemma limiter_wf_success [inv_intros]: "limiter_wf l \<Longrightarrow> limiter_wf (recordSuccess l ip)"
  by (simp add: recordSuccess_def limiter_wf_def distinct_delete)

lemma limiter_params [simp]:
  "maxFails (pruneLocked l now) = maxFails l" "window (pruneLocked l now) = window l"
  "block (pruneLocked l now) = block l" "maxIPs (pruneLocked l now) = maxIPs l"
  "maxFails (recordFailure l now ip) = maxFails l" "window (recordFailure l now ip) = window l"
  "block (recordFailure l now ip) = block l" "maxIPs (recordFailure l now ip) = maxIPs l"
  "maxFails (recordSuccess l ip) = maxFails l" "window (recordSuccess l ip) = window l"
  "block (recordSuccess l ip) = block l" "maxIPs (recordSuccess l ip) = maxIPs l"
  by (simp_all add: pruneLocked_def recordFailure_def recordSuccess_def Let_def split: option.split)

lemma map_of_filter_distinct:
  "distinct (map fst xs) \<Longrightarrow>
     map_of (filter (\<lambda>(k, v). P v) xs) k = (case map_of xs k of None \<Rightarrow> None
       | Some v \<Rightarrow> if P v then Some v else None)"
proof (induction xs)
  case Nil
  then show ?case by simp
next
  case (Cons x xs)
  obtain k' v where x: "x = (k', v)" by (cases x)
  show ?case
  proof (cases "k = k'")
    case True
    with Cons.prems x have "map_of xs k = None" by (simp add: map_of_eq_None_iff)
    with Cons x True show ?thesis by simp
  next
    case False
    with Cons x show ?thesis by simp
  qed
qed

lemma lookup_prune:
  "limiter_wf l \<Longrightarrow> map_of (attempts (pruneLocked l now)) ip =
     (case map_of (attempts l) ip of None \<Rightarrow> None
      | Some a \<Rightarrow> if blockedUntil a < now \<and> window l < now - windowStart a then None else Some a)"
  by (simp add: pruneLocked_def limiter_wf_def map_of_filter_distinct split: option.split)

section \<open>The contract: one record per address\<close>

type_synonym limiter_spec = "string \<Rightarrow> ip_attempts option"

fun spec_step :: "pin_limiter \<Rightarrow> limiter_spec \<Rightarrow> instant \<times> limiter_op \<Rightarrow> limiter_spec" where
  "spec_step l m (now, Fail ip) = m(ip \<mapsto> bump_attempts l now
     (case m ip of None \<Rightarrow> zero_attempts now | Some a \<Rightarrow> a))"
| "spec_step l m (now, Succeed ip) = m(ip := None)"

definition spec_run :: "pin_limiter \<Rightarrow> limiter_spec \<Rightarrow> (instant \<times> limiter_op) list \<Rightarrow> limiter_spec" where
  "spec_run l m ops = foldl (spec_step l) m ops"

definition spec_allowed :: "limiter_spec \<Rightarrow> instant \<Rightarrow> string \<Rightarrow> bool" where
  "spec_allowed m now ip = (case m ip of None \<Rightarrow> True | Some a \<Rightarrow> \<not> now < blockedUntil a)"

text \<open>Two records agree at \<open>now\<close> when no later operation can tell them apart.\<close>

definition same_at :: "instant \<Rightarrow> ip_attempts \<Rightarrow> ip_attempts \<Rightarrow> bool" where
  "same_at now a b = (fails a = fails b \<and> windowStart a = windowStart b
     \<and> (blockedUntil a = blockedUntil b \<or> (blockedUntil a \<le> now \<and> blockedUntil b \<le> now)))"

definition sim_at :: "nat \<Rightarrow> instant \<Rightarrow> ip_attempts option \<Rightarrow> ip_attempts option \<Rightarrow> bool" where
  "sim_at w now c s = (case c of
      None \<Rightarrow> (case s of None \<Rightarrow> True | Some b \<Rightarrow> blockedUntil b \<le> now \<and> w < now - windowStart b)
    | Some a \<Rightarrow> (case s of None \<Rightarrow> False | Some b \<Rightarrow> same_at now a b))"

definition sim :: "instant \<Rightarrow> pin_limiter \<Rightarrow> limiter_spec \<Rightarrow> bool" where
  "sim now l m = (limiter_wf l \<and> (\<forall>ip. sim_at (window l) now (map_of (attempts l) ip) (m ip)))"

lemma sim_at_later: "sim_at w now c s \<Longrightarrow> now \<le> now' \<Longrightarrow> sim_at w now' c s"
  by (auto simp: sim_at_def same_at_def split: option.splits)

lemma sim_later: "sim now l m \<Longrightarrow> now \<le> now' \<Longrightarrow> sim now' l m"
  by (auto simp: sim_def intro: sim_at_later)

lemma sim_at_forget:
  "sim_at w now (Some a) s \<Longrightarrow> blockedUntil a < now \<Longrightarrow> w < now - windowStart a \<Longrightarrow>
     sim_at w now None s"
  by (auto simp: sim_at_def same_at_def split: option.splits)

lemma simD: "sim now l m \<Longrightarrow> sim_at (window l) now (map_of (attempts l) ip) (m ip)"
  by (simp add: sim_def)

lemma simI:
  "limiter_wf l \<Longrightarrow> (\<And>ip. sim_at (window l) now (map_of (attempts l) ip) (m ip)) \<Longrightarrow> sim now l m"
  by (simp add: sim_def)

lemma sim_prune:
  assumes "sim now l m"
  shows "sim now (pruneLocked l now) m"
proof (rule simI)
  have wf: "limiter_wf l" using assms by (simp add: sim_def)
  then show "limiter_wf (pruneLocked l now)" by (rule limiter_wf_prune)
  fix ip
  show "sim_at (window (pruneLocked l now)) now (map_of (attempts (pruneLocked l now)) ip) (m ip)"
    using simD [OF assms, of ip] wf
    by (cases "map_of (attempts l) ip") (auto simp: lookup_prune intro: sim_at_forget)
qed

lemma bump_same:
  "same_at now a b \<Longrightarrow> same_at now (bump_attempts l now a) (bump_attempts l now b)"
  by (auto simp: same_at_def bump_attempts_def Let_def)

lemma bump_forgotten:
  assumes "blockedUntil b \<le> now" "window l < now - windowStart b"
  shows "same_at now (bump_attempts l now (zero_attempts now)) (bump_attempts l now b)"
  using assms by (auto simp: same_at_def bump_attempts_def zero_attempts_def Let_def)

lemma same_at_refl [simp]: "same_at now a a"
  by (simp add: same_at_def)

lemma sim_at_bump:
  "sim_at (window l) now c s \<Longrightarrow> sim_at w now
     (Some (bump_attempts l now (case c of None \<Rightarrow> zero_attempts now | Some a \<Rightarrow> a)))
     (Some (bump_attempts l now (case s of None \<Rightarrow> zero_attempts now | Some b \<Rightarrow> b)))"
  by (auto simp: sim_at_def intro: bump_same bump_forgotten split: option.splits)

lemma bump_prune [simp]: "bump_attempts (pruneLocked l t) now a = bump_attempts l now a"
  by (simp add: bump_attempts_def Let_def)

lemma recordFailure_alt:
  assumes "limiter_wf l"
  obtains l1 where "l1 = l \<or> l1 = pruneLocked l now"
    and "recordFailure l now ip = l1\<lparr>attempts := AList.update ip (bump_attempts l now
           (case map_of (attempts l1) ip of None \<Rightarrow> zero_attempts now | Some a \<Rightarrow> a)) (attempts l1)\<rparr>"
proof (cases "map_of (attempts l) ip")
  case None
  then have "map_of (attempts (pruneLocked l now)) ip = None"
    using assms by (simp add: lookup_prune)
  with None show ?thesis
    using that [of "if maxIPs l \<le> length (attempts l) then pruneLocked l now else l"]
    by (auto simp: recordFailure_def Let_def)
next
  case (Some a)
  with that [of l] show ?thesis by (simp add: recordFailure_def)
qed

lemma sim_failure:
  assumes "sim now l m"
  shows "sim now (recordFailure l now ip) (spec_step l m (now, Fail ip))"
proof -
  from assms have wf: "limiter_wf l" by (simp add: sim_def)
  obtain l1 where l1: "l1 = l \<or> l1 = pruneLocked l now"
    and rf: "recordFailure l now ip = l1\<lparr>attempts := AList.update ip (bump_attempts l now
           (case map_of (attempts l1) ip of None \<Rightarrow> zero_attempts now | Some a \<Rightarrow> a)) (attempts l1)\<rparr>"
    using recordFailure_alt [OF wf] by blast
  from l1 assms have s: "sim now l1 m" and w: "window l1 = window l" by (auto intro: sim_prune)
  have b: "sim_at (window l) now
     (Some (bump_attempts l now (case map_of (attempts l1) ip of None \<Rightarrow> zero_attempts now | Some a \<Rightarrow> a)))
     (Some (bump_attempts l now (case m ip of None \<Rightarrow> zero_attempts now | Some b \<Rightarrow> b)))"
    by (rule sim_at_bump) (use s w in \<open>simp add: sim_def\<close>)
  have "limiter_wf (recordFailure l now ip)" using wf by (rule limiter_wf_failure)
  with s w b show ?thesis
    by (auto simp: sim_def rf update_conv')
qed

lemma sim_success:
  assumes "sim now l m"
  shows "sim now (recordSuccess l ip) (spec_step l m (now, Succeed ip))"
  using assms limiter_wf_success [of l ip]
  by (auto simp: sim_def recordSuccess_def delete_conv' sim_at_def)

lemma sim_step: "sim now l m \<Longrightarrow> sim now (limiter_step l (now, op)) (spec_step l m (now, op))"
  by (cases op) (auto intro: sim_failure sim_success simp del: spec_step.simps)

lemma limiter_step_params [simp]:
  "window (limiter_step l e) = window l" "block (limiter_step l e) = block l"
  "maxFails (limiter_step l e) = maxFails l"
  by (cases "(l, e)" rule: limiter_step.cases; simp)+

lemma spec_step_params:
  "window l = window l' \<Longrightarrow> block l = block l' \<Longrightarrow> maxFails l = maxFails l' \<Longrightarrow>
     spec_step l = spec_step l'"
proof (intro ext)
  fix m e ip
  assume "window l = window l'" "block l = block l'" "maxFails l = maxFails l'"
  then have "bump_attempts l = bump_attempts l'"
    by (intro ext) (simp add: bump_attempts_def Let_def)
  then show "spec_step l m e ip = spec_step l' m e ip"
    by (cases e; cases "snd e") simp_all
qed

lemma sim_run:
  "sim t0 l m \<Longrightarrow> sorted (t0 # map fst ops) \<Longrightarrow>
     sim (last (t0 # map fst ops)) (limiter_run l ops) (spec_run l m ops)"
proof (induction ops arbitrary: t0 l m)
  case Nil
  then show ?case by (simp add: limiter_run_def spec_run_def)
next
  case (Cons e ops)
  obtain t op where e: "e = (t, op)" by (cases e)
  have "sim t (limiter_step l e) (spec_step l m e)"
    using Cons.prems e by (auto intro: sim_step sim_later)
  from Cons.IH [OF this] Cons.prems(2) e
  have "sim (last (t # map fst ops)) (limiter_run (limiter_step l e) ops)
     (spec_run (limiter_step l e) (spec_step l m e) ops)" by simp
  moreover have "spec_step (limiter_step l e) = spec_step l"
    by (rule spec_step_params) simp_all
  ultimately show ?case using e by (auto simp: limiter_run_def spec_run_def)
qed

lemma sim_new: "sim t newPinLimiter Map.empty"
  by (simp add: sim_def limiter_wf_new) (simp add: newPinLimiter_def sim_at_def)

lemma sim_allowed:
  assumes "sim now l m"
  shows "allowed l now ip = spec_allowed m now ip"
  using simD [OF assms, of ip]
  by (cases "map_of (attempts l) ip"; cases "m ip")
     (auto simp: sim_at_def same_at_def allowed_def spec_allowed_def)

lemma allowed_run:
  assumes "sorted (map fst ops @ [now])"
  shows "allowed (limiter_run newPinLimiter ops) now ip
     = spec_allowed (spec_run newPinLimiter Map.empty ops) now ip"
proof -
  have "sorted (0 # map fst ops)" using assms by (simp add: sorted_append)
  from sim_run [OF sim_new this]
  have "sim (last (0 # map fst ops)) (limiter_run newPinLimiter ops)
     (spec_run newPinLimiter Map.empty ops)" .
  moreover have "last (0 # map fst ops) \<le> now"
    using assms by (cases ops rule: rev_cases) (auto simp: sorted_append)
  ultimately show ?thesis by (intro sim_allowed) (rule sim_later)
qed

section \<open>What one address sees\<close>

fun op_ip :: "limiter_op \<Rightarrow> string" where
  "op_ip (Fail ip) = ip" | "op_ip (Succeed ip) = ip"

definition own_ops :: "string \<Rightarrow> (instant \<times> limiter_op) list \<Rightarrow> (instant \<times> limiter_op) list" where
  "own_ops ip ops = filter (\<lambda>e. op_ip (snd e) = ip) ops"

lemma spec_other: "op_ip (snd e) \<noteq> ip \<Longrightarrow> spec_step l m e ip = m ip"
  by (cases e; cases "snd e") auto

lemma spec_own: "m ip = m' ip \<Longrightarrow> op_ip (snd e) = ip \<Longrightarrow> spec_step l m e ip = spec_step l m' e ip"
  by (cases e; cases "snd e") auto

lemma spec_run_own:
  "m ip = m' ip \<Longrightarrow> spec_run l m ops ip = spec_run l m' (own_ops ip ops) ip"
proof (induction ops arbitrary: m m')
  case Nil
  then show ?case by (simp add: spec_run_def own_ops_def)
next
  case (Cons e ops)
  show ?case
  proof (cases "op_ip (snd e) = ip")
    case True
    with Cons.prems have "spec_step l m e ip = spec_step l m' e ip" by (intro spec_own)
    from Cons.IH [of "spec_step l m e" "spec_step l m' e", OF this] True
    show ?thesis by (simp add: spec_run_def own_ops_def)
  next
    case False
    then have "spec_step l m e ip = m' ip" using Cons.prems by (simp add: spec_other)
    from Cons.IH [of "spec_step l m e" m', OF this] False
    show ?thesis by (simp add: spec_run_def own_ops_def)
  qed
qed

lemma bump_count:
  assumes "t - w \<le> nanos 60" "k < 4"
  shows "bump_attempts newPinLimiter t \<lparr>fails = k, windowStart = w, blockedUntil = 0\<rparr>
     = \<lparr>fails = Suc k, windowStart = w, blockedUntil = 0\<rparr>"
  using assms by (simp add: bump_attempts_def newPinLimiter_def Let_def)

lemma bump_block:
  assumes "t - w \<le> nanos 60"
  shows "bump_attempts newPinLimiter t \<lparr>fails = 4, windowStart = w, blockedUntil = 0\<rparr>
     = \<lparr>fails = 0, windowStart = t, blockedUntil = t + nanos 300\<rparr>"
  using assms by (simp add: bump_attempts_def newPinLimiter_def Let_def)

definition few :: "nat \<Rightarrow> ip_attempts option \<Rightarrow> bool" where
  "few n a = (case a of None \<Rightarrow> True | Some a \<Rightarrow> fails a \<le> n \<and> blockedUntil a = 0)"

lemma few_step:
  assumes "few n (m ip)" "n + length (filter (\<lambda>e. snd e = Fail ip) [e]) < 5"
  shows "few (n + length (filter (\<lambda>e. snd e = Fail ip) [e])) (spec_step newPinLimiter m e ip)"
proof (cases e)
  case (Pair t op)
  with assms show ?thesis
    by (cases op)
       (auto simp: few_def bump_attempts_def newPinLimiter_def zero_attempts_def Let_def
          split: option.split option.split_asm)
qed

lemma few_run:
  "few n (m ip) \<Longrightarrow> n + length (filter (\<lambda>e. snd e = Fail ip) ops) < 5 \<Longrightarrow>
     few 5 (spec_run newPinLimiter m ops ip)"
proof (induction ops arbitrary: m n)
  case Nil
  then show ?case by (auto simp: few_def spec_run_def split: option.splits)
next
  case (Cons e ops)
  let ?k = "length (filter (\<lambda>e. snd e = Fail ip) [e])"
  have "few (n + ?k) (spec_step newPinLimiter m e ip)"
    by (rule few_step) (use Cons.prems in \<open>auto split: if_splits\<close>)
  from Cons.IH [of "n + ?k" "spec_step newPinLimiter m e", OF this] Cons.prems(2) show ?case
    by (auto simp: spec_run_def split: if_splits)
qed

lemma same_time_failures:
  assumes "distinct (map fst (attempts l) @ ips)"
    and "\<forall>a\<in>snd ` set (attempts l). windowStart a = t" and "maxFails l > 1"
  shows "length (attempts (limiter_run l (map (\<lambda>ip. (t, Fail ip)) ips)))
     = length (attempts l) + length ips"
  using assms
proof (induction ips arbitrary: l)
  case Nil
  then show ?case by (simp add: limiter_run_def)
next
  case (Cons ip ips)
  have p: "attempts (pruneLocked l t) = attempts l"
    using Cons.prems(2) by (force simp: pruneLocked_def intro!: filter_True)
  have n: "map_of (attempts l) ip = None"
    using Cons.prems(1) by (simp add: map_of_eq_None_iff)
  let ?a = "bump_attempts l t (zero_attempts t)"
  have a: "windowStart ?a = t"
    by (simp add: bump_attempts_def zero_attempts_def Let_def)
  have upd: "attempts (recordFailure l t ip) = AList.update ip ?a (attempts l)"
    using n p by (simp add: recordFailure_def Let_def)
  have app: "AList.update ip ?a xs = xs @ [(ip, ?a)]" if "ip \<notin> fst ` set xs" for xs
    using that by (induction xs) auto
  have att: "attempts (recordFailure l t ip) = attempts l @ [(ip, ?a)]"
    using upd app Cons.prems(1) by simp
  have "length (attempts (limiter_run (recordFailure l t ip) (map (\<lambda>ip. (t, Fail ip)) ips)))
     = length (attempts (recordFailure l t ip)) + length ips"
    by (rule Cons.IH) (use Cons.prems att a in auto)
  with att show ?case by (simp add: limiter_run_def)
qed

section \<open>Properties\<close>

text \<open>C4. Forgetting stale addresses is invisible: on every run with a monotone clock the limiter
  answers \<open>allowed\<close> exactly as the contract that keeps one record per address for ever.\<close>

theorem limiter_refines_spec:
  assumes "sorted (map fst ops @ [now])"
  shows "allowed (limiter_run newPinLimiter ops) now ip
     = spec_allowed (spec_run newPinLimiter Map.empty ops) now ip"
  using assms by (rule allowed_run)

theorem limiter_refines_spec_witness:
  "allowed (limiter_run newPinLimiter [(5, Fail ''a''), (9, Succeed ''b'')]) 12 ''a''
     = spec_allowed (spec_run newPinLimiter Map.empty [(5, Fail ''a''), (9, Succeed ''b'')]) 12 ''a''"
  by (rule limiter_refines_spec) simp

text \<open>Lockout: an address whose only attempts are five failures inside one minute is refused
  for the five minutes after the fifth, however many attempts of other addresses (and however
  many prunings they cause) are interleaved with them.\<close>

lemma five_failures_block:
  assumes "sorted (map fst ops @ [now])"
    and "own_ops ip ops = map (\<lambda>t. (t, Fail ip)) ts" "length ts = 5"
    and "last ts \<le> hd ts + nanos 60" "now < last ts + nanos 300"
  shows "\<not> allowed (limiter_run newPinLimiter ops) now ip"
proof -
  from assms(3) obtain t1 t2 t3 t4 t5 where ts: "ts = [t1, t2, t3, t4, t5]"
    by (auto simp: length_Suc_conv numeral_eq_Suc)
  have "sorted (map fst (own_ops ip ops))"
    using assms(1) unfolding own_ops_def sorted_append by (auto intro: sorted_filter)
  with ts assms(2) have "sorted [t1, t2, t3, t4, t5]" by simp
  then have d: "t1 - t1 \<le> nanos 60" "t2 - t1 \<le> nanos 60" "t3 - t1 \<le> nanos 60"
      "t4 - t1 \<le> nanos 60" "t5 - t1 \<le> nanos 60"
    using assms(4) ts by auto
  have "spec_run newPinLimiter Map.empty (own_ops ip ops) ip
      = Some \<lparr>fails = 0, windowStart = t5, blockedUntil = t5 + nanos 300\<rparr>"
    using d bump_block [OF d(5)]
    by (simp add: ts assms(2) spec_run_def zero_attempts_def bump_count numeral_eq_Suc)
  then have "\<not> spec_allowed (spec_run newPinLimiter Map.empty ops) now ip"
    using spec_run_own [of Map.empty ip Map.empty newPinLimiter ops] assms(5) ts
    by (simp add: spec_allowed_def)
  then show ?thesis using allowed_run [OF assms(1)] by simp
qed

text \<open>No false lockout: an address with fewer than five failures in its whole history is
  always allowed.\<close>

lemma few_failures_allowed:
  assumes "sorted (map fst ops @ [now])"
    and "length (filter (\<lambda>e. snd e = Fail ip) ops) < 5"
  shows "allowed (limiter_run newPinLimiter ops) now ip"
proof -
  have "few 5 (spec_run newPinLimiter Map.empty ops ip)"
    by (rule few_run [of 0]) (use assms(2) in \<open>simp_all add: few_def\<close>)
  then have "spec_allowed (spec_run newPinLimiter Map.empty ops) now ip"
    by (auto simp: few_def spec_allowed_def split: option.splits)
  then show ?thesis using allowed_run [OF assms(1)] by simp
qed

text \<open>The table is not bounded by \<open>maxIPs\<close>: when no entry is stale, pruning removes nothing
  and the new entry is stored all the same, so failures from \<open>n\<close> addresses at one instant leave
  \<open>n\<close> entries, whatever \<open>n\<close> is.\<close>

lemma limiter_table_unbounded:
  "\<exists>ops. sorted (map fst ops) \<and> length (attempts (limiter_run newPinLimiter ops)) = n"
proof (intro exI conjI)
  let ?ips = "map nat_str [0..<n]"
  let ?ops = "map (\<lambda>ip. (1::instant, Fail ip)) ?ips"
  show "sorted (map fst ?ops)" by (simp add: sorted_map comp_def)
  have "distinct ?ips" by (auto simp: distinct_map intro: inj_onI nat_str_inj)
  then have "length (attempts (limiter_run newPinLimiter ?ops))
      = length (attempts newPinLimiter) + length ?ips"
    by (intro same_time_failures) (simp_all add: newPinLimiter_def)
  then show "length (attempts (limiter_run newPinLimiter ?ops)) = n"
    by (simp add: newPinLimiter_def)
qed

end
