(* ===== verification/Ovp_Wire.thy ===== *)
theory Ovp_Wire
  imports Ov_Prelude
begin

text \<open>
  \<^verbatim>\<open>proto/ovp.go\<close>: the OVP v1 message header, \<open>EncodeHeader\<close>, \<open>DecodeHeader\<close>, \<open>ReadMessage\<close>
  and \<open>MarshalMessage\<close>. Two interfaces carry the codec proofs: \<open>wire_field\<close> (a fixed-size
  field) and \<open>stream_codec\<close> (an encoder and a decoder that hands back the unread bytes). Every
  law about truncation, unique decoding and sequences of messages is proved once in
  \<open>stream_codec\<close> and used through its interpretations.
\<close>

section \<open>The codec interfaces\<close>

locale wire_field =
  fixes size :: nat
    and put :: "'a \<Rightarrow> bytes"
    and get :: "bytes \<Rightarrow> 'a"
  assumes length_put: "length (put x) = size"
    and get_put: "get (put x) = x"
    and put_get: "length bs = size \<Longrightarrow> put (get bs) = bs"
begin

lemma take_put: "take size (put x @ r) = put x"
  by (simp add: length_put)

lemma drop_put: "drop size (put x @ r) = r"
  by (simp add: length_put)

lemma get_take_put: "get (take size (put x @ r)) = x"
  by (simp only: take_put get_put)

lemma split_field: "size \<le> length bs \<Longrightarrow> bs = put (get (take size bs)) @ drop size bs"
  by (simp add: put_get)

lemma split_field_at:
  assumes "n = k + size" "n \<le> length bs"
  shows "drop k bs = put (get (take size (drop k bs))) @ drop n bs"
proof -
  from assms have "drop n bs = drop size (drop k bs)" by (simp add: add.commute)
  moreover have "size \<le> length (drop k bs)" using assms by simp
  ultimately show ?thesis using split_field [of "drop k bs"] by simp
qed

end

locale stream_codec =
  fixes enc :: "'a \<Rightarrow> bytes"
    and dec :: "bytes \<Rightarrow> 'e + ('a \<times> bytes)"
    and ok :: "'a \<Rightarrow> bool"
  assumes dec_enc: "ok x \<Longrightarrow> dec (enc x @ r) = Inr (x, r)"
    and dec_sound: "dec bs = Inr (x, r) \<Longrightarrow> ok x \<and> bs = enc x @ r"
begin

lemma unique_decoding:
  assumes "ok x" "ok y" "enc x @ r = enc y @ s"
  shows "x = y \<and> r = s"
proof -
  from assms(1,3) have "dec (enc y @ s) = Inr (x, r)"
    using dec_enc [of x r] by simp
  with dec_enc [OF assms(2), of s] show ?thesis by simp
qed

lemma truncated_fails:
  assumes "ok x" "enc x = p @ q" "q \<noteq> []"
  shows "\<exists>e. dec p = Inl e"
proof (cases "dec p")
  case (Inr b)
  then obtain y r where y: "dec p = Inr (y, r)" by (cases b) auto
  then have "ok y" and p: "p = enc y @ r" using dec_sound by auto
  with assms(2) have "enc x @ [] = enc y @ (r @ q)" by simp
  from unique_decoding [OF assms(1) \<open>ok y\<close> this] assms(3) show ?thesis by simp
qed auto

lemma consumes: "dec bs = Inr (x, r) \<Longrightarrow> length bs = length (enc x) + length r"
  using dec_sound by fastforce

end

section \<open>Fixed-width fields\<close>

definition put_u16 :: "16 word \<Rightarrow> bytes" where "put_u16 w = put_le 2 (unat w)"
definition get_u16 :: "bytes \<Rightarrow> 16 word" where "get_u16 bs = word_of_nat (get_le bs)"
definition put_u32 :: "32 word \<Rightarrow> bytes" where "put_u32 w = put_le 4 (unat w)"
definition get_u32 :: "bytes \<Rightarrow> 32 word" where "get_u32 bs = word_of_nat (get_le bs)"
definition put_u64 :: "64 word \<Rightarrow> bytes" where "put_u64 w = put_le 8 (unat w)"
definition get_u64 :: "bytes \<Rightarrow> 64 word" where "get_u64 bs = word_of_nat (get_le bs)"

lemma put_le_get_le_n: "length bs = n \<Longrightarrow> put_le n (get_le bs) = bs"
  using put_get_le [of bs] by simp

lemma get_le_bound_n: "length bs = n \<Longrightarrow> get_le bs < 256 ^ n"
  using get_le_bound [of bs] by simp

lemma unat_u16_less: "unat (w :: 16 word) < 256 ^ 2"
  using unsigned_less [of w] by simp

lemma unat_u32_less: "unat (w :: 32 word) < 256 ^ 4"
  using unsigned_less [of w] by simp

lemma unat_u64_less: "unat (w :: 64 word) < 256 ^ 8"
  using unsigned_less [of w] by simp

interpretation u16: wire_field 2 put_u16 get_u16
proof unfold_locales
  fix x :: "16 word"
  show "length (put_u16 x) = 2" by (simp add: put_u16_def)
  show "get_u16 (put_u16 x) = x"
    using unat_u16_less [of x] by (simp add: put_u16_def get_u16_def)
next
  fix bs :: bytes
  assume "length bs = 2"
  then show "put_u16 (get_u16 bs) = bs"
    using get_le_bound_n [of bs 2]
    by (simp add: put_u16_def get_u16_def unat_of_nat put_le_get_le_n)
qed

interpretation u32: wire_field 4 put_u32 get_u32
proof unfold_locales
  fix x :: "32 word"
  show "length (put_u32 x) = 4" by (simp add: put_u32_def)
  show "get_u32 (put_u32 x) = x"
    using unat_u32_less [of x] by (simp add: put_u32_def get_u32_def)
next
  fix bs :: bytes
  assume "length bs = 4"
  then show "put_u32 (get_u32 bs) = bs"
    using get_le_bound_n [of bs 4]
    by (simp add: put_u32_def get_u32_def unat_of_nat put_le_get_le_n)
qed

interpretation u64: wire_field 8 put_u64 get_u64
proof unfold_locales
  fix x :: "64 word"
  show "length (put_u64 x) = 8" by (simp add: put_u64_def)
  show "get_u64 (put_u64 x) = x"
    using unat_u64_less [of x] by (simp add: put_u64_def get_u64_def)
next
  fix bs :: bytes
  assume "length bs = 8"
  then show "put_u64 (get_u64 bs) = bs"
    using get_le_bound_n [of bs 8]
    by (simp add: put_u64_def get_u64_def unat_of_nat put_le_get_le_n)
qed

lemmas field_simps_wire [wire_simps] =
  u16.length_put u16.get_put u16.drop_put u16.take_put
  u32.length_put u32.get_put u32.drop_put u32.take_put
  u64.length_put u64.get_put u64.drop_put u64.take_put

section \<open>The message header\<close>

definition Magic :: "32 word" where "Magic = 0x4F565031"
definition Version :: "16 word" where "Version = 1"
definition HeaderSize :: nat where "HeaderSize = 4 + 2 + 2 + 4"
definition MaxPayloadSize :: nat where "MaxPayloadSize = 64 * 2 ^ 20"

type_synonym message_type = "16 word"

definition MsgHello :: message_type where "MsgHello = 1"
definition MsgAuth :: message_type where "MsgAuth = 2"
definition MsgFrameDelta :: message_type where "MsgFrameDelta = 3"
definition MsgFullFrame :: message_type where "MsgFullFrame = 4"
definition MsgControl :: message_type where "MsgControl = 5"
definition MsgHeartbeat :: message_type where "MsgHeartbeat = 6"
definition MsgError :: message_type where "MsgError = 7"
definition MsgReady :: message_type where "MsgReady = 8"
definition MsgSurvConfig :: message_type where "MsgSurvConfig = 9"
definition MsgSurvSnapshot :: message_type where "MsgSurvSnapshot = 10"
definition MsgSurvMeta :: message_type where "MsgSurvMeta = 11"
definition MsgAgentControl :: message_type where "MsgAgentControl = 12"
definition MsgSurvEvent :: message_type where "MsgSurvEvent = 13"
definition MsgSurvEventThumb :: message_type where "MsgSurvEventThumb = 14"

lemmas msg_type_defs = MsgHello_def MsgAuth_def MsgFrameDelta_def MsgFullFrame_def
  MsgControl_def MsgHeartbeat_def MsgError_def MsgReady_def MsgSurvConfig_def
  MsgSurvSnapshot_def MsgSurvMeta_def MsgAgentControl_def MsgSurvEvent_def MsgSurvEventThumb_def

definition MessageType_String :: "message_type \<Rightarrow> string" where
  "MessageType_String m =
     (if m = MsgHello then ''HELLO''
      else if m = MsgAuth then ''AUTH''
      else if m = MsgFrameDelta then ''FRAME_DELTA''
      else if m = MsgFullFrame then ''FULL_FRAME''
      else if m = MsgControl then ''CONTROL''
      else if m = MsgHeartbeat then ''HEARTBEAT''
      else if m = MsgError then ''ERROR''
      else if m = MsgReady then ''READY''
      else if m = MsgSurvConfig then ''SURV_CONFIG''
      else if m = MsgSurvSnapshot then ''SURV_SNAPSHOT''
      else if m = MsgSurvMeta then ''SURV_META''
      else if m = MsgAgentControl then ''AGENT_CONTROL''
      else if m = MsgSurvEvent then ''SURV_EVENT''
      else if m = MsgSurvEventThumb then ''SURV_EVENT_THUMB''
      else ''UNKNOWN('' @ nat_str (unat m) @ '')'')"

record header =
  h_magic :: "32 word"
  h_version :: "16 word"
  h_type :: message_type
  h_payload_len :: "32 word"

definition zero_header :: header where
  "zero_header = \<lparr>h_magic = 0, h_version = 0, h_type = 0, h_payload_len = 0\<rparr>"

datatype ovp_error =
    IO_EOF
  | IO_UnexpectedEOF
  | ShortHeaderBuffer
  | BadMagic "32 word"
  | UnsupportedVersion "16 word"
  | PayloadTooLong "32 word"

text \<open>\<open>EncodeHeader\<close> overwrites the first twelve bytes of \<open>buf\<close>; on a shorter buffer the slice
  expressions panic, which is \<open>None\<close>.\<close>

definition EncodeHeader :: "bytes \<Rightarrow> message_type \<Rightarrow> 32 word \<Rightarrow> bytes option" where
  "EncodeHeader buf msgType payloadLen =
     (if length buf < HeaderSize then None
      else Some (put_u32 Magic @ put_u16 Version @ put_u16 msgType @ put_u32 payloadLen
                 @ drop HeaderSize buf))"

text \<open>\<open>DecodeHeader\<close> returns the header it has read so far together with its error.\<close>

definition DecodeHeader :: "bytes \<Rightarrow> (header \<times> ovp_error) + header" where
  "DecodeHeader buf =
     (if length buf < HeaderSize then Inl (zero_header, ShortHeaderBuffer)
      else let h = \<lparr>h_magic = get_u32 (take 4 buf),
                    h_version = get_u16 (take 2 (drop 4 buf)),
                    h_type = get_u16 (take 2 (drop 6 buf)),
                    h_payload_len = get_u32 (take 4 (drop 8 buf))\<rparr>
           in if h_magic h \<noteq> Magic then Inl (h, BadMagic (h_magic h))
              else if h_version h \<noteq> Version then Inl (h, UnsupportedVersion (h_version h))
              else Inr h)"

text \<open>A reader is the list of bytes it will still deliver; \<open>read_full\<close> is \<open>io.ReadFull\<close>.\<close>

definition read_full :: "nat \<Rightarrow> bytes \<Rightarrow> ovp_error + (bytes \<times> bytes)" where
  "read_full n r = (if n \<le> length r then Inr (take n r, drop n r)
     else if r = [] then Inl IO_EOF else Inl IO_UnexpectedEOF)"

definition ReadMessage :: "bytes \<Rightarrow> (header \<times> ovp_error) + ((header \<times> bytes) \<times> bytes)" where
  "ReadMessage r =
     (case read_full HeaderSize r of
        Inl e \<Rightarrow> Inl (zero_header, e)
      | Inr (hbuf, r1) \<Rightarrow>
         (case DecodeHeader hbuf of
            Inl he \<Rightarrow> Inl he
          | Inr h \<Rightarrow>
             if unat (h_payload_len h) > MaxPayloadSize then Inl (h, PayloadTooLong (h_payload_len h))
             else if h_payload_len h > 0 then
               (case read_full (unat (h_payload_len h)) r1 of
                  Inl e \<Rightarrow> Inl (h, e)
                | Inr (payload, r2) \<Rightarrow> Inr ((h, payload), r2))
             else Inr ((h, []), r1)))"

definition MarshalMessage :: "message_type \<Rightarrow> bytes \<Rightarrow> bytes" where
  "MarshalMessage msgType payload =
     (case EncodeHeader (replicate (HeaderSize + length payload) 0) msgType
             (word_of_nat (length payload)) of
        Some msg \<Rightarrow> take HeaderSize msg @ payload
      | None \<Rightarrow> [])"

section \<open>Lemmas\<close>

definition header_bytes :: "message_type \<Rightarrow> 32 word \<Rightarrow> bytes" where
  "header_bytes t n = put_u32 Magic @ put_u16 Version @ put_u16 t @ put_u32 n"

definition mk_header :: "message_type \<Rightarrow> 32 word \<Rightarrow> header" where
  "mk_header t n = \<lparr>h_magic = Magic, h_version = Version, h_type = t, h_payload_len = n\<rparr>"

lemma length_header_bytes [simp, wire_simps]: "length (header_bytes t n) = HeaderSize"
  by (simp add: header_bytes_def HeaderSize_def wire_simps)

lemma MarshalMessage_eq:
  "MarshalMessage t p = header_bytes t (word_of_nat (length p)) @ p"
  by (simp add: MarshalMessage_def EncodeHeader_def header_bytes_def HeaderSize_def wire_simps)

lemma length_MarshalMessage [simp]: "length (MarshalMessage t p) = HeaderSize + length p"
  by (simp add: MarshalMessage_eq)

lemma drop_MarshalMessage [simp]: "drop HeaderSize (MarshalMessage t p) = p"
  by (simp add: MarshalMessage_eq)

lemma DecodeHeader_header_bytes [wire_simps]:
  "DecodeHeader (header_bytes t n @ r) = Inr (mk_header t n)"
  by (simp add: DecodeHeader_def header_bytes_def mk_header_def HeaderSize_def wire_simps)

lemma DecodeHeader_Marshal [simp]:
  "DecodeHeader (MarshalMessage t p) = Inr (mk_header t (word_of_nat (length p)))"
  by (simp add: MarshalMessage_eq DecodeHeader_header_bytes)

lemma DecodeHeader_sound:
  assumes "DecodeHeader buf = Inr h"
  shows "h = mk_header (h_type h) (h_payload_len h)"
    and "buf = header_bytes (h_type h) (h_payload_len h) @ drop HeaderSize buf"
proof -
  let ?h = "\<lparr>h_magic = get_u32 (take 4 buf), h_version = get_u16 (take 2 (drop 4 buf)),
     h_type = get_u16 (take 2 (drop 6 buf)), h_payload_len = get_u32 (take 4 (drop 8 buf))\<rparr>"
  from assms have len: "12 \<le> length buf" and h: "h = ?h"
    and m: "get_u32 (take 4 buf) = Magic" and v: "get_u16 (take 2 (drop 4 buf)) = Version"
    by (auto simp: DecodeHeader_def HeaderSize_def Let_def split: if_splits)
  then show "h = mk_header (h_type h) (h_payload_len h)" by (simp add: mk_header_def)
  have 1: "buf = put_u32 Magic @ drop 4 buf"
    using u32.split_field [of buf] len m by simp
  have 2: "drop 4 buf = put_u16 Version @ drop 6 buf"
    using u16.split_field [of "drop 4 buf"] len v by simp
  have 3: "drop 6 buf = put_u16 (h_type h) @ drop 8 buf"
    using u16.split_field [of "drop 6 buf"] len h by simp
  have 4: "drop 8 buf = put_u32 (h_payload_len h) @ drop 12 buf"
    using u32.split_field [of "drop 8 buf"] len h by simp
  show "buf = header_bytes (h_type h) (h_payload_len h) @ drop HeaderSize buf"
    unfolding header_bytes_def HeaderSize_def using 1 2 3 4 by simp
qed

definition message_ok :: "header \<times> bytes \<Rightarrow> bool" where
  "message_ok m = (fst m = mk_header (h_type (fst m)) (word_of_nat (length (snd m)))
     \<and> length (snd m) \<le> MaxPayloadSize)"

definition marshal_pair :: "header \<times> bytes \<Rightarrow> bytes" where
  "marshal_pair m = MarshalMessage (h_type (fst m)) (snd m)"

lemma unat_payload_len: "n \<le> MaxPayloadSize \<Longrightarrow> unat (word_of_nat n :: 32 word) = n"
  by (simp add: MaxPayloadSize_def unat_of_nat)

lemma read_full_0 [simp]: "read_full 0 r = Inr ([], r)"
  by (simp add: read_full_def)

lemma read_full_append [simp]: "length p = n \<Longrightarrow> read_full n (p @ r) = Inr (p, r)"
  by (simp add: read_full_def)

lemma read_full_Inr: "read_full n r = Inr (p, r') \<longleftrightarrow> r = p @ r' \<and> length p = n"
  by (auto simp: read_full_def)

text \<open>The test \<open>h.PayloadLen > 0\<close> only saves a call: reading zero bytes returns at once.\<close>

lemma ReadMessage_alt:
  "ReadMessage r =
     (case read_full HeaderSize r of
        Inl e \<Rightarrow> Inl (zero_header, e)
      | Inr (hbuf, r1) \<Rightarrow>
         (case DecodeHeader hbuf of
            Inl he \<Rightarrow> Inl he
          | Inr h \<Rightarrow>
             if unat (h_payload_len h) > MaxPayloadSize then Inl (h, PayloadTooLong (h_payload_len h))
             else (case read_full (unat (h_payload_len h)) r1 of
                  Inl e \<Rightarrow> Inl (h, e)
                | Inr (payload, r2) \<Rightarrow> Inr ((h, payload), r2))))"
  unfolding ReadMessage_def by (auto split: sum.split simp: word_gt_0)

lemma ReadMessage_Marshal:
  assumes "length p \<le> MaxPayloadSize"
  shows "ReadMessage (MarshalMessage t p @ r) = Inr ((mk_header t (word_of_nat (length p)), p), r)"
proof -
  have dh: "DecodeHeader (header_bytes t n) = Inr (mk_header t n)" for n
    using DecodeHeader_header_bytes [of t _ "[]"] by simp
  have "unat (word_of_nat (length p) :: 32 word) = length p"
    using assms by (rule unat_payload_len)
  then show ?thesis
    using assms by (simp add: ReadMessage_alt MarshalMessage_eq dh) (simp add: mk_header_def)
qed

lemma ReadMessage_sound:
  assumes "ReadMessage r = Inr ((h, p), r2)"
  shows "message_ok (h, p)" and "r = MarshalMessage (h_type h) p @ r2"
proof -
  from assms obtain hbuf r1 where rf: "r = hbuf @ r1" "length hbuf = HeaderSize"
    and dh: "DecodeHeader hbuf = Inr h" and lim: "unat (h_payload_len h) \<le> MaxPayloadSize"
    and pay: "r1 = p @ r2" "length p = unat (h_payload_len h)"
    by (auto simp: ReadMessage_alt read_full_Inr split: sum.splits if_splits)
  have len: "word_of_nat (length p) = h_payload_len h" using pay by simp
  note hd = DecodeHeader_sound [OF dh]
  show "message_ok (h, p)" using hd(1) len lim pay by (simp add: message_ok_def)
  show "r = MarshalMessage (h_type h) p @ r2"
    using hd(2) rf pay by (simp add: MarshalMessage_eq len)
qed

interpretation ovp_msg: stream_codec marshal_pair ReadMessage message_ok
proof unfold_locales
  fix x r
  assume "message_ok x"
  then show "ReadMessage (marshal_pair x @ r) = Inr (x, r)"
    by (cases x) (auto simp: message_ok_def marshal_pair_def ReadMessage_Marshal)
next
  fix bs x r
  assume "ReadMessage bs = Inr (x, r)"
  then show "message_ok x \<and> bs = marshal_pair x @ r"
    by (cases x) (auto simp: marshal_pair_def dest: ReadMessage_sound)
qed

section \<open>Properties\<close>

text \<open>C1. \<open>ReadMessage\<close> succeeds exactly on the streams that begin with a message
  \<open>MarshalMessage\<close> writes (magic, version, type and the true payload length) whose payload is at
  most 64 MiB; it then returns that payload and leaves exactly the bytes behind it unread.\<close>

theorem read_message_exact:
  "ReadMessage r = Inr ((h, p), r') \<longleftrightarrow>
     r = MarshalMessage (h_type h) p @ r' \<and> length p \<le> MaxPayloadSize
     \<and> h = mk_header (h_type h) (word_of_nat (length p))"
proof
  assume "ReadMessage r = Inr ((h, p), r')"
  from ovp_msg.dec_sound [OF this]
  show "r = MarshalMessage (h_type h) p @ r' \<and> length p \<le> MaxPayloadSize
     \<and> h = mk_header (h_type h) (word_of_nat (length p))"
    by (auto simp: message_ok_def marshal_pair_def)
next
  assume a: "r = MarshalMessage (h_type h) p @ r' \<and> length p \<le> MaxPayloadSize
     \<and> h = mk_header (h_type h) (word_of_nat (length p))"
  then have "message_ok (h, p)" by (simp add: message_ok_def)
  from ovp_msg.dec_enc [OF this, of r'] a show "ReadMessage r = Inr ((h, p), r')"
    by (simp add: marshal_pair_def)
qed

text \<open>A message cut off anywhere before its last byte is never accepted, whatever its
  type and payload.\<close>

lemma read_message_truncated:
  assumes "length p \<le> MaxPayloadSize" "MarshalMessage t p = a @ b" "b \<noteq> []"
  shows "\<exists>e. ReadMessage a = Inl e"
proof -
  let ?m = "(mk_header t (word_of_nat (length p)), p)"
  have "message_ok ?m" using assms(1) by (simp add: message_ok_def mk_header_def)
  moreover have "marshal_pair ?m = a @ b" using assms(2) by (simp add: marshal_pair_def mk_header_def)
  ultimately show ?thesis using assms(3) by (rule ovp_msg.truncated_fails)
qed

end
