(* ===== verification/Ovp_Frame.thy ===== *)
theory Ovp_Frame
  imports Ovp_Wire
begin

text \<open>
  \<^verbatim>\<open>proto/frame.go\<close>: the FRAME_DELTA payload. \<open>EncodeFrameDelta\<close> writes the 22-byte header and
  each tile; \<open>DecodeFrameDelta\<close> reads them back, refusing a header, a tile header or tile data
  that the payload does not hold. The tile reader is an interpretation of \<open>stream_codec\<close>, so
  the laws about lists of tiles follow from one induction.
\<close>

definition CodecZstdRawBGRA :: "16 word" where "CodecZstdRawBGRA = 1"
definition CodecJPEG :: "16 word" where "CodecJPEG = 2"

definition FrameDeltaHeaderSize :: nat where "FrameDeltaHeaderSize = 4 + 8 + 2 + 2 + 2 + 2 + 2"
definition TileHeaderSize :: nat where "TileHeaderSize = 2 + 2 + 2 + 4"

record tile =
  t_tx :: "16 word"
  t_ty :: "16 word"
  t_codec :: "16 word"
  t_data_len :: "32 word"
  t_data :: bytes

record frame_delta =
  fd_seq :: "32 word"
  fd_ts :: "64 word"
  fd_profile :: "16 word"
  fd_width :: "16 word"
  fd_height :: "16 word"
  fd_tile_size :: "16 word"
  fd_tile_count :: "16 word"
  fd_tiles :: "tile list"

datatype frame_error =
    PayloadTooShort
  | TruncatedTileHeader nat
  | TruncatedTileData nat "32 word" nat

definition encode_tile :: "tile \<Rightarrow> bytes" where
  "encode_tile t = put_u16 (t_tx t) @ put_u16 (t_ty t) @ put_u16 (t_codec t)
     @ put_u32 (t_data_len t) @ t_data t"

definition encode_frame_header :: "frame_delta \<Rightarrow> bytes" where
  "encode_frame_header fd = put_u32 (fd_seq fd) @ put_u64 (fd_ts fd) @ put_u16 (fd_profile fd)
     @ put_u16 (fd_width fd) @ put_u16 (fd_height fd) @ put_u16 (fd_tile_size fd)
     @ put_u16 (fd_tile_count fd)"

definition EncodeFrameDelta :: "frame_delta \<Rightarrow> bytes" where
  "EncodeFrameDelta fd = encode_frame_header fd @ concat (map encode_tile (fd_tiles fd))"

text \<open>One round of the decoding loop: tile number \<open>i\<close>, read from the remaining payload.\<close>

definition decode_tile :: "nat \<Rightarrow> bytes \<Rightarrow> frame_error + (tile \<times> bytes)" where
  "decode_tile i data =
     (if length data < TileHeaderSize then Inl (TruncatedTileHeader i)
      else let dl = get_u32 (take 4 (drop 6 data));
               rest = drop 10 data
           in if length rest < unat dl then Inl (TruncatedTileData i dl (length rest))
              else Inr (\<lparr>t_tx = get_u16 (take 2 data), t_ty = get_u16 (take 2 (drop 2 data)),
                         t_codec = get_u16 (take 2 (drop 4 data)), t_data_len = dl,
                         t_data = take (unat dl) rest\<rparr>, drop (unat dl) rest))"

fun decode_tiles :: "nat \<Rightarrow> nat \<Rightarrow> bytes \<Rightarrow> frame_error + (tile list \<times> bytes)" where
  "decode_tiles i 0 data = Inr ([], data)"
| "decode_tiles i (Suc n) data =
     (case decode_tile i data of
        Inl e \<Rightarrow> Inl e
      | Inr (t, rest) \<Rightarrow>
         (case decode_tiles (Suc i) n rest of
            Inl e \<Rightarrow> Inl e
          | Inr (ts, rest') \<Rightarrow> Inr (t # ts, rest')))"

definition decode_frame_header :: "bytes \<Rightarrow> frame_delta" where
  "decode_frame_header data =
     \<lparr>fd_seq = get_u32 (take 4 data), fd_ts = get_u64 (take 8 (drop 4 data)),
      fd_profile = get_u16 (take 2 (drop 12 data)), fd_width = get_u16 (take 2 (drop 14 data)),
      fd_height = get_u16 (take 2 (drop 16 data)), fd_tile_size = get_u16 (take 2 (drop 18 data)),
      fd_tile_count = get_u16 (take 2 (drop 20 data)), fd_tiles = []\<rparr>"

definition DecodeFrameDelta :: "bytes \<Rightarrow> frame_error + frame_delta" where
  "DecodeFrameDelta data =
     (if length data < FrameDeltaHeaderSize then Inl PayloadTooShort
      else let fd = decode_frame_header data
           in case decode_tiles 0 (unat (fd_tile_count fd)) (drop FrameDeltaHeaderSize data) of
                Inl e \<Rightarrow> Inl e
              | Inr (ts, _) \<Rightarrow> Inr (fd\<lparr>fd_tiles := ts\<rparr>))"

section \<open>Tiles as a stream codec\<close>

definition tile_ok :: "tile \<Rightarrow> bool" where
  "tile_ok t = (unat (t_data_len t) = length (t_data t))"

lemma length_encode_tile [simp]: "length (encode_tile t) = TileHeaderSize + length (t_data t)"
  by (simp add: encode_tile_def TileHeaderSize_def wire_simps)

lemma decode_encode_tile: "tile_ok t \<Longrightarrow> decode_tile i (encode_tile t @ r) = Inr (t, r)"
  by (simp add: decode_tile_def encode_tile_def TileHeaderSize_def tile_ok_def wire_simps)

lemma decode_tile_sound:
  assumes "decode_tile i data = Inr (t, r)"
  shows "tile_ok t \<and> data = encode_tile t @ r"
proof -
  from assms have len: "10 \<le> length data" and dl: "t_data_len t = get_u32 (take 4 (drop 6 data))"
    and fields: "t_tx t = get_u16 (take 2 data)" "t_ty t = get_u16 (take 2 (drop 2 data))"
      "t_codec t = get_u16 (take 2 (drop 4 data))"
    and pay: "t_data t = take (unat (t_data_len t)) (drop 10 data)"
      "r = drop (unat (t_data_len t)) (drop 10 data)" "unat (t_data_len t) \<le> length (drop 10 data)"
    by (auto simp: decode_tile_def TileHeaderSize_def Let_def split: if_splits)
  have "data = drop 0 data" by simp
  also have "drop 0 data = put_u16 (get_u16 (take 2 (drop 0 data))) @ drop 2 data"
    by (rule u16.split_field_at) (use len in simp_all)
  also have "drop 2 data = put_u16 (get_u16 (take 2 (drop 2 data))) @ drop 4 data"
    by (rule u16.split_field_at) (use len in simp_all)
  also have "drop 4 data = put_u16 (get_u16 (take 2 (drop 4 data))) @ drop 6 data"
    by (rule u16.split_field_at) (use len in simp_all)
  also have "drop 6 data = put_u32 (get_u32 (take 4 (drop 6 data))) @ drop 10 data"
    by (rule u32.split_field_at) (use len in simp_all)
  also have "drop 10 data = t_data t @ r"
    using pay(1,2) by (simp only: append_take_drop_id)
  finally have eq: "data = encode_tile t @ r"
    unfolding encode_tile_def fields dl append.assoc drop_0 .
  have "tile_ok t" using pay by (simp add: tile_ok_def)
  then show ?thesis using eq by (rule conjI)
qed

interpretation tile_c: stream_codec encode_tile "decode_tile i" tile_ok for i
  by unfold_locales (auto simp: decode_encode_tile dest: decode_tile_sound)

lemma decode_tiles_enc:
  "list_all tile_ok ts \<Longrightarrow>
     decode_tiles i (length ts) (concat (map encode_tile ts) @ r) = Inr (ts, r)"
  by (induction ts arbitrary: i) (auto simp: tile_c.dec_enc)

lemma decode_tiles_sound:
  "decode_tiles i n data = Inr (ts, r) \<Longrightarrow>
     list_all tile_ok ts \<and> length ts = n \<and> data = concat (map encode_tile ts) @ r"
proof (induction i n data arbitrary: ts r rule: decode_tiles.induct)
  case (1 i data)
  then show ?case by simp
next
  case (2 i n data)
  from "2.prems" obtain t rest ts' where t: "decode_tile i data = Inr (t, rest)"
    and ts': "decode_tiles (Suc i) n rest = Inr (ts', r)" and ts: "ts = t # ts'"
    by (auto split: sum.splits prod.splits)
  from "2.IH" [OF t refl ts'] tile_c.dec_sound [OF t] ts show ?case by simp
qed

section \<open>Frames\<close>

definition frame_ok :: "frame_delta \<Rightarrow> bool" where
  "frame_ok fd = (unat (fd_tile_count fd) = length (fd_tiles fd) \<and> list_all tile_ok (fd_tiles fd))"

lemma length_encode_frame_header [simp]: "length (encode_frame_header fd) = FrameDeltaHeaderSize"
  by (simp add: encode_frame_header_def FrameDeltaHeaderSize_def wire_simps)

lemma decode_encode_frame_header:
  "decode_frame_header (encode_frame_header fd @ r) = fd\<lparr>fd_tiles := []\<rparr>"
  by (simp add: decode_frame_header_def encode_frame_header_def wire_simps)

lemma FrameDeltaHeaderSize_22: "FrameDeltaHeaderSize = 22"
  by (simp add: FrameDeltaHeaderSize_def)

lemma encode_decode_frame_header:
  assumes "FrameDeltaHeaderSize \<le> length data"
  shows "data = encode_frame_header (decode_frame_header data) @ drop FrameDeltaHeaderSize data"
proof -
  have len: "22 \<le> length data" using assms by (simp add: FrameDeltaHeaderSize_def)
  have "data = drop 0 data" by simp
  also have "drop 0 data = put_u32 (get_u32 (take 4 (drop 0 data))) @ drop 4 data"
    by (rule u32.split_field_at) (use len in simp_all)
  also have "drop 4 data = put_u64 (get_u64 (take 8 (drop 4 data))) @ drop 12 data"
    by (rule u64.split_field_at) (use len in simp_all)
  also have "drop 12 data = put_u16 (get_u16 (take 2 (drop 12 data))) @ drop 14 data"
    by (rule u16.split_field_at) (use len in simp_all)
  also have "drop 14 data = put_u16 (get_u16 (take 2 (drop 14 data))) @ drop 16 data"
    by (rule u16.split_field_at) (use len in simp_all)
  also have "drop 16 data = put_u16 (get_u16 (take 2 (drop 16 data))) @ drop 18 data"
    by (rule u16.split_field_at) (use len in simp_all)
  also have "drop 18 data = put_u16 (get_u16 (take 2 (drop 18 data))) @ drop 20 data"
    by (rule u16.split_field_at) (use len in simp_all)
  also have "drop 20 data = put_u16 (get_u16 (take 2 (drop 20 data))) @ drop 22 data"
    by (rule u16.split_field_at) (use len in simp_all)
  finally show ?thesis
    unfolding encode_frame_header_def append.assoc decode_frame_header_def frame_delta.simps
      FrameDeltaHeaderSize_22 drop_0 .
qed

lemma DecodeFrameDelta_enc:
  assumes "frame_ok fd"
  shows "DecodeFrameDelta (EncodeFrameDelta fd @ r) = Inr fd"
  using assms decode_tiles_enc [of "fd_tiles fd" 0 r]
  by (simp add: DecodeFrameDelta_def EncodeFrameDelta_def decode_encode_frame_header frame_ok_def)

lemma encode_frame_header_tiles [simp]:
  "encode_frame_header (fd\<lparr>fd_tiles := ts\<rparr>) = encode_frame_header fd"
  by (simp add: encode_frame_header_def)

lemma DecodeFrameDelta_sound:
  assumes "DecodeFrameDelta data = Inr fd"
  shows "frame_ok fd \<and> (\<exists>r. data = EncodeFrameDelta fd @ r)"
proof -
  let ?h = "decode_frame_header data"
  from assms obtain ts r where len: "FrameDeltaHeaderSize \<le> length data"
    and ts: "decode_tiles 0 (unat (fd_tile_count ?h)) (drop FrameDeltaHeaderSize data) = Inr (ts, r)"
    and fd: "fd = ?h\<lparr>fd_tiles := ts\<rparr>"
    by (auto simp: DecodeFrameDelta_def Let_def split: if_splits sum.splits prod.splits)
  from decode_tiles_sound [OF ts] have t: "list_all tile_ok ts" "length ts = unat (fd_tile_count ?h)"
    "drop FrameDeltaHeaderSize data = concat (map encode_tile ts) @ r" by auto
  have tail: "data = encode_frame_header ?h @ concat (map encode_tile ts) @ r"
    using encode_decode_frame_header [OF len] unfolding t(3) .
  have "EncodeFrameDelta fd = encode_frame_header ?h @ concat (map encode_tile ts)"
    unfolding fd by (simp add: EncodeFrameDelta_def)
  then have "EncodeFrameDelta fd @ r = data" by (simp flip: tail)
  moreover have "frame_ok fd" unfolding fd using t(1,2) by (simp add: frame_ok_def)
  ultimately show ?thesis by blast
qed

lemma frame_injective:
  assumes "frame_ok x" "frame_ok y" "EncodeFrameDelta x @ r = EncodeFrameDelta y @ s"
  shows "x = y \<and> r = s"
proof -
  have "DecodeFrameDelta (EncodeFrameDelta y @ s) = Inr x"
    using DecodeFrameDelta_enc [OF assms(1), of r] assms(3) by simp
  with DecodeFrameDelta_enc [OF assms(2), of s] have "x = y" by simp
  with assms(3) show ?thesis by simp
qed

section \<open>Properties\<close>

text \<open>C2. \<open>DecodeFrameDelta\<close> accepts exactly the payloads that begin with the encoding of a
  frame whose tile count and tile data lengths agree with its tiles, and returns that frame:
  a decoded frame never refers to bytes outside the payload.\<close>

theorem decode_frame_exact:
  "DecodeFrameDelta data = Inr fd \<longleftrightarrow> frame_ok fd \<and> (\<exists>r. data = EncodeFrameDelta fd @ r)"
  using DecodeFrameDelta_enc DecodeFrameDelta_sound by blast

text \<open>C3. A FRAME_DELTA payload that stops before the end of its last tile is refused.\<close>

theorem decode_frame_truncated:
  assumes "frame_ok fd" "EncodeFrameDelta fd = a @ b" "b \<noteq> []"
  shows "\<exists>e. DecodeFrameDelta a = Inl e"
proof (cases "DecodeFrameDelta a")
  case (Inr y)
  then obtain r where y: "frame_ok y" "a = EncodeFrameDelta y @ r"
    using DecodeFrameDelta_sound by blast
  with assms(2) have "EncodeFrameDelta fd @ [] = EncodeFrameDelta y @ (r @ b)" by simp
  from frame_injective [OF assms(1) y(1) this] assms(3) show ?thesis by simp
qed auto

definition sample_frame :: frame_delta where
  "sample_frame = \<lparr>fd_seq = 7, fd_ts = 1000, fd_profile = 1080, fd_width = 256, fd_height = 128,
     fd_tile_size = 128, fd_tile_count = 1,
     fd_tiles = [\<lparr>t_tx = 1, t_ty = 0, t_codec = 2, t_data_len = 3, t_data = [9, 8, 7]\<rparr>]\<rparr>"

theorem decode_frame_truncated_witness:
  "\<exists>e. DecodeFrameDelta (butlast (EncodeFrameDelta sample_frame)) = Inl e"
  by (rule decode_frame_truncated [of sample_frame _ "[7]"])
     (simp_all add: frame_ok_def tile_ok_def sample_frame_def EncodeFrameDelta_def
        encode_tile_def butlast_append)

end
