(* ===== verification/Frame_Buffer.thy ===== *)
theory Frame_Buffer
  imports Ovp_Frame
begin

unbundle bit_operations_syntax

text \<open>
  \<^verbatim>\<open>relay/framebuf.go\<close>: the per-agent tile cache that turns frame deltas into the complete
  frame a new watcher receives. \<open>Update\<close> keeps the last tile per position and drops everything
  on a change of geometry; \<open>FullFrameMessage\<close> marshals the cached tiles; \<open>SnapshotPNG\<close> and
  \<open>decodeTile\<close> paint them. The zstd and JPEG decoders are parameters. Go iterates a map in an
  unspecified order: the order is the parameter \<open>ord\<close>, of which the proofs only use that it
  enumerates the same tiles.
\<close>

record frame_buffer =
  fb_seq :: "32 word"
  fb_profile :: "16 word"
  fb_width :: "16 word"
  fb_height :: "16 word"
  fb_tile_size :: "16 word"
  fb_tiles :: "(32 word \<times> tile) list"

definition maxFrameWidth :: int where "maxFrameWidth = 7680"
definition maxFrameHeight :: int where "maxFrameHeight = 4320"

definition validFrameDimensions :: "int \<Rightarrow> int \<Rightarrow> bool" where
  "validFrameDimensions w h = (w > 0 \<and> h > 0 \<and> w \<le> maxFrameWidth \<and> h \<le> maxFrameHeight)"

definition tileKey :: "16 word \<Rightarrow> 16 word \<Rightarrow> 32 word" where
  "tileKey tx ty = push_bit 16 (ucast tx) OR ucast ty"

definition NewFrameBuffer :: frame_buffer where
  "NewFrameBuffer = \<lparr>fb_seq = 0, fb_profile = 0, fb_width = 0, fb_height = 0, fb_tile_size = 0,
     fb_tiles = []\<rparr>"

definition copy_tile :: "tile \<Rightarrow> tile" where
  "copy_tile t = \<lparr>t_tx = t_tx t, t_ty = t_ty t, t_codec = t_codec t,
     t_data_len = word_of_nat (length (t_data t)), t_data = t_data t\<rparr>"

definition store_tile :: "(32 word \<times> tile) list \<Rightarrow> tile \<Rightarrow> (32 word \<times> tile) list" where
  "store_tile m t = AList.update (tileKey (t_tx t) (t_ty t)) (copy_tile t) m"

definition Update :: "frame_buffer \<Rightarrow> frame_delta \<Rightarrow> frame_buffer" where
  "Update fb fd =
     (if \<not> validFrameDimensions (uint (fd_width fd)) (uint (fd_height fd)) \<or> fd_tile_size fd = 0
      then fb
      else
        let fb1 = (if fd_width fd \<noteq> fb_width fb \<or> fd_height fd \<noteq> fb_height fb
                      \<or> fd_tile_size fd \<noteq> fb_tile_size fb
                   then fb\<lparr>fb_tiles := [], fb_width := fd_width fd, fb_height := fd_height fd,
                           fb_tile_size := fd_tile_size fd\<rparr>
                   else fb);
            fb2 = fb1\<lparr>fb_profile := fd_profile fd, fb_seq := fd_seq fd\<rparr>
        in fb2\<lparr>fb_tiles := foldl store_tile (fb_tiles fb2) (fd_tiles fd)\<rparr>)"

definition full_frame :: "(tile list \<Rightarrow> tile list) \<Rightarrow> 64 word \<Rightarrow> frame_buffer \<Rightarrow> frame_delta" where
  "full_frame ord nowMs fb =
     \<lparr>fd_seq = fb_seq fb, fd_ts = nowMs, fd_profile = fb_profile fb, fd_width = fb_width fb,
      fd_height = fb_height fb, fd_tile_size = fb_tile_size fb,
      fd_tile_count = word_of_nat (length (fb_tiles fb)), fd_tiles = ord (map snd (fb_tiles fb))\<rparr>"

definition FullFrameMessage ::
    "(tile list \<Rightarrow> tile list) \<Rightarrow> 64 word \<Rightarrow> frame_buffer \<Rightarrow> bytes option" where
  "FullFrameMessage ord nowMs fb =
     (if length (fb_tiles fb) = 0 \<or> fb_width fb = 0 then None
      else Some (MarshalMessage MsgFrameDelta (EncodeFrameDelta (full_frame ord nowMs fb))))"

section \<open>Painting\<close>

text \<open>Pixels are (R, G, B, A); an image has its pixels row by row.\<close>

type_synonym pixel = "byte \<times> byte \<times> byte \<times> byte"

record img =
  im_w :: nat
  im_h :: nat
  im_pix :: "pixel list"

definition bgra_pixel :: "bytes \<Rightarrow> nat \<Rightarrow> pixel" where
  "bgra_pixel raw i = (raw ! (4 * i + 2), raw ! (4 * i + 1), raw ! (4 * i), raw ! (4 * i + 3))"

text \<open>The zstd branch infers the height of an edge tile from the number of pixels; \<open>None\<close> is
  Go's \<open>nil\<close>.\<close>

definition decodeTile ::
    "(bytes \<Rightarrow> img option) \<Rightarrow> (bytes \<Rightarrow> bytes option) \<Rightarrow> tile \<Rightarrow> nat \<Rightarrow> img option" where
  "decodeTile jpeg zstd t ts =
     (if t_codec t = CodecJPEG then jpeg (t_data t)
      else if t_codec t = CodecZstdRawBGRA then
        (case zstd (t_data t) of
           None \<Rightarrow> None
         | Some raw \<Rightarrow>
             if length raw < 4 then None
             else let px = length raw div 4;
                      tw = (if ts > px then px else ts);
                      th = px div tw
                  in Some \<lparr>im_w = tw, im_h = th, im_pix = map (bgra_pixel raw) [0..<tw * th]\<rparr>)
      else None)"

type_synonym canvas = "nat \<Rightarrow> nat \<Rightarrow> pixel"

text \<open>The rectangle a tile covers after clipping to the canvas: origin and size.\<close>

definition clip_tile :: "nat \<Rightarrow> nat \<Rightarrow> nat \<Rightarrow> tile \<Rightarrow> img \<Rightarrow> (nat \<times> nat \<times> nat \<times> nat) option" where
  "clip_tile w h ts t im =
     (let ox = unat (t_tx t) * ts; oy = unat (t_ty t) * ts;
          tw = (if ox + im_w im > w then w - ox else im_w im);
          th = (if oy + im_h im > h then h - oy else im_h im)
      in if tw = 0 \<or> th = 0 then None else Some (ox, oy, tw, th))"

definition draw_tile ::
    "(bytes \<Rightarrow> img option) \<Rightarrow> (bytes \<Rightarrow> bytes option) \<Rightarrow> nat \<Rightarrow> nat \<Rightarrow> nat \<Rightarrow> canvas \<Rightarrow> tile \<Rightarrow> canvas" where
  "draw_tile jpeg zstd w h ts c t =
     (if unat (t_tx t) * ts \<ge> w \<or> unat (t_ty t) * ts \<ge> h then c
      else case decodeTile jpeg zstd t ts of
        None \<Rightarrow> c
      | Some im \<Rightarrow>
         (case clip_tile w h ts t im of
            None \<Rightarrow> c
          | Some (ox, oy, tw, th) \<Rightarrow>
             (\<lambda>x y. if ox \<le> x \<and> x < ox + tw \<and> oy \<le> y \<and> y < oy + th
                    then im_pix im ! ((y - oy) * im_w im + (x - ox)) else c x y)))"

text \<open>\<open>SnapshotPNG\<close> up to the final \<open>png.Encode\<close>: the painted canvas with its size, or \<open>None\<close>
  for the error "no frame available".\<close>

definition SnapshotPNG ::
    "(tile list \<Rightarrow> tile list) \<Rightarrow> (bytes \<Rightarrow> img option) \<Rightarrow> (bytes \<Rightarrow> bytes option) \<Rightarrow> frame_buffer
       \<Rightarrow> (nat \<times> nat \<times> canvas) option" where
  "SnapshotPNG ord jpeg zstd fb =
     (if length (fb_tiles fb) = 0 \<or> fb_width fb = 0 \<or> fb_height fb = 0 then None
      else let w = unat (fb_width fb); h = unat (fb_height fb); ts = unat (fb_tile_size fb)
           in Some (w, h, foldl (draw_tile jpeg zstd w h ts) (\<lambda>x y. (0, 0, 0, 0))
                            (ord (map snd (fb_tiles fb)))))"

section \<open>Lemmas\<close>

lemma tileKey_fst: "ucast (drop_bit 16 (tileKey tx ty)) = tx"
  by (rule bit_word_eqI) (auto simp: tileKey_def bit_simps dest: bit_imp_le_length)

lemma tileKey_snd: "ucast (tileKey tx ty) = ty"
  by (rule bit_word_eqI) (auto simp: tileKey_def bit_simps)

lemma tileKey_inj: "tileKey a b = tileKey c d \<longleftrightarrow> a = c \<and> b = d"
  by (metis tileKey_fst tileKey_snd)

type_synonym tile_map = "16 word \<times> 16 word \<Rightarrow> tile option"

text \<open>The contract: the last tile stored for each position.\<close>

definition abs_tiles :: "(32 word \<times> tile) list \<Rightarrow> tile_map" where
  "abs_tiles m = (\<lambda>(tx, ty). map_of m (tileKey tx ty))"

definition put_tile :: "tile_map \<Rightarrow> tile \<Rightarrow> tile_map" where
  "put_tile m t = m((t_tx t, t_ty t) \<mapsto> copy_tile t)"

lemma abs_store: "abs_tiles (store_tile m t) = put_tile (abs_tiles m) t"
  by (auto simp: abs_tiles_def store_tile_def put_tile_def update_conv' tileKey_inj fun_eq_iff)

lemma abs_store_all: "abs_tiles (foldl store_tile m ts) = foldl put_tile (abs_tiles m) ts"
  by (induction ts arbitrary: m) (auto simp: abs_store)

definition tile_pos :: "tile \<Rightarrow> 16 word \<times> 16 word" where
  "tile_pos t = (t_tx t, t_ty t)"

definition entry_ok :: "32 word \<times> tile \<Rightarrow> bool" where
  "entry_ok e = (fst e = tileKey (t_tx (snd e)) (t_ty (snd e)) \<and> tile_ok (snd e))"

definition fb_inv :: "frame_buffer \<Rightarrow> bool" where
  "fb_inv fb = (distinct (map fst (fb_tiles fb)) \<and> list_all entry_ok (fb_tiles fb)
     \<and> (fb_tiles fb \<noteq> [] \<longrightarrow>
          validFrameDimensions (uint (fb_width fb)) (uint (fb_height fb)) \<and> fb_tile_size fb \<noteq> 0))"

lemma copy_pos [simp]: "t_tx (copy_tile t) = t_tx t" "t_ty (copy_tile t) = t_ty t"
  by (simp_all add: copy_tile_def)

lemma copy_tile_ok: "tile_ok t \<Longrightarrow> copy_tile t = t"
  by (simp add: copy_tile_def tile_ok_def eq_commute [of "unat (t_data_len t)"])

definition tiles_inv :: "(32 word \<times> tile) list \<Rightarrow> bool" where
  "tiles_inv m = (distinct (map fst m) \<and> list_all entry_ok m)"

lemma store_tile_inv: "tiles_inv m \<Longrightarrow> tile_ok t \<Longrightarrow> tiles_inv (store_tile m t)"
  using set_alist_update [of "tileKey (t_tx t) (t_ty t)" "copy_tile t" m]
  by (auto simp: tiles_inv_def store_tile_def distinct_update list_all_iff entry_ok_def copy_tile_ok)

lemma store_all_inv: "tiles_inv m \<Longrightarrow> list_all tile_ok ts \<Longrightarrow> tiles_inv (foldl store_tile m ts)"
  by (induction ts arbitrary: m) (auto intro: store_tile_inv)

lemma fb_inv_new [inv_intros]: "fb_inv NewFrameBuffer"
  by (simp add: fb_inv_def NewFrameBuffer_def)

lemma fb_inv_update [inv_intros]:
  assumes "fb_inv fb" "frame_ok fd"
  shows "fb_inv (Update fb fd)"
proof -
  have "tiles_inv (foldl store_tile (fb_tiles fb) (fd_tiles fd))"
    "tiles_inv (foldl store_tile [] (fd_tiles fd))"
    by (rule store_all_inv; use assms in \<open>simp add: fb_inv_def tiles_inv_def frame_ok_def\<close>)+
  with assms(1) show ?thesis
    by (simp add: fb_inv_def tiles_inv_def Update_def Let_def)
qed

lemma fb_inv_run: "fb_inv fb \<Longrightarrow> list_all frame_ok fds \<Longrightarrow> fb_inv (foldl Update fb fds)"
  by (induction fds arbitrary: fb) (auto intro: fb_inv_update)

subsection \<open>The last tile at a position\<close>

definition last_at :: "16 word \<times> 16 word \<Rightarrow> tile list \<Rightarrow> tile option" where
  "last_at p ts = (let l = filter (\<lambda>t. tile_pos t = p) ts in if l = [] then None else Some (last l))"

lemma last_at_snoc: "last_at p (ts @ [t]) = (if tile_pos t = p then Some t else last_at p ts)"
  by (simp add: last_at_def)

lemma fold_put_tile:
  "foldl put_tile m ts p = (case last_at p ts of None \<Rightarrow> m p | Some t \<Rightarrow> Some (copy_tile t))"
proof (induction ts rule: rev_induct)
  case Nil
  then show ?case by (simp add: last_at_def)
next
  case (snoc t ts)
  then show ?case by (simp add: put_tile_def last_at_snoc tile_pos_def)
qed

definition geometry :: "frame_delta \<Rightarrow> 16 word \<times> 16 word \<times> 16 word" where
  "geometry fd = (fd_width fd, fd_height fd, fd_tile_size fd)"

definition fb_geometry :: "frame_buffer \<Rightarrow> 16 word \<times> 16 word \<times> 16 word" where
  "fb_geometry fb = (fb_width fb, fb_height fb, fb_tile_size fb)"

definition fd_valid :: "frame_delta \<Rightarrow> bool" where
  "fd_valid fd = (validFrameDimensions (uint (fd_width fd)) (uint (fd_height fd)) \<and> fd_tile_size fd \<noteq> 0)"

lemma Update_valid:
  assumes "fd_valid fd"
  shows "fb_geometry (Update fb fd) = geometry fd"
    and "abs_tiles (fb_tiles (Update fb fd)) = foldl put_tile
       (if fb_geometry fb = geometry fd then abs_tiles (fb_tiles fb) else Map.empty) (fd_tiles fd)"
  using assms
  by (auto simp: Update_def fb_geometry_def geometry_def fd_valid_def Let_def abs_store_all)
     (simp_all add: abs_tiles_def case_prod_unfold)

lemma Update_same_geometry:
  "\<forall>fd\<in>set fds. fd_valid fd \<and> geometry fd = g \<Longrightarrow> fb_geometry fb = g \<Longrightarrow>
     abs_tiles (fb_tiles (foldl Update fb fds))
       = foldl put_tile (abs_tiles (fb_tiles fb)) (concat (map fd_tiles fds))"
  by (induction fds arbitrary: fb) (simp_all add: Update_valid)

subsection \<open>The join frame\<close>

lemma map_of_perm:
  assumes "mset xs = mset ys" "distinct (map fst xs)"
  shows "map_of xs = map_of ys"
proof -
  have "distinct (map fst ys)"
    using assms by (metis mset_eq_imp_distinct_iff mset_map)
  then show ?thesis
    using assms mset_eq_setD [OF assms(1)] map_of_inject_set by blast
qed

definition keyed :: "tile list \<Rightarrow> (32 word \<times> tile) list" where
  "keyed ts = map (\<lambda>t. (tileKey (t_tx t) (t_ty t), t)) ts"

lemma keyed_cache: "list_all entry_ok m \<Longrightarrow> keyed (map snd m) = m"
  by (induction m) (auto simp: keyed_def entry_ok_def)

lemma store_keyed:
  "list_all tile_ok ts \<Longrightarrow> distinct (map fst (m @ keyed ts)) \<Longrightarrow>
     foldl store_tile m ts = m @ keyed ts"
proof (induction ts arbitrary: m)
  case Nil
  then show ?case by (simp add: keyed_def)
next
  case (Cons t ts)
  have app: "AList.update k v xs = xs @ [(k, v)]" if "k \<notin> fst ` set xs" for k and v :: tile and xs
    using that by (induction xs) auto
  from Cons.prems have "store_tile m t = m @ [(tileKey (t_tx t) (t_ty t), t)]"
    by (simp add: store_tile_def keyed_def copy_tile_ok app)
  with Cons.prems Cons.IH [of "store_tile m t"] show ?case
    by (simp add: keyed_def)
qed

lemma full_frame_ok:
  assumes "fb_inv fb" "length (fb_tiles fb) < 2 ^ 16"
    and "mset (ord (map snd (fb_tiles fb))) = mset (map snd (fb_tiles fb))"
  shows "frame_ok (full_frame ord nowMs fb)"
proof -
  have "length (ord (map snd (fb_tiles fb))) = length (fb_tiles fb)"
    using assms(3) by (metis length_map size_mset)
  moreover have "set (ord (map snd (fb_tiles fb))) = set (map snd (fb_tiles fb))"
    using assms(3) by (rule mset_eq_setD)
  ultimately show ?thesis
    using assms(1,2)
    by (auto simp: frame_ok_def full_frame_def fb_inv_def entry_ok_def list_all_iff unat_of_nat)
qed

lemma Update_full_frame:
  assumes inv: "fb_inv fb" and ne: "fb_tiles fb \<noteq> []"
    and perm: "mset (ord (map snd (fb_tiles fb))) = mset (map snd (fb_tiles fb))"
  shows "let fb' = Update NewFrameBuffer (full_frame ord nowMs fb)
    in map_of (fb_tiles fb') = map_of (fb_tiles fb) \<and> fb_geometry fb' = fb_geometry fb
       \<and> fb_seq fb' = fb_seq fb \<and> fb_profile fb' = fb_profile fb"
proof -
  let ?ts = "ord (map snd (fb_tiles fb))"
  have set: "set ?ts = set (map snd (fb_tiles fb))" using perm by (rule mset_eq_setD)
  have ok: "list_all tile_ok ?ts"
    using inv set by (auto simp: fb_inv_def entry_ok_def list_all_iff)
  have k: "keyed (map snd (fb_tiles fb)) = fb_tiles fb"
    using inv by (auto simp: fb_inv_def intro: keyed_cache)
  have mk: "mset (keyed ?ts) = mset (keyed (map snd (fb_tiles fb)))"
    unfolding keyed_def mset_map [of _ ?ts] perm by (rule mset_map [symmetric])
  then have mk: "mset (keyed ?ts) = mset (fb_tiles fb)" by (simp only: k)
  then have d: "distinct (map fst (keyed ?ts))"
    using inv by (metis fb_inv_def mset_eq_imp_distinct_iff mset_map)
  have st: "foldl store_tile [] ?ts = keyed ?ts"
    using store_keyed [OF ok, of "[]"] d by simp
  have mo: "map_of (keyed ?ts) = map_of (fb_tiles fb)"
    using mk d by (rule map_of_perm)
  have v: "validFrameDimensions (uint (fb_width fb)) (uint (fb_height fb))" "fb_tile_size fb \<noteq> 0"
    using inv ne by (auto simp: fb_inv_def)
  then have "fb_width fb \<noteq> 0" by (auto simp: validFrameDimensions_def)
  then have "Update NewFrameBuffer (full_frame ord nowMs fb)
     = fb\<lparr>fb_tiles := foldl store_tile [] ?ts\<rparr>"
    using v by (simp add: Update_def full_frame_def NewFrameBuffer_def Let_def)
  then show ?thesis using mo by (simp add: st fb_geometry_def Let_def)
qed

subsection \<open>Painting stays inside the buffers\<close>

lemma decodeTile_zstd:
  assumes "t_codec t = CodecZstdRawBGRA" "decodeTile jpeg zstd t ts = Some im" "ts > 0"
  shows "\<exists>raw. zstd (t_data t) = Some raw \<and> 0 < im_w im \<and> im_w im \<le> ts
     \<and> length (im_pix im) = im_w im * im_h im \<and> 4 * (im_w im * im_h im) \<le> length raw"
proof -
  have c: "CodecZstdRawBGRA \<noteq> CodecJPEG" by (simp add: CodecZstdRawBGRA_def CodecJPEG_def)
  obtain raw where z: "zstd (t_data t) = Some raw"
    using assms(1,2) c by (cases "zstd (t_data t)") (simp_all add: decodeTile_def)
  have raw: "zstd (t_data t) = Some raw" "4 \<le> length raw"
    using assms(1,2) c z by (auto simp: decodeTile_def not_less [symmetric])
  have im: "im = (let px = length raw div 4; tw = (if ts > px then px else ts); th = px div tw
       in \<lparr>im_w = tw, im_h = th, im_pix = map (bgra_pixel raw) [0..<tw * th]\<rparr>)"
    using assms(1,2) c z raw(2) unfolding decodeTile_def Let_def
    by (simp only: if_False if_True option.case not_less [symmetric] option.inject simp_thms)
  let ?px = "length raw div 4"
  let ?tw = "if ts > ?px then ?px else ts"
  have px: "0 < ?px" "4 * ?px \<le> length raw" using raw(2) by auto
  have "?tw * (?px div ?tw) \<le> ?px" by (rule times_div_less_eq_dividend)
  then have "4 * (?tw * (?px div ?tw)) \<le> length raw" using px by linarith
  moreover have "im_w im = ?tw" "im_h im = ?px div ?tw" "length (im_pix im) = ?tw * (?px div ?tw)"
    by (simp_all add: im Let_def)
  moreover have "0 < ?tw" "?tw \<le> ts" using px assms(3) by auto
  ultimately show ?thesis using raw by simp
qed

lemma clip_tile_bounds:
  assumes "clip_tile w h ts t im = Some (ox, oy, tw, th)" "ox < w" "oy < h"
  shows "ox + tw \<le> w \<and> oy + th \<le> h \<and> tw \<le> im_w im \<and> th \<le> im_h im \<and> 0 < tw \<and> 0 < th"
  using assms by (auto simp: clip_tile_def Let_def split: if_splits)

lemma pixel_index:
  assumes "(dx::nat) < w" "dy < h"
  shows "dy * w + dx < w * h"
proof -
  have "dy * w + dx < (dy + 1) * w" using assms(1) by simp
  also have "\<dots> \<le> h * w" using assms(2) by (intro mult_right_mono) auto
  finally show ?thesis by (simp add: mult.commute)
qed

section \<open>Properties\<close>

text \<open>C5. The cache holds, for every position, the last tile received for it since the geometry
  (width, height, tile size) last changed: tiles of an older layout are gone, and packing the
  two 16-bit coordinates into one 32-bit key confuses no two positions.\<close>

theorem cache_is_latest:
  assumes "\<forall>fd\<in>set (fd # post). fd_valid fd \<and> geometry fd = g"
    and "fb_geometry fb \<noteq> g"
  shows "map_of (fb_tiles (foldl Update fb (fd # post))) (tileKey tx ty)
     = map_option copy_tile (last_at (tx, ty) (concat (map fd_tiles (fd # post))))"
proof -
  let ?fb = "Update fb fd"
  have fd: "fd_valid fd" "geometry fd = g" using assms(1) by auto
  have "abs_tiles (fb_tiles (foldl Update ?fb post))
      = foldl put_tile (abs_tiles (fb_tiles ?fb)) (concat (map fd_tiles post))"
    by (rule Update_same_geometry) (use assms(1) fd Update_valid(1) [OF fd(1), of fb] in auto)
  also have "\<dots> = foldl put_tile Map.empty (concat (map fd_tiles (fd # post)))"
    using assms(2) fd by (simp add: Update_valid(2))
  finally have "abs_tiles (fb_tiles (foldl Update fb (fd # post)))
      = foldl put_tile Map.empty (concat (map fd_tiles (fd # post)))" by simp
  from fun_cong [OF this, of "(tx, ty)", unfolded fold_put_tile] show ?thesis
    unfolding abs_tiles_def prod.case
    by (cases "last_at (tx, ty) (concat (map fd_tiles (fd # post)))") (simp_all only: option.simps)
qed

theorem cache_is_latest_witness:
  "map_of (fb_tiles (foldl Update NewFrameBuffer [sample_frame])) (tileKey 1 0)
     = map_option copy_tile (last_at (1, 0) (concat (map fd_tiles [sample_frame])))"
  by (rule cache_is_latest [where g = "geometry sample_frame"])
     (simp_all add: fd_valid_def validFrameDimensions_def sample_frame_def geometry_def
        fb_geometry_def NewFrameBuffer_def maxFrameWidth_def maxFrameHeight_def)

text \<open>C6. The join frame is complete: whatever order the map is iterated in, the message built
  from a cache of fewer than 65536 tiles decodes, and a watcher that folds the decoded frame into
  an empty cache holds exactly the relay's tiles, geometry, sequence number and profile.\<close>

theorem join_frame_complete:
  assumes "list_all frame_ok fds" "fb = foldl Update NewFrameBuffer fds"
    and "mset (ord (map snd (fb_tiles fb))) = mset (map snd (fb_tiles fb))"
    and "FullFrameMessage ord nowMs fb = Some msg" "length (fb_tiles fb) < 2 ^ 16"
  shows "\<exists>fd. DecodeFrameDelta (drop HeaderSize msg) = Inr fd
     \<and> (let fb' = Update NewFrameBuffer fd
        in map_of (fb_tiles fb') = map_of (fb_tiles fb) \<and> fb_geometry fb' = fb_geometry fb
           \<and> fb_seq fb' = fb_seq fb \<and> fb_profile fb' = fb_profile fb)"
proof -
  have inv: "fb_inv fb" using assms(1,2) fb_inv_new by (auto intro: fb_inv_run)
  have ne: "fb_tiles fb \<noteq> []" and
    msg: "msg = MarshalMessage MsgFrameDelta (EncodeFrameDelta (full_frame ord nowMs fb))"
    using assms(4) by (auto simp: FullFrameMessage_def split: if_splits)
  have "DecodeFrameDelta (drop HeaderSize msg) = Inr (full_frame ord nowMs fb)"
    using DecodeFrameDelta_enc [OF full_frame_ok [where ord = ord, OF inv assms(5,3)], of nowMs "[]"]
    by (simp add: msg)
  with Update_full_frame [where ord = ord, OF inv ne assms(3), of nowMs] show ?thesis by blast
qed

theorem join_frame_complete_witness:
  "\<exists>fd. DecodeFrameDelta (drop HeaderSize
       (the (FullFrameMessage rev 5 (foldl Update NewFrameBuffer [sample_frame])))) = Inr fd
     \<and> (let fb' = Update NewFrameBuffer fd; fb = foldl Update NewFrameBuffer [sample_frame]
        in map_of (fb_tiles fb') = map_of (fb_tiles fb) \<and> fb_geometry fb' = fb_geometry fb
           \<and> fb_seq fb' = fb_seq fb \<and> fb_profile fb' = fb_profile fb)"
proof -
  let ?fb = "foldl Update NewFrameBuffer [sample_frame]"
  have t: "fb_tiles ?fb = [(tileKey 1 0, copy_tile (hd (fd_tiles sample_frame)))]" "fb_width ?fb = 256"
    by (simp_all add: Update_def sample_frame_def validFrameDimensions_def NewFrameBuffer_def
        maxFrameWidth_def maxFrameHeight_def store_tile_def)
  then have "FullFrameMessage rev 5 ?fb = Some (the (FullFrameMessage rev 5 ?fb))"
    by (simp add: FullFrameMessage_def)
  from join_frame_complete [where ord = rev, OF _ refl _ this] t show ?thesis
    unfolding Let_def
    by (simp add: frame_ok_def tile_ok_def sample_frame_def del: foldl.simps)
qed

text \<open>Painting never indexes out of range: for every cached tile that is painted from zstd
  data, each canvas pixel it covers lies on the canvas and is read inside the decoded bytes.\<close>

lemma paint_in_bounds:
  assumes "t_codec t = CodecZstdRawBGRA" "decodeTile jpeg zstd t ts = Some im" "0 < ts"
    and "unat (t_tx t) * ts < w" "unat (t_ty t) * ts < h"
    and "clip_tile w h ts t im = Some (ox, oy, tw, th)"
    and "ox \<le> x" "x < ox + tw" "oy \<le> y" "y < oy + th"
  shows "x < w \<and> y < h \<and> (y - oy) * im_w im + (x - ox) < length (im_pix im)
     \<and> 4 * ((y - oy) * im_w im + (x - ox)) + 3 < length (the (zstd (t_data t)))"
proof -
  have o: "ox < w" "oy < h" using assms(4-6) by (auto simp: clip_tile_def Let_def split: if_splits)
  note c = clip_tile_bounds [OF assms(6) o]
  obtain raw where z: "zstd (t_data t) = Some raw" "length (im_pix im) = im_w im * im_h im"
    "4 * (im_w im * im_h im) \<le> length raw" using decodeTile_zstd [OF assms(1-3)] by auto
  have "(y - oy) * im_w im + (x - ox) < im_w im * im_h im"
    by (rule pixel_index) (use c assms(7-10) in auto)
  with z c assms(7-10) show ?thesis by auto
qed

end
