(* ===== verification/Agent_Store.thy ===== *)
theory Agent_Store
  imports Ov_Prelude "HOL-Library.List_Lexorder" "HOL-Library.Char_ord"
begin

text \<open>
  \<^verbatim>\<open>relay/store.go\<close>: the SQLite tables of the relay. A table with a primary key is an association
  list. Any statement may fail: \<open>db_faults\<close> lists the outcomes of the statements to come
  (\<open>True\<close> = this one fails; an exhausted list means success), and a failing statement changes
  nothing. The interface \<open>keyed_table\<close> is what the rest of the relay relies on.
\<close>

record agent_entry =
  ae_id :: string
  ae_name :: string
  ae_token :: string

record agent_db =
  db_agents :: "(string \<times> string \<times> string) list"
  db_settings :: "(string \<times> string) list"
  db_ip_labels :: "(string \<times> string) list"
  db_hidden :: "(string \<times> unit) list"
  db_walls :: "(string \<times> string \<times> int) list"
  db_faults :: "bool list"

definition openAgentStore :: agent_db where
  "openAgentStore = \<lparr>db_agents = [], db_settings = [], db_ip_labels = [], db_hidden = [],
     db_walls = [], db_faults = []\<rparr>"

text \<open>Running one statement: its outcome, and the database with the outcome consumed.\<close>

definition statement :: "agent_db \<Rightarrow> agent_db \<times> bool" where
  "statement s = (case db_faults s of [] \<Rightarrow> (s, True) | f # fs \<Rightarrow> (s\<lparr>db_faults := fs\<rparr>, \<not> f))"

definition exec :: "(agent_db \<Rightarrow> agent_db) \<Rightarrow> agent_db \<Rightarrow> agent_db \<times> bool" where
  "exec f s = (case statement s of (s', ok) \<Rightarrow> if ok then (f s', True) else (s', False))"

definition query :: "(agent_db \<Rightarrow> 'a) \<Rightarrow> agent_db \<Rightarrow> agent_db \<times> 'a option" where
  "query f s = (case statement s of (s', ok) \<Rightarrow> (s', if ok then Some (f s') else None))"

definition saveWallLayout :: "string \<Rightarrow> string \<Rightarrow> int \<Rightarrow> agent_db \<Rightarrow> agent_db \<times> bool" where
  "saveWallLayout uuid orderCSV cols =
     exec (\<lambda>s. s\<lparr>db_walls := AList.update uuid (orderCSV, cols) (db_walls s)\<rparr>)"

text \<open>\<open>strings.Split\<close> and \<open>strings.Join\<close> with a one-byte separator.\<close>

fun split_on :: "'a \<Rightarrow> 'a list \<Rightarrow> 'a list list" where
  "split_on c [] = [[]]"
| "split_on c (x # xs) = (if x = c then [] # split_on c xs
     else case split_on c xs of [] \<Rightarrow> [[x]] | y # ys \<Rightarrow> (x # y) # ys)"

fun join_with :: "'a \<Rightarrow> 'a list list \<Rightarrow> 'a list" where
  "join_with c [] = []"
| "join_with c [x] = x"
| "join_with c (x # y # ys) = x @ c # join_with c (y # ys)"

definition loadWallLayouts ::
    "agent_db \<Rightarrow> agent_db \<times> ((string \<times> string list) list \<times> (string \<times> int) list) option" where
  "loadWallLayouts = query (\<lambda>s.
     (map (\<lambda>(k, csv, c). (k, split_on CHR '','' csv)) (filter (\<lambda>(k, csv, c). csv \<noteq> '''') (db_walls s)),
      map (\<lambda>(k, csv, c). (k, c)) (filter (\<lambda>(k, csv, c). c > 0) (db_walls s))))"

definition hiddenAgents :: "agent_db \<Rightarrow> agent_db \<times> string list option" where
  "hiddenAgents = query (\<lambda>s. map fst (db_hidden s))"

definition db_setAgentHidden :: "string \<Rightarrow> bool \<Rightarrow> agent_db \<Rightarrow> agent_db \<times> bool" where
  "db_setAgentHidden aid hidden =
     (if hidden then exec (\<lambda>s. s\<lparr>db_hidden := AList.update aid () (db_hidden s)\<rparr>)
      else exec (\<lambda>s. s\<lparr>db_hidden := AList.delete aid (db_hidden s)\<rparr>))"

definition ipLabels :: "agent_db \<Rightarrow> agent_db \<times> (string \<times> string) list option" where
  "ipLabels = query db_ip_labels"

definition db_setIPLabel :: "string \<Rightarrow> string \<Rightarrow> agent_db \<Rightarrow> agent_db \<times> bool" where
  "db_setIPLabel ip label =
     (if label = '''' then exec (\<lambda>s. s\<lparr>db_ip_labels := AList.delete ip (db_ip_labels s)\<rparr>)
      else exec (\<lambda>s. s\<lparr>db_ip_labels := AList.update ip label (db_ip_labels s)\<rparr>))"

definition settingDashboardToken :: string where "settingDashboardToken = ''dashboard_token''"
definition settingAlertEnabled :: string where "settingAlertEnabled = ''alert_enabled''"
definition settingAlertTGToken :: string where "settingAlertTGToken = ''alert_telegram_token''"
definition settingAlertTGChat :: string where "settingAlertTGChat = ''alert_telegram_chat''"
definition settingAlertWebhook :: string where "settingAlertWebhook = ''alert_webhook_url''"

definition getSetting :: "string \<Rightarrow> agent_db \<Rightarrow> agent_db \<times> string option" where
  "getSetting key = query (\<lambda>s. case map_of (db_settings s) key of None \<Rightarrow> '''' | Some v \<Rightarrow> v)"

definition setSetting :: "string \<Rightarrow> string \<Rightarrow> agent_db \<Rightarrow> agent_db \<times> bool" where
  "setSetting key v = exec (\<lambda>s. s\<lparr>db_settings := AList.update key v (db_settings s)\<rparr>)"

definition db_count :: "agent_db \<Rightarrow> agent_db \<times> nat option" where
  "db_count = query (\<lambda>s. length (db_agents s))"

definition mk_entry :: "string \<times> string \<times> string \<Rightarrow> agent_entry" where
  "mk_entry r = (case r of (aid, name, token) \<Rightarrow> \<lparr>ae_id = aid, ae_name = name, ae_token = token\<rparr>)"

definition db_list :: "agent_db \<Rightarrow> agent_db \<times> agent_entry list option" where
  "db_list = query (\<lambda>s. map mk_entry (sort_key fst (db_agents s)))"

definition db_upsert :: "agent_entry \<Rightarrow> agent_db \<Rightarrow> agent_db \<times> bool" where
  "db_upsert e = exec (\<lambda>s. s\<lparr>db_agents := AList.update (ae_id e) (ae_name e, ae_token e) (db_agents s)\<rparr>)"

definition db_remove :: "string \<Rightarrow> agent_db \<Rightarrow> agent_db \<times> bool" where
  "db_remove aid = exec (\<lambda>s. s\<lparr>db_agents := AList.delete aid (db_agents s)\<rparr>)"

section \<open>The interface\<close>

text \<open>A table seen through its lookup function: a write that reports success stores exactly its
  row, a write that reports an error stores nothing.\<close>

locale keyed_table =
  fixes row :: "'s \<Rightarrow> 'k \<Rightarrow> 'v option"
    and put :: "'k \<Rightarrow> 'v \<Rightarrow> 's \<Rightarrow> 's \<times> bool"
    and del :: "'k \<Rightarrow> 's \<Rightarrow> 's \<times> bool"
  assumes put_ok: "put k v s = (s', True) \<Longrightarrow> row s' = (row s)(k \<mapsto> v)"
    and put_err: "put k v s = (s', False) \<Longrightarrow> row s' = row s"
    and del_ok: "del k s = (s', True) \<Longrightarrow> row s' = (row s)(k := None)"
    and del_err: "del k s = (s', False) \<Longrightarrow> row s' = row s"
begin

lemma put_get: "put k v s = (s', ok) \<Longrightarrow> row s' = (if ok then (row s)(k \<mapsto> v) else row s)"
  using put_ok put_err by (cases ok) auto

lemma del_get: "del k s = (s', ok) \<Longrightarrow> row s' = (if ok then (row s)(k := None) else row s)"
  using del_ok del_err by (cases ok) auto

lemma put_other: "put k v s = (s', ok) \<Longrightarrow> k' \<noteq> k \<Longrightarrow> row s' k' = row s k'"
  by (simp add: put_get)

text \<open>Writing every row of a list in turn, stopping at the first error.\<close>

fun put_all :: "('k \<times> 'v) list \<Rightarrow> 's \<Rightarrow> 's \<times> bool" where
  "put_all [] s = (s, True)"
| "put_all ((k, v) # xs) s = (case put k v s of (s', ok) \<Rightarrow> if ok then put_all xs s' else (s', False))"

lemma put_all_ok: "put_all xs s = (s', True) \<Longrightarrow> row s' = row s ++ map_of (rev xs)"
  by (induction xs s rule: put_all.induct)
     (auto simp: put_get map_add_def fun_eq_iff split: prod.splits if_splits option.splits)

end

definition agent_row :: "agent_db \<Rightarrow> string \<Rightarrow> (string \<times> string) option" where
  "agent_row s = map_of (db_agents s)"

definition setting_row :: "agent_db \<Rightarrow> string \<Rightarrow> string option" where
  "setting_row s = map_of (db_settings s)"

definition label_row :: "agent_db \<Rightarrow> string \<Rightarrow> string option" where
  "label_row s = map_of (db_ip_labels s)"

definition hidden_row :: "agent_db \<Rightarrow> string \<Rightarrow> unit option" where
  "hidden_row s = map_of (db_hidden s)"

definition wall_row :: "agent_db \<Rightarrow> string \<Rightarrow> (string \<times> int) option" where
  "wall_row s = map_of (db_walls s)"

definition no_delete :: "'k \<Rightarrow> 's \<Rightarrow> 's \<times> bool" where
  "no_delete k s = (s, False)"

lemma statement_cases:
  "statement s = (s', ok) \<Longrightarrow> db_agents s' = db_agents s \<and> db_settings s' = db_settings s
     \<and> db_ip_labels s' = db_ip_labels s \<and> db_hidden s' = db_hidden s \<and> db_walls s' = db_walls s"
  by (auto simp: statement_def split: list.splits)

lemma exec_ok: "exec f s = (s', True) \<Longrightarrow> \<exists>s1. statement s = (s1, True) \<and> s' = f s1"
  by (auto simp: exec_def split: prod.splits if_splits)

lemma exec_err: "exec f s = (s', False) \<Longrightarrow> statement s = (s', False)"
  by (auto simp: exec_def split: prod.splits if_splits)

lemma query_rows:
  "query f s = (s', r) \<Longrightarrow> agent_row s' = agent_row s \<and> setting_row s' = setting_row s
     \<and> label_row s' = label_row s \<and> hidden_row s' = hidden_row s \<and> wall_row s' = wall_row s"
  by (auto simp: query_def agent_row_def setting_row_def label_row_def hidden_row_def wall_row_def
      split: prod.splits dest: statement_cases)

named_theorems table_rows \<open>the lookup functions of the tables\<close>

declare agent_row_def [table_rows] setting_row_def [table_rows] label_row_def [table_rows]
  hidden_row_def [table_rows] wall_row_def [table_rows]

lemmas exec_dest = exec_ok exec_err statement_cases

interpretation agents: keyed_table agent_row "\<lambda>k v. db_upsert (mk_entry (k, v))" db_remove
  by unfold_locales
     (auto simp: db_upsert_def db_remove_def mk_entry_def agent_row_def fun_eq_iff
       dest!: exec_dest split: prod.splits)

interpretation settings: keyed_table setting_row setSetting no_delete
  by unfold_locales
     (auto simp: setSetting_def no_delete_def setting_row_def fun_eq_iff dest!: exec_dest)

definition put_label :: "string \<Rightarrow> string \<Rightarrow> agent_db \<Rightarrow> agent_db \<times> bool" where
  "put_label ip label s = (if label = [] then (s, False) else db_setIPLabel ip label s)"

interpretation labels: keyed_table label_row put_label "\<lambda>ip. db_setIPLabel ip []"
  by unfold_locales
     (auto simp: put_label_def db_setIPLabel_def label_row_def fun_eq_iff dest!: exec_dest
       split: if_splits)

interpretation hidden: keyed_table hidden_row "\<lambda>k v. db_setAgentHidden k True" "\<lambda>k. db_setAgentHidden k False"
  by unfold_locales
     (auto simp: db_setAgentHidden_def hidden_row_def fun_eq_iff dest!: exec_dest)

interpretation walls: keyed_table wall_row "\<lambda>k v. saveWallLayout k (fst v) (snd v)" no_delete
  by unfold_locales
     (auto simp: saveWallLayout_def no_delete_def wall_row_def fun_eq_iff dest!: exec_dest)

section \<open>CSV\<close>

lemma split_on_nonempty [simp]: "split_on c xs \<noteq> []"
  by (induction c xs rule: split_on.induct) (auto split: list.splits)

lemma split_on_no_sep: "c \<notin> set x \<Longrightarrow> split_on c x = [x]"
  by (induction x) auto

lemma split_on_cons: "c \<notin> set x \<Longrightarrow> split_on c (x @ c # ys) = x # split_on c ys"
  by (induction x) auto

lemma split_join:
  "xs \<noteq> [] \<Longrightarrow> \<forall>x\<in>set xs. c \<notin> set x \<Longrightarrow> split_on c (join_with c xs) = xs"
  by (induction c xs rule: join_with.induct) (auto simp: split_on_no_sep split_on_cons)

end
