(* ===== verification/Agent_Registry.thy ===== *)
theory Agent_Registry
  imports Agent_Store
begin

text \<open>
  \<^verbatim>\<open>relay/agent_registry.go\<close>: who may publish. The registry maps an agent id to its entry; the
  empty id is the default agent, authenticated by the legacy token. When a store is attached the
  named agents live in its table and \<open>reload\<close> copies them. The store is passed along; the error
  texts are the constructors of \<open>reg_error\<close>. \<open>unmarshal\<close> is \<open>json.Unmarshal\<close> of RELAY_AGENTS.
\<close>

record registry =
  reg_byID :: "(string \<times> agent_entry) list"
  reg_store :: bool

datatype reg_error =
    AgentsParse
  | BadAgentID
  | TokenRequired string
  | DuplicateAgent string
  | ReadOnlyRegistry
  | SqlError

definition validateAgentEntry :: "agent_entry \<Rightarrow> reg_error option" where
  "validateAgentEntry e =
     (if ae_id e = '''' \<or> ae_id e = ''default'' then Some BadAgentID
      else if ae_token e = '''' then Some (TokenRequired (ae_id e)) else None)"

definition default_entry :: "string \<Rightarrow> agent_entry" where
  "default_entry token = \<lparr>ae_id = ''default'', ae_name = ''default'', ae_token = token\<rparr>"

definition named :: "agent_entry \<Rightarrow> agent_entry" where
  "named e = (if ae_name e = '''' then e\<lparr>ae_name := ae_id e\<rparr> else e)"

fun add_entries ::
    "agent_entry list \<Rightarrow> (string \<times> agent_entry) list \<Rightarrow> reg_error + (string \<times> agent_entry) list" where
  "add_entries [] m = Inr m"
| "add_entries (e # es) m =
     (case validateAgentEntry e of
        Some err \<Rightarrow> Inl err
      | None \<Rightarrow>
          if map_of m (ae_id e) \<noteq> None then Inl (DuplicateAgent (ae_id e))
          else add_entries es (AList.update (ae_id e) (named e) m))"

definition parseAgentRegistry ::
    "(string \<Rightarrow> agent_entry list option) \<Rightarrow> string \<Rightarrow> string \<Rightarrow> reg_error + registry" where
  "parseAgentRegistry unmarshal jsonStr legacyToken =
     (let m = [('''', default_entry legacyToken)]
      in if jsonStr \<noteq> '''' then
           (case unmarshal jsonStr of
              None \<Rightarrow> Inl AgentsParse
            | Some entries \<Rightarrow>
               (case add_entries entries m of
                  Inl err \<Rightarrow> Inl err
                | Inr m' \<Rightarrow> Inr \<lparr>reg_byID = m', reg_store = False\<rparr>))
         else Inr \<lparr>reg_byID = m, reg_store = False\<rparr>)"

definition lookup :: "registry \<Rightarrow> string \<Rightarrow> agent_entry option" where
  "lookup r agentID = map_of (reg_byID r) agentID"

definition ids :: "registry \<Rightarrow> string list" where
  "ids r = map fst (reg_byID r)"

definition listNamed :: "registry \<Rightarrow> agent_entry list" where
  "listNamed r = map snd (filter (\<lambda>(aid, e). aid \<noteq> '''') (reg_byID r))"

definition editable :: "registry \<Rightarrow> bool" where
  "editable r = reg_store r"

text \<open>\<open>byID[""]\<close> of a map without that key would be the zero entry.\<close>

definition zero_entry :: agent_entry where
  "zero_entry = \<lparr>ae_id = [], ae_name = [], ae_token = []\<rparr>"

definition put_entry :: "(string \<times> agent_entry) list \<Rightarrow> agent_entry \<Rightarrow> (string \<times> agent_entry) list" where
  "put_entry m e = AList.update (ae_id e) e m"

definition reload :: "registry \<Rightarrow> agent_db \<Rightarrow> registry \<times> agent_db \<times> reg_error option" where
  "reload r s =
     (if \<not> reg_store r then (r, s, None)
      else case db_list s of
        (s', None) \<Rightarrow> (r, s', Some SqlError)
      | (s', Some entries) \<Rightarrow>
          (let def = (case map_of (reg_byID r) '''' of None \<Rightarrow> zero_entry | Some e \<Rightarrow> e)
           in (r\<lparr>reg_byID := foldl put_entry [('''', def)] entries\<rparr>, s', None)))"

fun upsert_all :: "agent_entry list \<Rightarrow> agent_db \<Rightarrow> agent_db \<times> bool" where
  "upsert_all [] s = (s, True)"
| "upsert_all (e # es) s =
     (case db_upsert e s of (s', ok) \<Rightarrow> if ok then upsert_all es s' else (s', False))"

definition useStore :: "registry \<Rightarrow> agent_db \<Rightarrow> registry \<times> agent_db \<times> reg_error option" where
  "useStore r s =
     (case db_count s of
        (s1, None) \<Rightarrow> (r, s1, Some SqlError)
      | (s1, Some n) \<Rightarrow>
         (case (if n = 0 then upsert_all (listNamed r) s1 else (s1, True)) of
            (s2, False) \<Rightarrow> (r, s2, Some SqlError)
          | (s2, True) \<Rightarrow> reload (r\<lparr>reg_store := True\<rparr>) s2))"

definition upsertNamed :: "registry \<Rightarrow> agent_entry \<Rightarrow> agent_db \<Rightarrow> registry \<times> agent_db \<times> reg_error option" where
  "upsertNamed r e s =
     (if \<not> reg_store r then (r, s, Some ReadOnlyRegistry)
      else case validateAgentEntry (named e) of
        Some err \<Rightarrow> (r, s, Some err)
      | None \<Rightarrow>
         (case db_upsert (named e) s of
            (s', False) \<Rightarrow> (r, s', Some SqlError)
          | (s', True) \<Rightarrow> reload r s'))"

definition removeNamed :: "registry \<Rightarrow> string \<Rightarrow> agent_db \<Rightarrow> registry \<times> agent_db \<times> reg_error option" where
  "removeNamed r aid s =
     (if \<not> reg_store r then (r, s, Some ReadOnlyRegistry)
      else case db_remove aid s of
        (s', False) \<Rightarrow> (r, s', Some SqlError)
      | (s', True) \<Rightarrow> reload r s')"

datatype reg_op = Upsert agent_entry | Remove string

fun reg_step :: "registry \<times> agent_db \<Rightarrow> reg_op \<Rightarrow> registry \<times> agent_db \<times> reg_error option" where
  "reg_step (r, s) (Upsert e) = upsertNamed r e s"
| "reg_step (r, s) (Remove aid) = removeNamed r aid s"

fun reg_run :: "registry \<times> agent_db \<Rightarrow> reg_op list \<Rightarrow> registry \<times> agent_db" where
  "reg_run st [] = st"
| "reg_run st (p # ps) = (case reg_step st p of (r, s, _) \<Rightarrow> reg_run (r, s) ps)"

section \<open>Lemmas\<close>

definition entry_of :: "string \<Rightarrow> string \<times> string \<Rightarrow> agent_entry" where
  "entry_of aid v = mk_entry (aid, v)"

text \<open>What the registry is once it mirrors the table.\<close>

definition mirrors :: "string \<Rightarrow> registry \<Rightarrow> agent_db \<Rightarrow> bool" where
  "mirrors token r s = (\<forall>aid. lookup r aid =
     (if aid = '''' then Some (default_entry token) else map_option (entry_of aid) (agent_row s aid)))"

text \<open>Every row of the table can authenticate somebody: no empty or reserved id, no empty token.\<close>

definition rows_ok :: "agent_db \<Rightarrow> bool" where
  "rows_ok s = (\<forall>aid v. agent_row s aid = Some v \<longrightarrow> aid \<noteq> '''' \<and> aid \<noteq> ''default'' \<and> snd v \<noteq> '''')"

definition keys_ok :: "agent_db \<Rightarrow> bool" where
  "keys_ok s = distinct (map fst (db_agents s))"

lemma mk_entry_id [simp]: "ae_id (mk_entry r) = fst r"
  by (cases r) (simp add: mk_entry_def)

lemma put_entries:
  "map_of (foldl put_entry m es) k
     = (case map_of (rev (map (\<lambda>e. (ae_id e, e)) es)) k of Some e \<Rightarrow> Some e | None \<Rightarrow> map_of m k)"
  by (induction es arbitrary: m) (auto simp: put_entry_def map_add_def split: option.splits)

lemma map_of_sorted:
  fixes xs :: "(string \<times> 'a) list"
  assumes "distinct (map fst xs)"
  shows "map_of (rev (sort_key fst xs)) = map_of xs"
proof (rule map_of_inject_set [THEN iffD2])
  have m: "mset (rev (sort_key fst xs)) = mset xs" by simp
  then have "mset (map fst (rev (sort_key fst xs))) = mset (map fst xs)"
    by (metis mset_map)
  then show "distinct (map fst (rev (sort_key fst xs)))"
    using assms by (metis mset_eq_imp_distinct_iff)
  show "set (rev (sort_key fst xs)) = set xs" by simp
qed (rule assms)

lemma map_of_entries:
  "map_of (map (\<lambda>r. (fst r, mk_entry r)) xs) k = map_option (entry_of k) (map_of xs k)"
  by (induction xs) (auto simp: entry_of_def)

lemma db_list_Some:
  assumes "db_list s = (s', Some es)" "keys_ok s"
  shows "map_of (rev (map (\<lambda>e. (ae_id e, e)) es)) k = map_option (entry_of k) (agent_row s k)"
    "agent_row s' = agent_row s" "keys_ok s'"
proof -
  obtain s1 where s1: "statement s = (s1, True)" "s' = s1" "es = map mk_entry (sort_key fst (db_agents s1))"
    using assms(1) by (auto simp: db_list_def query_def split: prod.splits if_splits)
  have a: "db_agents s1 = db_agents s" using statement_cases [OF s1(1)] by simp
  have "rev (map (\<lambda>e. (ae_id e, e)) es) = map (\<lambda>r. (fst r, mk_entry r)) (rev (sort_key fst (db_agents s)))"
    by (simp add: s1(3) a rev_map comp_def)
  then show "map_of (rev (map (\<lambda>e. (ae_id e, e)) es)) k = map_option (entry_of k) (agent_row s k)"
    using assms(2) by (simp only: map_of_entries map_of_sorted keys_ok_def agent_row_def)
  show "agent_row s' = agent_row s" "keys_ok s'"
    using a assms(2) s1(2) by (simp_all add: agent_row_def keys_ok_def)
qed

text \<open>The entries a registry may hold: the default agent under the empty id, and named agents under
  their own ids with a token.\<close>

definition entries_ok :: "string \<Rightarrow> registry \<Rightarrow> bool" where
  "entries_ok token r = (lookup r '''' = Some (default_entry token)
     \<and> (\<forall>aid e. lookup r aid = Some e \<longrightarrow> aid \<noteq> ''''
           \<longrightarrow> ae_id e = aid \<and> aid \<noteq> ''default'' \<and> ae_token e \<noteq> ''''))"

lemma mirrors_entries_ok: "mirrors token r s \<Longrightarrow> rows_ok s \<Longrightarrow> entries_ok token r"
  by (auto simp: mirrors_def rows_ok_def entries_ok_def entry_of_def mk_entry_def)

lemma reload_ok:
  assumes "reload r s = (r', s', err)" "reg_store r" "entries_ok token r" "keys_ok s" "rows_ok s"
  shows "agent_row s' = agent_row s" "keys_ok s'" "reg_store r'"
    "err = None \<Longrightarrow> mirrors token r' s'" "err \<noteq> None \<Longrightarrow> r' = r"
proof -
  obtain s1 es where l: "db_list s = (s1, es)" by fastforce
  have "s' = s1" using assms(1,2) l by (auto simp: reload_def Let_def split: option.splits)
  have rows: "agent_row s1 = agent_row s" "keys_ok s1"
  proof -
    have "db_agents s1 = db_agents s"
      using l statement_cases by (fastforce simp: db_list_def query_def split: prod.splits)
    then show "agent_row s1 = agent_row s" "keys_ok s1"
      using assms(4) by (simp_all add: agent_row_def keys_ok_def)
  qed
  with \<open>s' = s1\<close> show "agent_row s' = agent_row s" "keys_ok s'" by simp_all
  show "reg_store r'" "err \<noteq> None \<Longrightarrow> r' = r"
    using assms(1,2) l by (auto simp: reload_def Let_def split: option.splits)
  assume "err = None"
  with assms(1,2) l obtain es' where es: "es = Some es'"
    and r': "r' = r\<lparr>reg_byID := foldl put_entry [('''', default_entry token)] es'\<rparr>"
    using assms(3) by (auto simp: reload_def Let_def entries_ok_def lookup_def split: option.splits)
  note m = db_list_Some(1) [OF l [unfolded es] assms(4)]
  have "agent_row s '''' = None" using assms(5) by (cases "agent_row s ''''") (auto simp: rows_ok_def)
  then show "mirrors token r' s'"
    unfolding mirrors_def lookup_def r' \<open>s' = s1\<close> rows(1)
    by (auto simp: put_entries m split: option.splits)
qed

lemma exec_agents:
  "db_upsert e s = (s', ok) \<Longrightarrow> agent_row s' = (if ok then (agent_row s)(ae_id e \<mapsto> (ae_name e, ae_token e)) else agent_row s)
     \<and> (keys_ok s \<longrightarrow> keys_ok s')"
  by (cases ok) (auto simp: db_upsert_def agent_row_def keys_ok_def fun_eq_iff distinct_update
      dest!: exec_dest)

lemma db_remove_agents:
  "db_remove aid s = (s', ok) \<Longrightarrow> agent_row s' = (if ok then (agent_row s)(aid := None) else agent_row s)
     \<and> (keys_ok s \<longrightarrow> keys_ok s')"
  by (cases ok) (auto simp: db_remove_def agent_row_def keys_ok_def fun_eq_iff distinct_delete
      dest!: exec_dest)

lemma validate_row:
  "validateAgentEntry (named e) = None \<Longrightarrow> ae_id e \<noteq> '''' \<and> ae_id e \<noteq> ''default'' \<and> ae_token (named e) \<noteq> ''''"
  by (auto simp: validateAgentEntry_def named_def split: if_splits)

definition reg_inv :: "string \<Rightarrow> registry \<times> agent_db \<Rightarrow> bool" where
  "reg_inv token st = (reg_store (fst st) \<and> entries_ok token (fst st) \<and> keys_ok (snd st) \<and> rows_ok (snd st))"

lemma named_id [simp]: "ae_id (named e) = ae_id e"
  by (simp add: named_def)

lemma reload_inv:
  assumes "reload r s = (r', s', err)" "reg_inv token (r, s)"
  shows "reg_inv token (r', s') \<and> (err = None \<longrightarrow> mirrors token r' s')"
proof -
  note i = assms(2) [unfolded reg_inv_def fst_conv snd_conv]
  note ro = reload_ok [OF assms(1), of token]
  have "rows_ok s'" using ro(1) i by (simp add: rows_ok_def)
  with ro i mirrors_entries_ok [of token r' s'] show ?thesis
    by (cases err) (auto simp: reg_inv_def)
qed

lemma reg_step_inv:
  assumes "reg_inv token (r, s)" "reg_step (r, s) p = (r', s', err)"
  shows "reg_inv token (r', s') \<and> (err = None \<longrightarrow> mirrors token r' s')"
proof (cases p)
  case (Upsert e)
  note i = assms(1) [unfolded reg_inv_def fst_conv snd_conv]
  show ?thesis
  proof (cases "validateAgentEntry (named e)")
    case None
    obtain s1 ok where u: "db_upsert (named e) s = (s1, ok)" by fastforce
    have inv1: "reg_inv token (r, s1)"
      using i exec_agents [OF u] validate_row [OF None] by (auto simp: reg_inv_def rows_ok_def)
    show ?thesis
    proof (cases ok)
      case True
      then have "reload r s1 = (r', s', err)"
        using assms(2) i Upsert None u by (simp add: upsertNamed_def)
      from reload_inv [OF this inv1] show ?thesis .
    next
      case False
      then show ?thesis using assms(2) i Upsert None u inv1 by (auto simp: upsertNamed_def)
    qed
  next
    case (Some err')
    then show ?thesis using assms Upsert i by (auto simp: upsertNamed_def)
  qed
next
  case (Remove aid)
  note i = assms(1) [unfolded reg_inv_def fst_conv snd_conv]
  obtain s1 ok where u: "db_remove aid s = (s1, ok)" by fastforce
  have inv1: "reg_inv token (r, s1)"
    using i db_remove_agents [OF u] by (auto simp: reg_inv_def rows_ok_def)
  show ?thesis
  proof (cases ok)
    case True
    then have "reload r s1 = (r', s', err)" using assms(2) i Remove u by (simp add: removeNamed_def)
    from reload_inv [OF this inv1] show ?thesis .
  next
    case False
    then show ?thesis using assms(2) i Remove u inv1 by (auto simp: removeNamed_def)
  qed
qed

lemma reg_run_inv: "reg_inv token st \<Longrightarrow> reg_inv token (reg_run st ps)"
proof (induction st ps rule: reg_run.induct)
  case (2 st p ps)
  obtain r' s' err where step: "reg_step st p = (r', s', err)" by (metis prod_cases3)
  from reg_step_inv [of token "fst st" "snd st" p r' s' err] "2.prems" step
  have "reg_inv token (r', s')" by simp
  with "2.IH" [OF step [symmetric] refl] step show ?case by simp
qed simp

lemma upsert_all_rows:
  assumes "upsert_all es s = (s', ok)" "keys_ok s" "rows_ok s"
    and "\<forall>e\<in>set es. ae_id e \<noteq> '''' \<and> ae_id e \<noteq> ''default'' \<and> ae_token e \<noteq> ''''"
  shows "keys_ok s' \<and> rows_ok s'"
  using assms
proof (induction es s rule: upsert_all.induct)
  case (2 e es s)
  obtain s1 ok1 where u: "db_upsert e s = (s1, ok1)" by fastforce
  have "keys_ok s1 \<and> rows_ok s1"
    using exec_agents [OF u] "2.prems" by (cases ok1) (auto simp: rows_ok_def)
  then show ?case using 2 u by (cases ok1) auto
qed simp

lemma add_entries_ok:
  assumes "add_entries es m = Inr m'" "entries_ok token \<lparr>reg_byID = m, reg_store = b\<rparr>"
  shows "entries_ok token \<lparr>reg_byID = m', reg_store = b\<rparr>"
  using assms
proof (induction es m rule: add_entries.induct)
  case (2 e es m)
  have v: "validateAgentEntry e = None" "map_of m (ae_id e) = None"
    using "2.prems"(1) by (auto split: option.splits if_splits)
  then have "entries_ok token \<lparr>reg_byID = AList.update (ae_id e) (named e) m, reg_store = b\<rparr>"
    using "2.prems"(2)
    by (auto simp: entries_ok_def lookup_def named_def validateAgentEntry_def split: if_splits)
  with 2 v show ?case by simp
qed simp

lemma add_entries_keys:
  "add_entries es m = Inr m' \<Longrightarrow> distinct (map fst m) \<Longrightarrow> distinct (map fst m')"
  by (induction es m rule: add_entries.induct) (auto split: option.splits if_splits simp: distinct_update)

lemma parse_ok:
  assumes "parseAgentRegistry unmarshal js token = Inr r"
  shows "entries_ok token r" "distinct (map fst (reg_byID r))"
proof -
  have d: "entries_ok token \<lparr>reg_byID = [('''', default_entry token)], reg_store = False\<rparr>"
    by (auto simp: entries_ok_def lookup_def split: if_splits)
  from assms d show "entries_ok token r"
    by (auto simp: parseAgentRegistry_def Let_def intro: add_entries_ok
        split: if_splits option.splits sum.splits)
  from assms show "distinct (map fst (reg_byID r))"
    by (auto simp: parseAgentRegistry_def Let_def dest: add_entries_keys
        split: if_splits option.splits sum.splits)
qed

lemma listNamed_ok:
  assumes "entries_ok token r" "distinct (map fst (reg_byID r))" "e \<in> set (listNamed r)"
  shows "ae_id e \<noteq> '''' \<and> ae_id e \<noteq> ''default'' \<and> ae_token e \<noteq> ''''"
proof -
  from assms(3) obtain aid where a: "(aid, e) \<in> set (reg_byID r)" "aid \<noteq> ''''"
    by (auto simp: listNamed_def)
  then have "lookup r aid = Some e" using assms(2) by (simp add: lookup_def)
  with assms(1) a(2) show ?thesis by (auto simp: entries_ok_def)
qed

lemma useStore_inv:
  assumes "useStore r s = (r', s', None)" "entries_ok token r" "distinct (map fst (reg_byID r))"
    and "keys_ok s" "rows_ok s"
  shows "reg_inv token (r', s') \<and> mirrors token r' s'"
proof -
  obtain s1 n where c: "db_count s = (s1, Some n)"
    using assms(1) by (auto simp: useStore_def split: prod.splits option.splits)
  have "db_agents s1 = db_agents s"
    using c statement_cases by (fastforce simp: db_count_def query_def split: prod.splits if_splits)
  then have 1: "keys_ok s1" "rows_ok s1"
    using assms(4,5) by (simp_all add: keys_ok_def rows_ok_def agent_row_def)
  obtain s2 where u: "(if n = 0 then upsert_all (listNamed r) s1 else (s1, True)) = (s2, True)"
    and rl: "reload (r\<lparr>reg_store := True\<rparr>) s2 = (r', s', None)"
    using assms(1) c by (auto simp: useStore_def split: prod.splits option.splits bool.splits)
  have "keys_ok s2 \<and> rows_ok s2"
    using u 1 upsert_all_rows [of "listNamed r" s1 s2 True] listNamed_ok [OF assms(2,3)]
    by (auto split: if_splits)
  then have "reg_inv token (r\<lparr>reg_store := True\<rparr>, s2)"
    using assms(2) by (simp add: reg_inv_def entries_ok_def lookup_def)
  from reload_inv [OF rl this] show ?thesis by simp
qed

section \<open>Properties\<close>

text \<open>C10. The registry mirrors the table: after the store is attached and any sequence of edits
  (any statement of which may have failed), an edit that reports success leaves a registry that
  resolves exactly the rows of the table and, under the empty id, the default agent.\<close>

theorem registry_mirrors_store:
  assumes "parseAgentRegistry unmarshal js token = Inr r0" "keys_ok s0" "rows_ok s0"
    and "useStore r0 s0 = (r1, s1, None)" "reg_run (r1, s1) ps = (r2, s2)"
    and "reg_step (r2, s2) p = (r3, s3, None)"
  shows "mirrors token r3 s3"
proof -
  have "reg_inv token (r1, s1)"
    using useStore_inv [OF assms(4) parse_ok [OF assms(1)] assms(2,3)] by simp
  from reg_run_inv [OF this, of ps] assms(5) have "reg_inv token (r2, s2)" by simp
  from reg_step_inv [OF this assms(6)] show ?thesis by simp
qed

definition sample_entry :: agent_entry where
  "sample_entry = \<lparr>ae_id = ''site'', ae_name = [], ae_token = ''k''\<rparr>"

definition attached :: "registry \<times> agent_db \<times> reg_error option" where
  "attached = useStore \<lparr>reg_byID = [([], default_entry ''t'')], reg_store = False\<rparr> openAgentStore"

theorem registry_mirrors_store_witness:
  "let st = (fst attached, fst (snd attached)); st' = reg_step st (Upsert sample_entry)
   in mirrors ''t'' (fst st') (fst (snd st'))"
proof -
  have p: "parseAgentRegistry (\<lambda>_. None) [] ''t''
      = Inr \<lparr>reg_byID = [([], default_entry ''t'')], reg_store = False\<rparr>"
    by (simp add: parseAgentRegistry_def)
  have db: "keys_ok openAgentStore" "rows_ok openAgentStore"
    by (simp_all add: keys_ok_def rows_ok_def agent_row_def openAgentStore_def)
  have a: "attached = (fst attached, fst (snd attached), None)"
    by (simp add: attached_def useStore_def db_count_def query_def statement_def openAgentStore_def
        listNamed_def reload_def db_list_def)
  have s: "reg_step (fst attached, fst (snd attached)) (Upsert sample_entry)
      = (fst (reg_step (fst attached, fst (snd attached)) (Upsert sample_entry)),
         fst (snd (reg_step (fst attached, fst (snd attached)) (Upsert sample_entry))), None)"
    by (simp add: attached_def useStore_def db_count_def query_def statement_def openAgentStore_def
        listNamed_def reload_def db_list_def upsertNamed_def sample_entry_def named_def
        validateAgentEntry_def db_upsert_def exec_def)
  show ?thesis
    unfolding Let_def
    by (rule registry_mirrors_store [OF p db _ _ s, of "fst attached" "fst (snd attached)" "[]"])
       (use a in \<open>simp_all add: attached_def\<close>)
qed

text \<open>Whatever edits are made and whatever statements fail, the default agent keeps its token
  and every named agent that can be looked up is stored under its own id, is not called
  \<open>default\<close> and has a token.\<close>

lemma registry_entries_authenticate:
  assumes "parseAgentRegistry unmarshal js token = Inr r0" "keys_ok s0" "rows_ok s0"
    and "useStore r0 s0 = (r1, s1, None)"
  shows "entries_ok token (fst (reg_run (r1, s1) ps))"
proof -
  have "reg_inv token (r1, s1)"
    using useStore_inv [OF assms(4) parse_ok [OF assms(1)] assms(2,3)] by simp
  from reg_run_inv [OF this, of ps] show ?thesis by (simp add: reg_inv_def)
qed

end
