(* ===== verification/Annex_B.thy ===== *)
theory Annex_B
  imports Ovp_Wire
begin

text \<open>
  \<^verbatim>\<open>relay/surv_transcode.go\<close> and \<^verbatim>\<open>relay/surv_ws.go\<close>: the byte-level media path. \<open>splitNALUnits\<close>
  cuts an Annex-B byte run at its start codes, \<open>groupNALsIntoAUs\<close> groups the units into access
  units, \<open>annexBToAVCC\<close> writes an access unit with length prefixes. \<open>read_chunk\<close> is one round of
  the loop of \<open>ingestAnnexB\<close>: append a chunk to the pending bytes, split, keep the rest, and
  start a new access unit at every delimiter.
\<close>

section \<open>Splitting\<close>

fun start_codes :: "nat \<Rightarrow> bytes \<Rightarrow> nat list" where
  "start_codes i (a # b # c # xs) =
     (if a = 0 \<and> b = 0 \<and> c = 1 then i # start_codes (i + 3) xs
      else start_codes (i + 1) (b # c # xs))"
| "start_codes i _ = []"

fun trim_zeros :: "bytes \<Rightarrow> bytes" where
  "trim_zeros nal = (if nal \<noteq> [] \<and> last nal = 0 then trim_zeros (butlast nal) else nal)"

declare trim_zeros.simps [simp del]

definition nal_between :: "bytes \<Rightarrow> nat \<times> nat \<Rightarrow> bytes" where
  "nal_between data se = (case se of (s, e) \<Rightarrow> trim_zeros (take (e - (s + 3)) (drop (s + 3) data)))"

definition splitNALUnits :: "bytes \<Rightarrow> bytes list \<times> bytes" where
  "splitNALUnits data =
     (let starts = start_codes 0 data
      in if length starts = 0 then ([], data)
         else (filter (\<lambda>nal. nal \<noteq> []) (map (nal_between data) (zip starts (tl starts))),
               drop (last starts) data))"

definition nalType :: "bytes \<Rightarrow> byte" where
  "nalType nal = (if length nal = 0 then 0 else and (nal ! 0) 0x1F)"

text \<open>The loop of \<open>groupNALsIntoAUs\<close> over \<open>(aus, cur)\<close>; \<open>ingestAnnexB\<close> runs the same loop with
  \<open>emit\<close> in the place of the append.\<close>

definition au_step :: "bytes list list \<times> bytes list \<Rightarrow> bytes \<Rightarrow> bytes list list \<times> bytes list" where
  "au_step st n = (case st of (aus, cur) \<Rightarrow>
     if nalType n = 9 then (if length cur > 0 then (aus @ [cur], []) else (aus, cur))
     else (aus, cur @ [n]))"

definition groupNALsIntoAUs :: "bytes list \<Rightarrow> bytes list list" where
  "groupNALsIntoAUs nals =
     (case foldl au_step ([], []) nals of
        (aus, cur) \<Rightarrow> if length cur > 0 then aus @ [cur] else aus)"

record reader =
  rd_pending :: bytes
  rd_aus :: "bytes list list"
  rd_cur :: "bytes list"

definition new_reader :: reader where
  "new_reader = \<lparr>rd_pending = [], rd_aus = [], rd_cur = []\<rparr>"

definition read_chunk :: "reader \<Rightarrow> bytes \<Rightarrow> reader" where
  "read_chunk r chunk =
     (if length chunk > 0 then
        (let (nals, rest) = splitNALUnits (rd_pending r @ chunk);
             (aus, cur) = foldl au_step (rd_aus r, rd_cur r) nals
         in \<lparr>rd_pending = rest, rd_aus = aus, rd_cur = cur\<rparr>)
      else r)"

definition annexBToAVCC :: "bytes list \<Rightarrow> bytes" where
  "annexBToAVCC au = concat (map (\<lambda>nal. put_be 4 (length nal) @ nal) au)"

section \<open>The positions of the start codes\<close>

definition at_code :: "bytes \<Rightarrow> nat \<Rightarrow> bool" where
  "at_code data j = (take 3 (drop j data) = [0, 0, 1])"

definition occ :: "bytes \<Rightarrow> nat list" where
  "occ data = filter (at_code data) [0..<length data]"

lemma occ_Cons: "occ (x # xs) = (if at_code (x # xs) 0 then [0] else []) @ map Suc (occ xs)"
proof -
  have "[0..<length (x # xs)] = 0 # map Suc [0..<length xs]"
    by (simp add: map_Suc_upt upt_conv_Cons del: upt_Suc)
  moreover have "at_code (x # xs) \<circ> Suc = at_code xs" by (auto simp: at_code_def fun_eq_iff)
  ultimately show ?thesis unfolding occ_def by (simp only: filter.simps filter_map) simp
qed

lemma occ_short: "length xs < 3 \<Longrightarrow> occ xs = []"
  by (auto simp: occ_def at_code_def filter_empty_conv dest: arg_cong [where f = length])

lemma start_codes_occ: "start_codes i data = map ((+) i) (occ data)"
proof (induction i data rule: start_codes.induct)
  case (1 i a b c xs)
  show ?case
  proof (cases "a = 0 \<and> b = 0 \<and> c = 1")
    case True
    then have "occ (a # b # c # xs) = 0 # map (\<lambda>j. Suc (Suc (Suc j))) (occ xs)"
      by (simp add: occ_Cons at_code_def)
    with True "1.IH"(1) show ?thesis by simp
  next
    case False
    then have "occ (a # b # c # xs) = map Suc (occ (b # c # xs))"
      by (subst occ_Cons) (auto simp: at_code_def)
    with False "1.IH"(2) show ?thesis by (auto simp del: start_codes.simps simp: start_codes.simps(1))
  qed
qed (simp_all add: occ_short)

lemma start_codes_0: "start_codes 0 data = occ data"
  by (simp add: start_codes_occ map_idI)

lemma at_code_append: "j + 3 \<le> length a \<Longrightarrow> at_code (a @ b) j = at_code a j"
  by (simp add: at_code_def)

lemma at_code_length: "at_code a j \<Longrightarrow> j + 3 \<le> length a"
  by (auto simp: at_code_def dest: arg_cong [where f = length])

lemma occ_split:
  assumes "at_code a s"
  shows "occ (a @ b) = filter (\<lambda>j. j < s) (occ a) @ map ((+) s) (occ (drop s a @ b))"
proof -
  note s = at_code_length [OF assms]
  have shift: "at_code (a @ b) (s + j) = at_code (drop s a @ b) j" for j
  proof -
    have "drop (s + j) (a @ b) = drop j (drop s (a @ b))" by (simp only: drop_drop add.commute)
    also have "drop s (a @ b) = drop s a @ b" using s by simp
    finally show ?thesis unfolding at_code_def by (rule arg_cong)
  qed
  have u: "[0..<length (a @ b)] = [0..<s] @ map ((+) s) [0..<length (drop s a @ b)]"
  proof -
    have "[0..<length (a @ b)] = [0..<s] @ [s..<length (a @ b)]"
      using s upt_add_eq_append [of 0 s "length (a @ b) - s"] by simp
    moreover have "[s..<length (a @ b)] = map ((+) s) [0..<length (drop s a @ b)]"
      using s by (intro nth_equalityI) auto
    ultimately show ?thesis by simp
  qed
  have l: "filter (at_code (a @ b)) [0..<s] = filter (\<lambda>j. j < s) (occ a)"
  proof -
    have "[0..<length a] = [0..<s] @ [s..<length a]"
      using s upt_add_eq_append [of 0 s "length a - s"] by simp
    moreover have "filter (\<lambda>j. j < s \<and> at_code a j) [s..<length a] = []"
      by (auto simp: filter_empty_conv)
    moreover have "filter (at_code (a @ b)) [0..<s] = filter (\<lambda>j. j < s \<and> at_code a j) [0..<s]"
      using s by (intro filter_cong) (auto simp: at_code_append)
    ultimately show ?thesis
      by (simp add: occ_def conj_commute)
  qed
  have r: "filter (at_code (a @ b)) (map ((+) s) [0..<length (drop s a @ b)])
      = map ((+) s) (occ (drop s a @ b))"
    by (simp only: occ_def filter_map comp_def shift)
  show ?thesis unfolding occ_def [of "a @ b"] u filter_append l r ..
qed

lemma split_last_sorted:
  "sorted_wrt (<) xs \<Longrightarrow> xs \<noteq> [] \<Longrightarrow> xs = filter (\<lambda>j. j < last xs) xs @ [last xs]"
  for xs :: "nat list"
  by (induction xs rule: rev_induct) (auto simp: sorted_wrt_append filter_id_conv)

lemma occ_last:
  assumes "occ a \<noteq> []"
  shows "at_code a (last (occ a))" "occ a = filter (\<lambda>j. j < last (occ a)) (occ a) @ [last (occ a)]"
proof -
  show "at_code a (last (occ a))"
    using last_in_set [OF assms] by (simp add: occ_def)
  have "sorted_wrt (<) (occ a)" by (simp add: occ_def sorted_wrt_filter)
  with assms show "occ a = filter (\<lambda>j. j < last (occ a)) (occ a) @ [last (occ a)]"
    by (rule split_last_sorted [rotated])
qed

lemma zip_adjacent:
  "zip (xs @ s # ys) (tl (xs @ s # ys)) = zip (xs @ [s]) (tl (xs @ [s])) @ zip (s # ys) ys"
proof (induction xs)
  case (Cons x xs)
  then show ?case by (cases xs) auto
qed simp

lemma splitNALUnits_append:
  "splitNALUnits (a @ b) = (let (n1, r1) = splitNALUnits a; (n2, r2) = splitNALUnits (r1 @ b)
     in (n1 @ n2, r2))"
proof (cases "occ a = []")
  case True
  then show ?thesis
    by (simp add: splitNALUnits_def [of a] start_codes_0 split_beta)
next
  case False
  define s where "s = last (occ a)"
  define P where "P = filter (\<lambda>j. j < s) (occ a)"
  note at = occ_last(1) [OF False, folded s_def]
  note s = at_code_length [OF at]
  have a: "occ a = P @ [s]" using occ_last(2) [OF False] by (simp add: P_def s_def)
  let ?t = "drop s a @ b"
  have "occ ?t \<noteq> []" and hd: "occ ?t = 0 # tl (occ ?t)"
  proof -
    have "at_code ?t 0" using at s by (simp add: at_code_def)
    then obtain x xs where t: "?t = x # xs" by (cases ?t) (auto simp: at_code_def)
    with \<open>at_code ?t 0\<close> show "occ ?t \<noteq> []" "occ ?t = 0 # tl (occ ?t)" by (simp_all add: occ_Cons)
  qed
  have ab: "occ (a @ b) = P @ s # map ((+) s) (tl (occ ?t))"
    using occ_split [OF at, of b] by (subst (asm) hd) (simp add: P_def)
  have seg1: "map (nal_between (a @ b)) (zip (P @ [s]) (tl (P @ [s])))
      = map (nal_between a) (zip (P @ [s]) (tl (P @ [s])))"
  proof (rule map_cong [OF refl])
    fix pq
    assume pq: "pq \<in> set (zip (P @ [s]) (tl (P @ [s])))"
    have "\<forall>x\<in>set (P @ [s]). x \<le> s" by (auto simp: P_def)
    moreover have "snd pq \<in> set (P @ [s])"
      using set_zip_rightD [of "fst pq" "snd pq" "P @ [s]" "tl (P @ [s])"] pq
        list.set_sel(2) [of "P @ [s]"] by auto
    ultimately have "snd pq \<le> length a" using s by auto
    then show "nal_between (a @ b) pq = nal_between a pq"
      by (cases pq) (simp add: nal_between_def)
  qed
  have seg2: "map (nal_between (a @ b)) (zip (s # map ((+) s) (tl (occ ?t))) (map ((+) s) (tl (occ ?t))))
      = map (nal_between ?t) (zip (occ ?t) (tl (occ ?t)))"
  proof -
    have m: "s # map ((+) s) (tl (occ ?t)) = map ((+) s) (occ ?t)" by (subst (2) hd) simp
    have "nal_between (a @ b) (s + p, s + q) = nal_between ?t (p, q)" for p q
    proof -
      have "drop (s + p + 3) (a @ b) = drop (p + 3) (drop s (a @ b))"
        by (simp only: drop_drop ac_simps)
      also have "drop s (a @ b) = ?t" using s by simp
      finally have d: "drop (s + p + 3) (a @ b) = drop (p + 3) ?t" .
      have "s + q - (s + p + 3) = q - (p + 3)" by simp
      then show ?thesis unfolding nal_between_def prod.case d by simp
    qed
    then show ?thesis unfolding m by (auto simp: zip_map_map)
  qed
  have l: "drop (last (occ (a @ b))) (a @ b) = drop (last (occ ?t)) ?t"
  proof -
    have "last (occ (a @ b)) = s + last (occ ?t)"
      using \<open>occ ?t \<noteq> []\<close> unfolding ab by (subst (2) hd) (simp add: last_map)
    then have "drop (last (occ (a @ b))) (a @ b) = drop (last (occ ?t)) (drop s (a @ b))"
      by (simp only: drop_drop add.commute)
    then show ?thesis using s by simp
  qed
  have A: "splitNALUnits a
      = (filter (\<lambda>nal. nal \<noteq> []) (map (nal_between a) (zip (P @ [s]) (tl (P @ [s])))), drop s a)"
    by (simp add: splitNALUnits_def start_codes_0 a Let_def)
  have T: "splitNALUnits ?t = (filter (\<lambda>nal. nal \<noteq> [])
      (map (nal_between ?t) (zip (occ ?t) (tl (occ ?t)))), drop (last (occ ?t)) ?t)"
    using \<open>occ ?t \<noteq> []\<close> by (simp add: splitNALUnits_def start_codes_0 Let_def)
  have AB: "splitNALUnits (a @ b) = (filter (\<lambda>nal. nal \<noteq> [])
      (map (nal_between (a @ b)) (zip (occ (a @ b)) (tl (occ (a @ b))))), drop (last (occ (a @ b))) (a @ b))"
    unfolding splitNALUnits_def start_codes_0 Let_def using ab by simp
  have Z: "map (nal_between (a @ b)) (zip (occ (a @ b)) (tl (occ (a @ b))))
      = map (nal_between a) (zip (P @ [s]) (tl (P @ [s]))) @ map (nal_between ?t) (zip (occ ?t) (tl (occ ?t)))"
    unfolding ab zip_adjacent [of P s "map ((+) s) (tl (occ ?t))"] map_append seg1 seg2 ..
  let ?N1 = "filter (\<lambda>nal. nal \<noteq> []) (map (nal_between a) (zip (P @ [s]) (tl (P @ [s]))))"
  let ?N2 = "filter (\<lambda>nal. nal \<noteq> []) (map (nal_between ?t) (zip (occ ?t) (tl (occ ?t))))"
  have "splitNALUnits (a @ b) = (?N1 @ ?N2, drop (last (occ ?t)) ?t)"
    using AB Z l filter_append by metis
  then show ?thesis
    using A T by (simp only: Let_def prod.case)
qed

section \<open>Chunked reading\<close>

text \<open>The reader after any chunks is determined by the bytes alone.\<close>

definition reader_of :: "bytes \<Rightarrow> reader" where
  "reader_of data =
     (let (nals, rest) = splitNALUnits data; (aus, cur) = foldl au_step ([], []) nals
      in \<lparr>rd_pending = rest, rd_aus = aus, rd_cur = cur\<rparr>)"

lemma splitNALUnits_Nil: "splitNALUnits [] = ([], [])"
  by (simp add: splitNALUnits_def)

lemma read_chunk_of: "read_chunk (reader_of a) c = reader_of (a @ c)"
proof (cases "c = []")
  case False
  obtain n1 r1 where a: "splitNALUnits a = (n1, r1)" by fastforce
  obtain n2 r2 where r: "splitNALUnits (r1 @ c) = (n2, r2)" by fastforce
  obtain aus cur where f: "foldl au_step ([], []) n1 = (aus, cur)" by fastforce
  have "splitNALUnits (a @ c) = (n1 @ n2, r2)"
    by (simp add: splitNALUnits_append [of a c] a r)
  with False show ?thesis by (simp add: read_chunk_def reader_of_def a r f)
qed (simp add: read_chunk_def)

lemma read_chunks: "foldl read_chunk (reader_of a) cs = reader_of (a @ concat cs)"
  by (induction cs arbitrary: a) (simp_all add: read_chunk_of)

lemma read_chunks_new: "foldl read_chunk new_reader cs = reader_of (concat cs)"
proof -
  have "new_reader = reader_of []"
    by (simp add: new_reader_def reader_of_def splitNALUnits_Nil)
  with read_chunks [of "[]" cs] show ?thesis by simp
qed

subsection \<open>Well-formed streams\<close>

text \<open>A unit as the Annex-B syntax allows it: it contains no start code and does not end in a
  zero byte. \<open>annex_b\<close> writes units with four-byte start codes.\<close>

definition nal_ok :: "bytes \<Rightarrow> bool" where
  "nal_ok nal = (nal \<noteq> [] \<and> last nal \<noteq> 0 \<and> \<not> contains_sub nal [0, 0, 1])"

definition annex_b :: "bytes list \<Rightarrow> bytes" where
  "annex_b nals = concat (map (\<lambda>nal. [0, 0, 0, 1] @ nal) nals)"

lemma occ_no_code: "\<not> contains_sub s [0, 0, 1] \<Longrightarrow> occ s = []"
proof (rule ccontr)
  assume n: "\<not> contains_sub s [0, 0, 1]" and "occ s \<noteq> []"
  then obtain j where "at_code s j" by (auto simp: occ_def filter_empty_conv)
  then have "s = take j s @ [0, 0, 1] @ drop 3 (drop j s)"
    by (metis append_take_drop_id at_code_def)
  with n show False by (auto simp: contains_sub_iff)
qed

lemma trim_zeros_nz: "nal \<noteq> [] \<Longrightarrow> last nal \<noteq> 0 \<Longrightarrow> trim_zeros nal = nal"
  by (simp add: trim_zeros.simps [of nal])

lemma trim_zeros_snoc: "trim_zeros (nal @ [0]) = trim_zeros nal"
  by (simp add: trim_zeros.simps [of "nal @ [0]"])

lemma at_code_nth:
  "at_code d j \<longleftrightarrow> j + 2 < length d \<and> d ! j = 0 \<and> d ! (j + 1) = 0 \<and> d ! (j + 2) = 1"
proof
  assume a: "at_code d j"
  then have t: "take 3 (drop j d) = [0, 0, 1]" by (simp add: at_code_def)
  have "take 3 (drop j d) ! k = d ! (j + k)" if "k < 3" for k
    using that at_code_length [OF a] by simp
  from this [of 0] this [of 1] this [of 2] t at_code_length [OF a]
  show "j + 2 < length d \<and> d ! j = 0 \<and> d ! (j + 1) = 0 \<and> d ! (j + 2) = 1" by auto
next
  assume a: "j + 2 < length d \<and> d ! j = 0 \<and> d ! (j + 1) = 0 \<and> d ! (j + 2) = 1"
  then have "drop j d = d ! j # d ! (j + 1) # d ! (j + 2) # drop (j + 3) d"
    by (simp add: Cons_nth_drop_Suc [symmetric] numeral_eq_Suc)
  with a show "at_code d j" by (simp add: at_code_def)
qed

lemma occ_unit_tail:
  assumes "nal_ok nal"
  shows "occ (nal @ [0, 0, 0, 1]) = [length nal + 1]"
proof -
  let ?d = "nal @ [0, 0, 0, 1]"
  from assms have n: "nal \<noteq> []" "last nal \<noteq> 0" "occ nal = []"
    by (auto simp: nal_ok_def occ_no_code)
  have no: "\<not> at_code ?d j" if "j < length nal + 1" for j
  proof
    assume c: "at_code ?d j"
    consider "j + 3 \<le> length nal" | "j + 2 = length nal" | "j + 1 = length nal" | "j = length nal"
      using \<open>j < length nal + 1\<close> by linarith
    then show False
    proof cases
      case 1
      with c have "at_code nal j" by (simp add: at_code_append)
      with n(3) 1 show False by (auto simp: occ_def filter_empty_conv)
    next
      case 2
      with c show False by (simp add: at_code_nth nth_append)
    next
      case 3
      then have "?d ! j = last nal" using n(1) by (simp add: nth_append last_conv_nth flip: 3)
      with c n(2) show False by (simp add: at_code_nth)
    next
      case 4
      with c show False by (simp add: at_code_nth nth_append)
    qed
  qed
  have u: "[0..<length ?d] = [0..<length nal + 1] @ [length nal + 1, length nal + 2, length nal + 3]"
    by (simp add: numeral_eq_Suc)
  have "filter (at_code ?d) [0..<length nal + 1] = []"
    using no by (auto simp: filter_empty_conv simp del: upt_Suc)
  moreover have "at_code ?d (length nal + 1)" "\<not> at_code ?d (length nal + 2)"
    "\<not> at_code ?d (length nal + 3)" by (simp_all add: at_code_nth nth_append)
  ultimately show ?thesis unfolding occ_def u filter_append by simp
qed

lemma occ_unit:
  assumes "nal_ok nal"
  shows "occ ([0, 0, 1] @ nal @ [0, 0, 0, 1]) = [0, length nal + 4]"
  using occ_unit_tail [OF assms] by (simp add: occ_Cons at_code_def)

lemma split_unit:
  assumes "nal_ok nal"
  shows "splitNALUnits ([0, 0, 1] @ nal @ [0, 0, 0, 1]) = ([nal], [0, 0, 1])"
proof -
  have "nal \<noteq> []" "last nal \<noteq> 0" using assms by (simp_all add: nal_ok_def)
  then have "trim_zeros (nal @ [0]) = nal" by (simp add: trim_zeros_snoc trim_zeros_nz)
  moreover have "drop (length nal + 4) ([0, 0, 1] @ nal @ [0, 0, 0, 1]) = ([0, 0, 1] :: bytes)"
    by (simp add: numeral_eq_Suc)
  ultimately show ?thesis
    using \<open>nal \<noteq> []\<close> unfolding splitNALUnits_def start_codes_0 occ_unit [OF assms]
    by (simp add: nal_between_def)
qed

lemma split_annex_b:
  "list_all nal_ok nals \<Longrightarrow> splitNALUnits (annex_b nals @ [0, 0, 0, 1]) = (nals, [0, 0, 1])"
proof (induction nals rule: rev_induct)
  case Nil
  show ?case by (simp add: annex_b_def splitNALUnits_def start_codes_0 occ_Cons at_code_def occ_short)
next
  case (snoc n nals)
  have "annex_b (nals @ [n]) @ [0, 0, 0, 1] = (annex_b nals @ [0, 0, 0, 1]) @ (n @ [0, 0, 0, 1])"
    by (simp add: annex_b_def)
  moreover have "splitNALUnits ([0, 0, 1] @ n @ [0, 0, 0, 1]) = ([n], [0, 0, 1])"
    by (rule split_unit) (use snoc.prems in simp)
  ultimately show ?case
    using snoc splitNALUnits_append [of "annex_b nals @ [0, 0, 0, 1]" "n @ [0, 0, 0, 1]"] by simp
qed

definition au_ok :: "bytes list \<Rightarrow> bool" where
  "au_ok au = (au \<noteq> [] \<and> list_all (\<lambda>nal. nal_ok nal \<and> nalType nal \<noteq> 9) au)"

lemma au_steps: "list_all (\<lambda>n. nalType n \<noteq> 9) ns \<Longrightarrow> foldl au_step (aus, cur) ns = (aus, cur @ ns)"
  by (induction ns arbitrary: cur) (simp_all add: au_step_def)

lemma au_steps_delimited:
  assumes "nalType aud = 9"
  shows "list_all au_ok aus \<Longrightarrow>
    foldl au_step (acc, []) (concat (map (\<lambda>au. au @ [aud]) aus)) = (acc @ aus, [])"
proof (induction aus arbitrary: acc)
  case (Cons au aus)
  then have "list_all (\<lambda>n. nalType n \<noteq> 9) au" "au \<noteq> []"
    by (auto simp: au_ok_def list_all_iff)
  then have "foldl au_step (acc, []) (au @ [aud]) = (acc @ [au], [])"
    using assms by (simp add: au_steps) (simp add: au_step_def)
  moreover have "foldl au_step (acc, []) (concat (map (\<lambda>au. au @ [aud]) (au # aus)))
      = foldl au_step (foldl au_step (acc, []) (au @ [aud])) (concat (map (\<lambda>au. au @ [aud]) aus))"
    by (simp only: list.map concat.simps foldl_append)
  ultimately show ?case using Cons by simp
qed simp

section \<open>Length prefixes\<close>

definition nal_sized :: "bytes \<Rightarrow> bool" where
  "nal_sized nal = (length nal < 2 ^ 32)"

definition put_nal :: "bytes \<Rightarrow> bytes" where
  "put_nal nal = put_be 4 (length nal) @ nal"

definition get_nal :: "bytes \<Rightarrow> unit + (bytes \<times> bytes)" where
  "get_nal bs = (if length bs < 4 then Inl ()
     else let n = get_be (take 4 bs); r = drop 4 bs
          in if length r < n then Inl () else Inr (take n r, drop n r))"

lemma put_get_be: "length bs = n \<Longrightarrow> put_be n (get_be bs) = bs"
  using put_get_le [of "rev bs"] by (simp add: put_be_def get_be_def)

lemma get_be_bound: "get_be bs < 256 ^ length bs"
  using get_le_bound [of "rev bs"] by (simp add: get_be_def)

interpretation avcc: stream_codec put_nal get_nal nal_sized
proof unfold_locales
  fix x r
  assume "nal_sized x"
  then show "get_nal (put_nal x @ r) = Inr (x, r)"
    by (simp add: get_nal_def put_nal_def nal_sized_def)
next
  fix bs x r
  assume g: "get_nal bs = Inr (x, r)"
  then have l: "\<not> length bs < 4" by (auto simp: get_nal_def split: if_splits)
  let ?n = "get_be (take 4 bs)"
  from g l have n: "?n \<le> length bs - 4" "x = take ?n (drop 4 bs)" "r = drop ?n (drop 4 bs)"
    by (auto simp: get_nal_def Let_def simp del: drop_drop split: if_splits)
  then have len: "length x = ?n" by simp
  have p: "put_be 4 ?n = take 4 bs" using l by (simp add: put_get_be)
  have "bs = take 4 bs @ x @ r"
    unfolding n(2,3) by (simp only: append_take_drop_id)
  then have "bs = put_be 4 (length x) @ x @ r"
    unfolding len p .
  moreover have "?n < 2 ^ 32" using get_be_bound [of "take 4 bs"] l by simp
  ultimately show "nal_sized x \<and> bs = put_nal x @ r"
    by (simp add: nal_sized_def put_nal_def len)
qed

lemma avcc_inj:
  "list_all nal_sized a \<Longrightarrow> list_all nal_sized b \<Longrightarrow> annexBToAVCC a = annexBToAVCC b \<Longrightarrow> a = b"
proof (induction a arbitrary: b)
  case Nil
  then show ?case by (cases b) (auto simp: annexBToAVCC_def dest: arg_cong [where f = length])
next
  case (Cons x a)
  show ?case
  proof (cases b)
    case Nil
    with Cons.prems show ?thesis
      by (auto simp: annexBToAVCC_def dest: arg_cong [where f = length])
  next
    case (Cons y b')
    have "put_nal x @ annexBToAVCC a = put_nal y @ annexBToAVCC b'"
      using Cons.prems(3) Cons by (simp add: annexBToAVCC_def put_nal_def)
    then have "x = y \<and> annexBToAVCC a = annexBToAVCC b'"
      by (rule avcc.unique_decoding [rotated 2]) (use Cons.prems Cons in auto)
    with Cons.IH Cons.prems Cons show ?thesis by simp
  qed
qed

section \<open>Properties\<close>

text \<open>C8. Chunking is invisible: however the pipe cuts the elementary stream into reads, the
  access units emitted so far, the open one and the pending bytes are those of a single
  \<open>splitNALUnits\<close> and \<open>groupNALsIntoAUs\<close> over all the bytes.\<close>

theorem ingest_chunking_independent:
  "let r = foldl read_chunk new_reader cs; (nals, rest) = splitNALUnits (concat cs)
   in groupNALsIntoAUs nals = rd_aus r @ (if rd_cur r = [] then [] else [rd_cur r])
      \<and> rd_pending r = rest"
proof -
  obtain nals rest where s: "splitNALUnits (concat cs) = (nals, rest)" by fastforce
  obtain aus cur where f: "foldl au_step ([], []) nals = (aus, cur)" by fastforce
  have r: "foldl read_chunk new_reader cs = \<lparr>rd_pending = rest, rd_aus = aus, rd_cur = cur\<rparr>"
    by (simp add: read_chunks_new reader_of_def s f)
  show ?thesis by (simp add: r s f groupNALsIntoAUs_def)
qed

text \<open>Access units survive the pipe: a stream of access units, each closed by a delimiter and
  made of units that contain no start code and no trailing zero, is recovered unit for unit,
  wherever the reads fall.\<close>

lemma ingest_recovers_access_units:
  assumes "list_all au_ok aus" "nal_ok aud" "nalType aud = 9"
    and "concat cs = annex_b (concat (map (\<lambda>au. au @ [aud]) aus)) @ [0, 0, 0, 1]"
  shows "rd_aus (foldl read_chunk new_reader cs) = aus \<and> rd_cur (foldl read_chunk new_reader cs) = []"
proof -
  let ?ns = "concat (map (\<lambda>au. au @ [aud]) aus)"
  have "list_all nal_ok ?ns"
    using assms(1,2) by (auto simp: list_all_iff au_ok_def)
  then have "splitNALUnits (concat cs) = (?ns, [0, 0, 1])"
    unfolding assms(4) by (rule split_annex_b)
  with au_steps_delimited [OF assms(3,1), of "[]"] show ?thesis
    by (simp add: read_chunks_new reader_of_def)
qed

end
