(* ===== verification/Stream_Hub.thy ===== *)
theory Stream_Hub
  imports Annex_B
begin

text \<open>
  \<^verbatim>\<open>relay/surv_ws.go\<close>: \<open>fragMuxer\<close> turns access units into an init segment and one fragment per
  unit, \<open>survWSHub\<close> fans the fragments out to WebSocket clients with a fast-start cache of the
  current group of pictures, and the \<open>emit\<close> step of \<open>ingestAnnexB\<close>
  (\<^verbatim>\<open>relay/surv_transcode.go\<close>; the RTSP callbacks of \<^verbatim>\<open>relay/surv_proxy.go\<close> run the same calls)
  connects the two. The fMP4 marshaller and the H.264/H.265 keyframe tests are parameters.

  A client's channel keeps what its writer goroutine has received next to what is still
  buffered, so a client's history is \<open>wc_received\<close> followed by \<open>wc_queue\<close>.
\<close>

section \<open>The fragment muxer\<close>

definition survWSTimescale :: int where "survWSTimescale = 90000"
definition transcodeFPS :: int where "transcodeFPS = 15"

datatype codec = H264 bytes bytes | H265 bytes bytes bytes

record mux_part =
  pt_base :: "64 word"
  pt_duration :: "32 word"
  pt_non_sync :: bool
  pt_payload :: bytes

text \<open>What the muxer uses of the libraries.\<close>

record media =
  init_marshal :: "codec \<Rightarrow> bytes option"
  part_marshal :: "mux_part \<Rightarrow> bytes option"
  h264_random_access :: "bytes list \<Rightarrow> bool"
  h265_random_access :: "bytes list \<Rightarrow> bool"

record frag_muxer =
  fm_h265 :: bool
  fm_vps :: "bytes option"
  fm_sps :: "bytes option"
  fm_pps :: "bytes option"
  fm_init :: "bytes option"
  fm_last :: "64 word"
  fm_prev :: bool

text \<open>\<open>append([]byte(nil), b...)\<close> is \<open>nil\<close> when \<open>b\<close> is empty.\<close>

definition clone :: "bytes \<Rightarrow> bytes option" where
  "clone b = (if b = [] then None else Some b)"

definition mux_codec :: "frag_muxer \<Rightarrow> codec option" where
  "mux_codec m =
     (if fm_h265 m then
        (case (fm_vps m, fm_sps m, fm_pps m) of
           (Some v, Some s, Some p) \<Rightarrow> Some (H265 v s p) | _ \<Rightarrow> None)
      else (case (fm_sps m, fm_pps m) of (Some s, Some p) \<Rightarrow> Some (H264 s p) | _ \<Rightarrow> None))"

definition tryBuildInit :: "media \<Rightarrow> frag_muxer \<Rightarrow> frag_muxer \<times> bytes option" where
  "tryBuildInit md m =
     (if fm_init m \<noteq> None then (m, None)
      else case mux_codec m of
        None \<Rightarrow> (m, None)
      | Some c \<Rightarrow>
         (case init_marshal md c of
            None \<Rightarrow> (m, None)
          | Some b \<Rightarrow> (m\<lparr>fm_init := clone b\<rparr>, clone b)))"

definition newFragMuxerH264 :: "media \<Rightarrow> bytes option \<Rightarrow> bytes option \<Rightarrow> frag_muxer" where
  "newFragMuxerH264 md sps pps = fst (tryBuildInit md
     \<lparr>fm_h265 = False, fm_vps = None, fm_sps = sps, fm_pps = pps, fm_init = None, fm_last = 0,
      fm_prev = False\<rparr>)"

definition newFragMuxerH265 ::
    "media \<Rightarrow> bytes option \<Rightarrow> bytes option \<Rightarrow> bytes option \<Rightarrow> frag_muxer" where
  "newFragMuxerH265 md vps sps pps = fst (tryBuildInit md
     \<lparr>fm_h265 = True, fm_vps = vps, fm_sps = sps, fm_pps = pps, fm_init = None, fm_last = 0,
      fm_prev = False\<rparr>)"

definition extract_nal :: "frag_muxer \<Rightarrow> bytes \<Rightarrow> frag_muxer" where
  "extract_nal m nal =
     (if length nal = 0 then m
      else if fm_h265 m then
        (let t = and (drop_bit 1 (nal ! 0)) 0x3F
         in if t = 32 then m\<lparr>fm_vps := clone nal\<rparr>
            else if t = 33 then m\<lparr>fm_sps := clone nal\<rparr>
            else if t = 34 then m\<lparr>fm_pps := clone nal\<rparr> else m)
      else
        (let t = and (nal ! 0) 0x1F
         in if t = 7 then m\<lparr>fm_sps := clone nal\<rparr>
            else if t = 8 then m\<lparr>fm_pps := clone nal\<rparr> else m))"

definition extractParams :: "frag_muxer \<Rightarrow> bytes list \<Rightarrow> frag_muxer" where
  "extractParams m au = foldl extract_nal m au"

text \<open>The duration of a unit: the distance to the previous one when it is positive and below two
  seconds, one thirtieth of a second otherwise. PTS values are Go's \<open>int64\<close>.\<close>

definition frag_duration :: "frag_muxer \<Rightarrow> 64 word \<Rightarrow> int" where
  "frag_duration m pts =
     (if fm_prev m then
        (let d = sint (pts - fm_last m)
         in if d > 0 \<and> d < survWSTimescale * 2 then d else survWSTimescale div 30)
      else survWSTimescale div 30)"

definition is_keyframe :: "media \<Rightarrow> frag_muxer \<Rightarrow> bytes list \<Rightarrow> bool" where
  "is_keyframe md m au = (if fm_h265 m then h265_random_access md au else h264_random_access md au)"

definition au_part :: "media \<Rightarrow> frag_muxer \<Rightarrow> 64 word \<Rightarrow> bytes list \<Rightarrow> mux_part" where
  "au_part md m pts au = \<lparr>pt_base = pts, pt_duration = word_of_int (frag_duration m pts),
     pt_non_sync = (\<not> is_keyframe md m au), pt_payload = annexBToAVCC au\<rparr>"

text \<open>\<open>writeAU\<close>: the muxer, the fragment, whether it is a keyframe, and the new init segment.\<close>

definition writeAU ::
    "media \<Rightarrow> frag_muxer \<Rightarrow> 64 word \<Rightarrow> bytes list
       \<Rightarrow> frag_muxer \<times> bytes option \<times> bool \<times> bytes option" where
  "writeAU md m pts au =
     (let (m1, newInit) = (if fm_init m = None then tryBuildInit md (extractParams m au) else (m, None))
      in if fm_init m1 = None then (m1, None, False, None)
         else let m2 = m1\<lparr>fm_last := pts, fm_prev := True\<rparr>
              in case part_marshal md (au_part md m1 pts au) of
                   None \<Rightarrow> (m2, None, False, newInit)
                 | Some b \<Rightarrow> (m2, clone b, is_keyframe md m1 au, newInit))"

definition Codec :: "frag_muxer \<Rightarrow> string" where
  "Codec m = (if fm_init m = None then '''' else if fm_h265 m then ''h265'' else ''h264'')"

section \<open>The fan-out hub\<close>

definition gopMaxFrags :: nat where "gopMaxFrags = 256"
definition survWSSendBuf :: nat where "survWSSendBuf = 512"

record ws_client =
  wc_queue :: "bytes list"
  wc_received :: "bytes list"
  wc_started :: bool

record ws_hub =
  wh_clients :: "(nat \<times> ws_client) list"
  wh_init :: "bytes option"
  wh_gop :: "bytes list option"
  wh_next :: nat

definition newSurvWSHub :: ws_hub where
  "newSurvWSHub = \<lparr>wh_clients = [], wh_init = None, wh_gop = None, wh_next = 0\<rparr>"

definition setInit :: "ws_hub \<Rightarrow> bytes \<Rightarrow> ws_hub" where
  "setInit h seg = h\<lparr>wh_init := Some seg\<rparr>"

text \<open>A non-blocking send on the buffered channel, and whether it was taken.\<close>

definition try_send :: "ws_client \<Rightarrow> bytes \<Rightarrow> ws_client \<times> bool" where
  "try_send c x = (if length (wc_queue c) < survWSSendBuf
     then (c\<lparr>wc_queue := wc_queue c @ [x]\<rparr>, True) else (c, False))"

definition next_gop :: "bytes list option \<Rightarrow> bytes \<Rightarrow> bool \<Rightarrow> bytes list option" where
  "next_gop gop frag keyframe =
     (if keyframe then Some [frag]
      else case gop of
        None \<Rightarrow> None
      | Some g \<Rightarrow> if length g \<ge> gopMaxFrags then None else Some (g @ [frag]))"

definition send_client :: "bytes option \<Rightarrow> bytes \<Rightarrow> bool \<Rightarrow> ws_client \<Rightarrow> ws_client" where
  "send_client initSeg frag keyframe c =
     (if wc_started c then fst (try_send c frag)
      else if \<not> keyframe then c
      else case initSeg of
        None \<Rightarrow> fst (try_send (c\<lparr>wc_started := True\<rparr>) frag)
      | Some s \<Rightarrow>
         (case try_send (c\<lparr>wc_started := True\<rparr>) s of
            (c', True) \<Rightarrow> fst (try_send c' frag)
          | (c', False) \<Rightarrow> c'\<lparr>wc_started := False\<rparr>))"

definition broadcast :: "ws_hub \<Rightarrow> bytes \<Rightarrow> bool \<Rightarrow> ws_hub" where
  "broadcast h frag keyframe =
     h\<lparr>wh_gop := next_gop (wh_gop h) frag keyframe,
       wh_clients := map (\<lambda>(i, c). (i, send_client (wh_init h) frag keyframe c)) (wh_clients h)\<rparr>"

definition ClientCount :: "ws_hub \<Rightarrow> nat" where
  "ClientCount h = length (wh_clients h)"

definition fresh_client :: "ws_hub \<Rightarrow> ws_client" where
  "fresh_client h =
     (case (wh_init h, wh_gop h) of
        (Some s, Some g) \<Rightarrow>
          if length g > 0 \<and> 1 + length g \<le> survWSSendBuf
          then \<lparr>wc_queue = s # g, wc_received = [], wc_started = True\<rparr>
          else \<lparr>wc_queue = [], wc_received = [], wc_started = False\<rparr>
      | _ \<Rightarrow> \<lparr>wc_queue = [], wc_received = [], wc_started = False\<rparr>)"

text \<open>\<open>add\<close> returns a pointer; the model returns a number not used before.\<close>

definition add_client :: "ws_hub \<Rightarrow> ws_hub \<times> nat" where
  "add_client h = (h\<lparr>wh_clients := (wh_next h, fresh_client h) # wh_clients h,
      wh_next := wh_next h + 1\<rparr>, wh_next h)"

definition remove_client :: "ws_hub \<Rightarrow> nat \<Rightarrow> ws_hub" where
  "remove_client h i = h\<lparr>wh_clients := AList.delete i (wh_clients h)\<rparr>"

text \<open>The client's writer goroutine takes one message off its channel.\<close>

definition pop_queue :: "ws_client \<Rightarrow> ws_client" where
  "pop_queue c = (case wc_queue c of [] \<Rightarrow> c
     | x # q \<Rightarrow> c\<lparr>wc_queue := q, wc_received := wc_received c @ [x]\<rparr>)"

definition receive :: "ws_hub \<Rightarrow> nat \<Rightarrow> ws_hub" where
  "receive h i = h\<lparr>wh_clients := map (\<lambda>(j, c). (j, if j = i then pop_queue c else c)) (wh_clients h)\<rparr>"

section \<open>A live stream\<close>

text \<open>A stream entry's muxer and hub with the next PTS, and the log of what \<open>broadcast\<close> was called
  with (the log is not part of the program; the properties speak about it).\<close>

record live =
  lv_mux :: frag_muxer
  lv_hub :: ws_hub
  lv_pts :: "64 word"
  lv_log :: "(bytes \<times> bool) list"

definition emit_au :: "media \<Rightarrow> 64 word \<Rightarrow> live \<Rightarrow> bytes list \<Rightarrow> live" where
  "emit_au md pts l au =
     (case writeAU md (lv_mux l) pts au of (m, fr, kf, newInit) \<Rightarrow>
        let h1 = (case newInit of None \<Rightarrow> lv_hub l | Some s \<Rightarrow> setInit (lv_hub l) s)
        in case fr of
             None \<Rightarrow> l\<lparr>lv_mux := m, lv_hub := h1\<rparr>
           | Some f \<Rightarrow> l\<lparr>lv_mux := m, lv_hub := broadcast h1 f kf, lv_log := lv_log l @ [(f, kf)]\<rparr>)"

definition emit :: "media \<Rightarrow> live \<Rightarrow> bytes list \<Rightarrow> live" where
  "emit md l au =
     (if length au = 0 then l
      else (emit_au md (lv_pts l) l au)
             \<lparr>lv_pts := lv_pts l + word_of_int (survWSTimescale div transcodeFPS)\<rparr>)"

text \<open>\<open>Emit\<close> is the transcoder's emit, \<open>Packet\<close> an access unit of the RTSP callback with its PTS.\<close>

datatype live_op = Emit "bytes list" | Packet "64 word" "bytes list" | Join | Leave nat | Receive nat

fun live_step :: "media \<Rightarrow> live \<Rightarrow> live_op \<Rightarrow> live" where
  "live_step md l (Emit au) = emit md l au"
| "live_step md l (Packet pts au) = emit_au md pts l au"
| "live_step md l Join = l\<lparr>lv_hub := fst (add_client (lv_hub l))\<rparr>"
| "live_step md l (Leave i) = l\<lparr>lv_hub := remove_client (lv_hub l) i\<rparr>"
| "live_step md l (Receive i) = l\<lparr>lv_hub := receive (lv_hub l) i\<rparr>"

definition new_live :: "frag_muxer \<Rightarrow> live" where
  "new_live m = \<lparr>lv_mux = m,
     lv_hub = (case fm_init m of None \<Rightarrow> newSurvWSHub | Some s \<Rightarrow> setInit newSurvWSHub s),
     lv_pts = 0, lv_log = []\<rparr>"

definition live_run :: "media \<Rightarrow> frag_muxer \<Rightarrow> live_op list \<Rightarrow> live" where
  "live_run md m ops = foldl (live_step md) (new_live m) ops"

section \<open>The invariant\<close>

text \<open>The fragments since the last keyframe of a log, and the cache they leave.\<close>

definition since_step :: "bytes list option \<Rightarrow> bytes \<times> bool \<Rightarrow> bytes list option" where
  "since_step g e = (if snd e then Some [fst e] else map_option (\<lambda>l. l @ [fst e]) g)"

definition since_key :: "(bytes \<times> bool) list \<Rightarrow> bytes list option" where
  "since_key log = foldl since_step None log"

definition cached :: "bytes list option \<Rightarrow> bytes list option" where
  "cached g = (case g of None \<Rightarrow> None | Some l \<Rightarrow> if length l \<le> gopMaxFrags then Some l else None)"

definition history :: "ws_client \<Rightarrow> bytes list" where
  "history c = wc_received c @ wc_queue c"

text \<open>What a started client has been handed: the init segment, a keyframe, and a subsequence of
  the fragments broadcast after that keyframe.\<close>

definition decodable :: "bytes option \<Rightarrow> (bytes \<times> bool) list \<Rightarrow> bytes list \<Rightarrow> bool" where
  "decodable ini log h = (\<exists>s f pre post h'. ini = Some s \<and> log = pre @ (f, True) # post
     \<and> h = s # f # h' \<and> subseq h' (map fst post))"

definition client_ok :: "bytes option \<Rightarrow> (bytes \<times> bool) list \<Rightarrow> ws_client \<Rightarrow> bool" where
  "client_ok ini log c = (length (wc_queue c) \<le> survWSSendBuf
     \<and> (if wc_started c then decodable ini log (history c) else history c = []))"

definition clients_ok ::
    "bytes option \<Rightarrow> (bytes \<times> bool) list \<Rightarrow> nat \<Rightarrow> (nat \<times> ws_client) list \<Rightarrow> bool" where
  "clients_ok ini log n cs =
     ((\<forall>(i, c)\<in>set cs. client_ok ini log c \<and> i < n) \<and> distinct (map fst cs))"

definition live_inv :: "live \<Rightarrow> bool" where
  "live_inv l =
     (wh_init (lv_hub l) = fm_init (lv_mux l)
      \<and> (fm_init (lv_mux l) = None \<longrightarrow> lv_log l = [])
      \<and> wh_gop (lv_hub l) = cached (since_key (lv_log l))
      \<and> clients_ok (fm_init (lv_mux l)) (lv_log l) (wh_next (lv_hub l)) (wh_clients (lv_hub l)))"

lemma since_key_snoc: "since_key (log @ [e]) = since_step (since_key log) e"
  by (simp add: since_key_def)

lemma next_gop_cached: "next_gop (cached g) f k = cached (since_step g (f, k))"
  by (auto simp: next_gop_def cached_def since_step_def gopMaxFrags_def split: option.splits)

lemma since_key_Some:
  "since_key log = Some g \<Longrightarrow> \<exists>pre f post. log = pre @ (f, True) # post \<and> g = f # map fst post
     \<and> list_all (\<lambda>e. \<not> snd e) post"
proof (induction log arbitrary: g rule: rev_induct)
  case Nil
  then show ?case by (simp add: since_key_def)
next
  case (snoc e log)
  show ?case
  proof (cases "snd e")
    case True
    with snoc.prems have "g = [fst e]" by (simp add: since_key_snoc since_step_def)
    with True show ?thesis by (intro exI [of _ log] exI [of _ "fst e"] exI [of _ "[]"])
        (cases e, simp)
  next
    case False
    with snoc.prems obtain g' where "since_key log = Some g'" "g = g' @ [fst e]"
      by (auto simp: since_key_snoc since_step_def)
    with snoc.IH False obtain pre f post where
      "log = pre @ (f, True) # post" "g = f # map fst (post @ [e])"
      "list_all (\<lambda>e. \<not> snd e) (post @ [e])" by fastforce
    then show ?thesis by (intro exI [of _ pre] exI [of _ f] exI [of _ "post @ [e]"]) simp
  qed
qed

lemma since_key_after:
  "list_all (\<lambda>e. \<not> snd e) post \<Longrightarrow> since_key (pre @ (f, True) # post) = Some (f # map fst post)"
proof (induction post rule: rev_induct)
  case Nil
  then show ?case by (simp add: since_key_snoc since_step_def)
next
  case (snoc e post)
  then show ?case
    using since_key_snoc [of "pre @ (f, True) # post" e] by (simp add: since_step_def)
qed

lemma decodable_snoc_log: "decodable ini log h \<Longrightarrow> decodable ini (log @ [e]) h"
  unfolding decodable_def
  by (elim exE, rule exI, rule exI, rule exI, rule_tac x = "post @ [e]" in exI)
     (auto simp: subseq_append_le_same_iff intro: subseq_order.trans)

lemma decodable_snoc: "decodable ini log h \<Longrightarrow> decodable ini (log @ [(f, k)]) (h @ [f])"
  unfolding decodable_def
  by (elim exE, rule exI, rule exI, rule exI, rule_tac x = "post @ [(f, k)]" in exI) auto

lemma decodable_key: "decodable (Some s) (log @ [(f, True)]) [s, f]"
  unfolding decodable_def by (intro exI [of _ "[]"] exI) auto

lemma send_client_ok:
  assumes "client_ok (Some s) log c"
  shows "client_ok (Some s) (log @ [(f, k)]) (send_client (Some s) f k c)"
proof (cases "wc_started c")
  case True
  with assms show ?thesis
    using decodable_snoc [of "Some s" log "history c" f k]
    by (auto simp: client_ok_def send_client_def try_send_def history_def
        intro: decodable_snoc_log)
next
  case False
  with assms decodable_key [of s log f] show ?thesis
    by (auto simp: client_ok_def send_client_def try_send_def history_def survWSSendBuf_def)
qed

lemma pop_queue_ok: "client_ok ini log c \<Longrightarrow> client_ok ini log (pop_queue c)"
  by (auto simp: client_ok_def pop_queue_def history_def split: list.splits if_splits)

lemma fresh_client_ok:
  assumes "wh_gop h = cached (since_key log)" "wh_init h = None \<longrightarrow> log = []"
  shows "client_ok (wh_init h) log (fresh_client h)"
proof (cases "wc_started (fresh_client h)")
  case True
  then obtain s g where sg: "wh_init h = Some s" "wh_gop h = Some g" "1 + length g \<le> survWSSendBuf"
    "fresh_client h = \<lparr>wc_queue = s # g, wc_received = [], wc_started = True\<rparr>"
    by (auto simp: fresh_client_def split: option.splits if_splits)
  with assms(1) have "since_key log = Some g" by (auto simp: cached_def split: option.splits if_splits)
  from since_key_Some [OF this] sg show ?thesis
    by (fastforce simp: client_ok_def history_def decodable_def)
next
  case False
  then show ?thesis by (auto simp: client_ok_def history_def fresh_client_def split: option.splits if_splits)
qed

lemma client_ok_no_init: "client_ok None log c \<Longrightarrow> client_ok ini log' c"
  by (auto simp: client_ok_def decodable_def split: if_splits)

lemma extractParams_init: "fm_init (extractParams m au) = fm_init m"
proof -
  have "fm_init (extract_nal m n) = fm_init m" for m n by (simp add: extract_nal_def Let_def)
  then show ?thesis unfolding extractParams_def by (induction au arbitrary: m) simp_all
qed

lemma tryBuildInit_cases:
  "tryBuildInit md m = (m', ni) \<Longrightarrow> fm_init m' = (if fm_init m = None then ni else fm_init m)
     \<and> (fm_init m \<noteq> None \<longrightarrow> ni = None)"
  by (auto simp: tryBuildInit_def split: if_splits option.splits)

lemma writeAU_init:
  assumes "writeAU md m pts au = (m', fr, kf, ni)"
  shows "fm_init m' = (if fm_init m = None then ni else fm_init m)"
    "fm_init m \<noteq> None \<Longrightarrow> ni = None" "fm_init m' = None \<Longrightarrow> fr = None"
proof -
  obtain m1 n1 where t: "tryBuildInit md (extractParams m au) = (m1, n1)" by fastforce
  have n: "fm_init m = None \<Longrightarrow> fm_init m1 = n1"
    using tryBuildInit_cases [OF t] by (simp add: extractParams_init)
  from assms t n show "fm_init m' = (if fm_init m = None then ni else fm_init m)"
    "fm_init m \<noteq> None \<Longrightarrow> ni = None" "fm_init m' = None \<Longrightarrow> fr = None"
    by (auto simp: writeAU_def Let_def split: if_splits option.splits)
qed

lemma clients_ok_map:
  assumes "clients_ok ini log n cs"
    and "\<And>i c. client_ok ini log c \<Longrightarrow> client_ok ini' log' (f i c)"
  shows "clients_ok ini' log' n (map (\<lambda>(i, c). (i, f i c)) cs)"
proof -
  have "map fst (map (\<lambda>(i, c). (i, f i c)) cs) = map fst cs" by (induction cs) auto
  moreover have "case e of (i, c) \<Rightarrow> client_ok ini' log' c \<and> i < n"
    if e: "e \<in> set (map (\<lambda>(i, c). (i, f i c)) cs)" for e
  proof -
    from e obtain i c where ic: "(i, c) \<in> set cs" "e = (i, f i c)" by auto
    then have "client_ok ini log c \<and> i < n" using assms(1) by (auto simp: clients_ok_def)
    with assms(2) ic show ?thesis by simp
  qed
  ultimately show ?thesis using assms(1) by (simp only: clients_ok_def) simp
qed

lemma clients_ok_mono: "clients_ok None log n cs \<Longrightarrow> clients_ok ini log' n cs"
  by (auto simp: clients_ok_def intro: client_ok_no_init)

lemma clients_ok_delete: "clients_ok ini log n cs \<Longrightarrow> clients_ok ini log n (AList.delete i cs)"
  using set_alist_delete [of i cs] unfolding clients_ok_def by (blast intro: distinct_delete)

lemma live_inv_set_init:
  assumes "live_inv l" "fm_init (lv_mux l) = None" "fm_init m = Some s"
  shows "live_inv (l\<lparr>lv_mux := m, lv_hub := setInit (lv_hub l) s\<rparr>)"
  using assms clients_ok_mono [of "lv_log l"] by (auto simp: live_inv_def setInit_def)

lemma live_inv_broadcast:
  assumes "live_inv l" "fm_init (lv_mux l) = Some s"
  shows "live_inv (l\<lparr>lv_hub := broadcast (lv_hub l) f k, lv_log := lv_log l @ [(f, k)]\<rparr>)"
proof -
  have "clients_ok (Some s) (lv_log l @ [(f, k)]) (wh_next (lv_hub l))
      (map (\<lambda>(i, c). (i, send_client (Some s) f k c)) (wh_clients (lv_hub l)))"
    by (rule clients_ok_map [where ini = "Some s" and log = "lv_log l"])
       (use assms in \<open>simp_all add: live_inv_def send_client_ok\<close>)
  with assms show ?thesis
    by (simp add: live_inv_def broadcast_def since_key_snoc next_gop_cached)
qed

lemma live_inv_mux:
  "live_inv l \<Longrightarrow> fm_init m = fm_init (lv_mux l) \<Longrightarrow> live_inv (l\<lparr>lv_mux := m\<rparr>)"
  by (simp add: live_inv_def)

lemma live_inv_emit_au [inv_intros]:
  assumes "live_inv l"
  shows "live_inv (emit_au md pts l au)"
proof -
  obtain m fr kf ni where w: "writeAU md (lv_mux l) pts au = (m, fr, kf, ni)"
    by (metis prod_cases4)
  note wi = writeAU_init [OF w]
  define l1 where "l1 = l\<lparr>lv_mux := m, lv_hub := (case ni of None \<Rightarrow> lv_hub l | Some s \<Rightarrow> setInit (lv_hub l) s)\<rparr>"
  have i1: "live_inv l1"
  proof (cases ni)
    case None
    with wi(1,2) assms show ?thesis
      by (cases "fm_init (lv_mux l)") (simp_all add: l1_def live_inv_mux)
  next
    case (Some s)
    with wi(2) have "fm_init (lv_mux l) = None" by (cases "fm_init (lv_mux l)") simp_all
    moreover from this wi(1) Some have "fm_init m = Some s" by simp
    ultimately have "fm_init (lv_mux l) = None" "fm_init m = Some s" .
    with live_inv_set_init [OF assms this] Some show ?thesis by (simp add: l1_def)
  qed
  show ?thesis
  proof (cases fr)
    case None
    with i1 show ?thesis by (simp add: emit_au_def w l1_def)
  next
    case (Some f)
    with wi(3) obtain s where "fm_init m = Some s" by (cases "fm_init m") auto
    with live_inv_broadcast [OF i1, of s f kf] Some show ?thesis
      by (simp add: emit_au_def w l1_def)
  qed
qed

lemma live_inv_step [inv_intros]:
  assumes "live_inv l"
  shows "live_inv (live_step md l opn)"
proof (cases opn)
  case (Emit au)
  with live_inv_emit_au [OF assms, of md "lv_pts l" au] assms show ?thesis
    by (simp add: emit_def live_inv_def)
next
  case (Packet pts au)
  with live_inv_emit_au [OF assms] show ?thesis by simp
next
  case Join
  with assms fresh_client_ok [of "lv_hub l" "lv_log l"] show ?thesis
    by (force simp: live_inv_def add_client_def clients_ok_def)
next
  case (Leave i)
  with assms clients_ok_delete show ?thesis by (simp add: live_inv_def remove_client_def)
next
  case (Receive i)
  have "clients_ok (fm_init (lv_mux l)) (lv_log l) (wh_next (lv_hub l))
      (map (\<lambda>(j, c). (j, if j = i then pop_queue c else c)) (wh_clients (lv_hub l)))"
    by (rule clients_ok_map [where ini = "fm_init (lv_mux l)" and log = "lv_log l"])
       (use assms in \<open>simp_all add: live_inv_def pop_queue_ok\<close>)
  with Receive assms show ?thesis by (simp add: live_inv_def receive_def)
qed

lemma live_inv_new: "live_inv (new_live m)"
  by (auto simp: live_inv_def new_live_def newSurvWSHub_def setInit_def since_key_def cached_def clients_ok_def
      split: option.splits)

lemma live_inv_run: "live_inv (live_run md m ops)"
proof -
  have "live_inv l \<Longrightarrow> live_inv (foldl (live_step md) l ops)" for l
    by (induction ops arbitrary: l) (simp_all add: live_inv_step)
  then show ?thesis by (simp add: live_run_def live_inv_new)
qed

section \<open>Properties\<close>


definition toy_media :: media where
  "toy_media = \<lparr>init_marshal = (\<lambda>c. Some [1]), part_marshal = (\<lambda>p. Some (9 # pt_payload p)),
     h264_random_access = (\<lambda>au. list_ex (\<lambda>n. nalType n = 5) au), h265_random_access = (\<lambda>au. False)\<rparr>"


text \<open>Fast start: a client that joins a reachable stream is seeded at once with the init segment
  and exactly the fragments since the last keyframe, provided there are at most 256 of them;
  otherwise it is given nothing and waits for the next keyframe.\<close>

lemma fast_start_exact:
  "let l = live_run md m ops
   in fresh_client (lv_hub l) =
        (case (fm_init (lv_mux l), since_key (lv_log l)) of
           (Some s, Some g) \<Rightarrow>
             if length g \<le> 256 then \<lparr>wc_queue = s # g, wc_received = [], wc_started = True\<rparr>
             else \<lparr>wc_queue = [], wc_received = [], wc_started = False\<rparr>
         | _ \<Rightarrow> \<lparr>wc_queue = [], wc_received = [], wc_started = False\<rparr>)"
proof -
  have i: "live_inv (live_run md m ops)" by (rule live_inv_run)
  have "since_key log = Some g \<Longrightarrow> g \<noteq> []" for log g by (auto dest: since_key_Some)
  with i show ?thesis
    by (auto simp: live_inv_def fresh_client_def cached_def gopMaxFrags_def survWSSendBuf_def Let_def
        split: option.splits)
qed

end
