(* ===== verification/Go_Net.thy ===== *)
theory Go_Net
  imports Ov_Prelude
begin

text \<open>
  The parts of Go's packages \<open>net\<close> and \<open>strings\<close> that the relay's address checks use, and
  \<^verbatim>\<open>relay/security.go\<close>: the guard that keeps a publisher from making the relay dial loopback or
  link-local targets, and the WebSocket origin policy. \<open>parse_ip\<close> follows \<open>net.ParseIP\<close>: dotted
  IPv4 without leading zeros, or IPv6 with at most one \<open>::\<close> and an optional dotted tail; the
  result is eight 16-bit groups, an IPv4 address being mapped into \<open>::ffff:0:0/96\<close>. White space
  and case are those of ASCII.
\<close>

section \<open>Strings\<close>

definition is_space :: "char \<Rightarrow> bool" where
  "is_space c = (c = CHR '' '' \<or> (9 \<le> char_val c \<and> char_val c \<le> 13))"

definition trim_set :: "(char \<Rightarrow> bool) \<Rightarrow> string \<Rightarrow> string" where
  "trim_set p s = rev (dropWhile p (rev (dropWhile p s)))"

definition TrimSpace :: "string \<Rightarrow> string" where
  "TrimSpace s = trim_set is_space s"

definition lower_char :: "char \<Rightarrow> char" where
  "lower_char c = (if 65 \<le> char_val c \<and> char_val c \<le> 90 then char_of (char_val c + 32) else c)"

definition ToLower :: "string \<Rightarrow> string" where
  "ToLower s = map lower_char s"

definition EqualFold :: "string \<Rightarrow> string \<Rightarrow> bool" where
  "EqualFold s t = (ToLower s = ToLower t)"

section \<open>Addresses\<close>

text \<open>\<open>net.SplitHostPort\<close>; \<open>None\<close> is its error.\<close>

definition SplitHostPort :: "string \<Rightarrow> (string \<times> string) option" where
  "SplitHostPort hp =
     (case cut_last CHR '':'' hp of
        None \<Rightarrow> None
      | Some (before, port) \<Rightarrow>
          if hp \<noteq> [] \<and> hd hp = CHR ''['' then
            (case cut_at CHR '']'' hp of
               None \<Rightarrow> None
             | Some (h, after) \<Rightarrow>
                 if before = h @ '']'' \<and> CHR ''['' \<notin> set (tl hp) \<and> CHR '']'' \<notin> set after
                 then Some (tl h, port) else None)
          else if CHR '':'' \<in> set before \<or> CHR ''['' \<in> set hp \<or> CHR '']'' \<in> set hp then None
          else Some (before, port))"

text \<open>An IPv4 field: one to three digits, no leading zero, at most 255.\<close>

definition v4_field :: "string \<Rightarrow> nat option" where
  "v4_field s = (if s \<noteq> [] \<and> length s \<le> 3 \<and> list_all is_digit s \<and> (length s > 1 \<longrightarrow> hd s \<noteq> CHR ''0'')
     \<and> dec_val s \<le> 255 then Some (dec_val s) else None)"

definition parse_ipv4 :: "string \<Rightarrow> (nat \<times> nat \<times> nat \<times> nat) option" where
  "parse_ipv4 s =
     (case cut_at CHR ''.'' s of None \<Rightarrow> None | Some (a, r1) \<Rightarrow>
      case cut_at CHR ''.'' r1 of None \<Rightarrow> None | Some (b, r2) \<Rightarrow>
      case cut_at CHR ''.'' r2 of None \<Rightarrow> None | Some (c, d) \<Rightarrow>
      case (v4_field a, v4_field b, v4_field c, v4_field d) of
        (Some w, Some x, Some y, Some z) \<Rightarrow> Some (w, x, y, z)
      | _ \<Rightarrow> None)"

definition hex_digit :: "char \<Rightarrow> nat option" where
  "hex_digit c = (let v = char_val c in
     if 48 \<le> v \<and> v \<le> 57 then Some (v - 48) else if 97 \<le> v \<and> v \<le> 102 then Some (v - 87)
     else if 65 \<le> v \<and> v \<le> 70 then Some (v - 55) else None)"

definition v6_field :: "string \<Rightarrow> nat option" where
  "v6_field s = (if s = [] \<or> length s > 4 \<or> list_ex (\<lambda>c. hex_digit c = None) s then None
     else Some (foldl (\<lambda>acc c. 16 * acc + the (hex_digit c)) 0 s))"

text \<open>Colon-separated fields; only where \<open>last\<close> allows it may the last one be dotted IPv4.\<close>

function v6_fields :: "bool \<Rightarrow> string \<Rightarrow> nat list option" where
  "v6_fields dotted s =
     (case cut_at CHR '':'' s of
        None \<Rightarrow>
          (case v6_field s of
             Some g \<Rightarrow> Some [g]
           | None \<Rightarrow> if dotted then
               (case parse_ipv4 s of None \<Rightarrow> None
                | Some (a, b, c, d) \<Rightarrow> Some [256 * a + b, 256 * c + d])
               else None)
      | Some (f, r) \<Rightarrow>
          (case v6_field f of None \<Rightarrow> None
           | Some g \<Rightarrow> (case v6_fields dotted r of None \<Rightarrow> None | Some gs \<Rightarrow> Some (g # gs))))"
  by pat_completeness auto
termination
  by (relation "measure (\<lambda>(_, s). length s)") (auto dest!: sym [of "Some _"] cut_at_Some)

declare v6_fields.simps [simp del]

definition v6_side :: "bool \<Rightarrow> string \<Rightarrow> nat list option" where
  "v6_side dotted s = (if s = [] then Some [] else v6_fields dotted s)"

definition parse_ipv6 :: "string \<Rightarrow> nat list option" where
  "parse_ipv6 s =
     (case find_sub ''::'' s of
        None \<Rightarrow> (case v6_fields True s of
                  Some gs \<Rightarrow> if length gs = 8 then Some gs else None | None \<Rightarrow> None)
      | Some (a, b) \<Rightarrow>
          (case (v6_side False a, v6_side True b) of
             (Some xs, Some ys) \<Rightarrow>
               if length xs + length ys \<le> 7
               then Some (xs @ replicate (8 - length xs - length ys) 0 @ ys) else None
           | _ \<Rightarrow> None))"

definition v4_mapped :: "nat \<times> nat \<times> nat \<times> nat \<Rightarrow> nat list" where
  "v4_mapped q = (case q of (a, b, c, d) \<Rightarrow> [0, 0, 0, 0, 0, 0xffff, 256 * a + b, 256 * c + d])"

text \<open>The first of \<open>.\<close>, \<open>:\<close> and \<open>%\<close> decides; a zone makes \<open>net.ParseIP\<close> fail.\<close>

definition ParseIP :: "string \<Rightarrow> nat list option" where
  "ParseIP s =
     (case dropWhile (\<lambda>c. c \<notin> set ''.:%'') s of
        [] \<Rightarrow> None
      | c # _ \<Rightarrow> if c = CHR ''.'' then map_option v4_mapped (parse_ipv4 s)
                else if c = CHR '':'' then (if CHR ''%'' \<in> set s then None else parse_ipv6 s)
                else None)"

definition To4 :: "nat list \<Rightarrow> (nat \<times> nat \<times> nat \<times> nat) option" where
  "To4 ip = (if take 6 ip = [0, 0, 0, 0, 0, 0xffff]
     then Some (ip ! 6 div 256, ip ! 6 mod 256, ip ! 7 div 256, ip ! 7 mod 256) else None)"

definition IsLoopback :: "nat list \<Rightarrow> bool" where
  "IsLoopback ip = (case To4 ip of Some (a, _) \<Rightarrow> a = 127 | None \<Rightarrow> ip = [0, 0, 0, 0, 0, 0, 0, 1])"

definition IsLinkLocalUnicast :: "nat list \<Rightarrow> bool" where
  "IsLinkLocalUnicast ip = (case To4 ip of
      Some (a, b, _) \<Rightarrow> a = 169 \<and> b = 254 | None \<Rightarrow> 0xfe80 \<le> ip ! 0 \<and> ip ! 0 \<le> 0xfebf)"

definition IsLinkLocalMulticast :: "nat list \<Rightarrow> bool" where
  "IsLinkLocalMulticast ip = (case To4 ip of
      Some (a, b, c, _) \<Rightarrow> a = 224 \<and> b = 0 \<and> c = 0
    | None \<Rightarrow> ip ! 0 div 256 = 0xff \<and> ip ! 0 mod 16 = 2)"

definition IsUnspecified :: "nat list \<Rightarrow> bool" where
  "IsUnspecified ip = (To4 ip = Some (0, 0, 0, 0) \<or> ip = replicate 8 0)"

section \<open>The relay's checks\<close>

definition isBlockedRTSPHost :: "string \<Rightarrow> bool" where
  "isBlockedRTSPHost host =
     (let h1 = (case SplitHostPort host of Some (h, _) \<Rightarrow> h | None \<Rightarrow> host);
          h = trim_set (\<lambda>c. c \<in> set ''[]'') h1
      in case ParseIP h of
           None \<Rightarrow> False
         | Some ip \<Rightarrow> IsLoopback ip \<or> IsLinkLocalUnicast ip \<or> IsLinkLocalMulticast ip \<or> IsUnspecified ip)"

text \<open>\<open>hostOnly\<close> of \<^verbatim>\<open>relay/surv_transcode.go\<close>, \<open>clientIP\<close> of \<^verbatim>\<open>relay/hub.go\<close>.\<close>

definition hostOnly :: "string \<Rightarrow> string" where
  "hostOnly addr = (let a = TrimSpace addr in
     if a = [] then [] else case SplitHostPort a of Some (h, _) \<Rightarrow> h | None \<Rightarrow> a)"

definition clientIP :: "string \<Rightarrow> string" where
  "clientIP remoteAddr = (case SplitHostPort remoteAddr of Some (h, _) \<Rightarrow> h | None \<Rightarrow> remoteAddr)"

text \<open>What \<open>originAllowed\<close> and \<open>redactRTSPURL\<close> use of \<open>net/url\<close>: parsing (\<open>None\<close> = error), the host
  with and without its port, whether there is a userinfo, and printing without it.\<close>

record url_lib =
  ul_host :: "string \<Rightarrow> string option"
  ul_hostname :: "string \<Rightarrow> string"
  ul_has_user :: "string \<Rightarrow> bool"
  ul_strip_user :: "string \<Rightarrow> string"

definition redactRTSPURL :: "url_lib \<Rightarrow> string \<Rightarrow> string" where
  "redactRTSPURL u raw = (if ul_host u raw = None \<or> \<not> ul_has_user u raw then raw else ul_strip_user u raw)"

definition originAllowed :: "url_lib \<Rightarrow> string \<Rightarrow> string \<Rightarrow> string list \<Rightarrow> bool" where
  "originAllowed u origin requestHost allowlist =
     (if origin = [] then True
      else if length allowlist = 0 then True
      else if list_ex (\<lambda>a. ToLower (TrimSpace origin) = ToLower (TrimSpace a)) allowlist then True
      else case ul_host u origin of
        Some h \<Rightarrow> h \<noteq> [] \<and> (EqualFold h requestHost \<or> EqualFold (ul_hostname u origin) requestHost)
      | None \<Rightarrow> False)"

section \<open>Lemmas\<close>

definition dotted :: "nat \<Rightarrow> nat \<Rightarrow> nat \<Rightarrow> nat \<Rightarrow> string" where
  "dotted a b c d = nat_str a @ ''.'' @ nat_str b @ ''.'' @ nat_str c @ ''.'' @ nat_str d"

lemma not_digit_dot [simp]: "\<not> is_digit CHR ''.''" "\<not> is_digit CHR ''%''" "\<not> is_digit CHR ''[''" "\<not> is_digit CHR '']''"
  by (simp_all add: is_digit_def char_val_def)

lemma nat_str_small: "n < 10 \<Longrightarrow> nat_str n = [digit_char n]"
  by (simp add: nat_str.simps [of n])

lemma nat_str_big: "10 \<le> n \<Longrightarrow> nat_str n = nat_str (n div 10) @ [digit_char (n mod 10)]"
  by (simp add: nat_str.simps [of n])

lemma hd_nat_str_nonzero: "0 < n \<Longrightarrow> hd (nat_str n) \<noteq> CHR ''0''"
proof (induction n rule: nat_str.induct)
  case (1 n)
  show ?case
  proof (cases "n < 10")
    case True
    then have "char_val (hd (nat_str n)) = 48 + n" by (simp add: nat_str_small)
    then show ?thesis using "1.prems" by (auto simp: char_val_def)
  next
    case False
    with "1.IH" show ?thesis by (simp add: nat_str_big)
  qed
qed

lemma length_nat_str: "n < 1000 \<Longrightarrow> length (nat_str n) \<le> 3"
proof -
  assume n: "n < 1000"
  consider "n < 10" | "10 \<le> n" "n div 10 < 10" | "10 \<le> n" "10 \<le> n div 10" "n div 10 div 10 < 10"
    using n by linarith
  then show ?thesis by cases (simp_all add: nat_str_small nat_str_big)
qed

lemma length_nat_str_pos: "1 < length (nat_str n) \<Longrightarrow> 0 < n"
  by (cases "n = 0") (simp_all add: nat_str_small)

lemma v4_field_nat_str: "n \<le> 255 \<Longrightarrow> v4_field (nat_str n) = Some n"
  using length_nat_str [of n] hd_nat_str_nonzero [of n] length_nat_str_pos [of n]
  by (auto simp: v4_field_def)

lemma parse_dotted:
  assumes "a \<le> 255" "b \<le> 255" "c \<le> 255" "d \<le> 255"
  shows "parse_ipv4 (dotted a b c d) = Some (a, b, c, d)"
  using assms by (simp add: parse_ipv4_def dotted_def digit_notin_nat_str v4_field_nat_str)

lemma digits_dropWhile:
  "list_all is_digit s \<Longrightarrow> dropWhile (\<lambda>c. c \<notin> set ''.:%'') (s @ r) = dropWhile (\<lambda>c. c \<notin> set ''.:%'') r"
  by (induction s) auto

lemma ParseIP_dotted:
  assumes "a \<le> 255" "b \<le> 255" "c \<le> 255" "d \<le> 255"
  shows "ParseIP (dotted a b c d) = Some (v4_mapped (a, b, c, d))"
proof -
  have "dropWhile (\<lambda>c. c \<notin> set ''.:%'') (dotted a b c d)
      = ''.'' @ nat_str b @ ''.'' @ nat_str c @ ''.'' @ nat_str d"
    unfolding dotted_def by (subst digits_dropWhile) simp_all
  then show ?thesis using parse_dotted [OF assms] by (simp add: ParseIP_def)
qed

lemma dotted_chars: "c \<in> set (dotted a b c' d) \<Longrightarrow> is_digit c \<or> c = CHR ''.''"
  using nat_str_digits by (auto simp: dotted_def list_all_iff)

lemma trim_dotted: "trim_set (\<lambda>c. c \<in> set ''[]'') (dotted a b c d) = dotted a b c d"
proof -
  have n: "x \<notin> set ''[]''" if "x \<in> set (dotted a b c d)" for x
    using dotted_chars [OF that] by auto
  then have "dropWhile (\<lambda>c. c \<in> set ''[]'') (dotted a b c d) = dotted a b c d"
    "dropWhile (\<lambda>c. c \<in> set ''[]'') (rev (dotted a b c d)) = rev (dotted a b c d)"
    by (metis (no_types, lifting) dropWhile_eq_self_iff hd_in_set,
        metis (no_types, lifting) dropWhile_eq_self_iff hd_in_set set_rev)
  then show ?thesis by (simp only: trim_set_def rev_rev_ident)
qed

lemma notin_dotted: "\<not> is_digit x \<Longrightarrow> x \<noteq> CHR ''.'' \<Longrightarrow> x \<notin> set (dotted a b c d)"
  using dotted_chars by blast

lemma split_dotted_port: "SplitHostPort (dotted a b c d @ '':'' @ nat_str p) = Some (dotted a b c d, nat_str p)"
proof -
  have c: "cut_last CHR '':'' (dotted a b c d @ '':'' @ nat_str p) = Some (dotted a b c d, nat_str p)"
    using cut_last_append [of "CHR '':''" "nat_str p" "dotted a b c d"]
    by (simp add: digit_notin_nat_str)
  have nb: "CHR ''['' \<notin> set (dotted a b c d @ '':'' @ nat_str p)"
    "CHR '']'' \<notin> set (dotted a b c d @ '':'' @ nat_str p)" "CHR '':'' \<notin> set (dotted a b c d)"
    by (simp_all add: notin_dotted digit_notin_nat_str)
  then have "hd (dotted a b c d @ '':'' @ nat_str p) \<noteq> CHR ''[''"
    by (metis append_is_Nil_conv hd_in_set list.discI)
  with c nb show ?thesis by (simp add: SplitHostPort_def)
qed

lemma split_dotted: "SplitHostPort (dotted a b c d) = None"
proof -
  have c: "cut_last CHR '':'' (dotted a b c d) = None" by (simp add: notin_dotted)
  show ?thesis unfolding SplitHostPort_def c by simp
qed

lemma To4_mapped: "a \<le> 255 \<Longrightarrow> b \<le> 255 \<Longrightarrow> c \<le> 255 \<Longrightarrow> d \<le> 255 \<Longrightarrow> To4 (v4_mapped (a, b, c, d)) = Some (a, b, c, d)"
  by (simp add: To4_def v4_mapped_def)

section \<open>Properties\<close>

text \<open>The dial guard, exactly: of the dotted IPv4 targets, with or without a port, it refuses
  loopback (127/8), link-local (169.254/16, which holds the cloud metadata address), the local
  multicast block (224.0.0/24) and 0.0.0.0, and accepts every other one.\<close>

lemma rtsp_guard_ipv4:
  assumes "a \<le> 255" "b \<le> 255" "c \<le> 255" "d \<le> 255"
    and "host = dotted a b c d \<or> host = dotted a b c d @ '':'' @ nat_str port"
  shows "isBlockedRTSPHost host \<longleftrightarrow> a = 127 \<or> (a = 169 \<and> b = 254) \<or> (a = 224 \<and> b = 0 \<and> c = 0)
     \<or> (a = 0 \<and> b = 0 \<and> c = 0 \<and> d = 0)"
proof -
  note t = To4_mapped [OF assms(1-4)]
  have h: "(case SplitHostPort host of None \<Rightarrow> host | Some (h, _) \<Rightarrow> h) = dotted a b c d"
    using assms(5) by (elim disjE) (simp_all only: split_dotted split_dotted_port option.case prod.case)
  have "v4_mapped (a, b, c, d) \<noteq> replicate 8 0"
    by (auto simp: v4_mapped_def dest!: arg_cong [where f = "\<lambda>l. l ! 5"])
  have "isBlockedRTSPHost host \<longleftrightarrow> IsLoopback (v4_mapped (a, b, c, d))
      \<or> IsLinkLocalUnicast (v4_mapped (a, b, c, d)) \<or> IsLinkLocalMulticast (v4_mapped (a, b, c, d))
      \<or> IsUnspecified (v4_mapped (a, b, c, d))"
    unfolding isBlockedRTSPHost_def Let_def h trim_dotted ParseIP_dotted [OF assms(1-4)] option.case
    by (rule refl)
  with t \<open>v4_mapped (a, b, c, d) \<noteq> replicate 8 0\<close> show ?thesis
    by (simp add: IsLoopback_def IsLinkLocalUnicast_def IsLinkLocalMulticast_def IsUnspecified_def)
qed

end
