(* ===== verification/Wall_Layout.thy ===== *)
theory Wall_Layout
  imports Agent_Store Go_Net "HOL-Library.Product_Lexorder"
begin

text \<open>
  \<^verbatim>\<open>relay/wallorder.go\<close> and the pure part of \<^verbatim>\<open>relay/surv_mosaic.go\<close>: the per-wall tile order,
  column count and quality overrides with their persistence, and the geometry and input list of
  the composite. The four in-memory maps are one record; a missing \<open>int\<close> entry reads as 0.
\<close>

section \<open>Stored layouts\<close>

record wall_tables =
  wt_orders :: "(string \<times> string list) list"
  wt_cols :: "(string \<times> int) list"
  wt_res_w :: "(string \<times> int) list"
  wt_fps :: "(string \<times> int) list"
  wt_db :: bool

definition no_walls :: wall_tables where
  "no_walls = \<lparr>wt_orders = [], wt_cols = [], wt_res_w = [], wt_fps = [], wt_db = False\<rparr>"

definition initWallLayoutStore :: "bool \<Rightarrow> wall_tables \<Rightarrow> agent_db \<Rightarrow> wall_tables \<times> agent_db" where
  "initWallLayoutStore haveStore t s =
     (if \<not> haveStore then (t, s)
      else case loadWallLayouts s of
        (s', None) \<Rightarrow> (t, s')
      | (s', Some (orders, cols)) \<Rightarrow> (t\<lparr>wt_orders := orders, wt_cols := cols, wt_db := True\<rparr>, s'))"

definition wallOrderKey :: "string \<Rightarrow> string \<Rightarrow> string" where
  "wallOrderKey agentID wallID = (if agentID = [] then ''default'' else agentID) @ ''/'' @ wallID"

definition int_at :: "(string \<times> int) list \<Rightarrow> string \<Rightarrow> int" where
  "int_at m k = (case map_of m k of None \<Rightarrow> 0 | Some v \<Rightarrow> v)"

definition getWallOrder :: "wall_tables \<Rightarrow> string \<Rightarrow> string list" where
  "getWallOrder t key = (case map_of (wt_orders t) key of None \<Rightarrow> [] | Some ids \<Rightarrow> ids)"

definition getWallCols :: "wall_tables \<Rightarrow> string \<Rightarrow> int" where
  "getWallCols t key = int_at (wt_cols t) key"

text \<open>The error of the write is ignored by the code.\<close>

definition persistWallLayout :: "wall_tables \<Rightarrow> string \<Rightarrow> string list \<Rightarrow> agent_db \<Rightarrow> agent_db" where
  "persistWallLayout t key order s =
     (if \<not> wt_db t then s else fst (saveWallLayout key (join_with CHR '','' order) (getWallCols t key) s))"

definition setWallOrder :: "string \<Rightarrow> string list \<Rightarrow> wall_tables \<times> agent_db \<Rightarrow> wall_tables \<times> agent_db" where
  "setWallOrder key ids st = (case st of (t, s) \<Rightarrow>
     let t' = t\<lparr>wt_orders := AList.update key ids (wt_orders t)\<rparr>
     in (t', persistWallLayout t' key ids s))"

definition put_int :: "string \<Rightarrow> int \<Rightarrow> (string \<times> int) list \<Rightarrow> (string \<times> int) list" where
  "put_int key v m = (if v > 0 then AList.update key v m else AList.delete key m)"

definition setWallCols :: "string \<Rightarrow> int \<Rightarrow> wall_tables \<times> agent_db \<Rightarrow> wall_tables \<times> agent_db" where
  "setWallCols key cols st = (case st of (t, s) \<Rightarrow>
     let t' = t\<lparr>wt_cols := put_int key cols (wt_cols t)\<rparr>
     in (t', persistWallLayout t' key (getWallOrder t' key) s))"

definition setWallResW :: "string \<Rightarrow> int \<Rightarrow> wall_tables \<Rightarrow> wall_tables" where
  "setWallResW key w t = t\<lparr>wt_res_w := put_int key w (wt_res_w t)\<rparr>"

definition getWallResW :: "wall_tables \<Rightarrow> string \<Rightarrow> int" where
  "getWallResW t key = int_at (wt_res_w t) key"

definition setWallFpsOv :: "string \<Rightarrow> int \<Rightarrow> wall_tables \<Rightarrow> wall_tables" where
  "setWallFpsOv key f t = t\<lparr>wt_fps := put_int key f (wt_fps t)\<rparr>"

definition getWallFpsOv :: "wall_tables \<Rightarrow> string \<Rightarrow> int" where
  "getWallFpsOv t key = int_at (wt_fps t) key"

text \<open>The first loop of \<open>reorderByPreference\<close> with the \<open>placed\<close> set as the list built so far.\<close>

fun place :: "string list \<Rightarrow> string list \<Rightarrow> string list \<Rightarrow> string list" where
  "place ids [] out = out"
| "place ids (p # pref) out =
     place ids pref (if p \<in> set ids \<and> p \<notin> set out then out @ [p] else out)"

definition reorderByPreference :: "string list \<Rightarrow> string list \<Rightarrow> string list" where
  "reorderByPreference ids pref =
     (if length pref = 0 then ids
      else let out = place ids pref [] in out @ filter (\<lambda>x. x \<notin> set out) ids)"

definition applyWallOrder :: "wall_tables \<Rightarrow> string \<Rightarrow> string list \<Rightarrow> string list" where
  "applyWallOrder t key ids = reorderByPreference ids (getWallOrder t key)"

section \<open>Geometry\<close>

text \<open>\<open>ceil(sqrt n)\<close>: exact for every \<open>n\<close> below \<open>2 ^ 52\<close>, far above a wall's size.\<close>

function ceil_sqrt_from :: "nat \<Rightarrow> nat \<Rightarrow> nat" where
  "ceil_sqrt_from c n = (if n \<le> c * c then c else ceil_sqrt_from (Suc c) n)"
  by pat_completeness auto
termination
proof (relation "measure (\<lambda>(c, n). n - c)", simp)
  fix c n :: nat
  assume "\<not> n \<le> c * c"
  then have "c < n" using le_square [of c] by linarith
  then show "((Suc c, n), c, n) \<in> measure (\<lambda>(c, n). n - c)" by simp
qed

declare ceil_sqrt_from.simps [simp del]

definition mosaicLayout :: "nat \<Rightarrow> nat \<times> nat" where
  "mosaicLayout n = (if n = 0 then (0, 0)
     else let cols = ceil_sqrt_from 0 n in ((n + cols - 1) div cols, cols))"

definition isMainStreamID :: "string \<Rightarrow> bool" where
  "isMainStreamID x = has_suffix x ''@main''"

definition mainStreamID :: "string \<Rightarrow> string" where
  "mainStreamID base = base @ ''@main''"

definition baseStreamID :: "string \<Rightarrow> string" where
  "baseStreamID x = trim_suffix x ''@main''"

definition dvrChOf :: "string \<Rightarrow> (int \<times> int) option" where
  "dvrChOf x =
     (if \<not> has_prefix x ''dvr'' then None
      else case find_sub ''_ch'' (trim_prefix x ''dvr'') of
        None \<Rightarrow> None
      | Some (d, c) \<Rightarrow> (case (atoi d, atoi c) of (Some a, Some b) \<Rightarrow> Some (a, b) | _ \<Rightarrow> None))"

text \<open>The stream id of a channel, \<open>fmt.Sprintf("dvr%d_ch%d", dvr, ch)\<close>.\<close>

definition stream_id :: "int \<Rightarrow> int \<Rightarrow> string" where
  "stream_id dvr ch = ''dvr'' @ itoa dvr @ ''_ch'' @ itoa ch"

text \<open>The order of \<open>mosaicInputIDs\<close>: parseable ids first by (dvr, ch), the others by id. Ids that
  parse alike but differ (\<open>dvr1_ch1\<close>, \<open>dvr01_ch1\<close>) are kept in their incoming order here; the
  relay never creates such a pair.\<close>

definition input_key :: "string \<Rightarrow> bool \<times> int \<times> int \<times> string" where
  "input_key x = (case dvrChOf x of Some (d, c) \<Rightarrow> (False, d, c, []) | None \<Rightarrow> (True, 0, 0, x))"

definition wall_input :: "int \<Rightarrow> string \<Rightarrow> bool" where
  "wall_input dvrNum x = (\<not> (has_prefix x ''wall'' \<or> isMainStreamID x)
     \<and> (dvrNum > 0 \<longrightarrow> (case dvrChOf x of Some (d, _) \<Rightarrow> d = dvrNum | None \<Rightarrow> False)))"

definition mosaicInputIDs :: "string list \<Rightarrow> int \<Rightarrow> string list" where
  "mosaicInputIDs stats dvrNum = sort_key input_key (filter (wall_input dvrNum) stats)"

definition wallEnabled :: "string \<Rightarrow> bool" where
  "wallEnabled env = (env = ''1'')"

definition wallDims :: "string \<Rightarrow> int \<times> int" where
  "wallDims env = (if TrimSpace env = ''720p'' then (1280, 720) else (1920, 1080))"

definition wallFPS :: "string \<Rightarrow> int" where
  "wallFPS env = (case atoi (TrimSpace env) of
      None \<Rightarrow> 15
    | Some n \<Rightarrow> if n \<le> 0 then 15 else if n > 30 then 30 else n)"

definition evenDown :: "int \<Rightarrow> int" where
  "evenDown x = (if x < 0 then 0 else x - x mod 2)"

text \<open>The cell positions that \<open>mosaicArgs\<close> writes into the \<open>xstack\<close> layout.\<close>

definition cell_pos :: "nat \<Rightarrow> int \<Rightarrow> int \<Rightarrow> nat \<Rightarrow> int \<times> int" where
  "cell_pos cols cellW cellH i = (int (i mod cols) * cellW, int (i div cols) * cellH)"

definition input_args :: "string \<Rightarrow> string list" where
  "input_args u = [''-rw_timeout'', ''15000000'', ''-hwaccel'', ''cuda'', ''-i'', u]"

definition scale_filter :: "int \<Rightarrow> int \<Rightarrow> int \<Rightarrow> nat \<Rightarrow> string" where
  "scale_filter cellW cellH fps i =
     ''['' @ nat_str i @ '':v]scale='' @ itoa cellW @ '':'' @ itoa cellH
       @ '':force_original_aspect_ratio=increase,crop='' @ itoa cellW @ '':'' @ itoa cellH
       @ '',fps='' @ itoa fps @ '',tpad=stop=-1:stop_mode=clone,setsar=1[v'' @ nat_str i @ ''];''"

definition cell_layout :: "nat \<Rightarrow> int \<Rightarrow> int \<Rightarrow> nat \<Rightarrow> string" where
  "cell_layout cols cellW cellH i =
     (case cell_pos cols cellW cellH i of (x, y) \<Rightarrow> itoa x @ ''_'' @ itoa y)"

definition mosaicArgs :: "string list \<Rightarrow> nat \<Rightarrow> nat \<Rightarrow> int \<Rightarrow> int \<Rightarrow> int \<Rightarrow> string list" where
  "mosaicArgs inputURLs rows cols cellW cellH fps =
     (let is = [0..<length inputURLs];
          fc = concat (map (scale_filter cellW cellH fps) is)
               @ concat (map (\<lambda>i. ''[v'' @ nat_str i @ '']'') is)
               @ ''xstack=inputs='' @ nat_str (length inputURLs) @ '':layout=''
               @ join_with CHR ''|'' (map (cell_layout cols cellW cellH) is)
               @ ''[out]''
      in [''-hide_banner'', ''-loglevel'', ''error''] @ concat (map input_args inputURLs)
         @ [''-filter_complex'', fc, ''-map'', ''[out]'', ''-an'', ''-r'', itoa fps,
            ''-c:v'', ''h264_nvenc'', ''-preset'', ''p4'', ''-tune'', ''ll'',
            ''-b:v'', ''4M'', ''-maxrate'', ''6M'', ''-bufsize'', ''6M'',
            ''-g'', itoa (fps * 2), ''-bf'', ''0'',
            ''-bsf:v'', ''h264_metadata=aud=insert'', ''-f'', ''h264'', ''pipe:1''])"

definition mosaicSig :: "string list \<Rightarrow> string" where
  "mosaicSig xs = join_with CHR '','' xs"

definition mosaicWallDVR :: "string \<Rightarrow> int" where
  "mosaicWallDVR wallID =
     (if wallID = ''wall'' then 0
      else case (if has_prefix wallID ''walldvr'' then atoi (trim_prefix wallID ''walldvr'') else None) of
        Some n \<Rightarrow> if n > 0 then n
                  else if has_prefix wallID ''wallg'' \<and> length wallID > 5 then -2 else -1
      | None \<Rightarrow> if has_prefix wallID ''wallg'' \<and> length wallID > 5 then -2 else -1)"

definition wallChannelIDs :: "wall_tables \<Rightarrow> string \<Rightarrow> string \<Rightarrow> string list \<Rightarrow> string list" where
  "wallChannelIDs t agentID wallID stats =
     (let key = wallOrderKey agentID wallID
      in if mosaicWallDVR wallID = -2
         then filter (\<lambda>x. x \<in> set (mosaicInputIDs stats 0)) (getWallOrder t key)
         else applyWallOrder t key (mosaicInputIDs stats (mosaicWallDVR wallID)))"

section \<open>Lemmas\<close>

text \<open>The first occurrences of a list, in order.\<close>

fun firsts :: "'a list \<Rightarrow> 'a list" where
  "firsts [] = []"
| "firsts (x # xs) = x # filter (\<lambda>y. y \<noteq> x) (firsts xs)"

lemma set_firsts [simp]: "set (firsts xs) = set xs"
  by (induction xs) auto

lemma distinct_firsts [simp]: "distinct (firsts xs)"
  by (induction xs) auto

lemma place_firsts:
  "place ids pref out = out @ filter (\<lambda>x. x \<notin> set out) (firsts (filter (\<lambda>x. x \<in> set ids) pref))"
proof (induction ids pref out rule: place.induct)
  case (2 ids p pref out)
  show ?case
  proof (cases "p \<in> set ids \<and> p \<notin> set out")
    case True
    then show ?thesis using "2.IH" by (simp add: conj_commute)
  next
    case False
    then show ?thesis using "2.IH" by (auto intro!: filter_cong)
  qed
qed simp

lemma reorder_firsts:
  "reorderByPreference ids pref = firsts (filter (\<lambda>x. x \<in> set ids) pref) @ filter (\<lambda>x. x \<notin> set pref) ids"
proof (cases "pref = []")
  case False
  have "filter (\<lambda>x. x \<in> set pref \<longrightarrow> x \<notin> set ids) ids = filter (\<lambda>x. x \<notin> set pref) ids"
    by (rule filter_cong) auto
  with False show ?thesis
    by (simp add: reorderByPreference_def place_firsts)
qed (simp add: reorderByPreference_def)

lemma ceil_sqrt_from_spec:
  "(\<forall>d<c. d * d < n) \<Longrightarrow> n \<le> ceil_sqrt_from c n * ceil_sqrt_from c n \<and> (\<forall>d<ceil_sqrt_from c n. d * d < n)"
proof (induction c n rule: ceil_sqrt_from.induct)
  case (1 c n)
  show ?case
  proof (cases "n \<le> c * c")
    case True
    with "1.prems" show ?thesis by (simp add: ceil_sqrt_from.simps [of c n])
  next
    case False
    with "1.prems" have "\<forall>d<Suc c. d * d < n" by (auto simp: less_Suc_eq)
    from "1.IH" [OF False this] False show ?thesis by (simp add: ceil_sqrt_from.simps [of c n])
  qed
qed

lemma ceil_div: "0 < c \<Longrightarrow> n \<le> ((n + c - 1) div c) * c \<and> ((n + c - 1) div c) * c < n + c" for n c :: nat
proof -
  assume c: "0 < c"
  have "(n + c - 1) div c * c + (n + c - 1) mod c = n + c - 1" by (simp only: div_mult_mod_eq)
  moreover have "(n + c - 1) mod c < c" using c by simp
  ultimately show ?thesis using c by linarith
qed

lemma mosaicLayout_pos:
  assumes "mosaicLayout n = (rows, cols)" "0 < n"
  shows "0 < cols" "n \<le> cols * cols" "\<forall>d<cols. d * d < n" "n \<le> rows * cols" "rows * cols < n + cols"
proof -
  have c: "cols = ceil_sqrt_from 0 n" and r: "rows = (n + cols - 1) div cols"
    using assms by (auto simp: mosaicLayout_def Let_def)
  note s = ceil_sqrt_from_spec [of 0 n, folded c]
  then show n: "n \<le> cols * cols" "\<forall>d<cols. d * d < n" by simp_all
  with assms(2) show p: "0 < cols" by (cases cols) simp_all
  from ceil_div [OF p, of n] show "n \<le> rows * cols" "rows * cols < n + cols" by (simp_all only: r)
qed

lemma find_sub_first:
  assumes "c \<notin> set a"
  shows "find_sub (c # pat) (a @ c # pat @ b) = Some (a, b)"
  using assms
proof (induction a)
  case Nil
  then show ?case by (simp add: find_sub.simps has_prefix_def)
next
  case (Cons x a)
  then have "\<not> has_prefix ((x # a) @ c # pat @ b) (c # pat)" by (auto simp: has_prefix_def)
  with Cons show ?case by (simp add: find_sub.simps [of _ "x # _"])
qed

lemma dvrChOf_stream_id:
  assumes "min_int64 \<le> d" "d \<le> max_int64" "min_int64 \<le> c" "c \<le> max_int64"
  shows "dvrChOf (stream_id d c) = Some (d, c)"
proof -
  have "find_sub ''_ch'' (itoa d @ CHR ''_'' # ''ch'' @ itoa c) = Some (itoa d, itoa c)"
    by (rule find_sub_first) (simp add: notin_itoa)
  moreover have "has_prefix (stream_id d c) ''dvr''"
    unfolding stream_id_def by (rule has_prefix_append)
  moreover have "trim_prefix (stream_id d c) ''dvr'' = itoa d @ ''_ch'' @ itoa c"
    unfolding stream_id_def by (rule trim_prefix_append)
  ultimately show ?thesis using assms by (simp add: dvrChOf_def atoi_itoa)
qed

section \<open>Properties\<close>

text \<open>Reordering loses and invents nothing: the tiles of the stored order come first, each once,
  in that order and only if they are running; the rest follow in their incoming order. In
  particular the result is a permutation of the running tiles.\<close>

lemma reorder_is_permutation:
  assumes "distinct ids"
  shows "mset (reorderByPreference ids pref) = mset ids
     \<and> reorderByPreference ids pref
         = firsts (filter (\<lambda>x. x \<in> set ids) pref) @ filter (\<lambda>x. x \<notin> set pref) ids"
proof -
  have "distinct (reorderByPreference ids pref)" "set (reorderByPreference ids pref) = set ids"
    using assms by (auto simp: reorder_firsts)
  with assms have "mset (reorderByPreference ids pref) = mset ids"
    by (simp only: set_eq_iff_mset_eq_distinct [symmetric])
  then show ?thesis by (simp only: reorder_firsts)
qed

text \<open>The composite grid is near-square and tight, and the cells tile the canvas: every one of
  the \<open>n\<close> tiles lies inside the \<open>cols * cellW\<close> by \<open>rows * cellH\<close> picture and no two overlap.\<close>

lemma mosaic_cells_tile:
  assumes "mosaicLayout n = (rows, cols)" "i < n" "0 \<le> cellW" "0 \<le> cellH"
    and "cell_pos cols cellW cellH i = (x, y)"
  shows "n \<le> rows * cols \<and> (rows - 1) * cols < n \<and> (cols - 1) * (cols - 1) < n \<and> rows \<le> cols
     \<and> 0 \<le> x \<and> x + cellW \<le> int cols * cellW \<and> 0 \<le> y \<and> y + cellH \<le> int rows * cellH
     \<and> (\<forall>j<n. j \<noteq> i \<longrightarrow> (case cell_pos cols cellW cellH j of (x', y') \<Rightarrow>
          x + cellW \<le> x' \<or> x' + cellW \<le> x \<or> y + cellH \<le> y' \<or> y' + cellH \<le> y))"
proof -
  have n: "0 < n" using assms(2) by simp
  note m = mosaicLayout_pos [OF assms(1) n]
  have xy: "x = int (i mod cols) * cellW" "y = int (i div cols) * cellH"
    using assms(5) by (simp_all add: cell_pos_def)
  have step: "int a * w + w \<le> int b * w" if "a < b" "0 \<le> w" for a b w
  proof -
    have "int (Suc a) * w \<le> int b * w" by (rule mult_right_mono) (use that in simp_all)
    then show ?thesis by (simp add: algebra_simps)
  qed
  have row: "i div cols < rows"
    using m assms(2) by (intro less_mult_imp_div_less) simp
  have c1: "rows \<le> cols"
  proof (rule ccontr)
    assume "\<not> rows \<le> cols"
    then have "Suc cols * cols \<le> rows * cols" by (intro mult_right_mono) simp_all
    with m show False by simp
  qed
  have c2: "(rows - 1) * cols < n" using m by (cases rows) simp_all
  have c3: "(cols - 1) * (cols - 1) < n" using m by simp
  have "\<forall>j<n. j \<noteq> i \<longrightarrow> (case cell_pos cols cellW cellH j of (x', y') \<Rightarrow>
      x + cellW \<le> x' \<or> x' + cellW \<le> x \<or> y + cellH \<le> y' \<or> y' + cellH \<le> y)"
  proof (intro allI impI)
    fix j assume "j < n" "j \<noteq> i"
    then have "j mod cols \<noteq> i mod cols \<or> j div cols \<noteq> i div cols"
      by (metis mult_div_mod_eq)
    then consider "i mod cols < j mod cols" | "j mod cols < i mod cols"
      | "i div cols < j div cols" | "j div cols < i div cols" by linarith
    then show "case cell_pos cols cellW cellH j of (x', y') \<Rightarrow>
        x + cellW \<le> x' \<or> x' + cellW \<le> x \<or> y + cellH \<le> y' \<or> y' + cellH \<le> y"
      by cases (use step assms(3,4) in \<open>auto simp: cell_pos_def xy\<close>)
  qed
  moreover have "x + cellW \<le> int cols * cellW" "y + cellH \<le> int rows * cellH"
    unfolding xy using step [OF _ assms(3), of "i mod cols" cols] step [OF row assms(4)] m by simp_all
  ultimately show ?thesis using m(4) c1 c2 c3 assms(3,4) by (simp add: xy)
qed

text \<open>A drag order survives a restart: after \<open>setWallOrder\<close> with a store that accepts the write,
  a relay that starts from the database alone reads the same order and the same column count for
  that wall. (The order is stored as comma-separated text, so no id may contain a comma.)\<close>

lemma wall_order_survives_restart:
  assumes "wt_db t" "db_faults s = []" "ids \<noteq> []" "ids \<noteq> [[]]" "\<forall>x\<in>set ids. CHR '','' \<notin> set x"
    and "distinct (map fst (db_walls s))" "getWallCols t key \<ge> 0"
    and "setWallOrder key ids (t, s) = (t1, s1)" "initWallLayoutStore True no_walls s1 = (t2, s2)"
  shows "getWallOrder t2 key = ids \<and> getWallCols t2 key = getWallCols t key"
proof -
  let ?c = "getWallCols t key" and ?csv = "join_with CHR '','' ids"
  have csv: "?csv \<noteq> []" using assms(3,4) by (cases ids rule: remdups_adj.cases) auto
  have w: "db_walls s1 = AList.update key (?csv, ?c) (db_walls s)" "db_faults s1 = []"
    using assms(1,2,8)
    by (auto simp: setWallOrder_def persistWallLayout_def saveWallLayout_def exec_def statement_def
        getWallCols_def Let_def)
  have row: "map_of (db_walls s1) key = Some (?csv, ?c)" by (simp add: w)
  have d: "distinct (map fst (db_walls s1))" using assms(6) by (simp add: w distinct_update)
  have mf: "map_of (map (\<lambda>(k, csv, c). (k, f csv c)) (filter (\<lambda>(k, csv, c). P csv c) m)) key
      = (case map_of m key of None \<Rightarrow> None | Some (csv, c) \<Rightarrow> if P csv c then Some (f csv c) else None)"
    if "distinct (map fst m)" for f :: "string \<Rightarrow> int \<Rightarrow> 'x" and P and m :: "(string \<times> string \<times> int) list"
    using that by (induction m) (auto split: option.splits dest: map_of_SomeD
        simp: rev_image_eqI map_of_eq_None_iff)
  have t2: "t2 = no_walls\<lparr>
      wt_orders := map (\<lambda>(k, csv, c). (k, split_on CHR '','' csv)) (filter (\<lambda>(k, csv, c). csv \<noteq> []) (db_walls s1)),
      wt_cols := map (\<lambda>(k, csv, c). (k, c)) (filter (\<lambda>(k, csv, c). c > 0) (db_walls s1)), wt_db := True\<rparr>"
    using assms(9) w(2) by (auto simp: initWallLayoutStore_def loadWallLayouts_def query_def statement_def)
  have "getWallOrder t2 key = split_on CHR '','' ?csv"
    using mf [OF d, of "\<lambda>csv c. split_on CHR '','' csv" "\<lambda>csv c. csv \<noteq> []"] row csv
    by (simp add: t2 getWallOrder_def)
  moreover have "getWallCols t2 key = ?c"
    using mf [OF d, of "\<lambda>csv c. c" "\<lambda>csv c. c > 0"] row assms(7)
    unfolding getWallCols_def [of t2] by (simp add: t2 int_at_def)
  ultimately show ?thesis using split_join [OF assms(3,5)] by simp
qed

end
