(* ===== verification/Ovp_Messages.thy ===== *)
theory Ovp_Messages
  imports Ov_Prelude
begin

text \<open>
  \<^verbatim>\<open>proto/json_messages.go\<close>: the payloads of the OVP messages. Go encodes them with
  \<open>encoding/json\<close>; the text encoding is a parameter of every definition that decodes or encodes a
  payload (the record \<open>json_codec\<close>). Go's \<open>int\<close> and \<open>int64\<close> fields are integers.
\<close>

record hello =
  hl_role :: string
  hl_agent_id :: string
  hl_client :: string
  hl_client_version :: string
  hl_supports :: "string list"
  hl_want_profile :: "string option"

record auth =
  au_token :: string
  au_pin :: string

record control =
  ct_cmd :: string
  ct_profile :: string

record error_msg =
  em_code :: int
  em_message :: string

record dvr_info =
  dv_id :: int
  dv_name :: string
  dv_addr :: string
  dv_port :: int
  dv_ext_addr :: string
  dv_ext_port :: int
  dv_rtsp_port :: int
  dv_username :: string
  dv_password :: string
  dv_refresh_rate :: int
  dv_stream_quality :: string
  dv_protocol :: string

record channel_info =
  ch_id :: int
  ch_dvr_id :: int
  ch_num :: int
  ch_name :: string
  ch_order :: int
  ch_enabled :: bool
  ch_width :: int
  ch_height :: int
  ch_rtsp_uri :: string
  ch_record_hires :: bool

record surv_config =
  sc_dvrs :: "dvr_info list"
  sc_channels :: "channel_info list"
  sc_agent_id :: string

record channel_rename =
  cr_ch_num :: int
  cr_name :: string

record channel_hires =
  cx_ch_num :: int
  cx_on :: bool

record surv_meta =
  sm_dvr_id :: int
  sm_order :: "int list"
  sm_renames :: "channel_rename list"
  sm_hires :: "channel_hires list"

record agent_control =
  ac_action :: string

record snapshot_request =
  sq_req_id :: string
  sq_dvr_id :: int
  sq_ch_num :: int

record snapshot_response =
  sr_req_id :: string
  sr_dvr_id :: int
  sr_ch_num :: int
  sr_data :: string
  sr_error :: string

record surv_event =
  se_agent_id :: string
  se_ch_id :: string
  se_kind :: string
  se_active :: bool
  se_ts :: int

record surv_event_thumb =
  st_agent_id :: string
  st_ch_id :: string
  st_ts :: int
  st_jpeg :: bytes

text \<open>\<open>json.Unmarshal\<close> and \<open>json.Marshal\<close> for the payload types the relay reads and writes.\<close>

record json_codec =
  js_hello :: "bytes \<Rightarrow> hello option"
  js_auth :: "bytes \<Rightarrow> auth option"
  js_config :: "bytes \<Rightarrow> surv_config option"
  js_put_config :: "surv_config \<Rightarrow> bytes option"
  js_event :: "bytes \<Rightarrow> surv_event option"
  js_thumb :: "bytes \<Rightarrow> surv_event_thumb option"
  js_snap_req :: "bytes \<Rightarrow> snapshot_request option"
  js_put_snap_req :: "snapshot_request \<Rightarrow> bytes"
  js_snap_resp :: "bytes \<Rightarrow> snapshot_response option"
  js_put_snap_resp :: "snapshot_response \<Rightarrow> bytes"
  js_put_error :: "error_msg \<Rightarrow> bytes"

end
