(* ===== verification/Surv_Proxy.thy ===== *)
theory Surv_Proxy
  imports Stream_Hub Wall_Layout Ovp_Messages
begin

text \<open>
  \<^verbatim>\<open>relay/surv_proxy.go\<close>, the stateful part of \<^verbatim>\<open>relay/surv_mosaic.go\<close> and the supervision of
  \<^verbatim>\<open>relay/surv_transcode.go\<close>: which stream pipelines and live walls run. Every entry carries a
  number of its own (Go compares pointers); stopping an entry records its number in
  \<open>px_cancelled\<close>, which stands for its \<open>stopped\<close> flag and its cancelled context. A dial (connect,
  describe, codec setup, HLS muxer, play) succeeds with the muxer built from the session
  description or fails with an error text: \<open>ev_dial\<close>. Environment variables, the URL library and
  the store of wall layouts are in the record \<open>env\<close>. The per-DVR goroutines of one configuration
  run in configuration order here; they start different streams.
\<close>

record env =
  ev_dial :: "string \<Rightarrow> string + frag_muxer"
  ev_rtsp_host :: "string \<Rightarrow> string option"
  ev_url :: url_lib
  ev_url_print :: "string \<Rightarrow> string"
  ev_url_with_user :: "string \<Rightarrow> string \<Rightarrow> string \<Rightarrow> string"
  ev_url_build :: "string \<Rightarrow> string \<Rightarrow> string \<Rightarrow> string \<Rightarrow> string"
  ev_transcode_dvr :: string
  ev_wall_res :: string
  ev_wall_fps :: string
  ev_relay_port :: string

section \<open>Names and URLs\<close>

definition streamPath :: "string \<Rightarrow> string \<Rightarrow> string" where
  "streamPath agentID streamID =
     (if agentID = [] \<or> agentID = ''default'' then streamID else agentID @ ''/'' @ streamID)"

definition getPort :: "env \<Rightarrow> string" where
  "getPort ev = (if ev_relay_port ev = [] then ''8080'' else ev_relay_port ev)"

definition relaySelfHLSBase :: "env \<Rightarrow> string" where
  "relaySelfHLSBase ev = ''http://127.0.0.1:'' @ getPort ev"

definition isAllDigits :: "string \<Rightarrow> bool" where
  "isAllDigits s = (s \<noteq> [] \<and> list_all is_digit s)"

definition transcodeEnabledFor :: "env \<Rightarrow> string \<Rightarrow> dvr_info \<Rightarrow> bool" where
  "transcodeEnabledFor ev chID dvr =
     (let v = TrimSpace (ev_transcode_dvr ev)
      in if v = [] then False
         else if isAllDigits v then has_prefix chID (''dvr'' @ v @ ''_'')
         else hostOnly (dv_addr dvr) = v \<or> hostOnly (dv_ext_addr dvr) = v)"

definition resolveSurvHost :: "dvr_info \<Rightarrow> string" where
  "resolveSurvHost dvr = dv_addr dvr"

definition resolveRTSPPort :: "dvr_info \<Rightarrow> int" where
  "resolveRTSPPort dvr = (if dv_rtsp_port dvr > 0 then dv_rtsp_port dvr else 554)"

definition rtsp_path :: "string \<Rightarrow> int \<Rightarrow> bool \<Rightarrow> string" where
  "rtsp_path protocol chNum mainStream =
     (if protocol = ''dahua''
      then ''/cam/realmonitor?channel='' @ itoa chNum @ ''&subtype='' @ itoa (if mainStream then 0 else 1)
      else ''/Streaming/Channels/'' @ itoa chNum @ (if mainStream then ''01'' else ''02''))"

definition buildSurvRTSPURL :: "env \<Rightarrow> dvr_info \<Rightarrow> int \<Rightarrow> bool \<Rightarrow> string" where
  "buildSurvRTSPURL ev dvr chNum mainStream =
     ev_url_build ev (dv_username dvr) (dv_password dvr)
       (resolveSurvHost dvr @ '':'' @ itoa (resolveRTSPPort dvr))
       (rtsp_path (dv_protocol dvr) chNum mainStream)"

definition survRTSPURLForChannel :: "env \<Rightarrow> dvr_info \<Rightarrow> channel_info \<Rightarrow> bool \<Rightarrow> string" where
  "survRTSPURLForChannel ev dvr ch mainStream =
     (let uri = ch_rtsp_uri ch
      in if uri \<noteq> [] \<and> ul_host (ev_url ev) uri \<noteq> None then
           (if \<not> ul_has_user (ev_url ev) uri \<and> dv_username dvr \<noteq> []
            then ev_url_with_user ev uri (dv_username dvr) (dv_password dvr)
            else ev_url_print ev uri)
         else buildSurvRTSPURL ev dvr (ch_num ch) mainStream)"

definition isRTSPNotFound :: "string \<Rightarrow> bool" where
  "isRTSPNotFound err = contains_sub err ''404''"

definition desiredStreamIDs :: "channel_info list \<Rightarrow> string list" where
  "desiredStreamIDs channels =
     concat (map (\<lambda>ch. let x = stream_id (ch_dvr_id ch) (ch_num ch)
       in if \<not> ch_enabled ch then [] else if ch_record_hires ch then [x, mainStreamID x] else [x]) channels)"

section \<open>State\<close>

record stream_entry =
  en_uid :: nat
  en_name :: string
  en_rtsp :: string
  en_muxer :: bool
  en_hub :: ws_hub
  en_frag :: "frag_muxer option"
  en_encoder :: "string list"

record mosaic_state =
  ms_sig :: string
  ms_rows :: nat
  ms_cols :: nat
  ms_fps :: int
  ms_cells :: "(nat \<times> string \<times> string) list"
  ms_uid :: nat
  ms_agent :: string

record surv_proxy =
  px_streams :: "(string \<times> stream_entry) list"
  px_mosaics :: "(string \<times> mosaic_state) list"
  px_next :: nat
  px_cancelled :: "nat list"

definition NewSurvProxy :: surv_proxy where
  "NewSurvProxy = \<lparr>px_streams = [], px_mosaics = [], px_next = 0, px_cancelled = []\<rparr>"

definition stream_at :: "surv_proxy \<Rightarrow> string \<Rightarrow> stream_entry option" where
  "stream_at px x = map_of (px_streams px) x"

definition stopEntryLocked :: "stream_entry \<Rightarrow> surv_proxy \<Rightarrow> surv_proxy" where
  "stopEntryLocked e px = px\<lparr>px_cancelled := en_uid e # px_cancelled px\<rparr>"

definition StopChannel :: "string \<Rightarrow> surv_proxy \<Rightarrow> surv_proxy" where
  "StopChannel x px = (case stream_at px x of
      None \<Rightarrow> px
    | Some e \<Rightarrow> (stopEntryLocked e px)\<lparr>px_streams := AList.delete x (px_streams px)\<rparr>)"

definition add_entry :: "string \<Rightarrow> stream_entry \<Rightarrow> surv_proxy \<Rightarrow> surv_proxy" where
  "add_entry x e px = px\<lparr>px_streams := AList.update x e (px_streams px), px_next := Suc (px_next px)\<rparr>"

datatype start_error = InvalidURL | BlockedHost string | RTSPError string

text \<open>The text of the returned Go error, as far as \<open>isRTSPNotFound\<close> looks at it.\<close>

fun start_error_text :: "start_error \<Rightarrow> string" where
  "start_error_text InvalidURL = ''invalid RTSP URL''"
| "start_error_text (BlockedHost h) = ''refusing to connect to blocked RTSP host '' @ h"
| "start_error_text (RTSPError t) = t"

definition hub_for :: "frag_muxer \<Rightarrow> ws_hub" where
  "hub_for m = lv_hub (new_live m)"

definition StartChannel ::
    "env \<Rightarrow> string \<Rightarrow> string \<Rightarrow> string \<Rightarrow> surv_proxy \<Rightarrow> surv_proxy \<times> start_error option" where
  "StartChannel ev x name rawURL px =
     (let px1 = StopChannel x px
      in case ev_rtsp_host ev rawURL of
           None \<Rightarrow> (px1, Some InvalidURL)
         | Some host \<Rightarrow>
             if isBlockedRTSPHost host then (px1, Some (BlockedHost host))
             else case ev_dial ev rawURL of
               Inl err \<Rightarrow> (px1, Some (RTSPError err))
             | Inr m \<Rightarrow>
                 (add_entry x \<lparr>en_uid = px_next px1, en_name = name, en_rtsp = rawURL, en_muxer = True,
                     en_hub = hub_for m, en_frag = Some m, en_encoder = []\<rparr> px1, None))"

definition transcodeWidth :: int where "transcodeWidth = 640"

definition transcodeArgs :: "string \<Rightarrow> string list" where
  "transcodeArgs srcHLSURL =
     [''-hide_banner'', ''-loglevel'', ''error'', ''-rw_timeout'', ''15000000'', ''-hwaccel'', ''cuda'',
      ''-i'', srcHLSURL, ''-an'', ''-vf'',
      ''scale='' @ itoa transcodeWidth @ '':-2,fps='' @ itoa transcodeFPS,
      ''-c:v'', ''h264_nvenc'', ''-preset'', ''p4'', ''-tune'', ''ll'',
      ''-b:v'', ''700k'', ''-maxrate'', ''1M'', ''-bufsize'', ''1M'',
      ''-g'', itoa (transcodeFPS * 2), ''-bf'', ''0'',
      ''-bsf:v'', ''h264_metadata=aud=insert'', ''-f'', ''h264'', ''pipe:1'']"

definition encoder_entry :: "string \<Rightarrow> string list \<Rightarrow> surv_proxy \<Rightarrow> stream_entry" where
  "encoder_entry name args px = \<lparr>en_uid = px_next px, en_name = name, en_rtsp = [], en_muxer = False,
     en_hub = newSurvWSHub, en_frag = None, en_encoder = args\<rparr>"

definition StartTranscodeChannel :: "string \<Rightarrow> string \<Rightarrow> string \<Rightarrow> surv_proxy \<Rightarrow> surv_proxy" where
  "StartTranscodeChannel x name srcHLSURL px =
     (let px1 = StopChannel x px
      in add_entry x (encoder_entry name (transcodeArgs srcHLSURL) px1) px1)"

definition StopAll :: "surv_proxy \<Rightarrow> surv_proxy" where
  "StopAll px = px\<lparr>px_streams := [], px_mosaics := [],
     px_cancelled := map (en_uid \<circ> snd) (px_streams px) @ map (ms_uid \<circ> snd) (px_mosaics px)
       @ px_cancelled px\<rparr>"

definition ListStreams :: "surv_proxy \<Rightarrow> (string \<times> string \<times> bool) list" where
  "ListStreams px = map (\<lambda>(x, e). (x, en_name e, True)) (px_streams px)"

record stream_stat =
  ss_id :: string
  ss_name :: string
  ss_active :: bool
  ss_codec :: string
  ss_ws_watchers :: nat

definition StreamStats :: "surv_proxy \<Rightarrow> stream_stat list" where
  "StreamStats px = map (\<lambda>(x, e). \<lparr>ss_id = x, ss_name = en_name e, ss_active = True,
     ss_codec = (case en_frag e of None \<Rightarrow> '''' | Some m \<Rightarrow> Codec m),
     ss_ws_watchers = ClientCount (en_hub e)\<rparr>) (px_streams px)"

text \<open>The answers of \<open>ServeHLS\<close> (after the CORS headers) and of \<open>ServeWS\<close> up to the upgrade.\<close>

datatype hls_answer = NoContent | BadPath | NoStream string | Reconnecting string | Delegate string string

definition ServeHLS :: "surv_proxy \<Rightarrow> string \<Rightarrow> string \<Rightarrow> hls_answer" where
  "ServeHLS px method path =
     (if method = ''OPTIONS'' then NoContent
      else case cut_at CHR ''/'' (trim_prefix path ''/surv/'') of
        None \<Rightarrow> BadPath
      | Some (chID, remainder) \<Rightarrow>
         (case stream_at px chID of
            None \<Rightarrow> NoStream chID
          | Some e \<Rightarrow> if \<not> en_muxer e then Reconnecting chID else Delegate chID (''/'' @ remainder)))"

datatype ws_answer = MissingChannel | NoActiveStream string | Joined nat

definition ServeWS :: "surv_proxy \<Rightarrow> string \<Rightarrow> surv_proxy \<times> ws_answer" where
  "ServeWS px path =
     (let chID = trim_prefix path ''/surv/ws/''
      in if chID = [] then (px, MissingChannel)
         else case stream_at px chID of
           None \<Rightarrow> (px, NoActiveStream chID)
         | Some e \<Rightarrow>
             (case add_client (en_hub e) of (h, i) \<Rightarrow>
                (px\<lparr>px_streams := AList.update chID (e\<lparr>en_hub := h\<rparr>) (px_streams px)\<rparr>, Joined i)))"

section \<open>Live walls\<close>

definition stopMosaicID :: "string \<Rightarrow> surv_proxy \<Rightarrow> surv_proxy" where
  "stopMosaicID wallID px =
     (let px1 = (case map_of (px_mosaics px) wallID of
            None \<Rightarrow> px
          | Some m \<Rightarrow> px\<lparr>px_cancelled := ms_uid m # px_cancelled px\<rparr>)
      in StopChannel wallID (px1\<lparr>px_mosaics := AList.delete wallID (px_mosaics px1)\<rparr>))"

definition wall_grid :: "wall_tables \<Rightarrow> string \<Rightarrow> nat \<Rightarrow> nat \<times> nat" where
  "wall_grid t key n =
     (let oc = getWallCols t key
      in if oc > 0 then ((n + nat oc - 1) div nat oc, nat oc) else mosaicLayout n)"

definition wall_width :: "env \<Rightarrow> wall_tables \<Rightarrow> string \<Rightarrow> int" where
  "wall_width ev t key = (let ow = getWallResW t key in if ow > 0 then ow else fst (wallDims (ev_wall_res ev)))"

definition wall_fps :: "env \<Rightarrow> wall_tables \<Rightarrow> string \<Rightarrow> int" where
  "wall_fps ev t key = (let of' = getWallFpsOv t key in if of' > 0 then of' else wallFPS (ev_wall_fps ev))"

definition wall_args :: "env \<Rightarrow> wall_tables \<Rightarrow> string \<Rightarrow> string \<Rightarrow> string list \<Rightarrow> string list" where
  "wall_args ev t agentID key chans =
     (case wall_grid t key (length chans) of (rows, cols) \<Rightarrow>
        let cellW = evenDown (wall_width ev t key div int cols);
            cellH = evenDown (cellW * 9 div 16)
        in mosaicArgs (map (\<lambda>x. relaySelfHLSBase ev @ ''/surv/'' @ streamPath agentID x @ ''/index.m3u8'') chans)
             rows cols cellW cellH (wall_fps ev t key))"

definition name_of :: "stream_stat list \<Rightarrow> string \<Rightarrow> string" where
  "name_of stats x = (case map_of (rev (map (\<lambda>s. (ss_id s, ss_name s)) stats)) x of None \<Rightarrow> [] | Some n \<Rightarrow> n)"

definition EnsureMosaic :: "env \<Rightarrow> wall_tables \<Rightarrow> string \<Rightarrow> string \<Rightarrow> surv_proxy \<Rightarrow> surv_proxy" where
  "EnsureMosaic ev t agentID wallID px =
     (if mosaicWallDVR wallID = -1 then px
      else
        let stats = StreamStats px;
            chans = wallChannelIDs t agentID wallID (map ss_id stats)
        in if length chans = 0 then stopMosaicID wallID px
           else if map_option ms_sig (map_of (px_mosaics px) wallID) = Some (mosaicSig chans) then px
           else
             let px1 = StopChannel wallID (case map_of (px_mosaics px) wallID of
                   None \<Rightarrow> px
                 | Some m \<Rightarrow> px\<lparr>px_cancelled := ms_uid m # px_cancelled px\<rparr>);
                 key = wallOrderKey agentID wallID;
                 (rows, cols) = wall_grid t key (length chans);
                 m = \<lparr>ms_sig = mosaicSig chans, ms_rows = rows, ms_cols = cols, ms_fps = wall_fps ev t key,
                      ms_cells = map (\<lambda>i. (i, chans ! i, name_of stats (chans ! i))) [0..<length chans],
                      ms_uid = px_next px1, ms_agent = agentID\<rparr>;
                 px2 = add_entry wallID (encoder_entry wallID (wall_args ev t agentID key chans) px1) px1
             in px2\<lparr>px_mosaics := AList.update wallID m (px_mosaics px2)\<rparr>)"

definition runningWalls :: "surv_proxy \<Rightarrow> string \<times> string list" where
  "runningWalls px = (if px_mosaics px = [] then [] else ms_agent (snd (last (px_mosaics px))), map fst (px_mosaics px))"

definition WallLayout ::
    "surv_proxy \<Rightarrow> string \<Rightarrow> (nat \<times> nat \<times> int \<times> (nat \<times> string \<times> string) list) option" where
  "WallLayout px wallID = (case map_of (px_mosaics px) wallID of
      None \<Rightarrow> None | Some m \<Rightarrow> Some (ms_rows m, ms_cols m, ms_fps m, ms_cells m))"

text \<open>One tick of the reaper of the entry numbered \<open>uid\<close>: go on with an idle mark, or end.\<close>

datatype reaper = Reap_Go "instant option" | Reap_End

definition reap_tick :: "string \<Rightarrow> nat \<Rightarrow> instant \<Rightarrow> instant option \<Rightarrow> surv_proxy \<Rightarrow> surv_proxy \<times> reaper" where
  "reap_tick wallID uid now idleSince px =
     (case stream_at px wallID of
        None \<Rightarrow> (px, Reap_End)
      | Some e \<Rightarrow>
          if en_uid e \<noteq> uid then (px, Reap_End)
          else if ClientCount (en_hub e) > 0 then (px, Reap_Go None)
          else case idleSince of
            None \<Rightarrow> (px, Reap_Go (Some now))
          | Some since \<Rightarrow>
              if now - since \<ge> 30 then (stopMosaicID wallID px, Reap_End)
              else (px, Reap_Go (Some since)))"

section \<open>Configurations\<close>

record pending =
  pd_streams :: "(string \<times> string \<times> string) list"
  pd_transcode :: "(string \<times> string \<times> string) list"
  pd_desired :: "string list"
  pd_proxy :: surv_proxy

definition rename_stream :: "string \<Rightarrow> string \<Rightarrow> surv_proxy \<Rightarrow> surv_proxy" where
  "rename_stream x name px = (case stream_at px x of
      None \<Rightarrow> px
    | Some e \<Rightarrow> px\<lparr>px_streams := AList.update x (e\<lparr>en_name := name\<rparr>) (px_streams px)\<rparr>)"

definition dvr_of :: "surv_config \<Rightarrow> int \<Rightarrow> dvr_info option" where
  "dvr_of cfg d = map_of (rev (map (\<lambda>v. (dv_id v, v)) (sc_dvrs cfg))) d"

definition plan_base :: "env \<Rightarrow> dvr_info \<Rightarrow> channel_info \<Rightarrow> string \<Rightarrow> pending \<Rightarrow> pending" where
  "plan_base ev dvr ch chID p =
     (if stream_at (pd_proxy p) chID = None then
        (if ch_record_hires ch \<and> transcodeEnabledFor ev chID dvr
         then p\<lparr>pd_transcode := pd_transcode p @ [(chID, ch_name ch, mainStreamID chID)]\<rparr>
         else p\<lparr>pd_streams := pd_streams p @ [(chID, ch_name ch, survRTSPURLForChannel ev dvr ch False)]\<rparr>)
      else p\<lparr>pd_proxy := rename_stream chID (ch_name ch) (pd_proxy p)\<rparr>)"

definition plan_main :: "env \<Rightarrow> dvr_info \<Rightarrow> channel_info \<Rightarrow> string \<Rightarrow> pending \<Rightarrow> pending" where
  "plan_main ev dvr ch chID p =
     (if \<not> ch_record_hires ch then p
      else let mid = mainStreamID chID;
               p1 = p\<lparr>pd_desired := pd_desired p @ [mid]\<rparr>
           in if stream_at (pd_proxy p1) mid = None
              then p1\<lparr>pd_streams := pd_streams p1 @ [(mid, ch_name ch, survRTSPURLForChannel ev dvr ch True)]\<rparr>
              else p1)"

definition plan_channel :: "env \<Rightarrow> surv_config \<Rightarrow> pending \<Rightarrow> channel_info \<Rightarrow> pending" where
  "plan_channel ev cfg p ch =
     (if \<not> ch_enabled ch then p
      else case dvr_of cfg (ch_dvr_id ch) of
        None \<Rightarrow> p
      | Some dvr \<Rightarrow>
          let chID = stream_id (ch_dvr_id ch) (ch_num ch)
          in plan_main ev dvr ch chID (plan_base ev dvr ch chID (p\<lparr>pd_desired := pd_desired p @ [chID]\<rparr>)))"

definition start_pending :: "env \<Rightarrow> surv_proxy \<Rightarrow> string \<times> string \<times> string \<Rightarrow> surv_proxy" where
  "start_pending ev px e = (case e of (x, name, url) \<Rightarrow> fst (StartChannel ev x name url px))"

definition start_transcode :: "env \<Rightarrow> surv_proxy \<Rightarrow> string \<times> string \<times> string \<Rightarrow> surv_proxy" where
  "start_transcode ev px e = (case e of (x, name, mid) \<Rightarrow>
     StartTranscodeChannel x name (relaySelfHLSBase ev @ ''/surv/'' @ mid @ ''/index.m3u8'') px)"

definition stop_unwanted :: "string list \<Rightarrow> surv_proxy \<Rightarrow> surv_proxy" where
  "stop_unwanted desired px =
     foldl (\<lambda>p x. StopChannel x p) px (filter (\<lambda>x. x \<notin> set desired) (map fst (px_streams px)))"

text \<open>Everything up to the last step, and the whole handler (an unparsable payload changes nothing).\<close>

definition reconcile :: "env \<Rightarrow> surv_config \<Rightarrow> surv_proxy \<Rightarrow> surv_proxy" where
  "reconcile ev cfg px =
     (let p = foldl (plan_channel ev cfg)
            \<lparr>pd_streams = [], pd_transcode = [], pd_desired = [], pd_proxy = px\<rparr> (sc_channels cfg);
          px1 = foldl (start_pending ev) (pd_proxy p) (pd_streams p);
          px2 = foldl (start_transcode ev) px1 (pd_transcode p)
      in stop_unwanted (pd_desired p) px2)"

definition ensure_walls :: "env \<Rightarrow> wall_tables \<Rightarrow> surv_proxy \<Rightarrow> surv_proxy" where
  "ensure_walls ev t px = (case runningWalls px of (agent, walls) \<Rightarrow>
     foldl (\<lambda>p w. EnsureMosaic ev t agent w p) px walls)"

definition HandleSurvConfig :: "env \<Rightarrow> wall_tables \<Rightarrow> surv_config option \<Rightarrow> surv_proxy \<Rightarrow> surv_proxy" where
  "HandleSurvConfig ev t cfg px = (case cfg of
      None \<Rightarrow> px | Some c \<Rightarrow> ensure_walls ev t (reconcile ev c px))"

section \<open>Supervision\<close>

definition reconnectMinDelay :: nat where "reconnectMinDelay = 2"
definition reconnectMaxDelay :: nat where "reconnectMaxDelay = 30"
definition reconnectMaxRetries :: nat where "reconnectMaxRetries = 10"

text \<open>\<open>monitorAndReconnect\<close> from the disconnection on. The result is the proxy and the delays (in
  seconds) it waited for; each round has its own environment (what the DVR answers may change).
  The stream map is not touched by others in the meantime.\<close>

fun reconnect ::
    "(nat \<Rightarrow> env) \<Rightarrow> nat \<Rightarrow> string \<Rightarrow> nat \<Rightarrow> string \<Rightarrow> string \<Rightarrow> nat \<Rightarrow> surv_proxy \<Rightarrow> surv_proxy \<times> nat list" where
  "reconnect evs 0 x uid name url delay px = (px, [])"
| "reconnect evs (Suc n) x uid name url delay px =
     (if uid \<in> set (px_cancelled px) then (px, [])
      else case StartChannel (evs n) x name url px of
        (px', None) \<Rightarrow> (px', [delay])
      | (px', Some err) \<Rightarrow>
          if isRTSPNotFound (start_error_text err) then (px', [delay])
          else (case reconnect evs n x uid name url (min (delay * 2) reconnectMaxDelay) px' of
                  (px'', ds) \<Rightarrow> (px'', delay # ds)))"

definition monitorAndReconnect :: "(nat \<Rightarrow> env) \<Rightarrow> string \<Rightarrow> stream_entry \<Rightarrow> surv_proxy \<Rightarrow> surv_proxy \<times> nat list" where
  "monitorAndReconnect evs x e px =
     (if en_uid e \<in> set (px_cancelled px) then (px, [])
      else reconnect evs reconnectMaxRetries x (en_uid e) (en_name e) (en_rtsp e) reconnectMinDelay px)"

text \<open>The waits of \<open>superviseEncode\<close>, given how long (in seconds) each ffmpeg run lasted.\<close>

fun encode_delays :: "nat \<Rightarrow> nat list \<Rightarrow> nat list" where
  "encode_delays backoff [] = []"
| "encode_delays backoff (d # runs) =
     (let b = (if d > 30 then 3 else backoff)
      in b # encode_delays (if b < 30 then b * 2 else b) runs)"

definition superviseEncode :: "nat list \<Rightarrow> nat list" where
  "superviseEncode runs = encode_delays 3 runs"

section \<open>Lemmas\<close>

text \<open>Which entry, by number, serves each id.\<close>

definition uid_at :: "surv_proxy \<Rightarrow> string \<Rightarrow> nat option" where
  "uid_at px x = map_option en_uid (stream_at px x)"

definition start_ok :: "env \<Rightarrow> string \<Rightarrow> bool" where
  "start_ok ev url = (case ev_rtsp_host ev url of None \<Rightarrow> False
     | Some h \<Rightarrow> \<not> isBlockedRTSPHost h \<and> (\<exists>m. ev_dial ev url = Inr m))"

lemma uid_at_None: "uid_at px x = None \<longleftrightarrow> stream_at px x = None"
  by (simp add: uid_at_def)

lemma stop_at [simp]: "stream_at (StopChannel x px) y = (if y = x then None else stream_at px y)"
  by (auto simp: StopChannel_def stream_at_def stopEntryLocked_def split: option.splits)

lemma add_entry_at [simp]: "stream_at (add_entry x e px) y = (if y = x then Some e else stream_at px y)"
  by (simp add: add_entry_def stream_at_def)

lemma rename_at [simp]: "uid_at (rename_stream x n px) y = uid_at px y"
  by (auto simp: rename_stream_def uid_at_def stream_at_def split: option.splits)

lemma start_other: "y \<noteq> x \<Longrightarrow> stream_at (fst (StartChannel ev x n url px)) y = stream_at px y"
  by (simp add: StartChannel_def Let_def split: option.splits sum.splits)

lemma start_self: "stream_at (fst (StartChannel ev x n url px)) x \<noteq> None \<longleftrightarrow> start_ok ev url"
  by (simp add: StartChannel_def Let_def start_ok_def split: option.splits sum.splits)

lemma start_err: "snd (StartChannel ev x n url px) = None \<longleftrightarrow> start_ok ev url"
  by (simp add: StartChannel_def Let_def start_ok_def split: option.splits sum.splits)

lemma start_pending_eq: "start_pending ev px (x, n, url) = fst (StartChannel ev x n url px)"
  by (simp add: start_pending_def)

lemma start_pendings_other:
  "y \<notin> fst ` set es \<Longrightarrow> stream_at (foldl (start_pending ev) px es) y = stream_at px y"
proof (induction es arbitrary: px)
  case (Cons e es)
  then show ?case by (cases e) (auto simp: start_pending_eq start_other)
qed simp

lemma start_pendings_self:
  assumes "\<forall>url. start_ok ev url" "y \<in> fst ` set es"
  shows "stream_at (foldl (start_pending ev) px es) y \<noteq> None"
  using assms(2)
proof (induction es rule: rev_induct)
  case (snoc e es)
  obtain x n url where e: "e = (x, n, url)" by (cases e)
  let ?p = "foldl (start_pending ev) px es"
  show ?case
  proof (cases "y = x")
    case True
    have "stream_at (fst (StartChannel ev x n url ?p)) x \<noteq> None"
      using start_self assms(1) by blast
    with True e show ?thesis by (simp add: start_pending_eq)
  next
    case False
    with snoc e show ?thesis by (simp add: start_pending_eq start_other)
  qed
qed simp

lemma start_transcodes:
  "stream_at (foldl (start_transcode ev) px es) y = None \<longleftrightarrow> stream_at px y = None \<and> y \<notin> fst ` set es"
  "y \<notin> fst ` set es \<Longrightarrow> stream_at (foldl (start_transcode ev) px es) y = stream_at px y"
proof -
  have s: "stream_at (start_transcode ev p e) y = None \<longleftrightarrow> y \<noteq> fst e \<and> stream_at p y = None" for p e
    by (cases e) (simp add: start_transcode_def StartTranscodeChannel_def Let_def)
  show "stream_at (foldl (start_transcode ev) px es) y = None \<longleftrightarrow> stream_at px y = None \<and> y \<notin> fst ` set es"
  proof (induction es arbitrary: px)
    case (Cons e es)
    then show ?case using s [of px e] by auto
  qed simp
  have t: "y \<noteq> fst e \<Longrightarrow> stream_at (start_transcode ev p e) y = stream_at p y" for p e
    by (cases e) (simp add: start_transcode_def StartTranscodeChannel_def Let_def)
  show "y \<notin> fst ` set es \<Longrightarrow> stream_at (foldl (start_transcode ev) px es) y = stream_at px y"
  proof (induction es arbitrary: px)
    case (Cons e es)
    then show ?case using t [of e px] by auto
  qed simp
qed

lemma stop_unwanted_at:
  "stream_at (stop_unwanted d px) y = (if y \<in> set d then stream_at px y else None)"
proof -
  have "stream_at (foldl (\<lambda>p x. StopChannel x p) p ks) y = (if y \<in> set ks then None else stream_at p y)" for p ks
    by (induction ks arbitrary: p) auto
  moreover have "y \<notin> fst ` set (px_streams px) \<Longrightarrow> stream_at px y = None"
    by (simp add: stream_at_def map_of_eq_None_iff)
  ultimately show ?thesis by (auto simp: stop_unwanted_def)
qed

section \<open>The plan of a configuration\<close>

definition config_ids :: "surv_config \<Rightarrow> string list" where
  "config_ids cfg = desiredStreamIDs (filter (\<lambda>ch. dvr_of cfg (ch_dvr_id ch) \<noteq> None) (sc_channels cfg))"

definition ids_of :: "surv_config \<Rightarrow> channel_info list \<Rightarrow> string list" where
  "ids_of cfg chs = desiredStreamIDs (filter (\<lambda>ch. dvr_of cfg (ch_dvr_id ch) \<noteq> None) chs)"

definition queued :: "pending \<Rightarrow> string set" where
  "queued p = fst ` set (pd_streams p) \<union> fst ` set (pd_transcode p)"

definition plan_inv :: "surv_proxy \<Rightarrow> pending \<Rightarrow> bool" where
  "plan_inv px p = ((\<forall>y. uid_at (pd_proxy p) y = uid_at px y)
     \<and> (\<forall>y\<in>queued p. uid_at px y = None)
     \<and> (\<forall>y\<in>set (pd_desired p). uid_at px y \<noteq> None \<or> y \<in> queued p))"

lemma plan_base_inv:
  assumes "plan_inv px p"
  shows "plan_inv px (plan_base ev dvr ch x (p\<lparr>pd_desired := pd_desired p @ [x]\<rparr>))
     \<and> pd_desired (plan_base ev dvr ch x (p\<lparr>pd_desired := pd_desired p @ [x]\<rparr>)) = pd_desired p @ [x]"
  using assms uid_at_None [of "pd_proxy p" x]
  by (cases "stream_at (pd_proxy p) x") (auto simp: plan_base_def plan_inv_def queued_def)

lemma plan_main_inv:
  assumes "plan_inv px p"
  shows "plan_inv px (plan_main ev dvr ch x p)
     \<and> pd_desired (plan_main ev dvr ch x p) = pd_desired p @ (if ch_record_hires ch then [mainStreamID x] else [])"
  using assms uid_at_None [of "pd_proxy p" "mainStreamID x"]
  by (cases "stream_at (pd_proxy p) (mainStreamID x)")
     (auto simp: plan_main_def plan_inv_def queued_def Let_def)

lemma plan_channel_inv:
  assumes "plan_inv px p"
  shows "plan_inv px (plan_channel ev cfg p ch)
     \<and> pd_desired (plan_channel ev cfg p ch) = pd_desired p @ ids_of cfg [ch]"
proof (cases "ch_enabled ch \<and> dvr_of cfg (ch_dvr_id ch) \<noteq> None")
  case True
  then obtain dvr where d: "dvr_of cfg (ch_dvr_id ch) = Some dvr" by auto
  let ?x = "stream_id (ch_dvr_id ch) (ch_num ch)"
  note b = plan_base_inv [OF assms, of ev dvr ch ?x]
  note m = plan_main_inv [OF conjunct1 [OF b], of ev dvr ch ?x]
  show ?thesis using True d b m
    by (simp add: plan_channel_def Let_def ids_of_def desiredStreamIDs_def)
next
  case False
  with assms show ?thesis
    by (auto simp: plan_channel_def ids_of_def desiredStreamIDs_def Let_def split: option.splits)
qed

lemma plan_inv_all:
  "plan_inv px p \<Longrightarrow> plan_inv px (foldl (plan_channel ev cfg) p chs)
     \<and> pd_desired (foldl (plan_channel ev cfg) p chs) = pd_desired p @ ids_of cfg chs"
proof (induction chs arbitrary: p)
  case Nil
  then show ?case by (simp add: ids_of_def desiredStreamIDs_def)
next
  case (Cons ch chs)
  note c = plan_channel_inv [OF Cons.prems, of ev cfg ch]
  have "ids_of cfg (ch # chs) = ids_of cfg [ch] @ ids_of cfg chs"
    by (simp add: ids_of_def desiredStreamIDs_def)
  with c Cons.IH [OF conjunct1 [OF c]] show ?case by simp
qed

lemma plan_desired:
  "pd_desired (foldl (plan_channel ev cfg) \<lparr>pd_streams = [], pd_transcode = [], pd_desired = [], pd_proxy = px\<rparr>
     (sc_channels cfg)) = config_ids cfg"
proof -
  have "plan_inv px \<lparr>pd_streams = [], pd_transcode = [], pd_desired = [], pd_proxy = px\<rparr>"
    by (simp add: plan_inv_def queued_def)
  from plan_inv_all [OF this, of ev cfg "sc_channels cfg"] show ?thesis
    by (simp add: config_ids_def ids_of_def)
qed

lemma reconcile_only: "x \<notin> set (config_ids cfg) \<Longrightarrow> stream_at (reconcile ev cfg px) x = None"
  by (simp add: reconcile_def Let_def plan_desired stop_unwanted_at)

section \<open>Properties\<close>


definition toy_env :: env where
  "toy_env = \<lparr>ev_dial = (\<lambda>_. Inr (newFragMuxerH264 toy_media None None)), ev_rtsp_host = (\<lambda>_. Some ''dvr''),
     ev_url = \<lparr>ul_host = (\<lambda>_. None), ul_hostname = (\<lambda>_. []), ul_has_user = (\<lambda>_. False), ul_strip_user = (\<lambda>u. u)\<rparr>,
     ev_url_print = (\<lambda>u. u), ev_url_with_user = (\<lambda>u _ _. u), ev_url_build = (\<lambda>_ _ h p. h @ p),
     ev_transcode_dvr = [], ev_wall_res = [], ev_wall_fps = [], ev_relay_port = []\<rparr>"

definition toy_channel :: channel_info where
  "toy_channel = \<lparr>ch_id = 1, ch_dvr_id = 1, ch_num = 2, ch_name = ''gate'', ch_order = 0, ch_enabled = True,
     ch_width = 0, ch_height = 0, ch_rtsp_uri = [], ch_record_hires = True\<rparr>"

definition toy_config :: surv_config where
  "toy_config = \<lparr>sc_dvrs = [\<lparr>dv_id = 1, dv_name = [], dv_addr = ''10.0.0.5'', dv_port = 80, dv_ext_addr = [],
     dv_ext_port = 0, dv_rtsp_port = 0, dv_username = [], dv_password = [], dv_refresh_rate = 0,
     dv_stream_quality = [], dv_protocol = ''dahua''\<rparr>], sc_channels = [toy_channel], sc_agent_id = []\<rparr>"

lemma toy_env_ok: "start_ok toy_env url"
proof -
  have "\<not> isBlockedRTSPHost ''dvr''" by code_simp
  then show ?thesis by (simp add: start_ok_def toy_env_def)
qed


lemma mosaics_kept [simp]:
  "px_mosaics (StopChannel x px) = px_mosaics px"
  "px_mosaics (fst (StartChannel ev x n url px)) = px_mosaics px"
  "px_mosaics (StartTranscodeChannel x n src px) = px_mosaics px"
  "px_mosaics (rename_stream x n px) = px_mosaics px"
  by (auto simp: StopChannel_def StartChannel_def StartTranscodeChannel_def rename_stream_def
      add_entry_def stopEntryLocked_def Let_def split: option.splits sum.splits)

lemma reconcile_mosaics: "px_mosaics (reconcile ev cfg px) = px_mosaics px"
proof -
  have c: "px_mosaics (pd_proxy (plan_channel ev cfg p ch)) = px_mosaics (pd_proxy p)" for p ch
    by (auto simp: plan_channel_def plan_base_def plan_main_def Let_def split: option.splits)
  have c': "px_mosaics (pd_proxy (foldl (plan_channel ev cfg) p chs)) = px_mosaics (pd_proxy p)" for p chs
    by (induction chs arbitrary: p) (simp_all add: c)
  have s: "px_mosaics (foldl (start_pending ev) p es) = px_mosaics p" for p es
    by (induction es arbitrary: p) (auto simp: start_pending_eq)
  have t: "px_mosaics (foldl (start_transcode ev) p es) = px_mosaics p" for p es
    by (induction es arbitrary: p) (auto simp: start_transcode_def)
  have u: "px_mosaics (foldl (\<lambda>p x. StopChannel x p) p ks) = px_mosaics p" for p ks
    by (induction ks arbitrary: p) auto
  show ?thesis by (simp add: reconcile_def Let_def stop_unwanted_def c' s t u)
qed

text \<open>A configuration takes a running wall off the air for good: the wall's stream is not among
  the streams asked for, so it is stopped, but the record of the wall stays with the signature of
  the unchanged channel set, so this and every later \<open>EnsureMosaic\<close> takes the wall to be running
  and does nothing.\<close>

lemma config_kills_running_wall:
  assumes "px_mosaics px = [(w, m)]" "w \<notin> set (config_ids cfg)"
    and "chans = wallChannelIDs t (ms_agent m) w (map ss_id (StreamStats (reconcile ev cfg px)))"
    and "chans \<noteq> []" "ms_sig m = mosaicSig chans"
  shows "stream_at (HandleSurvConfig ev t (Some cfg) px) w = None
     \<and> map_of (px_mosaics (HandleSurvConfig ev t (Some cfg) px)) w = Some m
     \<and> EnsureMosaic ev t (ms_agent m) w (HandleSurvConfig ev t (Some cfg) px)
         = HandleSurvConfig ev t (Some cfg) px"
proof -
  let ?q = "reconcile ev cfg px"
  have m: "px_mosaics ?q = [(w, m)]" by (simp add: reconcile_mosaics assms(1))
  have e: "EnsureMosaic ev t (ms_agent m) w ?q = ?q"
    using assms(4,5) m assms(3) [symmetric] by (simp add: EnsureMosaic_def Let_def)
  then have h: "HandleSurvConfig ev t (Some cfg) px = ?q"
    using m by (simp add: HandleSurvConfig_def ensure_walls_def runningWalls_def)
  have "stream_at ?q w = None"
    using assms(2) by (rule reconcile_only)
  with h e m show ?thesis by simp
qed

definition toy_mosaic :: mosaic_state where
  "toy_mosaic = \<lparr>ms_sig = ''dvr1_ch2'', ms_rows = 1, ms_cols = 1, ms_fps = 15,
     ms_cells = [(0, ''dvr1_ch2'', ''gate'')], ms_uid = 2, ms_agent = ''default''\<rparr>"

definition toy_wall :: surv_proxy where
  "toy_wall = (let e = encoder_entry [] [] NewSurvProxy
     in \<lparr>px_streams = [(''dvr1_ch2'', e), (''dvr1_ch2@main'', e\<lparr>en_uid := 1\<rparr>), (''wall'', e\<lparr>en_uid := 2\<rparr>)],
         px_mosaics = [(''wall'', toy_mosaic)], px_next = 3, px_cancelled = []\<rparr>)"

text \<open>C11. One failure ends the reconnection: \<open>StartChannel\<close> stops the old entry (cancelling the very
  context the monitor runs under) before it dials, so when the first attempt fails the monitor
  returns at its next round. However well the DVR answers later, the ten retries are never made
  and the stream stays gone.\<close>

theorem reconnect_ends_after_one_failure:
  assumes "stream_at px x = Some e" "en_uid e \<notin> set (px_cancelled px)" "\<not> start_ok (evs 9) (en_rtsp e)"
  shows "snd (monitorAndReconnect evs x e px) = [2]
     \<and> stream_at (fst (monitorAndReconnect evs x e px)) x = None"
proof -
  obtain px' err where st: "StartChannel (evs 9) x (en_name e) (en_rtsp e) px = (px', Some err)"
    using start_err [of "evs 9" x "en_name e" "en_rtsp e" px] assms(3)
    by (cases "StartChannel (evs 9) x (en_name e) (en_rtsp e) px") auto
  have gone: "stream_at px' x = None"
    using start_self [of "evs 9" x "en_name e" "en_rtsp e" px] assms(3) st by auto
  have "px' = StopChannel x px"
    using st by (auto simp: StartChannel_def Let_def split: option.splits if_splits sum.splits)
  then have c: "en_uid e \<in> set (px_cancelled px')"
    using assms(1) by (simp add: StopChannel_def stopEntryLocked_def)
  have again: "reconnect evs n x (en_uid e) nm url d px' = (px', [])" for n nm url d
    using c by (cases n) simp_all
  have "reconnect evs (Suc 9) x (en_uid e) (en_name e) (en_rtsp e) 2 px = (px', [2])"
    using assms(2) again by (subst reconnect.simps(2)) (simp only: st, simp)
  then show ?thesis
    using assms(2) gone by (simp add: monitorAndReconnect_def reconnectMaxRetries_def reconnectMinDelay_def)
qed

definition dead_env :: env where
  "dead_env = toy_env\<lparr>ev_rtsp_host := (\<lambda>_. None)\<rparr>"

theorem reconnect_ends_after_one_failure_witness:
  "let px = fst (StartChannel toy_env ''c'' ''n'' ''u'' NewSurvProxy); e = the (stream_at px ''c'')
   in snd (monitorAndReconnect (\<lambda>n. if n = 9 then dead_env else toy_env) ''c'' e px) = [2]"
proof -
  let ?px = "fst (StartChannel toy_env ''c'' ''n'' ''u'' NewSurvProxy)"
  have "stream_at ?px ''c'' = Some (the (stream_at ?px ''c''))" by code_simp
  moreover have "en_uid (the (stream_at ?px ''c'')) \<notin> set (px_cancelled ?px)" by code_simp
  ultimately show ?thesis
    using reconnect_ends_after_one_failure [of ?px "''c''" "the (stream_at ?px ''c'')"
        "\<lambda>n. if n = 9 then dead_env else toy_env"]
    by (simp add: Let_def start_ok_def dead_env_def)
qed

text \<open>The reaper over a sequence of ticks, each with the state it finds: its idle mark while it lives.\<close>

fun reap_run :: "string \<Rightarrow> nat \<Rightarrow> instant option \<Rightarrow> (instant \<times> surv_proxy) list \<Rightarrow> instant option option" where
  "reap_run w uid idle [] = Some idle"
| "reap_run w uid idle ((now, px) # obs) =
     (case snd (reap_tick w uid now idle px) of
        Reap_End \<Rightarrow> None
      | Reap_Go idle' \<Rightarrow> reap_run w uid idle' obs)"

definition unwatched :: "string \<Rightarrow> nat \<Rightarrow> instant \<times> surv_proxy \<Rightarrow> bool" where
  "unwatched w uid ob = (\<exists>e. stream_at (snd ob) w = Some e \<and> en_uid e = uid \<and> ClientCount (en_hub e) = 0)"

lemma reap_run_append:
  "reap_run w uid idle (obs @ obs') =
     (case reap_run w uid idle obs of None \<Rightarrow> None | Some i \<Rightarrow> reap_run w uid i obs')"
  by (induction w uid idle obs rule: reap_run.induct) (auto split: reaper.splits)

lemma reap_run_idle:
  "reap_run w uid None obs = Some (Some t0) \<Longrightarrow>
     \<exists>pre q post. obs = pre @ (t0, q) # post \<and> list_all (unwatched w uid) ((t0, q) # post)"
proof (induction obs arbitrary: t0 rule: rev_induct)
  case Nil
  then show ?case by simp
next
  case (snoc ob obs)
  obtain now px where ob: "ob = (now, px)" by (cases ob)
  obtain i where i: "reap_run w uid None obs = Some i"
    and s: "snd (reap_tick w uid now i px) = Reap_Go (Some t0)"
    using snoc.prems ob by (auto simp: reap_run_append split: option.splits reaper.splits)
  then have u: "unwatched w uid ob" and t0: "i = None \<and> t0 = now \<or> i = Some t0"
    by (auto simp: reap_tick_def unwatched_def ob split: option.splits if_splits)
  show ?case
  proof (cases i)
    case None
    with t0 u ob show ?thesis by (intro exI [of _ obs] exI [of _ px] exI [of _ "[]"]) simp
  next
    case (Some t1)
    with t0 have "i = Some t0" by simp
    with snoc.IH i obtain pre q post where
      "obs = pre @ (t0, q) # post" "list_all (unwatched w uid) ((t0, q) # post)" by blast
    with u show ?thesis by (intro exI [of _ pre] exI [of _ q] exI [of _ "post @ [ob]"]) simp
  qed
qed

text \<open>A wall is reaped only when nobody watches: if a tick at \<open>now\<close> stops the wall, some earlier
  tick lies at least 30 seconds back and at that tick and every later one, this one included, the
  same wall was running without a single watcher.\<close>

lemma wall_reaped_only_when_idle:
  assumes "reap_run w uid None obs = Some idle"
    and "reap_tick w uid now idle px = (px', Reap_End)" "uid_at px w = Some uid"
  shows "\<exists>pre t0 q post. obs = pre @ (t0, q) # post \<and> now - t0 \<ge> 30
     \<and> list_all (unwatched w uid) ((t0, q) # post @ [(now, px)])"
proof -
  obtain e t0 where e: "stream_at px w = Some e" "en_uid e = uid" "ClientCount (en_hub e) = 0"
    and t0: "idle = Some t0" "now - t0 \<ge> 30"
    using assms(2,3) by (auto simp: reap_tick_def uid_at_def split: option.splits if_splits)
  from reap_run_idle [OF assms(1) [unfolded t0(1)]] obtain pre q post where
    "obs = pre @ (t0, q) # post" "list_all (unwatched w uid) ((t0, q) # post)" by blast
  moreover have "unwatched w uid (now, px)" using e by (simp add: unwatched_def)
  ultimately show ?thesis using t0(2) by (intro exI [of _ pre] exI [of _ t0] exI [of _ q] exI [of _ post]) simp
qed

end
