(* ===== verification/Live_Grid.thy ===== *)
theory Live_Grid
  imports Surv_Proxy
begin

text \<open>
  \<^verbatim>\<open>relay/live_grid_ws.go\<close>: one WebSocket connection that carries up to sixteen live streams of an
  agent to the dashboard's grid. The handler's two goroutines are one step relation: the reader puts
  checked controls into a channel of sixteen, the writer runs the loop of the source with its position
  in the code as a component of the state, and a step of its own for every packet, so that the
  encoders, the other watchers and the proxy can act between any two of them. Go's iteration over a map
  and \<open>reflect.Select\<close> are arbitrary choices. A stream entry has a number, its place in
  \<open>lg_lives\<close>, as Go compares pointers. \<open>sent\<close> and \<open>acknowledged\<close> are \<open>uint64\<close> in
  Go and natural numbers here: a connection does not carry \<open>2 ^ 64\<close> bytes. \<open>lg_log\<close> and
  \<open>lg_joined\<close> are not part of the program; the properties speak about them.
\<close>

definition liveGridMaxSubscriptions :: nat where "liveGridMaxSubscriptions = 16"
definition liveGridMaxInflight :: nat where "liveGridMaxInflight = 256 * 2 ^ 10"

record live_grid_control =
  lc_op :: string
  lc_slot :: "16 word"
  lc_stream :: string
  lc_received :: nat

record grid_sub =
  gs_hub :: nat
  gs_client :: nat
  gs_startup :: nat

datatype grid_pc = Top | Pass nat "16 word list" bool | Selecting | Ended

datatype grid_event = Opened "16 word" | Wrote "16 word" bytes

record grid =
  lg_flow :: bool
  lg_controls :: "live_grid_control list"
  lg_subs :: "(16 word \<times> grid_sub) list"
  lg_sent :: nat
  lg_acked :: nat
  lg_pc :: grid_pc
  lg_lives :: "live list"
  lg_streams :: "(string \<times> nat) list"
  lg_log :: "grid_event list"
  lg_joined :: "(nat \<times> nat) list"

section \<open>The reader\<close>

definition reader_accepts :: "bool \<Rightarrow> live_grid_control \<Rightarrow> bool" where
  "reader_accepts flow c =
     (if lc_op c = ''ack'' then flow \<and> lc_slot c = 0
      else lc_slot c \<noteq> 0 \<and> lc_op c \<in> {''sub'', ''unsub''}
        \<and> (lc_op c = ''sub'' \<longrightarrow> (case dvrChOf (lc_stream c) of None \<Rightarrow> False | Some (dvr, ch) \<Rightarrow> dvr > 0 \<and> ch > 0)))"

section \<open>The writer\<close>

definition on_live :: "nat \<Rightarrow> (live \<Rightarrow> live) \<Rightarrow> grid \<Rightarrow> grid" where
  "on_live u f g = g\<lparr>lg_lives := (lg_lives g)[u := f (lg_lives g ! u)]\<rparr>"

definition on_hub :: "nat \<Rightarrow> (ws_hub \<Rightarrow> ws_hub) \<Rightarrow> grid \<Rightarrow> grid" where
  "on_hub u f = on_live u (\<lambda>l. l\<lparr>lv_hub := f (lv_hub l)\<rparr>)"

definition grid_remove :: "16 word \<Rightarrow> grid \<Rightarrow> grid" where
  "grid_remove slot g =
     (case map_of (lg_subs g) slot of
        None \<Rightarrow> g
      | Some sub \<Rightarrow> (on_hub (gs_hub sub) (\<lambda>h. remove_client h (gs_client sub)) g)
                      \<lparr>lg_subs := AList.delete slot (lg_subs g)\<rparr>)"

definition grid_join :: "16 word \<Rightarrow> nat \<Rightarrow> grid \<Rightarrow> grid" where
  "grid_join slot u g =
     (let i = snd (add_client (lv_hub (lg_lives g ! u)))
      in (on_hub u (\<lambda>h. fst (add_client h)) g)
           \<lparr>lg_subs := AList.update slot \<lparr>gs_hub = u, gs_client = i, gs_startup = 2\<rparr> (lg_subs g),
             lg_log := lg_log g @ [Opened slot], lg_joined := (u, i) # lg_joined g\<rparr>)"

definition grid_apply :: "live_grid_control \<Rightarrow> grid \<Rightarrow> grid" where
  "grid_apply c g =
     (if lc_op c = ''ack'' then
        (if lc_received c > lg_acked g \<and> lc_received c \<le> lg_sent g then g\<lparr>lg_acked := lc_received c\<rparr> else g)
      else if lc_op c = ''unsub'' then grid_remove (lc_slot c) g
      else if map_of (lg_subs g) (lc_slot c) = None \<and> length (lg_subs g) \<ge> liveGridMaxSubscriptions then g
      else let g1 = grid_remove (lc_slot c) g
           in case map_of (lg_streams g1) (lc_stream c) of
                None \<Rightarrow> g1
              | Some u \<Rightarrow> grid_join (lc_slot c) u g1)"

definition canSend :: "grid \<Rightarrow> bool" where
  "canSend g = (\<not> lg_flow g \<or> lg_sent g - lg_acked g < liveGridMaxInflight)"

text \<open>The slot in big-endian order in front of the fragment.\<close>

definition grid_packet :: "16 word \<Rightarrow> bytes \<Rightarrow> bytes" where
  "grid_packet slot fragment = rev (put_u16 slot) @ fragment"

definition grid_write :: "16 word \<Rightarrow> bytes \<Rightarrow> grid \<Rightarrow> grid" where
  "grid_write slot fragment g =
     g\<lparr>lg_sent := lg_sent g + length (grid_packet slot fragment), lg_log := lg_log g @ [Wrote slot fragment]\<rparr>"

text \<open>What a receive from the client's channel finds.\<close>

datatype chan_poll = Closed_Chan | Empty_Chan | Item bytes

definition poll :: "grid \<Rightarrow> grid_sub \<Rightarrow> chan_poll" where
  "poll g sub = (case map_of (wh_clients (lv_hub (lg_lives g ! gs_hub sub))) (gs_client sub) of
      None \<Rightarrow> Closed_Chan
    | Some c \<Rightarrow> (case wc_queue c of [] \<Rightarrow> Empty_Chan | x # q \<Rightarrow> Item x))"

definition grid_take :: "16 word \<Rightarrow> grid_sub \<Rightarrow> grid \<Rightarrow> grid" where
  "grid_take slot sub g =
     (case poll g sub of
        Closed_Chan \<Rightarrow> grid_remove slot g
      | Empty_Chan \<Rightarrow> g
      | Item x \<Rightarrow> grid_write slot x ((on_hub (gs_hub sub) (\<lambda>h. receive h (gs_client sub)) g)
           \<lparr>lg_subs := AList.update slot (sub\<lparr>gs_startup := gs_startup sub - 1\<rparr>) (lg_subs g)\<rparr>))"

text \<open>One subscription of a startup pass, and whether it counts as prioritized.\<close>

definition pass_one :: "nat \<Rightarrow> 16 word \<Rightarrow> grid \<Rightarrow> grid \<times> bool" where
  "pass_one phase slot g =
     (case map_of (lg_subs g) slot of
        None \<Rightarrow> (g, False)
      | Some sub \<Rightarrow>
          if gs_startup sub \<noteq> phase \<or> \<not> canSend g then (g, False)
          else (grid_take slot sub g, case poll g sub of Item x \<Rightarrow> True | _ \<Rightarrow> False))"

definition grid_cleanup :: "grid \<Rightarrow> grid" where
  "grid_cleanup g = (foldl (\<lambda>x slot. grid_remove slot x) g (map fst (lg_subs g)))\<lparr>lg_pc := Ended\<rparr>"

definition map_order :: "grid \<Rightarrow> 16 word list \<Rightarrow> bool" where
  "map_order g order = (distinct order \<and> set order = fst ` set (lg_subs g))"

text \<open>An operation of the stream, or of another watcher of it.\<close>

definition foreign :: "grid \<Rightarrow> nat \<Rightarrow> live_op \<Rightarrow> bool" where
  "foreign g u x = (case x of
      Leave i \<Rightarrow> (u, i) \<notin> set (lg_joined g) | Receive i \<Rightarrow> (u, i) \<notin> set (lg_joined g) | _ \<Rightarrow> True)"

inductive grid_step :: "media \<Rightarrow> grid \<Rightarrow> grid \<Rightarrow> bool" for md where
  read: "reader_accepts (lg_flow g) c \<Longrightarrow> length (lg_controls g) < liveGridMaxSubscriptions \<Longrightarrow> lg_pc g \<noteq> Ended
     \<Longrightarrow> grid_step md g (g\<lparr>lg_controls := lg_controls g @ [c]\<rparr>)"
| control: "lg_pc g \<in> {Top, Selecting} \<Longrightarrow> lg_controls g = c # cs
     \<Longrightarrow> grid_step md g ((grid_apply c g)\<lparr>lg_controls := cs, lg_pc := Top\<rparr>)"
| startup: "lg_pc g = Top \<Longrightarrow> lg_controls g = [] \<Longrightarrow> map_order g order
     \<Longrightarrow> grid_step md g (g\<lparr>lg_pc := Pass 2 order False\<rparr>)"
| visit: "lg_pc g = Pass p (slot # rest) hit
     \<Longrightarrow> grid_step md g ((fst (pass_one p slot g))\<lparr>lg_pc := Pass p rest (hit \<or> snd (pass_one p slot g))\<rparr>)"
| prioritized: "lg_pc g = Pass p [] True \<Longrightarrow> grid_step md g (g\<lparr>lg_pc := Top\<rparr>)"
| keyframes: "lg_pc g = Pass 2 [] False \<Longrightarrow> map_order g order \<Longrightarrow> grid_step md g (g\<lparr>lg_pc := Pass 1 order False\<rparr>)"
| idle: "lg_pc g = Pass 1 [] False \<Longrightarrow> grid_step md g (g\<lparr>lg_pc := Selecting\<rparr>)"
| media: "lg_pc g = Selecting \<Longrightarrow> map_of (lg_subs g) slot = Some sub \<Longrightarrow> canSend g \<Longrightarrow> poll g sub \<noteq> Empty_Chan
     \<Longrightarrow> grid_step md g ((grid_take slot sub g)\<lparr>lg_pc := Top\<rparr>)"
| ping: "lg_pc g = Selecting \<Longrightarrow> grid_step md g (g\<lparr>lg_pc := Top\<rparr>)"
| leave: "lg_pc g \<noteq> Ended \<Longrightarrow> lg_pc g \<noteq> Top \<Longrightarrow> grid_step md g (grid_cleanup g)"
| stream: "u < length (lg_lives g) \<Longrightarrow> foreign g u x \<Longrightarrow> grid_step md g (on_live u (\<lambda>l. live_step md l x) g)"
| started: "grid_step md g (g\<lparr>lg_lives := lg_lives g @ [new_live m],
     lg_streams := AList.update name (length (lg_lives g)) (lg_streams g)\<rparr>)"
| stopped: "grid_step md g (g\<lparr>lg_streams := AList.delete name (lg_streams g)\<rparr>)"

definition grid_start :: "bool \<Rightarrow> live list \<Rightarrow> (string \<times> nat) list \<Rightarrow> grid" where
  "grid_start flow ls names = \<lparr>lg_flow = flow, lg_controls = [], lg_subs = [], lg_sent = 0, lg_acked = 0,
     lg_pc = Top, lg_lives = ls, lg_streams = names, lg_log = [], lg_joined = []\<rparr>"

inductive grid_reachable :: "media \<Rightarrow> grid \<Rightarrow> bool" for md where
  start: "\<forall>l\<in>set ls. \<exists>m xs. l = live_run md m xs \<Longrightarrow> \<forall>(name, u)\<in>set names. u < length ls
     \<Longrightarrow> grid_reachable md (grid_start flow ls names)"
| step: "grid_reachable md g \<Longrightarrow> grid_step md g g' \<Longrightarrow> grid_reachable md g'"

text \<open>The answers of the handler before the upgrade.\<close>

datatype grid_answer = Grid_Unauthorized | Grid_No_Agent | Grid_Upgraded

definition HandleDashboardLiveGridWS :: "bool \<Rightarrow> (string \<Rightarrow> bool) \<Rightarrow> string \<Rightarrow> grid_answer" where
  "HandleDashboardLiveGridWS authed has_proxy agent =
     (if \<not> authed then Grid_Unauthorized else if \<not> has_proxy agent then Grid_No_Agent else Grid_Upgraded)"

section \<open>What the browser got\<close>

fun since_open_step :: "16 word \<Rightarrow> bytes list \<Rightarrow> grid_event \<Rightarrow> bytes list" where
  "since_open_step slot acc (Opened s) = (if s = slot then [] else acc)"
| "since_open_step slot acc (Wrote s f) = (if s = slot then acc @ [f] else acc)"

definition since_open :: "16 word \<Rightarrow> grid_event list \<Rightarrow> bytes list" where
  "since_open slot log = foldl (since_open_step slot) [] log"

fun event_bytes :: "grid_event \<Rightarrow> nat" where
  "event_bytes (Opened s) = 0"
| "event_bytes (Wrote s f) = length (grid_packet s f)"

text \<open>The size of the last packet.\<close>

definition last_packet :: "grid_event list \<Rightarrow> nat" where
  "last_packet log = foldl (\<lambda>n e. case e of Opened s \<Rightarrow> n | Wrote s f \<Rightarrow> event_bytes e) 0 log"

text \<open>What a client of a stream has taken from its channel.\<close>

definition given :: "live \<Rightarrow> nat \<Rightarrow> bytes list option" where
  "given l i = map_option wc_received (map_of (wh_clients (lv_hub l)) i)"

section \<open>Lemmas: the streams' hubs\<close>

lemma given_add: "given (l\<lparr>lv_hub := fst (add_client (lv_hub l))\<rparr>) i = (if i = wh_next (lv_hub l) then Some [] else given l i)"
  by (auto simp: given_def add_client_def fresh_client_def split: option.split)

lemma given_remove: "given (l\<lparr>lv_hub := remove_client (lv_hub l) j\<rparr>) i = (if i = j then None else given l i)"
  by (simp add: given_def remove_client_def delete_conv')

lemma map_of_map_pair: "map_of (map (\<lambda>(i, c). (i, f i c)) cs) i = map_option (f i) (map_of cs i)"
  by (induction cs) auto

lemma given_receive:
  "map_of (wh_clients (lv_hub l)) j = Some c \<Longrightarrow> wc_queue c = x # q
     \<Longrightarrow> given (l\<lparr>lv_hub := receive (lv_hub l) j\<rparr>) i = (if i = j then Some (wc_received c @ [x]) else given l i)"
  by (cases "i = j"; cases "map_of (wh_clients (lv_hub l)) i")
     (simp_all add: given_def receive_def map_of_map_pair pop_queue_def)

lemma given_receive_other: "i \<noteq> j \<Longrightarrow> given (l\<lparr>lv_hub := receive (lv_hub l) j\<rparr>) i = given l i"
  by (cases "map_of (wh_clients (lv_hub l)) i") (simp_all add: given_def receive_def map_of_map_pair)

lemma send_client_received [simp]: "wc_received (send_client ini f k c) = wc_received c"
  by (simp add: send_client_def try_send_def split: option.split)

lemma given_emit_au [simp]: "given (emit_au md pts l au) i = given l i"
  by (simp add: emit_au_def given_def broadcast_def setInit_def map_of_map_pair option.map_comp comp_def Let_def
      split: prod.split option.split)

lemma next_emit_au [simp]: "wh_next (lv_hub (emit_au md pts l au)) = wh_next (lv_hub l)"
  by (simp add: emit_au_def broadcast_def setInit_def Let_def split: prod.split option.split)

lemma given_emit [simp]: "given (emit md l au) i = given l i"
  by (simp add: emit_def) (simp add: given_def [of "lv_pts_update f x" for f x] given_def [symmetric])

lemma next_emit [simp]: "wh_next (lv_hub (emit md l au)) = wh_next (lv_hub l)"
  by (simp add: emit_def)

text \<open>What others do to a stream: it changes nothing for a client they do not touch.\<close>

lemma live_step_next: "wh_next (lv_hub l) \<le> wh_next (lv_hub (live_step md l x))"
  by (cases x) (simp_all add: add_client_def remove_client_def receive_def)

lemma live_step_given:
  "i < wh_next (lv_hub l) \<Longrightarrow> x \<noteq> Leave i \<Longrightarrow> x \<noteq> Receive i \<Longrightarrow> given (live_step md l x) i = given l i"
  by (cases x) (simp_all add: given_add given_remove given_receive_other)

section \<open>Lemmas: the subscriptions\<close>

definition owned :: "grid \<Rightarrow> nat \<Rightarrow> nat \<Rightarrow> 16 word \<Rightarrow> bool" where
  "owned g u i slot = (\<exists>sub. map_of (lg_subs g) slot = Some sub \<and> gs_hub sub = u \<and> gs_client sub = i)"

definition sub_ok :: "grid \<Rightarrow> 16 word \<Rightarrow> grid_sub \<Rightarrow> bool" where
  "sub_ok g slot sub = (slot \<noteq> 0 \<and> (gs_hub sub, gs_client sub) \<in> set (lg_joined g)
     \<and> given (lg_lives g ! gs_hub sub) (gs_client sub) = Some (since_open slot (lg_log g))
     \<and> gs_startup sub = 2 - length (since_open slot (lg_log g)))"

definition subs_ok :: "grid \<Rightarrow> bool" where
  "subs_ok g = (distinct (map fst (lg_subs g)) \<and> length (lg_subs g) \<le> liveGridMaxSubscriptions
     \<and> (\<forall>slot sub. map_of (lg_subs g) slot = Some sub \<longrightarrow> sub_ok g slot sub)
     \<and> (\<forall>(u, i)\<in>set (lg_joined g). u < length (lg_lives g) \<and> i < wh_next (lv_hub (lg_lives g ! u))
          \<and> (given (lg_lives g ! u) i \<noteq> None \<longrightarrow> (\<exists>slot. owned g u i slot)))
     \<and> (\<forall>u i s1 s2. owned g u i s1 \<longrightarrow> owned g u i s2 \<longrightarrow> s1 = s2))"

definition lives_ok :: "grid \<Rightarrow> bool" where
  "lives_ok g = ((\<forall>l\<in>set (lg_lives g). live_inv l) \<and> (\<forall>(name, u)\<in>set (lg_streams g). u < length (lg_lives g)))"

lemma since_open_snoc: "since_open slot (log @ [e]) = since_open_step slot (since_open slot log) e"
  by (simp add: since_open_def)

lemma length_distinct: "distinct (map fst al) \<Longrightarrow> length al = card (dom (map_of al))"
  by (metis dom_map_of_conv_image_fst distinct_card length_map set_map)

lemma length_update_old:
  assumes "distinct (map fst al)" "map_of al k \<noteq> None"
  shows "length (AList.update k v al) = length al"
proof -
  have "dom (map_of (AList.update k v al)) = dom (map_of al)" using assms(2) by (auto simp: update_conv')
  with length_distinct [OF assms(1)] length_distinct [OF distinct_update [OF assms(1)]] show ?thesis by simp
qed

lemma length_update_new:
  assumes "distinct (map fst al)" "map_of al k = None"
  shows "length (AList.update k v al) = Suc (length al)"
proof -
  have "dom (map_of (AList.update k v al)) = insert k (dom (map_of al))" by (auto simp: update_conv')
  moreover have "k \<notin> dom (map_of al)" "finite (dom (map_of al))" using assms(2) by (auto simp: finite_dom_map_of)
  ultimately show ?thesis
    using length_distinct [OF assms(1)] length_distinct [OF distinct_update [OF assms(1)], of k v] by simp
qed

lemma nth_on_live: "lg_lives (on_live u f g) ! v = (if v = u \<and> u < length (lg_lives g) then f (lg_lives g ! u) else lg_lives g ! v)"
  by (cases "u < length (lg_lives g)") (simp_all add: on_live_def nth_list_update list_update_beyond)

lemma on_live_frame [simp]:
  "lg_subs (on_live u f g) = lg_subs g" "lg_joined (on_live u f g) = lg_joined g" "lg_log (on_live u f g) = lg_log g"
  "lg_streams (on_live u f g) = lg_streams g" "length (lg_lives (on_live u f g)) = length (lg_lives g)"
  "lg_flow (on_live u f g) = lg_flow g" "lg_sent (on_live u f g) = lg_sent g" "lg_acked (on_live u f g) = lg_acked g"
  "lg_controls (on_live u f g) = lg_controls g" "lg_pc (on_live u f g) = lg_pc g"
  by (simp_all add: on_live_def)

lemma subs_okD:
  assumes "subs_ok g"
  shows "distinct (map fst (lg_subs g))" "length (lg_subs g) \<le> liveGridMaxSubscriptions"
    "map_of (lg_subs g) slot = Some sub \<Longrightarrow> sub_ok g slot sub"
    "(u, i) \<in> set (lg_joined g) \<Longrightarrow> u < length (lg_lives g) \<and> i < wh_next (lv_hub (lg_lives g ! u))"
    "(u, i) \<in> set (lg_joined g) \<Longrightarrow> given (lg_lives g ! u) i \<noteq> None \<Longrightarrow> \<exists>slot. owned g u i slot"
    "owned g u i s1 \<Longrightarrow> owned g u i s2 \<Longrightarrow> s1 = s2"
  using assms unfolding subs_ok_def by blast+

lemma subs_okI:
  assumes "distinct (map fst (lg_subs g))" "length (lg_subs g) \<le> liveGridMaxSubscriptions"
    and "\<And>slot sub. map_of (lg_subs g) slot = Some sub \<Longrightarrow> sub_ok g slot sub"
    and "\<And>u i. (u, i) \<in> set (lg_joined g) \<Longrightarrow> given (lg_lives g ! u) i \<noteq> None \<Longrightarrow> \<exists>slot. owned g u i slot"
    and "\<And>u i. (u, i) \<in> set (lg_joined g) \<Longrightarrow> u < length (lg_lives g) \<and> i < wh_next (lv_hub (lg_lives g ! u))"
    and "\<And>u i s1 s2. owned g u i s1 \<Longrightarrow> owned g u i s2 \<Longrightarrow> s1 = s2"
  shows "subs_ok g"
  using assms unfolding subs_ok_def by blast

lemma sub_okD:
  assumes "subs_ok g" "map_of (lg_subs g) slot = Some sub"
  shows "slot \<noteq> 0" "gs_hub sub < length (lg_lives g)" "gs_client sub < wh_next (lv_hub (lg_lives g ! gs_hub sub))"
    "(gs_hub sub, gs_client sub) \<in> set (lg_joined g)"
    "given (lg_lives g ! gs_hub sub) (gs_client sub) = Some (since_open slot (lg_log g))"
    "gs_startup sub = 2 - length (since_open slot (lg_log g))"
  using subs_okD(3,4) [OF assms(1)] assms(2) by (auto simp: sub_ok_def)

lemma other_pair:
  assumes "subs_ok g" "map_of (lg_subs g) s1 = Some x" "map_of (lg_subs g) s2 = Some y" "s1 \<noteq> s2"
  shows "\<not> (gs_hub x = gs_hub y \<and> gs_client x = gs_client y)"
  using subs_okD(6) [OF assms(1), of "gs_hub x" "gs_client x" s1 s2] assms(2-4) by (auto simp: owned_def)

lemma subs_ok_remove [inv_intros]:
  assumes ok: "subs_ok g"
  shows "subs_ok (grid_remove slot g)"
proof (cases "map_of (lg_subs g) slot")
  case None
  with ok show ?thesis by (simp add: grid_remove_def)
next
  case (Some sub)
  let ?g = "grid_remove slot g"
  have m: "map_of (lg_subs ?g) = (map_of (lg_subs g))(slot := None)" "lg_joined ?g = lg_joined g"
    "lg_log ?g = lg_log g" "length (lg_lives ?g) = length (lg_lives g)" "distinct (map fst (lg_subs ?g))"
    "length (lg_subs ?g) \<le> length (lg_subs g)"
    using Some subs_okD(1) [OF ok] by (simp_all add: grid_remove_def on_hub_def delete_conv' distinct_delete length_delete_le)
  have l: "given (lg_lives ?g ! v) i = (if v = gs_hub sub \<and> i = gs_client sub then None else given (lg_lives g ! v) i)"
    "wh_next (lv_hub (lg_lives ?g ! v)) = wh_next (lv_hub (lg_lives g ! v))" for v i
    using Some sub_okD(2) [OF ok Some]
    by (simp_all add: grid_remove_def on_hub_def nth_on_live given_remove) (simp add: remove_client_def)
  have o: "owned ?g u i t = (t \<noteq> slot \<and> owned g u i t)" for u i t by (simp add: owned_def m)
  have "sub_ok ?g t x" if "map_of (lg_subs ?g) t = Some x" for t x
    using that subs_okD(3) [OF ok, of t x] other_pair [OF ok _ Some, of t x]
    by (simp add: sub_ok_def m l split: if_splits)
  moreover have "\<exists>t. owned ?g u i t" if "(u, i) \<in> set (lg_joined g)" "given (lg_lives ?g ! u) i \<noteq> None" for u i
  proof -
    have n: "\<not> (u = gs_hub sub \<and> i = gs_client sub)" "given (lg_lives g ! u) i \<noteq> None"
      using that(2) by (auto simp: l split: if_splits)
    from subs_okD(5) [OF ok that(1) n(2)] obtain t where t: "owned g u i t" by blast
    moreover have "t \<noteq> slot" using t n(1) Some by (auto simp: owned_def)
    ultimately show ?thesis by (auto simp: o)
  qed
  ultimately show ?thesis
    using m subs_okD(2,4,6) [OF ok] by (auto simp: subs_ok_def o l split: prod.split)
qed

text \<open>A subscription: the number of the new client is the stream's own.\<close>

lemma subs_ok_join [inv_intros]:
  assumes ok: "subs_ok g" and u: "u < length (lg_lives g)" and new: "map_of (lg_subs g) slot = None"
    and len: "length (lg_subs g) < liveGridMaxSubscriptions" and "slot \<noteq> 0"
  shows "subs_ok (grid_join slot u g)"
proof -
  let ?g = "grid_join slot u g" and ?i = "wh_next (lv_hub (lg_lives g ! u))"
  let ?s = "\<lparr>gs_hub = u, gs_client = ?i, gs_startup = 2\<rparr>"
  have m: "map_of (lg_subs ?g) = (map_of (lg_subs g))(slot \<mapsto> ?s)" "lg_joined ?g = (u, ?i) # lg_joined g"
    "lg_log ?g = lg_log g @ [Opened slot]" "length (lg_lives ?g) = length (lg_lives g)" "distinct (map fst (lg_subs ?g))"
    "length (lg_subs ?g) \<le> liveGridMaxSubscriptions"
    using subs_okD(1) [OF ok] new len
    by (simp_all add: grid_join_def on_hub_def update_conv' distinct_update length_update_new add_client_def Let_def)
  have l: "given (lg_lives ?g ! v) i = (if v = u \<and> i = ?i then Some [] else given (lg_lives g ! v) i)"
    "wh_next (lv_hub (lg_lives ?g ! v)) = (if v = u then Suc ?i else wh_next (lv_hub (lg_lives g ! v)))" for v i
    using u by (simp_all add: grid_join_def on_hub_def nth_on_live given_add Let_def) (simp add: add_client_def)
  have o: "owned ?g v i t = (if t = slot then v = u \<and> i = ?i else owned g v i t)" for v i t by (auto simp: owned_def m)
  have nw: "\<not> owned g u ?i t" for t
    using sub_okD(3) [OF ok, of t] by (fastforce simp: owned_def)
  have 1: "sub_ok ?g t x" if t: "map_of (lg_subs ?g) t = Some x" for t x
  proof (cases "t = slot")
    case True
    with t \<open>slot \<noteq> 0\<close> show ?thesis by (auto simp: sub_ok_def m l since_open_snoc)
  next
    case False
    with t have "map_of (lg_subs g) t = Some x" by (simp add: m)
    from sub_okD [OF ok this] False show ?thesis by (auto simp: sub_ok_def m l since_open_snoc)
  qed
  have 2: "\<exists>t. owned ?g v i t" if "(v, i) \<in> set (lg_joined ?g)" "given (lg_lives ?g ! v) i \<noteq> None" for v i
  proof (cases "v = u \<and> i = ?i")
    case True
    then show ?thesis by (auto simp: o)
  next
    case False
    with that have "(v, i) \<in> set (lg_joined g)" "given (lg_lives g ! v) i \<noteq> None" by (auto simp: m l split: if_splits)
    from subs_okD(5) [OF ok this] obtain t where "owned g v i t" by blast
    moreover from this new have "t \<noteq> slot" by (auto simp: owned_def)
    ultimately show ?thesis by (auto simp: o)
  qed
  show ?thesis
  proof (rule subs_okI [OF m(5,6) 1 2])
    fix v i assume "(v, i) \<in> set (lg_joined ?g)"
    then show "v < length (lg_lives ?g) \<and> i < wh_next (lv_hub (lg_lives ?g ! v))"
      using u subs_okD(4) [OF ok, of v i] by (auto simp: m l)
  next
    fix v i s1 s2 assume "owned ?g v i s1" "owned ?g v i s2"
    then show "s1 = s2" using nw subs_okD(6) [OF ok, of v i s1 s2] by (auto simp: o split: if_splits)
  qed
qed

text \<open>A packet: it is the next of the client's queue.\<close>

lemma subs_ok_take [inv_intros]:
  assumes ok: "subs_ok g" and s: "map_of (lg_subs g) slot = Some sub"
  shows "subs_ok (grid_take slot sub g)"
proof (cases "poll g sub")
  case Closed_Chan
  with ok show ?thesis by (simp add: grid_take_def subs_ok_remove)
next
  case Empty_Chan
  with ok show ?thesis by (simp add: grid_take_def)
next
  case (Item x)
  let ?g = "grid_take slot sub g" and ?s = "sub\<lparr>gs_startup := gs_startup sub - 1\<rparr>"
  obtain c q where c: "map_of (wh_clients (lv_hub (lg_lives g ! gs_hub sub))) (gs_client sub) = Some c" "wc_queue c = x # q"
    using Item by (auto simp: poll_def split: option.splits list.splits)
  note sk = sub_okD [OF ok s]
  from c sk(5) have r: "wc_received c = since_open slot (lg_log g)" by (simp add: given_def)
  have m: "map_of (lg_subs ?g) = (map_of (lg_subs g))(slot \<mapsto> ?s)" "lg_joined ?g = lg_joined g"
    "lg_log ?g = lg_log g @ [Wrote slot x]" "length (lg_lives ?g) = length (lg_lives g)" "distinct (map fst (lg_subs ?g))"
    "length (lg_subs ?g) = length (lg_subs g)"
    using subs_okD(1) [OF ok] s Item
    by (simp_all add: grid_take_def grid_write_def on_hub_def update_conv' distinct_update length_update_old)
  have l: "given (lg_lives ?g ! v) i = (if v = gs_hub sub \<and> i = gs_client sub then Some (wc_received c @ [x])
      else given (lg_lives g ! v) i)"
    "wh_next (lv_hub (lg_lives ?g ! v)) = wh_next (lv_hub (lg_lives g ! v))" for v i
    using Item sk(2) by (simp_all add: grid_take_def grid_write_def on_hub_def nth_on_live given_receive [OF c])
      (simp add: receive_def)
  have o: "owned ?g v i t = owned g v i t" for v i t using s by (auto simp: owned_def m)
  have "sub_ok ?g t y" if t: "map_of (lg_subs ?g) t = Some y" for t y
  proof (cases "t = slot")
    case True
    with t sk show ?thesis by (auto simp: sub_ok_def m l since_open_snoc r)
  next
    case False
    with t have y: "map_of (lg_subs g) t = Some y" by (simp add: m)
    from sub_okD [OF ok y] other_pair [OF ok y s False] False show ?thesis
      by (auto simp: sub_ok_def m l since_open_snoc)
  qed
  moreover have "\<exists>t. owned ?g v i t" if "(v, i) \<in> set (lg_joined g)" "given (lg_lives ?g ! v) i \<noteq> None" for v i
  proof -
    have "given (lg_lives g ! v) i \<noteq> None" using that(2) sk(5) by (auto simp: l split: if_splits)
    from subs_okD(5) [OF ok that(1) this] show ?thesis by (simp add: o)
  qed
  ultimately show ?thesis
    using m subs_okD(2,4,6) [OF ok] by (auto simp: subs_ok_def o l split: prod.split)
qed

lemma subs_ok_stream [inv_intros]:
  assumes ok: "subs_ok g" and u: "u < length (lg_lives g)" and f: "foreign g u x"
  shows "subs_ok (on_live u (\<lambda>l. live_step md l x) g)"
proof -
  let ?g = "on_live u (\<lambda>l. live_step md l x) g"
  have l: "given (lg_lives ?g ! v) i = given (lg_lives g ! v) i" if j: "(v, i) \<in> set (lg_joined g)" for v i
  proof (cases "v = u")
    case True
    then have "x \<noteq> Leave i" "x \<noteq> Receive i" using f j by (auto simp: foreign_def)
    with live_step_given [of i "lg_lives g ! u" x md] subs_okD(4) [OF ok j] True u show ?thesis by (simp add: nth_on_live)
  qed (simp add: nth_on_live)
  have w: "i < wh_next (lv_hub (lg_lives g ! v)) \<Longrightarrow> i < wh_next (lv_hub (lg_lives ?g ! v))" for v i
    using live_step_next [of "lg_lives g ! u" md x] by (auto simp: nth_on_live)
  have o: "owned ?g v i t = owned g v i t" for v i t by (simp add: owned_def)
  have "sub_ok ?g t y" if t: "map_of (lg_subs g) t = Some y" for t y
    using sub_okD [OF ok t] l by (simp add: sub_ok_def)
  then show ?thesis
    using subs_okD(1,2,4,5,6) [OF ok] w l by (auto simp: subs_ok_def o)
qed

section \<open>Lemmas: the streams and the counters\<close>

lemma lives_ok_stream [inv_intros]: "lives_ok g \<Longrightarrow> u < length (lg_lives g) \<Longrightarrow> lives_ok (on_live u (\<lambda>l. live_step md l x) g)"
  using live_inv_step [of "lg_lives g ! u" md x] set_update_subset_insert [of "lg_lives g" u "live_step md (lg_lives g ! u) x"]
  by (auto simp: lives_ok_def on_live_def)

lemma on_hub_steps:
  "on_hub u (\<lambda>h. remove_client h i) = on_live u (\<lambda>l. live_step md l (Leave i))"
  "on_hub u (\<lambda>h. fst (add_client h)) = on_live u (\<lambda>l. live_step md l Join)"
  "on_hub u (\<lambda>h. receive h i) = on_live u (\<lambda>l. live_step md l (Receive i))"
  by (simp_all add: on_hub_def)

lemma lives_ok_frame: "lg_lives g' = lg_lives g \<Longrightarrow> lg_streams g' = lg_streams g \<Longrightarrow> lives_ok g' = lives_ok g"
  by (simp add: lives_ok_def)

lemma lives_ok_remove [inv_intros]:
  assumes "subs_ok g" "lives_ok g"
  shows "lives_ok (grid_remove slot g)"
proof (cases "map_of (lg_subs g) slot")
  case (Some sub)
  with lives_ok_stream [OF assms(2) sub_okD(2) [OF assms(1) Some], of md "Leave (gs_client sub)"] show ?thesis
    by (simp add: grid_remove_def on_hub_steps(1) [where md = md] lives_ok_def del: live_step.simps)
qed (use assms in \<open>simp add: grid_remove_def\<close>)

lemma lives_ok_join [inv_intros]: "lives_ok g \<Longrightarrow> u < length (lg_lives g) \<Longrightarrow> lives_ok (grid_join slot u g)"
  using lives_ok_stream [of g u md Join]
  by (simp add: grid_join_def on_hub_steps(2) [where md = md] lives_ok_def Let_def del: live_step.simps)

lemma lives_ok_take [inv_intros]:
  "subs_ok g \<Longrightarrow> lives_ok g \<Longrightarrow> map_of (lg_subs g) slot = Some sub \<Longrightarrow> lives_ok (grid_take slot sub g)"
  using lives_ok_stream [of g "gs_hub sub" md "Receive (gs_client sub)"] sub_okD(2) [of g slot sub] lives_ok_remove [of g slot]
  by (simp add: grid_take_def grid_write_def on_hub_steps(3) [where md = md] lives_ok_def del: live_step.simps
      split: chan_poll.split)

text \<open>The counters only see packets.\<close>

definition flow_ok :: "grid \<Rightarrow> bool" where
  "flow_ok g = (lg_acked g \<le> lg_sent g \<and> lg_sent g = sum_list (map event_bytes (lg_log g))
     \<and> (lg_flow g \<longrightarrow> lg_sent g < lg_acked g + liveGridMaxInflight + last_packet (lg_log g)))"

lemma last_packet_snoc [simp]:
  "last_packet (log @ [Opened s]) = last_packet log" "last_packet (log @ [Wrote s f]) = length (grid_packet s f)"
  by (simp_all add: last_packet_def)

lemma remove_frame [simp]:
  "lg_flow (grid_remove slot g) = lg_flow g" "lg_sent (grid_remove slot g) = lg_sent g"
  "lg_acked (grid_remove slot g) = lg_acked g" "lg_log (grid_remove slot g) = lg_log g"
  "lg_controls (grid_remove slot g) = lg_controls g" "lg_pc (grid_remove slot g) = lg_pc g"
  "lg_streams (grid_remove slot g) = lg_streams g" "length (lg_lives (grid_remove slot g)) = length (lg_lives g)"
  "lg_joined (grid_remove slot g) = lg_joined g"
  by (simp_all add: grid_remove_def on_hub_def split: option.split)

lemma flow_ok_remove [inv_intros]: "flow_ok g \<Longrightarrow> flow_ok (grid_remove slot g)"
  by (auto simp: flow_ok_def)

lemma flow_ok_join [inv_intros]: "flow_ok g \<Longrightarrow> flow_ok (grid_join slot u g)"
  by (auto simp: flow_ok_def grid_join_def on_hub_def Let_def)

lemma flow_ok_take [inv_intros]: "flow_ok g \<Longrightarrow> canSend g \<Longrightarrow> flow_ok (grid_take slot sub g)"
  by (auto simp: flow_ok_def grid_take_def grid_write_def on_hub_def canSend_def split: chan_poll.split)

lemma join_frame [simp]:
  "lg_flow (grid_join slot u g) = lg_flow g" "lg_controls (grid_join slot u g) = lg_controls g"
  by (simp_all add: grid_join_def on_hub_def Let_def)

lemma take_frame [simp]:
  "lg_flow (grid_take slot sub g) = lg_flow g" "lg_controls (grid_take slot sub g) = lg_controls g"
  by (simp_all add: grid_take_def grid_write_def on_hub_def split: chan_poll.split)

definition grid_ok :: "grid \<Rightarrow> bool" where
  "grid_ok g = (subs_ok g \<and> lives_ok g \<and> flow_ok g \<and> list_all (reader_accepts (lg_flow g)) (lg_controls g)
     \<and> (lg_pc g = Ended \<longrightarrow> lg_subs g = []))"

lemma reader_slot: "reader_accepts flow c \<Longrightarrow> lc_op c \<noteq> ''ack'' \<Longrightarrow> lc_slot c \<noteq> 0"
  by (simp add: reader_accepts_def)

lemma removed_slot: "map_of (lg_subs (grid_remove slot g)) slot = None"
  by (simp add: grid_remove_def delete_conv' split: option.split)

lemma removed_shorter:
  assumes "map_of (lg_subs g) slot = Some sub" "distinct (map fst (lg_subs g))"
  shows "length (lg_subs (grid_remove slot g)) < length (lg_subs g)"
proof -
  have "length (AList.delete slot (lg_subs g)) = card (dom (map_of (lg_subs g)) - {slot})"
    using length_distinct [OF distinct_delete [OF assms(2), of slot]] by (simp add: delete_conv')
  also have "\<dots> < card (dom (map_of (lg_subs g)))"
    using assms(1) by (intro psubset_card_mono) (auto simp: finite_dom_map_of)
  finally show ?thesis using assms length_distinct [OF assms(2)] by (simp add: grid_remove_def)
qed

lemma apply_ok:
  assumes s: "subs_ok g" and l: "lives_ok g" and f: "flow_ok g" and c: "reader_accepts (lg_flow g) c"
  shows "subs_ok (grid_apply c g) \<and> lives_ok (grid_apply c g) \<and> flow_ok (grid_apply c g)
     \<and> lg_flow (grid_apply c g) = lg_flow g"
proof -
  consider (ack) "lc_op c = ''ack''" | (unsub) "lc_op c \<noteq> ''ack''" "lc_op c = ''unsub''"
    | (full) "lc_op c \<notin> {''ack'', ''unsub''}" "map_of (lg_subs g) (lc_slot c) = None \<and> length (lg_subs g) \<ge> liveGridMaxSubscriptions"
    | (sub) "lc_op c \<notin> {''ack'', ''unsub''}" "\<not> (map_of (lg_subs g) (lc_slot c) = None \<and> length (lg_subs g) \<ge> liveGridMaxSubscriptions)"
    by blast
  then show ?thesis
  proof cases
    case ack
    have "subs_ok (g\<lparr>lg_acked := n\<rparr>) = subs_ok g" "lives_ok (g\<lparr>lg_acked := n\<rparr>) = lives_ok g" for n
      by (simp_all add: subs_ok_def sub_ok_def owned_def lives_ok_def)
    with ack s l f show ?thesis by (auto simp: grid_apply_def flow_ok_def)
  next
    case unsub
    with s l f show ?thesis by (simp add: grid_apply_def inv_intros)
  next
    case full
    with s l f show ?thesis by (simp add: grid_apply_def)
  next
    case sub
    let ?g = "grid_remove (lc_slot c) g"
    have 1: "subs_ok ?g" "lives_ok ?g" "flow_ok ?g" using s l f by (simp_all add: inv_intros)
    have len: "length (lg_subs ?g) < liveGridMaxSubscriptions"
    proof (cases "map_of (lg_subs g) (lc_slot c)")
      case None
      with sub(2) show ?thesis by (simp add: grid_remove_def)
    next
      case (Some x)
      with removed_shorter [of g "lc_slot c" x] subs_okD(1,2) [OF s] show ?thesis by simp
    qed
    have "u < length (lg_lives ?g)" if "map_of (lg_streams ?g) (lc_stream c) = Some u" for u
      using map_of_SomeD [OF that] 1(2) by (auto simp: lives_ok_def)
    with 1 len removed_slot [of "lc_slot c" g] reader_slot [OF c] sub show ?thesis
      by (auto simp: grid_apply_def Let_def subs_ok_join lives_ok_join flow_ok_join split: option.split)
  qed
qed

lemma pass_one_ok:
  assumes "subs_ok g" "lives_ok g" "flow_ok g"
  shows "subs_ok (fst (pass_one p slot g)) \<and> lives_ok (fst (pass_one p slot g)) \<and> flow_ok (fst (pass_one p slot g))
     \<and> lg_flow (fst (pass_one p slot g)) = lg_flow g \<and> lg_controls (fst (pass_one p slot g)) = lg_controls g"
  using assms by (auto simp: pass_one_def subs_ok_take lives_ok_take flow_ok_take split: option.split)

lemma cleanup_frame:
  assumes "subs_ok g" "lives_ok g" "flow_ok g"
  shows "subs_ok (grid_cleanup g)" "lives_ok (grid_cleanup g)" "flow_ok (grid_cleanup g)" "lg_subs (grid_cleanup g) = []"
    "lg_flow (grid_cleanup g) = lg_flow g" "lg_controls (grid_cleanup g) = lg_controls g"
proof -
  let ?f = "\<lambda>slots. foldl (\<lambda>x slot. grid_remove slot x) g slots"
  have "subs_ok (?f slots) \<and> lives_ok (?f slots) \<and> flow_ok (?f slots) \<and> lg_flow (?f slots) = lg_flow g
      \<and> lg_controls (?f slots) = lg_controls g \<and> fst ` set (lg_subs (?f slots)) \<subseteq> fst ` set (lg_subs g) - set slots" for slots
  proof (induction slots rule: rev_induct)
    case (snoc slot slots)
    have "fst ` set (lg_subs (grid_remove slot (?f slots))) \<subseteq> fst ` set (lg_subs (?f slots)) - {slot}"
      by (auto simp: grid_remove_def AList.delete_eq map_of_eq_None_iff split: option.split)
    with snoc show ?case by (auto simp: inv_intros)
  qed (use assms in simp)
  note this [of "map fst (lg_subs g)"]
  then show "subs_ok (grid_cleanup g)" "lives_ok (grid_cleanup g)" "flow_ok (grid_cleanup g)" "lg_subs (grid_cleanup g) = []"
    "lg_flow (grid_cleanup g) = lg_flow g" "lg_controls (grid_cleanup g) = lg_controls g"
    by (auto simp: grid_cleanup_def subs_ok_def sub_ok_def owned_def lives_ok_def flow_ok_def)
qed

lemma frame_ok:
  "lg_subs g' = lg_subs g \<Longrightarrow> lg_lives g' = lg_lives g \<Longrightarrow> lg_joined g' = lg_joined g \<Longrightarrow> lg_log g' = lg_log g
     \<Longrightarrow> lg_streams g' = lg_streams g \<Longrightarrow> lg_flow g' = lg_flow g \<Longrightarrow> lg_sent g' = lg_sent g \<Longrightarrow> lg_acked g' = lg_acked g
     \<Longrightarrow> subs_ok g' = subs_ok g \<and> lives_ok g' = lives_ok g \<and> flow_ok g' = flow_ok g"
  by (simp add: subs_ok_def sub_ok_def owned_def lives_ok_def flow_ok_def)

lemma frame_okI:
  assumes "grid_ok g" "lg_subs g' = lg_subs g" "lg_lives g' = lg_lives g" "lg_joined g' = lg_joined g" "lg_log g' = lg_log g"
    "lg_streams g' = lg_streams g" "lg_flow g' = lg_flow g" "lg_sent g' = lg_sent g" "lg_acked g' = lg_acked g"
    "list_all (reader_accepts (lg_flow g)) (lg_controls g')" "lg_pc g' \<noteq> Ended"
  shows "grid_ok g'"
  using assms frame_ok [OF assms(2-9)] by (simp add: grid_ok_def)

lemma started_ok:
  assumes "grid_ok g"
  shows "grid_ok (g\<lparr>lg_lives := lg_lives g @ [new_live m],
     lg_streams := AList.update name (length (lg_lives g)) (lg_streams g)\<rparr>)" (is "grid_ok ?g")
proof -
  have s: "subs_ok g" and l: "lives_ok g" using assms by (simp_all add: grid_ok_def)
  have n: "lg_lives ?g ! u = lg_lives g ! u" if "u < length (lg_lives g)" for u
    using that by (simp add: nth_append)
  have o: "owned ?g = owned g" by (simp add: owned_def fun_eq_iff)
  have "subs_ok ?g"
  proof (rule subs_okI)
    fix slot sub assume "map_of (lg_subs ?g) slot = Some sub"
    then have "map_of (lg_subs g) slot = Some sub" by simp
    from sub_okD [OF s this] n [OF sub_okD(2) [OF s this]] show "sub_ok ?g slot sub" by (simp add: sub_ok_def)
  qed (use subs_okD [OF s] n in \<open>fastforce simp: o\<close>)+
  moreover have "lives_ok ?g"
    using l live_inv_new [of m] set_alist_update [of name "length (lg_lives g)" "lg_streams g"]
    by (fastforce simp: lives_ok_def)
  ultimately show ?thesis using assms by (auto simp: grid_ok_def flow_ok_def)
qed

lemma grid_ok_step [inv_intros]:
  assumes "grid_step md g g'" "grid_ok g"
  shows "grid_ok g'"
proof -
  have ok: "subs_ok g" "lives_ok g" "flow_ok g" using assms(2) by (simp_all add: grid_ok_def)
  note fr = frame_ok [THEN conjunct1] frame_ok [THEN conjunct2, THEN conjunct1] frame_ok [THEN conjunct2, THEN conjunct2]
  from assms show ?thesis
  proof (cases rule: grid_step.cases)
    case (control c cs)
    have a: "reader_accepts (lg_flow g) c" "list_all (reader_accepts (lg_flow g)) cs"
      using assms(2) control(3) by (simp_all add: grid_ok_def)
    from apply_ok [OF ok a(1)] a(2) frame_ok [of g' "grid_apply c g"] show ?thesis by (simp add: control(1) grid_ok_def)
  next
    case (visit p slot rest hit)
    from pass_one_ok [OF ok, of p slot] assms(2) frame_ok [of g' "fst (pass_one p slot g)"]
    show ?thesis by (simp add: visit(1) grid_ok_def)
  next
    case (media slot sub)
    have "subs_ok (grid_take slot sub g)" "lives_ok (grid_take slot sub g)" "flow_ok (grid_take slot sub g)"
      using ok media(3,4) by (simp_all add: inv_intros)
    with assms(2) frame_ok [of g' "grid_take slot sub g"] show ?thesis by (simp add: media(1) grid_ok_def)
  next
    case leave
    with cleanup_frame [OF ok] assms(2) show ?thesis by (simp add: grid_ok_def)
  next
    case (stream u x)
    with ok subs_ok_stream [OF ok(1), of u x md] lives_ok_stream [OF ok(2), of u md x] assms(2) show ?thesis
      by (simp add: grid_ok_def flow_ok_def)
  next
    case (started m name)
    with started_ok [OF assms(2)] show ?thesis by simp
  next
    case (stopped name)
    have "set (AList.delete name (lg_streams g)) \<subseteq> set (lg_streams g)" by (auto simp: AList.delete_eq)
    with ok stopped assms(2) show ?thesis
      by (auto simp: grid_ok_def subs_ok_def sub_ok_def owned_def lives_ok_def flow_ok_def)
  next
    case (read c)
    show ?thesis by (rule frame_okI [OF assms(2)]) (use assms(2) in \<open>simp_all add: read grid_ok_def\<close>)
  next
    case (startup order)
    show ?thesis by (rule frame_okI [OF assms(2)]) (use assms(2) in \<open>simp_all add: startup grid_ok_def\<close>)
  next
    case (prioritized p)
    show ?thesis by (rule frame_okI [OF assms(2)]) (use assms(2) in \<open>simp_all add: prioritized grid_ok_def\<close>)
  next
    case (keyframes order)
    show ?thesis by (rule frame_okI [OF assms(2)]) (use assms(2) in \<open>simp_all add: keyframes grid_ok_def\<close>)
  next
    case idle
    show ?thesis by (rule frame_okI [OF assms(2)]) (use assms(2) in \<open>simp_all add: idle grid_ok_def\<close>)
  next
    case ping
    show ?thesis by (rule frame_okI [OF assms(2)]) (use assms(2) in \<open>simp_all add: ping grid_ok_def\<close>)
  qed
qed

lemma grid_ok_start:
  assumes "\<forall>l\<in>set ls. \<exists>m xs. l = live_run md m xs" "\<forall>(name, u)\<in>set names. u < length ls"
  shows "grid_ok (grid_start flow ls names)"
  using assms live_inv_run
  by (fastforce simp: grid_ok_def grid_start_def subs_ok_def owned_def lives_ok_def flow_ok_def liveGridMaxInflight_def)

lemma grid_ok_reachable: "grid_reachable md g \<Longrightarrow> grid_ok g"
  by (induction rule: grid_reachable.induct) (auto intro: grid_ok_start grid_ok_step)

text \<open>A connection that subscribes to a running stream and has been sent the init segment.\<close>

definition toy_sub :: live_grid_control where
  "toy_sub = \<lparr>lc_op = ''sub'', lc_slot = 1, lc_stream = ''dvr1_ch1'', lc_received = 0\<rparr>"

definition toy_grid0 :: grid where
  "toy_grid0 = (let g0 = grid_start True
        [live_run toy_media (newFragMuxerH264 toy_media (Some [7]) (Some [8])) [Emit [[5]]]] [(''dvr1_ch1'', 0)];
      g1 = g0\<lparr>lg_controls := lg_controls g0 @ [toy_sub]\<rparr>
   in ((grid_apply toy_sub g1)\<lparr>lg_controls := [], lg_pc := Top\<rparr>)\<lparr>lg_pc := Pass 2 [1] False\<rparr>)"

definition toy_grid :: grid where
  "toy_grid = (fst (pass_one 2 1 toy_grid0))\<lparr>lg_pc := Pass 2 [] (False \<or> snd (pass_one 2 1 toy_grid0))\<rparr>"

lemma toy_grid0_reachable: "grid_reachable toy_media toy_grid0"
proof -
  let ?l = "live_run toy_media (newFragMuxerH264 toy_media (Some [7]) (Some [8])) [Emit [[5]]]"
  let ?g0 = "grid_start True [?l] [(''dvr1_ch1'', 0)]"
  let ?g1 = "?g0\<lparr>lg_controls := lg_controls ?g0 @ [toy_sub]\<rparr>"
  let ?g2 = "(grid_apply toy_sub ?g1)\<lparr>lg_controls := [], lg_pc := Top\<rparr>"
  have 0: "grid_reachable toy_media ?g0" by (rule grid_reachable.start) auto
  have "reader_accepts True toy_sub" by code_simp
  then have 1: "grid_reachable toy_media ?g1"
    by (intro grid_reachable.step [OF 0] grid_step.read) (simp_all add: grid_start_def liveGridMaxSubscriptions_def)
  have 2: "grid_reachable toy_media ?g2"
    by (rule grid_reachable.step [OF 1], rule grid_step.control) (simp_all add: grid_start_def)
  have "lg_subs ?g2 = [(1, \<lparr>gs_hub = 0, gs_client = 0, gs_startup = 2\<rparr>)]" by code_simp
  then have "grid_reachable toy_media (?g2\<lparr>lg_pc := Pass 2 [1] False\<rparr>)"
    by (intro grid_reachable.step [OF 2] grid_step.startup) (simp_all add: map_order_def)
  then show ?thesis by (simp add: toy_grid0_def Let_def)
qed

lemma toy_grid_reachable: "grid_reachable toy_media toy_grid"
  unfolding toy_grid_def
  by (rule grid_reachable.step [OF toy_grid0_reachable], rule grid_step.visit) (simp add: toy_grid0_def Let_def)

lemma toy_grid_eq:
  "toy_grid = (grid_take 1 \<lparr>gs_hub = 0, gs_client = 0, gs_startup = 2\<rparr> toy_grid0)\<lparr>lg_pc := Pass 2 [] True\<rparr>"
proof -
  have "map_of (lg_subs toy_grid0) 1 = Some \<lparr>gs_hub = 0, gs_client = 0, gs_startup = 2\<rparr>"
    "poll toy_grid0 \<lparr>gs_hub = 0, gs_client = 0, gs_startup = 2\<rparr> = Item [1]" "lg_sent toy_grid0 = 0" by code_simp+
  then show ?thesis by (simp add: toy_grid_def pass_one_def canSend_def liveGridMaxInflight_def)
qed

section \<open>Properties\<close>



text \<open>C25. Flow control and clean-up: what the browser has acknowledged was sent; with flow control on, the
  bytes it has not acknowledged stay below 256 KiB but for the last packet; there are never more than
  sixteen subscriptions; and when the connection is over no stream still counts it as a watcher.\<close>

theorem grid_flow_bounded:
  assumes "grid_reachable md g"
  shows "lg_acked g \<le> lg_sent g \<and> lg_sent g = sum_list (map event_bytes (lg_log g))
    \<and> (lg_flow g \<longrightarrow> lg_sent g < lg_acked g + 262144 + last_packet (lg_log g))
    \<and> length (lg_subs g) \<le> 16
    \<and> (lg_pc g = Ended \<longrightarrow> (\<forall>(u, i)\<in>set (lg_joined g). given (lg_lives g ! u) i = None))"
proof -
  have ok: "grid_ok g" by (rule grid_ok_reachable [OF assms])
  have "given (lg_lives g ! u) i = None" if e: "lg_pc g = Ended" "(u, i) \<in> set (lg_joined g)" for u i
  proof -
    have "\<not> owned g u i slot" for slot using ok e(1) by (simp add: grid_ok_def owned_def)
    with ok subs_okD(5) [of g u i] e(2) show ?thesis unfolding grid_ok_def by blast
  qed
  with ok subs_okD(2) [of g] show ?thesis
    by (auto simp: grid_ok_def flow_ok_def liveGridMaxInflight_def liveGridMaxSubscriptions_def)
qed

theorem grid_flow_bounded_witness:
  "lg_sent toy_grid = 3 \<and> 3 < lg_acked toy_grid + 262144 + 3"
proof -
  have "lg_flow toy_grid" "lg_sent toy_grid = 3" "last_packet (lg_log toy_grid) = 3" unfolding toy_grid_eq by code_simp+
  with grid_flow_bounded [OF toy_grid_reachable] show ?thesis by simp
qed

end
