(* ===== verification/Camera_Dial.thy ===== *)
theory Camera_Dial
  imports Surv_Proxy
begin

text \<open>
  Dialling a camera, the middle of \<^verbatim>\<open>SurvProxy.StartChannel\<close> in \<^verbatim>\<open>relay/surv_proxy.go\<close>: connect, describe, set up
  the codec (\<^verbatim>\<open>setupSurvCodec\<close> and its two branches), start the HLS muxer, play, and release what was opened when a
  later step fails. \<open>Surv_Proxy\<close> knows this only as the outcome \<open>ev_dial\<close>. What the camera answers is given to the
  model, and so are the decoders of RTP packets.
\<close>

section \<open>The outcomes of a camera\<close>

text \<open>Each error is its text. A parameter set that the description leaves out is \<open>None\<close>, Go's \<open>nil\<close>.\<close>

record sdp =
  sd_h264 :: "(bytes option \<times> bytes option) option"
  sd_h265 :: "(bytes option \<times> bytes option \<times> bytes option) option"

record camera =
  ca_connect :: "string option"
  ca_describe :: "string + sdp"
  ca_decoder :: "string option"
  ca_setup :: "string option"
  ca_hls :: "string option"
  ca_play :: "string option"

datatype resource_op = Client_Start | Client_Close | Hls_Start | Hls_Close

section \<open>The codec\<close>

definition set_up :: "camera \<Rightarrow> string \<Rightarrow> frag_muxer \<Rightarrow> string + frag_muxer" where
  "set_up c what m = (case ca_decoder c of
      Some err \<Rightarrow> Inl (what @ '' decoder: '' @ err)
    | None \<Rightarrow> (case ca_setup c of Some err \<Rightarrow> Inl (''RTSP setup: '' @ err) | None \<Rightarrow> Inr m))"

definition setupSurvH264 :: "media \<Rightarrow> camera \<Rightarrow> bytes option \<Rightarrow> bytes option \<Rightarrow> string + frag_muxer" where
  "setupSurvH264 md c sps pps = set_up c ''H264'' (newFragMuxerH264 md sps pps)"

definition setupSurvH265 ::
    "media \<Rightarrow> camera \<Rightarrow> bytes option \<Rightarrow> bytes option \<Rightarrow> bytes option \<Rightarrow> string + frag_muxer" where
  "setupSurvH265 md c vps sps pps = set_up c ''H265'' (newFragMuxerH265 md vps sps pps)"

definition setupSurvCodec :: "media \<Rightarrow> camera \<Rightarrow> sdp \<Rightarrow> string + frag_muxer" where
  "setupSurvCodec md c d =
     (case sd_h264 d of
        Some (sps, pps) \<Rightarrow> setupSurvH264 md c sps pps
      | None \<Rightarrow> (case sd_h265 d of
          Some (vps, sps, pps) \<Rightarrow> setupSurvH265 md c vps sps pps
        | None \<Rightarrow> Inl ''no H264/H265 track found in RTSP stream''))"

section \<open>The whole dial\<close>

definition dial :: "media \<Rightarrow> camera \<Rightarrow> (string + frag_muxer) \<times> resource_op list" where
  "dial md c =
     (case ca_connect c of
        Some err \<Rightarrow> (Inl (''RTSP connect: '' @ err), [])
      | None \<Rightarrow> (case ca_describe c of
          Inl err \<Rightarrow> (Inl (''RTSP describe: '' @ err), [Client_Start, Client_Close])
        | Inr d \<Rightarrow> (case setupSurvCodec md c d of
            Inl err \<Rightarrow> (Inl err, [Client_Start, Client_Close])
          | Inr m \<Rightarrow> (case ca_hls c of
              Some err \<Rightarrow> (Inl (''HLS muxer: '' @ err), [Client_Start, Client_Close])
            | None \<Rightarrow> (case ca_play c of
                Some err \<Rightarrow> (Inl (''RTSP play: '' @ err), [Client_Start, Hls_Start, Hls_Close, Client_Close])
              | None \<Rightarrow> (Inr m, [Client_Start, Hls_Start]))))))"

section \<open>The packets\<close>

text \<open>
  The callback of a packet: \<open>pts\<close> is what the client makes of its time stamp and \<open>au\<close> what the decoder returns,
  \<open>None\<close> when it fails or needs more. The first component is what the HLS muxer was given, \<open>None\<close> once the
  entry has no muxer.
\<close>

definition rtp_packet :: "media \<Rightarrow> 64 word option \<Rightarrow> bytes list option
    \<Rightarrow> (64 word \<times> bytes list) list option \<times> live \<Rightarrow> (64 word \<times> bytes list) list option \<times> live" where
  "rtp_packet md pts au s =
     (case pts of None \<Rightarrow> s | Some t \<Rightarrow>
       (case au of None \<Rightarrow> s | Some a \<Rightarrow> (map_option (\<lambda>l. l @ [(t, a)]) (fst s), emit_au md t (snd s) a)))"

definition rtp_run :: "media \<Rightarrow> (64 word option \<times> bytes list option) list
    \<Rightarrow> (64 word \<times> bytes list) list option \<times> live \<Rightarrow> (64 word \<times> bytes list) list option \<times> live" where
  "rtp_run md ps s = foldl (\<lambda>s (pts, au). rtp_packet md pts au s) s ps"

section \<open>What is opened is released\<close>

text \<open>What is still open after a list of operations, \<open>None\<close> when something is closed that is not open.\<close>

fun still_open :: "resource_op list \<Rightarrow> bool \<times> bool \<Rightarrow> (bool \<times> bool) option" where
  "still_open [] s = Some s"
| "still_open (Client_Start # ops) (c, h) = (if c then None else still_open ops (True, h))"
| "still_open (Client_Close # ops) (c, h) = (if c then still_open ops (False, h) else None)"
| "still_open (Hls_Start # ops) (c, h) = (if h then None else still_open ops (c, True))"
| "still_open (Hls_Close # ops) (c, h) = (if h then still_open ops (c, False) else None)"

lemma dial_releases: "dial md c = (Inl err, ops) \<Longrightarrow> still_open ops (False, False) = Some (False, False)"
  by (auto simp: dial_def split: option.splits sum.splits)

lemma dial_keeps: "dial md c = (Inr m, ops) \<Longrightarrow> still_open ops (False, False) = Some (True, True)"
  by (auto simp: dial_def split: option.splits sum.splits)

text \<open>Starting a channel on such a camera adds an entry exactly when the client and the muxer stay open.\<close>

lemma started_iff_open:
  assumes "ev_dial ev = (\<lambda>u. fst (dial md (cam u)))" "ev_rtsp_host ev url = Some host" "\<not> isBlockedRTSPHost host"
  shows "(stream_at (fst (StartChannel ev x name url px)) x \<noteq> None)
    = (still_open (snd (dial md (cam url))) (False, False) = Some (True, True))"
proof (cases "dial md (cam url)")
  case (Pair r ops)
  show ?thesis
  proof (cases r)
    case (Inl err)
    with Pair assms show ?thesis
      by (simp add: StartChannel_def Let_def dial_releases StopChannel_def stream_at_def AList.delete_conv' split: option.split)
  next
    case (Inr m)
    with Pair assms show ?thesis
      by (simp add: StartChannel_def Let_def dial_keeps add_entry_def stream_at_def AList.update_conv')
  qed
qed

section \<open>The codec chosen\<close>

lemma h264_preferred: "sd_h264 d = Some (sps, pps) \<Longrightarrow> setupSurvCodec md c d = Inr m \<Longrightarrow> \<not> fm_h265 m"
  by (auto simp: setupSurvCodec_def setupSurvH264_def set_up_def newFragMuxerH264_def tryBuildInit_def split: option.splits)

lemma h265_otherwise: "sd_h264 d = None \<Longrightarrow> setupSurvCodec md c d = Inr m \<Longrightarrow> fm_h265 m"
  by (auto simp: setupSurvCodec_def setupSurvH265_def set_up_def newFragMuxerH265_def tryBuildInit_def
      split: option.splits prod.splits)

section \<open>The packets and the stream hub\<close>

text \<open>The callbacks are runs of the \<open>Packet\<close> steps, over the packets that decode to an access unit.\<close>

fun decoded :: "(64 word option \<times> bytes list option) list \<Rightarrow> (64 word \<times> bytes list) list" where
  "decoded [] = []"
| "decoded ((Some t, Some a) # ps) = (t, a) # decoded ps"
| "decoded (_ # ps) = decoded ps"

lemma rtp_run_steps:
  "rtp_run md ps (hls, l)
    = (map_option (\<lambda>h. h @ decoded ps) hls, foldl (live_step md) l (map (\<lambda>(t, a). Packet t a) (decoded ps)))"
  by (induction ps arbitrary: hls l rule: decoded.induct)
    (simp_all add: rtp_run_def rtp_packet_def option.map_comp comp_def option.map_ident split: option.split)

lemma rtp_run_inv:
  assumes "live_inv l"
  shows "live_inv (snd (rtp_run md ps (hls, l)))"
proof -
  have "live_inv l \<Longrightarrow> live_inv (foldl (live_step md) l ops)" for ops
    by (induction ops arbitrary: l) (simp_all add: live_inv_step)
  with assms show ?thesis by (simp add: rtp_run_steps)
qed

end
