(* ===== verification/Agent_Session.thy ===== *)
theory Agent_Session
  imports Surv_Proxy Frame_Buffer "HOL-Library.Sublist"
begin

text \<open>
  \<^verbatim>\<open>relay/agent_session.go\<close>: the state of one agent (tenant) and the fan-out of its messages to its
  watchers. Connections are numbers; the record \<open>net\<close> holds what has been written to them, in
  order, and which are closed (a write to a closed connection fails and is ignored). A Go channel
  is a list with its capacity; a send that would block is the result \<open>None\<close>, or is left to the
  caller as a step that waits. \<open>MaxWatcherQueue\<close> is positive (it is 4), so queues are buffered.
  Locks only serialise the operations; the goroutine started for a slow watcher runs at once.
\<close>

section \<open>Connections\<close>

record net =
  nt_sent :: "(nat \<times> bytes) list"
  nt_closed :: "nat list"

definition ws_write :: "nat \<Rightarrow> bytes \<Rightarrow> net \<Rightarrow> net" where
  "ws_write c msg n = (if c \<in> set (nt_closed n) then n else n\<lparr>nt_sent := nt_sent n @ [(c, msg)]\<rparr>)"

definition ws_close :: "nat \<Rightarrow> net \<Rightarrow> net" where
  "ws_close c n = n\<lparr>nt_closed := c # nt_closed n\<rparr>"

definition sent_to :: "net \<Rightarrow> nat \<Rightarrow> bytes list" where
  "sent_to n c = map snd (filter (\<lambda>x. fst x = c) (nt_sent n))"

section \<open>State\<close>

record watcher =
  wa_id :: "32 word"
  wa_ip :: string
  wa_since :: instant
  wa_cap :: nat
  wa_queue :: "bytes list"

record agent_session =
  as_id :: string
  as_name :: string
  as_publisher :: "nat option"
  as_watchers :: "(nat \<times> watcher) list"
  as_pin :: string
  as_publish_count :: int
  as_last_publish :: int
  as_bytes_in :: int
  as_bytes_out :: int
  as_watcher_count :: int
  as_connected_at :: int
  as_client_ver :: string
  as_config :: bytes
  as_proxy :: surv_proxy
  as_frame :: frame_buffer
  as_broadcast :: "bytes list"

definition broadcast_cap :: nat where "broadcast_cap = 64"

definition newAgentSession :: "string \<Rightarrow> string \<Rightarrow> agent_session" where
  "newAgentSession aid name = \<lparr>as_id = aid, as_name = name, as_publisher = None, as_watchers = [],
     as_pin = [], as_publish_count = 0, as_last_publish = 0, as_bytes_in = 0, as_bytes_out = 0,
     as_watcher_count = 0, as_connected_at = 0, as_client_ver = [], as_config = [],
     as_proxy = NewSurvProxy, as_frame = NewFrameBuffer, as_broadcast = []\<rparr>"

definition online :: "agent_session \<Rightarrow> bool" where
  "online s = (as_publisher s \<noteq> None)"

section \<open>Operations\<close>

text \<open>\<open>sess.broadcast <- msg\<close>: \<open>None\<close> while the channel is full.\<close>

definition bc_send :: "bytes \<Rightarrow> agent_session \<Rightarrow> agent_session option" where
  "bc_send msg s = (if length (as_broadcast s) < broadcast_cap
     then Some (s\<lparr>as_broadcast := as_broadcast s @ [msg]\<rparr>) else None)"

text \<open>A non-blocking send to a watcher.\<close>

definition enqueue :: "bytes \<Rightarrow> watcher \<Rightarrow> watcher option" where
  "enqueue msg w = (if length (wa_queue w) < wa_cap w then Some (w\<lparr>wa_queue := wa_queue w @ [msg]\<rparr>) else None)"

text \<open>One watcher of the fan-out: when the queue is full its oldest message is dropped and the send
  is tried again; \<open>False\<close> asks for the watcher to be removed.\<close>

definition fan_one :: "bytes \<Rightarrow> watcher \<Rightarrow> watcher \<times> bool" where
  "fan_one msg w = (case enqueue msg w of
      Some w' \<Rightarrow> (w', True)
    | None \<Rightarrow> (let w1 = w\<lparr>wa_queue := tl (wa_queue w)\<rparr>
               in case enqueue msg w1 of Some w' \<Rightarrow> (w', True) | None \<Rightarrow> (w1, False)))"

definition removeWatcher :: "nat \<Rightarrow> agent_session \<times> net \<Rightarrow> agent_session \<times> net" where
  "removeWatcher c st = (case st of (s, n) \<Rightarrow>
     ((case map_of (as_watchers s) c of
         None \<Rightarrow> s
       | Some w \<Rightarrow> s\<lparr>as_watchers := AList.delete c (as_watchers s), as_watcher_count := as_watcher_count s - 1\<rparr>),
      ws_close c n))"

definition slow_watchers :: "bytes \<Rightarrow> agent_session \<Rightarrow> nat list" where
  "slow_watchers msg s = map fst (filter (\<lambda>(c, w). \<not> snd (fan_one msg w)) (as_watchers s))"

definition fan_out :: "bytes \<Rightarrow> agent_session \<Rightarrow> agent_session" where
  "fan_out msg s = s\<lparr>as_watchers := map (\<lambda>(c, w). (c, fst (fan_one msg w))) (as_watchers s)\<rparr>"

text \<open>One round of the loop \<open>run\<close>.\<close>

definition run_step :: "agent_session \<times> net \<Rightarrow> agent_session \<times> net" where
  "run_step st = (case st of (s, n) \<Rightarrow>
     (case as_broadcast s of
        [] \<Rightarrow> st
      | msg # rest \<Rightarrow>
          foldl (\<lambda>x c. removeWatcher c x) (fan_out msg (s\<lparr>as_broadcast := rest\<rparr>), n) (slow_watchers msg s)))"

record watcher_info =
  wi_id :: "32 word"
  wi_ip :: string
  wi_since :: "instant option"

definition watcherList :: "agent_session \<Rightarrow> watcher_info list" where
  "watcherList s = map (\<lambda>(c, w). \<lparr>wi_id = wa_id w, wi_ip = wa_ip w,
     wi_since = (if wa_since w = 0 then None else Some (wa_since w))\<rparr>) (as_watchers s)"

definition sendToPublisher :: "bytes \<Rightarrow> agent_session \<Rightarrow> net \<Rightarrow> net" where
  "sendToPublisher msg s n = (case as_publisher s of None \<Rightarrow> n | Some c \<Rightarrow> ws_write c msg n)"

definition sendControlToPublisher :: "bytes \<Rightarrow> agent_session \<Rightarrow> net \<Rightarrow> net" where
  "sendControlToPublisher msg s n = sendToPublisher msg s n"

text \<open>One round of \<open>watcherWritePump\<close> (\<^verbatim>\<open>hub.go\<close>): take a message from the queue and write it.\<close>

definition pump_step :: "nat \<Rightarrow> agent_session \<times> net \<Rightarrow> agent_session \<times> net" where
  "pump_step c st = (case st of (s, n) \<Rightarrow>
     (case map_of (as_watchers s) c of
        None \<Rightarrow> st
      | Some w \<Rightarrow>
          (case wa_queue w of
             [] \<Rightarrow> st
           | msg # rest \<Rightarrow>
               (s\<lparr>as_watchers := AList.update c (w\<lparr>wa_queue := rest\<rparr>) (as_watchers s),
                  as_bytes_out := as_bytes_out s + (if c \<in> set (nt_closed n) then 0 else int (length msg))\<rparr>,
                ws_write c msg n))))"

section \<open>Lemmas\<close>

definition sess_ok :: "agent_session \<Rightarrow> bool" where
  "sess_ok s = (distinct (map fst (as_watchers s)) \<and> as_watcher_count s = int (length (as_watchers s))
     \<and> (\<forall>(c, w) \<in> set (as_watchers s). length (wa_queue w) \<le> wa_cap w)
     \<and> length (as_broadcast s) \<le> broadcast_cap)"

lemma sess_ok_new [inv_intros]: "sess_ok (newAgentSession aid name)"
  by (simp add: sess_ok_def newAgentSession_def)

lemma sess_ok_bc_send [inv_intros]: "sess_ok s \<Longrightarrow> bc_send msg s = Some s' \<Longrightarrow> sess_ok s'"
  by (auto simp: bc_send_def sess_ok_def split: if_splits)

lemma fan_one_cap: "length (wa_queue w) \<le> wa_cap w \<Longrightarrow>
    length (wa_queue (fst (fan_one msg w))) \<le> wa_cap (fst (fan_one msg w))"
  by (auto simp: fan_one_def enqueue_def Let_def split: option.splits if_splits)

lemma fan_keys [simp]: "map (fst \<circ> (\<lambda>(c, w). (c, f w))) xs = map fst xs"
  by (induction xs) auto

lemma map_of_fan: "map_of (map (\<lambda>(c, w). (c, f w)) xs) k = map_option f (map_of xs k)"
  by (induction xs) auto

lemma sess_ok_fan_out: "sess_ok s \<Longrightarrow> sess_ok (fan_out msg s)"
  unfolding sess_ok_def fan_out_def by (auto simp: fan_one_cap)

lemma length_delete:
  "distinct (map fst xs) \<Longrightarrow> map_of xs k = Some v \<Longrightarrow> length xs = Suc (length (AList.delete k xs))"
proof (induction xs)
  case (Cons x xs)
  obtain k' v' where x: "x = (k', v')" by (cases x)
  show ?case
  proof (cases "k' = k")
    case True
    with Cons.prems x have "k \<notin> fst ` set xs" by auto
    then have "AList.delete k xs = xs" by (simp add: delete_id)
    with True x show ?thesis by simp
  next
    case False
    with Cons x show ?thesis by simp
  qed
qed simp

lemma sess_ok_remove [inv_intros]: "sess_ok s \<Longrightarrow> sess_ok (fst (removeWatcher c (s, n)))"
  using length_delete [of "as_watchers s" c] set_alist_delete [of c "as_watchers s"]
  by (auto simp: sess_ok_def removeWatcher_def distinct_delete split: option.splits)

lemma sess_ok_removes: "sess_ok (fst st) \<Longrightarrow> sess_ok (fst (foldl (\<lambda>x c. removeWatcher c x) st cs))"
proof (induction cs arbitrary: st)
  case (Cons c cs)
  then show ?case using sess_ok_remove [of "fst st" c "snd st"] by simp
qed simp

lemma sess_ok_run_step [inv_intros]: "sess_ok s \<Longrightarrow> sess_ok (fst (run_step (s, n)))"
proof (cases "as_broadcast s")
  case (Cons m rest)
  assume "sess_ok s"
  with Cons have "sess_ok (s\<lparr>as_broadcast := rest\<rparr>)" by (simp add: sess_ok_def)
  then show ?thesis using Cons sess_ok_removes sess_ok_fan_out by (simp add: run_step_def)
qed (simp add: run_step_def)

lemma length_alist_update: "k \<in> fst ` set xs \<Longrightarrow> length (AList.update k v xs) = length xs"
  by (induction xs) auto

lemma sess_ok_pump [inv_intros]: "sess_ok s \<Longrightarrow> sess_ok (fst (pump_step c (s, n)))"
proof -
  assume ok: "sess_ok s"
  show ?thesis
  proof (cases "map_of (as_watchers s) c")
    case None
    with ok show ?thesis by (simp add: pump_step_def)
  next
    case (Some w)
    then have m: "(c, w) \<in> set (as_watchers s)" by (rule map_of_SomeD)
    then have c: "c \<in> fst ` set (as_watchers s)" by force
    show ?thesis
    proof (cases "wa_queue w")
      case (Cons msg rest)
      have "length rest \<le> wa_cap w" using ok m Cons by (fastforce simp: sess_ok_def)
      then show ?thesis
        using ok Some Cons c set_alist_update [of c "w\<lparr>wa_queue := rest\<rparr>" "as_watchers s"]
        by (auto simp: sess_ok_def pump_step_def distinct_update length_alist_update)
    qed (use ok Some in \<open>simp add: pump_step_def\<close>)
  qed
qed

section \<open>Runs of one session\<close>

datatype session_op = Publish bytes | Fan | Pump nat | Leave nat

text \<open>A publish that finds the channel full waits: nothing changes.\<close>

fun session_step :: "agent_session \<times> net \<Rightarrow> session_op \<Rightarrow> agent_session \<times> net" where
  "session_step (s, n) (Publish msg) = (case bc_send msg s of None \<Rightarrow> (s, n) | Some s' \<Rightarrow> (s', n))"
| "session_step st Fan = run_step st"
| "session_step st (Pump c) = pump_step c st"
| "session_step st (Leave c) = removeWatcher c st"

text \<open>The messages fanned out during a run.\<close>

fun fanned :: "agent_session \<times> net \<Rightarrow> session_op list \<Rightarrow> bytes list" where
  "fanned st [] = []"
| "fanned st (p # ps) = (if p = Fan then take 1 (as_broadcast (fst st)) else []) @ fanned (session_step st p) ps"

text \<open>What holds of a connected watcher after the messages \<open>log\<close> have been fanned out.\<close>

definition tracks :: "nat \<Rightarrow> nat \<Rightarrow> bytes list \<Rightarrow> bytes list \<Rightarrow> agent_session \<times> net \<Rightarrow> bool" where
  "tracks c cap before log st = (distinct (map fst (as_watchers (fst st))) \<and> (\<exists>w sent. map_of (as_watchers (fst st)) c = Some w \<and> wa_cap w = cap
     \<and> c \<notin> set (nt_closed (snd st)) \<and> sent_to (snd st) c = before @ sent
     \<and> subseq (sent @ wa_queue w) log \<and> suffix (wa_queue w) log \<and> length (wa_queue w) \<le> cap))"

lemma sent_to_write: "sent_to (ws_write d msg n) c
    = sent_to n c @ (if c = d \<and> c \<notin> set (nt_closed n) then [msg] else [])"
  by (auto simp: sent_to_def ws_write_def)

lemma net_fields [simp]:
  "nt_closed (ws_write d msg n) = nt_closed n" "nt_closed (ws_close d n) = d # nt_closed n"
  "sent_to (ws_close d n) c = sent_to n c"
  by (simp_all add: ws_write_def ws_close_def sent_to_def)

lemma fan_one_queue:
  assumes "0 < wa_cap w" "length (wa_queue w) \<le> wa_cap w"
  shows "snd (fan_one msg w)" "wa_cap (fst (fan_one msg w)) = wa_cap w"
    "wa_queue (fst (fan_one msg w)) = (if length (wa_queue w) < wa_cap w then wa_queue w else tl (wa_queue w)) @ [msg]"
    "length (wa_queue (fst (fan_one msg w))) \<le> wa_cap w"
  using assms by (auto simp: fan_one_def enqueue_def Let_def)

lemma tracks_removed:
  assumes "tracks c cap before log st" "c \<notin> set ds"
  shows "tracks c cap before log (foldl (\<lambda>x d. removeWatcher d x) st ds)"
  using assms
proof (induction ds arbitrary: st)
  case (Cons d ds)
  have "tracks c cap before log (removeWatcher d st)"
    using Cons.prems by (cases st) (auto simp: tracks_def removeWatcher_def distinct_delete
      simp del: map_of_eq_Some_iff split: option.splits)
  with Cons show ?case by simp
qed simp

lemma subseq_drop_oldest: "subseq (sent @ q) log \<Longrightarrow> subseq (sent @ tl q @ [m]) (log @ [m])"
proof -
  assume s: "subseq (sent @ q) log"
  have "subseq (tl q) q" by (cases q) auto
  then have "subseq (sent @ tl q) (sent @ q)" by (rule list_emb_append_mono [OF subseq_order.refl])
  with s have "subseq (sent @ tl q) log" by (rule subseq_order.trans [rotated])
  then show ?thesis using list_emb_append_mono [of "(=)" "sent @ tl q" log "[m]" "[m]"] by simp
qed

lemma subseq_push: "subseq (sent @ q) log \<Longrightarrow> subseq (sent @ q @ [m]) (log @ [m])"
  using list_emb_append_mono [of "(=)" "sent @ q" log "[m]" "[m]"] by simp

lemma suffix_tl: "suffix q log \<Longrightarrow> suffix (tl q) log"
  by (cases q) (auto intro: suffix_ConsD)

lemma tracks_fan:
  assumes "tracks c cap before log (s, n)" "0 < cap" "as_broadcast s = msg # rest"
  shows "tracks c cap before (log @ [msg]) (run_step (s, n))"
proof -
  have d: "distinct (map fst (as_watchers s))" using assms(1) by (simp add: tracks_def)
  obtain w sent where w: "map_of (as_watchers s) c = Some w" "wa_cap w = cap" "c \<notin> set (nt_closed n)"
    "sent_to n c = before @ sent" "subseq (sent @ wa_queue w) log" "suffix (wa_queue w) log"
    "length (wa_queue w) \<le> cap"
    using assms(1) by (auto simp: tracks_def)
  note f = fan_one_queue [of w msg, unfolded w(2), OF assms(2) w(7)]
  have q: "subseq (sent @ wa_queue (fst (fan_one msg w))) (log @ [msg])"
    "suffix (wa_queue (fst (fan_one msg w))) (log @ [msg])"
    unfolding f(3) using subseq_push [OF w(5)] subseq_drop_oldest [OF w(5)] suffix_tl [OF w(6)] w(6)
    by auto
  let ?s = "fan_out msg (s\<lparr>as_broadcast := rest\<rparr>)"
  have "map_of (as_watchers ?s) c = Some (fst (fan_one msg w))"
    using w(1) by (simp add: fan_out_def map_of_fan)
  with q f w d have t: "tracks c cap before (log @ [msg]) (?s, n)"
    unfolding tracks_def by (auto simp: fan_out_def)
  have "c \<notin> set (slow_watchers msg s)"
    using w(1) f(1) by (auto simp: slow_watchers_def dest!: map_of_is_SomeI [OF d] simp del: map_of_eq_Some_iff)
  from tracks_removed [OF t this] assms(3) show ?thesis by (simp add: run_step_def)
qed

lemma tracks_pump:
  assumes "tracks c cap before log (s, n)"
  shows "tracks c cap before log (pump_step d (s, n))"
proof (cases "map_of (as_watchers s) d")
  case None
  with assms show ?thesis by (simp add: pump_step_def)
next
  case (Some v)
  obtain w sent where w: "map_of (as_watchers s) c = Some w" "wa_cap w = cap" "c \<notin> set (nt_closed n)"
    "sent_to n c = before @ sent" "subseq (sent @ wa_queue w) log" "suffix (wa_queue w) log"
    "length (wa_queue w) \<le> cap" and d: "distinct (map fst (as_watchers s))"
    using assms by (auto simp: tracks_def)
  show ?thesis
  proof (cases "wa_queue v")
    case Nil
    with Some assms show ?thesis by (simp add: pump_step_def)
  next
    case (Cons m q)
    let ?s = "s\<lparr>as_watchers := AList.update d (v\<lparr>wa_queue := q\<rparr>) (as_watchers s),
       as_bytes_out := as_bytes_out s + (if d \<in> set (nt_closed n) then 0 else int (length m))\<rparr>"
    have p: "pump_step d (s, n) = (?s, ws_write d m n)" using Some Cons by (simp add: pump_step_def)
    have d': "distinct (map fst (as_watchers ?s))" using d by (simp add: distinct_update)
    show ?thesis
    proof (cases "d = c")
      case False
      with w d' show ?thesis unfolding p tracks_def by (auto simp: sent_to_write)
    next
      case True
      then have v: "v = w" using Some w(1) by simp
      have "sent_to (ws_write d m n) c = before @ (sent @ [m])" using True w(3,4) by (simp add: sent_to_write)
      moreover have "map_of (as_watchers ?s) c = Some (v\<lparr>wa_queue := q\<rparr>)" using True by simp
      moreover have "subseq ((sent @ [m]) @ q) log" "suffix q log" "length q \<le> cap"
        using w(5-7) Cons v suffix_ConsD by auto
      ultimately show ?thesis using w(2,3) d' v unfolding p tracks_def by fastforce
    qed
  qed
qed

lemma tracks_run:
  assumes "tracks c cap before log st" "0 < cap" "Leave c \<notin> set ops"
  shows "tracks c cap before (log @ fanned st ops) (foldl session_step st ops)"
  using assms
proof (induction ops arbitrary: st log)
  case (Cons p ops)
  obtain s n where st: "st = (s, n)" by (cases st)
  have "tracks c cap before (log @ (if p = Fan then take 1 (as_broadcast s) else [])) (session_step (s, n) p)"
  proof (cases p)
    case (Publish msg)
    with Cons.prems(1) st show ?thesis by (auto simp: tracks_def bc_send_def)
  next
    case Fan
    show ?thesis
    proof (cases "as_broadcast s")
      case Nil
      with Cons.prems(1) st Fan show ?thesis by (simp add: run_step_def)
    next
      case (Cons msg rest)
      with tracks_fan [of c cap before log s n] Cons.prems st Fan show ?thesis
        using \<open>tracks c cap before log st\<close> \<open>0 < cap\<close> by simp
    qed
  next
    case (Pump d)
    with tracks_pump Cons.prems(1) st show ?thesis by simp
  next
    case (Leave d)
    then have "d \<noteq> c" using Cons.prems(3) by auto
    with tracks_removed [of c cap before log "(s, n)" "[d]"] Cons.prems(1) st Leave show ?thesis by simp
  qed
  from Cons.IH [OF this Cons.prems(2)] Cons.prems(3) st show ?case by (cases "p = Fan") simp_all
qed simp

section \<open>Properties\<close>


definition toy_watcher :: watcher where
  "toy_watcher = \<lparr>wa_id = 1, wa_ip = [], wa_since = 0, wa_cap = 1, wa_queue = []\<rparr>"


end
