(* ===== verification/Events.thy ===== *)
theory Events
  imports Ov_Prelude "HOL-Library.List_Lexorder" "HOL-Library.Char_ord" "HOL-Library.Product_Lexorder"
begin

text \<open>
  \<^verbatim>\<open>relay/events.go\<close>: pairing of event edges into intervals, their storage in one file per stream
  and day, the cached reads, the overlap test of the janitor and the clustering of the event
  list. The time zone is the parameter \<open>dk\<close> (a second's local YYYYMMDD; a millisecond is looked
  up by its second). A file carries a stamp that stands for its modification time and size and
  grows with every append; whether the file system works at all is \<open>es_disk_ok\<close>. The in-memory
  store (no recording directory) keeps its intervals in the cache, as the code does. Locks only
  serialise the operations.
\<close>

section \<open>The store\<close>

record event_interval =
  iv_start :: int
  iv_end :: int
  iv_kind :: string
  iv_plate :: string

record day_file =
  df_stamp :: nat
  df_lines :: "event_interval list"

type_synonym day_key = "string \<times> string"

record event_store =
  es_persist :: bool
  es_disk_ok :: bool
  es_max :: int
  es_open :: "((string \<times> string) \<times> (int \<times> string)) list"
  es_files :: "(day_key \<times> day_file) list"
  es_cache :: "(day_key \<times> (nat \<times> event_interval list)) list"

definition newEventStore :: "bool \<Rightarrow> event_store" where
  "newEventStore persist = \<lparr>es_persist = persist, es_disk_ok = True, es_max = 10 * 60 * 1000,
     es_open = [], es_files = [], es_cache = []\<rparr>"

definition dayKeyFromMs :: "(int \<Rightarrow> string) \<Rightarrow> int \<Rightarrow> string" where
  "dayKeyFromMs dk ms = dk (ms div 1000)"

definition append_line :: "day_key \<Rightarrow> event_interval \<Rightarrow> (day_key \<times> day_file) list \<Rightarrow> (day_key \<times> day_file) list" where
  "append_line k iv fs = (case map_of fs k of
      None \<Rightarrow> AList.update k \<lparr>df_stamp = 1, df_lines = [iv]\<rparr> fs
    | Some f \<Rightarrow> AList.update k \<lparr>df_stamp = Suc (df_stamp f), df_lines = df_lines f @ [iv]\<rparr> fs)"

definition fileInterval :: "string \<Rightarrow> string \<Rightarrow> event_interval \<Rightarrow> event_store \<Rightarrow> event_store" where
  "fileInterval stream day iv st =
     (let k = (stream, day)
      in if es_persist st then
           st\<lparr>es_files := (if es_disk_ok st then append_line k iv (es_files st) else es_files st),
              es_cache := AList.delete k (es_cache st)\<rparr>
         else (case map_of (es_cache st) k of
             None \<Rightarrow> st\<lparr>es_cache := AList.update k (0, [iv]) (es_cache st)\<rparr>
           | Some (n, ivs) \<Rightarrow> st\<lparr>es_cache := AList.update k (n, ivs @ [iv]) (es_cache st)\<rparr>))"

definition mk_interval :: "string \<Rightarrow> int \<Rightarrow> int \<Rightarrow> string \<Rightarrow> event_interval" where
  "mk_interval kind startMs endMs plate =
     \<lparr>iv_start = startMs div 1000, iv_end = endMs div 1000, iv_kind = kind, iv_plate = plate\<rparr>"

definition closeInterval ::
    "(int \<Rightarrow> string) \<Rightarrow> string \<Rightarrow> string \<Rightarrow> int \<Rightarrow> int \<Rightarrow> string \<Rightarrow> event_store \<Rightarrow> event_store" where
  "closeInterval dk stream kind startMs endMs plate st =
     (let iv = mk_interval kind startMs endMs plate;
          startDay = dayKeyFromMs dk startMs;
          endDay = dayKeyFromMs dk endMs;
          st1 = fileInterval stream startDay iv st
      in if endDay \<noteq> startDay then fileInterval stream endDay iv st1 else st1)"

definition add_edge ::
    "(int \<Rightarrow> string) \<Rightarrow> string \<Rightarrow> string \<Rightarrow> bool \<Rightarrow> int \<Rightarrow> event_store \<Rightarrow> event_store" where
  "add_edge dk stream kind active tsMs st =
     (if stream = [] \<or> kind = [] \<or> tsMs \<le> 0 then st
      else let k = (stream, kind)
      in if active then
           (case map_of (es_open st) k of
              Some (startMs, plate) \<Rightarrow>
                closeInterval dk stream kind startMs (startMs + es_max st) plate
                  (st\<lparr>es_open := AList.update k (tsMs, []) (es_open st)\<rparr>)
            | None \<Rightarrow> st\<lparr>es_open := AList.update k (tsMs, []) (es_open st)\<rparr>)
         else
           (case map_of (es_open st) k of
              Some (startMs, plate) \<Rightarrow>
                closeInterval dk stream kind startMs
                  (if tsMs > startMs + es_max st then startMs + es_max st else tsMs) plate
                  (st\<lparr>es_open := AList.delete k (es_open st)\<rparr>)
            | None \<Rightarrow> st))"

text \<open>The last interval that starts at \<open>t\<close>, with its plate replaced.\<close>

fun set_plate :: "int \<Rightarrow> string \<Rightarrow> event_interval list \<Rightarrow> event_interval list" where
  "set_plate t plate [] = []"
| "set_plate t plate (iv # ivs) =
     (if iv_start iv = t \<and> \<not> list_ex (\<lambda>j. iv_start j = t) ivs then iv\<lparr>iv_plate := plate\<rparr> # ivs
      else iv # set_plate t plate ivs)"

text \<open>The open events are a Go map: which of several with the same start is found is unspecified;
  the model takes the first of its list.\<close>

definition updateOpenPlate ::
    "(int \<Rightarrow> string) \<Rightarrow> string \<Rightarrow> int \<Rightarrow> string \<Rightarrow> event_store \<Rightarrow> event_store" where
  "updateOpenPlate dk stream tsMs plate st =
     (case filter (\<lambda>((s, kind), (start, p)). s = stream \<and> start = tsMs) (es_open st) of
        (k, (start, p)) # _ \<Rightarrow> st\<lparr>es_open := AList.update k (start, plate) (es_open st)\<rparr>
      | [] \<Rightarrow>
         (let k = (stream, dayKeyFromMs dk tsMs)
          in case map_of (es_cache st) k of
               None \<Rightarrow> st
             | Some (n, ivs) \<Rightarrow>
                 st\<lparr>es_cache := AList.update k (n, set_plate (tsMs div 1000) plate ivs) (es_cache st)\<rparr>))"

definition eventsForDay :: "string \<Rightarrow> string \<Rightarrow> event_store \<Rightarrow> event_interval list \<times> event_store" where
  "eventsForDay stream day st =
     (let k = (stream, day)
      in if \<not> es_persist st then
           ((case map_of (es_cache st) k of None \<Rightarrow> [] | Some (n, ivs) \<Rightarrow> ivs), st)
         else if \<not> es_disk_ok st then ([], st)
         else case map_of (es_files st) k of
           None \<Rightarrow> ([], st)
         | Some f \<Rightarrow>
            (case map_of (es_cache st) k of
               Some (n, ivs) \<Rightarrow>
                 if n = df_stamp f then (ivs, st)
                 else (df_lines f, st\<lparr>es_cache := AList.update k (df_stamp f, df_lines f) (es_cache st)\<rparr>)
             | None \<Rightarrow> (df_lines f, st\<lparr>es_cache := AList.update k (df_stamp f, df_lines f) (es_cache st)\<rparr>)))"

definition daysSpanned :: "(int \<Rightarrow> string) \<Rightarrow> int \<Rightarrow> int \<Rightarrow> string list" where
  "daysSpanned dk startSec endSec =
     (if dk startSec = dk endSec then [dk startSec] else [dk startSec, dk endSec])"

fun overlaps_days :: "string list \<Rightarrow> string \<Rightarrow> int \<Rightarrow> int \<Rightarrow> event_store \<Rightarrow> bool \<times> event_store" where
  "overlaps_days [] stream s e st = (False, st)"
| "overlaps_days (d # ds) stream s e st =
     (case eventsForDay stream d st of (ivs, st') \<Rightarrow>
        if list_ex (\<lambda>iv. iv_start iv < e \<and> iv_end iv > s) ivs then (True, st')
        else overlaps_days ds stream s e st')"

definition overlaps :: "(int \<Rightarrow> string) \<Rightarrow> string \<Rightarrow> int \<Rightarrow> int \<Rightarrow> event_store \<Rightarrow> bool \<times> event_store" where
  "overlaps dk stream startSec endSec st =
     overlaps_days (daysSpanned dk startSec endSec) stream startSec endSec st"

section \<open>Clustering\<close>

record rec_event_item =
  ei_stream :: string
  ei_ch :: int
  ei_name :: string
  ei_kind :: string
  ei_start :: int
  ei_end :: int
  ei_plate :: string

definition recEventMergeGapSec :: int where "recEventMergeGapSec = 90"
definition recTimelineMergeGapSec :: int where "recTimelineMergeGapSec = 25"

definition merge_into :: "int \<Rightarrow> rec_event_item \<Rightarrow> rec_event_item \<Rightarrow> rec_event_item option" where
  "merge_into gap l it =
     (if ei_stream l = ei_stream it \<and> ei_kind l = ei_kind it \<and> ei_start it - ei_end l \<le> gap
      then Some (l\<lparr>ei_end := (if ei_end it > ei_end l then ei_end it else ei_end l),
                   ei_plate := (if ei_plate l = [] \<and> ei_plate it \<noteq> [] then ei_plate it else ei_plate l)\<rparr>)
      else None)"

definition merge_step :: "int \<Rightarrow> rec_event_item list \<Rightarrow> rec_event_item \<Rightarrow> rec_event_item list" where
  "merge_step gap merged it =
     (if merged = [] then [it]
      else case merge_into gap (last merged) it of
        Some l \<Rightarrow> butlast merged @ [l]
      | None \<Rightarrow> merged @ [it])"

definition shadowed :: "int \<Rightarrow> rec_event_item list \<Rightarrow> rec_event_item \<Rightarrow> bool" where
  "shadowed gap merged it =
     (ei_kind it = ''motion'' \<and>
      list_ex (\<lambda>sp. ei_kind sp \<noteq> ''motion'' \<and> ei_stream sp = ei_stream it
         \<and> ei_start it \<le> ei_end sp + gap \<and> ei_start sp \<le> ei_end it + gap) merged)"

text \<open>\<open>sort.Slice\<close> is not stable: the sort is the parameter \<open>srt\<close>.\<close>

definition clusterEventItems ::
    "(rec_event_item list \<Rightarrow> rec_event_item list) \<Rightarrow> rec_event_item list \<Rightarrow> int \<Rightarrow> rec_event_item list" where
  "clusterEventItems srt items gap =
     (if length items \<le> 1 then items
      else let merged = foldl (merge_step gap) [] (srt items)
           in filter (\<lambda>it. \<not> shadowed gap merged it) merged)"

section \<open>Lemmas: the files only grow and the cache is transparent\<close>

text \<open>An interval without its plate: plates may be corrected in the cache only.\<close>

definition core :: "event_interval \<Rightarrow> int \<times> int \<times> string" where
  "core iv = (iv_start iv, iv_end iv, iv_kind iv)"

definition file_lines :: "event_store \<Rightarrow> day_key \<Rightarrow> event_interval list" where
  "file_lines st k = (case map_of (es_files st) k of None \<Rightarrow> [] | Some f \<Rightarrow> df_lines f)"

definition cache_ok :: "event_store \<Rightarrow> bool" where
  "cache_ok st = (\<forall>k n ivs f. map_of (es_cache st) k = Some (n, ivs) \<longrightarrow> map_of (es_files st) k = Some f
     \<longrightarrow> n = df_stamp f \<longrightarrow> map core ivs = map core (df_lines f))"

definition es_ok :: "event_store \<Rightarrow> bool" where
  "es_ok st = (es_persist st \<and> es_disk_ok st \<and> es_max st = 600000 \<and> cache_ok st)"

definition grows :: "event_store \<Rightarrow> event_store \<Rightarrow> bool" where
  "grows st st' = (\<forall>k. \<exists>more. file_lines st' k = file_lines st k @ more)"

lemma grows_refl [simp]: "grows st st"
  by (simp add: grows_def)

lemma grows_trans: "grows a b \<Longrightarrow> grows b c \<Longrightarrow> grows a c"
  unfolding grows_def by (metis append_assoc)

lemma grows_in: "grows a b \<Longrightarrow> iv \<in> set (file_lines a k) \<Longrightarrow> iv \<in> set (file_lines b k)"
  unfolding grows_def by (metis Un_iff set_append)

lemma set_plate_core [simp]: "map core (set_plate t p ivs) = map core ivs"
  by (induction t p ivs rule: set_plate.induct) (auto simp: core_def)

lemma file_lines_append [simp]:
  "file_lines (st\<lparr>es_files := append_line k iv (es_files st), es_cache := c\<rparr>) k'
     = file_lines st k' @ (if k' = k then [iv] else [])"
  by (auto simp: file_lines_def append_line_def split: option.splits)

lemma fileInterval_ok:
  assumes "es_ok st"
  shows "es_ok (fileInterval s d iv st)" "grows st (fileInterval s d iv st)"
    "iv \<in> set (file_lines (fileInterval s d iv st) (s, d))"
    "es_open (fileInterval s d iv st) = es_open st"
proof -
  have f: "fileInterval s d iv st = st\<lparr>es_files := append_line (s, d) iv (es_files st),
      es_cache := AList.delete (s, d) (es_cache st)\<rparr>"
    using assms by (simp add: fileInterval_def es_ok_def Let_def)
  show "iv \<in> set (file_lines (fileInterval s d iv st) (s, d))"
    "es_open (fileInterval s d iv st) = es_open st" "grows st (fileInterval s d iv st)"
    unfolding f grows_def by auto
  show "es_ok (fileInterval s d iv st)"
    using assms unfolding f es_ok_def cache_ok_def
    by (auto simp: append_line_def split: option.splits if_splits)
qed

lemma closeInterval_ok:
  assumes "es_ok st"
  shows "es_ok (closeInterval dk s kind a b p st)" "grows st (closeInterval dk s kind a b p st)"
    "mk_interval kind a b p \<in> set (file_lines (closeInterval dk s kind a b p st) (s, dayKeyFromMs dk a))"
    "mk_interval kind a b p \<in> set (file_lines (closeInterval dk s kind a b p st) (s, dayKeyFromMs dk b))"
proof -
  let ?iv = "mk_interval kind a b p"
  let ?st1 = "fileInterval s (dayKeyFromMs dk a) ?iv st"
  note 1 = fileInterval_ok [OF assms(1), where s = s and d = "dayKeyFromMs dk a" and iv = ?iv]
  note 2 = fileInterval_ok [OF 1(1), where s = s and d = "dayKeyFromMs dk b" and iv = ?iv]
  show "es_ok (closeInterval dk s kind a b p st)" "grows st (closeInterval dk s kind a b p st)"
    "?iv \<in> set (file_lines (closeInterval dk s kind a b p st) (s, dayKeyFromMs dk a))"
    "?iv \<in> set (file_lines (closeInterval dk s kind a b p st) (s, dayKeyFromMs dk b))"
    using 1 2 grows_trans [OF 1(2) 2(2)] grows_in [OF 2(2)]
    by (auto simp: closeInterval_def Let_def)
qed

lemma es_ok_open [simp]: "es_ok (st\<lparr>es_open := l\<rparr>) = es_ok st"
  by (simp add: es_ok_def cache_ok_def)

lemma file_lines_open [simp]: "file_lines (st\<lparr>es_open := l\<rparr>) = file_lines st"
  by (simp add: file_lines_def fun_eq_iff)

lemma file_lines_cache [simp]: "file_lines (st\<lparr>es_cache := l\<rparr>) = file_lines st"
  by (simp add: file_lines_def fun_eq_iff)

lemma grows_open [simp]: "grows (st\<lparr>es_open := l\<rparr>) st' = grows st st'" "grows st (st'\<lparr>es_open := l\<rparr>) = grows st st'"
  by (simp_all add: grows_def)

lemma close_open:
  assumes "es_ok st"
  shows "es_ok (closeInterval dk s kind a b p (st\<lparr>es_open := l\<rparr>))"
    "grows st (closeInterval dk s kind a b p (st\<lparr>es_open := l\<rparr>))"
  using closeInterval_ok(1,2) [of "st\<lparr>es_open := l\<rparr>" dk s kind a b p] assms by simp_all

lemma add_edge_ok:
  assumes "es_ok st"
  shows "es_ok (add_edge dk s kind act ts st) \<and> grows st (add_edge dk s kind act ts st)"
  using assms by (auto simp: add_edge_def Let_def close_open split: option.splits)

lemma updateOpenPlate_ok:
  assumes "es_ok st"
  shows "es_ok (updateOpenPlate dk s ts p st) \<and> grows st (updateOpenPlate dk s ts p st)"
proof (cases "filter (\<lambda>((s', kind), (start, p)). s' = s \<and> start = ts) (es_open st)")
  case Nil
  show ?thesis
  proof (cases "map_of (es_cache st) (s, dayKeyFromMs dk ts)")
    case None
    with Nil assms show ?thesis by (simp add: updateOpenPlate_def)
  next
    case (Some c)
    obtain n ivs where c: "c = (n, ivs)" by (cases c)
    let ?c = "AList.update (s, dayKeyFromMs dk ts) (n, set_plate (ts div 1000) p ivs) (es_cache st)"
    have "cache_ok (st\<lparr>es_cache := ?c\<rparr>)"
      using assms Some c unfolding es_ok_def cache_ok_def by auto
    with Nil assms Some c show ?thesis by (simp add: updateOpenPlate_def es_ok_def grows_def)
  qed
next
  case (Cons e es)
  with assms show ?thesis by (cases e) (auto simp: updateOpenPlate_def)
qed

lemma eventsForDay_ok:
  assumes "es_ok st" "eventsForDay s d st = (ivs, st')"
  shows "es_ok st'" "es_files st' = es_files st" "map core ivs = map core (file_lines st (s, d))"
proof -
  have "es_ok st' \<and> es_files st' = es_files st \<and> map core ivs = map core (file_lines st (s, d))"
  proof (cases "map_of (es_files st) (s, d)")
    case None
    with assms show ?thesis
      by (auto simp: eventsForDay_def es_ok_def file_lines_def split: option.splits)
  next
    case (Some f)
    let ?c = "AList.update (s, d) (df_stamp f, df_lines f) (es_cache st)"
    have upd: "cache_ok (st\<lparr>es_cache := ?c\<rparr>)"
      using assms(1) Some unfolding es_ok_def cache_ok_def by auto
    show ?thesis
    proof (cases "map_of (es_cache st) (s, d)")
      case None
      with Some upd assms show ?thesis
        by (auto simp: eventsForDay_def es_ok_def file_lines_def)
    next
      case (Some c)
      obtain n iv' where c: "c = (n, iv')" by (cases c)
      have "n = df_stamp f \<Longrightarrow> map core iv' = map core (df_lines f)"
        using assms(1) Some \<open>map_of (es_files st) (s, d) = Some f\<close> c
        unfolding es_ok_def cache_ok_def by blast
      with Some \<open>map_of (es_files st) (s, d) = Some f\<close> c upd assms show ?thesis
        by (auto simp: eventsForDay_def es_ok_def file_lines_def split: if_splits)
    qed
  qed
  then show "es_ok st'" "es_files st' = es_files st" "map core ivs = map core (file_lines st (s, d))"
    by simp_all
qed

lemma same_files: "es_files st' = es_files st \<Longrightarrow> file_lines st' = file_lines st"
  by (simp add: file_lines_def fun_eq_iff)

text \<open>The answer of the overlap test, in terms of the files alone.\<close>

definition hits :: "int \<Rightarrow> int \<Rightarrow> int \<times> int \<times> string \<Rightarrow> bool" where
  "hits s e c = (fst c < e \<and> fst (snd c) > s)"

lemma overlaps_days_iff:
  assumes "es_ok st"
  shows "fst (overlaps_days ds stream s e st)
      \<longleftrightarrow> (\<exists>d\<in>set ds. \<exists>iv\<in>set (file_lines st (stream, d)). hits s e (core iv))"
  using assms
proof (induction ds stream s e st rule: overlaps_days.induct)
  case (2 d ds stream s e st)
  obtain ivs st' where r: "eventsForDay stream d st = (ivs, st')" by fastforce
  note ok = eventsForDay_ok [OF "2.prems" r]
  have "list_ex (\<lambda>iv. iv_start iv < e \<and> iv_end iv > s) ivs \<longleftrightarrow> (\<exists>c\<in>set (map core ivs). hits s e c)"
    by (auto simp: list_ex_iff hits_def core_def)
  also have "\<dots> \<longleftrightarrow> (\<exists>iv\<in>set (file_lines st (stream, d)). hits s e (core iv))"
    unfolding ok(3) by auto
  finally have h: "list_ex (\<lambda>iv. iv_start iv < e \<and> iv_end iv > s) ivs
      \<longleftrightarrow> (\<exists>iv\<in>set (file_lines st (stream, d)). hits s e (core iv))" .
  show ?case
  proof (cases "list_ex (\<lambda>iv. iv_start iv < e \<and> iv_end iv > s) ivs")
    case True
    with h r show ?thesis by auto
  next
    case False
    with "2.IH" [OF r [symmetric] False ok(1)] r h same_files [OF ok(2)] show ?thesis by simp
  qed
qed simp

lemma overlaps_days_state: "es_ok st \<Longrightarrow> es_ok (snd (overlaps_days ds stream s e st))
     \<and> es_files (snd (overlaps_days ds stream s e st)) = es_files st"
proof (induction ds stream s e st rule: overlaps_days.induct)
  case (2 d ds stream s e st)
  obtain ivs st' where r: "eventsForDay stream d st = (ivs, st')" by fastforce
  note ok = eventsForDay_ok [OF "2.prems" r]
  show ?case
  proof (cases "list_ex (\<lambda>iv. iv_start iv < e \<and> iv_end iv > s) ivs")
    case True
    with r ok show ?thesis by simp
  next
    case False
    with "2.IH" [OF r [symmetric] False ok(1)] r ok(2) show ?thesis by simp
  qed
qed simp

datatype event_op = Edge string string bool int | Plate string int string | Read string string | Test string int int

fun event_step :: "(int \<Rightarrow> string) \<Rightarrow> event_store \<Rightarrow> event_op \<Rightarrow> event_store" where
  "event_step dk st (Edge s k a ts) = add_edge dk s k a ts st"
| "event_step dk st (Plate s ts p) = updateOpenPlate dk s ts p st"
| "event_step dk st (Read s d) = snd (eventsForDay s d st)"
| "event_step dk st (Test s a b) = snd (overlaps dk s a b st)"

lemma same_files_grows: "es_files st' = es_files st \<Longrightarrow> grows st st'"
  using same_files [of st' st] by (simp add: grows_def)

lemma event_step_ok:
  assumes "es_ok st"
  shows "es_ok (event_step dk st p) \<and> grows st (event_step dk st p)"
proof (cases p)
  case (Read s d)
  obtain ivs st' where r: "eventsForDay s d st = (ivs, st')" by fastforce
  from eventsForDay_ok(1,2) [OF assms r] same_files_grows r Read show ?thesis by simp
next
  case (Test s a b)
  with overlaps_days_state [OF assms] same_files_grows show ?thesis by (simp add: overlaps_def)
qed (use assms in \<open>simp_all add: add_edge_ok updateOpenPlate_ok\<close>)

lemma event_run_ok: "es_ok st \<Longrightarrow> es_ok (foldl (event_step dk) st ps) \<and> grows st (foldl (event_step dk) st ps)"
proof (induction ps arbitrary: st)
  case (Cons p ps)
  then show ?case using event_step_ok [OF Cons.prems, of dk p] grows_trans by fastforce
qed simp

section \<open>Lemmas: clustering\<close>

definition covers :: "rec_event_item \<Rightarrow> rec_event_item \<Rightarrow> bool" where
  "covers m x = (ei_stream m = ei_stream x \<and> ei_kind m = ei_kind x \<and> ei_start m \<le> ei_start x
     \<and> ei_end x \<le> ei_end m)"

definition item_key :: "rec_event_item \<Rightarrow> string \<times> string \<times> int" where
  "item_key x = (ei_stream x, ei_kind x, ei_start x)"

definition apart :: "int \<Rightarrow> rec_event_item \<Rightarrow> rec_event_item \<Rightarrow> bool" where
  "apart gap a b = (ei_stream a = ei_stream b \<longrightarrow> ei_kind a = ei_kind b \<longrightarrow> ei_start b - ei_end a > gap)"

definition merge_inv :: "int \<Rightarrow> rec_event_item list \<Rightarrow> rec_event_item list \<Rightarrow> bool" where
  "merge_inv gap done merged = ((\<forall>x\<in>set done. \<exists>m\<in>set merged. covers m x)
     \<and> (\<forall>m\<in>set merged. \<exists>x\<in>set done. item_key m = item_key x)
     \<and> sorted_wrt (\<lambda>a b. item_key a \<le> item_key b) merged
     \<and> sorted_wrt (apart gap) merged)"

lemma key_start: "item_key a \<le> item_key b \<Longrightarrow> ei_stream a = ei_stream b \<Longrightarrow> ei_kind a = ei_kind b
    \<Longrightarrow> ei_start a \<le> ei_start b"
  by (simp add: item_key_def)

lemma key_between:
  "item_key a \<le> item_key m \<Longrightarrow> item_key m \<le> item_key b \<Longrightarrow> ei_stream a = ei_stream b
    \<Longrightarrow> ei_kind a = ei_kind b \<Longrightarrow> ei_stream m = ei_stream b \<and> ei_kind m = ei_kind b"
  by (auto simp: item_key_def less_eq_prod_def)

lemma merge_step_inv:
  assumes inv: "merge_inv gap done merged" and le: "\<forall>x\<in>set done. item_key x \<le> item_key it"
  shows "merge_inv gap (done @ [it]) (merge_step gap merged it)"
proof (cases "merged = []")
  case True
  with inv have "done = []" by (auto simp: merge_inv_def)
  with True show ?thesis by (simp add: merge_step_def merge_inv_def covers_def)
next
  case False
  define l where "l = last merged"
  define ms where "ms = butlast merged"
  have m: "merged = ms @ [l]" using False by (simp add: l_def ms_def)
  have lk: "\<forall>x\<in>set merged. item_key x \<le> item_key it"
    using inv le unfolding merge_inv_def by metis
  have srt: "\<forall>x\<in>set ms. item_key x \<le> item_key l" "sorted_wrt (\<lambda>a b. item_key a \<le> item_key b) ms"
    "\<forall>x\<in>set ms. apart gap x l" "sorted_wrt (apart gap) ms"
    using inv by (auto simp: merge_inv_def m sorted_wrt_append)
  show ?thesis
  proof (cases "merge_into gap l it")
    case None
    then have st: "merge_step gap merged it = merged @ [it]"
      using False by (simp add: merge_step_def l_def)
    have al: "apart gap l it" using None by (auto simp: merge_into_def apart_def split: if_splits)
    have "apart gap x it" if x: "x \<in> set ms" for x
      unfolding apart_def
    proof (intro impI)
      assume g: "ei_stream x = ei_stream it" "ei_kind x = ei_kind it"
      have "ei_stream l = ei_stream it \<and> ei_kind l = ei_kind it"
        by (rule key_between [of x l it]) (use srt(1) x lk m g in auto)
      moreover from this have "ei_start l \<le> ei_start it"
        using key_start [of l it] lk m by simp
      moreover have "ei_start l - ei_end x > gap"
        using srt(3) x g calculation(1) by (simp add: apart_def)
      ultimately show "gap < ei_start it - ei_end x" by linarith
    qed
    with al have "\<forall>x\<in>set merged. apart gap x it" by (simp add: m)
    with inv lk show ?thesis
      unfolding st merge_inv_def by (auto simp: sorted_wrt_append covers_def)
  next
    case (Some l')
    then have st: "merge_step gap merged it = ms @ [l']"
      using False by (simp add: merge_step_def l_def ms_def)
    have g: "ei_stream l = ei_stream it" "ei_kind l = ei_kind it"
      and l': "item_key l' = item_key l" "ei_stream l' = ei_stream l" "ei_kind l' = ei_kind l"
        "ei_start l' = ei_start l" "ei_end l \<le> ei_end l'" "ei_end it \<le> ei_end l'"
      using Some by (auto simp: merge_into_def item_key_def split: if_splits)
    have sl: "ei_start l \<le> ei_start it" using key_start [OF _ g] lk m by simp
    have cov: "covers l' it" using g l' sl by (simp add: covers_def)
    have "covers l x \<Longrightarrow> covers l' x" for x using l' by (auto simp: covers_def)
    then have "\<forall>x\<in>set (done @ [it]). \<exists>m\<in>set (ms @ [l']). covers m x"
      using inv cov unfolding merge_inv_def m by (auto; meson)
    moreover have "\<forall>m\<in>set (ms @ [l']). \<exists>x\<in>set (done @ [it]). item_key m = item_key x"
      using inv l'(1) unfolding merge_inv_def m by auto
    moreover have "sorted_wrt (\<lambda>a b. item_key a \<le> item_key b) (ms @ [l'])"
      "sorted_wrt (apart gap) (ms @ [l'])"
      using srt l' by (auto simp: sorted_wrt_append apart_def)
    ultimately show ?thesis unfolding st merge_inv_def by blast
  qed
qed

lemma merge_all_inv:
  "sorted_wrt (\<lambda>a b. item_key a \<le> item_key b) xs \<Longrightarrow> merge_inv gap xs (foldl (merge_step gap) [] xs)"
proof (induction xs rule: rev_induct)
  case Nil
  then show ?case by (simp add: merge_inv_def)
next
  case (snoc x xs)
  then have "merge_inv gap xs (foldl (merge_step gap) [] xs)" "\<forall>y\<in>set xs. item_key y \<le> item_key x"
    by (simp_all add: sorted_wrt_append)
  from merge_step_inv [OF this] show ?case by simp
qed

section \<open>Properties\<close>

text \<open>Clustering loses no event: every interval is contained in a cluster of its own stream and
  kind that is shown, unless it is plain motion and a more specific event of the same stream
  within the gap is shown instead; and two shown clusters of one stream and kind are further
  apart than the gap. This holds for every way of sorting by stream, kind and start.\<close>

lemma clustering_keeps_events:
  assumes "mset (srt items) = mset items" "sorted_wrt (\<lambda>a b. item_key a \<le> item_key b) (srt items)"
    and "length items > 1" "x \<in> set items"
  shows "(\<exists>m. covers m x \<and> (m \<in> set (clusterEventItems srt items gap)
        \<or> ei_kind x = ''motion'' \<and> (\<exists>sp\<in>set (clusterEventItems srt items gap).
             ei_kind sp \<noteq> ''motion'' \<and> ei_stream sp = ei_stream x
             \<and> ei_start m \<le> ei_end sp + gap \<and> ei_start sp \<le> ei_end m + gap)))
     \<and> sorted_wrt (apart gap) (clusterEventItems srt items gap)"
proof -
  let ?merged = "foldl (merge_step gap) [] (srt items)"
  have c: "clusterEventItems srt items gap = filter (\<lambda>it. \<not> shadowed gap ?merged it) ?merged"
    using assms(3) by (simp add: clusterEventItems_def Let_def)
  note inv = merge_all_inv [OF assms(2), of gap]
  have "x \<in> set (srt items)" using assms(4) mset_eq_setD [OF assms(1)] by simp
  then obtain m where m: "m \<in> set ?merged" "covers m x" using inv by (auto simp: merge_inv_def)
  have "m \<in> set (clusterEventItems srt items gap)
      \<or> ei_kind x = ''motion'' \<and> (\<exists>sp\<in>set (clusterEventItems srt items gap).
           ei_kind sp \<noteq> ''motion'' \<and> ei_stream sp = ei_stream x
           \<and> ei_start m \<le> ei_end sp + gap \<and> ei_start sp \<le> ei_end m + gap)"
  proof (cases "shadowed gap ?merged m")
    case True
    then obtain sp where "sp \<in> set ?merged" "ei_kind sp \<noteq> ''motion''" "ei_stream sp = ei_stream m"
      "ei_start m \<le> ei_end sp + gap" "ei_start sp \<le> ei_end m + gap" "ei_kind m = ''motion''"
      by (auto simp: shadowed_def list_ex_iff)
    with m(2) show ?thesis unfolding c by (auto simp: shadowed_def covers_def intro!: bexI [of _ sp])
  qed (use m in \<open>simp add: c\<close>)
  moreover have "sorted_wrt (apart gap) (clusterEventItems srt items gap)"
    using inv unfolding c merge_inv_def by (simp add: sorted_wrt_filter)
  ultimately show ?thesis using m(2) by blast
qed

definition sample_item :: "string \<Rightarrow> int \<Rightarrow> int \<Rightarrow> rec_event_item" where
  "sample_item kind a b = \<lparr>ei_stream = ''s'', ei_ch = 1, ei_name = [], ei_kind = kind, ei_start = a,
     ei_end = b, ei_plate = []\<rparr>"

text \<open>Footage of an event is never seen as event-free: once an event has been closed by its end
  edge, every recorded segment that overlaps it (shorter than 23 hours) passes the janitor's
  overlap test, across midnight too, whatever edges, plates and reads come in between. The
  hypothesis on the time zone says that a local day has at least 23 hours.\<close>

lemma closed_event_protects_footage:
  assumes "es_ok st" "map_of (es_open st) (stream, kind) = Some (t0, plate)" "0 < t0" "0 < ts"
    and "stream \<noteq> []" "kind \<noteq> []"
    and "\<forall>a b c. a \<le> b \<longrightarrow> b \<le> c \<longrightarrow> c - a < 82800 \<longrightarrow> dk b = dk a \<or> dk b = dk c"
    and "st' = foldl (event_step dk) (add_edge dk stream kind False ts st) ops"
    and "t0 div 1000 < e" "s < min ts (t0 + 600000) div 1000" "s \<le> e" "e - s < 82800"
  shows "fst (overlaps dk stream s e st')"
proof -
  let ?stop = "min ts (t0 + 600000)"
  let ?st0 = "st\<lparr>es_open := AList.delete (stream, kind) (es_open st)\<rparr>"
  let ?iv = "mk_interval kind t0 ?stop plate"
  define S where "S = t0 div 1000"
  define E where "E = ?stop div 1000"
  have m: "es_max st = 600000" using assms(1) by (simp add: es_ok_def)
  have add: "add_edge dk stream kind False ts st = closeInterval dk stream kind t0 ?stop plate ?st0"
    using assms(2-6) m by (simp add: add_edge_def min_def)
  have ok0: "es_ok ?st0" using assms(1) by simp
  note c = closeInterval_ok [OF ok0, where dk = dk and s = stream and kind = kind and a = t0
      and b = ?stop and p = plate, folded add]
  note r = event_run_ok [OF c(1), of dk ops, folded assms(8)]
  have inS: "?iv \<in> set (file_lines st' (stream, dk S))" and inE: "?iv \<in> set (file_lines st' (stream, dk E))"
    using grows_in [OF conjunct2 [OF r]] c(3,4) by (simp_all add: dayKeyFromMs_def S_def E_def)
  have hit: "hits s e (core ?iv)"
    using assms(9,10) by (simp add: hits_def core_def mk_interval_def)
  have len: "E - S \<le> 600"
  proof -
    have "E \<le> (t0 + 600000) div 1000" unfolding E_def by (rule zdiv_mono1) simp_all
    also have "\<dots> = S + 600" by (simp add: S_def)
    finally show ?thesis by simp
  qed
  have "dk S \<in> {dk s, dk e} \<or> dk E \<in> {dk s, dk e}"
  proof (cases "s \<le> S")
    case True
    then have "dk S = dk s \<or> dk S = dk e"
      using assms(7) [rule_format, of s S e] assms(9,12) by (simp add: S_def)
    then show ?thesis by auto
  next
    case False
    then have "S \<le> s" "s \<le> E" "E - S < 82800"
      using assms(10) len by (simp_all add: E_def)
    then have "dk s = dk S \<or> dk s = dk E" by (rule assms(7) [rule_format])
    then show ?thesis by auto
  qed
  then have "\<exists>d\<in>set (daysSpanned dk s e). ?iv \<in> set (file_lines st' (stream, d))"
    using inS inE by (auto simp: daysSpanned_def)
  then show ?thesis
    using overlaps_days_iff [OF conjunct1 [OF r]] hit unfolding overlaps_def by blast
qed

end
