(* ===== verification/Recorder.thy ===== *)
theory Recorder
  imports Events Surv_Proxy
begin

text \<open>
  \<^verbatim>\<open>relay/recorder.go\<close>, \<^verbatim>\<open>relay/recordings.go\<close> and the assembly of \<^verbatim>\<open>relay/rectimeline.go\<close>: which
  streams are recorded from where, the disk-cap janitor, the index of recorded segments and the
  checks on requested paths. The file system is the parameter \<open>fs\<close> (a directory's modification
  time, 0 when it cannot be read, and its entries); the calendar is the record \<open>calendar\<close> (the
  local day of a second, the following local midnight, and the second a segment name stands
  for). Modification times are in nanoseconds, other times in seconds that lie far inside 64 bits.
  No entry is a symbolic link. The recordings root is a clean absolute path other than \<open>/\<close>. Where the code sorts by a
  segment's start, two files with one start (names that stand for the same second) come in
  directory order here.
\<close>

section \<open>Files and the calendar\<close>

record file_info =
  fi_dir :: bool
  fi_size :: int
  fi_mtime :: nat

record directory =
  dr_mtime :: nat
  dr_entries :: "(string \<times> file_info) list"

type_synonym file_system = "string \<Rightarrow> directory"

record calendar =
  cal_day :: "int \<Rightarrow> string"
  cal_next :: "int \<Rightarrow> int"
  cal_parse :: "string \<Rightarrow> int option"

definition dirMtime :: "file_system \<Rightarrow> string \<Rightarrow> nat" where
  "dirMtime fs dir = dr_mtime (fs dir)"

definition readDirNamesSafe :: "file_system \<Rightarrow> string \<Rightarrow> string list" where
  "readDirNamesSafe fs dir = map fst (dr_entries (fs dir))"

text \<open>\<open>os.Lstat\<close> of an entry.\<close>

definition lstat :: "file_system \<Rightarrow> string \<Rightarrow> string \<Rightarrow> file_info option" where
  "lstat fs dir name = map_of (dr_entries (fs dir)) name"

text \<open>The loop of \<open>daysInRange\<close>: from the start's day, one local midnight after the other. A calendar
  moves forward; were it not to, the model stops where the code would not.\<close>

function day_loop :: "calendar \<Rightarrow> int \<Rightarrow> int \<Rightarrow> string list" where
  "day_loop cal d lst = (if d > lst then []
     else cal_day cal d # (if cal_next cal d > d then day_loop cal (cal_next cal d) lst else []))"
  by pat_completeness auto
termination by (relation "measure (\<lambda>(cal, d, lst). nat (lst + 1 - d))") auto

declare day_loop.simps [simp del]

definition daysInRange :: "calendar \<Rightarrow> int \<Rightarrow> int \<Rightarrow> string list" where
  "daysInRange cal startSec endSec = (if endSec \<le> startSec then [] else day_loop cal startSec endSec)"

section \<open>State\<close>

record rec_segment =
  rs_name :: string
  rs_start :: int
  rs_dur :: int
  rs_size :: int

record recorder =
  rr_dir :: string
  rr_self_hls :: string
  rr_cap :: int
  rr_seg_secs :: int
  rr_recs :: "(string \<times> string \<times> nat) list"
  rr_next :: nat
  rr_cancelled :: "nat list"
  rr_seg_cache :: "((bool \<times> string \<times> string) \<times> nat \<times> rec_segment list) list"
  rr_day_cache :: "(string \<times> nat \<times> string list) list"

definition recSegSeconds :: int where "recSegSeconds = 300"
definition recKeepAllHoursDefault :: int where "recKeepAllHoursDefault = 72"
definition recKeepEventDaysDefault :: int where "recKeepEventDaysDefault = 30"
definition recSegIdxCap :: nat where "recSegIdxCap = 1024"
definition recFinalizeQuiesce :: int where "recFinalizeQuiesce = 90 * 10 ^ 9"

text \<open>\<open>newRecorder\<close> with the environment's RELAY_REC_DIR, the outcome of creating the directory and
  the parsed cap; \<open>None\<close> is recording disabled.\<close>

definition newRecorder :: "string \<Rightarrow> bool \<Rightarrow> int \<Rightarrow> string \<Rightarrow> recorder option" where
  "newRecorder recDir mkdirOk cap relayPort =
     (let dir = TrimSpace recDir
      in if dir = [] then None else if \<not> mkdirOk then None
         else Some \<lparr>rr_dir = dir, rr_self_hls = ''http://127.0.0.1:'' @ relayPort, rr_cap = cap,
                rr_seg_secs = recSegSeconds, rr_recs = [], rr_next = 0, rr_cancelled = [],
                rr_seg_cache = [], rr_day_cache = []\<rparr>)"

section \<open>What is recorded\<close>

definition last_segment :: "string \<Rightarrow> string" where
  "last_segment x = (case cut_last CHR ''/'' x of None \<Rightarrow> x | Some (_, b) \<Rightarrow> b)"

definition target_step :: "string list \<Rightarrow> (string \<times> string) list \<Rightarrow> string \<Rightarrow> (string \<times> string) list" where
  "target_step active out x =
     (if has_prefix (last_segment x) ''wall'' then out
      else if isMainStreamID x then AList.update (baseStreamID x) x out
      else if mainStreamID x \<notin> set active then AList.update x x out else out)"

definition recordTargets :: "string list \<Rightarrow> (string \<times> string) list" where
  "recordTargets active = foldl (target_step active) [] active"

text \<open>The active streams of all sessions, by full path: \<open>stats\<close> pairs a session id with its
  stream statistics.\<close>

definition active_paths :: "(string \<times> stream_stat list) list \<Rightarrow> string list" where
  "active_paths sessions = concat (map (\<lambda>(sid, stats).
     map (\<lambda>s. streamPath sid (ss_id s)) (filter (\<lambda>s. ss_active s \<and> \<not> has_prefix (ss_id s) ''wall'') stats)) sessions)"

definition startLocked :: "string \<Rightarrow> string \<Rightarrow> recorder \<Rightarrow> recorder" where
  "startLocked outputPath sourcePath r =
     r\<lparr>rr_recs := AList.update outputPath (sourcePath, rr_next r) (rr_recs r), rr_next := Suc (rr_next r)\<rparr>"

definition want_step :: "recorder \<Rightarrow> string \<times> string \<Rightarrow> recorder" where
  "want_step r w = (case w of (out, src) \<Rightarrow>
     case map_of (rr_recs r) out of
       None \<Rightarrow> startLocked out src r
     | Some (cur, uid) \<Rightarrow>
         if cur \<noteq> src then startLocked out src (r\<lparr>rr_cancelled := uid # rr_cancelled r\<rparr>) else r)"

definition rec_reconcile :: "string list \<Rightarrow> recorder \<Rightarrow> recorder" where
  "rec_reconcile active r =
     (let want = recordTargets active;
          r1 = foldl want_step r want;
          gone = filter (\<lambda>(out, p). map_of want out = None) (rr_recs r1)
      in r1\<lparr>rr_recs := filter (\<lambda>(out, p). map_of want out \<noteq> None) (rr_recs r1),
            rr_cancelled := map (snd \<circ> snd) gone @ rr_cancelled r1\<rparr>)"

definition rec_stopAll :: "recorder \<Rightarrow> recorder" where
  "rec_stopAll r = r\<lparr>rr_recs := [], rr_cancelled := map (snd \<circ> snd) (rr_recs r) @ rr_cancelled r\<rparr>"

definition recordingOutputArgs :: "int \<Rightarrow> string \<Rightarrow> string list" where
  "recordingOutputArgs segSecs pattern =
     [''-c'', ''copy'', ''-an'', ''-f'', ''segment'', ''-segment_time'', itoa segSecs,
      ''-segment_format'', ''mp4'', ''-segment_format_options'',
      ''movflags=+frag_keyframe+empty_moov+default_base_moof:flush_packets=1'',
      ''-reset_timestamps'', ''1'', ''-strftime'', ''1'', ''-flush_packets'', ''1'', pattern]"

definition recorder_args :: "recorder \<Rightarrow> string \<Rightarrow> string \<Rightarrow> string list" where
  "recorder_args r hlsURL outDir =
     [''-hide_banner'', ''-loglevel'', ''error'', ''-rw_timeout'', ''15000000'', ''-i'', hlsURL]
     @ recordingOutputArgs (rr_seg_secs r) (outDir @ ''/%Y%m%d_%H%M%S.mp4'')"

text \<open>The waits of \<open>supervise\<close> over \<open>n\<close> exits of ffmpeg: it never goes back to 3 seconds.\<close>

fun rec_delays :: "nat \<Rightarrow> nat \<Rightarrow> nat list" where
  "rec_delays backoff 0 = []"
| "rec_delays backoff (Suc n) = backoff # rec_delays (if backoff < 30 then backoff * 2 else backoff) n"

section \<open>The janitor\<close>

record jan_seg =
  js_path :: string
  js_size :: int
  js_start :: int
  js_dur :: int
  js_ev :: bool

record jan_policy =
  jp_keep_all :: int
  jp_keep_event :: int

text \<open>The tier of a segment, in the order of sacrifice: 0 is \<open>tier1\<close>, 1 is \<open>tier3\<close>, 2 is \<open>tier2\<close>
  and 3 is \<open>keepAll\<close>.\<close>

definition tier :: "jan_policy \<Rightarrow> jan_seg \<Rightarrow> nat" where
  "tier p s = (if js_start s \<ge> jp_keep_all p then 3 else if \<not> js_ev s then 0
     else if js_start s < jp_keep_event p then 1 else 2)"

fun take_until :: "int \<Rightarrow> int \<Rightarrow> jan_seg list \<Rightarrow> jan_seg list" where
  "take_until cap rest [] = []"
| "take_until cap rest (s # ss) = (if rest \<le> cap then [] else s # take_until cap (rest - js_size s) ss)"

text \<open>\<open>sortByStart\<close> is \<open>sort.Slice\<close>, the parameter \<open>srt\<close>.\<close>

definition sacrifice :: "(jan_seg list \<Rightarrow> jan_seg list) \<Rightarrow> jan_policy \<Rightarrow> jan_seg list \<Rightarrow> jan_seg list" where
  "sacrifice srt p segs = concat (map (\<lambda>k. srt (filter (\<lambda>s. tier p s = k) segs)) [0, 1, 2, 3])"

definition janitorDeleteOrder ::
    "(jan_seg list \<Rightarrow> jan_seg list) \<Rightarrow> jan_seg list \<Rightarrow> int \<Rightarrow> int \<Rightarrow> jan_policy \<Rightarrow> jan_seg list" where
  "janitorDeleteOrder srt segs cap used p =
     (if cap \<le> 0 \<or> used \<le> cap then [] else take_until cap used (sacrifice srt p segs))"

text \<open>\<open>fmt.Sscanf(s, "%d")\<close>: an optional sign and the longest run of digits, the rest ignored.\<close>

definition scan_int :: "string \<Rightarrow> int option" where
  "scan_int s =
     (let (neg, ds) = (case s of [] \<Rightarrow> (False, []) | c # cs \<Rightarrow>
            if c = CHR ''-'' then (True, cs) else if c = CHR ''+'' then (False, cs) else (False, s));
          d = takeWhile is_digit ds
      in if d = [] then None
         else let v = (if neg then - int (dec_val d) else int (dec_val d))
              in if min_int64 \<le> v \<and> v \<le> max_int64 then Some v else None)"

definition parseEnvInt :: "string \<Rightarrow> int \<Rightarrow> int" where
  "parseEnvInt env def =
     (let s = TrimSpace env in if s = [] then def
      else case scan_int s of None \<Rightarrow> def | Some n \<Rightarrow> if n < 0 then def else n)"

text \<open>One \<open>.mp4\<close> file as the walk of \<open>runJanitor\<close> sees it: the stream directory relative to the root,
  the name, and the size.\<close>

definition jan_of ::
    "calendar \<Rightarrow> recorder \<Rightarrow> string \<times> string \<times> int \<Rightarrow> event_store option \<Rightarrow> jan_seg \<times> event_store option" where
  "jan_of cal r f evs = (case f of (stream, name, bytes) \<Rightarrow>
     let startSec = (case cal_parse cal (trim_suffix name ''.mp4'') of None \<Rightarrow> 0 | Some t \<Rightarrow> t);
         durSec = (if rr_seg_secs r \<le> 0 then recSegSeconds else rr_seg_secs r);
         (ev, evs') = (case evs of None \<Rightarrow> (False, None)
           | Some st \<Rightarrow> (case overlaps (cal_day cal) stream startSec (startSec + durSec) st of (b, st') \<Rightarrow> (b, Some st')))
     in (\<lparr>js_path = rr_dir r @ ''/'' @ stream @ ''/'' @ name, js_size = bytes, js_start = startSec,
          js_dur = durSec, js_ev = ev\<rparr>, evs'))"

fun jan_scan ::
    "calendar \<Rightarrow> recorder \<Rightarrow> (string \<times> string \<times> int) list \<Rightarrow> event_store option \<Rightarrow> jan_seg list \<times> event_store option" where
  "jan_scan cal r [] evs = ([], evs)"
| "jan_scan cal r (f # fs) evs =
     (case jan_of cal r f evs of (s, evs1) \<Rightarrow> case jan_scan cal r fs evs1 of (ss, evs2) \<Rightarrow> (s # ss, evs2))"

definition total_size :: "jan_seg list \<Rightarrow> int" where
  "total_size segs = sum_list (map js_size segs)"

definition policy_at :: "string \<Rightarrow> string \<Rightarrow> int \<Rightarrow> jan_policy" where
  "policy_at envHours envDays now = \<lparr>jp_keep_all = now - parseEnvInt envHours recKeepAllHoursDefault * 3600,
     jp_keep_event = now - parseEnvInt envDays recKeepEventDaysDefault * 86400\<rparr>"

text \<open>The files \<open>runJanitor\<close> removes (a failing \<open>os.Remove\<close> only keeps that file), given the
  \<open>.mp4\<close> files outside \<open>.events\<close>.\<close>

definition runJanitor ::
    "(jan_seg list \<Rightarrow> jan_seg list) \<Rightarrow> calendar \<Rightarrow> jan_policy \<Rightarrow> recorder \<Rightarrow> (string \<times> string \<times> int) list
       \<Rightarrow> event_store option \<Rightarrow> jan_seg list \<times> event_store option" where
  "runJanitor srt cal p r files evs =
     (if rr_cap r \<le> 0 then ([], evs)
      else case jan_scan cal r files evs of (segs, evs') \<Rightarrow>
        if total_size segs \<le> rr_cap r then ([], evs')
        else (janitorDeleteOrder srt segs (rr_cap r) (total_size segs) p, evs'))"

section \<open>The index of segments\<close>

definition stream_char :: "char \<Rightarrow> bool" where
  "stream_char c = (c = CHR ''/'' \<or> c = CHR ''_'' \<or> c = CHR ''-'' \<or>
     (let v = char_val c in (97 \<le> v \<and> v \<le> 122) \<or> (65 \<le> v \<and> v \<le> 90) \<or> (48 \<le> v \<and> v \<le> 57)))"

text \<open>\<open>filepath.Join\<close> of the root and a relative path without dots: empty elements vanish.\<close>

definition path_parts :: "string \<Rightarrow> string list" where
  "path_parts s = filter (\<lambda>x. x \<noteq> []) (split_on CHR ''/'' s)"

definition join_path :: "string \<Rightarrow> string \<Rightarrow> string" where
  "join_path root rel = root @ concat (map (\<lambda>x. CHR ''/'' # x) (path_parts rel))"

definition safeStreamDir :: "recorder \<Rightarrow> string \<Rightarrow> string option" where
  "safeStreamDir r stream0 =
     (let stream = trim_set (\<lambda>c. c = CHR ''/'') stream0
      in if stream = [] \<or> contains_sub stream ''..'' then None
         else if \<not> list_all stream_char stream then None
         else Some (join_path (rr_dir r) stream))"

definition segmentFile :: "recorder \<Rightarrow> string \<Rightarrow> string \<Rightarrow> string option" where
  "segmentFile r stream name =
     (case safeStreamDir r stream of None \<Rightarrow> None
      | Some dir \<Rightarrow>
          if name = [] \<or> CHR ''/'' \<in> set name \<or> char_of (92::nat) \<in> set name \<or> contains_sub name ''..''
             \<or> \<not> has_suffix name ''.mp4'' then None
          else Some (dir @ ''/'' @ name))"

definition is_file :: "file_system \<Rightarrow> string \<Rightarrow> string \<Rightarrow> bool" where
  "is_file fs dir name = (case lstat fs dir name of None \<Rightarrow> False | Some i \<Rightarrow> \<not> fi_dir i)"

definition scan_days :: "file_system \<Rightarrow> string \<Rightarrow> string list" where
  "scan_days fs dir = rev (sort (remdups (map (take 8)
     (filter (\<lambda>n. has_suffix n ''.mp4'' \<and> length n \<ge> 8 \<and> is_file fs dir n) (readDirNamesSafe fs dir)))))"

definition rec_days :: "file_system \<Rightarrow> string \<Rightarrow> recorder \<Rightarrow> string list \<times> recorder" where
  "rec_days fs stream r =
     (case safeStreamDir r stream of None \<Rightarrow> ([], r)
      | Some dir \<Rightarrow>
         (let mtime = dirMtime fs dir;
              fresh = scan_days fs dir;
              store = (if mtime \<noteq> 0 then r\<lparr>rr_day_cache := AList.update stream (mtime, fresh) (rr_day_cache r)\<rparr> else r)
          in case map_of (rr_day_cache r) stream of
               Some (m, ds) \<Rightarrow> if mtime \<noteq> 0 \<and> m = mtime then (ds, r) else (fresh, store)
             | None \<Rightarrow> (fresh, store)))"

definition scan_one :: "calendar \<Rightarrow> file_system \<Rightarrow> string \<Rightarrow> string \<Rightarrow> bool \<Rightarrow> string \<Rightarrow> rec_segment list" where
  "scan_one cal fs dir day withSize n =
     (if \<not> has_prefix n day \<or> \<not> has_suffix n ''.mp4'' then []
      else case cal_parse cal (trim_suffix n ''.mp4'') of
        None \<Rightarrow> []
      | Some t \<Rightarrow>
          if withSize then
            (case lstat fs dir n of
               None \<Rightarrow> []
             | Some i \<Rightarrow> if fi_dir i then [] else [\<lparr>rs_name = n, rs_start = t, rs_dur = 0, rs_size = fi_size i\<rparr>])
          else [\<lparr>rs_name = n, rs_start = t, rs_dur = 0, rs_size = 0\<rparr>])"

definition nominal_secs :: "recorder \<Rightarrow> int" where
  "nominal_secs r = (if rr_seg_secs r \<le> 0 then recSegSeconds else rr_seg_secs r)"

text \<open>Durations: the gap to the next segment when it is positive and below the nominal length.\<close>

fun with_durs :: "int \<Rightarrow> rec_segment list \<Rightarrow> rec_segment list" where
  "with_durs nominal [] = []"
| "with_durs nominal [s] = [s\<lparr>rs_dur := nominal\<rparr>]"
| "with_durs nominal (s # t # ss) =
     (let gap = rs_start t - rs_start s
      in s\<lparr>rs_dur := (if gap > 0 \<and> gap < nominal then gap else nominal)\<rparr> # with_durs nominal (t # ss))"

definition scan_segments :: "calendar \<Rightarrow> file_system \<Rightarrow> recorder \<Rightarrow> string \<Rightarrow> string \<Rightarrow> bool \<Rightarrow> rec_segment list" where
  "scan_segments cal fs r dir day withSize =
     with_durs (nominal_secs r) (sort_key rs_start (concat (map (scan_one cal fs dir day withSize) (readDirNamesSafe fs dir))))"

definition indexedSegments ::
    "calendar \<Rightarrow> file_system \<Rightarrow> string \<Rightarrow> string \<Rightarrow> bool \<Rightarrow> recorder \<Rightarrow> rec_segment list \<times> recorder" where
  "indexedSegments cal fs stream day withSize r =
     (case safeStreamDir r stream of None \<Rightarrow> ([], r)
      | Some dir \<Rightarrow>
         if length day \<noteq> 8 then ([], r)
         else
         (let mtime = dirMtime fs dir;
              key = (withSize, stream, day);
              fresh = scan_segments cal fs r dir day withSize;
              base = (if length (rr_seg_cache r) \<ge> recSegIdxCap then [] else rr_seg_cache r);
              store = (if mtime \<noteq> 0 then r\<lparr>rr_seg_cache := AList.update key (mtime, fresh) base\<rparr> else r)
          in case map_of (rr_seg_cache r) key of
               Some (m, segs) \<Rightarrow> if mtime \<noteq> 0 \<and> m = mtime then (segs, r) else (fresh, store)
             | None \<Rightarrow> (fresh, store)))"

definition rec_segments :: "calendar \<Rightarrow> file_system \<Rightarrow> string \<Rightarrow> string \<Rightarrow> recorder \<Rightarrow> rec_segment list \<times> recorder" where
  "rec_segments cal fs stream day r = indexedSegments cal fs stream day True r"

fun segments_of_days ::
    "calendar \<Rightarrow> file_system \<Rightarrow> string \<Rightarrow> string list \<Rightarrow> recorder \<Rightarrow> rec_segment list \<times> recorder" where
  "segments_of_days cal fs stream [] r = ([], r)"
| "segments_of_days cal fs stream (d # ds) r =
     (case indexedSegments cal fs stream d False r of (a, r1) \<Rightarrow>
      case segments_of_days cal fs stream ds r1 of (b, r2) \<Rightarrow> (a @ b, r2))"

definition segmentsForExport ::
    "calendar \<Rightarrow> file_system \<Rightarrow> string \<Rightarrow> int \<Rightarrow> int \<Rightarrow> recorder \<Rightarrow> rec_segment list \<times> recorder" where
  "segmentsForExport cal fs stream start endSec r =
     (if endSec \<le> start then ([], r)
      else let nominal = nominal_secs r
      in case segments_of_days cal fs stream (daysInRange cal (start - nominal) (endSec + nominal)) r of
        (segs, r') \<Rightarrow>
          (case safeStreamDir r stream of
             None \<Rightarrow> ([], r')
           | Some dir \<Rightarrow>
              (let files = filter (\<lambda>s. start - nominal \<le> rs_start s \<and> rs_start s \<le> endSec + nominal
                                  \<and> is_file fs dir (rs_name s)) segs
               in (filter (\<lambda>s. rs_start s < endSec \<and> rs_start s + rs_dur s > start) (with_durs nominal files), r'))))"

section \<open>The timeline\<close>

record tl_segment =
  ts_name :: string
  ts_active :: bool
  ts_start :: int
  ts_dur :: int

record tl_event =
  te_start :: int
  te_end :: int
  te_kind :: string

definition is_active :: "file_system \<Rightarrow> int \<Rightarrow> recorder \<Rightarrow> string \<Rightarrow> string \<Rightarrow> bool" where
  "is_active fs now r stream name =
     (case segmentFile r stream name of None \<Rightarrow> False
      | Some path \<Rightarrow> (case safeStreamDir r stream of None \<Rightarrow> False
         | Some dir \<Rightarrow> (case lstat fs dir name of None \<Rightarrow> False
            | Some i \<Rightarrow> now - int (fi_mtime i) \<le> recFinalizeQuiesce)))"

definition day_items :: "string \<Rightarrow> int \<Rightarrow> int \<Rightarrow> event_interval list \<Rightarrow> rec_event_item list" where
  "day_items stream s e ivs = map (\<lambda>iv. \<lparr>ei_stream = stream, ei_ch = 0, ei_name = [], ei_kind = iv_kind iv,
       ei_start = iv_start iv, ei_end = iv_end iv, ei_plate = []\<rparr>)
     (filter (\<lambda>iv. iv_start iv < e \<and> iv_end iv > s) ivs)"

fun items_of_days :: "string \<Rightarrow> int \<Rightarrow> int \<Rightarrow> string list \<Rightarrow> event_store \<Rightarrow> rec_event_item list \<times> event_store" where
  "items_of_days stream s e [] st = ([], st)"
| "items_of_days stream s e (d # ds) st =
     (case eventsForDay stream d st of (ivs, st1) \<Rightarrow>
      case items_of_days stream s e ds st1 of (its, st2) \<Rightarrow> (day_items stream s e ivs @ its, st2))"

text \<open>\<open>timelineFor\<close>: \<open>srt\<close> sorts for the clustering, \<open>srt_tl\<close> by start for the answer.\<close>

definition tl_segments ::
    "calendar \<Rightarrow> file_system \<Rightarrow> int \<Rightarrow> string \<Rightarrow> int \<Rightarrow> int \<Rightarrow> recorder option \<Rightarrow> tl_segment list \<times> recorder option" where
  "tl_segments cal fs now stream s e rc = (case rc of None \<Rightarrow> ([], None)
     | Some r \<Rightarrow> (case segmentsForExport cal fs stream s e r of (segs, r') \<Rightarrow>
         (map (\<lambda>x. \<lparr>ts_name = rs_name x, ts_active = is_active fs now r stream (rs_name x),
             ts_start = rs_start x, ts_dur = rs_dur x\<rparr>) segs, Some r')))"

definition tl_events ::
    "(rec_event_item list \<Rightarrow> rec_event_item list) \<Rightarrow> (tl_event list \<Rightarrow> tl_event list) \<Rightarrow> calendar \<Rightarrow> string \<Rightarrow> int \<Rightarrow> int
       \<Rightarrow> event_store option \<Rightarrow> tl_event list \<times> event_store option" where
  "tl_events srt srt_tl cal stream s e evs = (case evs of None \<Rightarrow> ([], None)
     | Some st \<Rightarrow> (case items_of_days stream s e (daysInRange cal s e) st of (items, st') \<Rightarrow>
         (srt_tl (map (\<lambda>x. \<lparr>te_start = ei_start x, te_end = ei_end x, te_kind = ei_kind x\<rparr>)
            (clusterEventItems srt items recTimelineMergeGapSec)), Some st')))"

definition timelineFor ::
    "(rec_event_item list \<Rightarrow> rec_event_item list) \<Rightarrow> (tl_event list \<Rightarrow> tl_event list) \<Rightarrow> calendar \<Rightarrow> file_system \<Rightarrow> int
       \<Rightarrow> string \<Rightarrow> int \<Rightarrow> int \<Rightarrow> recorder option \<times> event_store option
       \<Rightarrow> (tl_segment list \<times> tl_event list) \<times> (recorder option \<times> event_store option)" where
  "timelineFor srt srt_tl cal fs now stream s e st =
     (case tl_segments cal fs now stream s e (fst st) of (segs, rc) \<Rightarrow>
      case tl_events srt srt_tl cal stream s e (snd st) of (evs, es) \<Rightarrow> ((segs, evs), (rc, es)))"

definition hub_recSegSeconds :: "recorder option \<Rightarrow> int" where
  "hub_recSegSeconds rc = (case rc of None \<Rightarrow> recSegSeconds
     | Some r \<Rightarrow> if rr_seg_secs r > 0 then rr_seg_secs r else recSegSeconds)"

section \<open>The HTTP handlers\<close>

text \<open>A reply is an error status or a body; \<open>authed\<close> is the outcome of \<open>authedDashboard\<close>.\<close>

datatype rec_listing = Days "string list" | Segments "rec_segment list"

definition HandleDashboardRecordings ::
    "calendar \<Rightarrow> file_system \<Rightarrow> bool \<Rightarrow> string \<Rightarrow> string \<Rightarrow> recorder option \<Rightarrow> (nat + rec_listing) \<times> recorder option" where
  "HandleDashboardRecordings cal fs authed stream day rc =
     (if \<not> authed then (Inl 401, rc) else case rc of None \<Rightarrow> (Inl 409, rc)
      | Some r \<Rightarrow>
          if day \<noteq> [] then (case rec_segments cal fs stream day r of (x, r') \<Rightarrow> (Inr (Segments x), Some r'))
          else (case rec_days fs stream r of (x, r') \<Rightarrow> (Inr (Days x), Some r')))"

record file_reply =
  fr_path :: string
  fr_immutable :: bool
  fr_download :: bool

definition HandleDashboardRecFile ::
    "file_system \<Rightarrow> int \<Rightarrow> bool \<Rightarrow> string \<Rightarrow> string \<Rightarrow> bool \<Rightarrow> recorder option \<Rightarrow> nat + file_reply" where
  "HandleDashboardRecFile fs now authed stream name dl rc =
     (if \<not> authed then Inl 401 else case rc of None \<Rightarrow> Inl 409
      | Some r \<Rightarrow> (case segmentFile r stream name of None \<Rightarrow> Inl 400
         | Some path \<Rightarrow> (case safeStreamDir r stream of None \<Rightarrow> Inl 400
            | Some dir \<Rightarrow> (case lstat fs dir name of None \<Rightarrow> Inl 404
               | Some i \<Rightarrow> if fi_dir i then Inl 404
                   else Inr \<lparr>fr_path = path, fr_immutable = (now - int (fi_mtime i) > recFinalizeQuiesce),
                             fr_download = dl\<rparr>))))"

text \<open>\<open>strconv.ParseInt\<close> with its error ignored: 0 for bad syntax, the nearest bound for a value
  out of range.\<close>

definition parse_int_lossy :: "string \<Rightarrow> int" where
  "parse_int_lossy x = (case parse_dec (- (10 ^ length x)) (10 ^ length x) x of None \<Rightarrow> 0
     | Some v \<Rightarrow> max min_int64 (min max_int64 v))"

text \<open>The reply carries whether it may be cached for a minute.\<close>

definition HandleDashboardRecTimeline ::
    "(rec_event_item list \<Rightarrow> rec_event_item list) \<Rightarrow> (tl_event list \<Rightarrow> tl_event list) \<Rightarrow> calendar \<Rightarrow> file_system \<Rightarrow> int
       \<Rightarrow> bool \<Rightarrow> string \<Rightarrow> string \<Rightarrow> string \<Rightarrow> recorder option \<times> event_store option
       \<Rightarrow> (nat + (tl_segment list \<times> tl_event list) \<times> bool) \<times> (recorder option \<times> event_store option)" where
  "HandleDashboardRecTimeline srt srt_tl cal fs now authed stream startQ endQ st =
     (if \<not> authed then (Inl 401, st) else if fst st = None then (Inl 409, st)
      else let s = parse_int_lossy startQ; e = parse_int_lossy endQ
      in if stream = [] \<or> e \<le> s then (Inl 400, st)
      else case timelineFor srt srt_tl cal fs now stream s e st of (line, st') \<Rightarrow>
        (Inr (line, \<not> (e > now div 10 ^ 9 - hub_recSegSeconds (fst st))), st'))"

section \<open>Lemmas: recording targets\<close>

definition is_wall :: "string \<Rightarrow> bool" where
  "is_wall x = has_prefix (last_segment x) ''wall''"

definition recorded_from :: "string list \<Rightarrow> string list \<Rightarrow> string \<Rightarrow> string \<Rightarrow> bool" where
  "recorded_from active xs out src = (src \<in> set xs \<and> \<not> is_wall src \<and>
     (src = mainStreamID out \<or> src = out \<and> \<not> isMainStreamID src \<and> mainStreamID out \<notin> set active))"

lemma main_not_self [simp]: "mainStreamID x \<noteq> x" "x \<noteq> mainStreamID x"
  by (simp_all add: mainStreamID_def)

lemma main_base: "isMainStreamID x \<Longrightarrow> mainStreamID (baseStreamID x) = x"
  by (auto simp: isMainStreamID_def mainStreamID_def baseStreamID_def has_suffix_iff)

lemma base_main [simp]: "baseStreamID (mainStreamID x) = x" "isMainStreamID (mainStreamID x)"
  by (simp_all add: isMainStreamID_def mainStreamID_def baseStreamID_def)

lemma main_inj [simp]: "mainStreamID x = mainStreamID y \<longleftrightarrow> x = y"
  by (simp add: mainStreamID_def)

lemma target_lookup:
  "map_of (target_step active acc x) out
     = (if recorded_from active [x] out x then Some x else map_of acc out)"
proof (cases "isMainStreamID x")
  case True
  then obtain b where b: "x = mainStreamID b" using main_base by metis
  show ?thesis unfolding b by (auto simp: target_step_def recorded_from_def is_wall_def)
next
  case False
  then have "x \<noteq> mainStreamID out" by auto
  with False show ?thesis by (simp add: target_step_def recorded_from_def is_wall_def)
qed

lemma recorded_snoc:
  "recorded_from active (xs @ [x]) out src
     \<longleftrightarrow> recorded_from active xs out src \<or> (src = x \<and> recorded_from active [x] out x)"
  by (auto simp: recorded_from_def)

lemma recorded_unique:
  "recorded_from active xs out a \<Longrightarrow> recorded_from active ys out b \<Longrightarrow> set xs \<subseteq> set active
    \<Longrightarrow> set ys \<subseteq> set active \<Longrightarrow> a = b"
  unfolding recorded_from_def by blast

lemma targets_inv:
  "set xs \<subseteq> set active \<Longrightarrow>
     map_of (foldl (target_step active) [] xs) out = Some src \<longleftrightarrow> recorded_from active xs out src"
proof (induction xs arbitrary: src rule: rev_induct)
  case Nil
  then show ?case by (simp add: recorded_from_def)
next
  case (snoc x xs)
  then have ih: "\<And>src. map_of (foldl (target_step active) [] xs) out = Some src \<longleftrightarrow> recorded_from active xs out src"
    and sub: "set xs \<subseteq> set active" "set [x] \<subseteq> set active" by simp_all
  show ?case
  proof (cases "recorded_from active [x] out x")
    case True
    with recorded_unique [OF _ True sub] show ?thesis
      by (simp add: target_lookup recorded_snoc) blast
  next
    case False
    with ih show ?thesis by (simp add: target_lookup recorded_snoc)
  qed
qed

lemma targets_iff: "map_of (recordTargets active) out = Some src \<longleftrightarrow> recorded_from active active out src"
  by (simp add: recordTargets_def targets_inv)

lemma distinct_targets: "distinct (map fst (recordTargets active))"
proof -
  have "distinct (map fst acc) \<Longrightarrow> distinct (map fst (foldl (target_step active) acc xs))" for acc xs
    by (induction xs arbitrary: acc) (simp_all add: target_step_def distinct_update)
  then show ?thesis by (simp add: recordTargets_def)
qed

section \<open>Lemmas: the supervised recorders\<close>

text \<open>Every recorder process ever started is either the owner of one output or cancelled.\<close>

definition own_ok :: "('a \<Rightarrow> nat option) \<Rightarrow> nat set \<Rightarrow> nat \<Rightarrow> bool" where
  "own_ok w C n = (ran w \<inter> C = {} \<and> ran w \<union> C = {..<n} \<and> inj_on w (dom w))"

definition owner :: "recorder \<Rightarrow> string \<Rightarrow> nat option" where
  "owner r out = map_option snd (map_of (rr_recs r) out)"

definition rec_ok :: "recorder \<Rightarrow> bool" where
  "rec_ok r = (distinct (map fst (rr_recs r)) \<and> own_ok (owner r) (set (rr_cancelled r)) (rr_next r))"

lemma own_ok_start:
  assumes "own_ok w C n" "w out = None"
  shows "own_ok (w(out \<mapsto> n)) C (Suc n)"
proof -
  have n: "n \<notin> ran w" "n \<notin> C" using assms(1) by (auto simp: own_ok_def)
  have "inj_on (w(out \<mapsto> n)) (insert out (dom w))"
    using assms n(1) unfolding own_ok_def inj_on_def by (auto simp: ran_def)
  with assms n show ?thesis by (auto simp: own_ok_def ran_map_upd lessThan_Suc)
qed

lemma own_ok_restart:
  assumes "own_ok w C n" "w out = Some u"
  shows "own_ok (w(out \<mapsto> n)) (insert u C) (Suc n)"
proof -
  let ?w = "w(out := None)"
  have r: "ran ?w = ran w - {u}"
  proof (intro set_eqI iffI)
    fix v assume "v \<in> ran ?w"
    then obtain x where x: "x \<noteq> out" "w x = Some v" by (auto simp: ran_def split: if_splits)
    moreover have "v \<noteq> u"
      using x assms unfolding own_ok_def inj_on_def by (metis domI)
    ultimately show "v \<in> ran w - {u}" by (auto intro: ranI)
  next
    fix v assume "v \<in> ran w - {u}"
    then obtain x where "w x = Some v" "v \<noteq> u" by (auto simp: ran_def)
    then have "?w x = Some v" using assms(2) by auto
    then show "v \<in> ran ?w" by (rule ranI)
  qed
  have u: "u \<in> ran w" using assms(2) by (rule ranI)
  have "inj_on ?w (dom ?w)" using assms(1) unfolding own_ok_def inj_on_def by auto
  with assms(1) r u have "own_ok ?w (insert u C) n" unfolding own_ok_def by auto
  from own_ok_start [OF this, of out] show ?thesis by simp
qed

lemma own_ok_drop:
  assumes "own_ok w C n"
  shows "own_ok (\<lambda>x. if P x then w x else None) ({u. \<exists>x. \<not> P x \<and> w x = Some u} \<union> C) n"
proof -
  have "inj_on w (dom w)" using assms by (simp add: own_ok_def)
  then have i: "x = y" if "w x = Some u" "w y = Some u" for x y u
    using that unfolding inj_on_def by (metis domI)
  have "inj_on (\<lambda>x. if P x then w x else None) (dom (\<lambda>x. if P x then w x else None))"
    using i unfolding inj_on_def dom_def by (auto split: if_splits)
  moreover have "ran (\<lambda>x. if P x then w x else None) \<union> {u. \<exists>x. \<not> P x \<and> w x = Some u} = ran w"
    by (auto simp: ran_def split: if_splits)
  moreover have "ran (\<lambda>x. if P x then w x else None) \<inter> {u. \<exists>x. \<not> P x \<and> w x = Some u} = {}"
    using i by (auto simp: ran_def split: if_splits)
  ultimately show ?thesis using assms unfolding own_ok_def by blast
qed

definition sources :: "recorder \<Rightarrow> string \<Rightarrow> string option" where
  "sources r out = map_option fst (map_of (rr_recs r) out)"

lemma owner_start [simp]:
  "owner (r\<lparr>rr_cancelled := c\<rparr>) = owner r"
  "owner (startLocked out src r) = (owner r)(out \<mapsto> rr_next r)"
  by (auto simp: owner_def startLocked_def fun_eq_iff)

lemma sources_start [simp]:
  "sources (r\<lparr>rr_cancelled := c\<rparr>) = sources r"
  "sources (startLocked out src r) = (sources r)(out \<mapsto> src)"
  by (auto simp: sources_def startLocked_def fun_eq_iff)

lemma start_fields [simp]:
  "rr_next (startLocked out src r) = Suc (rr_next r)"
  "rr_cancelled (startLocked out src r) = rr_cancelled r"
  "distinct (map fst (rr_recs (startLocked out src r))) = distinct (map fst (rr_recs r))"
  by (auto simp: startLocked_def update_keys)

lemma want_step_ok:
  assumes "rec_ok r"
  shows "rec_ok (want_step r (out, src)) \<and> sources (want_step r (out, src)) = (sources r)(out \<mapsto> src)"
proof (cases "map_of (rr_recs r) out")
  case None
  then have "owner r out = None" by (simp add: owner_def)
  with None assms own_ok_start [of "owner r" _ _ out] show ?thesis
    by (simp add: want_step_def rec_ok_def del: fun_upd_apply)
next
  case (Some c)
  obtain cur uid where c: "c = (cur, uid)" by (cases c)
  with Some have "owner r out = Some uid" and s: "sources r out = Some cur"
    by (simp_all add: owner_def sources_def)
  with c Some assms own_ok_restart [of "owner r" _ _ out uid] show ?thesis
    by (auto simp: want_step_def rec_ok_def fun_upd_idem simp del: fun_upd_apply)
qed

lemma want_fold:
  "rec_ok r \<Longrightarrow> distinct (map fst want) \<Longrightarrow>
     rec_ok (foldl want_step r want) \<and> sources (foldl want_step r want) = sources r ++ map_of want"
proof (induction want arbitrary: r)
  case (Cons w want)
  obtain out src where w: "w = (out, src)" by (cases w)
  note 1 = want_step_ok [OF Cons.prems(1), of out src]
  have "out \<notin> dom (map_of want)" using Cons.prems(2) by (simp add: w dom_map_of_conv_image_fst)
  then have "(sources r)(out \<mapsto> src) ++ map_of want = (sources r ++ map_of want)(out \<mapsto> src)"
    by (simp add: map_add_upd_left)
  with 1 Cons.IH [of "want_step r w"] Cons.prems(2) show ?case
    by (simp add: w del: fun_upd_apply)
qed simp

lemma map_of_filter_key: "map_of (filter (\<lambda>(k, v). P k) l) k = (if P k then map_of l k else None)"
  by (induction l) auto

lemma drop_gone_ok:
  assumes "rec_ok r"
  shows "rec_ok (r\<lparr>rr_recs := filter (\<lambda>(out, p). P out) (rr_recs r),
     rr_cancelled := map (snd \<circ> snd) (filter (\<lambda>(out, p). \<not> P out) (rr_recs r)) @ rr_cancelled r\<rparr>)"
proof -
  have d: "distinct (map fst (rr_recs r))" using assms by (simp add: rec_ok_def)
  have gone: "(\<lambda>x. snd (snd x)) ` {x \<in> set (rr_recs r). case x of (out, p) \<Rightarrow> \<not> P out}
      = {u. \<exists>out. \<not> P out \<and> owner r out = Some u}"
    using d by (force simp: owner_def image_iff)
  have "owner (r\<lparr>rr_recs := filter (\<lambda>(out, p). P out) (rr_recs r), rr_cancelled := c\<rparr>)
      = (\<lambda>out. if P out then owner r out else None)" for c
    by (simp add: owner_def fun_eq_iff map_of_filter_key)
  then show ?thesis
    using assms own_ok_drop [of "owner r" "set (rr_cancelled r)" "rr_next r" P] d
    by (simp add: rec_ok_def gone distinct_map_filter)
qed

section \<open>Lemmas: the janitor\<close>

definition jan_rank :: "jan_policy \<Rightarrow> jan_seg \<Rightarrow> jan_seg \<Rightarrow> bool" where
  "jan_rank p a b = (tier p a < tier p b \<or> tier p a = tier p b \<and> js_start a \<le> js_start b)"

lemma tier_cases: "tier p s \<in> {0, 1, 2, 3}"
  by (simp add: tier_def)

lemma total_size_simps [simp]:
  "total_size [] = 0" "total_size (s # ss) = js_size s + total_size ss"
  "total_size (xs @ ys) = total_size xs + total_size ys"
  by (simp_all add: total_size_def)

lemma total_size_mset: "mset xs = mset ys \<Longrightarrow> total_size xs = total_size ys"
  by (simp add: total_size_def flip: sum_mset_sum_list)

lemma take_until_prefix:
  "\<exists>rest. ss = take_until cap used ss @ rest \<and> (rest \<noteq> [] \<longrightarrow> used - total_size (take_until cap used ss) \<le> cap)"
  by (induction cap used ss rule: take_until.induct) (auto simp: algebra_simps)

lemma take_until_minimal:
  "take_until cap used ss \<noteq> [] \<Longrightarrow> used - total_size (butlast (take_until cap used ss)) > cap"
  by (induction cap used ss rule: take_until.induct) (auto simp: algebra_simps)

lemma mset_tiers:
  assumes "\<forall>xs. mset (srt xs) = mset xs"
  shows "mset (sacrifice srt p segs) = mset segs"
proof -
  have "mset (sacrifice srt p segs) = filter_mset (\<lambda>s. tier p s = 0) (mset segs)
     + filter_mset (\<lambda>s. tier p s = 1) (mset segs) + filter_mset (\<lambda>s. tier p s = 2) (mset segs)
     + filter_mset (\<lambda>s. tier p s = 3) (mset segs)"
    using assms by (simp add: sacrifice_def)
  also have "\<dots> = mset segs"
  proof (induction segs)
    case (Cons s segs)
    consider "tier p s = 0" | "tier p s = 1" | "tier p s = 2" | "tier p s = 3"
      using tier_cases [of p s] by auto
    then show ?case by cases (use Cons in simp_all)
  qed simp
  finally show ?thesis .
qed

lemma sacrifice_sorted:
  assumes "\<forall>xs. mset (srt xs) = mset xs" "\<forall>xs. sorted (map js_start (srt xs))"
  shows "sorted_wrt (jan_rank p) (sacrifice srt p segs)"
proof -
  let ?g = "\<lambda>k. srt (filter (\<lambda>s. tier p s = k) segs)"
  have t: "tier p s = k" if "s \<in> set (?g k)" for s k
    using that mset_eq_setD [OF assms(1) [rule_format, of "filter (\<lambda>s. tier p s = k) segs"]] by simp
  have g: "sorted_wrt (jan_rank p) (?g k)" for k
  proof -
    have "sorted_wrt (\<lambda>a b. js_start a \<le> js_start b) (?g k)"
      using assms(2) by (simp add: sorted_wrt_map)
    then show ?thesis
    proof (rule sorted_wrt_mono_rel [rotated])
      fix a b assume "a \<in> set (?g k)" "b \<in> set (?g k)" "js_start a \<le> js_start b"
      with t [of a k] t [of b k] show "jan_rank p a b" by (simp only: jan_rank_def simp_thms)
    qed
  qed
  have "jan_rank p a b" if "a \<in> set (?g i)" "b \<in> set (?g j)" "i < j" for a b i j
    using t [OF that(1)] t [OF that(2)] that(3) by (simp add: jan_rank_def)
  then show ?thesis by (auto simp: sacrifice_def sorted_wrt_append g)
qed

section \<open>Lemmas: paths\<close>

lemma split_on_chars: "\<forall>x\<in>set (split_on c s). set x \<subseteq> set s - {c}"
proof (induction c s rule: split_on.induct)
  case (2 c y ys)
  show ?case
  proof (cases "y = c")
    case True
    with 2 show ?thesis by auto
  next
    case False
    obtain a bs where ab: "split_on c ys = a # bs"
      by (cases "split_on c ys") auto
    with 2 False have "\<forall>x\<in>set (a # bs). set x \<subseteq> set ys - {c}" by simp
    then have "set (y # a) \<subseteq> set (y # ys) - {c}" "\<forall>x\<in>set bs. set x \<subseteq> set (y # ys) - {c}"
      using False by auto
    with False ab show ?thesis by simp
  qed
qed simp

lemma split_on_concat: "set s \<subseteq> insert c (\<Union> (set ` set (split_on c s)))"
proof (induction c s rule: split_on.induct)
  case (2 c y ys)
  then show ?case by (cases "split_on c ys") (auto split: if_splits)
qed simp

definition part_char :: "char \<Rightarrow> bool" where
  "part_char c = (stream_char c \<and> c \<noteq> CHR ''/'')"

lemma path_parts_chars:
  assumes "list_all stream_char s" "x \<in> set (path_parts s)"
  shows "x \<noteq> [] \<and> list_all part_char x"
  using assms split_on_chars [of "CHR ''/''" s]
  by (fastforce simp: path_parts_def list_all_iff part_char_def)

lemma path_parts_nonempty:
  assumes "c \<in> set s" "c \<noteq> CHR ''/''"
  shows "path_parts s \<noteq> []"
proof -
  from split_on_concat [of s "CHR ''/''"] assms obtain x where
    "x \<in> set (split_on (CHR ''/'') s)" "c \<in> set x" by auto
  then have "x \<in> set (path_parts s)" by (auto simp: path_parts_def)
  then show ?thesis by auto
qed

lemma trim_set_keeps: "trim_set P s \<noteq> [] \<Longrightarrow> \<exists>c\<in>set (trim_set P s). \<not> P c"
proof -
  assume n: "trim_set P s \<noteq> []"
  then have "rev (trim_set P s) \<noteq> []" by simp
  then have "\<not> P (hd (rev (trim_set P s)))"
    unfolding trim_set_def by (simp add: hd_dropWhile)
  with n show ?thesis by (metis hd_in_set rev_is_Nil_conv set_rev)
qed

lemma safeStreamDir_Some:
  assumes "safeStreamDir r stream = Some dir"
  shows "\<exists>parts. parts \<noteq> [] \<and> (\<forall>x\<in>set parts. x \<noteq> [] \<and> list_all part_char x)
     \<and> dir = rr_dir r @ concat (map (\<lambda>x. CHR ''/'' # x) parts)"
proof -
  let ?s = "trim_set (\<lambda>c. c = CHR ''/'') stream"
  have s: "?s \<noteq> []" "list_all stream_char ?s" "dir = join_path (rr_dir r) ?s"
    using assms by (auto simp: safeStreamDir_def Let_def split: if_splits)
  from trim_set_keeps [OF s(1)] have "path_parts ?s \<noteq> []" using path_parts_nonempty by blast
  with path_parts_chars [OF s(2)] s(3) show ?thesis unfolding join_path_def by blast
qed

section \<open>Lemmas: the segment index\<close>

text \<open>What the code relies on in the calendar: day names have eight characters, time moves forward, and
  the day stays the same up to the next local midnight.\<close>

definition calendar_ok :: "calendar \<Rightarrow> bool" where
  "calendar_ok cal = (\<forall>t. length (cal_day cal t) = 8 \<and> t < cal_next cal t
     \<and> (\<forall>u. t \<le> u \<longrightarrow> u < cal_next cal t \<longrightarrow> cal_day cal u = cal_day cal t))"

lemma day_loop_covers:
  "calendar_ok cal \<Longrightarrow> d \<le> t \<Longrightarrow> t \<le> lst \<Longrightarrow> cal_day cal t \<in> set (day_loop cal d lst)"
proof (induction cal d lst rule: day_loop.induct)
  case (1 cal d lst)
  have n: "d < cal_next cal d" using "1.prems"(1) by (simp add: calendar_ok_def)
  show ?case
  proof (cases "t < cal_next cal d")
    case True
    then have "cal_day cal t = cal_day cal d" using "1.prems"(1,2) by (simp add: calendar_ok_def)
    with 1 show ?thesis by (simp add: day_loop.simps [of cal d])
  next
    case False
    with 1 n show ?thesis by (simp add: day_loop.simps [of cal d])
  qed
qed

text \<open>A cached index is the scan of the directory, as long as the directory has its stamp.\<close>

definition index_ok :: "calendar \<Rightarrow> file_system \<Rightarrow> recorder \<Rightarrow> bool" where
  "index_ok cal fs r = (\<forall>w stream day m segs dir. map_of (rr_seg_cache r) (w, stream, day) = Some (m, segs)
     \<longrightarrow> safeStreamDir r stream = Some dir \<longrightarrow> dirMtime fs dir = m \<longrightarrow> m \<noteq> 0
     \<longrightarrow> segs = scan_segments cal fs r dir day w)"

definition fresh_index :: "calendar \<Rightarrow> file_system \<Rightarrow> recorder \<Rightarrow> string \<Rightarrow> string \<Rightarrow> bool \<Rightarrow> rec_segment list" where
  "fresh_index cal fs r stream day w = (case safeStreamDir r stream of None \<Rightarrow> []
     | Some dir \<Rightarrow> if length day \<noteq> 8 then [] else scan_segments cal fs r dir day w)"

lemma safe_frame [simp]: "safeStreamDir (r\<lparr>rr_seg_cache := c\<rparr>) stream = safeStreamDir r stream"
  by (simp add: safeStreamDir_def Let_def)

lemma nominal_frame [simp]: "nominal_secs (r\<lparr>rr_seg_cache := c\<rparr>) = nominal_secs r"
  by (simp add: nominal_secs_def)

lemma scan_frame [simp]:
  "scan_segments cal fs (r\<lparr>rr_seg_cache := c\<rparr>) dir day w = scan_segments cal fs r dir day w"
  by (simp add: scan_segments_def)

lemma fresh_frame [simp]:
  "fresh_index cal fs (r\<lparr>rr_seg_cache := c\<rparr>) stream day w = fresh_index cal fs r stream day w"
  by (simp add: fresh_index_def split: option.split)

lemma same_cache: "\<exists>c. r = r\<lparr>rr_seg_cache := c\<rparr>"
  by (rule exI [of _ "rr_seg_cache r"]) simp

lemma indexed_fresh:
  assumes "index_ok cal fs r" "indexedSegments cal fs stream day w r = (segs, r')"
  shows "segs = fresh_index cal fs r stream day w \<and> index_ok cal fs r' \<and> (\<exists>c. r' = r\<lparr>rr_seg_cache := c\<rparr>)"
proof (cases "safeStreamDir r stream")
  case None
  with assms same_cache [of r] show ?thesis by (simp add: indexedSegments_def fresh_index_def)
next
  case (Some dir)
  show ?thesis
  proof (cases "length day = 8")
    case False
    with Some assms same_cache [of r] show ?thesis by (simp add: indexedSegments_def fresh_index_def)
  next
    case True
    let ?base = "if length (rr_seg_cache r) \<ge> recSegIdxCap then [] else rr_seg_cache r"
    let ?m = "dirMtime fs dir"
    let ?fresh = "scan_segments cal fs r dir day w"
    let ?store = "if ?m \<noteq> 0 then r\<lparr>rr_seg_cache := AList.update (w, stream, day) (?m, ?fresh) ?base\<rparr> else r"
    have st: "index_ok cal fs ?store"
      using assms(1) Some unfolding index_ok_def by (auto split: if_splits)
    have ex: "\<exists>c. ?store = r\<lparr>rr_seg_cache := c\<rparr>" using same_cache [of r] by auto
    have f: "fresh_index cal fs r stream day w = ?fresh"
      using Some True by (simp add: fresh_index_def)
    have "segs = ?fresh \<and> r' = ?store \<or> (\<exists>m. map_of (rr_seg_cache r) (w, stream, day) = Some (m, segs)
        \<and> ?m \<noteq> 0 \<and> m = ?m \<and> r' = r)"
      using assms(2) Some True
      by (auto simp: indexedSegments_def Let_def split: option.splits prod.splits if_splits)
    then show ?thesis
    proof
      assume "segs = ?fresh \<and> r' = ?store"
      with st ex f show ?thesis by simp
    next
      assume "\<exists>m. map_of (rr_seg_cache r) (w, stream, day) = Some (m, segs) \<and> ?m \<noteq> 0 \<and> m = ?m \<and> r' = r"
      then have m: "map_of (rr_seg_cache r) (w, stream, day) = Some (?m, segs)" "?m \<noteq> 0" "r' = r" by auto
      have "segs = ?fresh"
        by (rule assms(1) [unfolded index_ok_def, rule_format, OF m(1) Some _ m(2)]) simp
      with m f assms(1) same_cache [of r] show ?thesis by simp
    qed
  qed
qed

lemma segments_of_days_fresh:
  "index_ok cal fs r \<Longrightarrow> segments_of_days cal fs stream days r = (segs, r') \<Longrightarrow>
     segs = concat (map (\<lambda>d. fresh_index cal fs r stream d False) days) \<and> index_ok cal fs r'
     \<and> (\<exists>c. r' = r\<lparr>rr_seg_cache := c\<rparr>)"
proof (induction days arbitrary: r segs r')
  case Nil
  then show ?case using same_cache [of r] by simp
next
  case (Cons d days)
  obtain a r1 b r2 where ab: "indexedSegments cal fs stream d False r = (a, r1)"
    "segments_of_days cal fs stream days r1 = (b, r2)" by fastforce
  note 1 = indexed_fresh [OF Cons.prems(1) ab(1)]
  then obtain c where c: "r1 = r\<lparr>rr_seg_cache := c\<rparr>" by blast
  from Cons.IH [OF _ ab(2)] 1 c Cons.prems(2) ab show ?case by auto
qed

lemma with_durs_maps [simp]:
  "map rs_name (with_durs n xs) = map rs_name xs" "map rs_start (with_durs n xs) = map rs_start xs"
  by (induction n xs rule: with_durs.induct) (simp_all add: Let_def)

lemma with_durs_bounds: "0 < n \<Longrightarrow> s \<in> set (with_durs n xs) \<Longrightarrow> 0 < rs_dur s \<and> rs_dur s \<le> n"
  by (induction n xs rule: with_durs.induct) (auto simp: Let_def split: if_splits)

lemma with_durs_in:
  "s \<in> set xs \<Longrightarrow> \<exists>s'\<in>set (with_durs n xs). rs_name s' = rs_name s \<and> rs_start s' = rs_start s"
  by (induction n xs rule: with_durs.induct) (auto simp: Let_def)

lemma with_durs_from:
  "s \<in> set (with_durs n xs) \<Longrightarrow> \<exists>s'\<in>set xs. rs_name s' = rs_name s \<and> rs_start s' = rs_start s"
  by (induction n xs rule: with_durs.induct) (auto simp: Let_def split: if_splits)

lemma nominal_pos: "0 < nominal_secs r"
  by (simp add: nominal_secs_def recSegSeconds_def)

lemma is_file_name: "is_file fs dir n \<Longrightarrow> n \<in> set (readDirNamesSafe fs dir)"
  by (force simp: is_file_def lstat_def readDirNamesSafe_def split: option.splits dest!: map_of_SomeD)

lemma scan_complete:
  assumes "n \<in> set (readDirNamesSafe fs dir)" "has_prefix n day" "has_suffix n ''.mp4''"
    and "cal_parse cal (trim_suffix n ''.mp4'') = Some t"
  shows "\<exists>s\<in>set (scan_segments cal fs r dir day False). rs_name s = n \<and> rs_start s = t"
proof -
  let ?s = "\<lparr>rs_name = n, rs_start = t, rs_dur = 0, rs_size = 0\<rparr>"
  let ?all = "sort_key rs_start (concat (map (scan_one cal fs dir day False) (readDirNamesSafe fs dir)))"
  have "?s \<in> set (scan_one cal fs dir day False n)" using assms(2-4) by (simp add: scan_one_def)
  with assms(1) have "?s \<in> set ?all" by auto
  from with_durs_in [OF this, of "nominal_secs r"] show ?thesis by (simp add: scan_segments_def)
qed

lemma export_fresh:
  assumes "index_ok cal fs r" "start < e" "safeStreamDir r stream = Some dir"
  shows "fst (segmentsForExport cal fs stream start e r) = filter (\<lambda>s. rs_start s < e \<and> rs_start s + rs_dur s > start)
     (with_durs (nominal_secs r) (filter (\<lambda>s. start - nominal_secs r \<le> rs_start s \<and> rs_start s \<le> e + nominal_secs r
        \<and> is_file fs dir (rs_name s))
      (concat (map (\<lambda>d. fresh_index cal fs r stream d False) (daysInRange cal (start - nominal_secs r) (e + nominal_secs r))))))
   \<and> index_ok cal fs (snd (segmentsForExport cal fs stream start e r))"
proof -
  obtain segs r' where s: "segments_of_days cal fs stream
     (daysInRange cal (start - nominal_secs r) (e + nominal_secs r)) r = (segs, r')" by fastforce
  note f = segments_of_days_fresh [OF assms(1) s]
  then obtain c where "r' = r\<lparr>rr_seg_cache := c\<rparr>" by blast
  with f assms s show ?thesis by (simp add: segmentsForExport_def Let_def)
qed

section \<open>Properties\<close>

text \<open>C12. No request reaches a file outside the recordings root: when a stream and a file name are
  accepted, the file lies below the root, under at least one directory whose names consist of
  letters, digits, \<open>_\<close> and \<open>-\<close> only, and its own name is not empty, has no separator and no
  \<open>..\<close> and ends in \<open>.mp4\<close>.\<close>

theorem recording_paths_confined:
  assumes "segmentFile r stream name = Some path"
  shows "(\<exists>parts. parts \<noteq> [] \<and> (\<forall>x\<in>set parts. x \<noteq> [] \<and> list_all part_char x)
       \<and> path = rr_dir r @ concat (map (\<lambda>x. CHR ''/'' # x) (parts @ [name])))
     \<and> CHR ''/'' \<notin> set name \<and> char_of (92::nat) \<notin> set name \<and> \<not> contains_sub name ''..''
     \<and> has_suffix name ''.mp4''"
proof -
  obtain dir where dir: "safeStreamDir r stream = Some dir" "path = dir @ ''/'' @ name"
    "CHR ''/'' \<notin> set name" "char_of (92::nat) \<notin> set name" "\<not> contains_sub name ''..''"
    "has_suffix name ''.mp4''"
    using assms by (auto simp: segmentFile_def split: option.splits if_splits)
  from safeStreamDir_Some [OF dir(1)] dir(2-) show ?thesis by fastforce
qed

definition toy_recorder :: recorder where
  "toy_recorder = \<lparr>rr_dir = ''/r'', rr_self_hls = [], rr_cap = 10, rr_seg_secs = 300, rr_recs = [],
     rr_next = 0, rr_cancelled = [], rr_seg_cache = [], rr_day_cache = []\<rparr>"

theorem recording_paths_confined_witness:
  "segmentFile toy_recorder ''a/d1'' ''x.mp4'' = Some ''/r/a/d1/x.mp4''
   \<and> \<not> contains_sub ''x.mp4'' ''..'' \<and> segmentFile toy_recorder ''a/../d1'' ''x.mp4'' = None
   \<and> segmentFile toy_recorder ''a'' ''../x.mp4'' = None"
proof -
  have "segmentFile toy_recorder ''a/d1'' ''x.mp4'' = Some ''/r/a/d1/x.mp4''"
    "segmentFile toy_recorder ''a/../d1'' ''x.mp4'' = None"
    "segmentFile toy_recorder ''a'' ''../x.mp4'' = None"
    by code_simp+
  with recording_paths_confined [OF this(1)] show ?thesis by simp
qed

text \<open>Exactly the live channels are recorded, each once and from its best source: an output is
  recorded from its \<open>@main\<close> stream when that is active, from the stream itself when it is active
  without one, and from nothing else; wall mosaics are never recorded.\<close>

lemma record_targets_exact:
  "(map_of (recordTargets active) out = Some src) = (src \<in> set active \<and> \<not> is_wall src
     \<and> (src = mainStreamID out
        \<or> (src = out \<and> \<not> isMainStreamID src \<and> mainStreamID out \<notin> set active)))
   \<and> distinct (map fst (recordTargets active))"
  using targets_iff [of active out src] distinct_targets [of active]
  unfolding recorded_from_def by blast

text \<open>Reconciling leaves exactly the wanted recorders running, each from its wanted source, and
  leaks none: every recorder process ever started either owns one output (and no other) or has
  been cancelled. The same holds after \<open>stopAll\<close>, with no recorder left.\<close>

lemma recorder_reconciled:
  assumes "rec_ok r"
  shows "rec_ok (rec_reconcile active r) \<and> sources (rec_reconcile active r) = map_of (recordTargets active)
     \<and> rec_ok (rec_stopAll r) \<and> rr_recs (rec_stopAll r) = []"
proof -
  let ?want = "recordTargets active"
  let ?r1 = "foldl want_step r ?want"
  let ?P = "\<lambda>out. map_of ?want out \<noteq> None"
  note 1 = want_fold [OF assms distinct_targets [of active]]
  have r: "rec_reconcile active r = ?r1\<lparr>rr_recs := filter (\<lambda>(out, p). ?P out) (rr_recs ?r1),
     rr_cancelled := map (snd \<circ> snd) (filter (\<lambda>(out, p). \<not> ?P out) (rr_recs ?r1)) @ rr_cancelled ?r1\<rparr>"
    by (simp add: rec_reconcile_def Let_def)
  have "sources (rec_reconcile active r) out = map_of ?want out" for out
    using fun_cong [OF conjunct2 [OF 1], of out] unfolding r
    by (auto simp: sources_def map_of_filter_key map_add_def split: option.splits)
  moreover have "rec_stopAll r = r\<lparr>rr_recs := filter (\<lambda>(out, p). False) (rr_recs r),
     rr_cancelled := map (snd \<circ> snd) (filter (\<lambda>(out, p). \<not> False) (rr_recs r)) @ rr_cancelled r\<rparr>"
    by (simp add: rec_stopAll_def case_prod_beta)
  ultimately show ?thesis
    using drop_gone_ok [OF conjunct1 [OF 1], of ?P] drop_gone_ok [OF assms, of "\<lambda>_. False"]
    by (simp add: r fun_eq_iff rec_stopAll_def)
qed

text \<open>C13. The disk cap is a hard ceiling, and nothing is sacrificed needlessly: deleting the janitor's
  choice brings the recordings under the cap, one deletion less would not, and every deleted
  segment ranks before every kept one (old footage without events, then expired event footage,
  then event footage, then the keep-all window; oldest first within each). This holds for every
  way of sorting by start.\<close>

theorem janitor_honours_cap:
  assumes "\<forall>xs. mset (srt xs) = mset xs" "\<forall>xs. sorted (map js_start (srt xs))"
    and "0 < cap" "out = janitorDeleteOrder srt segs cap (total_size segs) p"
  shows "total_size segs - total_size out \<le> cap
     \<and> (out \<noteq> [] \<longrightarrow> total_size segs - total_size (butlast out) > cap)
     \<and> (\<exists>kept. mset (out @ kept) = mset segs \<and> (\<forall>a\<in>set out. \<forall>b\<in>set kept. jan_rank p a b))"
proof (cases "total_size segs \<le> cap")
  case True
  with assms(4) show ?thesis by (simp add: janitorDeleteOrder_def) (rule exI [of _ segs], simp)
next
  case False
  let ?ss = "sacrifice srt p segs"
  have out: "out = take_until cap (total_size segs) ?ss"
    using False assms(3,4) by (simp add: janitorDeleteOrder_def)
  obtain kept where k: "?ss = out @ kept" "kept \<noteq> [] \<longrightarrow> total_size segs - total_size out \<le> cap"
    using take_until_prefix [of ?ss cap "total_size segs"] unfolding out by blast
  have m: "mset (out @ kept) = mset segs" using mset_tiers [OF assms(1), of p segs] k(1) by simp
  have "kept = [] \<Longrightarrow> total_size out = total_size segs" using total_size_mset [OF m] by simp
  moreover have "\<forall>a\<in>set out. \<forall>b\<in>set kept. jan_rank p a b"
    using sacrifice_sorted [OF assms(1,2), of p segs] by (simp add: k(1) sorted_wrt_append)
  ultimately show ?thesis
    using m k(2) take_until_minimal [of cap "total_size segs" ?ss] assms(3) out by fastforce
qed

theorem janitor_honours_cap_witness:
  "let mk = (\<lambda>n b t ev. \<lparr>js_path = n, js_size = b, js_start = t, js_dur = 300, js_ev = ev\<rparr>);
       segs = [mk ''e'' 6 100 True, mk ''f'' 6 200 False, mk ''k'' 6 900 False];
       p = \<lparr>jp_keep_all = 800, jp_keep_event = 50\<rparr>;
       out = janitorDeleteOrder (sort_key js_start) segs 10 (total_size segs) p
   in map js_path out = [''f'', ''e''] \<and> total_size segs - total_size out \<le> 10"
proof -
  let ?mk = "\<lambda>n b t ev. \<lparr>js_path = n, js_size = b, js_start = t, js_dur = 300, js_ev = ev\<rparr>"
  let ?segs = "[?mk ''e'' 6 100 True, ?mk ''f'' 6 200 False, ?mk ''k'' 6 900 False]"
  let ?p = "\<lparr>jp_keep_all = 800, jp_keep_event = 50\<rparr>"
  have "map js_path (janitorDeleteOrder (sort_key js_start) ?segs 10 (total_size ?segs) ?p) = [''f'', ''e'']"
    by (simp add: janitorDeleteOrder_def sacrifice_def tier_def)
  with janitor_honours_cap [of "sort_key js_start" 10 _ ?segs ?p, OF _ _ _ refl]
  show ?thesis by (simp add: Let_def)
qed

text \<open>A requested window is answered completely, from the index as from the disk: with an index
  that agrees with the directories (which every lookup preserves), every recorded file that
  begins inside the window is among the segments, with a positive duration of at most the
  nominal length, and every segment is a regular file of the stream that overlaps the window.\<close>

lemma export_complete:
  assumes "calendar_ok cal" "index_ok cal fs r" "safeStreamDir r stream = Some dir"
    and "is_file fs dir name" "has_suffix name ''.mp4''" "cal_parse cal (trim_suffix name ''.mp4'') = Some t"
    and "has_prefix name (cal_day cal t)" "start \<le> t" "t < e"
  shows "(\<exists>s\<in>set (fst (segmentsForExport cal fs stream start e r)).
        rs_name s = name \<and> rs_start s = t \<and> 0 < rs_dur s \<and> rs_dur s \<le> nominal_secs r)
     \<and> (\<forall>s\<in>set (fst (segmentsForExport cal fs stream start e r)).
        is_file fs dir (rs_name s) \<and> rs_start s < e \<and> start < rs_start s + rs_dur s)
     \<and> index_ok cal fs (snd (segmentsForExport cal fs stream start e r))"
proof -
  let ?n = "nominal_secs r"
  let ?days = "daysInRange cal (start - ?n) (e + ?n)"
  let ?all = "concat (map (\<lambda>d. fresh_index cal fs r stream d False) ?days)"
  let ?files = "filter (\<lambda>s. start - ?n \<le> rs_start s \<and> rs_start s \<le> e + ?n \<and> is_file fs dir (rs_name s)) ?all"
  have lt: "start < e" using assms(8,9) by simp
  note ex = export_fresh [OF assms(2) lt assms(3)]
  have day: "cal_day cal t \<in> set ?days"
    using day_loop_covers [OF assms(1), of "start - ?n" t "e + ?n"] assms(8,9) nominal_pos [of r]
    by (simp add: daysInRange_def)
  have "length (cal_day cal t) = 8" using assms(1) by (simp add: calendar_ok_def)
  then have "\<exists>s\<in>set (fresh_index cal fs r stream (cal_day cal t) False). rs_name s = name \<and> rs_start s = t"
    using scan_complete [OF is_file_name [OF assms(4)] assms(7,5,6)] assms(3) by (simp add: fresh_index_def)
  with day have "\<exists>s\<in>set ?all. rs_name s = name \<and> rs_start s = t" by auto
  then have "\<exists>s\<in>set ?files. rs_name s = name \<and> rs_start s = t"
    using assms(4,8,9) nominal_pos [of r] by auto
  then obtain s0 where s0: "s0 \<in> set ?files" "rs_name s0 = name" "rs_start s0 = t" by blast
  obtain s where s: "s \<in> set (with_durs ?n ?files)" "rs_name s = name" "rs_start s = t"
    using with_durs_in [OF s0(1), of ?n] unfolding s0(2,3) by blast
  have d: "0 < rs_dur s \<and> rs_dur s \<le> ?n" by (rule with_durs_bounds [OF nominal_pos s(1)])
  have mem: "x \<in> set (fst (segmentsForExport cal fs stream start e r)) \<longleftrightarrow>
      x \<in> set (with_durs ?n ?files) \<and> rs_start x < e \<and> rs_start x + rs_dur x > start" for x
    unfolding conjunct1 [OF ex] by simp
  have found: "s \<in> set (fst (segmentsForExport cal fs stream start e r))"
    unfolding mem using s d assms(8,9) by linarith
  have "is_file fs dir (rs_name x) \<and> rs_start x < e \<and> start < rs_start x + rs_dur x"
    if x: "x \<in> set (fst (segmentsForExport cal fs stream start e r))" for x
  proof -
    from x have m: "x \<in> set (with_durs ?n ?files)" "rs_start x < e" "start < rs_start x + rs_dur x"
      unfolding mem by simp_all
    obtain x' where "x' \<in> set ?files" "rs_name x' = rs_name x" using with_durs_from [OF m(1)] by blast
    then have "is_file fs dir (rs_name x)" unfolding set_filter by (metis (no_types, lifting) mem_Collect_eq)
    with m show ?thesis by simp
  qed
  with found s(2,3) d conjunct2 [OF ex] show ?thesis by blast
qed

definition toy_calendar :: calendar where
  "toy_calendar = \<lparr>cal_day = (\<lambda>_. ''20260101''), cal_next = (\<lambda>t. t + 86400),
     cal_parse = (\<lambda>n. if n = ''20260101_001640'' then Some 1000 else None)\<rparr>"

definition toy_fs :: file_system where
  "toy_fs dir = \<lparr>dr_mtime = 5, dr_entries = (if dir = ''/r/a''
     then [(''20260101_001640.mp4'', \<lparr>fi_dir = False, fi_size = 7, fi_mtime = 4\<rparr>)] else [])\<rparr>"

end
