(* ===== verification/Hub.thy ===== *)
theory Hub
  imports Agent_Session Agent_Registry Limiter Recorder
begin

text \<open>
  \<^verbatim>\<open>relay/hub.go\<close> and the settings of \<^verbatim>\<open>relay/alerts.go\<close>: the hub of all agent sessions. Handlers
  of a WebSocket are split at its reads: what happens up to admission, one message, the end of the
  connection. A connection is a number that is used once. \<open>HandlePublish\<close> is in addition split at
  the point between the PIN check and the claim of the publisher slot, because nothing keeps two
  connections from interleaving there. The goroutine that hands a configuration to the proxy runs
  at once. The recognition and storage of thumbnails is outside the model: \<open>hb_thumbs\<close> lists what
  was handed to it. A wall clock in milliseconds and the limiter's clock are arguments. The maps
  are association lists; where the code takes whichever entry of a map it meets first
  (\<open>sessionByPIN\<close>), the model takes the first of the list.
\<close>

section \<open>State\<close>

record alert_config =
  al_enabled :: bool
  al_tg_token :: string
  al_tg_chat :: string
  al_webhook :: string

datatype hello_error =
    ReadHello | HelloTooShort | HelloHeader ovp_error | ExpectedHello message_type | ParseHello
  | ReadAuth | AuthTooShort | AuthHeader ovp_error | ExpectedAuth message_type | ParseAuth

text \<open>What does not change while the relay runs: the JSON codec, the environment of the proxies, the
  configuration, whether a store is attached (\<open>cfg.Store\<close>), the environment variables of the alert
  settings, the texts of errors, the local day of a second, and the order in which the frame
  buffer's map is enumerated.\<close>

record relay =
  rl_codec :: json_codec
  rl_env :: env
  rl_max_queue :: nat
  rl_dash_env :: string
  rl_store :: bool
  rl_getenv :: "string \<Rightarrow> string"
  rl_text :: "hello_error \<Rightarrow> string"
  rl_day :: "int \<Rightarrow> string"
  rl_ord :: "tile list \<Rightarrow> tile list"

record hub =
  hb_sessions :: "(string \<times> agent_session) list"
  hb_net :: net
  hb_seq :: "32 word"
  hb_done :: bool
  hb_pattern :: bool
  hb_limiter :: pin_limiter
  hb_dash :: string
  hb_labels :: "(string \<times> string) list"
  hb_alert :: alert_config
  hb_hidden :: "string list"
  hb_events :: "event_store option"
  hb_thumbs :: "(string \<times> int \<times> bytes) list"
  hb_registry :: registry
  hb_db :: agent_db
  hb_walls :: wall_tables

section \<open>Settings\<close>

definition effectiveDashToken :: "relay \<Rightarrow> hub \<Rightarrow> string" where
  "effectiveDashToken rl h = (if hb_dash h \<noteq> [] then hb_dash h else rl_dash_env rl)"

datatype setting_error = NoStore | StoreFailed

definition setDashToken :: "relay \<Rightarrow> string \<Rightarrow> hub \<Rightarrow> hub \<times> setting_error option" where
  "setDashToken rl tok h =
     (if \<not> rl_store rl then (h, Some NoStore)
      else case setSetting settingDashboardToken tok (hb_db h) of
        (db, False) \<Rightarrow> (h\<lparr>hb_db := db\<rparr>, Some StoreFailed)
      | (db, True) \<Rightarrow> (h\<lparr>hb_db := db, hb_dash := tok\<rparr>, None))"

definition hasChannel :: "alert_config \<Rightarrow> bool" where
  "hasChannel c = (al_tg_token c \<noteq> [] \<and> al_tg_chat c \<noteq> [] \<or> al_webhook c \<noteq> [])"

definition alert_active :: "alert_config \<Rightarrow> bool" where
  "alert_active c = (al_enabled c \<and> hasChannel c)"

text \<open>The closure \<open>get\<close> of \<open>loadAlertConfig\<close>: the stored value, or the environment's.\<close>

definition alert_value :: "relay \<Rightarrow> string \<Rightarrow> string \<Rightarrow> agent_db \<Rightarrow> agent_db \<times> string" where
  "alert_value rl key envName db =
     (if \<not> rl_store rl then (db, rl_getenv rl envName)
      else case getSetting key db of
        (db', Some v) \<Rightarrow> (db', if v \<noteq> [] then v else rl_getenv rl envName)
      | (db', None) \<Rightarrow> (db', rl_getenv rl envName))"

definition loadAlertConfig :: "relay \<Rightarrow> agent_db \<Rightarrow> agent_db \<times> alert_config" where
  "loadAlertConfig rl db =
     (case alert_value rl settingAlertTGToken ''RELAY_TELEGRAM_TOKEN'' db of (db1, tok) \<Rightarrow>
      case alert_value rl settingAlertTGChat ''RELAY_TELEGRAM_CHAT'' db1 of (db2, chat) \<Rightarrow>
      case alert_value rl settingAlertWebhook ''RELAY_ALERT_WEBHOOK'' db2 of (db3, hook) \<Rightarrow>
      case alert_value rl settingAlertEnabled ''RELAY_ALERTS_ENABLED'' db3 of (db4, en) \<Rightarrow>
        (db4, \<lparr>al_enabled = (en = ''1'' \<or> EqualFold en ''true''), al_tg_token = tok, al_tg_chat = chat,
               al_webhook = hook\<rparr>))"

fun put_settings :: "(string \<times> string) list \<Rightarrow> agent_db \<Rightarrow> agent_db \<times> bool" where
  "put_settings [] db = (db, True)"
| "put_settings ((k, v) # kvs) db =
     (case setSetting k v db of (db', True) \<Rightarrow> put_settings kvs db' | (db', False) \<Rightarrow> (db', False))"

definition alert_values :: "alert_config \<Rightarrow> (string \<times> string) list" where
  "alert_values c = [(settingAlertEnabled, if al_enabled c then ''1'' else ''0''),
     (settingAlertTGToken, al_tg_token c), (settingAlertTGChat, al_tg_chat c), (settingAlertWebhook, al_webhook c)]"

text \<open>Go iterates the map of values in any order: \<open>ord\<close>.\<close>

definition setAlertConfig ::
    "((string \<times> string) list \<Rightarrow> (string \<times> string) list) \<Rightarrow> relay \<Rightarrow> alert_config \<Rightarrow> hub \<Rightarrow> hub \<times> setting_error option" where
  "setAlertConfig ord rl c h =
     (if \<not> rl_store rl then (h, Some NoStore)
      else case put_settings (ord (alert_values c)) (hb_db h) of
        (db, False) \<Rightarrow> (h\<lparr>hb_db := db\<rparr>, Some StoreFailed)
      | (db, True) \<Rightarrow> (h\<lparr>hb_db := db, hb_alert := c\<rparr>, None))"

definition getAlertConfig :: "hub \<Rightarrow> alert_config" where
  "getAlertConfig h = hb_alert h"

definition isAgentHidden :: "string \<Rightarrow> hub \<Rightarrow> bool" where
  "isAgentHidden aid h = (aid \<in> set (hb_hidden h))"

definition setAgentHidden :: "relay \<Rightarrow> string \<Rightarrow> bool \<Rightarrow> hub \<Rightarrow> hub \<times> setting_error option" where
  "setAgentHidden rl aid hidden h =
     (if \<not> rl_store rl then (h, Some NoStore)
      else case db_setAgentHidden aid hidden (hb_db h) of
        (db, False) \<Rightarrow> (h\<lparr>hb_db := db\<rparr>, Some StoreFailed)
      | (db, True) \<Rightarrow> (h\<lparr>hb_db := db, hb_hidden := (if hidden then aid # hb_hidden h
           else filter (\<lambda>x. x \<noteq> aid) (hb_hidden h))\<rparr>, None))"

definition getIPLabel :: "string \<Rightarrow> hub \<Rightarrow> string" where
  "getIPLabel ip h = (case map_of (hb_labels h) ip of None \<Rightarrow> [] | Some l \<Rightarrow> l)"

definition setIPLabel :: "relay \<Rightarrow> string \<Rightarrow> string \<Rightarrow> hub \<Rightarrow> hub \<times> setting_error option" where
  "setIPLabel rl ip label h =
     (if \<not> rl_store rl then (h, Some NoStore)
      else case db_setIPLabel ip label (hb_db h) of
        (db, False) \<Rightarrow> (h\<lparr>hb_db := db\<rparr>, Some StoreFailed)
      | (db, True) \<Rightarrow> (h\<lparr>hb_db := db, hb_labels := (if label = [] then AList.delete ip (hb_labels h)
           else AList.update ip label (hb_labels h))\<rparr>, None))"

text \<open>\<open>NewHub\<close>: the stored settings are read when there is a store; an error leaves the default.\<close>

definition NewHub :: "relay \<Rightarrow> registry \<Rightarrow> agent_db \<Rightarrow> wall_tables \<Rightarrow> event_store option \<Rightarrow> hub" where
  "NewHub rl reg db walls evs =
     (let (db1, dash) = (if rl_store rl then getSetting settingDashboardToken db else (db, None));
          (db2, labels) = (if rl_store rl then ipLabels db1 else (db1, None));
          (db3, alert) = loadAlertConfig rl db2;
          (db4, hid) = (if rl_store rl then hiddenAgents db3 else (db3, None))
      in \<lparr>hb_sessions = [(''default'', newAgentSession ''default'' ''default'')],
          hb_net = \<lparr>nt_sent = [], nt_closed = []\<rparr>, hb_seq = 0, hb_done = False, hb_pattern = False,
          hb_limiter = newPinLimiter, hb_dash = (case dash of None \<Rightarrow> [] | Some v \<Rightarrow> v),
          hb_labels = (case labels of None \<Rightarrow> [] | Some m \<Rightarrow> m), hb_alert = alert,
          hb_hidden = (case hid of None \<Rightarrow> [] | Some xs \<Rightarrow> xs), hb_events = evs, hb_thumbs = [],
          hb_registry = reg, hb_db = db4, hb_walls = walls\<rparr>)"

section \<open>Sessions\<close>

definition sessionByID :: "string \<Rightarrow> hub \<Rightarrow> agent_session option" where
  "sessionByID sid h = map_of (hb_sessions h) sid"

definition put_session :: "string \<Rightarrow> agent_session \<Rightarrow> hub \<Rightarrow> hub" where
  "put_session sid s h = h\<lparr>hb_sessions := AList.update sid s (hb_sessions h)\<rparr>"

definition on_session :: "string \<Rightarrow> (agent_session \<Rightarrow> agent_session) \<Rightarrow> hub \<Rightarrow> hub" where
  "on_session sid f h = (case sessionByID sid h of None \<Rightarrow> h | Some s \<Rightarrow> put_session sid (f s) h)"

text \<open>An operation of a session that also uses the connections.\<close>

definition on_session_net :: "string \<Rightarrow> (agent_session \<times> net \<Rightarrow> agent_session \<times> net) \<Rightarrow> hub \<Rightarrow> hub" where
  "on_session_net sid f h = (case sessionByID sid h of None \<Rightarrow> h
     | Some s \<Rightarrow> (case f (s, hb_net h) of (s', n') \<Rightarrow> (put_session sid s' h)\<lparr>hb_net := n'\<rparr>))"

definition getOrCreateSession :: "string \<Rightarrow> string \<Rightarrow> hub \<Rightarrow> hub" where
  "getOrCreateSession agentID name h = (case sessionByID agentID h of
      Some s \<Rightarrow> h | None \<Rightarrow> put_session agentID (newAgentSession agentID name) h)"

definition has_pin :: "string \<Rightarrow> agent_session \<Rightarrow> bool" where
  "has_pin pin s = (as_publisher s \<noteq> None \<and> as_pin s = pin)"

definition sessionByPIN :: "string \<Rightarrow> hub \<Rightarrow> string option" where
  "sessionByPIN pin h = (if pin = [] then None
     else map_option fst (find (\<lambda>(sid, s). has_pin pin s) (hb_sessions h)))"

definition allSessions :: "hub \<Rightarrow> agent_session list" where
  "allSessions h = map snd (hb_sessions h)"

definition Stop :: "hub \<Rightarrow> hub" where
  "Stop h = h\<lparr>hb_pattern := False, hb_done := True,
     hb_sessions := map (\<lambda>(sid, s). (sid, s\<lparr>as_proxy := StopAll (as_proxy s)\<rparr>)) (hb_sessions h)\<rparr>"

section \<open>The handshake\<close>

definition sendError :: "relay \<Rightarrow> nat \<Rightarrow> int \<Rightarrow> string \<Rightarrow> hub \<Rightarrow> hub" where
  "sendError rl conn code msg h = h\<lparr>hb_net := ws_write conn
     (MarshalMessage MsgError (js_put_error (rl_codec rl) \<lparr>em_code = code, em_message = msg\<rparr>)) (hb_net h)\<rparr>"

definition hub_close :: "nat \<Rightarrow> hub \<Rightarrow> hub" where
  "hub_close conn h = h\<lparr>hb_net := ws_close conn (hb_net h)\<rparr>"

definition refuse :: "relay \<Rightarrow> nat \<Rightarrow> int \<Rightarrow> string \<Rightarrow> hub \<Rightarrow> hub" where
  "refuse rl conn code msg h = hub_close conn (sendError rl conn code msg h)"

text \<open>One handshake message: its payload once the header has the expected type. \<open>None\<close> is a failed
  read (or the deadline).\<close>

definition handshake_payload ::
    "message_type \<Rightarrow> hello_error \<Rightarrow> hello_error \<Rightarrow> (ovp_error \<Rightarrow> hello_error) \<Rightarrow> (message_type \<Rightarrow> hello_error)
       \<Rightarrow> bytes option \<Rightarrow> hello_error + bytes" where
  "handshake_payload t rd short hdrErr wrong data =
     (case data of None \<Rightarrow> Inl rd
      | Some d \<Rightarrow>
          if length d < HeaderSize then Inl short
          else case DecodeHeader d of
            Inl (_, e) \<Rightarrow> Inl (hdrErr e)
          | Inr hdr \<Rightarrow> if h_type hdr \<noteq> t then Inl (wrong (h_type hdr)) else Inr (drop HeaderSize d))"

definition readHelloAuth :: "json_codec \<Rightarrow> bytes option \<Rightarrow> bytes option \<Rightarrow> hello_error + hello \<times> auth" where
  "readHelloAuth codec r1 r2 =
     (case handshake_payload MsgHello ReadHello HelloTooShort HelloHeader ExpectedHello r1 of
        Inl e \<Rightarrow> Inl e
      | Inr p1 \<Rightarrow> (case js_hello codec p1 of
          None \<Rightarrow> Inl ParseHello
        | Some hello \<Rightarrow>
            (case handshake_payload MsgAuth ReadAuth AuthTooShort AuthHeader ExpectedAuth r2 of
               Inl e \<Rightarrow> Inl e
             | Inr p2 \<Rightarrow> (case js_auth codec p2 of
                 None \<Rightarrow> Inl ParseAuth
               | Some auth \<Rightarrow> Inr (hello, auth)))))"

definition validPublisherToken :: "string \<Rightarrow> string \<Rightarrow> bool" where
  "validPublisherToken provided configured =
     (if configured = [] \<or> provided = [] then False else provided = configured)"

definition authenticatePublisher ::
    "relay \<Rightarrow> registry \<Rightarrow> bytes option \<Rightarrow> bytes option \<Rightarrow> (int \<times> string) + hello \<times> auth" where
  "authenticatePublisher rl reg r1 r2 =
     (case readHelloAuth (rl_codec rl) r1 r2 of
        Inl e \<Rightarrow> Inl (400, rl_text rl e)
      | Inr (hello, auth) \<Rightarrow>
          if hl_role hello \<noteq> ''publisher'' then Inl (403, ''expected publisher role'')
          else case lookup reg (hl_agent_id hello) of
            None \<Rightarrow> Inl (403, ''unknown agent'')
          | Some entry \<Rightarrow>
              if \<not> validPublisherToken (au_token auth) (ae_token entry) then Inl (401, ''invalid publisher token'')
              else if au_pin auth = [] then Inl (400, ''missing viewer PIN'')
              else Inr (hello, auth))"

section \<open>Publishers\<close>

text \<open>\<open>HandlePublish\<close> up to the PIN check: the session to claim, when it passes.\<close>

definition publish_enter ::
    "relay \<Rightarrow> nat \<Rightarrow> bytes option \<Rightarrow> bytes option \<Rightarrow> hub \<Rightarrow> hub \<times> (string \<times> hello \<times> auth) option" where
  "publish_enter rl conn r1 r2 h =
     (case authenticatePublisher rl (hb_registry h) r1 r2 of
        Inl (code, msg) \<Rightarrow> (refuse rl conn code msg h, None)
      | Inr (hello, auth) \<Rightarrow>
          (let entry = (case lookup (hb_registry h) (hl_agent_id hello) of None \<Rightarrow> zero_entry | Some e \<Rightarrow> e);
               sid = ae_id entry;
               h1 = getOrCreateSession sid (ae_name entry) h
           in case sessionByPIN (au_pin auth) h1 of
                Some other \<Rightarrow>
                  if other \<noteq> sid then (refuse rl conn 409 ''viewer PIN already in use by another agent'' h1, None)
                  else (h1, Some (sid, hello, auth))
              | None \<Rightarrow> (h1, Some (sid, hello, auth))))"

text \<open>The claim of the slot and the answer; \<open>False\<close> when the slot is taken.\<close>

definition publish_claim :: "relay \<Rightarrow> int \<Rightarrow> nat \<Rightarrow> string \<Rightarrow> hello \<Rightarrow> auth \<Rightarrow> hub \<Rightarrow> hub \<times> bool" where
  "publish_claim rl now conn sid hello auth h =
     (case sessionByID sid h of
        None \<Rightarrow> (h, False)
      | Some s \<Rightarrow>
          if as_publisher s \<noteq> None then (refuse rl conn 409 ''publisher already connected'' h, False)
          else (let s' = s\<lparr>as_publisher := Some conn, as_pin := au_pin auth, as_connected_at := now,
                           as_client_ver := hl_client_version hello\<rparr>;
                    h1 = put_session sid s' h;
                    h2 = (if sid = ''default'' then h1\<lparr>hb_pattern := False\<rparr> else h1)
                in (h2\<lparr>hb_net := ws_write conn (MarshalMessage MsgReady []) (hb_net h2)\<rparr>, True)))"

text \<open>Both without interruption; the session of an admitted publisher.\<close>

definition HandlePublish ::
    "relay \<Rightarrow> int \<Rightarrow> nat \<Rightarrow> bytes option \<Rightarrow> bytes option \<Rightarrow> hub \<Rightarrow> hub \<times> string option" where
  "HandlePublish rl now conn r1 r2 h =
     (case publish_enter rl conn r1 r2 h of
        (h1, None) \<Rightarrow> (h1, None)
      | (h1, Some (sid, hello, auth)) \<Rightarrow>
          (case publish_claim rl now conn sid hello auth h1 of (h2, ok) \<Rightarrow> (h2, if ok then Some sid else None)))"

definition publish_close :: "nat \<Rightarrow> string \<Rightarrow> hub \<Rightarrow> hub" where
  "publish_close conn sid h =
     (let h1 = hub_close conn (on_session sid (\<lambda>s. if as_publisher s = Some conn
                 then s\<lparr>as_publisher := None, as_pin := []\<rparr> else s) h)
      in if sid = ''default'' then h1\<lparr>hb_pattern := True\<rparr> else h1)"

definition stampSurvConfigAgentID :: "json_codec \<Rightarrow> bytes \<Rightarrow> string \<Rightarrow> bytes" where
  "stampSurvConfigAgentID codec msg agentID =
     (if agentID = [] \<or> agentID = ''default'' \<or> length msg \<le> HeaderSize then msg
      else case js_config codec (drop HeaderSize msg) of
        None \<Rightarrow> msg
      | Some cfg \<Rightarrow> (case js_put_config codec (cfg\<lparr>sc_agent_id := agentID\<rparr>) of
          None \<Rightarrow> msg | Some payload \<Rightarrow> MarshalMessage MsgSurvConfig payload))"

text \<open>\<open>routeSnapshotResponse\<close>: to the first watcher with the id before the colon, unless its queue is
  full.\<close>

definition offer_by_id :: "32 word \<Rightarrow> bytes \<Rightarrow> agent_session \<Rightarrow> agent_session" where
  "offer_by_id wid msg s =
     (case find (\<lambda>(c, w). wa_id w = wid) (as_watchers s) of
        None \<Rightarrow> s
      | Some (c, w) \<Rightarrow> (case enqueue msg w of
          None \<Rightarrow> s | Some w' \<Rightarrow> s\<lparr>as_watchers := AList.update c w' (as_watchers s)\<rparr>))"

definition routeSnapshotResponse :: "json_codec \<Rightarrow> string \<Rightarrow> bytes \<Rightarrow> agent_session \<Rightarrow> agent_session" where
  "routeSnapshotResponse codec reqID rawMsg s =
     (case cut_at CHR '':'' reqID of
        None \<Rightarrow> s
      | Some (wid, orig) \<Rightarrow> (case parse_uint32 wid of
          None \<Rightarrow> s
        | Some k \<Rightarrow> (case js_snap_resp codec (drop HeaderSize rawMsg) of
            None \<Rightarrow> s
          | Some resp \<Rightarrow> offer_by_id (word_of_nat k)
              (MarshalMessage MsgSurvSnapshot (js_put_snap_resp codec (resp\<lparr>sr_req_id := orig\<rparr>))) s)))"

text \<open>What a publisher's message does to its session; \<open>None\<close> while it waits for room in the
  broadcast channel (the counters are updated with it here).\<close>

definition count_message :: "int \<Rightarrow> bytes \<Rightarrow> agent_session \<Rightarrow> agent_session" where
  "count_message now data s = s\<lparr>as_publish_count := as_publish_count s + 1, as_last_publish := now,
     as_bytes_in := as_bytes_in s + int (length data)\<rparr>"

definition session_message ::
    "relay \<Rightarrow> wall_tables \<Rightarrow> int \<Rightarrow> message_type \<Rightarrow> bytes \<Rightarrow> agent_session \<Rightarrow> agent_session option" where
  "session_message rl walls now t data s0 =
     (let s = count_message now data s0; payload = drop HeaderSize data; codec = rl_codec rl
      in if t = MsgSurvConfig then
           (let cfg = stampSurvConfigAgentID codec data (as_id s)
            in map_option (\<lambda>s'. s'\<lparr>as_proxy := Surv_Proxy.HandleSurvConfig (rl_env rl) walls
                   (js_config codec (drop HeaderSize cfg)) (as_proxy s')\<rparr>)
                 (bc_send cfg (s\<lparr>as_config := cfg\<rparr>)))
         else if t = MsgSurvEvent \<or> t = MsgSurvEventThumb then Some s
         else if t = MsgSurvSnapshot then
           (if length data > HeaderSize then
              (case js_snap_resp codec payload of
                 None \<Rightarrow> Some s | Some resp \<Rightarrow> Some (routeSnapshotResponse codec (sr_req_id resp) data s))
            else Some s)
         else if t = MsgFrameDelta then
           bc_send data (case DecodeFrameDelta payload of
              Inl _ \<Rightarrow> s | Inr fd \<Rightarrow> s\<lparr>as_frame := Update (as_frame s) fd\<rparr>)
         else bc_send data s)"

definition hub_event :: "relay \<Rightarrow> string \<Rightarrow> bytes \<Rightarrow> hub \<Rightarrow> hub" where
  "hub_event rl sid payload h =
     (case hb_events h of None \<Rightarrow> h
      | Some evs \<Rightarrow> (case js_event (rl_codec rl) payload of
          None \<Rightarrow> h
        | Some ev \<Rightarrow> h\<lparr>hb_events := Some (add_edge (rl_day rl) (streamPath sid (se_ch_id ev)) (se_kind ev)
             (se_active ev) (se_ts ev) evs)\<rparr>))"

definition hub_thumb :: "relay \<Rightarrow> string \<Rightarrow> bytes \<Rightarrow> hub \<Rightarrow> hub" where
  "hub_thumb rl sid payload h =
     (case js_thumb (rl_codec rl) payload of
        None \<Rightarrow> h
      | Some th \<Rightarrow> h\<lparr>hb_thumbs := hb_thumbs h @ [(streamPath sid (st_ch_id th), st_ts th, st_jpeg th)]\<rparr>)"

definition publish_message ::
    "relay \<Rightarrow> int \<Rightarrow> string \<Rightarrow> bool \<Rightarrow> bytes \<Rightarrow> hub \<Rightarrow> hub option" where
  "publish_message rl now sid binary data h =
     (if \<not> binary \<or> length data < HeaderSize then Some h
      else case DecodeHeader data of
        Inl _ \<Rightarrow> Some h
      | Inr hdr \<Rightarrow>
         (case sessionByID sid h of
            None \<Rightarrow> Some h
          | Some s \<Rightarrow>
             (case session_message rl (hb_walls h) now (h_type hdr) data s of
                None \<Rightarrow> None
              | Some s' \<Rightarrow>
                 (let h1 = put_session sid s' h; payload = drop HeaderSize data
                  in Some (if h_type hdr = MsgSurvEvent then hub_event rl sid payload h1
                           else if h_type hdr = MsgSurvEventThumb then hub_thumb rl sid payload h1 else h1)))))"

end
