(* ===== verification/Hub_Watch.thy ===== *)
theory Hub_Watch
  imports Hub
begin

text \<open>
  The watcher side and the REST handlers of \<^verbatim>\<open>relay/hub.go\<close>, and the hub as a state machine: the
  steps of its connections and session loops, in any interleaving, with the publisher's handshake
  uninterrupted (\<open>hub_step\<close>). What the interruption of that handshake does is
  \<open>duplicate_pin_race\<close>.
\<close>

section \<open>Watchers\<close>

text \<open>The two forwarding headers and the socket address, for display only.\<close>

definition displayClientIP :: "string \<Rightarrow> string \<Rightarrow> string \<Rightarrow> string" where
  "displayClientIP cf xff remoteAddr =
     (if TrimSpace cf \<noteq> [] then TrimSpace cf
      else if xff \<noteq> [] then
        (case cut_at CHR '','' xff of Some (first, _) \<Rightarrow> TrimSpace first | None \<Rightarrow> TrimSpace xff)
      else clientIP remoteAddr)"

definition new_watcher :: "relay \<Rightarrow> 32 word \<Rightarrow> string \<Rightarrow> instant \<Rightarrow> watcher" where
  "new_watcher rl wid ip now = \<lparr>wa_id = wid, wa_ip = ip, wa_since = now, wa_cap = rl_max_queue rl, wa_queue = []\<rparr>"

definition add_watcher :: "nat \<Rightarrow> watcher \<Rightarrow> agent_session \<Rightarrow> agent_session" where
  "add_watcher conn w s = s\<lparr>as_watchers := AList.update conn w (as_watchers s),
     as_watcher_count := as_watcher_count s + 1\<rparr>"

text \<open>What a new watcher is sent: READY, the cached configuration, the cached frame.\<close>

definition greeting :: "relay \<Rightarrow> 64 word \<Rightarrow> agent_session \<Rightarrow> bytes list" where
  "greeting rl nowMs s = [MarshalMessage MsgReady []]
     @ (if length (as_config s) > 0 then [as_config s] else [])
     @ (case FullFrameMessage (rl_ord rl) nowMs (as_frame s) of None \<Rightarrow> [] | Some m \<Rightarrow> [m])"

definition writes :: "nat \<Rightarrow> bytes list \<Rightarrow> net \<Rightarrow> net" where
  "writes conn msgs n = foldl (\<lambda>n m. ws_write conn m n) n msgs"

text \<open>\<open>HandleWatch\<close> up to its read loop; the session of an admitted watcher. \<open>now\<close> and \<open>now2\<close> are the
  limiter's readings of the clock before and after the handshake.\<close>

definition HandleWatch ::
    "relay \<Rightarrow> instant \<Rightarrow> instant \<Rightarrow> 64 word \<Rightarrow> nat \<Rightarrow> string \<Rightarrow> string \<Rightarrow> string \<Rightarrow> bytes option \<Rightarrow> bytes option
       \<Rightarrow> hub \<Rightarrow> hub \<times> string option" where
  "HandleWatch rl now now2 nowMs conn remoteAddr cf xff r1 r2 h =
     (let rateIP = clientIP remoteAddr
      in if \<not> allowed (hb_limiter h) now rateIP then
           (refuse rl conn 429 ''too many attempts; try again later'' h, None)
         else case readHelloAuth (rl_codec rl) r1 r2 of
           Inl e \<Rightarrow> (refuse rl conn 400 (rl_text rl e) h, None)
         | Inr (hello, auth) \<Rightarrow>
             if hl_role hello \<noteq> ''watcher'' then (refuse rl conn 403 ''expected watcher role'' h, None)
             else case sessionByPIN (au_token auth) h of
               None \<Rightarrow> (refuse rl conn 401 ''invalid PIN''
                          (h\<lparr>hb_limiter := recordFailure (hb_limiter h) now2 rateIP\<rparr>), None)
             | Some sid \<Rightarrow>
                 (let wid = hb_seq h + 1;
                      h1 = h\<lparr>hb_limiter := recordSuccess (hb_limiter h) rateIP, hb_seq := wid\<rparr>
                  in (on_session_net sid (\<lambda>(s, n).
                        (let s' = add_watcher conn (new_watcher rl wid (displayClientIP cf xff remoteAddr) now2) s
                         in (s', writes conn (greeting rl nowMs s') n))) h1, Some sid)))"

definition watch_close :: "nat \<Rightarrow> string \<Rightarrow> hub \<Rightarrow> hub" where
  "watch_close conn sid h = on_session_net sid (removeWatcher conn) h"

text \<open>\<open>fmt.Sprintf("%d:%s", watcher.id, req.ReqID)\<close>\<close>

definition tag_request :: "32 word \<Rightarrow> string \<Rightarrow> string" where
  "tag_request wid reqID = nat_str (unat wid) @ '':'' @ reqID"

definition watch_message :: "relay \<Rightarrow> nat \<Rightarrow> string \<Rightarrow> bool \<Rightarrow> bytes \<Rightarrow> hub \<Rightarrow> hub" where
  "watch_message rl conn sid binary data h =
     (if \<not> binary \<or> length data < HeaderSize then h
      else case DecodeHeader data of
        Inl _ \<Rightarrow> h
      | Inr hdr \<Rightarrow>
         (case sessionByID sid h of
            None \<Rightarrow> h
          | Some s \<Rightarrow>
              if h_type hdr = MsgControl then h\<lparr>hb_net := sendControlToPublisher data s (hb_net h)\<rparr>
              else if h_type hdr = MsgSurvSnapshot \<and> length data > HeaderSize then
                (case (js_snap_req (rl_codec rl) (drop HeaderSize data), map_of (as_watchers s) conn) of
                   (Some req, Some w) \<Rightarrow>
                     h\<lparr>hb_net := sendToPublisher (MarshalMessage MsgSurvSnapshot (js_put_snap_req (rl_codec rl)
                         (req\<lparr>sq_req_id := tag_request (wa_id w) (sq_req_id req)\<rparr>))) s (hb_net h)\<rparr>
                 | _ \<Rightarrow> h)
              else h))"

section \<open>REST handlers\<close>

definition pinFromRequest :: "string \<Rightarrow> string \<Rightarrow> string" where
  "pinFromRequest q hdr = (if q \<noteq> [] then q else hdr)"

definition survSessionFromRequest :: "string \<Rightarrow> hub \<Rightarrow> agent_session option" where
  "survSessionFromRequest agent h = (case sessionByID agent h of
      Some s \<Rightarrow> Some s | None \<Rightarrow> sessionByID ''default'' h)"

definition redact_dvr :: "dvr_info \<Rightarrow> dvr_info" where
  "redact_dvr d = d\<lparr>dv_username := [], dv_password := []\<rparr>"

definition redactSurvConfigPayload :: "json_codec \<Rightarrow> bytes \<Rightarrow> bytes option" where
  "redactSurvConfigPayload codec payload =
     (case js_config codec payload of
        None \<Rightarrow> None
      | Some cfg \<Rightarrow> js_put_config codec (cfg\<lparr>sc_dvrs := map redact_dvr (sc_dvrs cfg)\<rparr>))"

datatype config_reply = Unauthorized | EmptyConfig | Config bytes

definition rest_survConfig :: "relay \<Rightarrow> string \<Rightarrow> string \<Rightarrow> string \<Rightarrow> hub \<Rightarrow> config_reply" where
  "rest_survConfig rl agent pinQuery pinHeader h =
     (case survSessionFromRequest agent h of
        None \<Rightarrow> Unauthorized
      | Some s \<Rightarrow>
          if as_publisher s = None \<or> as_pin s = [] \<or> pinFromRequest pinQuery pinHeader \<noteq> as_pin s then Unauthorized
          else if length (as_config s) \<le> HeaderSize then EmptyConfig
          else (case redactSurvConfigPayload (rl_codec rl) (drop HeaderSize (as_config s)) of
              None \<Rightarrow> EmptyConfig | Some b \<Rightarrow> Config b))"

definition HandleSurvStreams :: "string \<Rightarrow> hub \<Rightarrow> (string \<times> string \<times> bool) list" where
  "HandleSurvStreams agent h = (case survSessionFromRequest agent h of
      None \<Rightarrow> [] | Some s \<Rightarrow> ListStreams (as_proxy s))"

text \<open>503 when there is no frame.\<close>

definition HandleSnapshot ::
    "relay \<Rightarrow> (bytes \<Rightarrow> img option) \<Rightarrow> (bytes \<Rightarrow> bytes option) \<Rightarrow> string \<Rightarrow> hub \<Rightarrow> nat + nat \<times> nat \<times> canvas" where
  "HandleSnapshot rl jpeg zstd agent h = (case survSessionFromRequest agent h of
      None \<Rightarrow> Inl 503
    | Some s \<Rightarrow> (case SnapshotPNG (rl_ord rl) jpeg zstd (as_frame s) of None \<Rightarrow> Inl 503 | Some p \<Rightarrow> Inr p))"

record health =
  he_status :: string
  he_online :: nat
  he_watchers :: int

definition HandleHealth :: "hub \<Rightarrow> health" where
  "HandleHealth h =
     (let on = length (filter online (allSessions h))
      in \<lparr>he_status = (if on > 0 then ''ok'' else ''no_publisher''), he_online = on,
          he_watchers = sum_list (map as_watcher_count (allSessions h))\<rparr>)"

record metrics =
  me_publish_count :: int
  me_last_publish :: "int option"
  me_bytes_in :: int
  me_bytes_out :: int
  me_watchers :: int

definition HandleMetrics :: "hub \<Rightarrow> metrics" where
  "HandleMetrics h =
     (let ss = allSessions h; lp = foldl max 0 (map as_last_publish ss)
      in \<lparr>me_publish_count = sum_list (map as_publish_count ss),
          me_last_publish = (if lp > 0 then Some lp else None),
          me_bytes_in = sum_list (map as_bytes_in ss), me_bytes_out = sum_list (map as_bytes_out ss),
          me_watchers = sum_list (map as_watcher_count ss)\<rparr>)"

section \<open>The hub as a state machine\<close>

text \<open>A connection number is used once. The dashboard's edits of the registry, the database and the wall
  tables may leave anything there (\<open>edited\<close>).\<close>

definition fresh_conn :: "nat \<Rightarrow> hub \<Rightarrow> bool" where
  "fresh_conn conn h = list_all (\<lambda>(sid, s). conn \<notin> fst ` set (as_watchers s)) (hb_sessions h)"

inductive hub_step :: "relay \<Rightarrow> hub \<Rightarrow> hub \<Rightarrow> bool" where
  publish: "hub_step rl h (fst (HandlePublish rl now conn r1 r2 h))"
| message: "publish_message rl now sid binary data h = Some h' \<Longrightarrow> hub_step rl h h'"
| gone: "hub_step rl h (publish_close conn sid h)"
| watch: "fresh_conn conn h \<Longrightarrow> hub_step rl h (fst (HandleWatch rl now now2 nowMs conn remoteAddr cf xff r1 r2 h))"
| request: "hub_step rl h (watch_message rl conn sid binary data h)"
| left: "hub_step rl h (watch_close conn sid h)"
| fan: "hub_step rl h (on_session_net sid run_step h)"
| pump: "hub_step rl h (on_session_net sid (pump_step conn) h)"
| stop: "hub_step rl h (Stop h)"
| password: "hub_step rl h (fst (setDashToken rl tok h))"
| alerts: "hub_step rl h (fst (setAlertConfig ord rl c h))"
| hide: "hub_step rl h (fst (setAgentHidden rl sid hidden h))"
| labelled: "hub_step rl h (fst (setIPLabel rl ip label h))"
| edited: "hub_step rl h (h\<lparr>hb_registry := reg, hb_db := db, hb_walls := walls\<rparr>)"

inductive hub_reachable :: "relay \<Rightarrow> hub \<Rightarrow> bool" where
  start: "hub_reachable rl (NewHub rl reg db walls evs)"
| step: "hub_reachable rl h \<Longrightarrow> hub_step rl h h' \<Longrightarrow> hub_reachable rl h'"

section \<open>Lemmas: well-formed hubs\<close>

definition sess_wf :: "string \<Rightarrow> agent_session \<Rightarrow> bool" where
  "sess_wf sid s = (as_id s = sid \<and> sess_ok s \<and> (as_publisher s = None \<longleftrightarrow> as_pin s = []))"

definition pins_unique :: "hub \<Rightarrow> bool" where
  "pins_unique h = (\<forall>a b sa sb. sessionByID a h = Some sa \<longrightarrow> sessionByID b h = Some sb
     \<longrightarrow> online sa \<longrightarrow> online sb \<longrightarrow> as_pin sa = as_pin sb \<longrightarrow> a = b)"

definition hub_ok :: "hub \<Rightarrow> bool" where
  "hub_ok h = (distinct (map fst (hb_sessions h)) \<and> sessionByID ''default'' h \<noteq> None
     \<and> (\<forall>sid s. sessionByID sid h = Some s \<longrightarrow> sess_wf sid s) \<and> pins_unique h)"

text \<open>Who publishes, as what.\<close>

definition who :: "agent_session \<Rightarrow> string \<times> nat option \<times> string" where
  "who s = (as_id s, as_publisher s, as_pin s)"

lemma sessionByID_put [simp]:
  "sessionByID sid (put_session sid' s h) = (if sid = sid' then Some s else sessionByID sid h)"
  by (simp add: sessionByID_def put_session_def)

text \<open>The sessions are all that \<open>hub_ok\<close> looks at.\<close>

lemma hub_ok_sessions: "hb_sessions h' = hb_sessions h \<Longrightarrow> hub_ok h' = hub_ok h"
  by (simp add: hub_ok_def pins_unique_def sessionByID_def)

lemma sessions_frame [simp]:
  "hb_sessions (sendError rl conn code msg h) = hb_sessions h" "hb_sessions (hub_close conn h) = hb_sessions h"
  "hb_sessions (refuse rl conn code msg h) = hb_sessions h" "hb_sessions (hub_event rl sid payload h) = hb_sessions h"
  "hb_sessions (hub_thumb rl sid payload h) = hb_sessions h"
  by (simp_all add: sendError_def hub_close_def refuse_def hub_event_def hub_thumb_def split: option.splits)

lemma hub_ok_put:
  assumes "hub_ok h" "sess_wf sid s'"
    and "\<And>b sb. sessionByID b h = Some sb \<Longrightarrow> b \<noteq> sid \<Longrightarrow> online s' \<Longrightarrow> online sb \<Longrightarrow> as_pin sb \<noteq> as_pin s'"
  shows "hub_ok (put_session sid s' h)"
proof -
  have "distinct (map fst (hb_sessions (put_session sid s' h)))"
    using assms(1) by (simp add: hub_ok_def put_session_def distinct_update)
  moreover have "pins_unique (put_session sid s' h)"
    using assms(1,3) unfolding hub_ok_def pins_unique_def by (auto split: if_splits) (metis+)
  ultimately show ?thesis using assms(1,2) by (auto simp: hub_ok_def split: if_splits)
qed

lemma hub_ok_same_who:
  assumes "hub_ok h" "sessionByID sid h = Some s" "who s' = who s" "sess_ok s'"
  shows "hub_ok (put_session sid s' h)"
proof (rule hub_ok_put [OF assms(1)])
  have "sess_wf sid s" using assms(1,2) by (simp add: hub_ok_def)
  then show "sess_wf sid s'" using assms(3,4) by (simp add: sess_wf_def who_def)
next
  fix b sb
  assume b: "sessionByID b h = Some sb" "b \<noteq> sid" "online s'" "online sb"
  have "online s" "as_pin s' = as_pin s" using assms(3) b(3) by (auto simp: who_def online_def)
  then show "as_pin sb \<noteq> as_pin s'"
    using assms(1,2) b unfolding hub_ok_def pins_unique_def by metis
qed

text \<open>An operation of a session loop: it neither changes who publishes nor breaks the session.\<close>

locale session_loop =
  fixes f :: "agent_session \<times> net \<Rightarrow> agent_session \<times> net"
  assumes keeps_who: "who (fst (f (s, n))) = who s"
    and keeps_ok: "sess_ok s \<Longrightarrow> sess_ok (fst (f (s, n)))"
begin

lemma hub_ok_loop:
  assumes "hub_ok h"
  shows "hub_ok (on_session_net sid f h)"
proof (cases "sessionByID sid h")
  case None
  with assms show ?thesis by (simp add: on_session_net_def)
next
  case (Some s)
  obtain s' n' where f: "f (s, hb_net h) = (s', n')" by fastforce
  have "sess_ok s" using assms Some by (simp add: hub_ok_def sess_wf_def)
  with keeps_who [of s "hb_net h"] keeps_ok [of s "hb_net h"] f
  have "hub_ok (put_session sid s' h)" by (intro hub_ok_same_who [OF assms Some]) simp_all
  then show ?thesis using Some f hub_ok_sessions [of "(put_session sid s' h)\<lparr>hb_net := n'\<rparr>"]
    by (simp add: on_session_net_def)
qed

end

lemma who_remove [simp]: "who (fst (removeWatcher c st)) = who (fst st)"
  by (cases st) (simp add: removeWatcher_def who_def split: option.splits)

lemma who_removes [simp]: "who (fst (foldl (\<lambda>x c. removeWatcher c x) st cs)) = who (fst st)"
  by (induction cs arbitrary: st) simp_all

lemma who_broadcast [simp]: "who (s\<lparr>as_broadcast := b\<rparr>) = who s" "who (fan_out msg s) = who s"
  by (simp_all add: who_def fan_out_def)

lemma who_run_step [simp]: "who (fst (run_step (s, n))) = who s"
  by (cases "as_broadcast s") (simp_all add: run_step_def)

lemma who_pump [simp]: "who (fst (pump_step conn (s, n))) = who s"
  by (simp add: pump_step_def who_def split: list.splits option.splits)

interpretation fan_loop: session_loop run_step
  by unfold_locales (simp_all add: sess_ok_run_step)

interpretation pump_loop: session_loop "pump_step conn" for conn
  by unfold_locales (simp_all add: sess_ok_pump)

interpretation leave_loop: session_loop "removeWatcher conn" for conn
  by unfold_locales (simp_all add: sess_ok_remove)

section \<open>Lemmas: messages\<close>

lemma bc_send_who: "bc_send msg s = Some s' \<Longrightarrow> who s' = who s"
  by (auto simp: bc_send_def who_def split: if_splits)

lemma who_fields [simp]:
  "who (count_message now data s) = who s" "who (s\<lparr>as_config := c\<rparr>) = who s" "who (s\<lparr>as_frame := fb\<rparr>) = who s"
  "who (s\<lparr>as_proxy := px\<rparr>) = who s" "who (s\<lparr>as_watchers := ws\<rparr>) = who s"
  by (simp_all add: who_def count_message_def)

lemma sess_ok_fields [simp]:
  "sess_ok (count_message now data s) = sess_ok s" "sess_ok (s\<lparr>as_config := c\<rparr>) = sess_ok s"
  "sess_ok (s\<lparr>as_frame := fb\<rparr>) = sess_ok s" "sess_ok (s\<lparr>as_proxy := px\<rparr>) = sess_ok s"
  by (simp_all add: sess_ok_def count_message_def)

lemma who_offer [simp]: "who (offer_by_id wid msg s) = who s"
  by (simp add: offer_by_id_def split: option.splits prod.splits)

lemma who_route [simp]: "who (routeSnapshotResponse codec reqID rawMsg s) = who s"
  by (simp add: routeSnapshotResponse_def split: option.splits prod.splits)

lemma sess_ok_offer: "sess_ok s \<Longrightarrow> sess_ok (offer_by_id wid msg s)"
proof (cases "find (\<lambda>(c, w). wa_id w = wid) (as_watchers s)")
  case (Some cw)
  assume ok: "sess_ok s"
  obtain c w where cw: "cw = (c, w)" by (cases cw)
  have "(c, w) \<in> set (as_watchers s)" using find_SomeD [OF Some] cw by simp
  then have c: "c \<in> fst ` set (as_watchers s)" by force
  show ?thesis
  proof (cases "enqueue msg w")
    case (Some w')
    then have "length (wa_queue w') \<le> wa_cap w'" by (auto simp: enqueue_def split: if_splits)
    then show ?thesis
      using ok c \<open>find _ _ = Some cw\<close> cw Some set_alist_update [of c w' "as_watchers s"]
      by (auto simp: offer_by_id_def sess_ok_def distinct_update length_alist_update)
  qed (use ok Some cw in \<open>simp add: offer_by_id_def\<close>)
qed (simp add: offer_by_id_def)

lemma sess_ok_route: "sess_ok s \<Longrightarrow> sess_ok (routeSnapshotResponse codec reqID rawMsg s)"
  by (simp add: routeSnapshotResponse_def sess_ok_offer split: option.splits prod.splits)

lemma session_message_ok:
  assumes "session_message rl walls now t data s = Some s'" "sess_ok s"
  shows "who s' = who s \<and> sess_ok s'"
  using assms bc_send_who sess_ok_bc_send
  by (auto simp: session_message_def Let_def sess_ok_route split: if_splits option.splits sum.splits) (metis who_fields sess_ok_fields)+

lemma publish_message_cases:
  assumes "publish_message rl now sid binary data h = Some h'"
  shows "h' = h \<or> (\<exists>(hdr :: header) s s'. sessionByID sid h = Some s
     \<and> session_message rl (hb_walls h) now (h_type hdr) data s = Some s'
     \<and> h' = (if h_type hdr = MsgSurvEvent then hub_event rl sid (drop HeaderSize data) (put_session sid s' h)
             else if h_type hdr = MsgSurvEventThumb then hub_thumb rl sid (drop HeaderSize data) (put_session sid s' h)
             else put_session sid s' h))"
proof (cases "\<not> binary \<or> length data < HeaderSize")
  case False
  show ?thesis
  proof (cases "DecodeHeader data")
    case (Inr hdr)
    show ?thesis
    proof (cases "sessionByID sid h")
      case (Some s)
      from assms False Inr Some obtain s' where "session_message rl (hb_walls h) now (h_type hdr) data s = Some s'"
        by (auto simp: publish_message_def split: option.splits)
      moreover from this have "h' = (if h_type hdr = MsgSurvEvent
             then hub_event rl sid (drop HeaderSize data) (put_session sid s' h)
             else if h_type hdr = MsgSurvEventThumb then hub_thumb rl sid (drop HeaderSize data) (put_session sid s' h)
             else put_session sid s' h)"
        using assms False Inr Some by (simp add: publish_message_def Let_def)
      ultimately show ?thesis using Some by metis
    qed (use assms False Inr in \<open>simp add: publish_message_def\<close>)
  qed (use assms False in \<open>simp add: publish_message_def\<close>)
qed (use assms in \<open>simp add: publish_message_def\<close>)

lemma publish_message_ok:
  assumes "hub_ok h" "publish_message rl now sid binary data h = Some h'"
  shows "hub_ok h'"
proof (cases "h' = h")
  case False
  then obtain hdr :: header and s s' where s: "sessionByID sid h = Some s"
      "session_message rl (hb_walls h) now (h_type hdr) data s = Some s'"
    and h': "h' = (if h_type hdr = MsgSurvEvent then hub_event rl sid (drop HeaderSize data) (put_session sid s' h)
             else if h_type hdr = MsgSurvEventThumb then hub_thumb rl sid (drop HeaderSize data) (put_session sid s' h)
             else put_session sid s' h)"
    using publish_message_cases [OF assms(2)] by blast
  have "hb_sessions h' = hb_sessions (put_session sid s' h)" unfolding h' by simp
  note h'' = hub_ok_sessions [OF this]
  have "sess_ok s" using assms(1) s(1) by (simp add: hub_ok_def sess_wf_def)
  from session_message_ok [OF s(2) this] have "hub_ok (put_session sid s' h)"
    by (intro hub_ok_same_who [OF assms(1) s(1)]) simp_all
  then show ?thesis using h'' by simp
qed (use assms in simp)

section \<open>Lemmas: admission\<close>

lemma sessionByPIN_iff:
  assumes "hub_ok h"
  shows "sessionByPIN pin h = Some sid \<longleftrightarrow> pin \<noteq> [] \<and> (\<exists>s. sessionByID sid h = Some s \<and> has_pin pin s)"
proof -
  have d: "distinct (map fst (hb_sessions h))" using assms by (simp add: hub_ok_def)
  have mem: "(a, s) \<in> set (hb_sessions h) \<longleftrightarrow> sessionByID a h = Some s" for a s
    using d by (simp add: sessionByID_def)
  have u: "a = b" if "sessionByID a h = Some sa" "sessionByID b h = Some sb" "has_pin pin sa" "has_pin pin sb" for a b sa sb
    using assms that unfolding hub_ok_def pins_unique_def has_pin_def online_def by metis
  show ?thesis
  proof (cases "find (\<lambda>(sid, s). has_pin pin s) (hb_sessions h)")
    case None
    then have "\<forall>x\<in>set (hb_sessions h). \<not> has_pin pin (snd x)" by (auto simp: find_None_iff)
    then have "\<nexists>s. sessionByID sid h = Some s \<and> has_pin pin s" using mem by force
    with None show ?thesis by (simp add: sessionByPIN_def)
  next
    case (Some x)
    obtain a s where x: "x = (a, s)" by (cases x)
    have "(a, s) \<in> set (hb_sessions h)" "has_pin pin s"
      using find_SomeD [OF Some] x by simp_all
    with u Some x mem show ?thesis by (auto simp: sessionByPIN_def)
  qed
qed

lemma sessionByPIN_None:
  assumes "hub_ok h" "pin \<noteq> []" "sessionByPIN pin h = None" "sessionByID b h = Some sb" "online sb"
  shows "as_pin sb \<noteq> pin"
  using sessionByPIN_iff [OF assms(1), of pin b] assms(2-5) by (auto simp: has_pin_def online_def)

lemma sess_wf_new: "sess_wf aid (newAgentSession aid name)"
  by (simp add: sess_wf_def sess_ok_new) (simp add: newAgentSession_def)

lemma new_offline [simp]: "\<not> online (newAgentSession aid name)"
  by (simp add: online_def newAgentSession_def)

lemma hub_ok_create: "hub_ok h \<Longrightarrow> hub_ok (getOrCreateSession aid name h)"
  by (auto simp: getOrCreateSession_def sess_wf_new intro!: hub_ok_put split: option.split)

lemma create_exists: "\<exists>s. sessionByID aid (getOrCreateSession aid name h) = Some s"
  by (simp add: getOrCreateSession_def split: option.split)

lemma hub_ok_refuse [simp]: "hub_ok (refuse rl conn code msg h) = hub_ok h"
  by (rule hub_ok_sessions) simp

lemma authenticate_pin: "authenticatePublisher rl reg r1 r2 = Inr (hello, auth) \<Longrightarrow> au_pin auth \<noteq> []"
  by (auto simp: authenticatePublisher_def split: sum.splits if_splits option.splits)

text \<open>What the PIN check establishes for the session that may claim the PIN.\<close>

lemma publish_enter_ok:
  assumes "hub_ok h" "publish_enter rl conn r1 r2 h = (h1, res)"
  shows "hub_ok h1" "res = Some (sid, hello, auth) \<Longrightarrow> au_pin auth \<noteq> [] \<and> sessionByID sid h1 \<noteq> None
     \<and> (\<forall>b sb. sessionByID b h1 = Some sb \<longrightarrow> b \<noteq> sid \<longrightarrow> online sb \<longrightarrow> as_pin sb \<noteq> au_pin auth)"
proof -
  show "hub_ok h1"
    using assms hub_ok_create
    by (auto simp: publish_enter_def Let_def split: sum.splits option.splits if_splits)
next
  assume res: "res = Some (sid, hello, auth)"
  then obtain name where a: "authenticatePublisher rl (hb_registry h) r1 r2 = Inr (hello, auth)"
      "h1 = getOrCreateSession sid name h" "sessionByPIN (au_pin auth) h1 \<in> {None, Some sid}"
    using assms(2) by (auto simp: publish_enter_def Let_def split: sum.splits option.splits if_splits)
  note ok = hub_ok_create [OF assms(1), of sid name, folded a(2)]
  note pin = authenticate_pin [OF a(1)]
  have "as_pin sb \<noteq> au_pin auth" if "sessionByID b h1 = Some sb" "b \<noteq> sid" "online sb" for b sb
  proof (cases "sessionByPIN (au_pin auth) h1")
    case None
    from sessionByPIN_None [OF ok pin None that(1,3)] show ?thesis .
  next
    case (Some x)
    with a(3) have "sessionByPIN (au_pin auth) h1 \<noteq> Some b" using that(2) by auto
    with sessionByPIN_iff [OF ok, of "au_pin auth" b] that pin show ?thesis
      by (auto simp: has_pin_def online_def)
  qed
  with pin create_exists [of sid name h] a(2) show "au_pin auth \<noteq> [] \<and> sessionByID sid h1 \<noteq> None
     \<and> (\<forall>b sb. sessionByID b h1 = Some sb \<longrightarrow> b \<noteq> sid \<longrightarrow> online sb \<longrightarrow> as_pin sb \<noteq> au_pin auth)"
    by auto
qed

lemma sess_ok_claim [simp]:
  "sess_ok (s\<lparr>as_publisher := p, as_pin := pin, as_connected_at := t, as_client_ver := v\<rparr>) = sess_ok s"
  "sess_ok (s\<lparr>as_publisher := p, as_pin := pin\<rparr>) = sess_ok s"
  by (simp_all add: sess_ok_def)

lemma publish_claim_ok:
  assumes "hub_ok h" "au_pin auth \<noteq> []"
    and "\<And>b sb. sessionByID b h = Some sb \<Longrightarrow> b \<noteq> sid \<Longrightarrow> online sb \<Longrightarrow> as_pin sb \<noteq> au_pin auth"
  shows "hub_ok (fst (publish_claim rl now conn sid hello auth h))"
proof (cases "sessionByID sid h")
  case (Some s)
  let ?s = "s\<lparr>as_publisher := Some conn, as_pin := au_pin auth, as_connected_at := now,
     as_client_ver := hl_client_version hello\<rparr>"
  have "sess_wf sid s" using assms(1) Some by (simp add: hub_ok_def)
  then have "sess_wf sid ?s" using assms(2) by (simp add: sess_wf_def)
  then have "hub_ok (put_session sid ?s h)"
    using assms(3) by (intro hub_ok_put [OF assms(1)]) auto
  moreover have "hub_ok ((put_session sid ?s h)\<lparr>hb_pattern := p, hb_net := n\<rparr>) = hub_ok (put_session sid ?s h)"
    "hub_ok ((put_session sid ?s h)\<lparr>hb_net := n\<rparr>) = hub_ok (put_session sid ?s h)" for p n
    by (rule hub_ok_sessions, simp)+
  ultimately have "hub_ok ((put_session sid ?s h)\<lparr>hb_pattern := p, hb_net := n\<rparr>)"
    "hub_ok ((put_session sid ?s h)\<lparr>hb_net := n\<rparr>)" for p n by blast+
  with Some assms(1) show ?thesis
    by (cases "sid = ''default''"; cases "as_publisher s") (simp_all add: publish_claim_def Let_def)
qed (use assms in \<open>simp add: publish_claim_def\<close>)

lemma HandlePublish_ok: "hub_ok h \<Longrightarrow> hub_ok (fst (HandlePublish rl now conn r1 r2 h))"
proof -
  assume ok: "hub_ok h"
  obtain h1 res where e: "publish_enter rl conn r1 r2 h = (h1, res)" by fastforce
  note 1 = publish_enter_ok [OF ok e]
  show ?thesis
  proof (cases res)
    case None
    with e 1 show ?thesis by (simp add: HandlePublish_def)
  next
    case (Some x)
    obtain sid hello auth where x: "x = (sid, hello, auth)" by (cases x)
    obtain h2 b where c: "publish_claim rl now conn sid hello auth h1 = (h2, b)" by fastforce
    have "hub_ok (fst (publish_claim rl now conn sid hello auth h1))"
      using 1(2) Some x by (intro publish_claim_ok [OF 1(1)]) auto
    with e Some x c show ?thesis by (simp add: HandlePublish_def)
  qed
qed

lemma HandleWatch_cases:
  obtains (refused) code msg l where "HandleWatch rl now now2 nowMs conn remoteAddr cf xff r1 r2 h
      = (refuse rl conn code msg (h\<lparr>hb_limiter := l\<rparr>), None)"
  | (admitted) hello auth sid where "allowed (hb_limiter h) now (clientIP remoteAddr)"
      "readHelloAuth (rl_codec rl) r1 r2 = Inr (hello, auth)" "hl_role hello = ''watcher''"
      "sessionByPIN (au_token auth) h = Some sid"
      "HandleWatch rl now now2 nowMs conn remoteAddr cf xff r1 r2 h
        = (on_session_net sid (\<lambda>(s, n).
            (let s' = add_watcher conn (new_watcher rl (hb_seq h + 1) (displayClientIP cf xff remoteAddr) now2) s
             in (s', writes conn (greeting rl nowMs s') n)))
           (h\<lparr>hb_limiter := recordSuccess (hb_limiter h) (clientIP remoteAddr), hb_seq := hb_seq h + 1\<rparr>), Some sid)"
proof (cases "allowed (hb_limiter h) now (clientIP remoteAddr)")
  case False
  then show thesis using refused [of 429 _ "hb_limiter h"] by (simp add: HandleWatch_def Let_def)
next
  case al: True
  show thesis
  proof (cases "readHelloAuth (rl_codec rl) r1 r2")
    case (Inl e)
    with al show thesis using refused [of 400 _ "hb_limiter h"] by (simp add: HandleWatch_def Let_def)
  next
    case (Inr x)
    obtain hello auth where x: "x = (hello, auth)" by (cases x)
    show thesis
    proof (cases "hl_role hello = ''watcher''")
      case False
      with al Inr x show thesis using refused [of 403 _ "hb_limiter h"] by (simp add: HandleWatch_def Let_def)
    next
      case role: True
      show thesis
      proof (cases "sessionByPIN (au_token auth) h")
        case None
        with al Inr x role show thesis using refused [of 401] by (simp add: HandleWatch_def Let_def)
      next
        case (Some sid)
        show thesis
          by (rule admitted [OF al Inr [unfolded x] role Some]) (simp add: HandleWatch_def Let_def al Inr x role Some)
      qed
    qed
  qed
qed

lemma who_add_watcher [simp]: "who (add_watcher conn w s) = who s"
  by (simp add: add_watcher_def who_def)

lemma alist_update_fresh: "k \<notin> fst ` set xs \<Longrightarrow> AList.update k v xs = xs @ [(k, v)]"
  by (induction xs) auto

lemma sess_ok_add:
  assumes "sess_ok s" "conn \<notin> fst ` set (as_watchers s)"
  shows "sess_ok (add_watcher conn (new_watcher rl wid ip t) s)"
proof -
  from alist_update_fresh [OF assms(2)] assms show ?thesis
    by (auto simp: sess_ok_def add_watcher_def new_watcher_def)
qed

lemma HandleWatch_ok:
  assumes "hub_ok h" "fresh_conn conn h"
  shows "hub_ok (fst (HandleWatch rl now now2 nowMs conn remoteAddr cf xff r1 r2 h))"
proof (cases rule: HandleWatch_cases [of rl now now2 nowMs conn remoteAddr cf xff r1 r2 h])
  case (refused code msg l)
  with assms(1) hub_ok_sessions [of "h\<lparr>hb_limiter := l\<rparr>" h] show ?thesis by simp
next
  case (admitted hello auth sid)
  let ?h = "h\<lparr>hb_limiter := recordSuccess (hb_limiter h) (clientIP remoteAddr), hb_seq := hb_seq h + 1\<rparr>"
  let ?w = "new_watcher rl (hb_seq h + 1) (displayClientIP cf xff remoteAddr) now2"
  obtain s where s: "sessionByID sid h = Some s" using sessionByPIN_iff [OF assms(1)] admitted(4) by blast
  then have "(sid, s) \<in> set (hb_sessions h)" by (simp add: sessionByID_def map_of_SomeD)
  then have "conn \<notin> fst ` set (as_watchers s)" using assms(2) by (force simp: fresh_conn_def list_all_iff)
  moreover have "sess_ok s" using assms(1) s by (simp add: hub_ok_def sess_wf_def)
  ultimately have ok: "sess_ok (add_watcher conn ?w s)" by (rule sess_ok_add [rotated])
  have "hub_ok (put_session sid (add_watcher conn ?w s) h)"
    by (rule hub_ok_same_who [OF assms(1) s _ ok]) simp
  moreover have "hb_sessions (fst (HandleWatch rl now now2 nowMs conn remoteAddr cf xff r1 r2 h))
      = hb_sessions (put_session sid (add_watcher conn ?w s) h)"
    using s unfolding admitted(5) by (simp add: on_session_net_def put_session_def sessionByID_def Let_def)
  ultimately show ?thesis using hub_ok_sessions by metis
qed

lemma publish_close_ok: "hub_ok h \<Longrightarrow> hub_ok (publish_close conn sid h)"
proof -
  assume ok: "hub_ok h"
  let ?f = "\<lambda>s. if as_publisher s = Some conn then s\<lparr>as_publisher := None, as_pin := []\<rparr> else s"
  have "hub_ok (on_session sid ?f h)"
  proof (cases "sessionByID sid h")
    case None
    with ok show ?thesis by (simp add: on_session_def)
  next
    case (Some s)
    have w: "sess_wf sid s" using ok Some by (simp add: hub_ok_def)
    have "hub_ok (put_session sid (?f s) h)"
    proof (cases "as_publisher s = Some conn")
      case True
      with w have "sess_wf sid (?f s)" by (simp add: sess_wf_def)
      with True show ?thesis by (intro hub_ok_put [OF ok]) (auto simp: online_def)
    next
      case False
      with w hub_ok_same_who [OF ok Some, of s] show ?thesis by (simp add: sess_wf_def)
    qed
    with Some show ?thesis by (simp add: on_session_def)
  qed
  moreover have "hb_sessions (publish_close conn sid h) = hb_sessions (on_session sid ?f h)"
    by (simp add: publish_close_def Let_def)
  ultimately show ?thesis by (simp add: hub_ok_sessions [of "publish_close conn sid h"])
qed

lemma Stop_ok: "hub_ok h \<Longrightarrow> hub_ok (Stop h)"
proof -
  assume ok: "hub_ok h"
  have l: "sessionByID sid (Stop h) = map_option (\<lambda>s. s\<lparr>as_proxy := StopAll (as_proxy s)\<rparr>) (sessionByID sid h)" for sid
    by (simp add: sessionByID_def Stop_def map_of_fan)
  have k: "map fst (hb_sessions (Stop h)) = map fst (hb_sessions h)"
    by (simp add: Stop_def)
  have "sess_wf sid (s\<lparr>as_proxy := p\<rparr>) = sess_wf sid s" "online (s\<lparr>as_proxy := p\<rparr>) = online s" for sid s p
    by (simp_all add: sess_wf_def online_def)
  with ok show ?thesis by (auto simp: hub_ok_def pins_unique_def l k)
qed

lemma watch_message_sessions [simp]: "hb_sessions (watch_message rl conn sid binary data h) = hb_sessions h"
  by (simp add: watch_message_def split: sum.splits option.splits prod.splits)

lemma settings_sessions [simp]:
  "hb_sessions (fst (setDashToken rl tok h)) = hb_sessions h" "hb_sessions (fst (setAlertConfig ord rl c h)) = hb_sessions h"
  "hb_sessions (fst (setAgentHidden rl sid hidden h)) = hb_sessions h" "hb_sessions (fst (setIPLabel rl ip label h)) = hb_sessions h"
  by (simp_all add: setDashToken_def setAlertConfig_def setAgentHidden_def setIPLabel_def split: prod.split bool.split)

lemma hub_step_ok: "hub_step rl h h' \<Longrightarrow> hub_ok h \<Longrightarrow> hub_ok h'"
proof (induction rule: hub_step.induct)
  case (request rl h conn sid binary data)
  then show ?case using hub_ok_sessions [OF watch_message_sessions] by blast
next
  case (password rl h tok)
  then show ?case using hub_ok_sessions [OF settings_sessions(1)] by blast
next
  case (alerts rl h ord c)
  then show ?case using hub_ok_sessions [OF settings_sessions(2)] by blast
next
  case (hide rl h sid hidden)
  then show ?case using hub_ok_sessions [OF settings_sessions(3)] by blast
next
  case (labelled rl h ip label)
  then show ?case using hub_ok_sessions [OF settings_sessions(4)] by blast
next
  case (edited rl h walls db reg)
  then show ?case using hub_ok_sessions [of "h\<lparr>hb_registry := reg, hb_db := db, hb_walls := walls\<rparr>" h] by simp
qed (simp_all add: HandlePublish_ok publish_message_ok publish_close_ok HandleWatch_ok Stop_ok watch_close_def
      fan_loop.hub_ok_loop pump_loop.hub_ok_loop leave_loop.hub_ok_loop)

lemma NewHub_ok: "hub_ok (NewHub rl reg db walls evs)"
proof -
  have s: "hb_sessions (NewHub rl reg db walls evs) = [(''default'', newAgentSession ''default'' ''default'')]"
    by (simp add: NewHub_def Let_def split: prod.splits)
  then show ?thesis
    by (auto simp: hub_ok_def pins_unique_def sessionByID_def sess_wf_new split: if_splits)
qed

lemma reachable_ok: "hub_reachable rl h \<Longrightarrow> hub_ok h"
  by (induction rule: hub_reachable.induct) (simp_all add: NewHub_ok hub_step_ok)

lemma authenticate_iff:
  "authenticatePublisher rl reg r1 r2 = Inr (hello, auth) \<longleftrightarrow>
     readHelloAuth (rl_codec rl) r1 r2 = Inr (hello, auth) \<and> hl_role hello = ''publisher''
     \<and> (\<exists>entry. lookup reg (hl_agent_id hello) = Some entry \<and> au_token auth = ae_token entry
          \<and> ae_token entry \<noteq> [] \<and> au_pin auth \<noteq> [])"
  by (auto simp: authenticatePublisher_def validPublisherToken_def split: sum.splits option.splits if_splits)

lemma create_lookup:
  "sessionByID b (getOrCreateSession aid name h)
     = (if b = aid \<and> sessionByID aid h = None then Some (newAgentSession aid name) else sessionByID b h)"
  by (simp add: getOrCreateSession_def split: option.split)

text \<open>Nobody holds the slot of \<open>sid\<close> or the PIN.\<close>

definition slot_free :: "hub \<Rightarrow> string \<Rightarrow> string \<Rightarrow> bool" where
  "slot_free h sid pin = (\<forall>b sb. sessionByID b h = Some sb \<longrightarrow> online sb \<longrightarrow> b \<noteq> sid \<and> as_pin sb \<noteq> pin)"

lemma slot_free_create: "slot_free (getOrCreateSession aid name h) sid pin = slot_free h sid pin"
proof -
  have e: "sessionByID b (getOrCreateSession aid name h) = Some sb \<and> online sb
     \<longleftrightarrow> sessionByID b h = Some sb \<and> online sb" for b sb
    by (auto simp: create_lookup)
  have f: "slot_free x sid pin = (\<forall>b sb. sessionByID b x = Some sb \<and> online sb \<longrightarrow> b \<noteq> sid \<and> as_pin sb \<noteq> pin)" for x
    by (auto simp: slot_free_def)
  show ?thesis by (simp only: f e)
qed

lemma claim_cases:
  assumes "hub_ok h" "pin \<noteq> []" "pin = au_pin auth" "sessionByID sid h = Some s"
    and "sessionByPIN pin h \<in> {None, Some sid}"
  shows "snd (publish_claim rl now conn sid hello auth h) = slot_free h sid pin
     \<and> (\<forall>b. b \<noteq> sid \<longrightarrow> sessionByID b (fst (publish_claim rl now conn sid hello auth h)) = sessionByID b h)
     \<and> (if slot_free h sid pin then \<exists>s'. sessionByID sid (fst (publish_claim rl now conn sid hello auth h)) = Some s'
             \<and> as_publisher s' = Some conn \<and> as_pin s' = pin
        else sessionByID sid (fst (publish_claim rl now conn sid hello auth h)) = Some s)"
proof (cases "as_publisher s")
  case None
  have "as_pin sb \<noteq> pin" if "sessionByID b h = Some sb" "online sb" "b \<noteq> sid" for b sb
  proof
    assume "as_pin sb = pin"
    with that sessionByPIN_iff [OF assms(1), of pin b] assms(2) have "sessionByPIN pin h = Some b"
      by (auto simp: has_pin_def online_def)
    with that(3) assms(5) show False by simp
  qed
  moreover have "b \<noteq> sid" if "sessionByID b h = Some sb" "online sb" for b sb
    using that None assms(4) by (auto simp: online_def)
  ultimately have "slot_free h sid pin" unfolding slot_free_def by blast
  with None assms(3,4) show ?thesis
    by (auto simp: publish_claim_def Let_def sessionByID_def put_session_def)
next
  case (Some c)
  then have "\<not> slot_free h sid pin" using assms(4) by (auto simp: slot_free_def online_def)
  with Some assms(4) show ?thesis
    by (simp add: publish_claim_def sessionByID_def)
qed

lemma not_free_pin:
  assumes "hub_ok h" "sessionByPIN pin h = Some b" "b \<noteq> sid"
  shows "\<not> slot_free h sid pin"
  using assms sessionByPIN_iff [OF assms(1), of pin b] by (auto simp: slot_free_def has_pin_def online_def)

lemma same_sessions: "hb_sessions h' = hb_sessions h \<Longrightarrow> sessionByID b h' = sessionByID b h"
  by (simp add: sessionByID_def)

lemma HandlePublish_authenticated:
  assumes "hub_ok h" "authenticatePublisher rl (hb_registry h) r1 r2 = Inr (hello, auth)"
    and "lookup (hb_registry h) (hl_agent_id hello) = Some entry"
    and "HandlePublish rl now conn r1 r2 h = (h', res)"
  shows "res = (if slot_free h (ae_id entry) (au_pin auth) then Some (ae_id entry) else None)
     \<and> (\<forall>b s. sessionByID b h = Some s \<longrightarrow> res \<noteq> Some b \<longrightarrow> sessionByID b h' = Some s)
     \<and> (res \<noteq> None \<longrightarrow> (\<exists>s'. sessionByID (ae_id entry) h' = Some s' \<and> as_publisher s' = Some conn \<and> as_pin s' = au_pin auth))"
proof -
  let ?sid = "ae_id entry"
  let ?pin = "au_pin auth"
  let ?h1 = "getOrCreateSession ?sid (ae_name entry) h"
  note ok = hub_ok_create [OF assms(1), of ?sid "ae_name entry"]
  note pin = authenticate_pin [OF assms(2)]
  have old: "sessionByID b ?h1 = Some s" if "sessionByID b h = Some s" for b s
    using that by (auto simp: create_lookup)
  show ?thesis
  proof (cases "sessionByPIN ?pin ?h1 \<in> {None, Some ?sid}")
    case False
    then obtain b where b: "sessionByPIN ?pin ?h1 = Some b" "b \<noteq> ?sid" by auto
    have r: "res = None" "hb_sessions h' = hb_sessions ?h1"
      using assms(2-4) b by (auto simp: HandlePublish_def publish_enter_def Let_def)
    show ?thesis
      using not_free_pin [OF ok b] r old by (simp add: slot_free_create same_sessions [OF r(2)])
  next
    case True
    obtain s where s: "sessionByID ?sid ?h1 = Some s" using create_exists by blast
    have "publish_enter rl conn r1 r2 h = (?h1, Some (?sid, hello, auth))"
      using True assms(2,3) by (auto simp: publish_enter_def Let_def)
    then have r: "h' = fst (publish_claim rl now conn ?sid hello auth ?h1)"
      "res = (if snd (publish_claim rl now conn ?sid hello auth ?h1) then Some ?sid else None)"
      using assms(4) by (auto simp: HandlePublish_def split: prod.splits)
    note c = claim_cases [OF ok pin refl s True, of rl now conn hello, folded r(1), unfolded slot_free_create]
    have "sessionByID b h' = Some sb" if "sessionByID b h = Some sb" "res \<noteq> Some b" for b sb
      using c old [OF that(1)] that(2) s r(2) by (cases "b = ?sid") auto
    with c r(2) show ?thesis by auto
  qed
qed

lemma HandlePublish_rejected:
  assumes "authenticatePublisher rl (hb_registry h) r1 r2 = Inl err" "HandlePublish rl now conn r1 r2 h = (h', res)"
  shows "res = None \<and> hb_sessions h' = hb_sessions h"
  using assms by (cases err) (auto simp: HandlePublish_def publish_enter_def)

section \<open>Properties\<close>

text \<open>C14. In every state the hub can reach with uninterrupted publisher handshakes, every session is
  well formed: it stands under its own id, it has a PIN exactly while it has a publisher, its
  watcher count is the number of its watchers, no queue exceeds its capacity and the broadcast
  channel holds at most 64 messages; the default session exists; and no two online agents share a
  PIN, so that a viewer PIN names exactly one tenant.\<close>

theorem hub_well_formed:
  assumes "hub_reachable rl h" "sessionByID sid h = Some s"
  shows "as_id s = sid \<and> (as_publisher s = None \<longleftrightarrow> as_pin s = [])
     \<and> as_watcher_count s = int (length (as_watchers s)) \<and> distinct (map fst (as_watchers s))
     \<and> (\<forall>(c, w)\<in>set (as_watchers s). length (wa_queue w) \<le> wa_cap w)
     \<and> length (as_broadcast s) \<le> broadcast_cap
     \<and> (\<forall>sid' s'. sessionByID sid' h = Some s' \<longrightarrow> online s \<longrightarrow> online s' \<longrightarrow> as_pin s = as_pin s' \<longrightarrow> sid = sid')
     \<and> (online s \<longrightarrow> sessionByPIN (as_pin s) h = Some sid) \<and> sessionByID ''default'' h \<noteq> None"
proof -
  note ok = reachable_ok [OF assms(1)]
  have w: "sess_wf sid s" using ok assms(2) by (simp add: hub_ok_def)
  have "sessionByPIN (as_pin s) h = Some sid" if "online s"
    unfolding sessionByPIN_iff [OF ok] using that w assms(2) by (auto simp: sess_wf_def online_def has_pin_def)
  moreover have "\<forall>sid' s'. sessionByID sid' h = Some s' \<longrightarrow> online s \<longrightarrow> online s' \<longrightarrow> as_pin s = as_pin s' \<longrightarrow> sid = sid'"
    using ok assms(2) unfolding hub_ok_def pins_unique_def by blast
  ultimately show ?thesis using w ok by (simp add: sess_wf_def sess_ok_def hub_ok_def)
qed

text \<open>The PIN check does not survive interleaving: when the handshakes of two agents that advertise
  the same PIN overlap, so that both pass the check before either claims its slot, both become
  publishers, and the PIN then names two tenants.\<close>

lemma duplicate_pin_race:
  assumes "hub_reachable rl h" "publish_enter rl c1 r1 r2 h = (h1, Some (sid1, hello1, auth1))"
    and "publish_enter rl c2 q1 q2 h1 = (h2, Some (sid2, hello2, auth2))" "sid1 \<noteq> sid2"
    and "au_pin auth1 = au_pin auth2" "\<forall>s. sessionByID sid1 h2 = Some s \<longrightarrow> \<not> online s"
    and "\<forall>s. sessionByID sid2 h2 = Some s \<longrightarrow> \<not> online s"
    and "publish_claim rl t1 c1 sid1 hello1 auth1 h2 = (h3, ok1)" "publish_claim rl t2 c2 sid2 hello2 auth2 h3 = (h4, ok2)"
  shows "ok1 \<and> ok2 \<and> (\<exists>s1 s2. sessionByID sid1 h4 = Some s1 \<and> sessionByID sid2 h4 = Some s2
     \<and> has_pin (au_pin auth1) s1 \<and> has_pin (au_pin auth1) s2)"
proof -
  note 1 = publish_enter_ok [OF reachable_ok [OF assms(1)] assms(2)]
  note 2 = publish_enter_ok [OF 1(1) assms(3)]
  have keep: "sessionByID sid1 h2 \<noteq> None"
    using 1(2) assms(3) by (auto simp: publish_enter_def getOrCreateSession_def sessionByID_def put_session_def Let_def
      split: sum.splits option.splits if_splits)
  then obtain s1 s2 where s: "sessionByID sid1 h2 = Some s1" "sessionByID sid2 h2 = Some s2"
    using 2(2) by auto
  have off: "as_publisher s1 = None" "as_publisher s2 = None" using assms(6,7) s by (auto simp: online_def)
  have c: "ok1" "sessionByID x h3 = (if x = sid1 then Some (s1\<lparr>as_publisher := Some c1, as_pin := au_pin auth1,
      as_connected_at := t1, as_client_ver := hl_client_version hello1\<rparr>) else sessionByID x h2)" for x
    using assms(8) s(1) off(1) by (auto simp: publish_claim_def Let_def sessionByID_def put_session_def)
  have d: "ok2" "sessionByID x h4 = (if x = sid2 then Some (s2\<lparr>as_publisher := Some c2, as_pin := au_pin auth2,
      as_connected_at := t2, as_client_ver := hl_client_version hello2\<rparr>) else sessionByID x h3)" for x
    using assms(4,9) s(2) off(2) c(2) [of sid2] by (auto simp: publish_claim_def Let_def sessionByID_def put_session_def)
  from c d assms(4,5) show ?thesis by (simp add: has_pin_def)
qed



lemma net_frame:
  "hb_net (hub_event rl sid p h) = hb_net h" "hb_net (hub_thumb rl sid p h) = hb_net h"
  "hb_net (put_session sid s h) = hb_net h"
  by (simp_all add: hub_event_def hub_thumb_def put_session_def split: option.splits)

lemma sent_to_removes: "sent_to (snd (foldl (\<lambda>x c. removeWatcher c x) st cs)) conn = sent_to (snd st) conn"
  by (induction cs arbitrary: st) (auto simp: removeWatcher_def split: prod.splits)

lemma sent_to_fan: "sent_to (snd (run_step (s, n))) conn = sent_to n conn"
  by (cases "as_broadcast s") (simp_all add: run_step_def sent_to_removes)

lemma sent_to_pump:
  assumes "conn \<notin> fst ` set (as_watchers s)"
  shows "sent_to (snd (pump_step c (s, n))) conn = sent_to n conn"
proof (cases "map_of (as_watchers s) c")
  case (Some w)
  then have "(c, w) \<in> set (as_watchers s)" by (rule map_of_SomeD)
  with assms have "conn \<noteq> c" by force
  with Some show ?thesis by (cases "wa_queue w") (simp_all add: pump_step_def sent_to_write)
qed (simp add: pump_step_def)

text \<open>C15. Tenants are isolated: what the publisher of one agent sends, and every step of that agent's
  fan-out and write loops, leaves the session of every other agent as it is and puts nothing on
  the connections of that agent's watchers.\<close>

theorem tenant_isolation:
  assumes "sid \<noteq> sid'" "sessionByID sid h = Some s" "conn \<in> fst ` set (as_watchers s)"
    and "\<forall>s'. sessionByID sid' h = Some s' \<longrightarrow> conn \<notin> fst ` set (as_watchers s')"
    and "publish_message rl now sid' binary data h = Some h' \<or> h' = on_session_net sid' run_step h
      \<or> h' = on_session_net sid' (pump_step c) h"
  shows "sessionByID sid h' = Some s \<and> sent_to (hb_net h') conn = sent_to (hb_net h) conn"
proof -
  have loop: "sessionByID sid (on_session_net sid' f h) = Some s" for f
    using assms(1,2) by (auto simp: on_session_net_def sessionByID_def put_session_def split: option.split prod.split)
  from assms(5) consider (msg) "publish_message rl now sid' binary data h = Some h'"
    | (fan) "h' = on_session_net sid' run_step h" | (pump) "h' = on_session_net sid' (pump_step c) h" by blast
  then show ?thesis
  proof cases
    case msg
    from publish_message_cases [OF msg] show ?thesis
    proof
      assume "\<exists>(hdr :: header) s s''. sessionByID sid' h = Some s
         \<and> session_message rl (hb_walls h) now (h_type hdr) data s = Some s''
         \<and> h' = (if h_type hdr = MsgSurvEvent then hub_event rl sid' (drop HeaderSize data) (put_session sid' s'' h)
                 else if h_type hdr = MsgSurvEventThumb then hub_thumb rl sid' (drop HeaderSize data) (put_session sid' s'' h)
                 else put_session sid' s'' h)"
      then obtain s'' where "hb_sessions h' = hb_sessions (put_session sid' s'' h)" "hb_net h' = hb_net h"
        by (auto simp: net_frame)
      then show ?thesis using assms(1,2) same_sessions [of h' "put_session sid' s'' h" sid] by simp
    qed (use assms(2) in simp)
  next
    case fan
    show ?thesis
    proof (cases "sessionByID sid' h")
      case None
      with fan assms(2) show ?thesis by (simp add: on_session_net_def)
    next
      case (Some x)
      from sent_to_fan [of x "hb_net h" conn] Some fan loop show ?thesis
        by (auto simp: on_session_net_def split: prod.splits)
    qed
  next
    case pump
    show ?thesis
    proof (cases "sessionByID sid' h")
      case None
      with pump assms(2) show ?thesis by (simp add: on_session_net_def)
    next
      case (Some x)
      with assms(4) have "conn \<notin> fst ` set (as_watchers x)" by blast
      from sent_to_pump [OF this, of c "hb_net h"] Some pump loop show ?thesis
        by (auto simp: on_session_net_def split: prod.splits)
    qed
  qed
qed

text \<open>C19. A snapshot finds its way back: a watcher's request reaches the publisher tagged with the
  watcher's number, and the publisher's reply to the tagged request is queued for exactly that
  watcher with the request id it had chosen, whatever characters that id contains.\<close>

theorem snapshot_round_trip:
  assumes "sessionByID sid h = Some s" "as_publisher s = Some pc" "map_of (as_watchers s) conn = Some w"
    and "\<forall>(c, v)\<in>set (as_watchers s). wa_id v = wa_id w \<longrightarrow> (c, v) = (conn, w)"
    and "length (wa_queue w) < wa_cap w" "q \<noteq> []" "js_snap_req (rl_codec rl) q = Some req"
    and "p \<noteq> []" "js_snap_resp (rl_codec rl) p = Some resp" "sr_req_id resp = tag_request (wa_id w) (sq_req_id req)"
  shows "watch_message rl conn sid True (MarshalMessage MsgSurvSnapshot q) h
       = h\<lparr>hb_net := ws_write pc (MarshalMessage MsgSurvSnapshot (js_put_snap_req (rl_codec rl)
           (req\<lparr>sq_req_id := tag_request (wa_id w) (sq_req_id req)\<rparr>))) (hb_net h)\<rparr>
     \<and> (\<exists>h' s'. publish_message rl now sid True (MarshalMessage MsgSurvSnapshot p) h = Some h'
          \<and> sessionByID sid h' = Some s'
          \<and> map_of (as_watchers s') conn = Some (w\<lparr>wa_queue := wa_queue w @ [MarshalMessage MsgSurvSnapshot
               (js_put_snap_resp (rl_codec rl) (resp\<lparr>sr_req_id := sq_req_id req\<rparr>))]\<rparr>)
          \<and> (\<forall>c. c \<noteq> conn \<longrightarrow> map_of (as_watchers s') c = map_of (as_watchers s) c))"
proof
  have t: "MsgSurvSnapshot \<noteq> MsgControl" "MsgSurvSnapshot \<noteq> MsgSurvConfig" "MsgSurvSnapshot \<noteq> MsgSurvEvent"
    "MsgSurvSnapshot \<noteq> MsgSurvEventThumb"
    by (simp_all add: MsgSurvSnapshot_def MsgControl_def MsgSurvConfig_def MsgSurvEvent_def MsgSurvEventThumb_def)
  show "watch_message rl conn sid True (MarshalMessage MsgSurvSnapshot q) h
       = h\<lparr>hb_net := ws_write pc (MarshalMessage MsgSurvSnapshot (js_put_snap_req (rl_codec rl)
           (req\<lparr>sq_req_id := tag_request (wa_id w) (sq_req_id req)\<rparr>))) (hb_net h)\<rparr>"
    using assms(1-3,6,7) t by (simp add: watch_message_def sendToPublisher_def mk_header_def)
  let ?M = "MarshalMessage MsgSurvSnapshot (js_put_snap_resp (rl_codec rl) (resp\<lparr>sr_req_id := sq_req_id req\<rparr>))"
  let ?s = "count_message now (MarshalMessage MsgSurvSnapshot p) s"
  have f: "find (\<lambda>(c, v). wa_id v = wa_id w) (as_watchers s) = Some (conn, w)"
  proof -
    have "(conn, w) \<in> set (as_watchers s)" using assms(3) by (rule map_of_SomeD)
    then have "find (\<lambda>(c, v). wa_id v = wa_id w) (as_watchers s) \<noteq> None" by (auto simp: find_None_iff)
    then obtain x where x: "find (\<lambda>(c, v). wa_id v = wa_id w) (as_watchers s) = Some x" by blast
    with find_SomeD [OF x] assms(4) have "x = (conn, w)" by (cases x) auto
    with x show ?thesis by simp
  qed
  have n: "CHR '':'' \<notin> set (nat_str (unat (wa_id w)))" by (simp add: digit_notin_nat_str)
  have "unat (wa_id w) < 2 ^ 32" using unsigned_less [of "wa_id w"] by simp
  then have "parse_uint32 (nat_str (unat (wa_id w))) = Some (unat (wa_id w))" by (rule parse_uint32_nat_str)
  with n f assms(5,9,10) have route: "routeSnapshotResponse (rl_codec rl) (sr_req_id resp) (MarshalMessage MsgSurvSnapshot p) ?s
      = ?s\<lparr>as_watchers := AList.update conn (w\<lparr>wa_queue := wa_queue w @ [?M]\<rparr>) (as_watchers s)\<rparr>"
    by (simp add: routeSnapshotResponse_def tag_request_def offer_by_id_def enqueue_def count_message_def)
  have "session_message rl (hb_walls h) now MsgSurvSnapshot (MarshalMessage MsgSurvSnapshot p) s
      = Some (?s\<lparr>as_watchers := AList.update conn (w\<lparr>wa_queue := wa_queue w @ [?M]\<rparr>) (as_watchers s)\<rparr>)"
    using t assms(8,9) route by (simp add: session_message_def Let_def)
  then show "\<exists>h' s'. publish_message rl now sid True (MarshalMessage MsgSurvSnapshot p) h = Some h'
          \<and> sessionByID sid h' = Some s' \<and> map_of (as_watchers s') conn = Some (w\<lparr>wa_queue := wa_queue w @ [?M]\<rparr>)
          \<and> (\<forall>c. c \<noteq> conn \<longrightarrow> map_of (as_watchers s') c = map_of (as_watchers s) c)"
    using assms(1) t by (simp add: publish_message_def Let_def mk_header_def)
qed

text \<open>The event channel is not isolated: the default agent's channel ids are not checked, so it records
  events under the streams of any other agent.\<close>

lemma forged_event:
  assumes "a \<notin> {[], ''default''}" "hb_events h = Some evs" "js_event (rl_codec rl) p = Some ev"
    and "se_ch_id ev = a @ ''/'' @ ch" "js_event (rl_codec rl) p' = Some (ev\<lparr>se_ch_id := ch\<rparr>)"
  shows "hub_event rl ''default'' p h = hub_event rl a p' h"
  using assms by (simp add: hub_event_def streamPath_def)

section \<open>Witnesses\<close>

text \<open>A relay with two registered agents whose codec knows a handful of payloads.\<close>

definition toy_codec :: json_codec where
  "toy_codec = \<lparr>
     js_hello = (\<lambda>b. map_option (\<lambda>(role, aid). \<lparr>hl_role = role, hl_agent_id = aid, hl_client = [], hl_client_version = [],
         hl_supports = [], hl_want_profile = None\<rparr>)
       (map_of [([1], (''publisher'', ''a'')), ([2], (''publisher'', ''b'')), ([3], (''watcher'', []))] b)),
     js_auth = (\<lambda>b. map_option (\<lambda>(tok, pin). \<lparr>au_token = tok, au_pin = pin\<rparr>)
       (map_of [([1], (''ta'', ''9'')), ([2], (''tb'', ''9'')), ([3], (''9'', []))] b)),
     js_config = (\<lambda>_. None), js_put_config = (\<lambda>_. None), js_event = (\<lambda>_. None), js_thumb = (\<lambda>_. None),
     js_snap_req = (\<lambda>b. if b = [4] then Some \<lparr>sq_req_id = ''q'', sq_dvr_id = 1, sq_ch_num = 1\<rparr> else None),
     js_put_snap_req = (\<lambda>_. [4]),
     js_snap_resp = (\<lambda>b. if b = [5] then Some \<lparr>sr_req_id = ''1:q'', sr_dvr_id = 1, sr_ch_num = 1, sr_data = [],
       sr_error = []\<rparr> else None),
     js_put_snap_resp = (\<lambda>_. [5]), js_put_error = (\<lambda>_. [6])\<rparr>"

definition toy_relay :: relay where
  "toy_relay = \<lparr>rl_codec = toy_codec, rl_env = toy_env, rl_max_queue = 2, rl_dash_env = [], rl_store = False,
     rl_getenv = (\<lambda>_. []), rl_text = (\<lambda>_. []), rl_day = (\<lambda>_. []), rl_ord = (\<lambda>ts. ts)\<rparr>"

definition toy_registry :: registry where
  "toy_registry = \<lparr>reg_byID = [(''a'', \<lparr>ae_id = ''a'', ae_name = ''A'', ae_token = ''ta''\<rparr>),
     (''b'', \<lparr>ae_id = ''b'', ae_name = ''B'', ae_token = ''tb''\<rparr>)], reg_store = False\<rparr>"

definition toy_db :: agent_db where
  "toy_db = \<lparr>db_agents = [], db_settings = [], db_ip_labels = [], db_hidden = [], db_walls = [], db_faults = []\<rparr>"

text \<open>No agent has connected yet; the agent \<open>a\<close> is online.\<close>

definition toy_start :: hub where
  "toy_start = NewHub toy_relay toy_registry toy_db no_walls None"

abbreviation hello_msg :: "byte \<Rightarrow> bytes option" where
  "hello_msg b \<equiv> Some (MarshalMessage MsgHello [b])"

abbreviation auth_msg :: "byte \<Rightarrow> bytes option" where
  "auth_msg b \<equiv> Some (MarshalMessage MsgAuth [b])"

definition toy_online :: hub where
  "toy_online = fst (HandlePublish toy_relay 0 1 (hello_msg 1) (auth_msg 1) toy_start)"

lemma handshake_Marshal [simp]: "handshake_payload t rd short he wr (Some (MarshalMessage t p)) = Inr p"
  by (simp add: handshake_payload_def mk_header_def)

lemma toy_handshakes [simp]:
  "readHelloAuth (rl_codec toy_relay) (hello_msg 1) (auth_msg 1) = Inr (\<lparr>hl_role = ''publisher'', hl_agent_id = ''a'',
     hl_client = [], hl_client_version = [], hl_supports = [], hl_want_profile = None\<rparr>, \<lparr>au_token = ''ta'', au_pin = ''9''\<rparr>)"
  "readHelloAuth (rl_codec toy_relay) (hello_msg 2) (auth_msg 2) = Inr (\<lparr>hl_role = ''publisher'', hl_agent_id = ''b'',
     hl_client = [], hl_client_version = [], hl_supports = [], hl_want_profile = None\<rparr>, \<lparr>au_token = ''tb'', au_pin = ''9''\<rparr>)"
  "readHelloAuth (rl_codec toy_relay) (hello_msg 3) (auth_msg 3) = Inr (\<lparr>hl_role = ''watcher'', hl_agent_id = [],
     hl_client = [], hl_client_version = [], hl_supports = [], hl_want_profile = None\<rparr>, \<lparr>au_token = ''9'', au_pin = []\<rparr>)"
  by (simp_all add: readHelloAuth_def toy_relay_def toy_codec_def)

lemma toy_start_sessions [simp]: "sessionByID sid toy_start = (if sid = ''default'' then Some (newAgentSession ''default'' ''default'') else None)"
  "hb_registry toy_start = toy_registry" "hb_limiter toy_start = newPinLimiter"
  by (simp_all add: toy_start_def NewHub_def sessionByID_def Let_def split: prod.split)

lemma toy_start_reachable [simp]: "hub_reachable toy_relay toy_start"
  unfolding toy_start_def by (rule hub_reachable.start)

lemma toy_registry_lookup [simp]:
  "lookup toy_registry ''a'' = Some \<lparr>ae_id = ''a'', ae_name = ''A'', ae_token = ''ta''\<rparr>"
  "lookup toy_registry ''b'' = Some \<lparr>ae_id = ''b'', ae_name = ''B'', ae_token = ''tb''\<rparr>"
  by (simp_all add: toy_registry_def lookup_def)

lemma toy_free [simp]: "slot_free toy_start sid pin"
  by (simp add: slot_free_def)


theorem hub_well_formed_witness: "sessionByPIN [] toy_start = None \<and> as_id (newAgentSession ''default'' ''default'') = ''default''"
  using hub_well_formed [OF toy_start_reachable, of "''default''"] by (simp add: sessionByPIN_def)


lemma toy_online:
  "hub_reachable toy_relay toy_online" "\<exists>s. sessionByID ''a'' toy_online = Some s \<and> online s \<and> as_pin s = ''9''"
proof -
  show "hub_reachable toy_relay toy_online"
    unfolding toy_online_def by (rule hub_reachable.step [OF _ hub_step.publish]) simp
  let ?auth = "\<lparr>au_token = ''ta'', au_pin = ''9''\<rparr>"
  obtain hello where "authenticatePublisher toy_relay (hb_registry toy_start) (hello_msg 1) (auth_msg 1) = Inr (hello, ?auth)"
    "hl_agent_id hello = ''a''" by (simp add: authenticate_iff)
  from HandlePublish_authenticated [OF reachable_ok [OF toy_start_reachable] this(1) _ prod.collapse [symmetric],
      of "\<lparr>ae_id = ''a'', ae_name = ''A'', ae_token = ''ta''\<rparr>" 0 1] this(2)
  show "\<exists>s. sessionByID ''a'' toy_online = Some s \<and> online s \<and> as_pin s = ''9''"
    by (auto simp: toy_online_def online_def)
qed


definition toy_hub :: "nat \<Rightarrow> hub" where
  "toy_hub c = toy_start\<lparr>hb_sessions := [(''a'', (newAgentSession ''a'' ''A'')\<lparr>as_publisher := Some 1, as_watchers := [(c, toy_watcher)],
     as_broadcast := [[9]]\<rparr>), (''default'', (newAgentSession ''default'' ''default'')\<lparr>as_watchers := [(7, toy_watcher)]\<rparr>)]\<rparr>"

lemma toy_hub_sessions [simp]:
  "sessionByID ''a'' (toy_hub c) = Some ((newAgentSession ''a'' ''A'')\<lparr>as_publisher := Some 1, as_watchers := [(c, toy_watcher)], as_broadcast := [[9]]\<rparr>)"
  "sessionByID ''default'' (toy_hub c) = Some ((newAgentSession ''default'' ''default'')\<lparr>as_watchers := [(7, toy_watcher)]\<rparr>)"
  by (simp_all add: toy_hub_def sessionByID_def)

theorem tenant_isolation_witness:
  "sessionByID ''default'' (on_session_net ''a'' run_step (toy_hub 8)) = sessionByID ''default'' (toy_hub 8)
     \<and> sent_to (hb_net (on_session_net ''a'' run_step (toy_hub 8))) 7 = sent_to (hb_net (toy_hub 8)) 7"
  using tenant_isolation [of "''default''" "''a''" "toy_hub 8" _ 7 _ _ _ _ "on_session_net ''a'' run_step (toy_hub 8)"]
  by simp

theorem snapshot_round_trip_witness:
  "\<exists>h' s'. publish_message toy_relay 0 ''a'' True (MarshalMessage MsgSurvSnapshot [5]) (toy_hub 8) = Some h'
     \<and> sessionByID ''a'' h' = Some s'
     \<and> map_of (as_watchers s') 8 = Some (toy_watcher\<lparr>wa_queue := [MarshalMessage MsgSurvSnapshot [5]]\<rparr>)"
proof -
  have c: "js_snap_req (rl_codec toy_relay) [4] = Some \<lparr>sq_req_id = ''q'', sq_dvr_id = 1, sq_ch_num = 1\<rparr>"
    "js_snap_resp (rl_codec toy_relay) [5] = Some \<lparr>sr_req_id = ''1:q'', sr_dvr_id = 1, sr_ch_num = 1, sr_data = [], sr_error = []\<rparr>"
    "js_put_snap_resp (rl_codec toy_relay) r = [5]" for r
    by (simp_all add: toy_relay_def toy_codec_def)
  have t: "''1:q'' = tag_request (wa_id toy_watcher) ''q''" by code_simp
  have w: "length (wa_queue toy_watcher) < wa_cap toy_watcher" "wa_queue toy_watcher @ [m] = [m]" for m
    by (simp_all add: toy_watcher_def)
  have "\<exists>h' s'. publish_message toy_relay 0 ''a'' True (MarshalMessage MsgSurvSnapshot [5]) (toy_hub 8) = Some h'
     \<and> sessionByID ''a'' h' = Some s'
     \<and> map_of (as_watchers s') 8 = Some (toy_watcher\<lparr>wa_queue := wa_queue toy_watcher @ [MarshalMessage MsgSurvSnapshot
         (js_put_snap_resp (rl_codec toy_relay) (\<lparr>sr_req_id = ''1:q'', sr_dvr_id = 1, sr_ch_num = 1, sr_data = [], sr_error = []\<rparr>
            \<lparr>sr_req_id := sq_req_id \<lparr>sq_req_id = ''q'', sq_dvr_id = 1, sq_ch_num = 1\<rparr>\<rparr>))]\<rparr>)
     \<and> (\<forall>c. c \<noteq> 8 \<longrightarrow> map_of (as_watchers s') c = map_of (as_watchers ((newAgentSession ''a'' ''A'')\<lparr>as_publisher := Some 1,
         as_watchers := [(8, toy_watcher)], as_broadcast := [[9]]\<rparr>)) c)"
    by (rule snapshot_round_trip [OF toy_hub_sessions(1) _ _ _ w(1) _ c(1) _ c(2), THEN conjunct2]) (use t in simp_all)
  then show ?thesis unfolding c(3) w(2) by blast
qed

end
