(* ===== verification/Thumb_Cache.thy ===== *)
theory Thumb_Cache
  imports Hub_Watch
begin

text \<open>
  The image cache of \<^verbatim>\<open>relay/recthumb.go\<close>, the stored event snapshots and what is served of them. The
  cache is Go's usual pair of a map and a doubly linked list: an element of the list has a number,
  the map leads from a key to a number, and removing from an empty list (a nil dereference in Go) is
  \<open>None\<close>. The eviction loop is a partial function, so that both that and running for ever are \<open>None\<close>.
  Files are a parameter: their metadata, contents and the names in a directory.
\<close>

section \<open>The cache\<close>

definition thumbCacheCap :: nat where "thumbCacheCap = 512"
definition thumbCacheBytes :: nat where "thumbCacheBytes = 32 * 2 ^ 20"
definition maxEventThumbBytes :: nat where "maxEventThumbBytes = 2 * 2 ^ 20"

record thumb_info =
  ti_inode :: nat
  ti_mtime :: nat
  ti_size :: nat
  ti_regular :: bool

record thumb_entry =
  te_key :: string
  te_img :: bytes
  te_info :: "thumb_info option"

record thumb_cache =
  tc_entries :: "(string \<times> nat) list"
  tc_lru :: "(nat \<times> thumb_entry) list"
  tc_bytes :: int
  tc_next :: nat

definition empty_cache :: thumb_cache where
  "empty_cache = \<lparr>tc_entries = [], tc_lru = [], tc_bytes = 0, tc_next = 0\<rparr>"

definition same_info :: "thumb_info option \<Rightarrow> thumb_info option \<Rightarrow> bool" where
  "same_info a b = (case (a, b) of
      (None, None) \<Rightarrow> True
    | (Some x, Some y) \<Rightarrow> ti_inode x = ti_inode y \<and> ti_mtime x = ti_mtime y \<and> ti_size x = ti_size y
    | _ \<Rightarrow> False)"

definition cache_remove :: "nat \<times> thumb_entry \<Rightarrow> thumb_cache \<Rightarrow> thumb_cache" where
  "cache_remove el c = (case el of (uid, v) \<Rightarrow>
     c\<lparr>tc_bytes := tc_bytes c - int (length (te_img v)), tc_entries := AList.delete (te_key v) (tc_entries c),
       tc_lru := AList.delete uid (tc_lru c)\<rparr>)"

text \<open>\<open>c.entries[key]\<close>, as the element it points to.\<close>

definition element :: "string \<Rightarrow> thumb_cache \<Rightarrow> (nat \<times> thumb_entry) option" where
  "element key c = (case map_of (tc_entries c) key of
      None \<Rightarrow> None | Some uid \<Rightarrow> map_option (\<lambda>v. (uid, v)) (map_of (tc_lru c) uid))"

definition cache_get :: "string \<Rightarrow> thumb_info option \<Rightarrow> thumb_cache \<Rightarrow> thumb_cache \<times> bytes option" where
  "cache_get key info c =
     (case element key c of
        None \<Rightarrow> (c, None)
      | Some (uid, v) \<Rightarrow>
          if \<not> same_info info (te_info v) then (cache_remove (uid, v) c, None)
          else (c\<lparr>tc_lru := (uid, v) # AList.delete uid (tc_lru c)\<rparr>, Some (te_img v)))"

text \<open>The loop \<open>for c.bytes+len(img) > thumbCacheBytes || ...\<close>.\<close>

partial_function (option) evict :: "nat \<Rightarrow> thumb_cache \<Rightarrow> thumb_cache option" where
  "evict n c =
     (if tc_bytes c + int n > int thumbCacheBytes \<or> length (tc_entries c) \<ge> thumbCacheCap
      then (if tc_lru c = [] then None else evict n (cache_remove (last (tc_lru c)) c))
      else Some c)"

definition push_front :: "thumb_entry \<Rightarrow> thumb_cache \<Rightarrow> thumb_cache" where
  "push_front v c = c\<lparr>tc_lru := (tc_next c, v) # tc_lru c, tc_entries := AList.update (te_key v) (tc_next c) (tc_entries c),
     tc_bytes := tc_bytes c + int (length (te_img v)), tc_next := tc_next c + 1\<rparr>"

definition cache_put :: "string \<Rightarrow> bytes \<Rightarrow> thumb_info option \<Rightarrow> thumb_cache \<Rightarrow> thumb_cache option" where
  "cache_put key img info c =
     (if length img = 0 \<or> length img > maxEventThumbBytes then Some c
      else let c1 = (case element key c of None \<Rightarrow> c | Some el \<Rightarrow> cache_remove el c)
           in map_option (push_front \<lparr>te_key = key, te_img = img, te_info = info\<rparr>) (evict (length img) c1))"

datatype cache_op = Get string "thumb_info option" | Put string bytes "thumb_info option"

text \<open>A run: the state and the answers of the lookups.\<close>

fun cache_run :: "cache_op list \<Rightarrow> thumb_cache \<Rightarrow> (thumb_cache \<times> bytes option list) option" where
  "cache_run [] c = Some (c, [])"
| "cache_run (Get key info # ops) c =
     (case cache_get key info c of (c', r) \<Rightarrow> map_option (\<lambda>(c'', rs). (c'', r # rs)) (cache_run ops c'))"
| "cache_run (Put key img info # ops) c =
     (case cache_put key img info c of None \<Rightarrow> None | Some c' \<Rightarrow> cache_run ops c')"

section \<open>Its contract\<close>

text \<open>A list of entries, the most recently used first.\<close>

definition weight :: "thumb_entry list \<Rightarrow> nat" where
  "weight xs = sum_list (map (length \<circ> te_img) xs)"

definition lru_get :: "string \<Rightarrow> thumb_info option \<Rightarrow> thumb_entry list \<Rightarrow> thumb_entry list \<times> bytes option" where
  "lru_get key info xs =
     (case find (\<lambda>v. te_key v = key) xs of
        None \<Rightarrow> (xs, None)
      | Some v \<Rightarrow> (let rest = filter (\<lambda>v. te_key v \<noteq> key) xs
                  in if same_info info (te_info v) then (v # rest, Some (te_img v)) else (rest, None)))"

text \<open>The longest prefix that leaves room for \<open>n\<close> bytes and one entry.\<close>

definition fits :: "nat \<Rightarrow> thumb_entry list \<Rightarrow> bool" where
  "fits n xs = (weight xs + n \<le> thumbCacheBytes \<and> length xs < thumbCacheCap)"

fun fit_prefix :: "nat \<Rightarrow> thumb_entry list \<Rightarrow> thumb_entry list" where
  "fit_prefix n xs = (if fits n xs \<or> xs = [] then xs else fit_prefix n (butlast xs))"

declare fit_prefix.simps [simp del]

definition lru_put :: "string \<Rightarrow> bytes \<Rightarrow> thumb_info option \<Rightarrow> thumb_entry list \<Rightarrow> thumb_entry list" where
  "lru_put key img info xs =
     (if length img = 0 \<or> length img > maxEventThumbBytes then xs
      else \<lparr>te_key = key, te_img = img, te_info = info\<rparr>
           # fit_prefix (length img) (filter (\<lambda>v. te_key v \<noteq> key) xs))"

fun lru_run :: "cache_op list \<Rightarrow> thumb_entry list \<Rightarrow> thumb_entry list \<times> bytes option list" where
  "lru_run [] xs = (xs, [])"
| "lru_run (Get key info # ops) xs =
     (case lru_get key info xs of (xs', r) \<Rightarrow> case lru_run ops xs' of (ys, rs) \<Rightarrow> (ys, r # rs))"
| "lru_run (Put key img info # ops) xs = lru_run ops (lru_put key img info xs)"

section \<open>Lemmas\<close>

definition abs_cache :: "thumb_cache \<Rightarrow> thumb_entry list" where
  "abs_cache c = map snd (tc_lru c)"

definition cache_ok :: "thumb_cache \<Rightarrow> bool" where
  "cache_ok c = (distinct (map fst (tc_lru c)) \<and> distinct (map te_key (abs_cache c)) \<and> (\<forall>u\<in>fst ` set (tc_lru c). u < tc_next c)
     \<and> distinct (map fst (tc_entries c)) \<and> set (tc_entries c) = (\<lambda>(u, v). (te_key v, u)) ` set (tc_lru c)
     \<and> tc_bytes c = int (weight (abs_cache c)))"


definition small :: "thumb_cache \<Rightarrow> bool" where
  "small c = (tc_bytes c \<le> int thumbCacheBytes \<and> length (tc_entries c) \<le> thumbCacheCap)"

lemma set_delete_fst: "u \<notin> fst ` set (AList.delete u xs)"
  by (auto simp: AList.delete_eq)

lemma cache_keys: "cache_ok c \<Longrightarrow> fst ` set (tc_entries c) = te_key ` set (abs_cache c)"
  by (auto simp: cache_ok_def abs_cache_def image_image split_beta)

lemma cache_length: "cache_ok c \<Longrightarrow> length (tc_entries c) = length (abs_cache c)"
proof -
  assume ok: "cache_ok c"
  then have "distinct (map fst (tc_entries c))" "distinct (map te_key (abs_cache c))" by (simp_all add: cache_ok_def)
  then have "length (map fst (tc_entries c)) = length (map te_key (abs_cache c))"
    using cache_keys [OF ok] by (metis distinct_card set_map)
  then show ?thesis by simp
qed

lemma unique_key:
  assumes "cache_ok c" "(u, v) \<in> set (tc_lru c)" "(u', v') \<in> set (tc_lru c)"
  shows "te_key v' = te_key v \<longleftrightarrow> u' = u"
proof -
  have "inj_on fst (set (tc_lru c))" "inj_on (\<lambda>x. te_key (snd x)) (set (tc_lru c))"
    using assms(1) by (auto simp: cache_ok_def abs_cache_def distinct_map comp_def intro: comp_inj_on)
  from inj_onD [OF this(1) _ assms(3,2)] inj_onD [OF this(2) _ assms(3,2)] show ?thesis by auto
qed

lemma element_find: "cache_ok c \<Longrightarrow> element k c = find (\<lambda>(u, v). te_key v = k) (tc_lru c)"
proof -
  assume ok: "cache_ok c"
  have e: "distinct (map fst (tc_entries c))" "set (tc_entries c) = (\<lambda>(u, v). (te_key v, u)) ` set (tc_lru c)"
      "distinct (map fst (tc_lru c))" using ok by (simp_all add: cache_ok_def)
  show ?thesis
  proof (cases "find (\<lambda>(u, v). te_key v = k) (tc_lru c)")
    case None
    then have "\<forall>x\<in>set (tc_lru c). te_key (snd x) \<noteq> k" by (auto simp: find_None_iff) blast
    then have "k \<notin> (\<lambda>x. te_key (snd x)) ` set (tc_lru c)" by blast
    moreover have "fst ` set (tc_entries c) = (\<lambda>x. te_key (snd x)) ` set (tc_lru c)"
      unfolding e(2) by (simp add: image_image case_prod_beta)
    ultimately have "k \<notin> fst ` set (tc_entries c)" by simp
    then have "map_of (tc_entries c) k = None" by (simp add: map_of_eq_None_iff)
    with None show ?thesis by (simp add: element_def)
  next
    case (Some x)
    obtain u v where x: "x = (u, v)" by (cases x)
    from find_SomeD [OF Some] x have m: "(u, v) \<in> set (tc_lru c)" "te_key v = k" by simp_all
    then have "(k, u) \<in> set (tc_entries c)" using e(2) by force
    then have "map_of (tc_entries c) k = Some u" by (rule map_of_is_SomeI [OF e(1)])
    moreover have "map_of (tc_lru c) u = Some v" by (rule map_of_is_SomeI [OF e(3) m(1)])
    ultimately show ?thesis using Some x by (simp add: element_def)
  qed
qed

lemma element_abs: "cache_ok c \<Longrightarrow> map_option snd (element k c) = find (\<lambda>v. te_key v = k) (abs_cache c)"
proof -
  have "map_option snd (find (\<lambda>(u, v). te_key v = k) xs) = find (\<lambda>v. te_key v = k) (map snd xs)" for xs :: "(nat \<times> thumb_entry) list"
    by (induction xs) auto
  then show "cache_ok c \<Longrightarrow> map_option snd (element k c) = find (\<lambda>v. te_key v = k) (abs_cache c)"
    by (simp add: element_find abs_cache_def)
qed

lemma element_mem: "cache_ok c \<Longrightarrow> element k c = Some (u, v) \<Longrightarrow> (u, v) \<in> set (tc_lru c) \<and> te_key v = k"
  using find_SomeD by (fastforce simp: element_find)

lemma sum_list_filter_one:
  "distinct (map te_key xs) \<Longrightarrow> v \<in> set xs \<Longrightarrow>
     weight xs = length (te_img v) + weight (filter (\<lambda>v'. te_key v' \<noteq> te_key v) xs)"
proof (induction xs)
  case (Cons x xs)
  show ?case
  proof (cases "x = v")
    case True
    with Cons.prems have "te_key v \<notin> te_key ` set xs" by simp
    then have "\<forall>v'\<in>set xs. te_key v' \<noteq> te_key v" by (metis image_eqI)
    then have "filter (\<lambda>v'. te_key v' \<noteq> te_key v) xs = xs" by (simp add: filter_id_conv)
    with True show ?thesis by (simp add: weight_def)
  next
    case False
    with Cons show ?thesis by (auto simp: weight_def)
  qed
qed simp

lemma remove_ok:
  assumes "cache_ok c" "(u, v) \<in> set (tc_lru c)"
  shows "cache_ok (cache_remove (u, v) c)"
    and "abs_cache (cache_remove (u, v) c) = filter (\<lambda>v'. te_key v' \<noteq> te_key v) (abs_cache c)"
    and "tc_next (cache_remove (u, v) c) = tc_next c"
proof -
  have d: "AList.delete u (tc_lru c) = filter (\<lambda>(u', v'). te_key v' \<noteq> te_key v) (tc_lru c)"
    unfolding AList.delete_eq using unique_key [OF assms] by (intro filter_cong) auto
  show a: "abs_cache (cache_remove (u, v) c) = filter (\<lambda>v'. te_key v' \<noteq> te_key v) (abs_cache c)"
    by (simp add: cache_remove_def abs_cache_def d filter_map comp_def case_prod_beta')
  show "tc_next (cache_remove (u, v) c) = tc_next c" by (simp add: cache_remove_def)
  have v: "v \<in> set (abs_cache c)" using assms(2) by (force simp: abs_cache_def)
  have "set (AList.delete (te_key v) (tc_entries c)) = {x \<in> set (tc_entries c). fst x \<noteq> te_key v}"
    by (auto simp: AList.delete_eq)
  also have "\<dots> = (\<lambda>(u, v). (te_key v, u)) ` set (filter (\<lambda>(u', v'). te_key v' \<noteq> te_key v) (tc_lru c))"
    using assms(1) by (auto simp: cache_ok_def)
  finally have e: "set (AList.delete (te_key v) (tc_entries c)) = (\<lambda>(u, v). (te_key v, u)) ` set (AList.delete u (tc_lru c))"
    by (simp only: d)
  have "int (weight (abs_cache c)) - int (length (te_img v)) = int (weight (filter (\<lambda>v'. te_key v' \<noteq> te_key v) (abs_cache c)))"
    using sum_list_filter_one [of "abs_cache c" v] v assms(1) by (simp add: cache_ok_def)
  moreover have "distinct (map te_key (filter P (abs_cache c)))" for P using assms(1) by (simp add: cache_ok_def distinct_map_filter)
  ultimately show "cache_ok (cache_remove (u, v) c)"
    using assms(1) a e set_alist_delete [of u "tc_lru c"]
    unfolding cache_ok_def by (auto simp: cache_remove_def distinct_delete image_iff)
qed

lemma filter_last:
  "distinct (map te_key xs) \<Longrightarrow> xs \<noteq> [] \<Longrightarrow> filter (\<lambda>v. te_key v \<noteq> te_key (last xs)) xs = butlast xs"
proof (induction xs rule: rev_induct)
  case (snoc x xs)
  then have "te_key x \<notin> te_key ` set xs" by simp
  then have "\<forall>v\<in>set xs. te_key v \<noteq> te_key x" by (metis image_eqI)
  then have "filter (\<lambda>v. te_key v \<noteq> te_key x) xs = xs" by (simp add: filter_id_conv)
  then show ?case by simp
qed simp

lemma evict_ok:
  assumes "cache_ok c" "n \<le> thumbCacheBytes"
  shows "\<exists>c'. evict n c = Some c' \<and> cache_ok c' \<and> abs_cache c' = fit_prefix n (abs_cache c) \<and> fits n (abs_cache c')"
  using assms(1)
proof (induction "length (tc_lru c)" arbitrary: c)
  case 0
  then have "fits n (abs_cache c)" "tc_lru c = []" using assms(2) by (simp_all add: abs_cache_def fits_def weight_def thumbCacheCap_def)
  moreover from this have "evict n c = Some c"
    using 0 cache_length [of c] by (subst evict.simps) (auto simp: fits_def cache_ok_def)
  ultimately show ?case using 0 by (auto simp: fit_prefix.simps [of n "abs_cache c"])
next
  case (Suc k)
  show ?case
  proof (cases "fits n (abs_cache c)")
    case True
    then have "evict n c = Some c"
      using Suc.prems cache_length [of c] by (subst evict.simps) (auto simp: fits_def cache_ok_def)
    with True Suc.prems show ?thesis by (auto simp: fit_prefix.simps [of n "abs_cache c"])
  next
    case False
    obtain u v where uv: "last (tc_lru c) = (u, v)" by fastforce
    have ne: "tc_lru c \<noteq> []" using Suc.hyps(2) by auto
    with uv have m: "(u, v) \<in> set (tc_lru c)" by (metis last_in_set)
    let ?c = "cache_remove (u, v) c"
    have l: "last (abs_cache c) = v" using uv ne by (simp add: abs_cache_def last_map)
    have a: "abs_cache ?c = butlast (abs_cache c)"
      using remove_ok(2) [OF Suc.prems m] filter_last [of "abs_cache c"] l Suc.prems ne
      by (simp add: cache_ok_def) (simp add: abs_cache_def)
    have "length (tc_lru ?c) = k" using arg_cong [OF a, of length] Suc.hyps(2) by (simp add: abs_cache_def)
    from Suc.hyps(1) [OF this [symmetric] remove_ok(1) [OF Suc.prems m]] obtain c' where
      c': "evict n ?c = Some c'" "cache_ok c'" "abs_cache c' = fit_prefix n (abs_cache ?c)" "fits n (abs_cache c')" by blast
    have "evict n c = evict n ?c"
      using False Suc.prems cache_length [of c] ne uv by (subst evict.simps) (auto simp: fits_def cache_ok_def)
    moreover have "fit_prefix n (abs_cache c) = fit_prefix n (butlast (abs_cache c))"
      using False ne by (subst fit_prefix.simps) (simp add: abs_cache_def)
    ultimately show ?thesis using c' a by auto
  qed
qed

lemma push_ok:
  assumes "cache_ok c" "te_key v \<notin> te_key ` set (abs_cache c)"
  shows "cache_ok (push_front v c)" "abs_cache (push_front v c) = v # abs_cache c"
    "length (tc_entries (push_front v c)) = Suc (length (tc_entries c))"
proof -
  have "te_key v \<notin> fst ` set (tc_entries c)" using assms cache_keys by simp
  from alist_update_fresh [OF this]
  have e: "tc_entries (push_front v c) = tc_entries c @ [(te_key v, tc_next c)]" by (simp add: push_front_def)
  then show "length (tc_entries (push_front v c)) = Suc (length (tc_entries c))" by simp
  show a: "abs_cache (push_front v c) = v # abs_cache c" by (simp add: abs_cache_def push_front_def)
  have "\<forall>u\<in>fst ` set (tc_lru c). u < tc_next c" using assms(1) by (simp add: cache_ok_def)
  then have n: "tc_next c \<notin> fst ` set (tc_lru c)" "\<forall>u\<in>fst ` set (tc_lru c). u < Suc (tc_next c)" by auto
  have l: "tc_lru (push_front v c) = (tc_next c, v) # tc_lru c" "tc_next (push_front v c) = Suc (tc_next c)"
    "tc_bytes (push_front v c) = tc_bytes c + int (length (te_img v))" by (simp_all add: push_front_def)
  show "cache_ok (push_front v c)"
    unfolding cache_ok_def l e a using n assms \<open>te_key v \<notin> fst ` set (tc_entries c)\<close>
    by (auto simp: cache_ok_def weight_def)
qed

lemma put_ok:
  assumes "cache_ok c" "small c"
  shows "\<exists>c'. cache_put key img info c = Some c' \<and> cache_ok c' \<and> small c' \<and> abs_cache c' = lru_put key img info (abs_cache c)"
proof (cases "length img = 0 \<or> length img > maxEventThumbBytes")
  case True
  with assms show ?thesis by (auto simp: cache_put_def lru_put_def)
next
  case False
  then have n: "length img \<le> thumbCacheBytes" by (simp add: maxEventThumbBytes_def thumbCacheBytes_def)
  define c1 where "c1 = (case element key c of None \<Rightarrow> c | Some el \<Rightarrow> cache_remove el c)"
  have c1: "cache_ok c1 \<and> abs_cache c1 = filter (\<lambda>v. te_key v \<noteq> key) (abs_cache c)"
  proof (cases "element key c")
    case None
    then have "find (\<lambda>v. te_key v = key) (abs_cache c) = None" using element_abs [OF assms(1), of key] by simp
    then have "\<forall>v\<in>set (abs_cache c). te_key v \<noteq> key" by (auto simp: find_None_iff)
    then have "filter (\<lambda>v. te_key v \<noteq> key) (abs_cache c) = abs_cache c" by (simp add: filter_id_conv)
    with None assms(1) show ?thesis by (simp add: c1_def)
  next
    case (Some x)
    obtain u v where x: "x = (u, v)" by (cases x)
    from element_mem [OF assms(1) Some [unfolded x]] have "(u, v) \<in> set (tc_lru c)" "te_key v = key" by simp_all
    with remove_ok [OF assms(1)] Some x show ?thesis by (simp add: c1_def)
  qed
  from evict_ok [OF conjunct1 [OF c1] n] obtain c2 where
    c2: "evict (length img) c1 = Some c2" "cache_ok c2" "abs_cache c2 = fit_prefix (length img) (abs_cache c1)"
      "fits (length img) (abs_cache c2)" by blast
  let ?v = "\<lparr>te_key = key, te_img = img, te_info = info\<rparr>"
  have "set (fit_prefix k xs) \<subseteq> set xs" for k xs
    by (induction k xs rule: fit_prefix.induct) (subst fit_prefix.simps, auto dest: in_set_butlastD)
  with c1 c2(3) have "te_key ?v \<notin> te_key ` set (abs_cache c2)" by fastforce
  note p = push_ok [OF c2(2) this]
  have "small (push_front ?v c2)"
    using c2(2,4) cache_length [OF c2(2)] p(3) by (simp add: small_def fits_def cache_ok_def push_front_def)
  moreover have "cache_put key img info c = Some (push_front ?v c2)"
    using False c2(1) by (simp add: cache_put_def c1_def Let_def)
  moreover have "abs_cache (push_front ?v c2) = lru_put key img info (abs_cache c)"
    using p(2) c2(3) c1 False by (simp add: lru_put_def)
  ultimately show ?thesis using p(1) by blast
qed

lemma same_ok:
  assumes "cache_ok c" "distinct (map fst l)" "distinct (map te_key (map snd l))" "set l = set (tc_lru c)"
    and "weight (map snd l) = weight (abs_cache c)"
  shows "cache_ok (c\<lparr>tc_lru := l\<rparr>)"
  using assms by (simp add: cache_ok_def abs_cache_def)

lemma move_ok:
  assumes "cache_ok c" "(u, v) \<in> set (tc_lru c)"
  shows "cache_ok (c\<lparr>tc_lru := (u, v) # AList.delete u (tc_lru c)\<rparr>)"
    "abs_cache (c\<lparr>tc_lru := (u, v) # AList.delete u (tc_lru c)\<rparr>) = v # filter (\<lambda>v'. te_key v' \<noteq> te_key v) (abs_cache c)"
proof -
  have d: "AList.delete u (tc_lru c) = filter (\<lambda>(u', v'). te_key v' \<noteq> te_key v) (tc_lru c)"
    unfolding AList.delete_eq using unique_key [OF assms] by (intro filter_cong) auto
  show a: "abs_cache (c\<lparr>tc_lru := (u, v) # AList.delete u (tc_lru c)\<rparr>) = v # filter (\<lambda>v'. te_key v' \<noteq> te_key v) (abs_cache c)"
    by (simp add: abs_cache_def d filter_map comp_def case_prod_beta')
  have s: "set ((u, v) # AList.delete u (tc_lru c)) = set (tc_lru c)"
  proof -
    have "distinct (map fst (tc_lru c))" using assms(1) by (simp add: cache_ok_def)
    then have "x = (u, v)" if "x \<in> set (tc_lru c)" "fst x = u" for x
      using eq_key_imp_eq_value [of "tc_lru c" u "snd x" v] that assms(2) by (cases x) simp
    then have "set (tc_lru c) = insert (u, v) {x \<in> set (tc_lru c). fst x \<noteq> u}" using assms(2) by blast
    moreover have "set (AList.delete u xs) = {x \<in> set xs. fst x \<noteq> u}" for xs :: "(nat \<times> thumb_entry) list"
      by (auto simp: AList.delete_eq)
    ultimately show ?thesis by (simp only: list.set)
  qed
  have v: "v \<in> set (abs_cache c)" using assms(2) by (force simp: abs_cache_def)
  have "distinct (map fst ((u, v) # AList.delete u (tc_lru c)))"
    using assms(1) distinct_delete [of "tc_lru c" u] set_delete_fst [of u "tc_lru c"] by (simp add: cache_ok_def)
  moreover have "weight (v # filter (\<lambda>v'. te_key v' \<noteq> te_key v) (abs_cache c)) = weight (abs_cache c)"
    using sum_list_filter_one [of "abs_cache c" v] v assms(1) by (simp add: cache_ok_def weight_def)
  moreover have "distinct (map te_key (v # filter (\<lambda>v'. te_key v' \<noteq> te_key v) (abs_cache c)))"
    using assms(1) by (auto simp: cache_ok_def distinct_map_filter)
  moreover have "map snd ((u, v) # AList.delete u (tc_lru c)) = v # filter (\<lambda>v'. te_key v' \<noteq> te_key v) (abs_cache c)"
    using a by (simp add: abs_cache_def)
  ultimately show "cache_ok (c\<lparr>tc_lru := (u, v) # AList.delete u (tc_lru c)\<rparr>)"
    using same_ok [OF assms(1) _ _ s] by metis
qed

lemma get_ok:
  assumes "cache_ok c" "small c" "cache_get key info c = (c', r)"
  shows "cache_ok c' \<and> small c' \<and> lru_get key info (abs_cache c) = (abs_cache c', r)"
proof (cases "element key c")
  case None
  then have "find (\<lambda>v. te_key v = key) (abs_cache c) = None" using element_abs [OF assms(1), of key] by simp
  with None assms show ?thesis by (auto simp: cache_get_def lru_get_def)
next
  case (Some x)
  obtain u v where x: "x = (u, v)" by (cases x)
  from element_mem [OF assms(1) Some [unfolded x]] have m: "(u, v) \<in> set (tc_lru c)" "te_key v = key" by simp_all
  have f: "find (\<lambda>v. te_key v = key) (abs_cache c) = Some v" using element_abs [OF assms(1), of key] Some x by simp
  show ?thesis
  proof (cases "same_info info (te_info v)")
    case True
    with assms Some x have "c' = c\<lparr>tc_lru := (u, v) # AList.delete u (tc_lru c)\<rparr>" "r = Some (te_img v)"
      by (simp_all add: cache_get_def)
    with move_ok [OF assms(1) m(1)] f True m(2) assms(2) show ?thesis by (simp add: lru_get_def small_def)
  next
    case False
    with assms Some x have c': "c' = cache_remove (u, v) c" "r = None" by (simp_all add: cache_get_def)
    have "small c'" using assms(2) c' length_delete_le [of "te_key v" "tc_entries c"]
      by (simp add: small_def cache_remove_def)
    with remove_ok [OF assms(1) m(1)] c' f False m(2) show ?thesis by (simp add: lru_get_def)
  qed
qed

lemma run_ok:
  "cache_ok c \<Longrightarrow> small c \<Longrightarrow> \<exists>c'. cache_run ops c = Some (c', snd (lru_run ops (abs_cache c))) \<and> cache_ok c' \<and> small c'
     \<and> abs_cache c' = fst (lru_run ops (abs_cache c))"
proof (induction ops arbitrary: c)
  case (Cons op ops)
  show ?case
  proof (cases op)
    case (Get key info)
    obtain c1 r where g: "cache_get key info c = (c1, r)" by fastforce
    note ok = get_ok [OF Cons.prems g]
    then obtain c' where "cache_run ops c1 = Some (c', snd (lru_run ops (abs_cache c1)))" "cache_ok c'" "small c'"
        "abs_cache c' = fst (lru_run ops (abs_cache c1))" using Cons.IH by blast
    with Get g ok show ?thesis by (simp split: prod.split)
  next
    case (Put key img info)
    from put_ok [OF Cons.prems, of key img info] obtain c1 where p: "cache_put key img info c = Some c1" "cache_ok c1" "small c1"
        "abs_cache c1 = lru_put key img info (abs_cache c)" by blast
    with Cons.IH [OF p(2,3)] Put show ?thesis by simp
  qed
qed auto

section \<open>Properties\<close>

text \<open>C23. The cache always answers: whatever is looked up and stored, in whatever order, the eviction loop
  ends without ever removing from an empty list, and what the cache holds and answers is what an
  ideal list of at most 512 images and 32 MiB would, in which a hit moves to the front, a stale entry
  goes, and a new image displaces exactly as many of the least recently used ones as it must.\<close>

theorem thumb_cache_is_lru:
  "\<exists>c. cache_run ops empty_cache = Some (c, snd (lru_run ops [])) \<and> abs_cache c = fst (lru_run ops [])
     \<and> weight (abs_cache c) \<le> thumbCacheBytes \<and> length (abs_cache c) \<le> thumbCacheCap"
proof -
  have "cache_ok empty_cache" "small empty_cache" "abs_cache empty_cache = []"
    by (simp_all add: cache_ok_def small_def empty_cache_def abs_cache_def weight_def)
  with run_ok [of empty_cache ops] obtain c where c: "cache_run ops empty_cache = Some (c, snd (lru_run ops []))"
      "cache_ok c" "small c" "abs_cache c = fst (lru_run ops [])" by auto
  then have "weight (abs_cache c) \<le> thumbCacheBytes" "length (abs_cache c) \<le> thumbCacheCap"
    using cache_length [OF c(2)] by (simp_all add: small_def cache_ok_def)
  with c show ?thesis by blast
qed

end
