(* ===== verification/Surv_Router.thy ===== *)
theory Surv_Router
  imports Hub_Watch
begin

text \<open>
  \<^verbatim>\<open>relay/surv_router.go\<close>: the tenant-scoped \<open>/surv\<close> surface. A path may begin with the id of an agent's
  session; without one it belongs to the default agent. The request's method, path and query values
  are arguments, a decoded body an option. The answers leave out the CORS headers.
\<close>

section \<open>Handlers\<close>

definition splitSurvPath :: "string \<Rightarrow> hub \<Rightarrow> string \<times> string" where
  "splitSurvPath p h =
     (let first = (case cut_at CHR ''/'' p of Some (a, _) \<Rightarrow> a | None \<Rightarrow> p)
      in if first \<noteq> [] \<and> first \<noteq> ''default'' \<and> sessionByID first h \<noteq> None
         then (first, trim_prefix p (first @ ''/'')) else (''default'', p))"

text \<open>\<open>None\<close> is the answer 404 "no such agent".\<close>

definition ServeSurvHLS :: "string \<Rightarrow> string \<Rightarrow> hub \<Rightarrow> hls_answer option" where
  "ServeSurvHLS method path h =
     (case splitSurvPath (trim_prefix path ''/surv/'') h of (agentID, rest) \<Rightarrow>
        (case sessionByID agentID h of
           None \<Rightarrow> None
         | Some s \<Rightarrow> Some (ServeHLS (as_proxy s) method (''/surv/'' @ rest))))"

definition ensure_wall :: "relay \<Rightarrow> string \<Rightarrow> string \<Rightarrow> hub \<Rightarrow> agent_session \<Rightarrow> agent_session" where
  "ensure_wall rl agentID wallID h s =
     s\<lparr>as_proxy := EnsureMosaic (rl_env rl) (hb_walls h) agentID wallID (as_proxy s)\<rparr>"

definition ServeSurvWS :: "relay \<Rightarrow> string \<Rightarrow> hub \<Rightarrow> hub \<times> ws_answer option" where
  "ServeSurvWS rl path h =
     (case splitSurvPath (trim_prefix path ''/surv/ws/'') h of (agentID, rest) \<Rightarrow>
        (case sessionByID agentID h of
           None \<Rightarrow> (h, None)
         | Some s \<Rightarrow>
             (let s1 = (if has_prefix rest ''wall'' then ensure_wall rl agentID rest h s else s)
              in case ServeWS (as_proxy s1) (''/surv/ws/'' @ rest) of
                   (px, ans) \<Rightarrow> (put_session agentID (s1\<lparr>as_proxy := px\<rparr>) h, Some ans))))"

text \<open>The session of a query's \<open>agent\<close>, the default one otherwise, under its key.\<close>

definition surv_session :: "string \<Rightarrow> hub \<Rightarrow> (string \<times> agent_session) option" where
  "surv_session agent h = (case sessionByID agent h of
      Some s \<Rightarrow> Some (agent, s)
    | None \<Rightarrow> map_option (\<lambda>s. (''default'', s)) (sessionByID ''default'' h))"

record wall_reply =
  wr_enabled :: bool
  wr_rows :: nat
  wr_cols :: nat
  wr_fps :: int
  wr_cells :: "(nat \<times> string \<times> string) list"

definition wall_off :: wall_reply where
  "wall_off = \<lparr>wr_enabled = False, wr_rows = 0, wr_cols = 0, wr_fps = 0, wr_cells = []\<rparr>"

definition wall_reply_of :: "surv_proxy \<Rightarrow> string \<Rightarrow> wall_reply" where
  "wall_reply_of px wallID = (case WallLayout px wallID of
      None \<Rightarrow> wall_off\<lparr>wr_enabled := True\<rparr>
    | Some (rows, cols, fps, cells) \<Rightarrow>
        \<lparr>wr_enabled = True, wr_rows = rows, wr_cols = cols, wr_fps = fps, wr_cells = cells\<rparr>)"

definition ServeWallLayout :: "relay \<Rightarrow> string \<Rightarrow> string \<Rightarrow> hub \<Rightarrow> hub \<times> wall_reply option" where
  "ServeWallLayout rl agent wall h =
     (case surv_session agent h of
        None \<Rightarrow> (h, None)
      | Some (sid, s) \<Rightarrow>
          if \<not> wallEnabled (rl_getenv rl ''RELAY_WALL'') then (h, Some wall_off)
          else (let agent' = (if agent = [] then ''default'' else agent);
                    wallID = (if wall = [] then ''wall'' else wall);
                    s' = ensure_wall rl agent' wallID h s
                in (put_session sid s' h, Some (wall_reply_of (as_proxy s') wallID))))"

text \<open>A query value that is present and a number.\<close>

definition query_int :: "string \<Rightarrow> int option" where
  "query_int v = (if v = [] then None else atoi v)"

definition apply_order :: "string \<Rightarrow> string list option \<Rightarrow> wall_tables \<times> agent_db \<Rightarrow> wall_tables \<times> agent_db" where
  "apply_order key body st = (case body of
      Some xs \<Rightarrow> if length xs > 0 then setWallOrder key xs st else st | None \<Rightarrow> st)"

definition apply_int ::
    "(int \<Rightarrow> wall_tables \<times> agent_db \<Rightarrow> wall_tables \<times> agent_db) \<Rightarrow> string \<Rightarrow> wall_tables \<times> agent_db \<Rightarrow> wall_tables \<times> agent_db" where
  "apply_int f v st = (case query_int v of Some n \<Rightarrow> f n st | None \<Rightarrow> st)"

definition ServeWallOrder ::
    "relay \<Rightarrow> string \<Rightarrow> string \<Rightarrow> string \<Rightarrow> string list option \<Rightarrow> string \<Rightarrow> string \<Rightarrow> string \<Rightarrow> hub \<Rightarrow> hub \<times> nat" where
  "ServeWallOrder rl method agent wallID body qcols qw qfps h =
     (if method = ''OPTIONS'' then (h, 204)
      else if method \<noteq> ''POST'' then (h, 405)
      else if wallID = [] then (h, 400)
      else case surv_session agent h of
        None \<Rightarrow> (h, 404)
      | Some (sid, s) \<Rightarrow>
          (let agent' = (if agent = [] then ''default'' else agent);
               key = wallOrderKey agent' wallID;
               (t1, db1) = apply_int (setWallCols key) qcols (apply_order key body (hb_walls h, hb_db h));
               (t2, db2) = apply_int (\<lambda>n (t, db). (setWallResW key n t, db)) qw (t1, db1);
               (t3, db3) = apply_int (\<lambda>n (t, db). (setWallFpsOv key n t, db)) qfps (t2, db2);
               h1 = h\<lparr>hb_walls := t3, hb_db := db3\<rparr>
           in (put_session sid (ensure_wall rl agent' wallID h1 s) h1, 204)))"

section \<open>Lemmas\<close>

lemma split_named:
  assumes "CHR ''/'' \<notin> set a" "a \<notin> {[], ''default''}" "sessionByID a h \<noteq> None"
  shows "splitSurvPath (a @ ''/'' @ rest) h = (a, rest)"
  using assms by (simp add: splitSurvPath_def Let_def trim_prefix_def has_prefix_def)

lemma split_default:
  assumes "case cut_at CHR ''/'' p of Some (a, _) \<Rightarrow> a \<in> {[], ''default''} \<or> sessionByID a h = None
     | None \<Rightarrow> p \<in> {[], ''default''} \<or> sessionByID p h = None"
  shows "splitSurvPath p h = (''default'', p)"
proof (cases "cut_at CHR ''/'' p")
  case None
  show ?thesis using assms unfolding splitSurvPath_def None by (auto simp: Let_def)
next
  case (Some x)
  then show ?thesis using assms by (cases x) (auto simp: splitSurvPath_def Let_def)
qed

lemma ServeHLS_stream:
  assumes "CHR ''/'' \<notin> set x" "method \<noteq> ''OPTIONS''"
  shows "ServeHLS px method (''/surv/'' @ x @ ''/'' @ file) = (case stream_at px x of
      None \<Rightarrow> NoStream x | Some e \<Rightarrow> if en_muxer e then Delegate x (''/'' @ file) else Reconnecting x)"
  using assms trim_prefix_append [of "''/surv/''" "x @ ''/'' @ file"] by (simp add: ServeHLS_def split: option.split)

section \<open>Properties\<close>

text \<open>The address the relay hands out for a stream, \<open>/surv/\<close> followed by \<open>streamPath\<close> of the agent and
  the stream, leads back to that agent's proxy and that stream: the playlist is served from it when
  it runs, and "no stream" or "reconnecting" are about it. For the default agent this needs that no
  other session's id is the stream's id, which the address would otherwise select.\<close>

lemma surv_address_round_trip:
  assumes "CHR ''/'' \<notin> set a" "CHR ''/'' \<notin> set x" "method \<noteq> ''OPTIONS''"
    and "sessionByID (if a = [] then ''default'' else a) h = Some s"
    and "a \<in> {[], ''default''} \<longrightarrow> x \<in> {[], ''default''} \<or> sessionByID x h = None"
  shows "ServeSurvHLS method (''/surv/'' @ streamPath a x @ ''/'' @ file) h = Some (case stream_at (as_proxy s) x of
      None \<Rightarrow> NoStream x | Some e \<Rightarrow> if en_muxer e then Delegate x (''/'' @ file) else Reconnecting x)"
proof (cases "a \<in> {[], ''default''}")
  case False
  have t: "trim_prefix (''/surv/'' @ a @ ''/'' @ x @ ''/'' @ file) ''/surv/'' = a @ ''/'' @ x @ ''/'' @ file"
    by (rule trim_prefix_append)
  from False assms(4) have s: "sessionByID a h = Some s" by simp
  then have "splitSurvPath (a @ ''/'' @ x @ ''/'' @ file) h = (a, x @ ''/'' @ file)"
    using False assms(1) by (intro split_named) simp_all
  with t s have "ServeSurvHLS method (''/surv/'' @ a @ ''/'' @ x @ ''/'' @ file) h
      = Some (ServeHLS (as_proxy s) method (''/surv/'' @ x @ ''/'' @ file))"
    unfolding ServeSurvHLS_def t by simp
  with ServeHLS_stream [OF assms(2,3)] False show ?thesis by (simp add: streamPath_def)
next
  case True
  have t: "trim_prefix (''/surv/'' @ x @ ''/'' @ file) ''/surv/'' = x @ ''/'' @ file"
    by (rule trim_prefix_append)
  from True assms(4) have s: "sessionByID ''default'' h = Some s" by auto
  have "splitSurvPath (x @ ''/'' @ file) h = (''default'', x @ ''/'' @ file)"
    using True assms(2,5) by (intro split_default) simp
  with t s have "ServeSurvHLS method (''/surv/'' @ x @ ''/'' @ file) h
      = Some (ServeHLS (as_proxy s) method (''/surv/'' @ x @ ''/'' @ file))"
    unfolding ServeSurvHLS_def t by simp
  with ServeHLS_stream [OF assms(2,3)] True show ?thesis by (auto simp: streamPath_def)
qed

text \<open>An \<open>agent\<close> value that names no session is answered by the default agent's proxy, but the walls and
  the stored layout go under the unknown name, which no stored layout of the default agent is read
  from.\<close>

lemma unknown_agent_wall:
  assumes "sessionByID agent h = None" "sessionByID ''default'' h = Some s" "agent \<noteq> []"
    and "wallEnabled (rl_getenv rl ''RELAY_WALL'')"
  shows "sessionByID ''default'' (fst (ServeWallLayout rl agent wall h))
     = Some (ensure_wall rl agent (if wall = [] then ''wall'' else wall) h s)"
  using assms by (simp add: ServeWallLayout_def surv_session_def Let_def)

text \<open>A live wall is started over WebSocket whether or not walls are enabled.\<close>

lemma ws_ignores_wall_switch:
  "ServeSurvWS (rl\<lparr>rl_getenv := g\<rparr>) path h = ServeSurvWS rl path h"
proof -
  have "ensure_wall (rl\<lparr>rl_getenv := g\<rparr>) = ensure_wall rl" by (simp add: ensure_wall_def fun_eq_iff)
  then show ?thesis unfolding ServeSurvWS_def by (simp only:)
qed

lemma surv_other_sessions:
  assumes "sid \<noteq> fst (splitSurvPath (trim_prefix path ''/surv/ws/'') h)"
  shows "sessionByID sid (fst (ServeSurvWS rl path h)) = sessionByID sid h"
proof -
  obtain a rest where p: "splitSurvPath (trim_prefix path ''/surv/ws/'') h = (a, rest)" by fastforce
  with assms have "sid \<noteq> a" by simp
  then show ?thesis unfolding ServeSurvWS_def p
    by (auto simp: Let_def split: option.split prod.split)
qed

end
