(* ===== verification/Alerts.thy ===== *)
theory Alerts
  imports Hub_Watch
begin

text \<open>
  The delivery side of \<^verbatim>\<open>relay/alerts.go\<close>: which messages go to which channel, the guard on webhook
  addresses, and the monitor that reports agents going offline and coming back. The parser of
  \<open>net/url\<close> is a parameter (scheme and host name, \<open>None\<close> for an error); the HTTP requests themselves
  are outside: a \<open>delivery\<close> is what is handed to a channel. Times are milliseconds. One tick of the
  monitor's ticker is one element of a list.
\<close>

section \<open>Delivery\<close>

type_synonym url_parse = "string \<Rightarrow> (string \<times> string) option"

definition webhookURLAllowed :: "url_parse \<Rightarrow> string \<Rightarrow> bool" where
  "webhookURLAllowed parse rawURL =
     (case parse (TrimSpace rawURL) of
        None \<Rightarrow> False
      | Some (scheme, host) \<Rightarrow>
          if scheme \<noteq> ''http'' \<and> scheme \<noteq> ''https'' then False
          else if host = [] then False else \<not> isBlockedRTSPHost host)"

datatype delivery = Telegram string string string | Webhook string string string string

definition sendTelegram :: "string \<Rightarrow> string \<Rightarrow> string \<Rightarrow> delivery list" where
  "sendTelegram token chat text = [Telegram token chat text]"

definition sendWebhook :: "url_parse \<Rightarrow> string \<Rightarrow> string \<Rightarrow> string \<Rightarrow> string \<Rightarrow> delivery list" where
  "sendWebhook parse rawURL title body text =
     (if \<not> webhookURLAllowed parse rawURL then [] else [Webhook rawURL title body text])"

definition sendAlert :: "url_parse \<Rightarrow> alert_config \<Rightarrow> string \<Rightarrow> string \<Rightarrow> delivery list" where
  "sendAlert parse c title body =
     (if \<not> hasChannel c then []
      else let text = (if body \<noteq> [] then title @ [CHR 0x0A] @ body else title)
           in (if al_tg_token c \<noteq> [] \<and> al_tg_chat c \<noteq> [] then sendTelegram (al_tg_token c) (al_tg_chat c) text else [])
            @ (if al_webhook c \<noteq> [] then sendWebhook parse (al_webhook c) title body text else []))"

section \<open>The monitor\<close>

datatype alert = Offline string int | Recovered string

text \<open>The Go source's non-ASCII literals, as their UTF-8 bytes.\<close>

definition utf8 :: "nat list \<Rightarrow> string" where
  "utf8 bs = map char_of bs"

text \<open>\<open>time.Duration.String\<close> of a whole number of seconds, at least one.\<close>

definition show_seconds :: "int \<Rightarrow> string" where
  "show_seconds n = (if n < 60 then itoa n @ ''s''
     else if n < 3600 then itoa (n div 60) @ ''m'' @ itoa (n mod 60) @ ''s''
     else itoa (n div 3600) @ ''h'' @ itoa (n mod 3600 div 60) @ ''m'' @ itoa (n mod 60) @ ''s'')"

definition alert_text :: "alert \<Rightarrow> string \<times> string" where
  "alert_text a = (case a of
      Recovered label \<Rightarrow> (utf8 [240, 159, 159, 162, 32] @ label @ utf8 [32, 235, 179, 181, 234, 181, 172], utf8 [236, 151, 144, 236, 157, 180, 236, 160, 132, 237, 138, 184, 234, 176, 128, 32, 235, 139, 164, 236, 139, 156, 32, 236, 152, 168, 235, 157, 188, 236, 157, 184, 236, 158, 133, 235, 139, 136, 235, 139, 164, 46])
    | Offline label secs \<Rightarrow> (utf8 [240, 159, 148, 180, 32] @ label @ utf8 [32, 236, 152, 164, 237, 148, 132, 235, 157, 188, 236, 157, 184], utf8 [236, 151, 144, 236, 157, 180, 236, 160, 132, 237, 138, 184, 32, 236, 157, 145, 235, 139, 181, 32, 236, 151, 134, 236, 157, 140, 32, 40] @ show_seconds secs @ '').''))"

definition offlineGrace :: int where "offlineGrace = 30000"

text \<open>One session of a tick: the ids already reported as down, and the alerts so far.\<close>

definition monitor_one ::
    "int \<Rightarrow> string list \<times> (string \<times> alert) list \<Rightarrow> agent_session \<Rightarrow> string list \<times> (string \<times> alert) list" where
  "monitor_one now st s = (case st of (down, out) \<Rightarrow>
     if as_connected_at s = 0 then (down, out)
     else let label = (if as_name s = [] then as_id s else as_name s)
          in if online s then
               (if as_id s \<in> set down then (removeAll (as_id s) down, out @ [(as_id s, Recovered label)]) else (down, out))
             else if as_last_publish s = 0 \<or> as_id s \<in> set down then (down, out)
             else let off = now - as_last_publish s
                  in if off \<ge> offlineGrace
                     then (as_id s # down, out @ [(as_id s, Offline label ((off + 500) div 1000))])
                     else (down, out))"

definition monitor_tick :: "int \<Rightarrow> hub \<Rightarrow> string list \<Rightarrow> string list \<times> (string \<times> alert) list" where
  "monitor_tick now h down =
     (if \<not> alert_active (getAlertConfig h) then (down, [])
      else foldl (monitor_one now) (down, []) (allSessions h))"

text \<open>The ticks up to the hub's end, with the alerts raised.\<close>

fun alertMonitor :: "string list \<Rightarrow> (int \<times> hub) list \<Rightarrow> (string \<times> alert) list" where
  "alertMonitor down [] = []"
| "alertMonitor down ((now, h) # ticks) =
     (if hb_done h then []
      else case monitor_tick now h down of (down', out) \<Rightarrow> out @ alertMonitor down' ticks)"

definition alert_deliveries :: "url_parse \<Rightarrow> alert_config \<Rightarrow> alert \<Rightarrow> delivery list" where
  "alert_deliveries parse c a = (case alert_text a of (title, body) \<Rightarrow> sendAlert parse c title body)"

section \<open>The contract of one agent\<close>

text \<open>What one agent's operator is told: an automaton that sees only this agent.\<close>

definition outage_step :: "int \<Rightarrow> agent_session \<Rightarrow> bool \<Rightarrow> bool \<times> alert list" where
  "outage_step now s down =
     (let label = (if as_name s = [] then as_id s else as_name s); off = now - as_last_publish s
      in if as_connected_at s = 0 then (down, [])
         else if online s then (False, if down then [Recovered label] else [])
         else if \<not> down \<and> as_last_publish s \<noteq> 0 \<and> off \<ge> 30000 then (True, [Offline label ((off + 500) div 1000)])
         else (down, []))"

fun outage_alerts :: "string \<Rightarrow> bool \<Rightarrow> (int \<times> hub) list \<Rightarrow> alert list" where
  "outage_alerts x down [] = []"
| "outage_alerts x down ((now, h) # ticks) =
     (if hb_done h then []
      else case sessionByID x h of
        Some s \<Rightarrow> if alert_active (hb_alert h)
                 then (case outage_step now s down of (down', out) \<Rightarrow> out @ outage_alerts x down' ticks)
                 else outage_alerts x down ticks
      | None \<Rightarrow> outage_alerts x down ticks)"

fun alternating :: "bool \<Rightarrow> alert list \<Rightarrow> bool" where
  "alternating down [] = True"
| "alternating down (Offline l n # as) = (\<not> down \<and> alternating True as)"
| "alternating down (Recovered l # as) = (down \<and> alternating False as)"

definition alerts_of :: "string \<Rightarrow> (string \<times> alert) list \<Rightarrow> alert list" where
  "alerts_of x log = map snd (filter (\<lambda>(i, a). i = x) log)"

section \<open>Lemmas\<close>

lemma alerts_of_simps [simp]:
  "alerts_of x [] = []" "alerts_of x (xs @ ys) = alerts_of x xs @ alerts_of x ys"
  "alerts_of x [(i, a)] = (if i = x then [a] else [])"
  by (simp_all add: alerts_of_def)

lemma monitor_other:
  assumes "as_id s \<noteq> x"
  shows "(x \<in> set (fst (monitor_one now st s))) = (x \<in> set (fst st))"
    "alerts_of x (snd (monitor_one now st s)) = alerts_of x (snd st)"
  using assms by (simp_all add: monitor_one_def Let_def split: prod.split)

lemma monitor_same:
  assumes "as_id s = x" "outage_step now s (x \<in> set (fst st)) = (d, as)"
  shows "(x \<in> set (fst (monitor_one now st s))) = d"
    "alerts_of x (snd (monitor_one now st s)) = alerts_of x (snd st) @ as"
  using assms by (auto simp: monitor_one_def outage_step_def offlineGrace_def Let_def split: prod.split if_splits)

lemma monitor_others:
  assumes "\<forall>s\<in>set ss. as_id s \<noteq> x"
  shows "(x \<in> set (fst (foldl (monitor_one now) st ss))) = (x \<in> set (fst st))"
    "alerts_of x (snd (foldl (monitor_one now) st ss)) = alerts_of x (snd st)"
  using assms by (induction ss arbitrary: st) (simp_all add: monitor_other)

lemma other_ids: "\<forall>(k, s)\<in>set xs. as_id s = k \<Longrightarrow> x \<notin> fst ` set xs \<Longrightarrow> \<forall>s\<in>set (map snd xs). as_id s \<noteq> x"
  by (induction xs) auto

lemma monitor_all:
  assumes "distinct (map fst xs)" "\<forall>(k, s)\<in>set xs. as_id s = k"
    and "case map_of xs x of Some s \<Rightarrow> outage_step now s (x \<in> set (fst st)) = (d, as)
         | None \<Rightarrow> d = (x \<in> set (fst st)) \<and> as = []"
  shows "(x \<in> set (fst (foldl (monitor_one now) st (map snd xs)))) = d
     \<and> alerts_of x (snd (foldl (monitor_one now) st (map snd xs))) = alerts_of x (snd st) @ as"
proof (cases "map_of xs x")
  case None
  then have "x \<notin> fst ` set xs" by (simp add: map_of_eq_None_iff)
  with assms(2) have "\<forall>s\<in>set (map snd xs). as_id s \<noteq> x" by (rule other_ids)
  from monitor_others [OF this] None assms(3) show ?thesis by simp
next
  case (Some s)
  then have "(x, s) \<in> set xs" by (rule map_of_SomeD)
  then obtain ys zs where xs: "xs = ys @ (x, s) # zs" by (meson split_list)
  with assms(1) have "x \<notin> fst ` set ys" "x \<notin> fst ` set zs" by auto
  moreover have "\<forall>(k, s)\<in>set ys. as_id s = k" "\<forall>(k, s)\<in>set zs. as_id s = k" using assms(2) xs by simp_all
  ultimately have o: "\<forall>s\<in>set (map snd ys). as_id s \<noteq> x" "\<forall>s\<in>set (map snd zs). as_id s \<noteq> x"
    using other_ids by blast+
  let ?st = "foldl (monitor_one now) st (map snd ys)"
  have "as_id s = x" using assms(2) xs by simp
  moreover have "outage_step now s (x \<in> set (fst ?st)) = (d, as)"
    using Some assms(3) monitor_others(1) [OF o(1)] by simp
  ultimately have "(x \<in> set (fst (monitor_one now ?st s))) = d"
    "alerts_of x (snd (monitor_one now ?st s)) = alerts_of x (snd ?st) @ as"
    by (rule monitor_same)+
  then show ?thesis using monitor_others [OF o(1)] monitor_others [OF o(2)] xs by simp
qed

lemma tick_outage:
  assumes "hub_ok h" "alert_active (hb_alert h)"
    and "case sessionByID x h of Some s \<Rightarrow> outage_step now s (x \<in> set down) = (d, as)
         | None \<Rightarrow> d = (x \<in> set down) \<and> as = []"
  shows "(x \<in> set (fst (monitor_tick now h down))) = d" "alerts_of x (snd (monitor_tick now h down)) = as"
proof -
  have d: "distinct (map fst (hb_sessions h))" using assms(1) by (simp add: hub_ok_def)
  have "as_id s = k" if "(k, s) \<in> set (hb_sessions h)" for k s
    using assms(1) map_of_is_SomeI [OF d that] by (simp add: hub_ok_def sess_wf_def sessionByID_def)
  then have i: "\<forall>(k, s)\<in>set (hb_sessions h). as_id s = k" by blast
  have "case map_of (hb_sessions h) x of Some s \<Rightarrow> outage_step now s (x \<in> set (fst (down, []))) = (d, as)
         | None \<Rightarrow> d = (x \<in> set (fst (down, []))) \<and> as = []"
    using assms(3) unfolding sessionByID_def fst_conv .
  from monitor_all [OF d i this] assms(2)
  show "(x \<in> set (fst (monitor_tick now h down))) = d" "alerts_of x (snd (monitor_tick now h down)) = as"
    by (simp_all add: monitor_tick_def getAlertConfig_def allSessions_def)
qed

lemma monitor_refines:
  assumes "\<forall>(now, h)\<in>set ticks. hub_ok h"
  shows "alerts_of x (alertMonitor down ticks) = outage_alerts x (x \<in> set down) ticks"
  using assms
proof (induction ticks arbitrary: down)
  case (Cons t ticks)
  obtain now h where t: "t = (now, h)" by (cases t)
  have ok: "hub_ok h" using Cons.prems t by simp
  obtain down' out where m: "monitor_tick now h down = (down', out)" by fastforce
  show ?case
  proof (cases "alert_active (hb_alert h)")
    case False
    with t Cons m show ?thesis by (auto simp: monitor_tick_def getAlertConfig_def split: option.split)
  next
    case active: True
    show ?thesis
    proof (cases "sessionByID x h")
      case None
      from tick_outage [OF ok active, where x = x and now = now and down = down and d = "x \<in> set down" and as = "[]"] None m t active Cons show ?thesis by simp
    next
      case (Some s)
      obtain d as where o: "outage_step now s (x \<in> set down) = (d, as)" by fastforce
      from tick_outage [OF ok active, where x = x and now = now and down = down and d = d and as = as] Some o m t active Cons show ?thesis by simp
    qed
  qed
qed simp

lemma outage_alternating: "alternating down (outage_alerts x down ticks)"
proof (induction ticks arbitrary: down)
  case (Cons t ticks)
  then show ?case
    by (cases t) (auto simp: outage_step_def Let_def split: option.split)
qed simp

section \<open>Properties\<close>

text \<open>C22. Over any run of the monitor, the alerts about an agent are exactly those of an automaton that sees
  only this agent: after it has connected once, an alert when it is found offline 30 seconds or
  more after its last message, and one when it is found online again. They alternate, beginning
  with an outage, so that each transition is reported once; the other agents make no difference.\<close>

theorem alerts_follow_outages:
  assumes "\<forall>(now, h)\<in>set ticks. hub_reachable rl h"
  shows "alerts_of x (alertMonitor [] ticks) = outage_alerts x False ticks
     \<and> alternating False (alerts_of x (alertMonitor [] ticks))"
proof -
  have "\<forall>(now, h)\<in>set ticks. hub_ok h" using assms reachable_ok by blast
  from monitor_refines [OF this, of x "[]"] outage_alternating [of False x ticks] show ?thesis by simp
qed

text \<open>The agent \<open>a\<close> connects, sends one message, goes away, and is online again at the last tick.\<close>

definition toy_alarm :: relay where
  "toy_alarm = toy_relay\<lparr>rl_getenv := \<lambda>_. ''1''\<rparr>"

definition toy_up :: hub where
  "toy_up = the (publish_message toy_alarm 2000 ''a'' True (MarshalMessage MsgReady [])
     (fst (HandlePublish toy_alarm 1000 1 (hello_msg 1) (auth_msg 1) (NewHub toy_alarm toy_registry toy_db no_walls None))))"

definition toy_down :: hub where
  "toy_down = publish_close 1 ''a'' toy_up"

lemma toy_alarm_codec [simp]: "rl_codec toy_alarm = rl_codec toy_relay"
  by (simp add: toy_alarm_def)

lemma toy_up_down:
  shows "hub_reachable toy_alarm toy_up" "hub_reachable toy_alarm toy_down" "\<not> hb_done toy_up" "\<not> hb_done toy_down"
    "alert_active (hb_alert toy_up)" "alert_active (hb_alert toy_down)"
    "\<exists>s. sessionByID ''a'' toy_up = Some s \<and> online s \<and> as_name s = ''A'' \<and> as_connected_at s = 1000"
    "\<exists>s. sessionByID ''a'' toy_down = Some s \<and> \<not> online s \<and> as_name s = ''A'' \<and> as_connected_at s = 1000
       \<and> as_last_publish s = 2000"
proof -
  let ?h0 = "NewHub toy_alarm toy_registry toy_db no_walls None"
  let ?h1 = "fst (HandlePublish toy_alarm 1000 1 (hello_msg 1) (auth_msg 1) ?h0)"
  let ?c = "getOrCreateSession ''a'' ''A'' ?h0"
  have s0: "sessionByID x ?h0 = (if x = ''default'' then Some (newAgentSession ''default'' ''default'') else None)"
    "hb_registry ?h0 = toy_registry" "\<not> hb_done ?h0" for x
    by (simp_all add: NewHub_def sessionByID_def Let_def split: prod.split)
  have a0: "alert_active (hb_alert ?h0)"
    by (simp add: NewHub_def loadAlertConfig_def alert_value_def toy_alarm_def toy_relay_def alert_active_def
        hasChannel_def Let_def split: prod.split)
  have f: "\<not> hb_done ?c" "hb_alert ?c = hb_alert ?h0"
    using s0(3) by (simp_all add: getOrCreateSession_def put_session_def split: option.split)
  have "hub_ok ?c" by (intro hub_ok_create NewHub_ok)
  then have "sessionByPIN ''9'' ?c = None"
    using sessionByPIN_iff [of ?c "''9''"]
    by (auto simp: create_lookup s0 has_pin_def newAgentSession_def simp flip: not_Some_eq split: if_splits)
  then have h1: "?h1 = (put_session ''a'' ((newAgentSession ''a'' ''A'')\<lparr>as_publisher := Some 1, as_pin := ''9'',
        as_connected_at := 1000, as_client_ver := []\<rparr>) ?c)\<lparr>hb_net := ws_write 1 (MarshalMessage MsgReady []) (hb_net ?c)\<rparr>"
    by (simp add: HandlePublish_def publish_enter_def authenticatePublisher_def validPublisherToken_def publish_claim_def
        Let_def s0 create_lookup) (simp add: newAgentSession_def put_session_def)
  let ?s = "(newAgentSession ''a'' ''A'')\<lparr>as_publisher := Some 1, as_pin := ''9'', as_connected_at := 1000, as_client_ver := []\<rparr>"
  have l1: "sessionByID ''a'' ?h1 = Some ?s" unfolding h1 by (simp add: sessionByID_def put_session_def)
  have t: "MsgReady \<notin> {MsgSurvConfig, MsgSurvEvent, MsgSurvEventThumb, MsgSurvSnapshot, MsgFrameDelta}"
    by (simp add: MsgReady_def MsgSurvConfig_def MsgSurvEvent_def MsgSurvEventThumb_def MsgSurvSnapshot_def MsgFrameDelta_def)
  let ?s2 = "(count_message 2000 (MarshalMessage MsgReady []) ?s)\<lparr>as_broadcast := [MarshalMessage MsgReady []]\<rparr>"
  have m: "session_message toy_alarm w 2000 MsgReady (MarshalMessage MsgReady []) ?s = Some ?s2" for w
    using t by (simp add: session_message_def Let_def bc_send_def count_message_def newAgentSession_def broadcast_cap_def)
  have p: "publish_message toy_alarm 2000 ''a'' True (MarshalMessage MsgReady []) ?h1 = Some (put_session ''a'' ?s2 ?h1)"
    unfolding publish_message_def l1 using t m by (simp add: mk_header_def)
  then have up: "toy_up = put_session ''a'' ?s2 ?h1" by (simp add: toy_up_def)
  have "hub_reachable toy_alarm ?h1" by (rule hub_reachable.step [OF hub_reachable.start hub_step.publish])
  from hub_reachable.step [OF this hub_step.message [OF p]] show u: "hub_reachable toy_alarm toy_up" unfolding up .
  show "hub_reachable toy_alarm toy_down"
    unfolding toy_down_def by (rule hub_reachable.step [OF u hub_step.gone])
  have h: "hb_done toy_up = hb_done ?c" "hb_alert toy_up = hb_alert ?c" "sessionByID ''a'' toy_up = Some ?s2"
    unfolding up h1 by (simp_all add: put_session_def sessionByID_def)
  then show "\<not> hb_done toy_up" "alert_active (hb_alert toy_up)" using f a0 by simp_all
  show "\<exists>s. sessionByID ''a'' toy_up = Some s \<and> online s \<and> as_name s = ''A'' \<and> as_connected_at s = 1000"
    using h(3) by (simp add: online_def count_message_def newAgentSession_def)
  have d: "hb_done toy_down = hb_done toy_up" "hb_alert toy_down = hb_alert toy_up"
      "sessionByID ''a'' toy_down = Some (?s2\<lparr>as_publisher := None, as_pin := []\<rparr>)"
    using h(3) by (simp_all add: toy_down_def publish_close_def hub_close_def on_session_def put_session_def sessionByID_def
        count_message_def newAgentSession_def Let_def)
  with \<open>\<not> hb_done toy_up\<close> \<open>alert_active (hb_alert toy_up)\<close>
  show "\<not> hb_done toy_down" "alert_active (hb_alert toy_down)" by simp_all
  show "\<exists>s. sessionByID ''a'' toy_down = Some s \<and> \<not> online s \<and> as_name s = ''A'' \<and> as_connected_at s = 1000
       \<and> as_last_publish s = 2000"
    using d(3) by (simp add: online_def count_message_def newAgentSession_def)
qed

theorem alerts_follow_outages_witness:
  "alerts_of ''a'' (alertMonitor [] [(20000, toy_up), (60000, toy_down), (80000, toy_down), (100000, toy_up)])
     = [Offline ''A'' 58, Recovered ''A'']"
proof -
  let ?ticks = "[(20000, toy_up), (60000, toy_down), (80000, toy_down), (100000, toy_up)]"
  obtain s1 where s1: "sessionByID ''a'' toy_up = Some s1" "online s1" "as_name s1 = ''A''" "as_connected_at s1 = 1000"
    using toy_up_down(7) by blast
  obtain s2 where s2: "sessionByID ''a'' toy_down = Some s2" "\<not> online s2" "as_name s2 = ''A''" "as_connected_at s2 = 1000"
      "as_last_publish s2 = 2000"
    using toy_up_down(8) by blast
  have "outage_alerts ''a'' False ?ticks = [Offline ''A'' 58, Recovered ''A'']"
    using s1 s2 toy_up_down(3-6) by (simp add: outage_step_def Let_def)
  with alerts_follow_outages [of ?ticks toy_alarm "''a''"] toy_up_down(1,2) show ?thesis by simp
qed

text \<open>The 30 seconds count from the agent's last message, not from its disconnection: an agent that sent
  nothing for as long is reported at the first tick after it goes. One that never sent a message
  after its handshake is never reported.\<close>

lemma outage_without_grace:
  assumes "as_connected_at s \<noteq> 0" "\<not> online s" "as_last_publish s \<noteq> 0" "now - as_last_publish s \<ge> 30000"
  shows "fst (outage_step now s False)"
  using assms by (simp add: outage_step_def Let_def)

lemma silent_agent_never_reported: "as_last_publish s = 0 \<Longrightarrow> snd (outage_step now s False) = []"
  by (simp add: outage_step_def Let_def)

text \<open>The guard on webhooks looks at literal addresses only.\<close>

lemma webhook_localhost:
  assumes "parse (TrimSpace u) = Some (''http'', ''localhost'')"
  shows "webhookURLAllowed parse u"
proof -
  have "\<not> isBlockedRTSPHost ''localhost''" by code_simp
  with assms show ?thesis by (simp add: webhookURLAllowed_def)
qed

end
