(* ===== verification/Dash_Session.thy ===== *)
theory Dash_Session
  imports Go_Net
begin

unbundle bit_operations_syntax

text \<open>
  \<^verbatim>\<open>relay/dashboard_session.go\<close>: the signed session cookie of the dashboard, with the functions of
  the standard library it calls: SHA-256 and HMAC (\<open>crypto/sha256\<close>, \<open>crypto/hmac\<close>), the unpadded
  URL alphabet of \<open>encoding/base64\<close> (whose decoder skips line breaks and ignores the surplus bits of
  the last character) and \<open>encoding/hex\<close>. A time is its Unix second.
\<close>

section \<open>SHA-256 and HMAC\<close>

text \<open>The constants are the leading 32 bits of the fractional parts of the square and the cube roots of
  the first primes: \<open>root_bits\<close> finds an integer root bit by bit.\<close>

fun root_bits :: "nat \<Rightarrow> nat \<Rightarrow> nat \<Rightarrow> nat \<Rightarrow> nat" where
  "root_bits k n 0 r = r"
| "root_bits k n (Suc i) r = root_bits k n i (if (r + 2 ^ i) ^ k \<le> n then r + 2 ^ i else r)"

definition root_fraction :: "nat \<Rightarrow> nat \<Rightarrow> 32 word" where
  "root_fraction k p = word_of_nat (root_bits k (p * 2 ^ (32 * k)) 36 0)"

definition small_primes :: "nat list" where
  "small_primes = filter (\<lambda>n. list_all (\<lambda>d. n mod d \<noteq> 0) [2..<n]) [2..<312]"

definition sha_init :: "32 word list" where
  "sha_init = map (root_fraction 2) (take 8 small_primes)"

definition sha_consts :: "32 word list" where
  "sha_consts = map (root_fraction 3) small_primes"

definition xor_rotr :: "nat \<Rightarrow> nat \<Rightarrow> 32 word \<Rightarrow> 32 word \<Rightarrow> 32 word" where
  "xor_rotr i j w v = word_rotr i w XOR word_rotr j w XOR v"

fun sha_schedule :: "nat \<Rightarrow> 32 word list \<Rightarrow> 32 word list" where
  "sha_schedule 0 ws = ws"
| "sha_schedule (Suc n) ws =
     (let t = length ws; a = ws ! (t - 15); b = ws ! (t - 2)
      in sha_schedule n (ws @ [ws ! (t - 16) + xor_rotr 7 18 a (drop_bit 3 a) + ws ! (t - 7)
                               + xor_rotr 17 19 b (drop_bit 10 b)]))"

fun sha_round :: "32 word list \<Rightarrow> 32 word \<times> 32 word \<Rightarrow> 32 word list" where
  "sha_round [a, b, c, d, e, f, g, h] (k, w) =
     (let t1 = h + xor_rotr 6 11 e (word_rotr 25 e) + ((e AND f) XOR (NOT e AND g)) + k + w;
          t2 = xor_rotr 2 13 a (word_rotr 22 a) + ((a AND b) XOR (a AND c) XOR (b AND c))
      in [t1 + t2, a, b, c, d + t1, e, f, g])"
| "sha_round v kw = v"

fun be_words :: "bytes \<Rightarrow> 32 word list" where
  "be_words (a # b # c # d # r) = word_of_nat (get_be [a, b, c, d]) # be_words r"
| "be_words r = []"

definition sha_block :: "32 word list \<Rightarrow> bytes \<Rightarrow> 32 word list" where
  "sha_block hs blk = map2 (+) hs (foldl sha_round hs (zip sha_consts (sha_schedule 48 (be_words blk))))"

fun blocks :: "nat \<Rightarrow> bytes \<Rightarrow> bytes list" where
  "blocks 0 bs = []"
| "blocks (Suc n) bs = take 64 bs # blocks n (drop 64 bs)"

definition sha_pad :: "bytes \<Rightarrow> bytes" where
  "sha_pad m = m @ [0x80] @ replicate ((119 - length m mod 64) mod 64) 0 @ put_be 8 (8 * length m)"

definition sha256 :: "bytes \<Rightarrow> bytes" where
  "sha256 m = (let p = sha_pad m
     in concat (map (\<lambda>w. put_be 4 (unat w)) (foldl sha_block sha_init (blocks (length p div 64) p))))"

text \<open>The keys used here are digests, shorter than a block.\<close>

definition hmac_sha256 :: "bytes \<Rightarrow> bytes \<Rightarrow> bytes" where
  "hmac_sha256 key m =
     (let k = (if length key > 64 then sha256 key else key); k0 = k @ replicate (64 - length k) 0
      in sha256 (map (\<lambda>b. b XOR 0x5c) k0 @ sha256 (map (\<lambda>b. b XOR 0x36) k0 @ m)))"

section \<open>Text encodings\<close>

definition str_bytes :: "string \<Rightarrow> bytes" where
  "str_bytes s = map (\<lambda>c. word_of_nat (char_val c)) s"

definition hex_char :: "nat \<Rightarrow> char" where
  "hex_char k = char_of (if k < 10 then 48 + k else 87 + k)"

definition hex_encode :: "bytes \<Rightarrow> string" where
  "hex_encode bs = concat (map (\<lambda>b. [hex_char (unat b div 16), hex_char (unat b mod 16)]) bs)"

definition b64_char :: "nat \<Rightarrow> char" where
  "b64_char k = char_of (if k < 26 then 65 + k else if k < 52 then 71 + k else if k < 62 then k - 4
     else if k = 62 then 45 else 95)"

definition b64_val :: "char \<Rightarrow> nat option" where
  "b64_val c = (let v = char_val c in
     if 65 \<le> v \<and> v \<le> 90 then Some (v - 65) else if 97 \<le> v \<and> v \<le> 122 then Some (v - 71)
     else if 48 \<le> v \<and> v \<le> 57 then Some (v + 4) else if v = 45 then Some 62 else if v = 95 then Some 63 else None)"

fun b64_groups :: "nat list \<Rightarrow> nat list" where
  "b64_groups (a # b # c # r) = [a div 4, (a mod 4) * 16 + b div 16, (b mod 16) * 4 + c div 64, c mod 64] @ b64_groups r"
| "b64_groups [a, b] = [a div 4, (a mod 4) * 16 + b div 16, (b mod 16) * 4]"
| "b64_groups [a] = [a div 4, (a mod 4) * 16]"
| "b64_groups [] = []"

fun b64_bytes :: "nat list \<Rightarrow> nat list option" where
  "b64_bytes (a # b # c # d # r) =
     map_option (\<lambda>x. [a * 4 + b div 16, (b mod 16) * 16 + c div 4, (c mod 4) * 64 + d] @ x) (b64_bytes r)"
| "b64_bytes [a, b, c] = Some [a * 4 + b div 16, (b mod 16) * 16 + c div 4]"
| "b64_bytes [a, b] = Some [a * 4 + b div 16]"
| "b64_bytes [a] = None"
| "b64_bytes [] = Some []"

definition b64_encode :: "string \<Rightarrow> string" where
  "b64_encode s = map b64_char (b64_groups (map char_val s))"

definition b64_decode :: "string \<Rightarrow> string option" where
  "b64_decode s =
     (let cs = filter (\<lambda>c. char_val c \<noteq> 10 \<and> char_val c \<noteq> 13) s
      in if list_all (\<lambda>c. b64_val c \<noteq> None) cs
         then map_option (map char_of) (b64_bytes (map (the \<circ> b64_val) cs)) else None)"

section \<open>Session cookies\<close>

definition dashboardSessionTTL :: int where "dashboardSessionTTL = 12 * 3600"

definition dashboardKey :: "string \<Rightarrow> bytes" where
  "dashboardKey token = sha256 (str_bytes token)"

definition session_mac :: "string \<Rightarrow> string \<Rightarrow> string" where
  "session_mac token payload = hex_encode (hmac_sha256 (dashboardKey token) (str_bytes payload))"

definition signSession :: "string \<Rightarrow> int \<Rightarrow> string" where
  "signSession token exp = (let payload = b64_encode (itoa exp) in payload @ ''.'' @ session_mac token payload)"

definition verifySession :: "string \<Rightarrow> string \<Rightarrow> int \<Rightarrow> bool" where
  "verifySession token cookie now =
     (case cut_at CHR ''.'' cookie of
        None \<Rightarrow> False
      | Some (payload, mac) \<Rightarrow>
          if session_mac token payload \<noteq> mac then False
          else case b64_decode payload of
            None \<Rightarrow> False
          | Some raw \<Rightarrow> (case atoi raw of None \<Rightarrow> False | Some exp \<Rightarrow> now < exp))"

section \<open>Lemmas\<close>

lemma b64_val_char [simp]: "k < 64 \<Longrightarrow> b64_val (b64_char k) = Some k"
  by (simp add: b64_val_def b64_char_def char_val_def Let_def) arith

lemma char_val_b64 [simp]: "k < 64 \<Longrightarrow> char_val (b64_char k) \<notin> {10, 13, 46}"
  by (simp add: b64_char_def char_val_def) arith

lemma byte_parts:
  fixes x :: nat
  assumes "x < 256"
  shows "x div 4 < 64" "x div 16 < 16" "x div 64 < 4"
  using assms by (auto intro!: less_mult_imp_div_less)

lemma six_bits:
  fixes a b c :: nat
  assumes "b < 256"
  shows "(a mod 4) * 16 + b div 16 < 64" "(a mod 16) * 4 + b div 64 < 64"
proof -
  have "a mod 4 < 4" "a mod 16 < 16" by simp_all
  with byte_parts [OF assms] show "(a mod 4) * 16 + b div 16 < 64" "(a mod 16) * 4 + b div 64 < 64" by linarith+
qed

lemma b64_groups_bound: "\<forall>x\<in>set xs. x < 256 \<Longrightarrow> \<forall>y\<in>set (b64_groups xs). y < 64"
  by (induction xs rule: b64_groups.induct) (use six_bits [of 0] in \<open>auto simp: byte_parts six_bits\<close>)

lemma b64_bytes_groups: "\<forall>x\<in>set xs. x < 256 \<Longrightarrow> b64_bytes (b64_groups xs) = Some xs"
  by (induction xs rule: b64_groups.induct) (simp_all add: byte_parts div_mult_mod_eq)

lemma char_val_less: "char_val c < 256"
  by (simp add: char_val_def)

lemma b64_round_trip [simp]: "b64_decode (b64_encode s) = Some s"
proof -
  let ?g = "b64_groups (map char_val s)"
  have b: "\<forall>x\<in>set (map char_val s). x < 256" by (simp add: char_val_less)
  have g: "\<forall>y\<in>set ?g. y < 64" by (rule b64_groups_bound [OF b])
  have "filter (\<lambda>c. char_val c \<noteq> 10 \<and> char_val c \<noteq> 13) (b64_encode s) = b64_encode s"
    unfolding b64_encode_def filter_id_conv using g char_val_b64 by auto
  moreover have "list_all (\<lambda>c. b64_val c \<noteq> None) (b64_encode s)"
    using g by (auto simp: b64_encode_def list_all_iff)
  moreover have "map (the \<circ> b64_val) (b64_encode s) = ?g"
    using g by (auto simp: b64_encode_def intro: map_idI)
  moreover have "map char_of (map char_val s) = s"
    by (simp add: char_val_def map_idI)
  ultimately show ?thesis using b64_bytes_groups [OF b] by (simp add: b64_decode_def Let_def)
qed

lemma dot_notin_b64: "CHR ''.'' \<notin> set (b64_encode s)"
proof
  assume "CHR ''.'' \<in> set (b64_encode s)"
  then obtain k where k: "k \<in> set (b64_groups (map char_val s))" "CHR ''.'' = b64_char k" by (auto simp: b64_encode_def)
  have "\<forall>x\<in>set (map char_val s). x < 256" by (simp add: char_val_less)
  from b64_groups_bound [OF this] k(1) have "k < 64" by blast
  then have "char_val (b64_char k) \<noteq> 46" using char_val_b64 by blast
  with k(2) show False by (simp add: char_val_def flip: k(2))
qed

lemma verify_form:
  assumes "verifySession token cookie now"
  shows "\<exists>payload raw exp. cookie = payload @ ''.'' @ session_mac token payload
     \<and> b64_decode payload = Some raw \<and> atoi raw = Some exp \<and> now < exp"
proof (cases "cut_at CHR ''.'' cookie")
  case (Some x)
  obtain payload mac where x: "x = (payload, mac)" by (cases x)
  from assms Some x have mac: "mac = session_mac token payload" by (auto simp: verifySession_def split: if_splits)
  from cut_at_Some [OF Some [unfolded x]] have "cookie = payload @ ''.'' @ mac" by simp
  moreover obtain raw exp where "b64_decode payload = Some raw" "atoi raw = Some exp" "now < exp"
    using assms Some x mac by (auto simp: verifySession_def split: option.splits)
  ultimately show ?thesis using mac by blast
next
  case None
  from assms show ?thesis unfolding verifySession_def None by simp
qed

text \<open>C21. A session cookie is exact. A cookie issued under one password is accepted under another, or the
  same, exactly until it expires and only if the two passwords give the same MAC on its expiry, so
  the issuer's password accepts its own cookies until they expire; and whatever a password accepts
  is an encoded expiry in the future followed by that password's MAC of it.\<close>

theorem session_cookie_exact:
  assumes "min_int64 \<le> exp" "exp \<le> max_int64"
  shows "verifySession token' (signSession token exp) now
       = (now < exp \<and> session_mac token' (b64_encode (itoa exp)) = session_mac token (b64_encode (itoa exp)))
     \<and> (verifySession token' cookie now \<longrightarrow> (\<exists>payload raw exp'. cookie = payload @ ''.'' @ session_mac token' payload
          \<and> b64_decode payload = Some raw \<and> atoi raw = Some exp' \<and> now < exp'))"
proof
  show "verifySession token' (signSession token exp) now
       = (now < exp \<and> session_mac token' (b64_encode (itoa exp)) = session_mac token (b64_encode (itoa exp)))"
    using atoi_itoa [OF assms] by (auto simp: verifySession_def signSession_def Let_def dot_notin_b64)
qed (use verify_form in blast)

theorem session_cookie_exact_witness:
  "verifySession ''secret'' (signSession ''secret'' 1000) 999 \<and> \<not> verifySession ''secret'' (signSession ''secret'' 1000) 1000"
  using session_cookie_exact [of 1000 "''secret''" "''secret''" 999]
    session_cookie_exact [of 1000 "''secret''" "''secret''" 1000]
  by (simp add: min_int64_def max_int64_def)

end
