(* ===== verification/Dashboard.thy ===== *)
theory Dashboard
  imports Surv_Router Alerts Dash_Session
begin

text \<open>
  \<^verbatim>\<open>relay/dashboard.go\<close> and \<^verbatim>\<open>relay/dashboard_state.go\<close>: the operator's login, the gated handlers and
  the state they report. A request carries its method, its session cookie, the peer's address, the
  time in Unix seconds and the limiter's two readings of its clock; decoded bodies are options
  (\<open>None\<close> is a body that does not decode) and query values strings. The encoders of two message
  payloads are parameters (\<open>dash_codec\<close>). Timestamps are left as numbers, \<open>None\<close> for an absent one.
  The static pages are not modelled.
\<close>

section \<open>State\<close>

record stream_state =
  sv_id :: string
  sv_name :: string
  sv_active :: bool
  sv_codec :: string
  sv_ws_watchers :: nat
  sv_path :: string

record channel_meta =
  cm_dvr_id :: int
  cm_ch_num :: int
  cm_name :: string
  cm_order :: int
  cm_enabled :: bool
  cm_active :: bool
  cm_height :: int
  cm_record_hires :: bool

record agent_state =
  ag_id :: string
  ag_name :: string
  ag_version :: string
  ag_connected :: bool
  ag_since :: "int option"
  ag_last_publish :: "int option"
  ag_pin_set :: bool
  ag_bytes_in :: int
  ag_bytes_out :: int
  ag_publish_count :: int
  ag_watchers :: "(watcher_info \<times> string) list"
  ag_streams :: "stream_state list"
  ag_dvrs :: "(int \<times> string \<times> nat) list"
  ag_channels :: "channel_meta list"

record relay_info =
  ri_agents_online :: nat
  ri_agents_total :: nat
  ri_watchers_total :: nat
  ri_streams_total :: nat
  ri_bytes_in :: int
  ri_bytes_out :: int

record dashboard_state =
  ds_relay :: relay_info
  ds_agents :: "agent_state list"
  ds_hidden :: "(string \<times> string) list"

definition streamIDFor :: "int \<Rightarrow> int \<Rightarrow> string" where
  "streamIDFor dvrID chNum = ''dvr'' @ itoa dvrID @ ''_ch'' @ itoa chNum"

text \<open>The comparison of \<open>orderStreams\<close>: configured channels first, then by DVR, display order, channel
  number and id; a stream without a channel has the zero key.\<close>

definition order_key :: "channel_info list \<Rightarrow> stream_state \<Rightarrow> bool \<times> int \<times> int \<times> int \<times> string" where
  "order_key chans s =
     (case map_of (rev (map (\<lambda>c. (streamIDFor (ch_dvr_id c) (ch_num c), c)) chans)) (sv_id s) of
        Some c \<Rightarrow> (False, ch_dvr_id c, ch_order c, ch_num c, sv_id s)
      | None \<Rightarrow> (True, 0, 0, 0, sv_id s))"

definition orderStreams :: "channel_info list \<Rightarrow> stream_state list \<Rightarrow> stream_state list" where
  "orderStreams chans streams = sort_key (order_key chans) streams"

definition msToRFC3339 :: "int \<Rightarrow> int option" where
  "msToRFC3339 ms = (if ms \<le> 0 then None else Some ms)"

definition stream_rows :: "agent_session \<Rightarrow> stream_state list" where
  "stream_rows s = map (\<lambda>st. \<lparr>sv_id = ss_id st, sv_name = ss_name st, sv_active = ss_active st, sv_codec = ss_codec st,
       sv_ws_watchers = ss_ws_watchers st, sv_path = streamPath (as_id s) (ss_id st)\<rparr>)
     (filter (\<lambda>st. \<not> isMainStreamID (ss_id st)) (StreamStats (as_proxy s)))"

definition active_set :: "agent_session \<Rightarrow> string list" where
  "active_set s = map ss_id (filter ss_active (StreamStats (as_proxy s)))"

definition session_config :: "json_codec \<Rightarrow> agent_session \<Rightarrow> surv_config option" where
  "session_config codec s = (if length (as_config s) > HeaderSize then js_config codec (drop HeaderSize (as_config s)) else None)"

definition channel_row :: "string list \<Rightarrow> channel_info \<Rightarrow> channel_meta" where
  "channel_row active ch = \<lparr>cm_dvr_id = ch_dvr_id ch, cm_ch_num = ch_num ch, cm_name = ch_name ch, cm_order = ch_order ch,
     cm_enabled = ch_enabled ch, cm_active = (streamIDFor (ch_dvr_id ch) (ch_num ch) \<in> set active),
     cm_height = ch_height ch, cm_record_hires = ch_record_hires ch\<rparr>"

definition agent_row_of :: "relay \<Rightarrow> hub \<Rightarrow> agent_session \<Rightarrow> agent_state" where
  "agent_row_of rl h s =
     (let cfg = session_config (rl_codec rl) s
      in \<lparr>ag_id = as_id s, ag_name = as_name s, ag_version = as_client_ver s, ag_connected = online s,
          ag_since = msToRFC3339 (as_connected_at s), ag_last_publish = msToRFC3339 (as_last_publish s),
          ag_pin_set = (as_pin s \<noteq> []), ag_bytes_in = as_bytes_in s, ag_bytes_out = as_bytes_out s,
          ag_publish_count = as_publish_count s,
          ag_watchers = map (\<lambda>w. (w, getIPLabel (wi_ip w) h)) (watcherList s),
          ag_streams = (case cfg of None \<Rightarrow> stream_rows s | Some c \<Rightarrow> orderStreams (sc_channels c) (stream_rows s)),
          ag_dvrs = (case cfg of None \<Rightarrow> [] | Some c \<Rightarrow> map (\<lambda>d. (dv_id d, dv_name d,
             length (filter (\<lambda>ch. ch_dvr_id ch = dv_id d) (sc_channels c)))) (sc_dvrs c)),
          ag_channels = (case cfg of None \<Rightarrow> [] | Some c \<Rightarrow> map (channel_row (active_set s)) (sc_channels c))\<rparr>)"

definition buildDashboardState :: "relay \<Rightarrow> hub \<Rightarrow> dashboard_state" where
  "buildDashboardState rl h =
     (let shown = map (agent_row_of rl h) (filter (\<lambda>s. \<not> isAgentHidden (as_id s) h) (allSessions h))
      in \<lparr>ds_relay = \<lparr>ri_agents_online = length (filter ag_connected shown), ri_agents_total = length shown,
            ri_watchers_total = sum_list (map (length \<circ> ag_watchers) shown),
            ri_streams_total = sum_list (map (length \<circ> ag_streams) shown),
            ri_bytes_in = sum_list (map ag_bytes_in shown), ri_bytes_out = sum_list (map ag_bytes_out shown)\<rparr>,
          ds_agents = shown,
          ds_hidden = map (\<lambda>s. (as_id s, as_name s)) (filter (\<lambda>s. isAgentHidden (as_id s) h) (allSessions h))\<rparr>)"

section \<open>Login\<close>

record dash_request =
  dr_method :: string
  dr_cookie :: "string option"
  dr_remote :: string
  dr_now :: int
  dr_clock :: instant
  dr_clock2 :: instant

datatype dash_answer =
    Status nat
  | Cookie nat string
  | State dashboard_state
  | Png nat nat canvas
  | Alerts alert_config
  | Sent "delivery list"
  | Agents bool "(agent_entry \<times> bool) list"
  | Wall wall_reply

definition dashboardEnabled :: "relay \<Rightarrow> hub \<Rightarrow> bool" where
  "dashboardEnabled rl h = (effectiveDashToken rl h \<noteq> [])"

definition authedDashboard :: "relay \<Rightarrow> dash_request \<Rightarrow> hub \<Rightarrow> bool" where
  "authedDashboard rl rq h = (case dr_cookie rq of
      None \<Rightarrow> False | Some c \<Rightarrow> verifySession (effectiveDashToken rl h) c (dr_now rq))"

definition issueDashCookie :: "relay \<Rightarrow> dash_request \<Rightarrow> hub \<Rightarrow> string" where
  "issueDashCookie rl rq h = signSession (effectiveDashToken rl h) (dr_now rq + dashboardSessionTTL)"

definition HandleDashboardLogin :: "relay \<Rightarrow> dash_request \<Rightarrow> string option \<Rightarrow> hub \<Rightarrow> hub \<times> dash_answer" where
  "HandleDashboardLogin rl rq body h =
     (if dr_method rq \<noteq> ''POST'' then (h, Status 405)
      else let ip = clientIP (dr_remote rq)
           in if \<not> allowed (hb_limiter h) (dr_clock rq) ip then (h, Status 429)
              else case body of
                None \<Rightarrow> (h, Status 400)
              | Some password \<Rightarrow>
                  if password \<noteq> effectiveDashToken rl h
                  then (h\<lparr>hb_limiter := recordFailure (hb_limiter h) (dr_clock2 rq) ip\<rparr>, Status 401)
                  else (h\<lparr>hb_limiter := recordSuccess (hb_limiter h) ip\<rparr>, Cookie 200 (issueDashCookie rl rq h)))"

definition HandleDashboardLogout :: "hub \<Rightarrow> hub \<times> dash_answer" where
  "HandleDashboardLogout h = (h, Cookie 200 [])"

section \<open>Gated handlers\<close>

text \<open>The two guards that open every handler.\<close>

definition gated :: "relay \<Rightarrow> dash_request \<Rightarrow> hub \<Rightarrow> hub \<times> dash_answer \<Rightarrow> hub \<times> dash_answer" where
  "gated rl rq h act = (if \<not> authedDashboard rl rq h then (h, Status 401) else act)"

definition posted :: "dash_request \<Rightarrow> hub \<Rightarrow> hub \<times> dash_answer \<Rightarrow> hub \<times> dash_answer" where
  "posted rq h act = (if dr_method rq \<noteq> ''POST'' then (h, Status 405) else act)"

definition HandleDashboardPassword :: "relay \<Rightarrow> dash_request \<Rightarrow> string option \<Rightarrow> hub \<Rightarrow> hub \<times> dash_answer" where
  "HandleDashboardPassword rl rq body h = gated rl rq h (posted rq h
     (case body of
        None \<Rightarrow> (h, Status 400)
      | Some pw \<Rightarrow>
          if length pw < 4 then (h, Status 400)
          else case setDashToken rl pw h of
            (h', Some _) \<Rightarrow> (h', Status 409)
          | (h', None) \<Rightarrow> (h', Cookie 204 (issueDashCookie rl rq h'))))"

definition HandleDashboardState :: "relay \<Rightarrow> dash_request \<Rightarrow> hub \<Rightarrow> hub \<times> dash_answer" where
  "HandleDashboardState rl rq h = gated rl rq h (h, State (buildDashboardState rl h))"

record dash_codec =
  dj_meta :: "surv_meta \<Rightarrow> bytes"
  dj_control :: "agent_control \<Rightarrow> bytes"

text \<open>A message to the publisher of the session a body names, 409 when that agent is offline.\<close>

definition to_agent :: "string \<Rightarrow> bytes \<Rightarrow> hub \<Rightarrow> hub \<times> dash_answer" where
  "to_agent agentID msg h = (case surv_session agentID h of
      None \<Rightarrow> (h, Status 409)
    | Some (sid, s) \<Rightarrow>
        if \<not> online s then (h, Status 409)
        else (h\<lparr>hb_net := sendToPublisher msg s (hb_net h)\<rparr>, Status 204))"

definition HandleDashboardChannelMeta ::
    "relay \<Rightarrow> dash_codec \<Rightarrow> dash_request \<Rightarrow> (string \<times> surv_meta) option \<Rightarrow> hub \<Rightarrow> hub \<times> dash_answer" where
  "HandleDashboardChannelMeta rl dj rq body h = gated rl rq h (posted rq h
     (case body of
        None \<Rightarrow> (h, Status 400)
      | Some (agentID, m) \<Rightarrow> to_agent agentID (MarshalMessage MsgSurvMeta (dj_meta dj m)) h))"

definition HandleDashboardAgentControl ::
    "relay \<Rightarrow> dash_codec \<Rightarrow> dash_request \<Rightarrow> (string \<times> string) option \<Rightarrow> hub \<Rightarrow> hub \<times> dash_answer" where
  "HandleDashboardAgentControl rl dj rq body h = gated rl rq h (posted rq h
     (case body of
        None \<Rightarrow> (h, Status 400)
      | Some (agentID, action) \<Rightarrow> to_agent agentID (MarshalMessage MsgAgentControl
          (dj_control dj \<lparr>ac_action = (if action = [] then ''reconnect'' else action)\<rparr>)) h))"

definition HandleDashboardOpsSnapshot ::
    "relay \<Rightarrow> (bytes \<Rightarrow> img option) \<Rightarrow> (bytes \<Rightarrow> bytes option) \<Rightarrow> dash_request \<Rightarrow> string \<Rightarrow> hub \<Rightarrow> hub \<times> dash_answer" where
  "HandleDashboardOpsSnapshot rl jpeg zstd rq agent h = gated rl rq h
     (case surv_session agent h of
        None \<Rightarrow> (h, Status 204)
      | Some (sid, s) \<Rightarrow>
          if \<not> online s then (h, Status 204)
          else case SnapshotPNG (rl_ord rl) jpeg zstd (as_frame s) of
            None \<Rightarrow> (h, Status 204) | Some (w, ht, c) \<Rightarrow> (h, Png w ht c))"

text \<open>204, or 409 when the setting was not stored.\<close>

definition stored :: "hub \<times> setting_error option \<Rightarrow> hub \<times> dash_answer" where
  "stored r = (case r of (h, None) \<Rightarrow> (h, Status 204) | (h, Some _) \<Rightarrow> (h, Status 409))"

definition HandleDashboardIPLabel ::
    "relay \<Rightarrow> dash_request \<Rightarrow> (string \<times> string) option \<Rightarrow> hub \<Rightarrow> hub \<times> dash_answer" where
  "HandleDashboardIPLabel rl rq body h = gated rl rq h (posted rq h
     (case body of
        None \<Rightarrow> (h, Status 400)
      | Some (ip, label) \<Rightarrow>
          if TrimSpace ip = [] then (h, Status 400)
          else stored (setIPLabel rl (TrimSpace ip) (TrimSpace label) h)))"

definition HandleDashboardAgentHide ::
    "relay \<Rightarrow> dash_request \<Rightarrow> (string \<times> bool) option \<Rightarrow> hub \<Rightarrow> hub \<times> dash_answer" where
  "HandleDashboardAgentHide rl rq body h = gated rl rq h (posted rq h
     (case body of
        None \<Rightarrow> (h, Status 400)
      | Some (aid, hidden) \<Rightarrow>
          if TrimSpace aid = [] then (h, Status 400) else stored (setAgentHidden rl (TrimSpace aid) hidden h)))"

definition HandleDashboardAlertConfig ::
    "((string \<times> string) list \<Rightarrow> (string \<times> string) list) \<Rightarrow> relay \<Rightarrow> url_parse \<Rightarrow> dash_request \<Rightarrow> alert_config option
       \<Rightarrow> hub \<Rightarrow> hub \<times> dash_answer" where
  "HandleDashboardAlertConfig ord rl parse rq body h = gated rl rq h
     (if dr_method rq = ''GET'' then (h, Alerts (getAlertConfig h))
      else if dr_method rq = ''POST'' then
        (case body of
           None \<Rightarrow> (h, Status 400)
         | Some c0 \<Rightarrow>
             (let c = c0\<lparr>al_tg_token := TrimSpace (al_tg_token c0), al_tg_chat := TrimSpace (al_tg_chat c0),
                         al_webhook := TrimSpace (al_webhook c0)\<rparr>
              in if al_webhook c \<noteq> [] \<and> \<not> webhookURLAllowed parse (al_webhook c) then (h, Status 400)
                 else stored (setAlertConfig ord rl c h)))
      else (h, Status 405))"

definition alert_test_texts :: "string \<times> string" where
  "alert_test_texts =
     (utf8 [240, 159, 148, 148] @ '' OpsView '' @ utf8 [236, 149, 140, 235, 166, 188, 32, 237, 133, 140, 236, 138, 164, 237, 138, 184],
      utf8 [236, 157, 180, 32, 235, 169, 148, 236, 139, 156, 236, 167, 128, 234, 176, 128, 32, 235, 179, 180, 236, 157, 180,
        235, 169, 180, 32, 236, 158, 165, 236, 149, 160, 32, 236, 149, 140, 235, 166, 188, 236, 157, 180, 32, 236, 160, 149,
        236, 131, 129, 32, 236, 158, 145, 235, 143, 153, 237, 149, 169, 235, 139, 136, 235, 139, 164, 46])"

definition HandleDashboardAlertTest :: "relay \<Rightarrow> url_parse \<Rightarrow> dash_request \<Rightarrow> hub \<Rightarrow> hub \<times> dash_answer" where
  "HandleDashboardAlertTest rl parse rq h = gated rl rq h (posted rq h
     (let cfg = getAlertConfig h
      in if \<not> hasChannel cfg then (h, Status 409)
         else (h, Sent (case alert_test_texts of (title, body) \<Rightarrow> sendAlert parse cfg title body))))"

definition agent_rows :: "hub \<Rightarrow> (agent_entry \<times> bool) list" where
  "agent_rows h = map (\<lambda>e. (e, case sessionByID (ae_id e) h of None \<Rightarrow> False | Some s \<Rightarrow> online s))
     (sort_key ae_id (listNamed (hb_registry h)))"

text \<open>The registry and the database after an edit; the status of a failed one is an argument.\<close>

definition edited_registry ::
    "nat \<Rightarrow> registry \<times> agent_db \<times> reg_error option \<Rightarrow> hub \<Rightarrow> hub \<times> dash_answer" where
  "edited_registry code r h = (case r of (reg, db, err) \<Rightarrow>
     (h\<lparr>hb_registry := reg, hb_db := db\<rparr>, Status (if err = None then 204 else code)))"

definition HandleDashboardAgents ::
    "relay \<Rightarrow> dash_request \<Rightarrow> agent_entry option \<Rightarrow> string \<Rightarrow> hub \<Rightarrow> hub \<times> dash_answer" where
  "HandleDashboardAgents rl rq body aid h = gated rl rq h
     (if dr_method rq = ''GET'' then (h, Agents (editable (hb_registry h)) (agent_rows h))
      else if dr_method rq = ''POST'' then
        (if \<not> editable (hb_registry h) then (h, Status 409)
         else case body of
           None \<Rightarrow> (h, Status 400)
         | Some e \<Rightarrow> edited_registry 400 (upsertNamed (hb_registry h) e (hb_db h)) h)
      else if dr_method rq = ''DELETE'' then
        (if \<not> editable (hb_registry h) then (h, Status 409)
         else if aid = [] then (h, Status 400)
         else edited_registry 500 (removeNamed (hb_registry h) aid (hb_db h)) h)
      else (h, Status 405))"

definition HandleWallLayout :: "relay \<Rightarrow> dash_request \<Rightarrow> string \<Rightarrow> hub \<Rightarrow> hub \<times> dash_answer" where
  "HandleWallLayout rl rq agent h = gated rl rq h
     (if \<not> wallEnabled (rl_getenv rl ''RELAY_WALL'') then (h, Wall wall_off)
      else let agent' = (if agent = [] then ''default'' else agent)
           in case sessionByID agent' h of
                None \<Rightarrow> (h, Status 404)
              | Some s \<Rightarrow> (let s' = ensure_wall rl agent' ''wall'' h s
                          in (put_session agent' s' h, Wall (wall_reply_of (as_proxy s') ''wall''))))"

section \<open>All of them\<close>

datatype dash_call =
    Login "string option" | Logout | GetState | ChannelMeta "(string \<times> surv_meta) option" | OpsSnapshot string
  | AgentControl "(string \<times> string) option" | IPLabel "(string \<times> string) option" | AlertConfig "alert_config option"
  | AlertTest | AgentHide "(string \<times> bool) option" | AgentsCall "agent_entry option" string
  | Password "string option" | LayoutCall string

record dash_env =
  de_codec :: dash_codec
  de_url :: url_parse
  de_ord :: "(string \<times> string) list \<Rightarrow> (string \<times> string) list"
  de_jpeg :: "bytes \<Rightarrow> img option"
  de_zstd :: "bytes \<Rightarrow> bytes option"

text \<open>The routes of \<open>registerDashboard\<close> that are modelled here.\<close>

fun dashboard :: "relay \<Rightarrow> dash_env \<Rightarrow> dash_request \<Rightarrow> dash_call \<Rightarrow> hub \<Rightarrow> hub \<times> dash_answer" where
  "dashboard rl de rq (Login b) h = HandleDashboardLogin rl rq b h"
| "dashboard rl de rq Logout h = HandleDashboardLogout h"
| "dashboard rl de rq GetState h = HandleDashboardState rl rq h"
| "dashboard rl de rq (ChannelMeta b) h = HandleDashboardChannelMeta rl (de_codec de) rq b h"
| "dashboard rl de rq (OpsSnapshot a) h = HandleDashboardOpsSnapshot rl (de_jpeg de) (de_zstd de) rq a h"
| "dashboard rl de rq (AgentControl b) h = HandleDashboardAgentControl rl (de_codec de) rq b h"
| "dashboard rl de rq (IPLabel b) h = HandleDashboardIPLabel rl rq b h"
| "dashboard rl de rq (AlertConfig b) h = HandleDashboardAlertConfig (de_ord de) rl (de_url de) rq b h"
| "dashboard rl de rq AlertTest h = HandleDashboardAlertTest rl (de_url de) rq h"
| "dashboard rl de rq (AgentHide b) h = HandleDashboardAgentHide rl rq b h"
| "dashboard rl de rq (AgentsCall b a) h = HandleDashboardAgents rl rq b a h"
| "dashboard rl de rq (Password b) h = HandleDashboardPassword rl rq b h"
| "dashboard rl de rq (LayoutCall a) h = HandleWallLayout rl rq a h"

section \<open>Lemmas\<close>

lemma gated_closed: "\<not> authedDashboard rl rq h \<Longrightarrow> gated rl rq h act = (h, Status 401)"
  by (simp add: gated_def)

lemmas gated_handlers = HandleDashboardState_def HandleDashboardChannelMeta_def HandleDashboardOpsSnapshot_def
  HandleDashboardAgentControl_def HandleDashboardIPLabel_def HandleDashboardAlertConfig_def HandleDashboardAlertTest_def
  HandleDashboardAgentHide_def HandleDashboardAgents_def HandleDashboardPassword_def HandleWallLayout_def

definition open_call :: "dash_call \<Rightarrow> bool" where
  "open_call c = (case c of Login b \<Rightarrow> True | Logout \<Rightarrow> True | _ \<Rightarrow> False)"

lemma own_cookie:
  assumes "min_int64 \<le> exp" "exp \<le> max_int64" "now < exp"
  shows "verifySession token (signSession token exp) now"
  using atoi_itoa [OF assms(1,2)] assms(3) by (simp add: verifySession_def signSession_def Let_def dot_notin_b64)

lemma order_key_id: "order_key chans s = order_key chans t \<Longrightarrow> sv_id s = sv_id t"
  by (auto simp: order_key_def split: option.splits)

lemma sort_key_unique:
  assumes "mset xs = mset ys" "inj_on f (set xs)"
  shows "sort_key f xs = sort_key f ys"
  by (rule sort_key_inj_key_eq) (simp_all add: assms)

section \<open>Properties\<close>


text \<open>The order of an agent's streams on the dashboard does not depend on the order in which the proxy's
  map is enumerated: the rows are the same streams, sorted by configured channel, and every
  enumeration of streams with distinct ids gives the same list.\<close>

lemma stream_order_stable:
  assumes "mset xs = mset ys" "distinct (map sv_id xs)"
  shows "orderStreams chans xs = orderStreams chans ys \<and> mset (orderStreams chans xs) = mset xs
     \<and> sorted (map (order_key chans) (orderStreams chans xs))"
proof -
  have "inj_on sv_id (set xs)" using assms(2) by (simp add: distinct_map)
  then have "inj_on (order_key chans) (set xs)" using order_key_id unfolding inj_on_def by blast
  from sort_key_unique [OF assms(1) this] assms(1) show ?thesis by (simp add: orderStreams_def)
qed

section \<open>Witnesses\<close>

definition toy_request :: dash_request where
  "toy_request = \<lparr>dr_method = ''POST'', dr_cookie = None, dr_remote = ''1.2.3.4:5'', dr_now = 1000, dr_clock = 0, dr_clock2 = 0\<rparr>"

definition toy_dash_env :: dash_env where
  "toy_dash_env = \<lparr>de_codec = \<lparr>dj_meta = \<lambda>_. [], dj_control = \<lambda>_. []\<rparr>, de_url = \<lambda>_. None, de_ord = \<lambda>xs. xs,
     de_jpeg = \<lambda>_. None, de_zstd = \<lambda>_. None\<rparr>"

definition toy_dash :: relay where
  "toy_dash = toy_relay\<lparr>rl_dash_env := ''secret''\<rparr>"


definition toy_row :: "string \<Rightarrow> stream_state" where
  "toy_row x = \<lparr>sv_id = x, sv_name = [], sv_active = True, sv_codec = [], sv_ws_watchers = 0, sv_path = []\<rparr>"

end
