(* ===== verification/Rec_Images.thy ===== *)
theory Rec_Images
  imports Thumb_Cache Dashboard
begin

text \<open>
  The pictures and clips of the recordings: \<^verbatim>\<open>relay/recthumb.go\<close> around its cache,
  \<^verbatim>\<open>relay/thumb_variants.go\<close>, \<^verbatim>\<open>relay/recexport.go\<close>, \<^verbatim>\<open>relay/recsprite.go\<close> and \<^verbatim>\<open>relay/lprexport.go\<close>.
  The files of the snapshots are an association list from cleaned paths; a file that is written gets
  an identity from the caller (\<open>thumb_info\<close>). ffmpeg, the JPEG codec, the scaling of a picture, the
  plate recognition and the floating-point sample times of a filmstrip are parameters. A cleaned path
  is what \<open>filepath.Clean\<close> makes of it on Unix.
\<close>

section \<open>Paths\<close>

fun clean_parts :: "bool \<Rightarrow> string list \<Rightarrow> string list \<Rightarrow> string list" where
  "clean_parts rooted [] acc = rev acc"
| "clean_parts rooted (p # ps) acc =
     (if p = [] \<or> p = ''.'' then clean_parts rooted ps acc
      else if p = ''..'' then
        (case acc of
           [] \<Rightarrow> clean_parts rooted ps (if rooted then [] else [''..''])
         | a # as \<Rightarrow> if a = ''..'' then clean_parts rooted ps (''..'' # acc) else clean_parts rooted ps as)
      else clean_parts rooted ps (p # acc))"

definition clean_path :: "string \<Rightarrow> string" where
  "clean_path p =
     (let rooted = has_prefix p ''/'';
          r = (if rooted then ''/'' else []) @ join_with CHR ''/'' (clean_parts rooted (split_on CHR ''/'' p) [])
      in if r = [] then ''.'' else r)"

text \<open>\<open>filepath.Join\<close>: empty elements are dropped.\<close>

definition path_join :: "string list \<Rightarrow> string" where
  "path_join xs = (let ys = filter (\<lambda>x. x \<noteq> []) xs in if ys = [] then [] else clean_path (join_with CHR ''/'' ys))"

definition evThumbPath :: "string \<Rightarrow> string \<Rightarrow> int \<Rightarrow> string" where
  "evThumbPath recDir stream tSec = path_join [recDir, stream, ''.evthumbs'', itoa tSec @ ''.jpg'']"

text \<open>The directory, the base name and the extension of a cleaned path.\<close>

definition path_dir :: "string \<Rightarrow> string" where
  "path_dir p = (case cut_last CHR ''/'' p of None \<Rightarrow> ''.'' | Some (d, _) \<Rightarrow> if d = [] then ''/'' else d)"

definition path_base :: "string \<Rightarrow> string" where
  "path_base p = (case cut_last CHR ''/'' p of None \<Rightarrow> p | Some (_, b) \<Rightarrow> b)"

definition path_ext :: "string \<Rightarrow> string" where
  "path_ext p = (case cut_last CHR ''.'' (path_base p) of None \<Rightarrow> [] | Some (_, e) \<Rightarrow> ''.'' @ e)"

definition cardThumbPath :: "string \<Rightarrow> bytes \<Rightarrow> string" where
  "cardThumbPath original data =
     path_join [path_dir original, ''.cards'',
       path_base (take (length original - length (path_ext original)) original) @ ''.'' @ hex_encode (sha256 data) @ ''.jpg'']"

section \<open>Stored snapshots\<close>

record card_queue =
  cq_pending :: "string list"
  cq_jobs :: "(string \<times> bytes) list"

record images =
  im_files :: "(string \<times> thumb_info \<times> bytes) list"
  im_cache :: thumb_cache
  im_cards :: card_queue
  im_sprites :: "(string \<times> bytes) list"

text \<open>\<open>put\<close> on the cache of a reachable state always answers (\<open>thumb_cache_is_lru\<close>).\<close>

definition remember :: "string \<Rightarrow> bytes \<Rightarrow> thumb_info option \<Rightarrow> images \<Rightarrow> images" where
  "remember key img info st = (case cache_put key img info (im_cache st) of
      None \<Rightarrow> st | Some c \<Rightarrow> st\<lparr>im_cache := c\<rparr>)"

definition storedThumb :: "string \<Rightarrow> images \<Rightarrow> images \<times> bytes option" where
  "storedThumb path st =
     (case map_of (im_files st) path of
        None \<Rightarrow> (st, None)
      | Some (info, content) \<Rightarrow>
          if \<not> ti_regular info \<or> ti_size info = 0 \<or> ti_size info > maxEventThumbBytes then (st, None)
          else case cache_get path (Some info) (im_cache st) of
            (c, Some img) \<Rightarrow> (st\<lparr>im_cache := c\<rparr>, Some img)
          | (c, None) \<Rightarrow>
              let st1 = st\<lparr>im_cache := c\<rparr>
              in if length content = 0 \<or> length content > maxEventThumbBytes then (st1, None)
                 else (remember path content (Some info) st1, Some content))"

text \<open>The files of a directory by their names; the first of the nearest seconds wins. The distance wraps
  as \<open>int64\<close>.\<close>

definition thumb_second :: "string \<Rightarrow> int option" where
  "thumb_second name = (if has_suffix name ''.jpg'' then atoi (trim_suffix name ''.jpg'') else None)"

definition distance64 :: "int \<Rightarrow> int \<Rightarrow> int" where
  "distance64 a b = (let d = (word_of_int (a - b) :: 64 word) in sint (if sint d < 0 then - d else d))"

definition nearer :: "int \<Rightarrow> int \<Rightarrow> (int \<times> string) option \<Rightarrow> string \<Rightarrow> (int \<times> string) option" where
  "nearer t span best name =
     (case thumb_second name of
        None \<Rightarrow> best
      | Some sec \<Rightarrow>
          let d = distance64 sec t; bestDiff = (case best of None \<Rightarrow> span + 1 | Some (b, _) \<Rightarrow> b)
          in if d \<le> span \<and> d < bestDiff then Some (d, name) else best)"

definition nearestEvThumb :: "(string \<Rightarrow> string list option) \<Rightarrow> string \<Rightarrow> string \<Rightarrow> int \<Rightarrow> int \<Rightarrow> string" where
  "nearestEvThumb ls recDir stream t span =
     (let dir = path_join [recDir, stream, ''.evthumbs'']
      in case ls dir of
        None \<Rightarrow> []
      | Some names \<Rightarrow> (case foldl (nearer t span) None names of None \<Rightarrow> [] | Some (_, n) \<Rightarrow> path_join [dir, n]))"

section \<open>Cards\<close>

definition cardThumbWidth :: nat where "cardThumbWidth = 512"

text \<open>The size of a card: scaled to at most 512 in both directions, at least one pixel.\<close>

definition card_size :: "nat \<Rightarrow> nat \<Rightarrow> nat \<times> nat" where
  "card_size w h =
     (let width = min w cardThumbWidth; height = h * width div w;
          (width', height') = (if height > cardThumbWidth then (max 1 (w * cardThumbWidth div h), cardThumbWidth) else (width, height))
      in (width', if height' < 1 then 1 else height'))"

record jpeg_lib =
  jl_dims :: "bytes \<Rightarrow> (nat \<times> nat) option"
  jl_scale :: "bytes \<Rightarrow> nat \<Rightarrow> nat \<Rightarrow> bytes option"
  jl_strip :: "bytes option list \<Rightarrow> bytes option"

definition makeCardThumb :: "jpeg_lib \<Rightarrow> bytes \<Rightarrow> bytes option" where
  "makeCardThumb jl data =
     (case jl_dims jl data of
        None \<Rightarrow> None
      | Some (w, h) \<Rightarrow>
          if w = 0 \<or> h = 0 \<or> w * h > 16000000 then None
          else if w \<le> cardThumbWidth \<and> h \<le> cardThumbWidth then Some data
          else (case card_size w h of (w', h') \<Rightarrow> jl_scale jl data w' h'))"

text \<open>The answer tells whether there is a job for the path to wait for.\<close>

definition queueCardThumb :: "jpeg_lib \<Rightarrow> bool \<Rightarrow> string \<Rightarrow> bytes \<Rightarrow> card_queue \<Rightarrow> card_queue \<times> bool" where
  "queueCardThumb jl stopped path data q =
     (if length data > maxEventThumbBytes then (q, False)
      else case jl_dims jl data of
        None \<Rightarrow> (q, False)
      | Some (w, h) \<Rightarrow>
          if w \<le> cardThumbWidth \<and> h \<le> cardThumbWidth \<or> w * h > 16000000 then (q, False)
          else if stopped then (q, False)
          else if path \<in> set (cq_pending q) then (q, True)
          else if length (cq_jobs q) \<ge> 16 then (q, False)
          else (q\<lparr>cq_jobs := cq_jobs q @ [(path, data)], cq_pending := path # cq_pending q\<rparr>, True))"

text \<open>A worker takes a job off the channel, and later finishes it; \<open>info\<close> is the identity of the file
  it writes, \<open>None\<close> when writing fails.\<close>

definition take_job :: "images \<Rightarrow> images \<times> (string \<times> bytes) option" where
  "take_job st = (case cq_jobs (im_cards st) of
      [] \<Rightarrow> (st, None)
    | job # jobs \<Rightarrow> (st\<lparr>im_cards := (im_cards st)\<lparr>cq_jobs := jobs\<rparr>\<rparr>, Some job))"

definition finish_job :: "jpeg_lib \<Rightarrow> thumb_info option \<Rightarrow> string \<times> bytes \<Rightarrow> images \<Rightarrow> images" where
  "finish_job jl info job st = (case job of (path, data) \<Rightarrow>
     let st1 = (case (makeCardThumb jl data, info) of
           (Some img, Some i) \<Rightarrow> if length img > 0
             then remember path img (Some i) (st\<lparr>im_files := AList.update path (i, img) (im_files st)\<rparr>) else st
         | _ \<Rightarrow> st)
     in st1\<lparr>im_cards := (im_cards st1)\<lparr>cq_pending := removeAll path (cq_pending (im_cards st1))\<rparr>\<rparr>)"

section \<open>Storing a snapshot\<close>

definition extractLast4Digits :: "string \<Rightarrow> string" where
  "extractLast4Digits s = (let ds = filter is_digit s in if length ds < 4 then [] else drop (length ds - 4) ds)"

definition runLPR ::
    "(bytes \<Rightarrow> string option) option \<Rightarrow> (int \<Rightarrow> string) \<Rightarrow> string \<Rightarrow> int \<Rightarrow> bytes \<Rightarrow> event_store option \<Rightarrow> event_store option" where
  "runLPR lpr dk stream tsMs jpeg evs =
     (case lpr of
        None \<Rightarrow> evs
      | Some recognize \<Rightarrow> (case recognize jpeg of
          None \<Rightarrow> evs
        | Some plate \<Rightarrow> if plate = [] \<or> extractLast4Digits plate = [] then evs
                        else map_option (updateOpenPlate dk stream tsMs (extractLast4Digits plate)) evs))"

text \<open>\<open>info\<close> is the identity of the new file, \<open>None\<close> when it cannot be written.\<close>

definition storeEventThumb ::
    "jpeg_lib \<Rightarrow> bool \<Rightarrow> string \<Rightarrow> thumb_info option \<Rightarrow> string \<Rightarrow> int \<Rightarrow> bytes \<Rightarrow> images \<Rightarrow> images" where
  "storeEventThumb jl stopped recDir info stream tsMs jpeg st =
     (if stream = [] \<or> tsMs \<le> 0 \<or> length jpeg = 0 then st
      else if length jpeg > maxEventThumbBytes then st
      else if recDir = [] then st
      else case info of
        None \<Rightarrow> st
      | Some i \<Rightarrow>
          (let dst = evThumbPath recDir stream (tsMs div 1000)
           in st\<lparr>im_files := AList.update dst (i, jpeg) (im_files st),
                im_cards := fst (queueCardThumb jl stopped (cardThumbPath dst jpeg) jpeg (im_cards st))\<rparr>))"

section \<open>Handlers\<close>

record rec_env =
  re_cal :: calendar
  re_fs :: file_system
  re_dir :: string
  re_ls :: "string \<Rightarrow> string list option"
  re_jpeg :: jpeg_lib
  re_frame :: "string \<Rightarrow> int \<Rightarrow> bytes option"

definition covering :: "int \<Rightarrow> rec_segment list \<Rightarrow> rec_segment option" where
  "covering t segs = find (\<lambda>s. rs_start s \<le> t \<and> t < rs_start s + rs_dur s) segs"

text \<open>The snapshot of a card: the stored derivative, or the one a worker finishes in time (\<open>wait\<close> is
  what it then leaves), or the original.\<close>

definition card_or_original ::
    "rec_env \<Rightarrow> bool \<Rightarrow> (images \<Rightarrow> images option) \<Rightarrow> string \<Rightarrow> bytes \<Rightarrow> images \<Rightarrow> images \<times> bytes" where
  "card_or_original re stopped wait original img st =
     (let variant = cardThumbPath original img
      in case storedThumb variant st of
        (st1, Some sml) \<Rightarrow> (st1, sml)
      | (st1, None) \<Rightarrow>
         (case queueCardThumb (re_jpeg re) stopped variant img (im_cards st1) of
            (q, False) \<Rightarrow> (st1\<lparr>im_cards := q\<rparr>, img)
          | (q, True) \<Rightarrow>
             (case wait (st1\<lparr>im_cards := q\<rparr>) of
                None \<Rightarrow> (st1\<lparr>im_cards := q\<rparr>, img)
              | Some st2 \<Rightarrow> (case storedThumb variant st2 of
                    (st3, Some sml) \<Rightarrow> (st3, sml) | (st3, None) \<Rightarrow> (st3, img)))))"

text \<open>The number in the cache key of an extracted frame is printed with \<open>%d\<close>, the flag with \<open>%t\<close>.\<close>

definition frame_key :: "string \<Rightarrow> string \<Rightarrow> int \<Rightarrow> bool \<Rightarrow> string" where
  "frame_key root stream t exact =
     root @ ''|'' @ stream @ ''|'' @ itoa t @ ''|'' @ (if exact then ''true'' else ''false'')"

definition extract_frame ::
    "rec_env \<Rightarrow> string \<Rightarrow> int \<Rightarrow> bool \<Rightarrow> recorder \<Rightarrow> images \<Rightarrow> images \<times> (nat + bytes)" where
  "extract_frame re stream t exact r st =
     (case covering t (fst (segmentsForExport (re_cal re) (re_fs re) stream t (t + 1) r)) of
        None \<Rightarrow>
          (let p = (if \<not> exact \<and> re_dir re \<noteq> [] then nearestEvThumb (re_ls re) (re_dir re) stream t 60 else [])
           in if p = [] then (st, Inl 404)
              else case storedThumb p st of (st1, Some img) \<Rightarrow> (st1, Inr img) | (st1, None) \<Rightarrow> (st1, Inl 404))
      | Some s \<Rightarrow>
         (case segmentFile r stream (rs_name s) of
            None \<Rightarrow> (st, Inl 400)
          | Some path \<Rightarrow> (case re_frame re path (t - rs_start s) of
              None \<Rightarrow> (st, Inl 204)
            | Some img \<Rightarrow> if length img = 0 then (st, Inl 204)
                          else (remember (frame_key (re_dir re) stream t exact) img None st, Inr img))))"

definition HandleDashboardRecThumb ::
    "rec_env \<Rightarrow> bool \<Rightarrow> (images \<Rightarrow> images option) \<Rightarrow> bool \<Rightarrow> string \<Rightarrow> bool \<Rightarrow> bool \<Rightarrow> string
       \<Rightarrow> recorder option \<Rightarrow> images \<Rightarrow> images \<times> (nat + bytes)" where
  "HandleDashboardRecThumb re stopped wait authed stream exact small_card tQ rc st =
     (if \<not> authed then (st, Inl 401)
      else case rc of
        None \<Rightarrow> (st, Inl 409)
      | Some r \<Rightarrow>
         (let t = parse_int_lossy tQ
          in if t \<le> 0 then (st, Inl 400)
             else let original = evThumbPath (re_dir re) stream t;
                      (st1, stored) = (if \<not> exact \<and> re_dir re \<noteq> [] then storedThumb original st else (st, None))
             in case stored of
                  Some img \<Rightarrow> if small_card then (case card_or_original re stopped wait original img st1 of (st2, x) \<Rightarrow> (st2, Inr x))
                              else (st1, Inr img)
                | None \<Rightarrow> (case cache_get (frame_key (re_dir re) stream t exact) None (im_cache st1) of
                    (c, Some img) \<Rightarrow> (st1\<lparr>im_cache := c\<rparr>, Inr img)
                  | (c, None) \<Rightarrow> extract_frame re stream t exact r (st1\<lparr>im_cache := c\<rparr>))))"

definition recExportMaxSecs :: int where "recExportMaxSecs = 3600"

text \<open>What an export hands to ffmpeg: the files in order, the seek and the length in seconds.\<close>

record clip =
  cl_files :: "string list"
  cl_offset :: int
  cl_dur :: int

definition HandleDashboardRecExport ::
    "calendar \<Rightarrow> file_system \<Rightarrow> bool \<Rightarrow> string \<Rightarrow> string \<Rightarrow> string \<Rightarrow> recorder option \<Rightarrow> nat + clip" where
  "HandleDashboardRecExport cal fs authed stream startQ endQ rc =
     (if \<not> authed then Inl 401
      else case rc of
        None \<Rightarrow> Inl 409
      | Some r \<Rightarrow>
         (let start = parse_int_lossy startQ; stop = parse_int_lossy endQ
          in if start \<le> 0 \<or> stop \<le> start then Inl 400
             else if stop - start > recExportMaxSecs then Inl 400
             else case safeStreamDir r stream of
               None \<Rightarrow> Inl 400
             | Some dir \<Rightarrow>
                (case fst (segmentsForExport cal fs stream start stop r) of
                   [] \<Rightarrow> Inl 404
                 | s # segs \<Rightarrow> Inr \<lparr>cl_files = map (\<lambda>x. path_join [dir, rs_name x]) (s # segs),
                                  cl_offset = (if start - rs_start s < 0 then 0 else start - rs_start s),
                                  cl_dur = stop - start\<rparr>)))"

definition spriteCacheCap :: nat where "spriteCacheCap = 128"
definition spriteMaxN :: int where "spriteMaxN = 48"

definition spriteCell :: "rec_env \<Rightarrow> recorder \<Rightarrow> string \<Rightarrow> int \<Rightarrow> bytes option" where
  "spriteCell re r stream t =
     (case covering t (fst (segmentsForExport (re_cal re) (re_fs re) stream t (t + 1) r)) of
        None \<Rightarrow> None
      | Some s \<Rightarrow> (case segmentFile r stream (rs_name s) of
          None \<Rightarrow> None | Some path \<Rightarrow> re_frame re path (t - rs_start s)))"

text \<open>The reply: the strip, the number of its cells and whether it may still change. \<open>sample\<close> computes
  the sample times.\<close>

definition HandleDashboardRecSprite ::
    "rec_env \<Rightarrow> (int \<Rightarrow> int \<Rightarrow> int \<Rightarrow> int list) \<Rightarrow> int \<Rightarrow> bool \<Rightarrow> string \<Rightarrow> string \<Rightarrow> string \<Rightarrow> string
       \<Rightarrow> recorder option \<Rightarrow> images \<Rightarrow> images \<times> (nat + bytes \<times> int \<times> bool)" where
  "HandleDashboardRecSprite re sample now authed stream startQ endQ nQ rc st =
     (if \<not> authed then (st, Inl 401)
      else case rc of
        None \<Rightarrow> (st, Inl 409)
      | Some r \<Rightarrow>
         (let start = parse_int_lossy startQ; stop = parse_int_lossy endQ; n0 = parse_int_lossy nQ
          in if stream = [] \<or> stop \<le> start \<or> n0 < 1 then (st, Inl 400)
             else let n = min n0 spriteMaxN; lv = (stop \<ge> now - hub_recSegSeconds rc);
                      key = stream @ ''|'' @ itoa start @ ''|'' @ itoa stop @ ''|'' @ itoa n
             in case map_of (im_sprites st) key of
                  Some img \<Rightarrow> (st, Inr (img, n, lv))
                | None \<Rightarrow>
                   (case jl_strip (re_jpeg re) (map (spriteCell re r stream) (sample start stop n)) of
                      None \<Rightarrow> (st, Inl 500)
                    | Some jpg \<Rightarrow>
                        ((if lv then st
                          else st\<lparr>im_sprites := AList.update key jpg
                                 (if length (im_sprites st) \<ge> spriteCacheCap then [] else im_sprites st)\<rparr>),
                         Inr (jpg, n, lv)))))"

text \<open>The names of the snapshots in the archive, newest first.\<close>

definition HandleDashboardLPRFrames ::
    "(string \<Rightarrow> (string \<times> bool) list option) \<Rightarrow> string \<Rightarrow> bool \<Rightarrow> string \<Rightarrow> string \<Rightarrow> nat + string list" where
  "HandleDashboardLPRFrames ls recDir authed stream nQ =
     (if \<not> authed then Inl 401
      else if stream = [] \<or> recDir = [] \<or> contains_sub stream ''..'' then Inl 400
      else let n = (case atoi nQ of Some v \<Rightarrow> if v > 0 then nat v else 200 | None \<Rightarrow> 200)
      in case ls (path_join [recDir, stream, ''.evthumbs'']) of
           None \<Rightarrow> Inl 404
         | Some ents \<Rightarrow> Inr (take n (rev (sort (map fst (filter (\<lambda>(x, isdir). \<not> isdir \<and> has_suffix x ''.jpg'') ents))))))"

section \<open>Lemmas\<close>

text \<open>A card is never empty and never larger than 512 pixels either way.\<close>

lemma card_size_bounds:
  assumes "0 < w" "0 < h"
  shows "1 \<le> fst (card_size w h) \<and> fst (card_size w h) \<le> 512 \<and> 1 \<le> snd (card_size w h) \<and> snd (card_size w h) \<le> 512"
proof (cases "h * min w 512 div w > 512")
  case False
  with assms show ?thesis by (auto simp: card_size_def cardThumbWidth_def Let_def)
next
  case True
  have "w \<le> h"
  proof (rule ccontr)
    assume "\<not> w \<le> h"
    then have "h * min w 512 div w \<le> w * min w 512 div w" by (intro div_le_mono mult_le_mono1) simp
    with True assms show False by simp
  qed
  then have "w * 512 div h \<le> h * 512 div h" by (intro div_le_mono mult_le_mono1)
  with assms have "w * 512 div h \<le> 512" by simp
  with True assms show ?thesis by (simp add: card_size_def cardThumbWidth_def Let_def)
qed

lemma nat_str_below: "n < 10 ^ length (nat_str n)"
proof (induction n rule: nat_str.induct)
  case (1 n)
  then show ?case
  proof (cases "n < 10")
    case False
    with 1 have "n div 10 < 10 ^ length (nat_str (n div 10))" by simp
    then have "n < 10 * 10 ^ length (nat_str (n div 10))" by (simp add: div_less_iff_less_mult mult.commute)
    with False show ?thesis by (subst nat_str.simps) simp
  qed (subst nat_str.simps, simp)
qed

lemma itoa_below_length:
  assumes "0 \<le> n"
  shows "n \<le> 10 ^ length (itoa n)"
proof -
  have "int (nat n) < int (10 ^ length (nat_str (nat n)))" using nat_str_below [of "nat n"] by (simp only: of_nat_less_iff)
  with assms show ?thesis by (simp add: itoa_def)
qed

lemma parse_int_lossy_itoa:
  assumes "0 < n" "n \<le> max_int64"
  shows "parse_int_lossy (itoa n) = n"
proof -
  have "parse_dec (- (10 ^ length (itoa n))) (10 ^ length (itoa n)) (itoa n) = Some n"
    by (rule parse_dec_itoa) (use assms itoa_below_length [of n] in simp_all)
  with assms show ?thesis by (simp add: parse_int_lossy_def min_int64_def)
qed

text \<open>A snapshot comes back: what is stored for an event is what the dashboard gets for its second, as
  long as the file system gives the new file an identity that the cache does not hold for it.\<close>

lemma stored_snapshot_served:
  assumes "stream \<noteq> []" "1000 \<le> ts" "ts \<le> max_int64" "jpeg \<noteq> []" "length jpeg \<le> maxEventThumbBytes" "re_dir re \<noteq> []"
    and "ti_regular i" "ti_size i = length jpeg"
    and "\<forall>v. element (evThumbPath (re_dir re) stream (ts div 1000)) (im_cache st) = Some v \<longrightarrow> \<not> same_info (Some i) (te_info (snd v))"
  shows "snd (HandleDashboardRecThumb re stopped wait True stream False False (itoa (ts div 1000)) (Some r)
     (storeEventThumb jl stopped (re_dir re) (Some i) stream ts jpeg st)) = Inr jpeg"
proof -
  let ?p = "evThumbPath (re_dir re) stream (ts div 1000)"
  let ?st = "storeEventThumb jl stopped (re_dir re) (Some i) stream ts jpeg st"
  have f: "map_of (im_files ?st) ?p = Some (i, jpeg)" "im_cache ?st = im_cache st"
    using assms by (simp_all add: storeEventThumb_def Let_def)
  have g: "snd (cache_get ?p (Some i) (im_cache st)) = None"
    using assms(9) by (auto simp: cache_get_def split: option.split)
  obtain c where c: "cache_get ?p (Some i) (im_cache st) = (c, None)" using g by (metis prod.collapse)
  have s: "snd (storedThumb ?p ?st) = Some jpeg"
    using f c assms(4,5,7,8) by (simp add: storedThumb_def Let_def)
  have r: "0 < ts div 1000" "ts div 1000 \<le> max_int64"
    using assms(2,3) by (linarith, simp add: max_int64_def)
  then have t: "parse_int_lossy (itoa (ts div 1000)) = ts div 1000" "\<not> ts div 1000 \<le> 0"
    by (simp_all add: parse_int_lossy_itoa)
  obtain st' where "storedThumb ?p ?st = (st', Some jpeg)" using s by (metis prod.collapse)
  with t assms(6) show ?thesis by (simp add: HandleDashboardRecThumb_def Let_def)
qed

text \<open>The path of a snapshot is not confined: a channel id with \<open>..\<close> leads out of the recordings.\<close>

lemma snapshot_path_escapes: "evThumbPath ''/rec'' ''a/../../etc'' 5 = ''/etc/.evthumbs/5.jpg''"
  by code_simp

end
