(* ===== verification/Relay_Main.thy ===== *)
theory Relay_Main
  imports Rec_Images
begin

text \<open>
  \<^verbatim>\<open>relay/main.go\<close> and the route table of \<^verbatim>\<open>relay/dashboard.go\<close>: how the relay is configured from
  the environment, when it refuses to start, what it starts with and which handler a path leads to. The
  environment is a function from names to values (empty when unset), \<open>db\<close> the content of the database
  at a path (\<open>None\<close> when it cannot be opened), \<open>unmarshal\<close> is \<open>json.Unmarshal\<close> of
  RELAY_AGENTS, \<open>mkdir_ok\<close> and \<open>cap\<close> are the outcome of creating the recordings directory and the
  size \<open>parseSizeBytes\<close> reads (it computes in floating point). A \<open>log.Fatalf\<close> is a
  \<open>start_failure\<close>. The port mapping of \<open>setupUPNP\<close> and the tray icon of the Windows build are left
  out.
\<close>

record config =
  cf_port :: string
  cf_max_queue :: nat
  cf_token :: string
  cf_origins :: "string list"
  cf_registry :: registry
  cf_dash :: string
  cf_store :: "agent_db option"

datatype start_failure =
    InvalidAgents reg_error
  | OpenDBFailed string
  | StoreInitFailed reg_error
  | NoPublisherToken

definition publisher_token :: "(string \<Rightarrow> string) \<Rightarrow> string" where
  "publisher_token getenv =
     (let t = getenv ''RELAY_PUBLISHER_TOKEN'' in if t = [] then getenv ''AGENT_TOKEN'' else t)"

definition config_port :: "(string \<Rightarrow> string) \<Rightarrow> string" where
  "config_port getenv = (let p = getenv ''RELAY_PORT'' in if p = [] then ''8080'' else p)"

definition config_origins :: "(string \<Rightarrow> string) \<Rightarrow> string list" where
  "config_origins getenv =
     filter (\<lambda>x. x \<noteq> []) (map TrimSpace (split_on CHR '','' (getenv ''RELAY_ALLOWED_ORIGINS'')))"

text \<open>The wall tables come with it: \<open>initWallLayoutStore\<close> fills package variables.\<close>

definition loadConfig ::
    "(string \<Rightarrow> string) \<Rightarrow> (string \<Rightarrow> agent_entry list option) \<Rightarrow> (string \<Rightarrow> agent_db option)
       \<Rightarrow> start_failure + config \<times> wall_tables" where
  "loadConfig getenv unmarshal db =
     (let token = publisher_token getenv;
          mk = (\<lambda>reg st. \<lparr>cf_port = config_port getenv, cf_max_queue = 4, cf_token = token,
             cf_origins = config_origins getenv, cf_registry = reg,
             cf_dash = getenv ''RELAY_DASHBOARD_TOKEN'', cf_store = st\<rparr>)
      in case parseAgentRegistry unmarshal (getenv ''RELAY_AGENTS'') token of
           Inl err \<Rightarrow> Inl (InvalidAgents err)
         | Inr reg \<Rightarrow>
             if getenv ''RELAY_DB'' = [] then Inr (mk reg None, no_walls)
             else case db (getenv ''RELAY_DB'') of
               None \<Rightarrow> Inl (OpenDBFailed (getenv ''RELAY_DB''))
             | Some s \<Rightarrow>
                (case useStore reg s of
                   (reg', s', Some err) \<Rightarrow> Inl (StoreInitFailed err)
                 | (reg', s', None) \<Rightarrow>
                    (case initWallLayoutStore True no_walls s' of
                       (walls, s'') \<Rightarrow> Inr (mk reg' (Some s''), walls))))"

text \<open>The running relay: what its handlers read of the configuration, the hub, the recorder and the
  patterns of the mux.\<close>

record server =
  sv_relay :: relay
  sv_origins :: "string list"
  sv_hub :: hub
  sv_recorder :: "recorder option"
  sv_routes :: "string list"

definition relay_routes :: "string list" where
  "relay_routes =
     [''/'', ''/publish'', ''/watch'', ''/health'', ''/metrics'', ''/api/surv'', ''/api/surv/streams'', ''/api/snapshot'',
      ''/surv/walllayout'', ''/surv/wallorder'', ''/surv/ws/'', ''/surv/'']"

definition dashboard_routes :: "string list" where
  "dashboard_routes =
     [''/dashboard/api/login'', ''/dashboard/api/logout'', ''/dashboard/api/state'', ''/dashboard/api/channel-meta'',
      ''/dashboard/api/ops-snapshot'', ''/dashboard/api/agent-control'', ''/dashboard/api/ip-label'',
      ''/dashboard/api/alert-config'', ''/dashboard/api/alert-test'', ''/dashboard/api/agent-hide'',
      ''/dashboard/api/rec'', ''/dashboard/api/rec-file'', ''/dashboard/api/rec-export'', ''/dashboard/api/rec-events'',
      ''/dashboard/api/rec-thumb'', ''/dashboard/api/rec-events-list'', ''/dashboard/api/live-grid-ws'',
      ''/dashboard/api/rec-timeline'', ''/dashboard/api/rec-sprite'', ''/dashboard/api/lpr-frames'',
      ''/dashboard/api/agents'', ''/dashboard/api/password'', ''/dashboard/wall'', ''/dashboard/api/wall-layout'',
      ''/dashboard'', ''/dashboard/'']"

definition registerDashboard :: "relay \<Rightarrow> hub \<Rightarrow> string list \<Rightarrow> string list" where
  "registerDashboard rl h mux = (if \<not> dashboardEnabled rl h then mux else mux @ dashboard_routes)"

definition runServer ::
    "(string \<Rightarrow> string) \<Rightarrow> (string \<Rightarrow> agent_entry list option) \<Rightarrow> (string \<Rightarrow> agent_db option) \<Rightarrow> bool \<Rightarrow> int
       \<Rightarrow> relay \<Rightarrow> start_failure + server" where
  "runServer getenv unmarshal db mkdir_ok cap rl0 =
     (case loadConfig getenv unmarshal db of
        Inl err \<Rightarrow> Inl err
      | Inr (cfg, walls) \<Rightarrow>
         if cf_token cfg = [] then Inl NoPublisherToken
         else let rl = rl0\<lparr>rl_max_queue := cf_max_queue cfg, rl_dash_env := cf_dash cfg,
                          rl_store := cf_store cfg \<noteq> None, rl_getenv := getenv\<rparr>;
                  rec = newRecorder (getenv ''RELAY_REC_DIR'') mkdir_ok cap (cf_port cfg);
                  h = NewHub rl (cf_registry cfg) (case cf_store cfg of None \<Rightarrow> openAgentStore | Some s \<Rightarrow> s) walls
                        (if rec = None then None else Some (newEventStore (getenv ''RELAY_REC_DIR'' \<noteq> [])))
              in Inr \<lparr>sv_relay = rl, sv_origins = cf_origins cfg, sv_hub = h, sv_recorder = rec,
                      sv_routes = registerDashboard rl h relay_routes\<rparr>)"

text \<open>Go's mux: the path itself, or the longest registered prefix that ends with a slash. Redirects to
  cleaned paths are not modelled.\<close>

definition mux_matches :: "string \<Rightarrow> string \<Rightarrow> bool" where
  "mux_matches path pat = (pat = path \<or> has_suffix pat ''/'' \<and> has_prefix path pat)"

definition longer :: "string option \<Rightarrow> string \<Rightarrow> string option" where
  "longer best pat = (case best of None \<Rightarrow> Some pat | Some b \<Rightarrow> if length pat > length b then Some pat else best)"

definition mux_pattern :: "string list \<Rightarrow> string \<Rightarrow> string option" where
  "mux_pattern pats path = foldl longer None (filter (mux_matches path) pats)"

datatype root_answer = Redirect string | NotFound

definition handleRoot :: "string \<Rightarrow> root_answer" where
  "handleRoot path = (if path \<noteq> ''/'' then NotFound else Redirect ''/dashboard'')"

section \<open>Lemmas\<close>

lemma longer_max:
  "foldl longer b ps = r \<Longrightarrow> (r = None \<longleftrightarrow> b = None \<and> ps = [])
     \<and> (\<forall>p. r = Some p \<longrightarrow> (b = Some p \<or> p \<in> set ps) \<and> (\<forall>q\<in>set ps. length q \<le> length p)
        \<and> (\<forall>q. b = Some q \<longrightarrow> length q \<le> length p))"
proof (induction ps arbitrary: b)
  case (Cons p ps)
  from Cons.IH [of "longer b p"] Cons.prems show ?case
    by (auto simp: longer_def split: option.splits if_splits)
qed auto

text \<open>The mux picks a registered pattern that matches, and none that matches is longer.\<close>

lemma mux_pattern_longest:
  assumes "mux_pattern pats path = Some p"
  shows "p \<in> set pats \<and> mux_matches path p \<and> (\<forall>q\<in>set pats. mux_matches path q \<longrightarrow> length q \<le> length p)"
  using longer_max [of None "filter (mux_matches path) pats" "Some p"] assms
  by (auto simp: mux_pattern_def)

text \<open>Fail closed: a relay that starts has a publisher secret, and every agent of its registry a token.\<close>

lemma started_relay_authenticates:
  assumes "runServer getenv unmarshal db mkdir_ok cap rl0 = Inr sv"
    and "\<And>p s. db p = Some s \<Longrightarrow> keys_ok s \<and> rows_ok s"
  shows "\<exists>token. token \<noteq> [] \<and> token = publisher_token getenv \<and> entries_ok token (hb_registry (sv_hub sv))"
proof -
  obtain cfg walls where c: "loadConfig getenv unmarshal db = Inr (cfg, walls)" "cf_token cfg \<noteq> []"
      "hb_registry (sv_hub sv) = cf_registry cfg"
    using assms(1) by (auto simp: runServer_def Let_def NewHub_def split: sum.splits prod.splits if_splits)
  then obtain reg where r: "parseAgentRegistry unmarshal (getenv ''RELAY_AGENTS'') (publisher_token getenv) = Inr reg"
      "cf_token cfg = publisher_token getenv"
    by (auto simp: loadConfig_def Let_def split: sum.splits option.splits prod.splits if_splits)
  note p = parse_ok [OF r(1)]
  have "entries_ok (publisher_token getenv) (cf_registry cfg)"
  proof (cases "getenv ''RELAY_DB'' = []")
    case True
    with c(1) r p show ?thesis by (auto simp: loadConfig_def Let_def)
  next
    case False
    then obtain s s' where "db (getenv ''RELAY_DB'') = Some s" "useStore reg s = (cf_registry cfg, s', None)"
      using c(1) r by (auto simp: loadConfig_def Let_def split: option.splits prod.splits)
    with useStore_inv [OF _ p] assms(2) show ?thesis by (fastforce simp: reg_inv_def)
  qed
  with c r show ?thesis by auto
qed

text \<open>Without a dashboard password its paths end at the root handler, which does not know them.\<close>

lemma relay_routes_not_dashboard:
  "q \<in> set relay_routes \<Longrightarrow> mux_matches (''/d'' @ r) q \<Longrightarrow> q = ''/''"
  by (auto simp: relay_routes_def mux_matches_def has_prefix_def)

lemma mux_pattern_Some:
  assumes "q \<in> set pats" "mux_matches path q"
  obtains p where "mux_pattern pats path = Some p" "p \<in> set pats" "mux_matches path p" "length q \<le> length p"
proof -
  have "filter (mux_matches path) pats \<noteq> []" using assms by (auto simp: filter_empty_conv)
  with longer_max [of None "filter (mux_matches path) pats" "mux_pattern pats path"] have "mux_pattern pats path \<noteq> None"
    unfolding mux_pattern_def by blast
  then obtain p where "mux_pattern pats path = Some p" by blast
  with mux_pattern_longest [OF this] assms that show thesis by blast
qed

lemma dashboard_hidden:
  assumes "\<not> dashboardEnabled rl h"
  shows "mux_pattern (registerDashboard rl h relay_routes) (''/d'' @ r) = Some ''/'' \<and> handleRoot (''/d'' @ r) = NotFound"
proof -
  have "''/'' \<in> set relay_routes" "mux_matches (''/d'' @ r) ''/''"
    by (simp_all add: relay_routes_def mux_matches_def has_prefix_def has_suffix_def)
  then obtain q where q: "mux_pattern relay_routes (''/d'' @ r) = Some q" "q \<in> set relay_routes" "mux_matches (''/d'' @ r) q"
    by (rule mux_pattern_Some)
  from relay_routes_not_dashboard [OF q(2,3)] q(1) assms show ?thesis
    by (simp add: registerDashboard_def handleRoot_def)
qed

text \<open>The WebSocket route wins over the HLS route below it.\<close>

lemma ws_beats_hls: "mux_pattern relay_routes (''/surv/ws/'' @ x) = Some ''/surv/ws/''"
proof -
  have "''/surv/ws/'' \<in> set relay_routes" "mux_matches (''/surv/ws/'' @ x) ''/surv/ws/''"
    by (simp_all add: relay_routes_def mux_matches_def has_prefix_def has_suffix_def)
  then obtain q where q: "mux_pattern relay_routes (''/surv/ws/'' @ x) = Some q" "q \<in> set relay_routes"
      "mux_matches (''/surv/ws/'' @ x) q" "9 \<le> length q"
    by (rule mux_pattern_Some) simp
  have "q = ''/surv/ws/''" using q(2-4) by (auto simp: relay_routes_def mux_matches_def has_prefix_def has_suffix_def)
  with q(1) show ?thesis by simp
qed

end
