(* ===== verification/Event_Lists.thy ===== *)
theory Event_Lists
  imports Dashboard Recorder
begin

text \<open>
  The requests of \<^verbatim>\<open>relay/events.go\<close> that list events, and the pruning of event thumbnails of \<^verbatim>\<open>relay/recorder.go\<close>.
  \<open>authed\<close> is the outcome of \<open>authedDashboard\<close>, \<open>pd\<close> reads a day as its local midnight, \<open>srt\<close> sorts for the clustering
  and \<open>newest\<close> for the answer. A list that was never appended to is encoded as \<^verbatim>\<open>null\<close> and is None here. A request
  whose client has left ends early without an answer; the model has the ones that are answered.
\<close>

section \<open>Events of one stream and day\<close>

record 'a event_reply =
  er_events :: "'a list option"
  er_no_store :: bool

definition as_slice :: "'a list \<Rightarrow> 'a list option" where
  "as_slice xs = (if xs = [] then None else Some xs)"

definition todayKey :: "calendar \<Rightarrow> int \<Rightarrow> string" where
  "todayKey cal now = cal_day cal now"

definition HandleDashboardRecEvents ::
    "calendar \<Rightarrow> int \<Rightarrow> bool \<Rightarrow> string \<Rightarrow> string \<Rightarrow> hub \<Rightarrow> (nat + event_interval event_reply) \<times> hub" where
  "HandleDashboardRecEvents cal now authed stream day h =
     (if \<not> authed then (Inl 401, h) else case hb_events h of None \<Rightarrow> (Inl 409, h)
      | Some st \<Rightarrow>
          let live = (day = todayKey cal now)
          in if stream \<noteq> [] \<and> length day = 8
             then (case eventsForDay stream day st of (ivs, st') \<Rightarrow>
                (Inr \<lparr>er_events = as_slice ivs, er_no_store = live\<rparr>, h\<lparr>hb_events := Some st'\<rparr>))
             else (Inr \<lparr>er_events = Some [], er_no_store = live\<rparr>, h))"

section \<open>Events of an agent\<close>

definition recListDays :: "calendar \<Rightarrow> (string \<Rightarrow> int option) \<Rightarrow> string \<Rightarrow> string \<Rightarrow> string \<Rightarrow> string list" where
  "recListDays cal pd day from till =
     (case (if length from = 8 \<and> length till = 8 then (pd from, pd till) else (None, None)) of
        (Some a, Some b) \<Rightarrow> if b \<ge> a then daysInRange cal a (b + 12 * 3600) else if length day = 8 then [day] else []
      | _ \<Rightarrow> if length day = 8 then [day] else [])"

definition event_items :: "string \<Rightarrow> channel_info \<Rightarrow> event_interval list \<Rightarrow> rec_event_item list" where
  "event_items stream ch ivs = map (\<lambda>iv. \<lparr>ei_stream = stream, ei_ch = ch_num ch, ei_name = ch_name ch, ei_kind = iv_kind iv,
     ei_start = iv_start iv, ei_end = iv_end iv, ei_plate = iv_plate iv\<rparr>) ivs"

text \<open>The reads of the two loops in their order: a stream with its channel, and a day.\<close>

fun read_days :: "(string \<times> channel_info \<times> string) list \<Rightarrow> event_store \<Rightarrow> rec_event_item list \<times> event_store" where
  "read_days [] st = ([], st)"
| "read_days ((stream, ch, day) # rs) st =
     (case eventsForDay stream day st of (ivs, st1) \<Rightarrow>
      case read_days rs st1 of (its, st2) \<Rightarrow> (event_items stream ch ivs @ its, st2))"

definition channel_reads :: "agent_session \<Rightarrow> string list \<Rightarrow> channel_info \<Rightarrow> (string \<times> channel_info \<times> string) list" where
  "channel_reads s days ch = map (\<lambda>d. (streamPath (as_id s) (streamIDFor (ch_dvr_id ch) (ch_num ch)), ch, d)) days"

definition agent_reads :: "json_codec \<Rightarrow> agent_session \<Rightarrow> string list \<Rightarrow> (string \<times> channel_info \<times> string) list" where
  "agent_reads codec s days = (case session_config codec s of None \<Rightarrow> []
     | Some c \<Rightarrow> concat (map (channel_reads s days) (filter ch_enabled (sc_channels c))))"

definition HandleDashboardRecEventsList ::
    "(rec_event_item list \<Rightarrow> rec_event_item list) \<Rightarrow> (rec_event_item list \<Rightarrow> rec_event_item list) \<Rightarrow> json_codec
       \<Rightarrow> calendar \<Rightarrow> (string \<Rightarrow> int option) \<Rightarrow> int \<Rightarrow> bool \<Rightarrow> string \<Rightarrow> string \<Rightarrow> string \<Rightarrow> string \<Rightarrow> hub
       \<Rightarrow> (nat + rec_event_item event_reply) \<times> hub" where
  "HandleDashboardRecEventsList srt newest codec cal pd now authed agentID day from till h =
     (if \<not> authed then (Inl 401, h) else case hb_events h of None \<Rightarrow> (Inl 409, h)
      | Some st \<Rightarrow> (case sessionByID agentID h of
          None \<Rightarrow> (Inr \<lparr>er_events = Some [], er_no_store = False\<rparr>, h)
        | Some s \<Rightarrow>
            let days = recListDays cal pd day from till
            in case read_days (agent_reads codec s days) st of (items, st') \<Rightarrow>
              (Inr \<lparr>er_events = as_slice (newest (clusterEventItems srt items recEventMergeGapSec)),
                    er_no_store = (todayKey cal now \<in> set days)\<rparr>, h\<lparr>hb_events := Some st'\<rparr>)))"

section \<open>Old thumbnails\<close>

text \<open>A file of the walk: its path below the file system's root, split at the slashes, and its modification time in
  nanoseconds, None when it cannot be read; \<open>removable\<close> tells whether deleting a path succeeds.\<close>

definition is_event_thumb :: "string list \<Rightarrow> bool" where
  "is_event_thumb p = (case rev p of
      name # dir # up \<Rightarrow> (dir = ''.evthumbs'' \<or> dir = ''.cards'' \<and> up \<noteq> [] \<and> hd up = ''.evthumbs'') \<and> has_suffix name ''.jpg''
    | _ \<Rightarrow> False)"

text \<open>The age is a 64-bit number of nanoseconds and wraps.\<close>

definition keep_nanos :: "int \<Rightarrow> int" where
  "keep_nanos days = - sint (word_of_int (- days * 86400000000000) :: 64 word)"

definition pruneEventThumbs :: "string \<Rightarrow> int \<Rightarrow> (string list \<Rightarrow> bool) \<Rightarrow> (string list \<times> int option) list \<Rightarrow> (string list \<times> int option) list" where
  "pruneEventThumbs envDays now removable files =
     (let cutoff = now - keep_nanos (parseEnvInt envDays recKeepEventDaysDefault)
      in filter (\<lambda>(p, t). \<not> (is_event_thumb p \<and> (case t of None \<Rightarrow> False | Some t \<Rightarrow> t < cutoff) \<and> removable p)) files)"

section \<open>What is listed\<close>

text \<open>An entry without its plate.\<close>

definition item_core :: "rec_event_item \<Rightarrow> string \<times> int \<times> string \<times> int \<times> int \<times> string" where
  "item_core x = (ei_stream x, ei_ch x, ei_name x, ei_start x, ei_end x, ei_kind x)"

definition recorded :: "event_store \<Rightarrow> string \<times> channel_info \<times> string \<Rightarrow> (string \<times> int \<times> string \<times> int \<times> int \<times> string) list" where
  "recorded st r = (case r of (stream, ch, d) \<Rightarrow> map (\<lambda>k. (stream, ch_num ch, ch_name ch, k)) (map core (file_lines st (stream, d))))"

lemma core_items: "map item_core (event_items stream ch ivs) = map (\<lambda>k. (stream, ch_num ch, ch_name ch, k)) (map core ivs)"
  by (simp add: event_items_def item_core_def core_def)

lemma read_days_ok:
  "es_ok st \<Longrightarrow> read_days rs st = (items, st')
    \<Longrightarrow> es_ok st' \<and> es_files st' = es_files st \<and> map item_core items = concat (map (recorded st) rs)"
proof (induction rs st arbitrary: items st' rule: read_days.induct)
  case (2 stream ch day rs st)
  obtain ivs st1 where r: "eventsForDay stream day st = (ivs, st1)" by fastforce
  obtain its st2 where q: "read_days rs st1 = (its, st2)" by fastforce
  note ok = eventsForDay_ok [OF "2.prems"(1) r]
  have "file_lines st1 = file_lines st" using same_files [OF ok(2)] by blast
  then have f: "recorded st1 = recorded st" by (intro ext) (simp add: recorded_def)
  have out: "items = event_items stream ch ivs @ its" "st' = st2" using "2.prems"(2) r q by auto
  have "map item_core items = map (\<lambda>k. (stream, ch_num ch, ch_name ch, k)) (map core ivs) @ map item_core its"
    by (simp only: out map_append core_items)
  then show ?case using "2.IH" [OF r [symmetric] ok(1) q] ok(2) unfolding f ok(3) by (simp add: out(2) recorded_def)
qed simp

lemma recorded_item:
  assumes "map item_core items = concat (map (recorded st) rs)"
  shows "(s, c, d) \<in> set rs \<Longrightarrow> iv \<in> set (file_lines st (s, d))
      \<Longrightarrow> \<exists>x\<in>set items. ei_stream x = s \<and> ei_start x = iv_start iv \<and> ei_end x = iv_end iv \<and> ei_kind x = iv_kind iv"
    and "x \<in> set items \<Longrightarrow> \<exists>c d iv. (ei_stream x, c, d) \<in> set rs \<and> iv \<in> set (file_lines st (ei_stream x, d))
      \<and> ei_start x = iv_start iv \<and> ei_kind x = iv_kind iv"
proof -
  have e: "item_core ` set items = (\<Union>r\<in>set rs. set (recorded st r))"
    using arg_cong [OF assms, of set] by (simp only: set_map set_concat image_image)
  show "\<exists>x\<in>set items. ei_stream x = s \<and> ei_start x = iv_start iv \<and> ei_end x = iv_end iv \<and> ei_kind x = iv_kind iv"
    if m: "(s, c, d) \<in> set rs" "iv \<in> set (file_lines st (s, d))"
  proof -
    have "(s, ch_num c, ch_name c, core iv) \<in> set (recorded st (s, c, d))" using m(2) by (auto simp: recorded_def)
    then have "(s, ch_num c, ch_name c, core iv) \<in> item_core ` set items" unfolding e using m(1) by blast
    then obtain x where "x \<in> set items" "item_core x = (s, ch_num c, ch_name c, core iv)" by auto
    then show ?thesis by (intro bexI [of _ x]) (simp_all add: item_core_def core_def)
  qed
  show "\<exists>c d iv. (ei_stream x, c, d) \<in> set rs \<and> iv \<in> set (file_lines st (ei_stream x, d)) \<and> ei_start x = iv_start iv \<and> ei_kind x = iv_kind iv"
    if m: "x \<in> set items"
  proof -
    from m have "item_core x \<in> item_core ` set items" by simp
    then obtain s c d where r: "(s, c, d) \<in> set rs" "item_core x \<in> set (recorded st (s, c, d))" unfolding e by auto
    then obtain iv where "iv \<in> set (file_lines st (s, d))" "item_core x = (s, ch_num c, ch_name c, core iv)" by (auto simp: recorded_def)
    with r(1) show ?thesis by (auto simp: item_core_def core_def)
  qed
qed

lemma cluster_origin:
  assumes "mset (srt items) = mset items" "sorted_wrt (\<lambda>a b. item_key a \<le> item_key b) (srt items)"
    and "y \<in> set (clusterEventItems srt items gap)"
  shows "\<exists>x\<in>set items. item_key y = item_key x"
proof (cases "length items \<le> 1")
  case False
  then have "y \<in> set (foldl (merge_step gap) [] (srt items))" using assms(3) by (auto simp: clusterEventItems_def Let_def)
  then have "\<exists>x\<in>set (srt items). item_key y = item_key x" using merge_all_inv [OF assms(2), of gap] by (auto simp: merge_inv_def)
  then show ?thesis using mset_eq_setD [OF assms(1)] by simp
qed (use assms(3) in \<open>auto simp: clusterEventItems_def\<close>)

text \<open>The list of an agent is complete and its own: every recorded event of an enabled channel on a requested day is
  inside an entry of its stream and kind, or, when it is plain motion, next to a more specific one; and every
  entry starts with a recorded event of an enabled channel of this agent.\<close>

lemma agent_list_exact:
  assumes "es_ok st" "hb_events h = Some st" "sessionByID a h = Some s"
    and srt: "\<And>xs. mset (srt xs) = mset xs" "\<And>xs. sorted_wrt (\<lambda>a b. item_key a \<le> item_key b) (srt xs)"
    and newest: "\<And>xs. set (newest xs) = set xs"
    and r: "HandleDashboardRecEventsList srt newest codec cal pd now True a day from till h = (Inr rep, h')"
  defines "reads \<equiv> agent_reads codec s (recListDays cal pd day from till)"
    and "shown \<equiv> (case er_events rep of None \<Rightarrow> {} | Some es \<Rightarrow> set es)"
  shows "(\<forall>stream ch d iv. (stream, ch, d) \<in> set reads \<longrightarrow> iv \<in> set (file_lines st (stream, d)) \<longrightarrow>
      (\<exists>m\<in>shown. ei_stream m = stream \<and> ei_kind m = iv_kind iv \<and> ei_start m \<le> iv_start iv \<and> iv_end iv \<le> ei_end m)
      \<or> iv_kind iv = ''motion'' \<and> (\<exists>sp\<in>shown. ei_kind sp \<noteq> ''motion'' \<and> ei_stream sp = stream))
    \<and> (\<forall>m\<in>shown. \<exists>ch d iv. (ei_stream m, ch, d) \<in> set reads \<and> iv \<in> set (file_lines st (ei_stream m, d))
        \<and> ei_start m = iv_start iv \<and> ei_kind m = iv_kind iv)"
proof -
  obtain items st' where q: "read_days reads st = (items, st')" by fastforce
  let ?c = "clusterEventItems srt items recEventMergeGapSec"
  have rep: "er_events rep = as_slice (newest ?c)"
    using r assms(2,3) q by (auto simp: HandleDashboardRecEventsList_def reads_def Let_def)
  have sh: "shown = set ?c" using newest [of ?c] by (auto simp: shown_def rep as_slice_def)
  note items = recorded_item [OF conjunct2 [OF conjunct2 [OF read_days_ok [OF assms(1) q]]]]
  show ?thesis
  proof (intro conjI allI impI ballI)
    fix stream ch d iv assume "(stream, ch, d) \<in> set reads" "iv \<in> set (file_lines st (stream, d))"
    then obtain x where x: "x \<in> set items" "ei_stream x = stream"
      and k: "ei_start x = iv_start iv" "ei_end x = iv_end iv" "ei_kind x = iv_kind iv" using items(1) by blast
    show "(\<exists>m\<in>shown. ei_stream m = stream \<and> ei_kind m = iv_kind iv \<and> ei_start m \<le> iv_start iv \<and> iv_end iv \<le> ei_end m)
      \<or> iv_kind iv = ''motion'' \<and> (\<exists>sp\<in>shown. ei_kind sp \<noteq> ''motion'' \<and> ei_stream sp = stream)"
    proof (cases "length items > 1")
      case True
      from clustering_keeps_events [of srt items x recEventMergeGapSec, OF srt True x(1)] show ?thesis
        unfolding sh covers_def k x(2) by blast
    next
      case False
      then have "?c = items" by (simp add: clusterEventItems_def)
      with x k show ?thesis unfolding sh by auto
    qed
  next
    fix m assume "m \<in> shown"
    then obtain x where x: "x \<in> set items" "item_key m = item_key x"
      using cluster_origin [of srt items m recEventMergeGapSec, OF srt] unfolding sh by blast
    obtain ch d iv where "(ei_stream x, ch, d) \<in> set reads" "iv \<in> set (file_lines st (ei_stream x, d))"
      "ei_start x = iv_start iv" "ei_kind x = iv_kind iv" using items(2) [OF x(1)] by blast
    then show "\<exists>ch d iv. (ei_stream m, ch, d) \<in> set reads \<and> iv \<in> set (file_lines st (ei_stream m, d))
        \<and> ei_start m = iv_start iv \<and> ei_kind m = iv_kind iv"
      using x(2) by (auto simp: item_key_def)
  qed
qed

lemma agent_reads_own:
  "(stream, ch, d) \<in> set (agent_reads codec s days) = (d \<in> set days \<and> ch_enabled ch
     \<and> stream = streamPath (as_id s) (streamIDFor (ch_dvr_id ch) (ch_num ch))
     \<and> (case session_config codec s of None \<Rightarrow> False | Some c \<Rightarrow> ch \<in> set (sc_channels c)))"
  by (auto simp: agent_reads_def channel_reads_def split: option.split)

section \<open>What is pruned\<close>

lemma keep_nanos_exact: "0 \<le> days \<Longrightarrow> days \<le> 106751 \<Longrightarrow> keep_nanos days = days * 86400000000000"
  unfolding keep_nanos_def by (simp add: sint_word_ariths sint_sbintrunc' signed_take_bit_int_eq_self)

text \<open>With a window of up to 106751 days only event thumbnails older than the window go. From 106752 days on the age wraps to
  the past, the cutoff lies in the future, and every event thumbnail goes.\<close>

lemma prune_keeps_window:
  assumes "days = parseEnvInt envDays recKeepEventDaysDefault" "0 \<le> days" "days \<le> 106751"
  shows "set (pruneEventThumbs envDays now removable files) =
    {x \<in> set files. \<not> is_event_thumb (fst x) \<or> snd x = None \<or> the (snd x) \<ge> now - days * 86400000000000 \<or> \<not> removable (fst x)}"
  using keep_nanos_exact [OF assms(2,3)] unfolding assms(1) by (auto simp: pruneEventThumbs_def Let_def split: option.splits)

lemma long_window_wraps: "keep_nanos 106752 = - 9223371273709551616"
  by (simp add: keep_nanos_def)

end
