(* ===== verification/Test_Pattern.thy ===== *)
theory Test_Pattern
  imports Frame_Buffer
begin

text \<open>
  The picture the relay shows while the default agent has no publisher, \<^verbatim>\<open>relay/testpattern.go\<close>: the frames it
  draws, and the goroutine that \<open>Start\<close> and \<open>Stop\<close> switch on and off. The colour of a tile (sines of floating-point
  numbers) and the compressor are parameters. The channels are numbered; \<open>Start\<close> and \<open>Stop\<close> are called from the handlers
  of publishers (\<^verbatim>\<open>HandlePublish\<close> in \<^verbatim>\<open>relay/hub.go\<close>) without a common lock, so they are steps that interleave with
  the goroutine's.
\<close>

section \<open>Frames\<close>

record pattern_env =
  pe_colour :: "32 word \<Rightarrow> nat \<Rightarrow> nat \<Rightarrow> byte \<times> byte \<times> byte"
  pe_zstd :: "bytes \<Rightarrow> bytes"

definition pattern_width :: nat where "pattern_width = 1920"
definition pattern_height :: nat where "pattern_height = 1080"
definition pattern_tile_size :: nat where "pattern_tile_size = 128"

definition tiles_across :: "nat \<Rightarrow> nat" where
  "tiles_across n = (n + pattern_tile_size - 1) div pattern_tile_size"

definition tile_extent_of :: "nat \<Rightarrow> nat \<Rightarrow> nat" where
  "tile_extent_of n i = (if (i + 1) * pattern_tile_size > n then n - i * pattern_tile_size else pattern_tile_size)"

definition tile_pixels :: "pattern_env \<Rightarrow> 32 word \<Rightarrow> nat \<Rightarrow> nat \<Rightarrow> bytes" where
  "tile_pixels e seq tx ty =
     (case pe_colour e seq tx ty of (r, g, b) \<Rightarrow>
        concat (replicate (tile_extent_of pattern_width tx * tile_extent_of pattern_height ty) [b, g, r, 255]))"

definition pattern_tile :: "pattern_env \<Rightarrow> 32 word \<Rightarrow> nat \<times> nat \<Rightarrow> tile" where
  "pattern_tile e seq p =
     (case p of (ty, tx) \<Rightarrow> let c = pe_zstd e (tile_pixels e seq tx ty)
        in \<lparr>t_tx = word_of_nat tx, t_ty = word_of_nat ty, t_codec = CodecZstdRawBGRA, t_data_len = word_of_nat (length c), t_data = c\<rparr>)"

definition pattern_tiles :: "pattern_env \<Rightarrow> 32 word \<Rightarrow> tile list" where
  "pattern_tiles e seq = map (pattern_tile e seq) (List.product [0..<tiles_across pattern_height] [0..<tiles_across pattern_width])"

definition pattern_frame :: "pattern_env \<Rightarrow> 64 word \<Rightarrow> 32 word \<Rightarrow> frame_delta" where
  "pattern_frame e now seq =
     (let ts = pattern_tiles e seq
      in \<lparr>fd_seq = seq, fd_ts = now, fd_profile = 1080, fd_width = word_of_nat pattern_width, fd_height = word_of_nat pattern_height,
          fd_tile_size = word_of_nat pattern_tile_size, fd_tile_count = word_of_nat (length ts), fd_tiles = ts\<rparr>)"

text \<open>The next sequence number and the message that is sent.\<close>

definition generateFrame :: "pattern_env \<Rightarrow> 64 word \<Rightarrow> 32 word \<Rightarrow> 32 word \<times> bytes" where
  "generateFrame e now seq = (seq + 1, MarshalMessage MsgFrameDelta (EncodeFrameDelta (pattern_frame e now (seq + 1))))"

section \<open>Starting and stopping\<close>

text \<open>Where a goroutine is: not yet begun, at the top of its loop, in the select with the stop channel it read, or
  sending a frame. The first number is the channel it closes when it ends, which it reads when it begins.\<close>

datatype pattern_loop = New | Top nat | Selecting nat nat | Sending nat | Over

record test_pattern =
  tp_running :: bool
  tp_stop :: nat
  tp_stopped :: nat
  tp_next :: nat
  tp_closed :: "nat list"
  tp_loops :: "pattern_loop list"
  tp_waiting :: "nat list"
  tp_panic :: bool

definition NewTestPattern :: test_pattern where
  "NewTestPattern = \<lparr>tp_running = False, tp_stop = 0, tp_stopped = 1, tp_next = 2, tp_closed = [], tp_loops = [], tp_waiting = [], tp_panic = False\<rparr>"

definition pattern_Start :: "test_pattern \<Rightarrow> test_pattern" where
  "pattern_Start s = (if tp_running s then s
     else s\<lparr>tp_running := True, tp_stop := tp_next s, tp_stopped := tp_next s + 1, tp_next := tp_next s + 2, tp_loops := tp_loops s @ [New]\<rparr>)"

text \<open>Closing a channel a second time panics.\<close>

definition close_chan :: "nat \<Rightarrow> test_pattern \<Rightarrow> test_pattern" where
  "close_chan c s = (if c \<in> set (tp_closed s) then s\<lparr>tp_panic := True\<rparr> else s\<lparr>tp_closed := c # tp_closed s\<rparr>)"

text \<open>The locked part of \<open>Stop\<close>; the call then waits for the channel that was current.\<close>

definition pattern_Stop :: "test_pattern \<Rightarrow> test_pattern" where
  "pattern_Stop s = (if \<not> tp_running s then s
     else let s1 = close_chan (tp_stop s) (s\<lparr>tp_running := False\<rparr>) in s1\<lparr>tp_waiting := tp_waiting s1 @ [tp_stopped s1]\<rparr>)"

definition to_loop :: "nat \<Rightarrow> pattern_loop \<Rightarrow> test_pattern \<Rightarrow> test_pattern" where
  "to_loop i l s = s\<lparr>tp_loops := (tp_loops s)[i := l]\<rparr>"

text \<open>What goroutine \<open>i\<close> does next; \<open>tick\<close> chooses the ticker in the select, and a frame is sent when there is room.\<close>

definition loop_step :: "nat \<Rightarrow> bool \<Rightarrow> test_pattern \<Rightarrow> test_pattern" where
  "loop_step i tick s =
     (if i \<ge> length (tp_loops s) then s
      else case tp_loops s ! i of
        New \<Rightarrow> to_loop i (Top (tp_stopped s)) s
      | Top d \<Rightarrow> to_loop i (Selecting d (tp_stop s)) s
      | Selecting d c \<Rightarrow> if tick then to_loop i (Sending d) s
          else if c \<in> set (tp_closed s) then close_chan d (to_loop i Over s) else s
      | Sending d \<Rightarrow> to_loop i (Top d) s
      | Over \<Rightarrow> s)"

definition stop_returns :: "nat \<Rightarrow> test_pattern \<Rightarrow> test_pattern" where
  "stop_returns d s = (if d \<in> set (tp_waiting s) \<and> d \<in> set (tp_closed s) then s\<lparr>tp_waiting := remove1 d (tp_waiting s)\<rparr> else s)"

datatype pattern_event = Start_Pattern | Stop_Pattern | Loop_Step nat bool | Stop_Returns nat

fun pattern_step :: "pattern_event \<Rightarrow> test_pattern \<Rightarrow> test_pattern" where
  "pattern_step Start_Pattern s = pattern_Start s"
| "pattern_step Stop_Pattern s = pattern_Stop s"
| "pattern_step (Loop_Step i tick) s = loop_step i tick s"
| "pattern_step (Stop_Returns d) s = stop_returns d s"

definition pattern_run :: "pattern_event list \<Rightarrow> test_pattern \<Rightarrow> test_pattern" where
  "pattern_run evs s = foldl (\<lambda>s ev. pattern_step ev s) s evs"

section \<open>Publishers come and go\<close>

text \<open>The parts of \<open>HandlePublish\<close> for the default agent that touch the pattern: the slot is taken under the session's lock,
  then \<open>Stop\<close> is called; at the end the slot is given back under the lock, then \<open>Start\<close> is called.\<close>

record pattern_site =
  si_taken :: bool
  si_to_stop :: nat
  si_to_start :: nat
  si_pattern :: test_pattern

datatype site_event = Take_Slot | Call_Stop | Free_Slot | Call_Start

fun site_step :: "site_event \<Rightarrow> pattern_site \<Rightarrow> pattern_site" where
  "site_step Take_Slot s = (if si_taken s then s else s\<lparr>si_taken := True, si_to_stop := si_to_stop s + 1\<rparr>)"
| "site_step Call_Stop s = (if si_to_stop s = 0 then s else s\<lparr>si_to_stop := si_to_stop s - 1, si_pattern := pattern_Stop (si_pattern s)\<rparr>)"
| "site_step Free_Slot s = (if si_taken s then s\<lparr>si_taken := False, si_to_start := si_to_start s + 1\<rparr> else s)"
| "site_step Call_Start s = (if si_to_start s = 0 then s else s\<lparr>si_to_start := si_to_start s - 1, si_pattern := pattern_Start (si_pattern s)\<rparr>)"

definition site_run :: "site_event list \<Rightarrow> pattern_site \<Rightarrow> pattern_site" where
  "site_run evs s = foldl (\<lambda>s ev. site_step ev s) s evs"

definition site_start :: pattern_site where
  "site_start = \<lparr>si_taken = False, si_to_stop = 0, si_to_start = 0, si_pattern = pattern_Start NewTestPattern\<rparr>"

section \<open>The frames are shown as drawn\<close>

lemma pattern_numbers [simp]:
  "tiles_across pattern_width = 15" "tiles_across pattern_height = 9"
  by (simp_all add: tiles_across_def pattern_width_def pattern_height_def pattern_tile_size_def)

lemma tile_extents:
  "tx < 15 \<Longrightarrow> tile_extent_of pattern_width tx = 128" "ty < 9 \<Longrightarrow> tile_extent_of pattern_height ty = (if ty = 8 then 56 else 128)"
  by (auto simp: tile_extent_of_def pattern_width_def pattern_height_def pattern_tile_size_def)

lemma pattern_frame_ok:
  assumes "\<And>x. length (pe_zstd e x) < 2 ^ 32"
  shows "frame_ok (pattern_frame e now seq)"
proof -
  have "tile_ok (pattern_tile e seq p)" for p
    using assms by (cases p) (simp add: pattern_tile_def tile_ok_def Let_def unat_of_nat take_bit_eq_mod)
  then show ?thesis by (simp add: frame_ok_def pattern_frame_def pattern_tiles_def Let_def list_all_iff)
qed

text \<open>A receiver reads the frame back.\<close>

lemma pattern_frame_read:
  assumes "\<And>x. length (pe_zstd e x) < 2 ^ 32"
  shows "DecodeFrameDelta (drop HeaderSize (snd (generateFrame e now seq))) = Inr (pattern_frame e now (seq + 1))"
  using DecodeFrameDelta_enc [OF pattern_frame_ok [OF assms], of now "seq + 1" "[]"]
  by (simp add: generateFrame_def drop_MarshalMessage)

text \<open>The relay infers the size of a tile from its pixels; for every tile of the pattern this is the size it was drawn with.\<close>

lemma pattern_tile_decoded:
  assumes "\<And>x. zstd (pe_zstd e x) = Some x" and "tx < 15" "ty < 9" "pe_colour e seq tx ty = (r, g, b)"
  shows "decodeTile jpeg zstd (pattern_tile e seq (ty, tx)) pattern_tile_size = Some
    \<lparr>im_w = tile_extent_of pattern_width tx, im_h = tile_extent_of pattern_height ty,
     im_pix = replicate (tile_extent_of pattern_width tx * tile_extent_of pattern_height ty) (r, g, b, 255)\<rparr>"
proof -
  let ?w = "tile_extent_of pattern_width tx" and ?h = "tile_extent_of pattern_height ty"
  have n: "?w = 128" "?h = 56 \<or> ?h = 128" using tile_extents assms(2,3) by auto
  let ?raw = "concat (replicate (?w * ?h) [b, g, r, 255])"
  have raw: "tile_pixels e seq tx ty = ?raw" by (simp add: tile_pixels_def assms(4))
  have l: "length (concat (replicate m [b, g, r, 255])) = 4 * m" for m by (induction m) simp_all
  have px: "bgra_pixel (concat (replicate m [b, g, r, 255])) i = (r, g, b, 255)" if "i < m" for m i
    using that
  proof (induction m arbitrary: i)
    case (Suc m)
    then show ?case by (cases i) (simp_all add: bgra_pixel_def ac_simps)
  qed simp
  have all: "map (bgra_pixel ?raw) [0..<?w * ?h] = replicate (?w * ?h) (r, g, b, 255)"
    by (rule nth_equalityI) (simp_all add: px)
  have d: "t_data (pattern_tile e seq (ty, tx)) = pe_zstd e ?raw" "t_codec (pattern_tile e seq (ty, tx)) = CodecZstdRawBGRA"
    by (simp_all add: pattern_tile_def raw Let_def)
  have c: "\<not> length ?raw < 4" "length ?raw div 4 = ?w * ?h" "\<not> pattern_tile_size > ?w * ?h" "?w * ?h div pattern_tile_size = ?h"
    using n unfolding l by (auto simp: pattern_tile_size_def)
  have w: "pattern_tile_size = ?w" using n(1) by (simp add: pattern_tile_size_def)
  show ?thesis unfolding decodeTile_def d assms(1) Let_def
    using c all w by (simp add: CodecJPEG_def CodecZstdRawBGRA_def)
qed

section \<open>Orderly use\<close>

text \<open>As long as \<open>Start\<close> is not called while a \<open>Stop\<close> waits, there is at most one goroutine, it is there just while the
  pattern runs or a \<open>Stop\<close> waits for it, and no channel is closed twice.\<close>

fun orderly_pattern :: "pattern_event list \<Rightarrow> test_pattern \<Rightarrow> bool" where
  "orderly_pattern [] s = True"
| "orderly_pattern (ev # evs) s = ((ev = Start_Pattern \<longrightarrow> tp_waiting s = []) \<and> orderly_pattern evs (pattern_step ev s))"

definition current :: "test_pattern \<Rightarrow> pattern_loop \<Rightarrow> bool" where
  "current s l = (l \<in> {New, Top (tp_stopped s), Selecting (tp_stopped s) (tp_stop s), Sending (tp_stopped s)})"

definition only_loop :: "test_pattern \<Rightarrow> bool" where
  "only_loop s = (\<exists>i<length (tp_loops s). current s (tp_loops s ! i) \<and> (\<forall>j<length (tp_loops s). j \<noteq> i \<longrightarrow> tp_loops s ! j = Over))"

definition no_loop :: "test_pattern \<Rightarrow> bool" where
  "no_loop s = (\<forall>j<length (tp_loops s). tp_loops s ! j = Over)"

definition chans_ok :: "test_pattern \<Rightarrow> bool" where
  "chans_ok s = (\<not> tp_panic s \<and> tp_stop s \<noteq> tp_stopped s \<and> tp_stop s < tp_next s \<and> tp_stopped s < tp_next s \<and> (\<forall>c\<in>set (tp_closed s). c < tp_next s))"

definition pattern_ok :: "test_pattern \<Rightarrow> bool" where
  "pattern_ok s = (chans_ok s \<and>
     (if tp_running s then only_loop s \<and> tp_waiting s = [] \<and> tp_stop s \<notin> set (tp_closed s) \<and> tp_stopped s \<notin> set (tp_closed s)
      else no_loop s \<and> set (tp_waiting s) \<subseteq> set (tp_closed s)
         \<or> only_loop s \<and> tp_waiting s = [tp_stopped s] \<and> tp_stop s \<in> set (tp_closed s) \<and> tp_stopped s \<notin> set (tp_closed s)))"

lemma close_chan_frames [simp]:
  "tp_running (close_chan c s) = tp_running s" "tp_waiting (close_chan c s) = tp_waiting s" "tp_loops (close_chan c s) = tp_loops s"
  by (simp_all add: close_chan_def)

lemma ok_new: "pattern_ok NewTestPattern"
  by (simp add: pattern_ok_def chans_ok_def no_loop_def NewTestPattern_def)

lemma ok_start:
  assumes "pattern_ok s" "tp_waiting s = []"
  shows "pattern_ok (pattern_Start s)"
proof (cases "tp_running s")
  case False
  with assms have n: "no_loop s" "chans_ok s" by (auto simp: pattern_ok_def)
  let ?s = "pattern_Start s"
  have "only_loop ?s" unfolding only_loop_def
    by (rule exI [of _ "length (tp_loops s)"]) (use n(1) False in \<open>auto simp: pattern_Start_def current_def no_loop_def nth_append\<close>)
  moreover have "chans_ok ?s" "tp_stop ?s \<notin> set (tp_closed ?s)" "tp_stopped ?s \<notin> set (tp_closed ?s)"
    using n(2) False by (auto simp: pattern_Start_def chans_ok_def dest: bspec)
  ultimately show ?thesis using False assms(2) by (simp add: pattern_ok_def pattern_Start_def)
qed (use assms in \<open>simp add: pattern_Start_def\<close>)

lemma ok_stop:
  assumes "pattern_ok s"
  shows "pattern_ok (pattern_Stop s)"
proof (cases "tp_running s")
  case True
  with assms have o: "only_loop s" "chans_ok s" "tp_waiting s = []" "tp_stop s \<notin> set (tp_closed s)" "tp_stopped s \<notin> set (tp_closed s)"
    by (simp_all add: pattern_ok_def)
  then have "only_loop (pattern_Stop s)" using True
    by (simp add: pattern_Stop_def close_chan_def only_loop_def current_def Let_def)
  with o True show ?thesis by (simp add: pattern_ok_def pattern_Stop_def close_chan_def chans_ok_def Let_def)
qed (use assms in \<open>simp add: pattern_Stop_def\<close>)

lemma only_loop_to:
  assumes "only_loop s" "i < length (tp_loops s)" "tp_loops s ! i \<noteq> Over"
  shows "current s (tp_loops s ! i)" "current s l \<Longrightarrow> only_loop (to_loop i l s)" "no_loop (to_loop i Over s)"
proof -
  obtain k where k: "k < length (tp_loops s)" "current s (tp_loops s ! k)" "\<And>j. j < length (tp_loops s) \<Longrightarrow> j \<noteq> k \<Longrightarrow> tp_loops s ! j = Over"
    using assms(1) by (auto simp: only_loop_def)
  have i: "i = k" using k(3) [OF assms(2)] assms(3) by blast
  show "current s (tp_loops s ! i)" using k(2) i by simp
  show "only_loop (to_loop i l s)" if "current s l"
    unfolding only_loop_def by (rule exI [of _ i]) (use k i that in \<open>auto simp: to_loop_def current_def nth_list_update\<close>)
  show "no_loop (to_loop i Over s)" using k i by (auto simp: no_loop_def to_loop_def nth_list_update)
qed

lemma ok_loop:
  assumes "pattern_ok s"
  shows "pattern_ok (loop_step i tick s)"
proof (cases "i < length (tp_loops s) \<and> tp_loops s ! i \<noteq> Over")
  case True
  with assms have o: "only_loop s" "chans_ok s" "tp_stopped s \<notin> set (tp_closed s)"
    and w: "tp_running s \<and> tp_waiting s = [] \<and> tp_stop s \<notin> set (tp_closed s)
      \<or> \<not> tp_running s \<and> tp_waiting s = [tp_stopped s] \<and> tp_stop s \<in> set (tp_closed s)"
    by (auto simp: pattern_ok_def no_loop_def split: if_splits)
  note one = only_loop_to [OF o(1) conjunct1 [OF True] conjunct2 [OF True]]
  have move: "pattern_ok (to_loop i l s)" if "current s l" for l
    using one(2) [OF that] o w by (auto simp: pattern_ok_def to_loop_def chans_ok_def)
  have quit: "pattern_ok (close_chan (tp_stopped s) (to_loop i Over s))" if "tp_stop s \<in> set (tp_closed s)"
    using one(3) o w that by (auto simp: pattern_ok_def close_chan_def to_loop_def chans_ok_def no_loop_def)
  from one(1) consider "tp_loops s ! i = New" | "tp_loops s ! i = Top (tp_stopped s)"
    | "tp_loops s ! i = Selecting (tp_stopped s) (tp_stop s)" | "tp_loops s ! i = Sending (tp_stopped s)"
    by (auto simp: current_def)
  then show ?thesis using True assms move quit by cases (auto simp: loop_step_def current_def)
next
  case False
  then have "loop_step i tick s = s" by (auto simp: loop_step_def)
  with assms show ?thesis by simp
qed

lemma ok_returns:
  assumes "pattern_ok s"
  shows "pattern_ok (stop_returns d s)"
proof (cases "d \<in> set (tp_waiting s) \<and> d \<in> set (tp_closed s)")
  case True
  with assms have o: "\<not> tp_running s" "no_loop s" "chans_ok s" "set (tp_waiting s) \<subseteq> set (tp_closed s)"
    by (auto simp: pattern_ok_def split: if_splits)
  then have "set (remove1 d (tp_waiting s)) \<subseteq> set (tp_closed s)" using set_remove1_subset [of d "tp_waiting s"] by blast
  with o True show ?thesis by (simp add: pattern_ok_def stop_returns_def chans_ok_def no_loop_def)
next
  case False
  then have "stop_returns d s = s" by (auto simp: stop_returns_def)
  with assms show ?thesis by simp
qed

lemma orderly_pattern_ok: "pattern_ok s \<Longrightarrow> orderly_pattern evs s \<Longrightarrow> pattern_ok (pattern_run evs s)"
proof (induction evs arbitrary: s)
  case (Cons ev evs)
  have "pattern_ok (pattern_step ev s)"
    using Cons.prems ok_start ok_stop ok_loop ok_returns by (cases ev) auto
  with Cons show ?case by (simp add: pattern_run_def)
qed (simp add: pattern_run_def)

text \<open>A \<open>Stop\<close> that waits can always return: the goroutine ends within four of its steps (a frame it is
  sending needs room in the session's channel).\<close>

lemma stop_can_return:
  assumes "orderly_pattern evs NewTestPattern" "tp_waiting (pattern_run evs NewTestPattern) \<noteq> []"
  shows "\<exists>i. set (tp_waiting (pattern_run evs NewTestPattern)) \<subseteq> set (tp_closed ((loop_step i False ^^ 4) (pattern_run evs NewTestPattern)))"
proof -
  let ?s = "pattern_run evs NewTestPattern"
  have ok: "pattern_ok ?s" by (rule orderly_pattern_ok [OF ok_new assms(1)])
  have keep: "set (tp_closed t) \<subseteq> set (tp_closed (loop_step i b t))" for i b t
    by (auto simp: loop_step_def to_loop_def close_chan_def split: pattern_loop.split)
  have keeps: "set (tp_closed t) \<subseteq> set (tp_closed ((loop_step i b ^^ n) t))" for i b t n
    using keep by (induction n) (simp, fastforce)
  show ?thesis
  proof (cases "no_loop ?s \<and> set (tp_waiting ?s) \<subseteq> set (tp_closed ?s)")
    case True
    with keeps [where t = ?s and i = 0 and b = False and n = 4] show ?thesis by blast
  next
    case False
    with ok assms(2) have o: "only_loop ?s" "tp_waiting ?s = [tp_stopped ?s]" "tp_stop ?s \<in> set (tp_closed ?s)" "tp_stopped ?s \<notin> set (tp_closed ?s)"
      by (auto simp: pattern_ok_def split: if_splits)
    then obtain i where i: "i < length (tp_loops ?s)" "current ?s (tp_loops ?s ! i)" by (auto simp: only_loop_def)
    have "tp_stopped ?s \<in> set (tp_closed ((loop_step i False ^^ 4) ?s))"
      using i o(3) by (auto simp: current_def loop_step_def to_loop_def close_chan_def numeral_eq_Suc)
    with o(2) show ?thesis by auto
  qed
qed

section \<open>What goes wrong otherwise\<close>

text \<open>A \<open>Start\<close> while a \<open>Stop\<close> waits, before the old goroutine has begun: both goroutines take the new channels, the first
  \<open>Stop\<close> never returns, and the next one makes both close the same channel, which panics.\<close>

lemma restart_panics:
  "tp_panic (pattern_run [Start_Pattern, Stop_Pattern, Start_Pattern, Loop_Step 0 False, Loop_Step 1 False, Loop_Step 0 False, Loop_Step 1 False,
     Stop_Pattern, Loop_Step 0 False, Loop_Step 1 False] NewTestPattern)"
  by code_simp

text \<open>A new publisher takes the slot between the two parts of the old one's end: the pattern is then started and runs
  while the new publisher sends.\<close>

lemma handover_mixes_pictures:
  "si_taken (site_run [Take_Slot, Call_Stop, Free_Slot, Take_Slot, Call_Stop, Call_Start] site_start)"
  "tp_running (si_pattern (site_run [Take_Slot, Call_Stop, Free_Slot, Take_Slot, Call_Stop, Call_Start] site_start))"
  by code_simp+

text \<open>When each call follows its change of the slot before the next change, the pattern runs just while the slot is free.\<close>

lemma orderly_handover:
  "site_step Call_Stop (site_step Take_Slot s) = s' \<Longrightarrow> tp_running (si_pattern s) = (\<not> si_taken s) \<Longrightarrow> si_to_stop s = 0
     \<Longrightarrow> tp_running (si_pattern s') = (\<not> si_taken s') \<and> si_to_stop s' = 0"
  "site_step Call_Start (site_step Free_Slot s) = s' \<Longrightarrow> tp_running (si_pattern s) = (\<not> si_taken s) \<Longrightarrow> si_to_start s = 0
     \<Longrightarrow> tp_running (si_pattern s') = (\<not> si_taken s') \<and> si_to_start s' = 0"
  by (auto simp: pattern_Stop_def pattern_Start_def Let_def)

end
