(* ===== verification/Plates.thy ===== *)
theory Plates
  imports Complex_Main Ov_Prelude
begin

text \<open>
  Plate recognition, \<^verbatim>\<open>relay/lpr/\<close>: the pictures (\<^verbatim>\<open>image.go\<close>), the decoding of what the two networks answer
  (\<^verbatim>\<open>detect.go\<close>), the settings (\<^verbatim>\<open>config.go\<close>, \<^verbatim>\<open>lpr.go\<close>) and the engine (\<^verbatim>\<open>engine_onnx.go\<close>, \<^verbatim>\<open>engine_stub.go\<close>).
  Floating-point numbers are a type with the operations of the record \<open>floats\<close>, in the order the code applies them; what
  a lemma needs of them is a hypothesis, which the rational numbers satisfy. An index out of range is None, Go's
  panic. JPEG, YAML, the number syntax and the networks are parameters.
\<close>

section \<open>Numbers\<close>

text \<open>\<open>fl_lit n d\<close> is the constant n/d, \<open>fl_int\<close> truncates, and \<open>fl_single\<close> rounds to 32 bits.\<close>

record 'f floats =
  fl_lit :: "int \<Rightarrow> int \<Rightarrow> 'f"
  fl_add :: "'f \<Rightarrow> 'f \<Rightarrow> 'f"
  fl_sub :: "'f \<Rightarrow> 'f \<Rightarrow> 'f"
  fl_mul :: "'f \<Rightarrow> 'f \<Rightarrow> 'f"
  fl_div :: "'f \<Rightarrow> 'f \<Rightarrow> 'f"
  fl_less :: "'f \<Rightarrow> 'f \<Rightarrow> bool"
  fl_int :: "'f \<Rightarrow> int"
  fl_floor :: "'f \<Rightarrow> int"
  fl_round :: "'f \<Rightarrow> int"
  fl_exp :: "'f \<Rightarrow> 'f"
  fl_single :: "'f \<Rightarrow> 'f"

definition fl_min :: "'f floats \<Rightarrow> 'f \<Rightarrow> 'f \<Rightarrow> 'f" where
  "fl_min fl a b = (if fl_less fl b a then b else a)"

definition fl_sum :: "'f floats \<Rightarrow> 'f list \<Rightarrow> 'f" where
  "fl_sum fl xs = foldl (fl_add fl) (fl_lit fl 0 1) xs"

definition clamp :: "int \<Rightarrow> int \<Rightarrow> int \<Rightarrow> int" where
  "clamp v lo hi = (if v < lo then lo else if v > hi then hi else v)"

section \<open>Pictures\<close>

record rgb_image =
  rg_w :: nat
  rg_h :: nat
  rg_rgb :: bytes

definition no_image :: rgb_image where
  "no_image = \<lparr>rg_w = 0, rg_h = 0, rg_rgb = []\<rparr>"

definition byte_at :: "bytes \<Rightarrow> nat \<Rightarrow> byte option" where
  "byte_at xs i = (if i < length xs then Some (xs ! i) else None)"

definition bytes3_at :: "bytes \<Rightarrow> nat \<Rightarrow> bytes option" where
  "bytes3_at xs i = (if i + 2 < length xs then Some [xs ! i, xs ! (i + 1), xs ! (i + 2)] else None)"

text \<open>The pixels of a picture row by row; \<open>f y x\<close> gives the three bytes of one.\<close>

definition by_pixel :: "nat \<Rightarrow> nat \<Rightarrow> (nat \<Rightarrow> nat \<Rightarrow> bytes option) \<Rightarrow> rgb_image option" where
  "by_pixel w h f = map_option (\<lambda>ps. \<lparr>rg_w = w, rg_h = h, rg_rgb = concat ps\<rparr>)
     (those (map (\<lambda>(y, x). f y x) (List.product [0..<h] [0..<w])))"

text \<open>What \<open>jpeg.Decode\<close> returns: pixels of four bytes with a stride, or 16-bit values by position.\<close>

datatype jpeg_image = Strided nat nat bytes nat | Sampled nat nat "nat \<Rightarrow> nat \<Rightarrow> 16 word \<times> 16 word \<times> 16 word"

definition copyRGB :: "nat \<Rightarrow> nat \<Rightarrow> bytes \<Rightarrow> nat \<Rightarrow> rgb_image option" where
  "copyRGB w h pix stride = by_pixel w h (\<lambda>y x. bytes3_at pix (y * stride + x * 4))"

definition fillRGB :: "nat \<Rightarrow> nat \<Rightarrow> (nat \<Rightarrow> nat \<Rightarrow> 16 word \<times> 16 word \<times> 16 word) \<Rightarrow> rgb_image option" where
  "fillRGB w h px = by_pixel w h (\<lambda>y x. case px x y of (r, g, b) \<Rightarrow> Some [ucast (drop_bit 8 r), ucast (drop_bit 8 g), ucast (drop_bit 8 b)])"

definition decodeJPEG :: "(bytes \<Rightarrow> jpeg_image option) \<Rightarrow> bytes \<Rightarrow> rgb_image option option" where
  "decodeJPEG jpeg data = map_option (\<lambda>m. case m of Strided w h pix stride \<Rightarrow> copyRGB w h pix stride | Sampled w h px \<Rightarrow> fillRGB w h px) (jpeg data)"

definition slice_at :: "bytes \<Rightarrow> nat \<Rightarrow> nat \<Rightarrow> bytes option" where
  "slice_at xs i n = (if i + n \<le> length xs then Some (take n (drop i xs)) else None)"

definition crop :: "rgb_image \<Rightarrow> int \<Rightarrow> int \<Rightarrow> int \<Rightarrow> int \<Rightarrow> rgb_image option" where
  "crop im a b c d =
     (let x1 = nat (clamp a 0 (int (rg_w im))); y1 = nat (clamp b 0 (int (rg_h im)));
          x2 = nat (clamp c 0 (int (rg_w im))); y2 = nat (clamp d 0 (int (rg_h im)))
      in if x2 \<le> x1 \<or> y2 \<le> y1 then Some no_image
         else map_option (\<lambda>rows. \<lparr>rg_w = x2 - x1, rg_h = y2 - y1, rg_rgb = concat rows\<rparr>)
           (those (map (\<lambda>y. slice_at (rg_rgb im) (((y + y1) * rg_w im + x1) * 3) ((x2 - x1) * 3)) [0..<y2 - y1])))"

definition heuristic_box :: "'f floats \<Rightarrow> rgb_image \<Rightarrow> int \<times> int \<times> int \<times> int" where
  "heuristic_box fl im =
     (let part = (\<lambda>n k. fl_int fl (fl_mul fl (fl_lit fl (int n) 1) k))
      in (part (rg_w im) (fl_lit fl 2 10), part (rg_h im) (fl_lit fl 45 100), part (rg_w im) (fl_lit fl 8 10), part (rg_h im) (fl_lit fl 9 10)))"

section \<open>Scaling\<close>

definition lerp :: "'f floats \<Rightarrow> 'f \<Rightarrow> 'f \<Rightarrow> 'f \<Rightarrow> 'f" where
  "lerp fl a b t = fl_add fl a (fl_mul fl (fl_sub fl b a) t)"

definition sample :: "'f floats \<Rightarrow> 'f \<Rightarrow> 'f \<Rightarrow> byte \<Rightarrow> byte \<Rightarrow> byte \<Rightarrow> byte \<Rightarrow> byte" where
  "sample fl dx dy v00 v10 v01 v11 =
     (let f = (\<lambda>v. fl_lit fl (uint v) 1)
      in word_of_int (fl_int fl (fl_add fl (lerp fl (lerp fl (f v00) (f v10) dx) (lerp fl (f v01) (f v11) dx) dy) (fl_lit fl 1 2))))"

text \<open>Negative indices are out of range like those past the end.\<close>

definition pixel_at :: "rgb_image \<Rightarrow> int \<Rightarrow> int \<Rightarrow> bytes option" where
  "pixel_at im x y = (let i = (y * int (rg_w im) + x) * 3 in if i < 0 then None else bytes3_at (rg_rgb im) (nat i))"

definition bilinearSample :: "'f floats \<Rightarrow> rgb_image \<Rightarrow> 'f \<Rightarrow> 'f \<Rightarrow> bytes option" where
  "bilinearSample fl im fx fy =
     (let x0 = fl_floor fl fx; y0 = fl_floor fl fy;
          x1 = min (x0 + 1) (int (rg_w im) - 1); y1 = min (y0 + 1) (int (rg_h im) - 1);
          dx = fl_sub fl fx (fl_lit fl x0 1); dy = fl_sub fl fy (fl_lit fl y0 1)
      in case (pixel_at im x0 y0, pixel_at im x1 y0, pixel_at im x0 y1, pixel_at im x1 y1) of
           (Some a, Some b, Some c, Some d) \<Rightarrow> Some (map (\<lambda>k. sample fl dx dy (a ! k) (b ! k) (c ! k) (d ! k)) [0..<3])
         | _ \<Rightarrow> None)"

text \<open>The position in \<open>m\<close> points that belongs to point \<open>i\<close> of \<open>n\<close>.\<close>

definition grid_pos :: "'f floats \<Rightarrow> nat \<Rightarrow> nat \<Rightarrow> nat \<Rightarrow> 'f" where
  "grid_pos fl m n i = fl_div fl (fl_mul fl (fl_lit fl (int i) 1) (fl_lit fl (int m - 1) 1)) (fl_lit fl (max (int n - 1) 1) 1)"

definition resizeRGB :: "'f floats \<Rightarrow> rgb_image \<Rightarrow> int \<Rightarrow> int \<Rightarrow> rgb_image option" where
  "resizeRGB fl im nw nh =
     (if nw \<le> 0 \<or> nh \<le> 0 then Some no_image
      else by_pixel (nat nw) (nat nh) (\<lambda>y x. bilinearSample fl im (grid_pos fl (rg_w im) (nat nw) x) (grid_pos fl (rg_h im) (nat nh) y)))"

record 'f letterbox =
  lb_tensor :: "'f list"
  lb_ratio :: 'f
  lb_pad_w :: 'f
  lb_pad_h :: 'f

text \<open>Half of what is left beside \<open>n\<close> of \<open>side\<close> points, and the whole points of it before and after.\<close>

definition half_pad :: "'f floats \<Rightarrow> int \<Rightarrow> int \<Rightarrow> 'f" where
  "half_pad fl side n = fl_div fl (fl_sub fl (fl_lit fl side 1) (fl_lit fl n 1)) (fl_lit fl 2 1)"

definition pad_before :: "'f floats \<Rightarrow> 'f \<Rightarrow> int" where
  "pad_before fl p = fl_round fl (fl_sub fl p (fl_lit fl 1 10))"

definition pad_after :: "'f floats \<Rightarrow> 'f \<Rightarrow> int" where
  "pad_after fl p = fl_round fl (fl_add fl p (fl_lit fl 1 10))"

definition fit_ratio :: "'f floats \<Rightarrow> int \<Rightarrow> int \<Rightarrow> rgb_image \<Rightarrow> 'f" where
  "fit_ratio fl tw th im = fl_min fl (fl_div fl (fl_lit fl th 1) (fl_lit fl (int (rg_h im)) 1)) (fl_div fl (fl_lit fl tw 1) (fl_lit fl (int (rg_w im)) 1))"

definition scaled :: "'f floats \<Rightarrow> 'f \<Rightarrow> nat \<Rightarrow> int" where
  "scaled fl r n = fl_round fl (fl_mul fl (fl_lit fl (int n) 1) r)"

definition letterboxRGB :: "'f floats \<Rightarrow> rgb_image \<Rightarrow> int \<Rightarrow> 'f letterbox option" where
  "letterboxRGB fl im side =
     (let r = fit_ratio fl side side im; nw = scaled fl r (rg_w im); nh = scaled fl r (rg_h im);
          pw = half_pad fl side nw; ph = half_pad fl side nh; left = pad_before fl pw; top = pad_before fl ph;
          cw = nw + left + pad_after fl pw; ch = nh + top + pad_after fl ph
      in case resizeRGB fl im nw nh of None \<Rightarrow> None
         | Some rs \<Rightarrow> map_option (\<lambda>ps. \<lparr>lb_tensor = concat (map (\<lambda>k. map (\<lambda>p. fl_single fl (fl_div fl (fl_lit fl (uint (p ! k)) 1) (fl_lit fl 255 1))) ps) [0..<3]),
               lb_ratio = r, lb_pad_w = pw, lb_pad_h = ph\<rparr>)
             (those (map (\<lambda>(y, x). if top \<le> y \<and> y < top + nh \<and> left \<le> x \<and> x < left + nw
                  then bytes3_at (rg_rgb rs) (nat (((y - top) * nw + (x - left)) * 3)) else Some [114, 114, 114])
                (List.product [0..ch - 1] [0..cw - 1]))))"

fun gray_bytes :: "bytes \<Rightarrow> bytes option" where
  "gray_bytes [] = Some []"
| "gray_bytes (r # g # b # xs) =
     (let y = word_of_int ((19595 * uint r + 38470 * uint g + 7471 * uint b + 32768) div 65536)
      in map_option (\<lambda>ys. y # y # y # ys) (gray_bytes xs))"
| "gray_bytes _ = None"

definition toGrayRGB :: "rgb_image \<Rightarrow> rgb_image option" where
  "toGrayRGB im = map_option (\<lambda>bs. im\<lparr>rg_rgb := bs\<rparr>) (gray_bytes (rg_rgb im))"

text \<open>One pixel is copied into the picture; an index past the end panics.\<close>

definition put3 :: "int \<Rightarrow> bytes option \<Rightarrow> bytes \<Rightarrow> bytes option" where
  "put3 i p xs = (case p of None \<Rightarrow> None
     | Some p \<Rightarrow> if i < 0 \<or> nat i + 2 \<ge> length xs then None else Some (take (nat i) xs @ p @ drop (nat i + 3) xs))"

fun put_pixels :: "(int \<times> bytes option) list \<Rightarrow> bytes \<Rightarrow> bytes option" where
  "put_pixels [] xs = Some xs"
| "put_pixels ((i, p) # ps) xs = Option.bind (put3 i p xs) (put_pixels ps)"

definition letterboxPlate :: "'f floats \<Rightarrow> rgb_image \<Rightarrow> nat \<Rightarrow> nat \<Rightarrow> rgb_image option" where
  "letterboxPlate fl im tw th =
     (let r = fit_ratio fl (int tw) (int th) im; nw = scaled fl r (rg_w im); nh = scaled fl r (rg_h im);
          dw = sgn (int tw - nw) * (\<bar>int tw - nw\<bar> div 2); dh = sgn (int th - nh) * (\<bar>int th - nh\<bar> div 2)
      in case resizeRGB fl im nw nh of None \<Rightarrow> None
         | Some rs \<Rightarrow> map_option (\<lambda>out. \<lparr>rg_w = tw, rg_h = th, rg_rgb = out\<rparr>)
             (put_pixels (map (\<lambda>(y, x). (((y + dh) * int tw + (x + dw)) * 3, bytes3_at (rg_rgb rs) (nat ((y * nw + x) * 3))))
                 (List.product [0..nh - 1] [0..nw - 1])) (replicate (tw * th * 3) 114)))"

section \<open>Settings\<close>

record plate_config =
  pc_slots :: nat
  pc_alphabet :: string
  pc_pad :: string
  pc_height :: nat
  pc_width :: nat
  pc_keep_aspect :: bool
  pc_mode :: string

definition resizePlateRGB :: "'f floats \<Rightarrow> plate_config \<Rightarrow> rgb_image \<Rightarrow> rgb_image option" where
  "resizePlateRGB fl c im =
     (let mode = (if pc_mode c = [] then ''grayscale'' else pc_mode c)
      in Option.bind (if mode = ''grayscale'' then toGrayRGB im else Some im)
        (\<lambda>src. if pc_keep_aspect c then letterboxPlate fl src (pc_width c) (pc_height c)
               else resizeRGB fl src (int (pc_width c)) (int (pc_height c))))"

definition plate_channels :: "plate_config \<Rightarrow> nat" where
  "plate_channels c = (if pc_mode c = ''grayscale'' then 1 else 3)"

definition plateTensorUint8 :: "'f floats \<Rightarrow> plate_config \<Rightarrow> rgb_image \<Rightarrow> bytes option" where
  "plateTensorUint8 fl c im = Option.bind (resizePlateRGB fl c im) (\<lambda>rs.
     if plate_channels c = 1 then those (map (\<lambda>i. byte_at (rg_rgb rs) (i * 3)) [0..<rg_w rs * rg_h rs])
     else let n = rg_h rs * rg_w rs * 3 in Some (take n (rg_rgb rs) @ replicate (n - length (rg_rgb rs)) 0))"

record 'f lpr_config =
  lc_enabled :: bool
  lc_lib :: string
  lc_detector :: string
  lc_ocr :: string
  lc_ocr_config :: string
  lc_det_conf :: 'f
  lc_min_conf :: 'f

text \<open>\<open>pf32\<close> and \<open>pf64\<close> are \<open>strconv.ParseFloat\<close>.\<close>

definition ConfigFromEnv :: "'f floats \<Rightarrow> (string \<Rightarrow> 'f option) \<Rightarrow> (string \<Rightarrow> 'f option) \<Rightarrow> (string \<Rightarrow> string) \<Rightarrow> 'f lpr_config" where
  "ConfigFromEnv fl pf32 pf64 env =
     (let num = (\<lambda>pf key d. if env key = [] then d else case pf (env key) of None \<Rightarrow> d | Some f \<Rightarrow> f)
      in \<lparr>lc_enabled = (env ''RELAY_LPR'' = ''1'' \<or> env ''RELAY_LPR'' = ''true''), lc_lib = env ''ORT_LIB_PATH'',
          lc_detector = env ''RELAY_LPR_DETECTOR'', lc_ocr = env ''RELAY_LPR_OCR'', lc_ocr_config = env ''RELAY_LPR_OCR_CONFIG'',
          lc_det_conf = num pf32 ''RELAY_LPR_DET_CONF'' (fl_lit fl 25 100), lc_min_conf = num pf64 ''RELAY_LPR_MIN_CONF'' (fl_lit fl 1 2)\<rparr>)"

section \<open>What the networks answer\<close>

record 'f detection =
  dt_box :: "int \<times> int \<times> int \<times> int"
  dt_conf :: 'f

definition detection_of :: "'f floats \<Rightarrow> 'f \<Rightarrow> 'f \<Rightarrow> 'f \<Rightarrow> 'f list \<Rightarrow> 'f detection" where
  "detection_of fl ratio pw ph row =
     (let back = (\<lambda>v pad. fl_int fl (fl_add fl (fl_div fl (fl_sub fl v pad) ratio) (fl_lit fl 1 2)))
      in \<lparr>dt_box = (back (row ! 1) pw, back (row ! 2) ph, back (row ! 3) pw, back (row ! 4) ph), dt_conf = row ! 6\<rparr>)"

definition decodeYoloV9End2End :: "'f floats \<Rightarrow> 'f list \<Rightarrow> nat \<Rightarrow> nat \<Rightarrow> 'f \<Rightarrow> 'f \<Rightarrow> 'f \<Rightarrow> 'f \<Rightarrow> 'f detection list" where
  "decodeYoloV9End2End fl raw rows cols ratio pw ph thr =
     (if rows = 0 \<or> cols < 7 then [] else if length raw < rows * cols then []
      else map (detection_of fl ratio pw ph) (filter (\<lambda>row. \<not> fl_less fl (row ! 6) thr)
        (map (\<lambda>i. take cols (drop (i * cols) raw)) [0..<rows])))"

definition bestDetection :: "'f floats \<Rightarrow> 'f detection list \<Rightarrow> 'f detection option" where
  "bestDetection fl ds = (case ds of [] \<Rightarrow> None
     | d # ds \<Rightarrow> Some (foldl (\<lambda>best d. if fl_less fl (dt_conf best) (dt_conf d) then d else best) d ds))"

definition meanConfidence :: "'f floats \<Rightarrow> 'f list \<Rightarrow> 'f" where
  "meanConfidence fl ps = (if ps = [] then fl_lit fl 0 1 else fl_div fl (fl_sum fl ps) (fl_lit fl (int (length ps)) 1))"

text \<open>The first of the largest entries.\<close>

definition best_index :: "'f floats \<Rightarrow> 'f list \<Rightarrow> nat" where
  "best_index fl xs = foldl (\<lambda>best j. if fl_less fl (xs ! best) (xs ! j) then j else best) 0 [1..<length xs]"

definition softmax_best :: "'f floats \<Rightarrow> 'f list \<Rightarrow> 'f" where
  "softmax_best fl xs =
     (let top = xs ! best_index fl xs; e = (\<lambda>x. fl_exp fl (fl_single fl (fl_sub fl x top)))
      in fl_single fl (fl_div fl (e top) (fl_sum fl (map e xs))))"

text \<open>A byte as a string is the character with that number, in UTF-8.\<close>

definition byte_string :: "char \<Rightarrow> string" where
  "byte_string c = (if char_val c < 128 then [c] else [char_of (192 + char_val c div 64), char_of (128 + char_val c mod 64)])"

definition trimRightRunes :: "string \<Rightarrow> string \<Rightarrow> string" where
  "trimRightRunes s pad = rev (dropWhile (\<lambda>c. byte_string c = pad) (rev s))"

definition decodePlateOCR :: "'f floats \<Rightarrow> plate_config \<Rightarrow> 'f list \<Rightarrow> string \<times> 'f" where
  "decodePlateOCR fl c raw =
     (let vocab = length (pc_alphabet c)
      in if vocab = 0 \<or> pc_slots c = 0 \<or> length raw < pc_slots c * vocab then ([], fl_lit fl 0 1)
         else let slots = map (\<lambda>s. take vocab (drop (s * vocab) raw)) [0..<pc_slots c];
                  plate = map (\<lambda>xs. pc_alphabet c ! best_index fl xs) slots
              in (if pc_pad c \<noteq> [] then trimRightRunes plate (pc_pad c) else plate, meanConfidence fl (map (softmax_best fl) slots)))"

section \<open>The engine\<close>

text \<open>What a network is: the sizes of its first input and the numbers of its inputs and outputs.\<close>

record model_info =
  mi_dims :: "int list"
  mi_inputs :: nat
  mi_outputs :: nat

record 'f lpr_world =
  lw_exists :: "string \<Rightarrow> bool"
  lw_init :: "string \<Rightarrow> bool"
  lw_plate_config :: "string \<Rightarrow> plate_config option"
  lw_info :: "string \<Rightarrow> model_info option"
  lw_session :: "string \<Rightarrow> bool"

record 'f engine =
  en_cfg :: "'f lpr_config"
  en_plate :: plate_config
  en_size :: int

definition detector_size :: "'f lpr_world \<Rightarrow> string \<Rightarrow> int option" where
  "detector_size w path = Option.bind (lw_info w path) (\<lambda>i.
     if mi_inputs i = 0 \<or> mi_outputs i = 0 then None
     else case mi_dims i of [_, _, a, b] \<Rightarrow> if a = b \<and> a > 0 \<and> lw_session w path then Some a else None | _ \<Rightarrow> None)"

definition ocr_ready :: "'f lpr_world \<Rightarrow> string \<Rightarrow> bool" where
  "ocr_ready w path = (case lw_info w path of None \<Rightarrow> False | Some i \<Rightarrow> mi_inputs i \<noteq> 0 \<and> mi_outputs i \<noteq> 0 \<and> lw_session w path)"

text \<open>The runtime is initialized once for the process; \<open>ort\<close> is the outcome of that, None before the first engine. The
  third component counts the sessions left open.\<close>

definition newEngine :: "'f lpr_world \<Rightarrow> 'f lpr_config \<Rightarrow> bool option \<Rightarrow> 'f engine option \<times> bool option \<times> nat" where
  "newEngine w cfg ort =
     (if lc_detector cfg = [] \<or> lc_ocr cfg = [] \<or> lc_ocr_config cfg = [] then (None, ort, 0)
      else if \<not> list_all (lw_exists w) [lc_detector cfg, lc_ocr cfg, lc_ocr_config cfg] then (None, ort, 0)
      else let ok = (case ort of None \<Rightarrow> lw_init w (lc_lib cfg) | Some ok \<Rightarrow> ok)
        in if \<not> ok then (None, Some ok, 0)
           else case lw_plate_config w (lc_ocr_config cfg) of None \<Rightarrow> (None, Some ok, 0)
           | Some pc \<Rightarrow> (case detector_size w (lc_detector cfg) of None \<Rightarrow> (None, Some ok, 0)
              | Some n \<Rightarrow> if ocr_ready w (lc_ocr cfg) then (Some \<lparr>en_cfg = cfg, en_plate = pc, en_size = n\<rparr>, Some ok, 2)
                  else (None, Some ok, 0)))"

text \<open>A relay built without the runtime has no engine.\<close>

definition newEngine_stub :: "'f lpr_config \<Rightarrow> 'f engine option" where
  "newEngine_stub cfg = None"

datatype 'f recognizer = Disabled | Engine "'f engine"

definition NewFromEnv :: "('f lpr_config \<Rightarrow> 'f engine option) \<Rightarrow> 'f lpr_config \<Rightarrow> 'f recognizer" where
  "NewFromEnv mk cfg = (if \<not> lc_enabled cfg then Disabled else case mk cfg of None \<Rightarrow> Disabled | Some e \<Rightarrow> Engine e)"

record 'f lpr_result =
  lr_plate :: string
  lr_conf :: 'f
  lr_box :: "int \<times> int \<times> int \<times> int"

definition no_result :: "'f floats \<Rightarrow> 'f lpr_result" where
  "no_result fl = \<lparr>lr_plate = [], lr_conf = fl_lit fl 0 1, lr_box = (0, 0, 0, 0)\<rparr>"

text \<open>The networks: the detector gets the size and the tensor, the reader the shape and the bytes; None is a tensor that is
  refused or a run that fails. An output is a tensor of 32-bit numbers with its shape, or something else.\<close>

datatype 'f net_output = Floats "'f list" "nat list" | Other_Output

record 'f networks =
  nw_jpeg :: "bytes \<Rightarrow> jpeg_image option"
  nw_detect :: "int \<Rightarrow> 'f list \<Rightarrow> 'f net_output option"
  nw_read :: "nat \<times> nat \<times> nat \<Rightarrow> bytes \<Rightarrow> 'f net_output option"

definition tensorRowsCols :: "nat list \<Rightarrow> (nat \<times> nat) option" where
  "tensorRowsCols shape = (case shape of [a, b] \<Rightarrow> Some (a, b) | [a, b, c] \<Rightarrow> Some (a * b, c) | _ \<Rightarrow> None)"

datatype 'f outcome = Panicked | Failed | Recognized "'f lpr_result"

definition read_crop :: "'f floats \<Rightarrow> 'f networks \<Rightarrow> 'f engine \<Rightarrow> int \<times> int \<times> int \<times> int \<Rightarrow> rgb_image \<Rightarrow> 'f outcome" where
  "read_crop fl nw e box im =
     (if rg_w im = 0 \<or> rg_h im = 0 then Recognized (no_result fl)
      else case plateTensorUint8 fl (en_plate e) im of
        None \<Rightarrow> Panicked
      | Some bs \<Rightarrow> (case nw_read nw (pc_height (en_plate e), pc_width (en_plate e), plate_channels (en_plate e)) bs of
          None \<Rightarrow> Failed
        | Some Other_Output \<Rightarrow> Failed
        | Some (Floats raw _) \<Rightarrow> (case decodePlateOCR fl (en_plate e) raw of (plate, conf) \<Rightarrow>
            Recognized (if plate = [] \<or> fl_less fl conf (lc_min_conf (en_cfg e)) then (no_result fl)\<lparr>lr_box := box\<rparr>
                        else \<lparr>lr_plate = plate, lr_conf = conf, lr_box = box\<rparr>))))"

definition Recognize :: "'f floats \<Rightarrow> 'f networks \<Rightarrow> 'f engine \<Rightarrow> bytes \<Rightarrow> 'f outcome" where
  "Recognize fl nw e data =
     (case decodeJPEG (nw_jpeg nw) data of
        None \<Rightarrow> Failed
      | Some None \<Rightarrow> Panicked
      | Some (Some im) \<Rightarrow> (case letterboxRGB fl im (en_size e) of
          None \<Rightarrow> Panicked
        | Some lb \<Rightarrow> (case nw_detect nw (en_size e) (lb_tensor lb) of
            None \<Rightarrow> Failed
          | Some Other_Output \<Rightarrow> Panicked
          | Some (Floats raw shape) \<Rightarrow> (case tensorRowsCols shape of
              None \<Rightarrow> Failed
            | Some (rows, cols) \<Rightarrow>
                let box = (case bestDetection fl (decodeYoloV9End2End fl raw rows cols (lb_ratio lb) (lb_pad_w lb) (lb_pad_h lb) (lc_det_conf (en_cfg e))) of
                    Some d \<Rightarrow> dt_box d | None \<Rightarrow> heuristic_box fl im)
                in (case box of (a, b, c, d) \<Rightarrow> (case crop im a b c d of None \<Rightarrow> Panicked | Some cr \<Rightarrow> read_crop fl nw e box cr))))))"

section \<open>Pictures keep their shape\<close>

definition image_ok :: "rgb_image \<Rightarrow> bool" where
  "image_ok im = (length (rg_rgb im) = rg_w im * rg_h im * 3)"

lemma those_map: "(\<And>x. x \<in> set xs \<Longrightarrow> f x \<noteq> None) \<Longrightarrow> those (map f xs) = Some (map (\<lambda>x. the (f x)) xs)"
proof (induction xs)
  case (Cons a xs)
  then obtain y where "f a = Some y" by force
  with Cons show ?case by simp
qed simp

lemma length_concat_uniform: "(\<And>r. r \<in> set rows \<Longrightarrow> length r = n) \<Longrightarrow> length (concat rows) = length rows * n"
  by (induction rows) auto

lemma concat_uniform_nth:
  "(\<And>r. r \<in> set rows \<Longrightarrow> length r = n) \<Longrightarrow> i < length rows \<Longrightarrow> take n (drop (i * n) (concat rows)) = rows ! i"
proof (induction rows arbitrary: i)
  case (Cons r rows)
  show ?case
  proof (cases i)
    case (Suc k)
    have "length r = n" using Cons.prems(1) by simp
    then show ?thesis using Cons.IH [of k] Cons.prems Suc by simp
  qed (use Cons.prems in simp)
qed simp

lemma by_pixel_ok:
  assumes "\<And>x y. x < w \<Longrightarrow> y < h \<Longrightarrow> \<exists>p. f y x = Some p \<and> length p = 3"
  shows "\<exists>im. by_pixel w h f = Some im \<and> image_ok im \<and> rg_w im = w \<and> rg_h im = h"
proof -
  let ?g = "\<lambda>(y, x). f y x" and ?l = "List.product [0..<h] [0..<w]"
  have some: "?g q \<noteq> None" "length (the (?g q)) = 3" if "q \<in> set ?l" for q
    using that assms by (auto split: prod.splits) fastforce+
  have l: "length (concat (map (\<lambda>q. the (?g q)) ?l)) = h * w * 3"
    by (subst length_concat_uniform [of _ 3]) (use some(2) in auto)
  let ?o = "\<lparr>rg_w = w, rg_h = h, rg_rgb = concat (map (\<lambda>q. the (?g q)) ?l)\<rparr>"
  have "those (map ?g ?l) = Some (map (\<lambda>q. the (?g q)) ?l)" by (rule those_map) (rule some(1))
  then have "by_pixel w h f = Some ?o" by (simp only: by_pixel_def option.map)
  moreover have "image_ok ?o" unfolding image_ok_def rgb_image.select_convs l by simp
  ultimately show ?thesis by simp
qed

lemma bytes3_some: "i + 2 < length xs \<Longrightarrow> \<exists>p. bytes3_at xs i = Some p \<and> length p = 3"
  by (simp add: bytes3_at_def)

lemma pixel_index_bound: "x < w \<Longrightarrow> y < h \<Longrightarrow> (y * w + x) * 3 + 2 < w * h * (3::nat)"
proof -
  assume "x < w" "y < h"
  then have "y * w + x < (y + 1) * w" by simp
  also have "\<dots> \<le> h * w" using \<open>y < h\<close> by (intro mult_le_mono1) simp
  finally show ?thesis by (simp add: mult.commute)
qed

text \<open>Rows of a picture. A crop is, row by row, the part of the picture inside the clamped box, whatever box is asked for.\<close>

definition row_of :: "rgb_image \<Rightarrow> nat \<Rightarrow> bytes" where
  "row_of im y = take (rg_w im * 3) (drop (y * (rg_w im * 3)) (rg_rgb im))"

lemma crop_exact:
  assumes "image_ok im"
    and x1_def: "x1 = nat (clamp a 0 (int (rg_w im)))" and y1_def: "y1 = nat (clamp b 0 (int (rg_h im)))"
    and x2_def: "x2 = nat (clamp c 0 (int (rg_w im)))" and y2_def: "y2 = nat (clamp d 0 (int (rg_h im)))"
  shows "\<exists>out. crop im a b c d = Some out \<and> image_ok out
    \<and> (if x2 \<le> x1 \<or> y2 \<le> y1 then out = no_image
       else rg_w out = x2 - x1 \<and> rg_h out = y2 - y1
         \<and> (\<forall>y<y2 - y1. row_of out y = take ((x2 - x1) * 3) (drop (x1 * 3) (row_of im (y + y1)))))"
proof (cases "x2 \<le> x1 \<or> y2 \<le> y1")
  case True
  then show ?thesis by (auto simp: crop_def x1_def x2_def y1_def y2_def Let_def image_ok_def no_image_def)
next
  case False
  let ?n = "(x2 - x1) * 3" and ?f = "\<lambda>y. slice_at (rg_rgb im) (((y + y1) * rg_w im + x1) * 3) ((x2 - x1) * 3)"
  have b: "x2 \<le> rg_w im" "y2 \<le> rg_h im" by (auto simp: x2_def y2_def clamp_def)
  have in_range: "((y + y1) * rg_w im + x1) * 3 + ?n \<le> length (rg_rgb im)" if "y < y2 - y1" for y
  proof -
    have "(y + y1) * rg_w im + x2 \<le> (y + y1 + 1) * rg_w im" using b(1) by simp
    also have "\<dots> \<le> rg_h im * rg_w im" using that b(2) by (intro mult_le_mono1) simp
    finally have "((y + y1) * rg_w im + x2) * 3 \<le> rg_h im * rg_w im * 3" by simp
    moreover have "((y + y1) * rg_w im + x1) * 3 + ?n = ((y + y1) * rg_w im + x2) * 3" using False by (simp add: algebra_simps)
    ultimately show ?thesis using assms(1) by (simp add: image_ok_def mult.commute)
  qed
  let ?rows = "map (\<lambda>y. the (?f y)) [0..<y2 - y1]"
  have some: "?f y \<noteq> None" "length (the (?f y)) = ?n" if "y \<in> set [0..<y2 - y1]" for y
    using in_range [of y] that by (auto simp: slice_at_def)
  have out: "crop im a b c d = Some \<lparr>rg_w = x2 - x1, rg_h = y2 - y1, rg_rgb = concat ?rows\<rparr>"
    using False those_map [where f = ?f and xs = "[0..<y2 - y1]", OF some(1)] by (simp add: crop_def x1_def x2_def y1_def y2_def Let_def)
  have l: "length r = ?n" if "r \<in> set ?rows" for r using that some(2) by auto
  have ok: "length (concat ?rows) = (x2 - x1) * (y2 - y1) * 3" by (subst length_concat_uniform [OF l]) simp_all
  have rows: "take ?n (drop (y * ?n) (concat ?rows)) = take ?n (drop (x1 * 3) (row_of im (y + y1)))" if y: "y < y2 - y1" for y
  proof -
    have "take ?n (drop (y * ?n) (concat ?rows)) = ?rows ! y" by (rule concat_uniform_nth) (use l y in auto)
    also have "\<dots> = take ?n (drop (((y + y1) * rg_w im + x1) * 3) (rg_rgb im))" using in_range [OF y] y by (simp add: slice_at_def)
    also have "\<dots> = take ?n (drop (x1 * 3) (row_of im (y + y1)))"
    proof -
      have "min ?n (rg_w im * 3 - x1 * 3) = ?n" using b(1) by (simp add: min_def)
      then show ?thesis by (simp add: row_of_def drop_take take_take algebra_simps)
    qed
    finally show ?thesis .
  qed
  show ?thesis
  proof (intro exI conjI)
    show "crop im a b c d = Some \<lparr>rg_w = x2 - x1, rg_h = y2 - y1, rg_rgb = concat ?rows\<rparr>" by (rule out)
    show "image_ok \<lparr>rg_w = x2 - x1, rg_h = y2 - y1, rg_rgb = concat ?rows\<rparr>" unfolding image_ok_def rgb_image.select_convs by (rule ok)
  qed (use False rows in \<open>simp add: row_of_def\<close>)
qed

lemma decodeJPEG_ok:
  assumes "decodeJPEG jpeg data = Some r"
    and "\<And>w h pix stride. jpeg data = Some (Strided w h pix stride) \<Longrightarrow> stride \<ge> w * 4 \<and> length pix \<ge> stride * h"
  shows "\<exists>im. r = Some im \<and> image_ok im \<and> (rg_w im, rg_h im) = (case the (jpeg data) of Strided w h _ _ \<Rightarrow> (w, h) | Sampled w h _ \<Rightarrow> (w, h))"
proof -
  obtain m where m: "jpeg data = Some m" using assms(1) by (auto simp: decodeJPEG_def)
  show ?thesis
  proof (cases m)
    case (Strided w h pix stride)
    have "\<exists>im. copyRGB w h pix stride = Some im \<and> image_ok im \<and> rg_w im = w \<and> rg_h im = h"
      unfolding copyRGB_def
    proof (rule by_pixel_ok, rule bytes3_some)
      fix x y assume "x < w" "y < h"
      have "y * stride + x * 4 + 4 \<le> y * stride + stride" using assms(2) m Strided \<open>x < w\<close> by fastforce
      also have "\<dots> = (y + 1) * stride" by simp
      also have "\<dots> \<le> h * stride" using \<open>y < h\<close> by (intro mult_le_mono1) simp
      also have "\<dots> \<le> length pix" using assms(2) m Strided by (simp add: mult.commute)
      finally show "y * stride + x * 4 + 2 < length pix" by simp
    qed
    with assms(1) m Strided show ?thesis by (auto simp: decodeJPEG_def)
  next
    case (Sampled w h px)
    have "\<exists>im. fillRGB w h px = Some im \<and> image_ok im \<and> rg_w im = w \<and> rg_h im = h"
      unfolding fillRGB_def by (rule by_pixel_ok) (simp add: split_beta)
    with assms(1) m Sampled show ?thesis by (auto simp: decodeJPEG_def)
  qed
qed

section \<open>Grey pictures\<close>

lemma gray_bytes_ok: "length xs = n * 3 \<Longrightarrow> \<exists>ys. gray_bytes xs = Some ys \<and> length ys = length xs"
proof (induction n arbitrary: xs)
  case (Suc n)
  then have "length xs = Suc (Suc (Suc (n * 3)))" by simp
  then obtain r g b zs where xs: "xs = r # g # b # zs" "length zs = n * 3"
    by (auto simp: length_Suc_conv)
  from Suc.IH [OF xs(2)] obtain ys where "gray_bytes zs = Some ys" "length ys = length zs" by blast
  then show ?case by (simp add: xs(1) Let_def)
qed simp

lemma gray_keeps: "word_of_int ((19595 * uint y + 38470 * uint y + 7471 * uint y + 32768) div 65536) = (y :: byte)"
proof -
  have "(19595 * uint y + 38470 * uint y + 7471 * uint y + 32768) div 65536 = uint y" by simp
  then show ?thesis by simp
qed

lemma gray_idempotent: "gray_bytes xs = Some ys \<Longrightarrow> gray_bytes ys = Some ys"
  by (induction xs arbitrary: ys rule: gray_bytes.induct) (auto simp: Let_def gray_keeps)

lemma toGray_ok: "image_ok im \<Longrightarrow> \<exists>g. toGrayRGB im = Some g \<and> image_ok g \<and> rg_w g = rg_w im \<and> rg_h g = rg_h im"
  using gray_bytes_ok [of "rg_rgb im" "rg_w im * rg_h im"] by (auto simp: toGrayRGB_def image_ok_def)

section \<open>No index is out of range\<close>

text \<open>What the pictures need of the numbers, for sizes up to the largest a JPEG can have: a grid position lies in the
  picture, a picture that is fitted does not become larger than its frame, and the padding fills the frame.\<close>

definition grid_ok :: "'f floats \<Rightarrow> bool" where
  "grid_ok fl = (\<forall>m n i. 0 < m \<longrightarrow> m \<le> 65535 \<longrightarrow> i < n \<longrightarrow> n \<le> 65535 \<longrightarrow>
     0 \<le> fl_floor fl (grid_pos fl m n i) \<and> fl_floor fl (grid_pos fl m n i) < int m)"

definition small :: "rgb_image \<Rightarrow> bool" where
  "small im = (0 < rg_w im \<and> rg_w im \<le> 65535 \<and> 0 < rg_h im \<and> rg_h im \<le> 65535)"

definition fit_ok :: "'f floats \<Rightarrow> bool" where
  "fit_ok fl = (\<forall>tw th im. 0 \<le> tw \<longrightarrow> tw \<le> 65535 \<longrightarrow> 0 \<le> th \<longrightarrow> th \<le> 65535 \<longrightarrow> small im \<longrightarrow>
     0 \<le> scaled fl (fit_ratio fl tw th im) (rg_w im) \<and> scaled fl (fit_ratio fl tw th im) (rg_w im) \<le> tw \<and>
     0 \<le> scaled fl (fit_ratio fl tw th im) (rg_h im) \<and> scaled fl (fit_ratio fl tw th im) (rg_h im) \<le> th)"

definition pad_ok :: "'f floats \<Rightarrow> bool" where
  "pad_ok fl = (\<forall>side n. 0 \<le> n \<longrightarrow> n \<le> side \<longrightarrow> side \<le> 65535 \<longrightarrow> 0 \<le> pad_before fl (half_pad fl side n) \<and>
     n + pad_before fl (half_pad fl side n) + pad_after fl (half_pad fl side n) = side)"

lemma nat_index: "0 \<le> a \<Longrightarrow> 0 \<le> b \<Longrightarrow> nat ((a * int w + b) * 3) = (nat a * w + nat b) * 3"
  by (simp add: nat_mult_distrib nat_add_distrib)

lemma pixel_some:
  assumes "image_ok im" "0 \<le> x" "x < int (rg_w im)" "0 \<le> y" "y < int (rg_h im)"
  shows "\<exists>p. pixel_at im x y = Some p \<and> length p = 3" "\<exists>p. bytes3_at (rg_rgb im) (nat ((y * int (rg_w im) + x) * 3)) = Some p \<and> length p = 3"
proof -
  have e: "nat ((y * int (rg_w im) + x) * 3) = (nat y * rg_w im + nat x) * 3"
    using assms(2,4) by (intro nat_index)
  have "(nat y * rg_w im + nat x) * 3 + 2 < length (rg_rgb im)"
    using pixel_index_bound [of "nat x" "rg_w im" "nat y" "rg_h im"] assms unfolding image_ok_def by linarith
  then show b: "\<exists>p. bytes3_at (rg_rgb im) (nat ((y * int (rg_w im) + x) * 3)) = Some p \<and> length p = 3"
    unfolding e by (rule bytes3_some)
  have "0 \<le> (y * int (rg_w im) + x) * 3" using assms(2,4) by simp
  with b show "\<exists>p. pixel_at im x y = Some p \<and> length p = 3" by (simp add: pixel_at_def Let_def)
qed

lemma bilinear_some:
  assumes "image_ok im" "0 \<le> fl_floor fl fx" "fl_floor fl fx < int (rg_w im)" "0 \<le> fl_floor fl fy" "fl_floor fl fy < int (rg_h im)"
  shows "\<exists>p. bilinearSample fl im fx fy = Some p \<and> length p = 3"
proof -
  let ?x = "fl_floor fl fx" and ?y = "fl_floor fl fy"
  let ?x1 = "min (?x + 1) (int (rg_w im) - 1)" and ?y1 = "min (?y + 1) (int (rg_h im) - 1)"
  have r: "0 \<le> ?x1" "?x1 < int (rg_w im)" "0 \<le> ?y1" "?y1 < int (rg_h im)" using assms(2-) by auto
  obtain a b c d where "pixel_at im ?x ?y = Some a" "pixel_at im ?x1 ?y = Some b" "pixel_at im ?x ?y1 = Some c" "pixel_at im ?x1 ?y1 = Some d"
    using pixel_some(1) [OF assms(1)] assms(2-) r by metis
  then show ?thesis by (simp add: bilinearSample_def Let_def)
qed

lemma resize_ok:
  assumes "grid_ok fl" "image_ok im" "small im" "nw \<le> 65535" "nh \<le> 65535"
  shows "\<exists>out. resizeRGB fl im nw nh = Some out \<and> image_ok out
    \<and> (0 < nw \<longrightarrow> 0 < nh \<longrightarrow> int (rg_w out) = nw \<and> int (rg_h out) = nh)"
proof (cases "nw \<le> 0 \<or> nh \<le> 0")
  case False
  have "\<exists>out. by_pixel (nat nw) (nat nh) (\<lambda>y x. bilinearSample fl im (grid_pos fl (rg_w im) (nat nw) x) (grid_pos fl (rg_h im) (nat nh) y))
      = Some out \<and> image_ok out \<and> rg_w out = nat nw \<and> rg_h out = nat nh"
  proof (rule by_pixel_ok, rule bilinear_some)
    fix x y assume "x < nat nw" "y < nat nh"
    with assms show "0 \<le> fl_floor fl (grid_pos fl (rg_w im) (nat nw) x)" "fl_floor fl (grid_pos fl (rg_w im) (nat nw) x) < int (rg_w im)"
      "0 \<le> fl_floor fl (grid_pos fl (rg_h im) (nat nh) y)" "fl_floor fl (grid_pos fl (rg_h im) (nat nh) y) < int (rg_h im)"
      by (simp_all add: grid_ok_def small_def)
  qed (rule assms(2))
  with False show ?thesis by (auto simp: resizeRGB_def)
qed (auto simp: resizeRGB_def image_ok_def no_image_def)

text \<open>The tensor of the detector has the size that is declared for it.\<close>

lemma letterboxRGB_ok:
  assumes "grid_ok fl" "fit_ok fl" "pad_ok fl" "image_ok im" "small im" "0 \<le> side" "side \<le> 65535"
  shows "\<exists>lb. letterboxRGB fl im side = Some lb \<and> length (lb_tensor lb) = 3 * nat side * nat side"
proof -
  let ?r = "fit_ratio fl side side im"
  let ?nw = "scaled fl ?r (rg_w im)" and ?nh = "scaled fl ?r (rg_h im)"
  have n: "0 \<le> ?nw" "?nw \<le> side" "0 \<le> ?nh" "?nh \<le> side" using assms(2,5-) by (simp_all add: fit_ok_def)
  let ?left = "pad_before fl (half_pad fl side ?nw)" and ?top = "pad_before fl (half_pad fl side ?nh)"
  have c: "?nw + ?left + pad_after fl (half_pad fl side ?nw) = side" "?nh + ?top + pad_after fl (half_pad fl side ?nh) = side"
    using assms(3,7) n by (simp_all add: pad_ok_def)
  obtain rs where rs: "resizeRGB fl im ?nw ?nh = Some rs" "image_ok rs" "0 < ?nw \<Longrightarrow> 0 < ?nh \<Longrightarrow> int (rg_w rs) = ?nw \<and> int (rg_h rs) = ?nh"
    using resize_ok [OF assms(1,4,5), of ?nw ?nh] n assms(7) by auto
  let ?l = "List.product [0..side - 1] [0..side - 1]"
  let ?f = "\<lambda>(y, x). if ?top \<le> y \<and> y < ?top + ?nh \<and> ?left \<le> x \<and> x < ?left + ?nw
      then bytes3_at (rg_rgb rs) (nat (((y - ?top) * ?nw + (x - ?left)) * 3)) else Some [114, 114, 114]"
  have "?f q \<noteq> None" for q
  proof -
    obtain y x where q: "q = (y, x)" by (cases q)
    show ?thesis
    proof (cases "?top \<le> y \<and> y < ?top + ?nh \<and> ?left \<le> x \<and> x < ?left + ?nw")
      case True
      then have "int (rg_w rs) = ?nw" "int (rg_h rs) = ?nh" using rs(3) by auto
      then show ?thesis using pixel_some(2) [OF rs(2), of "x - ?left" "y - ?top"] True by (auto simp: q)
    qed (auto simp: q)
  qed
  then have t: "those (map ?f ?l) = Some (map (\<lambda>q. the (?f q)) ?l)" by (rule those_map)
  have "letterboxRGB fl im side = Some \<lparr>lb_tensor = concat (map (\<lambda>k. map (\<lambda>p. fl_single fl (fl_div fl (fl_lit fl (uint (p ! k)) 1) (fl_lit fl 255 1)))
        (map (\<lambda>q. the (?f q)) ?l)) [0..<3]), lb_ratio = ?r, lb_pad_w = half_pad fl side ?nw, lb_pad_h = half_pad fl side ?nh\<rparr>"
    unfolding letterboxRGB_def Let_def c rs(1) option.case t option.map ..
  moreover have "length (concat (map (\<lambda>k. map (\<lambda>p. fl_single fl (fl_div fl (fl_lit fl (uint (p ! k)) 1) (fl_lit fl 255 1)))
        (map (\<lambda>q. the (?f q)) ?l)) [0..<3])) = 3 * nat side * nat side"
    by (subst length_concat_uniform [of _ "nat side * nat side"]) auto
  ultimately show ?thesis by simp
qed

lemma put_pixels_ok:
  "(\<And>i p. (i, p) \<in> set ps \<Longrightarrow> 0 \<le> i \<and> nat i + 2 < length xs \<and> (\<exists>q. p = Some q \<and> length q = 3))
    \<Longrightarrow> \<exists>ys. put_pixels ps xs = Some ys \<and> length ys = length xs"
proof (induction ps arbitrary: xs)
  case (Cons a ps)
  obtain i p where a: "a = (i, p)" by (cases a)
  then obtain q where q: "p = Some q" "length q = 3" "0 \<le> i" "nat i + 2 < length xs" using Cons.prems [of i p] by auto
  let ?xs = "take (nat i) xs @ q @ drop (nat i + 3) xs"
  have l: "length ?xs = length xs" using q by simp
  have "\<exists>ys. put_pixels ps ?xs = Some ys \<and> length ys = length ?xs"
    by (rule Cons.IH) (use Cons.prems l in \<open>auto simp del: length_append\<close>)
  then show ?case using q l by (simp add: a put3_def)
qed simp

lemma letterboxPlate_ok:
  assumes "grid_ok fl" "fit_ok fl" "image_ok im" "small im" "tw \<le> 65535" "th \<le> 65535"
  shows "\<exists>out. letterboxPlate fl im tw th = Some out \<and> image_ok out \<and> rg_w out = tw \<and> rg_h out = th"
proof -
  let ?r = "fit_ratio fl (int tw) (int th) im"
  let ?nw = "scaled fl ?r (rg_w im)" and ?nh = "scaled fl ?r (rg_h im)"
  have n: "0 \<le> ?nw" "?nw \<le> int tw" "0 \<le> ?nh" "?nh \<le> int th" using assms(2,4-) by (simp_all add: fit_ok_def)
  obtain rs where rs: "resizeRGB fl im ?nw ?nh = Some rs" "image_ok rs" "0 < ?nw \<Longrightarrow> 0 < ?nh \<Longrightarrow> int (rg_w rs) = ?nw \<and> int (rg_h rs) = ?nh"
    using resize_ok [OF assms(1,3,4), of ?nw ?nh] n assms(5,6) by auto
  let ?dw = "sgn (int tw - ?nw) * (\<bar>int tw - ?nw\<bar> div 2)" and ?dh = "sgn (int th - ?nh) * (\<bar>int th - ?nh\<bar> div 2)"
  have half: "0 \<le> sgn a * (\<bar>a\<bar> div 2) \<and> sgn a * (\<bar>a\<bar> div 2) \<le> a" if "0 \<le> a" for a :: int
    using that by (cases "a = 0") (auto simp: sgn_if)
  have d: "0 \<le> ?dw" "?dw \<le> int tw - ?nw" "0 \<le> ?dh" "?dh \<le> int th - ?nh" using half n by auto
  let ?ps = "map (\<lambda>(y, x). (((y + ?dh) * int tw + (x + ?dw)) * 3, bytes3_at (rg_rgb rs) (nat ((y * ?nw + x) * 3)))) (List.product [0..?nh - 1] [0..?nw - 1])"
  have "\<exists>ys. put_pixels ?ps (replicate (tw * th * 3) 114) = Some ys \<and> length ys = length (replicate (tw * th * 3) (114 :: byte))"
  proof (rule put_pixels_ok)
    fix i p assume "(i, p) \<in> set ?ps"
    then obtain y x where r: "0 \<le> y" "y < ?nh" "0 \<le> x" "x < ?nw"
      and i: "i = ((y + ?dh) * int tw + (x + ?dw)) * 3" "p = bytes3_at (rg_rgb rs) (nat ((y * ?nw + x) * 3))" by auto
    have w: "int (rg_w rs) = ?nw" "int (rg_h rs) = ?nh" using rs(3) r by auto
    have q: "\<exists>q. p = Some q \<and> length q = 3" using pixel_some(2) [OF rs(2), of x y] r w unfolding i by auto
    have yx: "0 \<le> y + ?dh" "y + ?dh < int th" "0 \<le> x + ?dw" "x + ?dw < int tw" using r d by linarith+
    have e: "nat i = (nat (y + ?dh) * tw + nat (x + ?dw)) * 3" unfolding i by (rule nat_index [OF yx(1,3)])
    have "nat i + 2 < tw * th * 3" unfolding e by (rule pixel_index_bound) (use yx in linarith)+
    moreover have "0 \<le> i" unfolding i by (rule mult_nonneg_nonneg [OF add_nonneg_nonneg [OF mult_nonneg_nonneg [OF yx(1)] yx(3)]]) simp_all
    ultimately show "0 \<le> i \<and> nat i + 2 < length (replicate (tw * th * 3) (114 :: byte)) \<and> (\<exists>q. p = Some q \<and> length q = 3)" using q by simp
  qed
  then obtain ys where "put_pixels ?ps (replicate (tw * th * 3) 114) = Some ys" "length ys = tw * th * 3" by auto
  then show ?thesis by (simp add: letterboxPlate_def Let_def rs(1) image_ok_def)
qed

lemma resizePlate_ok:
  assumes "grid_ok fl" "fit_ok fl" "image_ok im" "small im" "0 < pc_width c" "pc_width c \<le> 65535" "0 < pc_height c" "pc_height c \<le> 65535"
  shows "\<exists>out. resizePlateRGB fl c im = Some out \<and> image_ok out \<and> rg_w out = pc_width c \<and> rg_h out = pc_height c"
proof -
  have src: "\<exists>s. (if b then toGrayRGB im else Some im) = Some s \<and> image_ok s \<and> small s" for b
    using toGray_ok [OF assms(3)] assms(3,4) by (auto simp: small_def)
  then obtain s where s: "(if (if pc_mode c = [] then ''grayscale'' else pc_mode c) = ''grayscale'' then toGrayRGB im else Some im) = Some s"
    "image_ok s" "small s" by blast
  have "\<exists>out. resizeRGB fl s (int (pc_width c)) (int (pc_height c)) = Some out \<and> image_ok out \<and> rg_w out = pc_width c \<and> rg_h out = pc_height c"
    using resize_ok [OF assms(1) s(2,3), of "int (pc_width c)" "int (pc_height c)"] assms(5-) by auto
  with letterboxPlate_ok [OF assms(1,2) s(2,3) assms(6,8)] show ?thesis
    unfolding resizePlateRGB_def Let_def s(1) by (cases "pc_keep_aspect c") simp_all
qed

text \<open>The bytes of the reader have the shape that is declared for them.\<close>

lemma plateTensor_ok:
  assumes "grid_ok fl" "fit_ok fl" "image_ok im" "small im" "0 < pc_width c" "pc_width c \<le> 65535" "0 < pc_height c" "pc_height c \<le> 65535"
  shows "\<exists>bs. plateTensorUint8 fl c im = Some bs \<and> length bs = pc_height c * pc_width c * plate_channels c"
proof -
  obtain rs where rs: "resizePlateRGB fl c im = Some rs" "image_ok rs" "rg_w rs = pc_width c" "rg_h rs = pc_height c"
    using resizePlate_ok [OF assms] by blast
  have "byte_at (rg_rgb rs) (i * 3) \<noteq> None" if "i \<in> set [0..<rg_w rs * rg_h rs]" for i
    using that rs(2) by (auto simp: byte_at_def image_ok_def)
  then have t: "those (map (\<lambda>i. byte_at (rg_rgb rs) (i * 3)) [0..<rg_w rs * rg_h rs])
      = Some (map (\<lambda>i. the (byte_at (rg_rgb rs) (i * 3))) [0..<rg_w rs * rg_h rs])" by (rule those_map)
  have ch: "plate_channels c = 1 \<or> plate_channels c = 3" by (simp add: plate_channels_def)
  show ?thesis
  proof (cases "plate_channels c = 1")
    case True
    have "plateTensorUint8 fl c im = Some (map (\<lambda>i. the (byte_at (rg_rgb rs) (i * 3))) [0..<rg_w rs * rg_h rs])"
      unfolding plateTensorUint8_def rs(1) bind.bind_lunit if_P [OF True] by (rule t)
    then show ?thesis using rs(3,4) True by (simp add: mult.commute)
  next
    case False
    then have "plate_channels c = 3" using ch by simp
    then show ?thesis using rs(2-) by (simp add: plateTensorUint8_def rs(1) Let_def image_ok_def)
  qed
qed

section \<open>What is recognized\<close>

lemma trim_right: "set (trimRightRunes s pad) \<subseteq> set s" "trimRightRunes s pad \<noteq> [] \<Longrightarrow> byte_string (last (trimRightRunes s pad)) \<noteq> pad"
proof -
  show "set (trimRightRunes s pad) \<subseteq> set s" using set_dropWhileD by (fastforce simp: trimRightRunes_def)
  show "byte_string (last (trimRightRunes s pad)) \<noteq> pad" if "trimRightRunes s pad \<noteq> []"
    using that hd_dropWhile [of "\<lambda>c. byte_string c = pad" "rev s"] by (simp add: trimRightRunes_def last_rev)
qed

lemma best_index_bound: "xs \<noteq> [] \<Longrightarrow> best_index fl xs < length xs"
proof -
  have "foldl (\<lambda>best j. if fl_less fl (xs ! best) (xs ! j) then j else best) k js < length xs"
    if "k < length xs" "\<forall>j\<in>set js. j < length xs" for k js
    using that by (induction js arbitrary: k) auto
  then show "best_index fl xs < length xs" if "xs \<noteq> []" using that by (auto simp: best_index_def)
qed

text \<open>A plate has at most as many letters as slots, all of the alphabet, and no padding at its end.\<close>

lemma plate_letters:
  assumes "decodePlateOCR fl c raw = (plate, conf)"
  shows "length plate \<le> pc_slots c \<and> set plate \<subseteq> set (pc_alphabet c) \<and> (pc_pad c \<noteq> [] \<longrightarrow> plate \<noteq> [] \<longrightarrow> byte_string (last plate) \<noteq> pc_pad c)"
proof (cases "length (pc_alphabet c) = 0 \<or> pc_slots c = 0 \<or> length raw < pc_slots c * length (pc_alphabet c)")
  case False
  let ?v = "length (pc_alphabet c)" and ?p = "map (\<lambda>xs. pc_alphabet c ! best_index fl xs) (map (\<lambda>s. take (length (pc_alphabet c)) (drop (s * length (pc_alphabet c)) raw)) [0..<pc_slots c])"
  have "best_index fl (take ?v (drop (s * ?v) raw)) < ?v" if "s < pc_slots c" for s
  proof -
    have "(s + 1) * ?v \<le> pc_slots c * ?v" using that by (intro mult_le_mono1) simp
    then have "s * ?v + ?v \<le> length raw" using False by simp
    then have "length (take ?v (drop (s * ?v) raw)) = ?v" by simp
    then show ?thesis using best_index_bound [of "take ?v (drop (s * ?v) raw)" fl] False by force
  qed
  then have "set ?p \<subseteq> set (pc_alphabet c)" by (auto intro!: nth_mem)
  then obtain q where q: "q = ?p" "length q = pc_slots c" "set q \<subseteq> set (pc_alphabet c)" by simp
  have e: "plate = (if pc_pad c \<noteq> [] then trimRightRunes q (pc_pad c) else q)" 
    using assms unfolding decodePlateOCR_def Let_def if_not_P [OF False] q(1) by (auto simp only: prod.inject)
  show ?thesis
  proof (cases "pc_pad c = []")
    case True
    then show ?thesis using q(2,3) by (simp add: e)
  next
    case False
    then have pl: "plate = trimRightRunes q (pc_pad c)" by (simp add: e)
    have "length plate \<le> length q" using length_dropWhile_le [of "\<lambda>c'. byte_string c' = pc_pad c" "rev q"] by (simp add: pl trimRightRunes_def)
    moreover have "set plate \<subseteq> set q" unfolding pl by (rule trim_right(1))
    moreover have "plate \<noteq> [] \<Longrightarrow> byte_string (last plate) \<noteq> pc_pad c" unfolding pl by (rule trim_right(2))
    ultimately show ?thesis using q(2,3) by auto
  qed
qed (use assms in \<open>auto simp: decodePlateOCR_def Let_def\<close>)

text \<open>Recognition does not panic, whatever box the detector returns, as long as its output is a tensor of numbers; and a
  plate is reported only with at least the confidence that is asked for.\<close>

lemma recognition_safe:
  assumes fl: "grid_ok fl" "fit_ok fl" "pad_ok fl"
    and jpeg: "\<And>w h pix stride. nw_jpeg nw data = Some (Strided w h pix stride) \<Longrightarrow> stride \<ge> w * 4 \<and> length pix \<ge> stride * h"
      "\<And>m. nw_jpeg nw data = Some m \<Longrightarrow> (case m of Strided w h _ _ \<Rightarrow> 0 < w \<and> w \<le> 65535 \<and> 0 < h \<and> h \<le> 65535
         | Sampled w h _ \<Rightarrow> 0 < w \<and> w \<le> 65535 \<and> 0 < h \<and> h \<le> 65535)"
    and net: "\<And>n t. nw_detect nw n t \<noteq> Some Other_Output"
    and cfg: "0 \<le> en_size e" "en_size e \<le> 65535" "0 < pc_width (en_plate e)" "pc_width (en_plate e) \<le> 65535"
      "0 < pc_height (en_plate e)" "pc_height (en_plate e) \<le> 65535"
  shows "case Recognize fl nw e data of Panicked \<Rightarrow> False | Failed \<Rightarrow> True
    | Recognized r \<Rightarrow> lr_plate r \<noteq> [] \<longrightarrow> \<not> fl_less fl (lr_conf r) (lc_min_conf (en_cfg e)) \<and> set (lr_plate r) \<subseteq> set (pc_alphabet (en_plate e))"
proof -
  let ?P = "\<lambda>q. case q of Panicked \<Rightarrow> False | Failed \<Rightarrow> True
    | Recognized r \<Rightarrow> lr_plate r \<noteq> [] \<longrightarrow> \<not> fl_less fl (lr_conf r) (lc_min_conf (en_cfg e)) \<and> set (lr_plate r) \<subseteq> set (pc_alphabet (en_plate e))"
  have part: "?P (read_crop fl nw e box cr)" if cr: "image_ok cr" "rg_w cr \<le> 65535" "rg_h cr \<le> 65535" for box cr
  proof (cases "rg_w cr = 0 \<or> rg_h cr = 0")
    case False
    then have "small cr" using cr by (simp add: small_def)
    then obtain bs where bs: "plateTensorUint8 fl (en_plate e) cr = Some bs" using plateTensor_ok [OF fl(1,2) cr(1) _ cfg(3-6)] by blast
    show ?thesis
    proof (cases "nw_read nw (pc_height (en_plate e), pc_width (en_plate e), plate_channels (en_plate e)) bs")
      case (Some out)
      show ?thesis
      proof (cases out)
        case (Floats raw shape)
        obtain plate conf where pl: "decodePlateOCR fl (en_plate e) raw = (plate, conf)" by fastforce
        show ?thesis using False bs Some Floats pl plate_letters [OF pl] by (auto simp: read_crop_def no_result_def)
      qed (use False bs Some in \<open>auto simp: read_crop_def\<close>)
    qed (use False bs in \<open>auto simp: read_crop_def\<close>)
  qed (auto simp: read_crop_def no_result_def)
  show ?thesis
  proof (cases "nw_jpeg nw data")
    case None
    then show ?thesis by (simp add: Recognize_def decodeJPEG_def)
  next
    case (Some m)
    then obtain q where q: "decodeJPEG (nw_jpeg nw) data = Some q" by (simp add: decodeJPEG_def)
    obtain im where im: "decodeJPEG (nw_jpeg nw) data = Some (Some im)" "image_ok im" "small im"
      using decodeJPEG_ok [OF q jpeg(1)] jpeg(2) [OF Some] q Some by (auto simp: small_def split: jpeg_image.splits)
    obtain lb where lb: "letterboxRGB fl im (en_size e) = Some lb" using letterboxRGB_ok [OF fl im(2,3) cfg(1,2)] by blast
    show ?thesis
    proof (cases "nw_detect nw (en_size e) (lb_tensor lb)")
      case None
      then show ?thesis by (simp add: Recognize_def im(1) lb)
    next
      case (Some out)
      then obtain raw shape where out: "nw_detect nw (en_size e) (lb_tensor lb) = Some (Floats raw shape)" using net by (cases out) auto
      show ?thesis
      proof (cases "tensorRowsCols shape")
        case None
        with out show ?thesis by (simp add: Recognize_def im(1) lb)
      next
        case (Some rc)
        obtain rows cols where rc: "tensorRowsCols shape = Some (rows, cols)" using Some by (cases rc) auto
        obtain a b c d where box: "(case bestDetection fl (decodeYoloV9End2End fl raw rows cols (lb_ratio lb) (lb_pad_w lb) (lb_pad_h lb) (lc_det_conf (en_cfg e))) of
            Some d \<Rightarrow> dt_box d | None \<Rightarrow> heuristic_box fl im) = (a, b, c, d)" by (metis prod.collapse)
        obtain cr where cr: "crop im a b c d = Some cr" "image_ok cr" "rg_w cr \<le> 65535" "rg_h cr \<le> 65535"
        proof -
          obtain cr where c: "crop im a b c d = Some cr" "image_ok cr"
            "rg_w cr \<le> nat (clamp c 0 (int (rg_w im))) \<and> rg_h cr \<le> nat (clamp d 0 (int (rg_h im)))"
            using crop_exact [OF im(2) refl refl refl refl, of a b c d] by (auto simp: no_image_def split: if_splits)
          moreover have "nat (clamp c 0 (int (rg_w im))) \<le> 65535" "nat (clamp d 0 (int (rg_h im))) \<le> 65535"
            using im(3) by (auto simp: clamp_def small_def)
          ultimately show ?thesis using that [of cr] by linarith
        qed
        show ?thesis using part [OF cr(2-4), of "(a, b, c, d)"] by (simp add: Recognize_def im(1) lb out rc box cr(1) Let_def)
      qed
    qed
  qed
qed

text \<open>The alphabet is counted in bytes, the answer of the reader in letters: with a letter of more than one byte the answer is
  too short and nothing is read, here for the letters A and U+AC00 and one slot.\<close>

lemma long_letters_unread:
  "decodePlateOCR fl \<lparr>pc_slots = 1, pc_alphabet = [CHR 0x41, CHR 0xEA, CHR 0xB0, CHR 0x80], pc_pad = [], pc_height = h, pc_width = w,
     pc_keep_aspect = k, pc_mode = m\<rparr> [a, b] = ([], fl_lit fl 0 1)"
  by (simp add: decodePlateOCR_def)

section \<open>The rational numbers\<close>

definition rat_round :: "rat \<Rightarrow> int" where
  "rat_round x = (if x < 0 then - \<lfloor>1 / 2 - x\<rfloor> else \<lfloor>x + 1 / 2\<rfloor>)"

definition rat_floats :: "rat floats" where
  "rat_floats = \<lparr>fl_lit = (\<lambda>n d. of_int n / of_int d), fl_add = (+), fl_sub = (-), fl_mul = (*), fl_div = (/), fl_less = (<),
     fl_int = (\<lambda>x. if x < 0 then - \<lfloor>- x\<rfloor> else \<lfloor>x\<rfloor>), fl_floor = floor, fl_round = rat_round, fl_exp = (\<lambda>x. 1), fl_single = id\<rparr>"

lemma rat_round_bounds: "0 \<le> x \<Longrightarrow> x \<le> of_int n \<Longrightarrow> 0 \<le> rat_round x \<and> rat_round x \<le> n"
  by (auto simp: rat_round_def floor_le_iff le_floor_iff)

lemma rat_grid: "grid_ok rat_floats"
proof -
  have "0 \<le> \<lfloor>of_int (int i) * of_int (int m - 1) / of_int (max (int n - 1) 1) :: rat\<rfloor> \<and>
      \<lfloor>of_int (int i) * of_int (int m - 1) / of_int (max (int n - 1) 1) :: rat\<rfloor> < int m" if "0 < m" "i < n" for m n i
  proof -
    have "int i * (int m - 1) \<le> max (int n - 1) 1 * (int m - 1)" using that by (intro mult_right_mono) auto
    then have "(of_int (int i * (int m - 1)) :: rat) \<le> of_int (max (int n - 1) 1 * (int m - 1))" by (simp only: of_int_le_iff)
    then have "(of_int (int i * (int m - 1)) :: rat) / of_int (max (int n - 1) 1) \<le> of_int (int m - 1)"
      by (subst pos_divide_le_eq) (simp_all add: mult.commute)
    moreover have "0 \<le> (of_int (int i * (int m - 1)) :: rat) / of_int (max (int n - 1) 1)" using that by simp
    ultimately show ?thesis by (simp add: floor_less_iff)
  qed
  then show ?thesis by (simp add: grid_ok_def grid_pos_def rat_floats_def)
qed

lemma rat_fit: "fit_ok rat_floats"
proof -
  have side: "0 \<le> of_int (int n) * r \<and> of_int (int n) * r \<le> of_int t" if "0 < n" "0 \<le> r" "r \<le> of_int t / of_int (int n)" for n t and r :: rat
    using that by (auto simp: le_divide_eq mult.commute)
  show ?thesis unfolding fit_ok_def
  proof (intro allI impI)
    fix tw th :: int and im assume a: "0 \<le> tw" "0 \<le> th" "small im"
    let ?r = "fit_ratio rat_floats tw th im"
    have r: "0 \<le> ?r" "?r \<le> of_int tw / of_int (int (rg_w im))" "?r \<le> of_int th / of_int (int (rg_h im))"
      using a by (auto simp: fit_ratio_def fl_min_def rat_floats_def)
    have s: "scaled rat_floats ?r n = rat_round (of_int (int n) * ?r)" for n by (simp add: scaled_def rat_floats_def)
    show "0 \<le> scaled rat_floats ?r (rg_w im) \<and> scaled rat_floats ?r (rg_w im) \<le> tw \<and>
        0 \<le> scaled rat_floats ?r (rg_h im) \<and> scaled rat_floats ?r (rg_h im) \<le> th"
      using side [OF _ r(1,2)] side [OF _ r(1,3)] a(3) rat_round_bounds [of "of_int (int (rg_w im)) * ?r" tw]
        rat_round_bounds [of "of_int (int (rg_h im)) * ?r" th] unfolding s small_def by auto
  qed
qed

lemma rat_round_nearest:
  assumes "of_int k - 1 / 2 < x" "x < of_int k + 1 / 2" "0 \<le> k"
  shows "rat_round x = k"
proof (cases "x < 0")
  case True
  then have "(of_int k :: rat) < of_int 1" using assms(1) by simp
  then have "k = 0" using assms(3) by (simp only: of_int_less_iff)
  moreover from this have "\<lfloor>1 / 2 - x\<rfloor> = 0" using True assms(1) by (simp add: floor_eq_iff)
  ultimately show ?thesis using True by (simp add: rat_round_def)
next
  case False
  then show ?thesis using assms(1,2) by (simp add: rat_round_def floor_eq_iff)
qed

lemma rat_pad: "pad_ok rat_floats"
proof -
  have "0 \<le> rat_round (of_int d / 2 - 1 / 10) \<and> rat_round (of_int d / 2 - 1 / 10) + rat_round (of_int d / 2 + 1 / 10) = d" if "0 \<le> d" for d
  proof -
    obtain k where k: "d = 2 * k \<or> d = 2 * k + 1" by (metis odd_two_times_div_two_succ even_two_times_div_two)
    with that have "0 \<le> k" by auto
    with k have "rat_round (of_int d / 2 - 1 / 10) = k \<and> rat_round (of_int d / 2 + 1 / 10) = d - k"
      by (auto intro!: rat_round_nearest simp: field_simps)
    with \<open>0 \<le> k\<close> show ?thesis by simp
  qed
  then have "0 \<le> rat_round ((of_int side - of_int n) / 2 - 1 / 10)
      \<and> n + rat_round ((of_int side - of_int n) / 2 - 1 / 10) + rat_round ((of_int side - of_int n) / 2 + 1 / 10) = side"
    if "n \<le> side" for side n
    using that [THEN diff_ge_0_iff_ge [THEN iffD2]] by (smt (verit) of_int_diff)
  then show ?thesis by (simp add: pad_ok_def pad_before_def pad_after_def half_pad_def rat_floats_def)
qed

end
