(* ===== verification/Screen_Capture.thy ===== *)
theory Screen_Capture
  imports Ovp_Frame "HOL-Library.Multiset" "HOL-Library.Signed_Division"
begin

text \<open>
  \<^verbatim>\<open>agent/capturer_windows.go\<close> and \<^verbatim>\<open>agent/capturer_dummy.go\<close>: how the screen becomes tiles. The results of the
  Direct3D calls of one frame are a \<open>screen\<close>; the state keeps what the Go structure keeps and, beside it, the COM
  objects the process holds a reference to, whether a frame is acquired and whether the staging texture is
  mapped. The JPEG encoder and the order in which Go walks the set of tiles are parameters.
\<close>

section \<open>State\<close>

datatype com_object = Device | Device_Context | DXGI_Device | Adapter | Output | Output1 | Duplication | Staging | Resource | Texture

record capturer =
  dx_device :: bool
  dx_ctx :: bool
  dx_dup :: bool
  dx_staging :: "(32 word \<times> 32 word \<times> 32 word) option"
  dx_width :: int
  dx_height :: int
  dx_tile :: int
  dx_first :: bool
  dx_live :: "com_object multiset"
  dx_frame :: bool
  dx_mapped :: bool

definition hold :: "com_object \<Rightarrow> capturer \<Rightarrow> capturer" where
  "hold x c = c\<lparr>dx_live := add_mset x (dx_live c)\<rparr>"

definition comRelease :: "com_object \<Rightarrow> capturer \<Rightarrow> capturer" where
  "comRelease x c = c\<lparr>dx_live := dx_live c - {#x#}\<rparr>"

section \<open>Starting\<close>

text \<open>The results of the calls of \<open>init\<close>; zero is success.\<close>

record com_init =
  in_create :: nat
  in_dxgi :: nat
  in_adapter :: nat
  in_output :: nat
  in_output1 :: nat
  in_duplicate :: nat
  in_width :: "32 word"
  in_height :: "32 word"

definition init_dup :: "com_init \<Rightarrow> capturer \<Rightarrow> capturer \<times> bool" where
  "init_dup e c =
     (if in_duplicate e \<noteq> 0 then (c, False)
      else let c1 = (hold Duplication c)\<lparr>dx_dup := True, dx_width := uint (in_width e), dx_height := uint (in_height e)\<rparr>
        in (if dx_width c1 = 0 \<or> dx_height c1 = 0 then c1\<lparr>dx_width := 1920, dx_height := 1080\<rparr> else c1, True))"

text \<open>An object obtained for the rest of the function, released when it returns.\<close>

definition with_object :: "nat \<Rightarrow> com_object \<Rightarrow> (capturer \<Rightarrow> capturer \<times> bool) \<Rightarrow> capturer \<Rightarrow> capturer \<times> bool" where
  "with_object hr x f c = (if hr \<noteq> 0 then (c, False) else case f (hold x c) of (c', ok) \<Rightarrow> (comRelease x c', ok))"

definition capturer_init :: "com_init \<Rightarrow> capturer \<Rightarrow> capturer \<times> bool" where
  "capturer_init e c =
     (if in_create e \<noteq> 0 then (c, False)
      else with_object (in_dxgi e) DXGI_Device (with_object (in_adapter e) Adapter
             (with_object (in_output e) Output (with_object (in_output1 e) Output1 (init_dup e))))
             ((hold Device_Context (hold Device c))\<lparr>dx_device := True, dx_ctx := True\<rparr>))"

text \<open>\<open>zstd\<close>: whether the encoder can be made. The result also says which objects the process then holds.\<close>

definition NewCapturer :: "bool \<Rightarrow> com_init \<Rightarrow> int \<Rightarrow> com_object multiset \<Rightarrow> capturer option \<times> com_object multiset" where
  "NewCapturer zstd e ts live =
     (if \<not> zstd then (None, live)
      else case capturer_init e \<lparr>dx_device = False, dx_ctx = False, dx_dup = False, dx_staging = None, dx_width = 0,
          dx_height = 0, dx_tile = ts, dx_first = True, dx_live = live, dx_frame = False, dx_mapped = False\<rparr> of
        (c, ok) \<Rightarrow> (if ok then Some c else None, dx_live c))"

definition capturer_close :: "capturer \<Rightarrow> capturer" where
  "capturer_close c =
     (let c1 = (if dx_dup c then (comRelease Duplication c)\<lparr>dx_dup := False\<rparr> else c);
          c2 = (if dx_staging c1 \<noteq> None then (comRelease Staging c1)\<lparr>dx_staging := None\<rparr> else c1);
          c3 = (if dx_ctx c2 then (comRelease Device_Context c2)\<lparr>dx_ctx := False\<rparr> else c2)
      in if dx_device c3 then (comRelease Device c3)\<lparr>dx_device := False\<rparr> else c3)"

section \<open>One frame\<close>

text \<open>What the system answers while one frame is captured: the results of the calls, the description of the
  texture, the buffer of dirty rectangles, and the mapped memory with the length of its rows.\<close>

record screen =
  fr_acquire :: nat
  fr_texture :: nat
  fr_width :: "32 word"
  fr_height :: "32 word"
  fr_format :: "32 word"
  fr_create :: nat
  fr_null :: bool
  fr_dirty :: nat
  fr_needed :: "32 word"
  fr_rects :: bytes
  fr_map :: nat
  fr_pitch :: nat
  fr_pixels :: bytes

record capture_lib =
  cl_jpeg :: "bytes \<Rightarrow> int \<Rightarrow> int \<Rightarrow> bytes option"
  cl_order :: "(int \<times> int) list \<Rightarrow> (int \<times> int) list"

record rect =
  rc_left :: int
  rc_top :: int
  rc_right :: int
  rc_bottom :: int

definition get_i32 :: "nat \<Rightarrow> bytes \<Rightarrow> int" where
  "get_i32 off buf = sint (word_of_nat (get_le (take 4 (drop off buf))) :: 32 word)"

definition rect_at :: "bytes \<Rightarrow> nat \<Rightarrow> rect" where
  "rect_at buf off = \<lparr>rc_left = get_i32 off buf, rc_top = get_i32 (off + 4) buf, rc_right = get_i32 (off + 8) buf,
     rc_bottom = get_i32 (off + 12) buf\<rparr>"

definition whole_screen :: "capturer \<Rightarrow> rect" where
  "whole_screen c = \<lparr>rc_left = 0, rc_top = 0, rc_right = dx_width c, rc_bottom = dx_height c\<rparr>"

text \<open>\<open>None\<close>: an index beyond the buffer of 4096 bytes.\<close>

definition getDirtyRects :: "screen \<Rightarrow> capturer \<Rightarrow> capturer \<times> rect list option" where
  "getDirtyRects s c =
     (if dx_first c then (c\<lparr>dx_first := False\<rparr>, Some [whole_screen c])
      else if fr_dirty s \<noteq> 0 \<or> fr_needed s = 0 then (c, Some [whole_screen c])
      else let count = unat (fr_needed s) div 16
        in (c, if count * 16 > 4096 then None else Some (map (\<lambda>i. rect_at (fr_rects s) (i * 16)) [0..<count])))"

definition ensureStagingTexture :: "screen \<Rightarrow> capturer \<Rightarrow> capturer \<times> bool" where
  "ensureStagingTexture s c =
     (let d = (fr_width s, fr_height s, fr_format s)
      in if dx_staging c = Some d then (c, True)
         else let c1 = (if dx_staging c \<noteq> None then (comRelease Staging c)\<lparr>dx_staging := None\<rparr> else c)
           in if fr_create s \<noteq> 0 then (c1, False)
              else if fr_null s then (c1, False)
              else ((hold Staging c1)\<lparr>dx_staging := Some d\<rparr>, True))"

definition rect_tiles :: "int \<Rightarrow> rect \<Rightarrow> (int \<times> int) list" where
  "rect_tiles ts r = [(tx, ty). ty \<leftarrow> [rc_top r sdiv ts .. (rc_bottom r - 1) sdiv ts],
                               tx \<leftarrow> [rc_left r sdiv ts .. (rc_right r - 1) sdiv ts]]"

definition tile_set :: "int \<Rightarrow> rect list \<Rightarrow> (int \<times> int) list" where
  "tile_set ts rs = remdups (concat (map (rect_tiles ts) rs))"

text \<open>Blue and red change places; alpha becomes opaque. What is missing stays zero.\<close>

fun swap_pixels :: "bytes \<Rightarrow> bytes" where
  "swap_pixels (b # g # r # a # rest) = r # g # b # 255 # swap_pixels rest"
| "swap_pixels rest = replicate (length rest) 0"

definition encodeTileJPEG :: "capture_lib \<Rightarrow> bytes \<Rightarrow> int \<Rightarrow> int \<Rightarrow> bytes option" where
  "encodeTileJPEG lib bgra w h =
     (let n = nat (w * h * 4); px = swap_pixels (take n bgra)
      in cl_jpeg lib (px @ replicate (n - length px) 0) w h)"

text \<open>Reading \<open>n\<close> bytes of the mapped memory; \<open>None\<close>: the address is outside.\<close>

definition read_mapped :: "bytes \<Rightarrow> int \<Rightarrow> int \<Rightarrow> bytes option" where
  "read_mapped mem off n = (if 0 \<le> off \<and> off + n \<le> int (length mem) then Some (take (nat n) (drop (nat off) mem)) else None)"

definition tile_extent :: "int \<Rightarrow> int \<Rightarrow> int \<Rightarrow> int" where
  "tile_extent ts whole k = (if (k + 1) * ts > whole then whole - k * ts else ts)"

definition tile_raw :: "screen \<Rightarrow> int \<Rightarrow> int \<Rightarrow> int \<Rightarrow> int \<Rightarrow> int \<Rightarrow> bytes option" where
  "tile_raw s ts tx ty w h =
     map_option concat (those (map (\<lambda>row. read_mapped (fr_pixels s) (ty * ts * int (fr_pitch s) + tx * ts * 4 + row * int (fr_pitch s)) (w * 4))
       [0 .. h - 1]))"

text \<open>\<open>None\<close>: an access outside the mapped memory, which ends the process.\<close>

fun extract_each :: "capture_lib \<Rightarrow> screen \<Rightarrow> capturer \<Rightarrow> (int \<times> int) list \<Rightarrow> tile list option" where
  "extract_each lib s c [] = Some []"
| "extract_each lib s c ((tx, ty) # coords) =
     (let w = tile_extent (dx_tile c) (dx_width c) tx; h = tile_extent (dx_tile c) (dx_height c) ty
      in if w \<le> 0 \<or> h \<le> 0 then extract_each lib s c coords
         else case tile_raw s (dx_tile c) tx ty w h of
           None \<Rightarrow> None
         | Some raw \<Rightarrow> (case encodeTileJPEG lib raw w h of
             None \<Rightarrow> extract_each lib s c coords
           | Some d \<Rightarrow> map_option ((#) \<lparr>t_tx = word_of_int tx, t_ty = word_of_int ty, t_codec = CodecJPEG,
                          t_data_len = word_of_nat (length d), t_data = d\<rparr>) (extract_each lib s c coords)))"

datatype extraction = Tiles "tile list" | Panic | Fault

definition extract_mapped :: "capture_lib \<Rightarrow> screen \<Rightarrow> capturer \<Rightarrow> (int \<times> int) list \<Rightarrow> capturer \<times> extraction" where
  "extract_mapped lib s c coords =
     (if coords = [] then (c, Tiles [])
      else if fr_map s \<noteq> 0 then (c, Tiles [])
      else let c1 = c\<lparr>dx_mapped := True\<rparr>
        in case extract_each lib s c1 (cl_order lib coords) of
             None \<Rightarrow> (c1, Fault)
           | Some tiles \<Rightarrow> (c1\<lparr>dx_mapped := False\<rparr>, Tiles tiles))"

definition extractTiles :: "capture_lib \<Rightarrow> screen \<Rightarrow> capturer \<Rightarrow> capturer \<times> extraction" where
  "extractTiles lib s c =
     (if fr_texture s \<noteq> 0 then (c, Tiles [])
      else case
        (let c1 = hold Texture c
         in if fr_width s = 0 \<or> fr_height s = 0 then (c1, Tiles [])
            else case ensureStagingTexture s (c1\<lparr>dx_width := uint (fr_width s), dx_height := uint (fr_height s)\<rparr>) of
              (c2, False) \<Rightarrow> (c2, Tiles [])
            | (c2, True) \<Rightarrow> (case getDirtyRects s c2 of
                (c3, None) \<Rightarrow> (c3, Panic)
              | (c3, Some rs) \<Rightarrow> if dx_tile c3 = 0 \<and> rs \<noteq> [] then (c3, Panic)
                  else extract_mapped lib s c3 (tile_set (dx_tile c3) rs)))
      of (c', r) \<Rightarrow> (comRelease Texture c', r))"

datatype capture = Captured "tile list" int int | Capture_Error | Capture_Panic | Capture_Fault

definition DXGI_ERROR_WAIT_TIMEOUT :: nat where "DXGI_ERROR_WAIT_TIMEOUT = 0x887A0027"

definition CaptureFrame :: "capture_lib \<Rightarrow> screen \<Rightarrow> capturer \<Rightarrow> capturer \<times> capture" where
  "CaptureFrame lib s c =
     (if \<not> dx_dup c then (c, Capture_Error)
      else if fr_acquire s = DXGI_ERROR_WAIT_TIMEOUT then (c, Captured [] (dx_width c) (dx_height c))
      else if fr_acquire s \<noteq> 0 then (c, Capture_Error)
      else case extractTiles lib s (hold Resource (c\<lparr>dx_frame := True\<rparr>)) of
        (c', r) \<Rightarrow> ((comRelease Resource c')\<lparr>dx_frame := False\<rparr>,
          case r of Tiles ts \<Rightarrow> Captured ts (dx_width c') (dx_height c') | Panic \<Rightarrow> Capture_Panic | Fault \<Rightarrow> Capture_Fault))"


section \<open>Objects\<close>

text \<open>The references the structure owns; between two frames the process holds these and what it held before.\<close>

definition owned :: "capturer \<Rightarrow> com_object multiset" where
  "owned c = (if dx_device c then {#Device#} else {#}) + (if dx_ctx c then {#Device_Context#} else {#})
     + (if dx_dup c then {#Duplication#} else {#}) + (if dx_staging c = None then {#} else {#Staging#})"

definition settled :: "com_object multiset \<Rightarrow> capturer \<Rightarrow> bool" where
  "settled base c = (dx_live c = base + owned c \<and> \<not> dx_mapped c)"

inductive capturing :: "com_object multiset \<Rightarrow> capturer \<Rightarrow> bool" for base where
  begin_capture: "NewCapturer zstd e ts base = (Some c, live) \<Longrightarrow> capturing base c"
| next_frame: "capturing base c \<Longrightarrow> CaptureFrame lib s c = (c', r) \<Longrightarrow> r \<noteq> Capture_Fault \<Longrightarrow> capturing base c'"

lemma init_dup_live: "dx_live (fst (init_dup e c)) = (if in_duplicate e = 0 then add_mset Duplication (dx_live c) else dx_live c)"
  "snd (init_dup e c) = (in_duplicate e = 0)"
  by (simp_all add: init_dup_def hold_def Let_def)

lemma init_dup_fields: "dx_device (fst (init_dup e c)) = dx_device c" "dx_ctx (fst (init_dup e c)) = dx_ctx c"
  "dx_dup (fst (init_dup e c)) = (dx_dup c \<or> in_duplicate e = 0)" "dx_staging (fst (init_dup e c)) = dx_staging c"
  "dx_mapped (fst (init_dup e c)) = dx_mapped c" "dx_frame (fst (init_dup e c)) = dx_frame c"
  by (simp_all add: init_dup_def hold_def Let_def)

lemma with_object_split: "with_object hr x f c = (if hr \<noteq> 0 then (c, False) else (comRelease x (fst (f (hold x c))), snd (f (hold x c))))"
  by (simp add: with_object_def split_beta)

lemma new_capturer_settled:
  assumes "NewCapturer zstd e ts base = (Some c, live)"
  shows "settled base c \<and> \<not> dx_frame c \<and> live = dx_live c"
  using assms
  by (auto simp: NewCapturer_def capturer_init_def with_object_split init_dup_live init_dup_fields settled_def owned_def
      comRelease_def hold_def split: if_splits)

text \<open>An attempt that fails after the device was made leaves the device and its context behind for good.\<close>

lemma failed_init_leaks:
  assumes "in_create e = 0" "NewCapturer True e ts live = (None, live')"
  shows "live' = live + {#Device, Device_Context#}"
  using assms
  by (auto simp: NewCapturer_def capturer_init_def with_object_split init_dup_live init_dup_fields
      comRelease_def hold_def split: if_splits)

lemma ensure_settled:
  assumes "settled base c"
  shows "settled base (fst (ensureStagingTexture s c))"
proof (cases "dx_staging c")
  case None
  with assms show ?thesis by (simp add: settled_def owned_def ensureStagingTexture_def hold_def Let_def)
next
  case (Some d)
  with assms have "dx_live c = add_mset Staging (base + owned (c\<lparr>dx_staging := None\<rparr>))" "\<not> dx_mapped c"
    by (simp_all add: settled_def owned_def)
  with Some show ?thesis
    by (simp add: settled_def owned_def ensureStagingTexture_def hold_def comRelease_def Let_def)
qed

lemma settled_hold: "settled base c \<Longrightarrow> settled (add_mset x base) (hold x c)"
  by (simp add: settled_def owned_def hold_def)

lemma settled_release: "settled (add_mset x base) c \<Longrightarrow> settled base (comRelease x c)"
  by (simp add: settled_def owned_def comRelease_def)

lemma settled_fields [simp]:
  "settled base (c\<lparr>dx_width := w\<rparr>) = settled base c" "settled base (c\<lparr>dx_height := h\<rparr>) = settled base c"
  "settled base (c\<lparr>dx_first := b\<rparr>) = settled base c" "settled base (c\<lparr>dx_frame := b\<rparr>) = settled base c"
  by (simp_all add: settled_def owned_def)

lemma rects_settled: "settled base c \<Longrightarrow> settled base (fst (getDirtyRects s c))"
  by (simp add: getDirtyRects_def Let_def)

lemma mapped_settled: "settled base c \<Longrightarrow> snd (extract_mapped lib s c coords) \<noteq> Fault \<Longrightarrow> settled base (fst (extract_mapped lib s c coords))"
  by (cases "coords = []"; cases "fr_map s = 0"; cases "extract_each lib s (c\<lparr>dx_mapped := True\<rparr>) (cl_order lib coords)")
    (simp_all add: extract_mapped_def Let_def settled_def owned_def)

lemma extract_settled:
  assumes "settled base c" "snd (extractTiles lib s c) \<noteq> Fault"
  shows "settled base (fst (extractTiles lib s c))"
proof (cases "fr_texture s \<noteq> 0 \<or> fr_width s = 0 \<or> fr_height s = 0")
  case True
  with assms show ?thesis by (auto simp: extractTiles_def Let_def intro: settled_release settled_hold)
next
  case False
  let ?c1 = "(hold Texture c)\<lparr>dx_width := uint (fr_width s), dx_height := uint (fr_height s)\<rparr>"
  obtain c2 ok where 2: "ensureStagingTexture s ?c1 = (c2, ok)" by fastforce
  obtain c3 rs where 3: "getDirtyRects s c2 = (c3, rs)" by fastforce
  have s2: "settled (add_mset Texture base) c2"
    using ensure_settled [of "add_mset Texture base" ?c1 s] settled_hold [OF assms(1), of Texture] 2 by simp
  then have s3: "settled (add_mset Texture base) c3" using rects_settled [of _ c2 s] 3 by simp
  show ?thesis
  proof (cases "\<not> ok \<or> rs = None \<or> dx_tile c3 = 0 \<and> rs \<noteq> Some []")
    case True
    with False s2 s3 show ?thesis
      by (cases ok; cases rs) (auto simp: extractTiles_def Let_def 2 3 intro: settled_release)
  next
    case ok: False
    then obtain r where r: "rs = Some r" "ok" by auto
    let ?x = "extract_mapped lib s c3 (tile_set (dx_tile c3) r)"
    have e: "extractTiles lib s c = (comRelease Texture (fst ?x), snd ?x)"
      using False ok r by (auto simp: extractTiles_def Let_def 2 3 split_beta)
    with mapped_settled [OF s3, of lib s "tile_set (dx_tile c3) r"] assms(2) settled_release show ?thesis by simp
  qed
qed

lemma frame_settled:
  assumes "settled base c" "\<not> dx_frame c" "CaptureFrame lib s c = (c', r)" "r \<noteq> Capture_Fault"
  shows "settled base c' \<and> \<not> dx_frame c'"
proof (cases "\<not> dx_dup c \<or> fr_acquire s \<noteq> 0")
  case True
  with assms show ?thesis by (auto simp: CaptureFrame_def split: if_splits)
next
  case False
  let ?c1 = "hold Resource (c\<lparr>dx_frame := True\<rparr>)"
  obtain c2 x where x: "extractTiles lib s ?c1 = (c2, x)" by fastforce
  have c': "c' = (comRelease Resource c2)\<lparr>dx_frame := False\<rparr>" "x = Fault \<Longrightarrow> r = Capture_Fault"
    using assms(3) False x by (auto simp: CaptureFrame_def DXGI_ERROR_WAIT_TIMEOUT_def split: extraction.splits)
  have "settled (add_mset Resource base) ?c1" using assms(1) by (intro settled_hold) simp
  then have "settled (add_mset Resource base) c2"
    using extract_settled [of _ ?c1 lib s] x c'(2) assms(4) by auto
  then show ?thesis using c'(1) settled_release by simp
qed

lemma capturing_settled: "capturing base c \<Longrightarrow> settled base c \<and> \<not> dx_frame c"
proof (induction rule: capturing.induct)
  case (begin_capture zstd e ts c live)
  then show ?case using new_capturer_settled by blast
next
  case (next_frame c lib s c' r)
  then show ?case using frame_settled by blast
qed

lemma close_releases: "settled base c \<Longrightarrow> dx_live (capturer_close c) = base"
  by (simp add: settled_def owned_def capturer_close_def comRelease_def Let_def)

text \<open>C35. The capturer gives back everything it takes: however many frames were captured, with whatever
  errors, resolution changes and panics in between, no frame stays acquired and no texture mapped, and
  \<open>Close\<close> leaves exactly the references that were there before the capturer was made.\<close>

theorem capturer_releases:
  assumes "capturing base c"
  shows "\<not> dx_frame c \<and> \<not> dx_mapped c \<and> dx_live (capturer_close c) = base"
  using capturing_settled [OF assms] close_releases [of base c] by (simp add: settled_def)


section \<open>Pixels\<close>

text \<open>The memory of a frame: rows of at least \<open>4 * width\<close> bytes, all of them mapped.\<close>

definition mapped_ok :: "screen \<Rightarrow> bool" where
  "mapped_ok s = (4 * unat (fr_width s) \<le> fr_pitch s \<and> length (fr_pixels s) = fr_pitch s * unat (fr_height s))"

text \<open>The pixel at column \<open>x\<close> of row \<open>y\<close>: red, green, blue, opaque.\<close>

definition screen_pixel :: "screen \<Rightarrow> nat \<Rightarrow> nat \<Rightarrow> bytes" where
  "screen_pixel s x y = (let p = drop (y * fr_pitch s + x * 4) (fr_pixels s) in [p ! 2, p ! 1, p ! 0, 255])"

definition image_pixel :: "bytes \<Rightarrow> nat \<Rightarrow> nat \<Rightarrow> nat \<Rightarrow> bytes" where
  "image_pixel px w x y = take 4 (drop ((y * w + x) * 4) px)"

lemma length_swap_pixels [simp]: "length (swap_pixels px) = length px"
  by (induction px rule: swap_pixels.induct) simp_all

lemma swap_pixels_at:
  "k * 4 + 3 < length px \<Longrightarrow> take 4 (drop (k * 4) (swap_pixels px)) = [px ! (k * 4 + 2), px ! (k * 4 + 1), px ! (k * 4), 255]"
proof (induction px arbitrary: k rule: swap_pixels.induct)
  case (1 b g r a rest)
  show ?case
  proof (cases k)
    case (Suc j)
    have "drop (k * 4) (swap_pixels (b # g # r # a # rest)) = drop (j * 4) (swap_pixels rest)" by (simp add: Suc eval_nat_numeral)
    moreover have "(b # g # r # a # rest) ! (k * 4 + i) = rest ! (j * 4 + i)" for i by (simp add: Suc eval_nat_numeral)
    moreover from this [of 0] have "(b # g # r # a # rest) ! (k * 4) = rest ! (j * 4)" by simp
    ultimately show ?thesis using 1(1) [of j] 1(2) Suc by simp
  qed (simp add: numeral_eq_Suc)
qed simp_all

lemma those_map_Some: "(\<And>x. x \<in> set xs \<Longrightarrow> f x = Some (g x)) \<Longrightarrow> those (map f xs) = Some (map g xs)"
  by (induction xs) simp_all

text \<open>Equal rows laid end to end.\<close>

lemma length_rows: "(\<And>r. r < n \<Longrightarrow> length (f r) = m) \<Longrightarrow> length (concat (map f [0..<n])) = n * m"
  by (induction n) simp_all

lemma concat_rows:
  assumes "\<And>r. r < n \<Longrightarrow> length (f r) = m" "k < n" "j < m"
  shows "concat (map f [0..<n]) ! (k * m + j) = f k ! j"
proof -
  have "length (concat (map f [0..<k])) = k * m" using assms(1,2) by (intro length_rows) simp
  moreover have "concat (map f [0..<n]) = concat (map f [0..<k]) @ f k @ concat (map f [Suc k..<n])"
  proof -
    have "[0..<n] = [0..<k] @ k # [Suc k..<n]" using assms(2) upt_add_eq_append [of 0 k "n - k"] by (simp add: upt_conv_Cons)
    then show ?thesis by simp
  qed
  ultimately show ?thesis using assms by (simp add: nth_append)
qed


lemma upto_nat: "[0 .. int n - 1] = map int [0..<n]"
proof (induction n)
  case (Suc n)
  have "[0 .. int (Suc n) - 1] = [0 .. int n - 1] @ [int n]" using upto_rec2 [of 0 "int n"] by simp
  with Suc show ?case by simp
qed simp

definition tile_rows :: "screen \<Rightarrow> nat \<Rightarrow> nat \<Rightarrow> nat \<Rightarrow> nat \<Rightarrow> nat \<Rightarrow> bytes list" where
  "tile_rows s ts tx ty w h = map (\<lambda>row. take (w * 4) (drop ((ty * ts + row) * fr_pitch s + tx * ts * 4) (fr_pixels s))) [0..<h]"

lemma row_inside:
  assumes "mapped_ok s" "tx * ts + w \<le> unat (fr_width s)" "r < unat (fr_height s)"
  shows "r * fr_pitch s + tx * ts * 4 + w * 4 \<le> length (fr_pixels s)"
proof -
  have "tx * ts * 4 + w * 4 \<le> fr_pitch s" using assms(1,2) by (simp add: mapped_ok_def)
  moreover have "(r + 1) * fr_pitch s \<le> unat (fr_height s) * fr_pitch s" using assms(3) by (intro mult_right_mono) simp_all
  ultimately show ?thesis using assms(1) by (simp add: mapped_ok_def mult.commute)
qed

lemma tile_raw_rows:
  assumes "mapped_ok s" "tx * ts + w \<le> unat (fr_width s)" "ty * ts + h \<le> unat (fr_height s)"
  shows "tile_raw s (int ts) (int tx) (int ty) (int w) (int h) = Some (concat (tile_rows s ts tx ty w h))"
proof -
  have r: "read_mapped (fr_pixels s) (int ty * int ts * int (fr_pitch s) + int tx * int ts * 4 + int row * int (fr_pitch s)) (int w * 4)
     = Some (take (w * 4) (drop ((ty * ts + row) * fr_pitch s + tx * ts * 4) (fr_pixels s)))" if "row < h" for row
  proof -
    have o: "int ty * int ts * int (fr_pitch s) + int tx * int ts * 4 + int row * int (fr_pitch s)
        = int ((ty * ts + row) * fr_pitch s + tx * ts * 4)" by (simp add: algebra_simps)
    have "(ty * ts + row) * fr_pitch s + tx * ts * 4 + w * 4 \<le> length (fr_pixels s)"
      using that assms by (intro row_inside) simp_all
    then have "int ((ty * ts + row) * fr_pitch s + tx * ts * 4) + int w * 4 \<le> int (length (fr_pixels s))" by linarith
    then show ?thesis unfolding o by (simp add: read_mapped_def nat_mult_distrib del: of_nat_add of_nat_mult)
  qed
  show ?thesis unfolding tile_raw_def upto_nat map_map tile_rows_def
    by (subst those_map_Some [where g = "\<lambda>row. take (w * 4) (drop ((ty * ts + row) * fr_pitch s + tx * ts * 4) (fr_pixels s))"])
      (simp_all add: r)
qed

lemma length_tile_rows:
  assumes "mapped_ok s" "tx * ts + w \<le> unat (fr_width s)" "ty * ts + h \<le> unat (fr_height s)"
  shows "length (concat (tile_rows s ts tx ty w h)) = h * (w * 4)"
proof -
  have "length (take (w * 4) (drop ((ty * ts + r) * fr_pitch s + tx * ts * 4) (fr_pixels s))) = w * 4" if "r < h" for r
    using row_inside [of s tx ts w "ty * ts + r"] that assms by simp
  then show ?thesis unfolding tile_rows_def by (rule length_rows)
qed

lemma tile_pixels:
  assumes "mapped_ok s" "tx * ts + w \<le> unat (fr_width s)" "ty * ts + h \<le> unat (fr_height s)" "x < w" "y < h"
  shows "image_pixel (swap_pixels (concat (tile_rows s ts tx ty w h))) w x y = screen_pixel s (tx * ts + x) (ty * ts + y)"
proof -
  let ?f = "\<lambda>row. take (w * 4) (drop ((ty * ts + row) * fr_pitch s + tx * ts * 4) (fr_pixels s))"
  let ?raw = "concat (tile_rows s ts tx ty w h)"
  have len: "length (?f r) = w * 4" if "r < h" for r
    using row_inside [of s tx ts w "ty * ts + r"] that assms by simp
  have at: "?raw ! ((y * w + x) * 4 + i) = screen_bytes ! i"
    if "i < 4" and sb: "screen_bytes = drop ((ty * ts + y) * fr_pitch s + (tx * ts + x) * 4) (fr_pixels s)" for i screen_bytes
  proof -
    have j: "x * 4 + i < w * 4" using that(1) assms(4) by linarith
    have "(y * w + x) * 4 + i = y * (w * 4) + (x * 4 + i)" by (simp add: algebra_simps)
    then have "?raw ! ((y * w + x) * 4 + i) = ?f y ! (x * 4 + i)"
      unfolding tile_rows_def using concat_rows [of h ?f "w * 4", OF len assms(5) j] by metis
    also have "\<dots> = fr_pixels s ! ((ty * ts + y) * fr_pitch s + (tx * ts + x) * 4 + i)"
      using j row_inside [of s tx ts w "ty * ts + y"] assms by (simp add: algebra_simps)
    finally show ?thesis using sb row_inside [of s tx ts w "ty * ts + y"] assms j by (simp add: algebra_simps)
  qed
  have l: "length ?raw = h * (w * 4)" by (rule length_tile_rows [OF assms(1-3)])
  have "y * w + x + 1 \<le> y * w + w" using assms(4) by simp
  also have "\<dots> \<le> h * w" using mult_right_mono [of "y + 1" h w] assms(5) by simp
  finally have "(y * w + x) * 4 + 3 < length ?raw" using l by simp
  from swap_pixels_at [OF this] show ?thesis
    using at [OF _ refl, of 2] at [OF _ refl, of 1] at [OF _ refl, of 0]
    by (simp add: image_pixel_def screen_pixel_def Let_def)
qed

text \<open>The data of a tile is the picture of its part of the screen.\<close>

definition tile_faithful :: "capture_lib \<Rightarrow> screen \<Rightarrow> nat \<Rightarrow> tile \<Rightarrow> bool" where
  "tile_faithful lib s ts t =
     (let x0 = unat (t_tx t) * ts; y0 = unat (t_ty t) * ts;
          w = min ts (unat (fr_width s) - x0); h = min ts (unat (fr_height s) - y0)
      in t_codec t = CodecJPEG \<and> 0 < w \<and> 0 < h \<and> (\<exists>px. length px = w * h * 4 \<and> cl_jpeg lib px (int w) (int h) = Some (t_data t)
         \<and> (\<forall>x y. x < w \<longrightarrow> y < h \<longrightarrow> image_pixel px w x y = screen_pixel s (x0 + x) (y0 + y))))"

lemma tile_extent_nat: "k * ts < n \<Longrightarrow> tile_extent (int ts) (int n) (int k) = int (min ts (n - k * ts))"
  by (auto simp: tile_extent_def min_def of_nat_diff algebra_simps simp flip: of_nat_mult of_nat_add of_nat_Suc)

definition in_grid :: "screen \<Rightarrow> nat \<Rightarrow> int \<times> int \<Rightarrow> bool" where
  "in_grid s ts k = (\<exists>tx ty. k = (int tx, int ty) \<and> tx * ts < unat (fr_width s) \<and> ty * ts < unat (fr_height s))"

lemma extract_each_faithful:
  assumes "mapped_ok s" "list_all (in_grid s ts) coords" "0 < ts" "\<And>px w h. cl_jpeg lib px w h \<noteq> None"
    "unat (fr_width s) \<le> 65536 * ts" "unat (fr_height s) \<le> 65536 * ts"
    "dx_tile c = int ts" "dx_width c = int (unat (fr_width s))" "dx_height c = int (unat (fr_height s))"
  shows "\<exists>tiles. extract_each lib s c coords = Some tiles \<and> list_all (tile_faithful lib s ts) tiles
     \<and> map (\<lambda>t. (int (unat (t_tx t)), int (unat (t_ty t)))) tiles = coords"
  using assms(2)
proof (induction coords)
  case (Cons k coords)
  then obtain tiles where IH: "extract_each lib s c coords = Some tiles" "list_all (tile_faithful lib s ts) tiles"
    "map (\<lambda>t. (int (unat (t_tx t)), int (unat (t_ty t)))) tiles = coords" by auto
  obtain tx ty where k: "k = (int tx, int ty)" "tx * ts < unat (fr_width s)" "ty * ts < unat (fr_height s)"
    using Cons.prems by (auto simp: in_grid_def)
  define w where "w = min ts (unat (fr_width s) - tx * ts)"
  define h where "h = min ts (unat (fr_height s) - ty * ts)"
  have wh: "0 < w" "0 < h" "tx * ts + w \<le> unat (fr_width s)" "ty * ts + h \<le> unat (fr_height s)"
    using k(2,3) assms(3) by (auto simp: w_def h_def min_def)
  let ?raw = "concat (tile_rows s ts tx ty w h)"
  have l: "length ?raw = w * h * 4" using length_tile_rows [OF assms(1) wh(3,4)] by simp
  then obtain d where d: "encodeTileJPEG lib ?raw (int w) (int h) = Some d" "cl_jpeg lib (swap_pixels ?raw) (int w) (int h) = Some d"
    using assms(4) [of "swap_pixels ?raw" "int w" "int h"] by (auto simp: encodeTileJPEG_def Let_def nat_mult_distrib)
  have b: "tx < 65536" "ty < 65536"
  proof -
    have "tx * ts < 65536 * ts" "ty * ts < 65536 * ts" using k(2,3) assms(5,6) by linarith+
    then show "tx < 65536" "ty < 65536" by simp_all
  qed
  let ?t = "\<lparr>t_tx = word_of_int (int tx), t_ty = word_of_int (int ty), t_codec = CodecJPEG,
     t_data_len = word_of_nat (length d), t_data = d\<rparr>"
  have u: "unat (t_tx ?t) = tx" "unat (t_ty ?t) = ty" using b by (simp_all add: unat_of_nat)
  have e: "extract_each lib s c (k # coords) = Some (?t # tiles)"
    using wh(1,2) tile_raw_rows [OF assms(1) wh(3,4)] d(1) IH(1) assms(7-9)
      tile_extent_nat [OF k(2)] tile_extent_nat [OF k(3)]
    by (simp add: k(1) Let_def flip: w_def h_def)
  have "tile_faithful lib s ts ?t"
    using d(2) l wh(1,2) tile_pixels [OF assms(1) wh(3,4)] unfolding tile_faithful_def Let_def u
    by (intro conjI exI [of _ "swap_pixels ?raw"]) (simp_all flip: w_def h_def)
  moreover have "uint (word_of_nat tx :: 16 word) = int tx" "uint (word_of_nat ty :: 16 word) = int ty"
    using b by (simp_all add: unsigned_of_nat take_bit_nat_eq_self)
  ultimately show ?case using e IH k(1) by (intro exI [of _ "?t # tiles"]) (simp del: extract_each.simps)
qed simp


text \<open>What the system reports as changed: everything in the first frame and when there is no list of rectangles.\<close>

definition in_rect :: "nat \<Rightarrow> nat \<Rightarrow> rect \<Rightarrow> bool" where
  "in_rect x y r = (rc_left r \<le> int x \<and> int x < rc_right r \<and> rc_top r \<le> int y \<and> int y < rc_bottom r)"

definition reported :: "screen \<Rightarrow> rect list" where
  "reported s = map (\<lambda>i. rect_at (fr_rects s) (i * 16)) [0..<unat (fr_needed s) div 16]"

definition dirty_at :: "screen \<Rightarrow> capturer \<Rightarrow> nat \<Rightarrow> nat \<Rightarrow> bool" where
  "dirty_at s c x y = (dx_first c \<or> fr_dirty s \<noteq> 0 \<or> fr_needed s = 0 \<or> (\<exists>r \<in> set (reported s). in_rect x y r))"

text \<open>The calls of this frame succeed, and the rectangles lie on the screen.\<close>

definition rect_inside :: "screen \<Rightarrow> rect \<Rightarrow> bool" where
  "rect_inside s r = (0 \<le> rc_left r \<and> 0 \<le> rc_top r \<and> rc_right r \<le> int (unat (fr_width s)) \<and> rc_bottom r \<le> int (unat (fr_height s)))"

definition screen_ok :: "screen \<Rightarrow> bool" where
  "screen_ok s = (fr_acquire s = 0 \<and> fr_texture s = 0 \<and> fr_width s \<noteq> 0 \<and> fr_height s \<noteq> 0 \<and> fr_create s = 0 \<and> \<not> fr_null s
     \<and> fr_map s = 0 \<and> mapped_ok s \<and> fr_needed s \<le> 4096 \<and> list_all (rect_inside s) (reported s))"

lemma sdiv_nonneg: "0 \<le> (a::int) \<Longrightarrow> 0 < b \<Longrightarrow> a sdiv b = a div b"
  by (simp add: signed_divide_int_def sgn_if)

lemma sdiv_below: "0 < (b::int) \<Longrightarrow> a \<le> m \<Longrightarrow> 0 \<le> m \<Longrightarrow> a sdiv b \<le> m div b"
proof (cases "0 \<le> a")
  case False
  assume "0 < b" "0 \<le> m"
  moreover from this have "a sdiv b \<le> 0" using False by (simp add: signed_divide_int_def sgn_if pos_imp_zdiv_nonneg_iff)
  moreover have "0 \<le> m div b" using \<open>0 < b\<close> \<open>0 \<le> m\<close> by (simp add: pos_imp_zdiv_nonneg_iff)
  ultimately show ?thesis by linarith
qed (simp add: sdiv_nonneg zdiv_mono1)

lemma rect_tiles_iff: "(tx, ty) \<in> set (rect_tiles ts r) \<longleftrightarrow> rc_top r sdiv ts \<le> ty \<and> ty \<le> (rc_bottom r - 1) sdiv ts
    \<and> rc_left r sdiv ts \<le> tx \<and> tx \<le> (rc_right r - 1) sdiv ts"
  by (auto simp: rect_tiles_def image_iff)

lemma rect_tiles_in_grid:
  assumes "rect_inside s r" "0 < ts" "0 < unat (fr_width s)" "0 < unat (fr_height s)" "k \<in> set (rect_tiles (int ts) r)"
  shows "in_grid s ts k"
proof -
  have one: "\<exists>j. i = int j \<and> j * ts < n" if "a sdiv int ts \<le> i" "i \<le> (b - 1) sdiv int ts" "0 \<le> a" "b \<le> int n" "0 < n" for a b i n
  proof -
    have "0 \<le> i" using that(1,3) assms(2) sdiv_nonneg [of a "int ts"] pos_imp_zdiv_nonneg_iff [of "int ts" a] by linarith
    then obtain j where j: "i = int j" using nonneg_int_cases by blast
    have "i \<le> (int n - 1) div int ts" using sdiv_below [of "int ts" "b - 1" "int n - 1"] that(2,4,5) assms(2) by linarith
    also have "\<dots> = int ((n - 1) div ts)" using that(5) by (simp add: zdiv_int of_nat_diff)
    finally have "j \<le> (n - 1) div ts" using j by linarith
    then have "j * ts \<le> (n - 1) div ts * ts" by (rule mult_right_mono) simp
    also have "\<dots> \<le> n - 1" by simp
    finally show ?thesis using j that(5) by auto
  qed
  obtain tx ty where "k = (tx, ty)" by (cases k)
  with assms(5) have k: "k = (tx, ty)" "rc_top r sdiv int ts \<le> ty" "ty \<le> (rc_bottom r - 1) sdiv int ts"
    "rc_left r sdiv int ts \<le> tx" "tx \<le> (rc_right r - 1) sdiv int ts"
    by (simp_all add: rect_tiles_iff)
  from assms(1) have r: "0 \<le> rc_left r" "0 \<le> rc_top r" "rc_right r \<le> int (unat (fr_width s))" "rc_bottom r \<le> int (unat (fr_height s))"
    by (simp_all add: rect_inside_def)
  from one [OF k(4,5) r(1,3) assms(3)] one [OF k(2,3) r(2,4) assms(4)] k(1) show ?thesis
    unfolding in_grid_def by blast
qed

lemma pixel_in_tiles:
  assumes "in_rect x y r" "0 < ts" "0 \<le> rc_left r" "0 \<le> rc_top r"
  shows "(int (x div ts), int (y div ts)) \<in> set (rect_tiles (int ts) r)"
proof -
  have one: "a sdiv int ts \<le> int (v div ts) \<and> int (v div ts) \<le> (b - 1) sdiv int ts" if "a \<le> int v" "int v < b" "0 \<le> a" for a b v
  proof -
    have "a div int ts \<le> int v div int ts" "int v div int ts \<le> (b - 1) div int ts" using that assms(2) by (simp_all add: zdiv_mono1)
    then show ?thesis using that assms(2) sdiv_nonneg [of a "int ts"] sdiv_nonneg [of "b - 1" "int ts"] by (simp add: zdiv_int)
  qed
  from assms show ?thesis using one [of "rc_left r" x "rc_right r"] one [of "rc_top r" y "rc_bottom r"]
    by (simp add: rect_tiles_iff in_rect_def)
qed


lemma ensure_staging_ok:
  assumes "fr_create s = 0" "\<not> fr_null s"
  obtains c' where "ensureStagingTexture s c = (c', True)" "dx_first c' = dx_first c" "dx_tile c' = dx_tile c"
    "dx_width c' = dx_width c" "dx_height c' = dx_height c"
proof (rule that)
  show "ensureStagingTexture s c = (fst (ensureStagingTexture s c), True)"
    using assms by (simp add: ensureStagingTexture_def Let_def)
qed (use assms in \<open>simp_all add: ensureStagingTexture_def hold_def comRelease_def Let_def\<close>)

lemma unat_is: "unat w = n \<longleftrightarrow> int n = uint w"
  by (metis of_nat_eq_iff uint_nat)

lemma below_uint: "x < unat w \<Longrightarrow> int x < uint w"
  by (metis of_nat_less_iff uint_nat)

lemma get_rects_ok:
  assumes "screen_ok s" "dx_width c = int (unat (fr_width s))" "dx_height c = int (unat (fr_height s))"
  obtains c' rs where "getDirtyRects s c = (c', Some rs)" "dx_tile c' = dx_tile c" "dx_width c' = dx_width c"
    "dx_height c' = dx_height c" "list_all (rect_inside s) rs"
    "\<And>x y. x < unat (fr_width s) \<Longrightarrow> y < unat (fr_height s) \<Longrightarrow> dirty_at s c x y \<Longrightarrow> \<exists>r \<in> set rs. in_rect x y r"
proof (cases "dx_first c \<or> fr_dirty s \<noteq> 0 \<or> fr_needed s = 0")
  case True
  show ?thesis
    by (rule that [of "if dx_first c then c\<lparr>dx_first := False\<rparr> else c" "[whole_screen c]"])
      (use True assms(2,3) in \<open>auto simp: getDirtyRects_def rect_inside_def whole_screen_def in_rect_def below_uint\<close>)
next
  case False
  have "unat (fr_needed s) \<le> 4096" using assms(1) by (simp add: screen_ok_def word_le_nat_alt)
  then have "unat (fr_needed s) div 16 * 16 \<le> 4096" by (metis div_mult_self_is_m div_times_less_eq_dividend le_trans)
  then show ?thesis
    by (intro that [of c "reported s"])
      (use False assms in \<open>auto simp: getDirtyRects_def reported_def screen_ok_def dirty_at_def Let_def\<close>)
qed

text \<open>C34. Every change of the screen is sent, and what is sent is the screen: in a frame whose calls succeed
  and whose rectangles lie on the screen, each tile is the picture of its part of the screen, pixel for
  pixel with red and blue put right, and each pixel that was reported as changed lies in exactly one tile,
  whatever the padding of the rows, the size of the screen and the order of the tiles.\<close>

theorem dirty_pixels_sent:
  assumes "screen_ok s" "dx_dup c" "dx_tile c = int ts" "0 < ts" "unat (fr_width s) \<le> 65536 * ts" "unat (fr_height s) \<le> 65536 * ts"
    "\<And>px w h. cl_jpeg lib px w h \<noteq> None" "\<And>ks. mset (cl_order lib ks) = mset ks"
  shows "\<exists>tiles. snd (CaptureFrame lib s c) = Captured tiles (int (unat (fr_width s))) (int (unat (fr_height s)))
    \<and> (\<forall>t \<in> set tiles. tile_faithful lib s ts t)
    \<and> (\<forall>x y. x < unat (fr_width s) \<longrightarrow> y < unat (fr_height s) \<longrightarrow> dirty_at s c x y
        \<longrightarrow> length (filter (\<lambda>t. unat (t_tx t) = x div ts \<and> unat (t_ty t) = y div ts) tiles) = 1)"
proof -
  let ?c1 = "(hold Texture (hold Resource (c\<lparr>dx_frame := True\<rparr>)))\<lparr>dx_width := int (unat (fr_width s)), dx_height := int (unat (fr_height s))\<rparr>"
  obtain c2 where 2: "ensureStagingTexture s ?c1 = (c2, True)" "dx_first c2 = dx_first ?c1" "dx_tile c2 = dx_tile ?c1"
    "dx_width c2 = int (unat (fr_width s))" "dx_height c2 = int (unat (fr_height s))"
    using ensure_staging_ok [of s ?c1] assms(1) by (auto simp: screen_ok_def)
  obtain c3 rs where 3: "getDirtyRects s c2 = (c3, Some rs)" "dx_tile c3 = dx_tile c2" "dx_width c3 = dx_width c2"
    "dx_height c3 = dx_height c2" "list_all (rect_inside s) rs"
    "\<And>x y. x < unat (fr_width s) \<Longrightarrow> y < unat (fr_height s) \<Longrightarrow> dirty_at s c2 x y \<Longrightarrow> \<exists>r \<in> set rs. in_rect x y r"
    using get_rects_ok [OF assms(1) 2(4,5)] by metis
  have t: "dx_tile c3 = int ts" using 2(3) 3(2) assms(3) by (simp add: hold_def)
  define ks where "ks = tile_set (int ts) rs"
  have pos: "0 < unat (fr_width s)" "0 < unat (fr_height s)" using assms(1) by (simp_all add: screen_ok_def unat_gt_0)
  have "in_grid s ts k" if "k \<in> set ks" for k
  proof -
    from that obtain r where "r \<in> set rs" "k \<in> set (rect_tiles (int ts) r)" by (auto simp: ks_def tile_set_def)
    with 3(5) show ?thesis by (intro rect_tiles_in_grid [OF _ assms(4) pos, of r]) (auto simp: list_all_iff)
  qed
  moreover have set_order: "set (cl_order lib ks) = set ks" by (metis assms(8) set_mset_mset)
  ultimately have grid: "list_all (in_grid s ts) (cl_order lib ks)" by (simp add: list_all_iff)
  obtain tiles where tiles: "extract_each lib s (c3\<lparr>dx_mapped := True\<rparr>) (cl_order lib ks) = Some tiles"
    "list_all (tile_faithful lib s ts) tiles" "map (\<lambda>t. (int (unat (t_tx t)), int (unat (t_ty t)))) tiles = cl_order lib ks"
    using extract_each_faithful [OF _ grid assms(4,7,5,6), of "c3\<lparr>dx_mapped := True\<rparr>"] assms(1) t 2 3 by (auto simp: screen_ok_def)
  define res where "res = (if ks = [] then [] else tiles)"
  have keys: "map (\<lambda>t. (int (unat (t_tx t)), int (unat (t_ty t)))) res = (if ks = [] then [] else cl_order lib ks)"
    and faithful: "list_all (tile_faithful lib s ts) res"
    using tiles by (simp_all add: res_def)
  have "snd (CaptureFrame lib s c) = Captured res (int (unat (fr_width s))) (int (unat (fr_height s)))"
  proof -
    obtain c4 where m: "extract_mapped lib s c3 ks = (c4, Tiles res)" "dx_width c4 = dx_width c3" "dx_height c4 = dx_height c3"
      using assms(1) tiles(1) by (cases "ks = []") (simp_all add: extract_mapped_def screen_ok_def res_def)
    have "tile_set (dx_tile c3) rs = ks" "dx_tile c3 \<noteq> 0" using t assms(4) by (simp_all add: ks_def)
    then have "extractTiles lib s (hold Resource (c\<lparr>dx_frame := True\<rparr>)) = (comRelease Texture c4, Tiles res)"
      using assms(1) 2(1) 3(1) m(1) by (simp add: extractTiles_def screen_ok_def Let_def)
    then show ?thesis
      using assms(1,2) m 2(4,5) 3(3,4) by (simp add: CaptureFrame_def screen_ok_def DXGI_ERROR_WAIT_TIMEOUT_def comRelease_def)
  qed
  moreover have "length (filter (\<lambda>t. unat (t_tx t) = x div ts \<and> unat (t_ty t) = y div ts) res) = 1"
    if xy: "x < unat (fr_width s)" "y < unat (fr_height s)" "dirty_at s c x y" for x y
  proof -
    let ?k = "(int (x div ts), int (y div ts))"
    have "dirty_at s c2 x y" using xy(3) 2(2) by (simp add: dirty_at_def hold_def)
    then obtain r where r: "r \<in> set rs" "in_rect x y r" using 3(6) xy by blast
    then have "?k \<in> set (rect_tiles (int ts) r)"
      using 3(5) assms(4) by (intro pixel_in_tiles) (auto simp: list_all_iff rect_inside_def)
    then have "?k \<in> set ks" using r(1) by (auto simp: ks_def tile_set_def)
    moreover have "distinct ks" by (simp add: ks_def tile_set_def)
    ultimately have "count (mset (cl_order lib ks)) ?k = 1" "ks \<noteq> []" by (auto simp: assms(8) distinct_count_atmost_1)
    then have a: "length (filter ((=) ?k) (map (\<lambda>t. (int (unat (t_tx t)), int (unat (t_ty t)))) res)) = 1"
      using keys by (simp add: count_mset count_list_eq_length_filter)
    have b: "filter ((=) ?k) (map (\<lambda>t. (int (unat (t_tx t)), int (unat (t_ty t)))) res)
        = map (\<lambda>t. (int (unat (t_tx t)), int (unat (t_ty t)))) (filter (\<lambda>t. unat (t_tx t) = x div ts \<and> unat (t_ty t) = y div ts) res)"
      unfolding filter_map comp_def by (rule arg_cong [where f = "map _"], rule filter_cong) (auto simp: unat_is)
    from a show ?thesis unfolding b by (simp only: length_map)
  qed
  ultimately show ?thesis using faithful by (intro exI [of _ res]) (auto simp: list_all_iff)
qed


text \<open>A first frame whose texture cannot be mapped counts as delivered: nothing is sent, no error is reported, and
  the next frame sends only what changed since.\<close>

lemma first_frame_lost:
  assumes "dx_dup c" "dx_first c" "fr_acquire s = 0" "fr_texture s = 0" "fr_width s \<noteq> 0" "fr_height s \<noteq> 0" "fr_create s = 0"
    "\<not> fr_null s" "fr_map s \<noteq> 0" "dx_tile c > 0"
  shows "\<exists>w h. snd (CaptureFrame lib s c) = Captured [] w h" "\<not> dx_first (fst (CaptureFrame lib s c))"
proof -
  let ?c1 = "(hold Texture (hold Resource (c\<lparr>dx_frame := True\<rparr>)))\<lparr>dx_width := uint (fr_width s), dx_height := uint (fr_height s)\<rparr>"
  obtain c2 where 2: "ensureStagingTexture s ?c1 = (c2, True)" "dx_first c2 = dx_first ?c1" "dx_tile c2 = dx_tile ?c1"
    by (rule ensure_staging_ok [OF assms(7,8), of ?c1])
  then have f: "dx_first c2" "dx_tile c2 \<noteq> 0" using assms(2,10) by (simp_all add: hold_def)
  have "extractTiles lib s (hold Resource (c\<lparr>dx_frame := True\<rparr>)) = (comRelease Texture (c2\<lparr>dx_first := False\<rparr>), Tiles [])"
    using assms(4-6,9) 2(1) f by (simp add: extractTiles_def getDirtyRects_def extract_mapped_def Let_def)
  then have "CaptureFrame lib s c = ((comRelease Resource (comRelease Texture (c2\<lparr>dx_first := False\<rparr>)))\<lparr>dx_frame := False\<rparr>,
     Captured [] (dx_width c2) (dx_height c2))"
    using assms by (simp add: CaptureFrame_def DXGI_ERROR_WAIT_TIMEOUT_def comRelease_def)
  then show "\<exists>w h. snd (CaptureFrame lib s c) = Captured [] w h" "\<not> dx_first (fst (CaptureFrame lib s c))"
    by (simp_all add: comRelease_def)
qed

section \<open>The synthetic screen\<close>

record dummy_capturer =
  du_width :: nat
  du_height :: nat
  du_tile :: nat
  du_frame :: nat

definition new_dummy :: "int \<Rightarrow> nat \<Rightarrow> dummy_capturer" where
  "new_dummy profile ts = \<lparr>du_width = (if profile = 720 then 1280 else 1920), du_height = (if profile = 720 then 720 else 1080),
     du_tile = ts, du_frame = 0\<rparr>"

text \<open>\<open>rnd\<close>: the values of the generator, reduced to the range asked for.\<close>

definition intn :: "nat \<Rightarrow> nat list \<Rightarrow> nat \<times> nat list" where
  "intn k rnd = (case rnd of [] \<Rightarrow> (0, []) | r # rs \<Rightarrow> (r mod k, rs))"

definition dummy_pixels :: "nat \<Rightarrow> byte \<Rightarrow> byte \<Rightarrow> byte \<Rightarrow> bytes" where
  "dummy_pixels n r g b = concat (replicate n [b, g, r, 255])"

fun dummy_tiles :: "(bytes \<Rightarrow> bytes) \<Rightarrow> dummy_capturer \<Rightarrow> nat \<Rightarrow> nat list \<Rightarrow> (tile \<times> bytes) list" where
  "dummy_tiles zstd c 0 rnd = []"
| "dummy_tiles zstd c (Suc n) rnd =
     (let ts = du_tile c;
          (tx, rnd1) = intn ((du_width c + ts - 1) div ts) rnd;
          (ty, rnd2) = intn ((du_height c + ts - 1) div ts) rnd1;
          w = (if (tx + 1) * ts > du_width c then du_width c - tx * ts else ts);
          h = (if (ty + 1) * ts > du_height c then du_height c - ty * ts else ts);
          (r, rnd3) = intn 200 rnd2; (g, rnd4) = intn 200 rnd3; (b, rnd5) = intn 200 rnd4;
          raw = dummy_pixels (w * h) (word_of_nat (50 + r)) (word_of_nat (50 + g)) (word_of_nat (50 + b));
          data = zstd raw
      in (\<lparr>t_tx = word_of_nat tx, t_ty = word_of_nat ty, t_codec = CodecZstdRawBGRA, t_data_len = word_of_nat (length data),
           t_data = data\<rparr>, raw) # dummy_tiles zstd c n rnd5)"

definition dummy_frame :: "(bytes \<Rightarrow> bytes) \<Rightarrow> nat list \<Rightarrow> dummy_capturer \<Rightarrow> dummy_capturer \<times> tile list \<times> nat \<times> nat" where
  "dummy_frame zstd rnd c =
     (let (k, rnd1) = intn 7 rnd
      in (c\<lparr>du_frame := du_frame c + 1\<rparr>, map fst (dummy_tiles zstd c (2 + k) rnd1), du_width c, du_height c))"

lemma intn_below: "0 < k \<Longrightarrow> fst (intn k rnd) < k"
  by (simp add: intn_def split: list.split)

lemma length_dummy_pixels: "length (dummy_pixels n r g b) = n * 4"
  by (simp add: dummy_pixels_def length_concat sum_list_replicate)

lemma grid_below: "0 < ts \<Longrightarrow> t < (n + ts - 1) div ts \<Longrightarrow> t * ts < (n::nat)"
proof -
  assume t: "0 < ts" "t < (n + ts - 1) div ts"
  then have "(t + 1) * ts \<le> (n + ts - 1) div ts * ts" by (intro mult_right_mono) simp_all
  also have "\<dots> \<le> n + ts - 1" by simp
  finally show ?thesis using t(1) by (simp add: algebra_simps)
qed

text \<open>Each synthetic tile is in the grid and carries exactly the pixels of its part of the screen.\<close>

lemma dummy_tiles_fit:
  assumes "0 < du_tile c" "0 < du_width c" "0 < du_height c" "du_width c \<le> 65535" "du_height c \<le> 65535"
  shows "list_all (\<lambda>(t, raw). unat (t_tx t) * du_tile c < du_width c \<and> unat (t_ty t) * du_tile c < du_height c \<and> t_data t = zstd raw
    \<and> length raw = min (du_tile c) (du_width c - unat (t_tx t) * du_tile c) * min (du_tile c) (du_height c - unat (t_ty t) * du_tile c) * 4)
   (dummy_tiles zstd c n rnd)"
proof (induction n arbitrary: rnd)
  case (Suc n)
  let ?ts = "du_tile c"
  obtain tx rnd1 where 1: "intn ((du_width c + ?ts - 1) div ?ts) rnd = (tx, rnd1)" by fastforce
  obtain ty rnd2 where 2: "intn ((du_height c + ?ts - 1) div ?ts) rnd1 = (ty, rnd2)" by fastforce
  obtain r rnd3 where 3: "intn 200 rnd2 = (r, rnd3)" by fastforce
  obtain g rnd4 where 4: "intn 200 rnd3 = (g, rnd4)" by fastforce
  obtain b rnd5 where 5: "intn 200 rnd4 = (b, rnd5)" by fastforce
  have "0 < (du_width c + ?ts - 1) div ?ts" "0 < (du_height c + ?ts - 1) div ?ts"
    using assms(1-3) by (simp_all add: div_greater_zero_iff)
  then have g: "tx * ?ts < du_width c" "ty * ?ts < du_height c"
    using grid_below [OF assms(1)] intn_below 1 2 by (metis fst_conv)+
  have "tx < 65536" "ty < 65536"
    using g assms(1,4,5) mult_le_mono2 [of 1 ?ts tx] mult_le_mono2 [of 1 ?ts ty] by linarith+
  then have u: "unat (word_of_nat tx :: 16 word) = tx" "unat (word_of_nat ty :: 16 word) = ty" by (simp_all add: unat_of_nat)
  have "(if (k + 1) * ?ts > m then m - k * ?ts else ?ts) = min ?ts (m - k * ?ts)" if "k * ?ts < m" for k m
    using that by (auto simp: min_def)
  then have wh: "(if (tx + 1) * ?ts > du_width c then du_width c - tx * ?ts else ?ts) = min ?ts (du_width c - tx * ?ts)"
    "(if (ty + 1) * ?ts > du_height c then du_height c - ty * ?ts else ?ts) = min ?ts (du_height c - ty * ?ts)"
    using g by blast+
  show ?case
    unfolding dummy_tiles.simps Let_def 1 2 3 4 5 prod.case wh using g u by (simp add: Suc.IH length_dummy_pixels)
qed simp

section \<open>Examples\<close>

text \<open>A screen of one pixel, blue 1, green 2, red 3, in a row padded to eight bytes.\<close>

definition toy_screen :: screen where
  "toy_screen = \<lparr>fr_acquire = 0, fr_texture = 0, fr_width = 1, fr_height = 1, fr_format = 87, fr_create = 0, fr_null = False,
     fr_dirty = 0, fr_needed = 0, fr_rects = [], fr_map = 0, fr_pitch = 8, fr_pixels = [1, 2, 3, 4, 0, 0, 0, 0]\<rparr>"

definition toy_capture :: capture_lib where
  "toy_capture = \<lparr>cl_jpeg = (\<lambda>px w h. Some px), cl_order = (\<lambda>ks. ks)\<rparr>"

definition toy_init :: com_init where
  "toy_init = \<lparr>in_create = 0, in_dxgi = 0, in_adapter = 0, in_output = 0, in_output1 = 0, in_duplicate = 0, in_width = 1, in_height = 1\<rparr>"

definition toy_capturer :: capturer where
  "toy_capturer = the (fst (NewCapturer True toy_init 128 {#}))"

lemma toy_new: "NewCapturer True toy_init 128 {#} = (Some toy_capturer, dx_live toy_capturer)"
  "dx_dup toy_capturer" "dx_tile toy_capturer = 128" "dx_first toy_capturer"
  by (simp_all add: toy_capturer_def NewCapturer_def capturer_init_def with_object_def init_dup_def toy_init_def hold_def comRelease_def Let_def)

lemma toy_screen_ok: "screen_ok toy_screen" "fr_width toy_screen = 1" "fr_height toy_screen = 1"
  by (simp_all add: screen_ok_def toy_screen_def mapped_ok_def reported_def)

theorem dirty_pixels_sent_witness:
  "\<exists>tiles. snd (CaptureFrame toy_capture toy_screen toy_capturer) = Captured tiles 1 1
    \<and> list_all (tile_faithful toy_capture toy_screen 128) tiles
    \<and> length (filter (\<lambda>t. unat (t_tx t) = 0 \<and> unat (t_ty t) = 0) tiles) = 1"
  using dirty_pixels_sent [OF toy_screen_ok(1) toy_new(2), of 128 toy_capture] toy_new(3,4)
  by (simp add: toy_screen_ok toy_capture_def dirty_at_def list_all_iff)

theorem capturer_releases_witness:
  "dx_live (capturer_close (fst (CaptureFrame toy_capture (toy_screen\<lparr>fr_map := 1\<rparr>) toy_capturer))) = {#}"
proof -
  have "snd (CaptureFrame toy_capture (toy_screen\<lparr>fr_map := 1\<rparr>) toy_capturer) \<noteq> Capture_Fault"
    using first_frame_lost(1) [of toy_capturer "toy_screen\<lparr>fr_map := 1\<rparr>" toy_capture] toy_new by (auto simp: toy_screen_def)
  then have "capturing {#} (fst (CaptureFrame toy_capture (toy_screen\<lparr>fr_map := 1\<rparr>) toy_capturer))"
    using capturing.next_frame [OF capturing.begin_capture [OF toy_new(1)] prod.collapse [symmetric]] by blast
  from capturer_releases [OF this] show ?thesis by blast
qed

end
