(* ===== verification/Dvr_Store.thy ===== *)
theory Dvr_Store
  imports Agent_Store
begin

text \<open>
  The database of the site agent, \<^verbatim>\<open>agent/surveillance.go\<close>: the recorders (\<open>dvrs\<close>), their channels and
  the table \<open>device_keys\<close> that gives a physical device the same id for ever. A table is the list of its
  rows in the order of their row ids. As in \<open>Agent_Store\<close> any statement may fail: \<open>vd_faults\<close> lists
  the outcomes to come, and a failing statement changes nothing. A call of \<open>onChange\<close> is counted in
  \<open>vd_changes\<close>. SQLite does not enforce foreign keys unless asked to, and the agent does not ask.
  The creation times of the rows are left out.
\<close>

section \<open>Tables\<close>

record dvr_config =
  dc_id :: int
  dc_name :: string
  dc_addr :: string
  dc_port :: int
  dc_ext_addr :: string
  dc_ext_port :: int
  dc_username :: string
  dc_password :: string
  dc_refresh :: int
  dc_quality :: string
  dc_protocol :: string

record channel_config =
  cc_id :: int
  cc_dvr :: int
  cc_num :: int
  cc_name :: string
  cc_order :: int
  cc_enabled :: bool
  cc_width :: int
  cc_height :: int
  cc_rtsp :: string
  cc_snapshot :: string
  cc_hires :: bool

record key_row =
  kr_key :: int
  kr_serial :: string
  kr_mac :: string
  kr_addr :: string

record dvr_db =
  vd_dvrs :: "dvr_config list"
  vd_channels :: "channel_config list"
  vd_keys :: "key_row list"
  vd_next :: int
  vd_faults :: "bool list"
  vd_changes :: nat

definition empty_dvr_db :: dvr_db where
  "empty_dvr_db = \<lparr>vd_dvrs = [], vd_channels = [], vd_keys = [], vd_next = 1, vd_faults = [], vd_changes = 0\<rparr>"

definition dv_statement :: "dvr_db \<Rightarrow> dvr_db \<times> bool" where
  "dv_statement s = (case vd_faults s of [] \<Rightarrow> (s, True) | f # fs \<Rightarrow> (s\<lparr>vd_faults := fs\<rparr>, \<not> f))"

definition dv_exec :: "(dvr_db \<Rightarrow> dvr_db) \<Rightarrow> dvr_db \<Rightarrow> dvr_db \<times> bool" where
  "dv_exec f s = (case dv_statement s of (s', ok) \<Rightarrow> if ok then (f s', True) else (s', False))"

definition dv_query :: "(dvr_db \<Rightarrow> 'a) \<Rightarrow> dvr_db \<Rightarrow> dvr_db \<times> 'a option" where
  "dv_query f s = (case dv_statement s of (s', ok) \<Rightarrow> (s', if ok then Some (f s') else None))"

text \<open>An insertion that violates a uniqueness constraint fails too.\<close>

definition dv_insert :: "(dvr_db \<Rightarrow> bool) \<Rightarrow> (dvr_db \<Rightarrow> dvr_db) \<Rightarrow> dvr_db \<Rightarrow> dvr_db \<times> bool" where
  "dv_insert conflict f s = (case dv_statement s of (s', ok) \<Rightarrow>
     if ok \<and> \<not> conflict s' then (f s', True) else (s', False))"

definition notify :: "dvr_db \<Rightarrow> dvr_db" where
  "notify s = s\<lparr>vd_changes := vd_changes s + 1\<rparr>"

text \<open>A single statement followed by \<open>onChange\<close> when it succeeded.\<close>

definition dv_change :: "(dvr_db \<Rightarrow> dvr_db) \<Rightarrow> dvr_db \<Rightarrow> dvr_db \<times> bool" where
  "dv_change f s = (case dv_exec f s of (s', ok) \<Rightarrow> (if ok then notify s' else s', ok))"

section \<open>Stable keys\<close>

datatype facet = Serial | Mac | Addr

fun facet_of :: "facet \<Rightarrow> key_row \<Rightarrow> string" where
  "facet_of Serial r = kr_serial r"
| "facet_of Mac r = kr_mac r"
| "facet_of Addr r = kr_addr r"

definition match_key :: "facet \<Rightarrow> string \<Rightarrow> dvr_db \<Rightarrow> dvr_db \<times> int option" where
  "match_key col val s =
     (if val = [] then (s, None)
      else case dv_query (\<lambda>s. find (\<lambda>r. facet_of col r = val) (vd_keys s)) s of
        (s', row) \<Rightarrow> (s', map_option kr_key (case row of None \<Rightarrow> None | Some r \<Rightarrow> r)))"

definition fill :: "string \<Rightarrow> string \<Rightarrow> string" where
  "fill old new = (if old = [] then new else old)"

definition enrichDeviceKey :: "int \<Rightarrow> string \<Rightarrow> string \<Rightarrow> string \<Rightarrow> dvr_db \<Rightarrow> dvr_db" where
  "enrichDeviceKey key serial mac addr s =
     fst (dv_exec (\<lambda>s. s\<lparr>vd_keys := map (\<lambda>r. if kr_key r = key
         then r\<lparr>kr_serial := fill (kr_serial r) serial, kr_mac := fill (kr_mac r) mac, kr_addr := fill (kr_addr r) addr\<rparr>
         else r) (vd_keys s)\<rparr>) s)"

fun match_facets :: "(facet \<times> string) list \<Rightarrow> dvr_db \<Rightarrow> dvr_db \<times> int option" where
  "match_facets [] s = (s, None)"
| "match_facets ((col, val) # fs) s = (case match_key col val s of
     (s', Some k) \<Rightarrow> (s', Some k) | (s', None) \<Rightarrow> match_facets fs s')"

definition resolveStableKey :: "string \<Rightarrow> string \<Rightarrow> string \<Rightarrow> dvr_db \<Rightarrow> dvr_db \<times> int option" where
  "resolveStableKey serial mac addr s =
     (case match_facets [(Serial, serial), (Mac, mac), (Addr, addr)] s of
        (s1, Some k) \<Rightarrow> (enrichDeviceKey k serial mac addr s1, Some k)
      | (s1, None) \<Rightarrow>
         (case dv_query (\<lambda>s. map kr_key (vd_keys s)) s1 of
            (s2, ks) \<Rightarrow>
              let key = (case ks of None \<Rightarrow> 1 | Some [] \<Rightarrow> 1 | Some (k # r) \<Rightarrow> foldl max k r + 1)
              in case dv_insert (\<lambda>s. key \<in> kr_key ` set (vd_keys s))
                     (\<lambda>s. s\<lparr>vd_keys := vd_keys s @ [\<lparr>kr_key = key, kr_serial = serial, kr_mac = mac, kr_addr = addr\<rparr>]\<rparr>) s2 of
                   (s3, True) \<Rightarrow> (s3, Some key)
                 | (s3, False) \<Rightarrow> (s3, None)))"

definition seedDeviceKeys :: "dvr_db \<Rightarrow> dvr_db" where
  "seedDeviceKeys s =
     (case dv_query (\<lambda>s. length (vd_keys s)) s of
        (s1, n) \<Rightarrow>
          if (case n of None \<Rightarrow> 0 | Some k \<Rightarrow> k) > 0 then s1
          else fst (dv_insert (\<lambda>s. \<exists>d\<in>set (vd_dvrs s). dc_id d \<in> kr_key ` set (vd_keys s))
            (\<lambda>s. s\<lparr>vd_keys := vd_keys s @ map (\<lambda>d. \<lparr>kr_key = dc_id d, kr_serial = [], kr_mac = [], kr_addr = dc_addr d\<rparr>) (vd_dvrs s)\<rparr>) s1))"

text \<open>The part of \<open>migrate\<close> that changes rows: the column \<open>record_hires\<close> is added once (\<open>had_hires\<close>:
  it exists), with the recorders that stream in main quality backfilled.\<close>

definition migrate :: "bool \<Rightarrow> dvr_db \<Rightarrow> dvr_db" where
  "migrate had_hires s =
     seedDeviceKeys (if had_hires then s
       else case dv_exec (\<lambda>s. s\<lparr>vd_channels := map (\<lambda>c. c\<lparr>cc_hires := False\<rparr>) (vd_channels s)\<rparr>) s of
              (s1, True) \<Rightarrow> fst (dv_exec (\<lambda>s. s\<lparr>vd_channels := map (\<lambda>c.
                if \<exists>d\<in>set (vd_dvrs s). dc_id d = cc_dvr c \<and> dc_quality d = ''main''
                then c\<lparr>cc_hires := True\<rparr> else c) (vd_channels s)\<rparr>) s1)
            | (s1, False) \<Rightarrow> fst (dv_statement s1))"

section \<open>Recorders\<close>

definition ListDVRs :: "dvr_db \<Rightarrow> dvr_db \<times> dvr_config list option" where
  "ListDVRs = dv_query (\<lambda>s. sort_key dc_id (vd_dvrs s))"

definition getDVR :: "int \<Rightarrow> dvr_db \<Rightarrow> dvr_db \<times> dvr_config option" where
  "getDVR i s = (case dv_query (\<lambda>s. find (\<lambda>d. dc_id d = i) (vd_dvrs s)) s of
      (s', Some (Some d)) \<Rightarrow> (s', Some (if dc_protocol d = [] then d\<lparr>dc_protocol := ''isapi''\<rparr> else d))
    | (s', _) \<Rightarrow> (s', None))"

definition upsert_dvr :: "dvr_config \<Rightarrow> dvr_config list \<Rightarrow> dvr_config list" where
  "upsert_dvr d ds = (if dc_id d \<in> dc_id ` set ds then map (\<lambda>x. if dc_id x = dc_id d then d else x) ds else ds @ [d])"

text \<open>The defaults of \<open>AddDVR\<close>.\<close>

definition dvr_defaults :: "dvr_config \<Rightarrow> dvr_config" where
  "dvr_defaults d = d\<lparr>dc_name := (if dc_name d = [] then dc_addr d else dc_name d),
     dc_protocol := (if dc_protocol d = [] then ''isapi'' else dc_protocol d),
     dc_refresh := (if dc_refresh d \<le> 0 then 2000 else dc_refresh d),
     dc_quality := (if dc_quality d = [] then ''sub'' else dc_quality d)\<rparr>"

text \<open>\<open>ident\<close> is \<open>fetchDeviceIdentity\<close>.\<close>

definition AddDVR :: "(dvr_config \<Rightarrow> string \<times> string) \<Rightarrow> dvr_config \<Rightarrow> dvr_db \<Rightarrow> dvr_db \<times> dvr_config option" where
  "AddDVR ident req s =
     (let d = dvr_defaults req
      in case ident d of (serial, mac) \<Rightarrow>
         (case resolveStableKey serial mac (dc_addr d) s of
            (s1, None) \<Rightarrow> (s1, None)
          | (s1, Some i) \<Rightarrow>
             (case dv_change (\<lambda>s. s\<lparr>vd_dvrs := upsert_dvr (d\<lparr>dc_id := i\<rparr>) (vd_dvrs s)\<rparr>) s1 of
                (s2, True) \<Rightarrow> (s2, Some (d\<lparr>dc_id := i\<rparr>))
              | (s2, False) \<Rightarrow> (s2, None))))"

definition on_dvr :: "int \<Rightarrow> (dvr_config \<Rightarrow> dvr_config) \<Rightarrow> dvr_db \<Rightarrow> dvr_db" where
  "on_dvr i f s = s\<lparr>vd_dvrs := map (\<lambda>d. if dc_id d = i then f d else d) (vd_dvrs s)\<rparr>"

text \<open>A blank password leaves the stored one.\<close>

definition UpdateDVR :: "int \<Rightarrow> dvr_config \<Rightarrow> dvr_db \<Rightarrow> dvr_db \<times> bool" where
  "UpdateDVR i req = dv_change (on_dvr i (\<lambda>d. req\<lparr>dc_id := i,
     dc_password := (if dc_password req = [] then dc_password d else dc_password req),
     dc_protocol := (if dc_protocol req = [] then ''auto'' else dc_protocol req)\<rparr>))"

definition DeleteDVR :: "int \<Rightarrow> dvr_db \<Rightarrow> dvr_db \<times> bool" where
  "DeleteDVR i = dv_change (\<lambda>s. s\<lparr>vd_dvrs := filter (\<lambda>d. dc_id d \<noteq> i) (vd_dvrs s)\<rparr>)"

definition ClearDVRChannels :: "int \<Rightarrow> dvr_db \<Rightarrow> dvr_db \<times> bool" where
  "ClearDVRChannels i = dv_change (\<lambda>s. s\<lparr>vd_channels := filter (\<lambda>c. cc_dvr c \<noteq> i) (vd_channels s)\<rparr>)"

text \<open>A transaction: its statements run one after the other, begin and commit may fail, and an error at
  any point leaves the tables as they were.\<close>

fun run_all :: "(dvr_db \<Rightarrow> dvr_db \<times> bool) list \<Rightarrow> dvr_db \<Rightarrow> dvr_db \<times> bool" where
  "run_all [] s = (s, True)"
| "run_all (f # fs) s = (case f s of (s', True) \<Rightarrow> run_all fs s' | (s', False) \<Rightarrow> (s', False))"

definition transaction :: "(dvr_db \<Rightarrow> dvr_db \<times> bool) list \<Rightarrow> dvr_db \<Rightarrow> dvr_db \<times> bool" where
  "transaction fs s = (case run_all (dv_exec id # fs @ [dv_exec id]) s of
      (s', True) \<Rightarrow> (s', True)
    | (s', False) \<Rightarrow> (s\<lparr>vd_faults := vd_faults s'\<rparr>, False))"

text \<open>The outcome of a statement whose error is ignored.\<close>

definition ignoring :: "(dvr_db \<Rightarrow> dvr_db \<times> bool) \<Rightarrow> dvr_db \<Rightarrow> dvr_db \<times> bool" where
  "ignoring f s = (fst (f s), True)"

definition ResetDB :: "dvr_db \<Rightarrow> dvr_db \<times> bool" where
  "ResetDB s = (case transaction [dv_exec (\<lambda>s. s\<lparr>vd_channels := []\<rparr>), dv_exec (\<lambda>s. s\<lparr>vd_dvrs := []\<rparr>),
       ignoring (dv_exec (\<lambda>s. s\<lparr>vd_next := 1\<rparr>))] s of
     (s', ok) \<Rightarrow> (if ok then notify s' else s', ok))"

section \<open>Channels\<close>

definition ListChannels :: "int \<Rightarrow> dvr_db \<Rightarrow> dvr_db \<times> channel_config list option" where
  "ListChannels i = dv_query (\<lambda>s. sort_key cc_order (filter (\<lambda>c. cc_dvr c = i) (vd_channels s)))"

definition on_channel :: "int \<Rightarrow> int \<Rightarrow> (channel_config \<Rightarrow> channel_config) \<Rightarrow> dvr_db \<Rightarrow> dvr_db" where
  "on_channel i n f s = s\<lparr>vd_channels := map (\<lambda>c. if cc_dvr c = i \<and> cc_num c = n then f c else c) (vd_channels s)\<rparr>"

definition ReorderChannels :: "int \<Rightarrow> int list \<Rightarrow> dvr_db \<Rightarrow> dvr_db \<times> bool" where
  "ReorderChannels i nums s =
     (case transaction (map (\<lambda>(k, n). dv_exec (on_channel i n (\<lambda>c. c\<lparr>cc_order := k\<rparr>))) (zip (map int [0..<length nums]) nums)) s of
        (s', ok) \<Rightarrow> (if ok then notify s' else s', ok))"

definition RenameChannel :: "int \<Rightarrow> int \<Rightarrow> string \<Rightarrow> dvr_db \<Rightarrow> dvr_db \<times> bool" where
  "RenameChannel i n name = dv_change (on_channel i n (\<lambda>c. c\<lparr>cc_name := name\<rparr>))"

definition SetChannelHiRes :: "int \<Rightarrow> int \<Rightarrow> bool \<Rightarrow> dvr_db \<Rightarrow> dvr_db \<times> bool" where
  "SetChannelHiRes i n on = dv_change (on_channel i n (\<lambda>c. c\<lparr>cc_hires := on\<rparr>))"

definition channelHiRes :: "int \<Rightarrow> int \<Rightarrow> dvr_db \<Rightarrow> dvr_db \<times> bool" where
  "channelHiRes i n s = (case dv_query (\<lambda>s. find (\<lambda>c. cc_dvr c = i \<and> cc_num c = n) (vd_channels s)) s of
      (s', Some (Some c)) \<Rightarrow> (s', cc_hires c) | (s', _) \<Rightarrow> (s', False))"

text \<open>What a discovery writes for a channel it found: an existing row keeps its name, order and switches.\<close>

definition upsert_channel :: "int \<Rightarrow> channel_config \<Rightarrow> dvr_db \<Rightarrow> dvr_db" where
  "upsert_channel i ch s =
     (if \<exists>c\<in>set (vd_channels s). cc_dvr c = i \<and> cc_num c = cc_num ch
      then on_channel i (cc_num ch) (\<lambda>c. c\<lparr>cc_width := cc_width ch, cc_height := cc_height ch,
             cc_rtsp := cc_rtsp ch, cc_snapshot := cc_snapshot ch\<rparr>) s
      else s\<lparr>vd_channels := vd_channels s @ [ch\<lparr>cc_id := vd_next s, cc_dvr := i, cc_enabled := True, cc_hires := False\<rparr>],
             vd_next := vd_next s + 1\<rparr>)"

definition store_channels :: "int \<Rightarrow> channel_config list \<Rightarrow> dvr_db \<Rightarrow> dvr_db" where
  "store_channels i chs s = foldl (\<lambda>s ch. fst (dv_exec (upsert_channel i ch) s)) s chs"

section \<open>Sequences of operations\<close>

datatype dvr_op =
    Startup bool
  | Add "string \<times> string" dvr_config
  | Update int dvr_config
  | Delete int
  | Clear int
  | Reset
  | Reorder int "int list"
  | Rename int int string
  | HiRes int int bool
  | Found int "channel_config list"

fun dv_apply :: "dvr_op \<Rightarrow> dvr_db \<Rightarrow> dvr_db" where
  "dv_apply (Startup had) s = migrate had s"
| "dv_apply (Add ident d) s = fst (AddDVR (\<lambda>_. ident) d s)"
| "dv_apply (Update i d) s = fst (UpdateDVR i d s)"
| "dv_apply (Delete i) s = fst (DeleteDVR i s)"
| "dv_apply (Clear i) s = fst (ClearDVRChannels i s)"
| "dv_apply Reset s = fst (ResetDB s)"
| "dv_apply (Reorder i ns) s = fst (ReorderChannels i ns s)"
| "dv_apply (Rename i n name) s = fst (RenameChannel i n name s)"
| "dv_apply (HiRes i n on) s = fst (SetChannelHiRes i n on s)"
| "dv_apply (Found i chs) s = store_channels i chs s"

definition dv_run :: "dvr_op list \<Rightarrow> dvr_db \<Rightarrow> dvr_db" where
  "dv_run ops s = foldl (\<lambda>s x. dv_apply x s) s ops"

section \<open>Lemmas: statements\<close>

lemma dv_statement_tables [simp]:
  "vd_dvrs (fst (dv_statement s)) = vd_dvrs s" "vd_channels (fst (dv_statement s)) = vd_channels s"
  "vd_keys (fst (dv_statement s)) = vd_keys s" "vd_next (fst (dv_statement s)) = vd_next s"
  by (simp_all add: dv_statement_def split: list.split)

section \<open>Invariants of the tables\<close>

lemma run_all_keeps: "Q s \<Longrightarrow> (\<And>f s. f \<in> set fs \<Longrightarrow> Q s \<Longrightarrow> Q (fst (f s))) \<Longrightarrow> Q (fst (run_all fs s))"
proof (induction fs arbitrary: s)
  case (Cons f fs)
  have "Q (fst (f s))" using Cons.prems by simp
  with Cons.IH [OF this] Cons.prems(2) show ?case by (simp add: split_beta split: bool.split)
qed simp

lemma run_all_Cons: "run_all (f # fs) s = (if snd (f s) then run_all fs (fst (f s)) else (fst (f s), False))"
  by (simp add: split_beta split: bool.split)

text \<open>What an invariant of the database has to survive: a statement, a notification, the rollback of a
  transaction, and the effects of the operations on the rows. Then every operation keeps it, whatever
  statements fail.\<close>

locale table_invariant =
  fixes P :: "dvr_db \<Rightarrow> bool"
  assumes stmt: "P s \<Longrightarrow> P (fst (dv_statement s))"
    and noted: "P s \<Longrightarrow> P (notify s)"
    and rolled: "P s \<Longrightarrow> P s' \<Longrightarrow> P (s\<lparr>vd_faults := vd_faults s'\<rparr>)"
    and dvr_put: "P s \<Longrightarrow> P (s\<lparr>vd_dvrs := upsert_dvr d (vd_dvrs s)\<rparr>)"
    and dvr_map: "P s \<Longrightarrow> (\<And>d. dc_id (f d) = dc_id d) \<Longrightarrow> P (s\<lparr>vd_dvrs := map f (vd_dvrs s)\<rparr>)"
    and dvr_cut: "P s \<Longrightarrow> P (s\<lparr>vd_dvrs := filter Q (vd_dvrs s)\<rparr>)"
    and ch_map: "P s \<Longrightarrow> (\<And>c. cc_id (g c) = cc_id c \<and> cc_dvr (g c) = cc_dvr c \<and> cc_num (g c) = cc_num c)
        \<Longrightarrow> P (s\<lparr>vd_channels := map g (vd_channels s)\<rparr>)"
    and ch_cut: "P s \<Longrightarrow> P (s\<lparr>vd_channels := filter R (vd_channels s)\<rparr>)"
    and ch_new: "P s \<Longrightarrow> \<forall>c\<in>set (vd_channels s). \<not> (cc_dvr c = cc_dvr ch \<and> cc_num c = cc_num ch) \<Longrightarrow> cc_id ch = vd_next s
        \<Longrightarrow> P (s\<lparr>vd_channels := vd_channels s @ [ch], vd_next := vd_next s + 1\<rparr>)"
    and next_reset: "P s \<Longrightarrow> vd_channels s = [] \<Longrightarrow> P (s\<lparr>vd_next := 1\<rparr>)"
    and resolve: "P s \<Longrightarrow> P (fst (resolveStableKey serial mac addr s))"
    and seed: "P s \<Longrightarrow> P (seedDeviceKeys s)"
begin

lemma exec: "P s \<Longrightarrow> (\<And>s. P s \<Longrightarrow> P (f s)) \<Longrightarrow> P (fst (dv_exec f s))"
  using stmt [of s] by (simp add: dv_exec_def split_beta)

lemma change: "P s \<Longrightarrow> (\<And>s. P s \<Longrightarrow> P (f s)) \<Longrightarrow> P (fst (dv_change f s))"
  using exec [of s f] noted by (simp add: dv_change_def split_beta)

lemma trans:
  assumes "P s" "\<And>f s. f \<in> set fs \<Longrightarrow> P s \<Longrightarrow> P (fst (f s))"
  shows "P (fst (transaction fs s))"
proof -
  have "P (fst (run_all (dv_exec id # fs @ [dv_exec id]) s))"
    by (rule run_all_keeps [where Q = P, OF assms(1)]) (use assms(2) exec [of _ id] in auto)
  with assms(1) rolled show ?thesis by (simp add: transaction_def split_beta split: bool.split)
qed

lemma edit_channel:
  "P s \<Longrightarrow> (\<And>c. cc_id (g c) = cc_id c \<and> cc_dvr (g c) = cc_dvr c \<and> cc_num (g c) = cc_num c) \<Longrightarrow> P (on_channel i n g s)"
  unfolding on_channel_def by (rule ch_map) auto

lemma put_channel: "P s \<Longrightarrow> P (upsert_channel i ch s)"
proof (cases "\<exists>c\<in>set (vd_channels s). cc_dvr c = i \<and> cc_num c = cc_num ch")
  case True
  assume "P s"
  then have "P (on_channel i (cc_num ch) (\<lambda>c. c\<lparr>cc_width := cc_width ch, cc_height := cc_height ch,
      cc_rtsp := cc_rtsp ch, cc_snapshot := cc_snapshot ch\<rparr>) s)" by (rule edit_channel) simp
  with True show ?thesis by (simp add: upsert_channel_def)
next
  case False
  assume "P s"
  with False show ?thesis using ch_new [of s "ch\<lparr>cc_id := vd_next s, cc_dvr := i, cc_enabled := True, cc_hires := False\<rparr>"]
    by (auto simp: upsert_channel_def)
qed

lemma stored: "P s \<Longrightarrow> P (store_channels i chs s)"
  unfolding store_channels_def
proof (induction chs arbitrary: s)
  case (Cons ch chs)
  from exec [OF Cons.prems put_channel] Cons.IH show ?case by simp
qed simp

lemma migrated: "P s \<Longrightarrow> P (migrate had s)"
proof -
  assume p: "P s"
  let ?clear = "\<lambda>s. s\<lparr>vd_channels := map (\<lambda>c. c\<lparr>cc_hires := False\<rparr>) (vd_channels s)\<rparr>"
  let ?fill = "\<lambda>s. s\<lparr>vd_channels := map (\<lambda>c. if \<exists>d\<in>set (vd_dvrs s). dc_id d = cc_dvr c \<and> dc_quality d = ''main''
                then c\<lparr>cc_hires := True\<rparr> else c) (vd_channels s)\<rparr>"
  have 1: "P (fst (dv_exec ?clear x))" if "P x" for x by (rule exec [OF that]) (rule ch_map, auto)
  have 2: "P (fst (dv_exec ?fill x))" if "P x" for x by (rule exec [OF that]) (rule ch_map, auto)
  obtain s1 ok where c: "dv_exec ?clear s = (s1, ok)" by fastforce
  have "P s1" using 1 [OF p] c by simp
  with p seed 2 stmt c show ?thesis by (cases ok) (simp_all add: migrate_def)
qed

lemma added: "P s \<Longrightarrow> P (fst (AddDVR ident d s))"
proof -
  assume p: "P s"
  obtain serial mac where i: "ident (dvr_defaults d) = (serial, mac)" by fastforce
  obtain s1 k where k: "resolveStableKey serial mac (dc_addr (dvr_defaults d)) s = (s1, k)" by fastforce
  have s1: "P s1" using resolve [OF p, of serial mac] k by (metis fst_conv)
  have "P (fst (dv_change (\<lambda>s. s\<lparr>vd_dvrs := upsert_dvr x (vd_dvrs s)\<rparr>) s1))" for x
    by (rule change [OF s1 dvr_put])
  with s1 i k show ?thesis
    by (simp add: AddDVR_def Let_def split_beta split: option.split bool.split)
qed

lemma applied: "P s \<Longrightarrow> P (dv_apply x s)"
proof (induction x s rule: dv_apply.induct)
  case (3 i d s)
  show ?case unfolding dv_apply.simps UpdateDVR_def on_dvr_def by (rule change [OF 3], rule dvr_map) auto
next
  case (4 i s)
  show ?case unfolding dv_apply.simps DeleteDVR_def by (rule change [OF 4 dvr_cut])
next
  case (5 i s)
  show ?case unfolding dv_apply.simps ClearDVRChannels_def by (rule change [OF 5 ch_cut])
next
  case (6 s)
  let ?rest = "[dv_exec (\<lambda>s. s\<lparr>vd_dvrs := []\<rparr>), ignoring (dv_exec (\<lambda>s. s\<lparr>vd_next := 1\<rparr>)), dv_exec id]"
  let ?Q = "\<lambda>s. P s \<and> vd_channels s = []"
  have p0: "P (fst (dv_exec id s))" by (rule exec [OF 6]) simp
  have cut: "P (x\<lparr>vd_channels := []\<rparr>)" "P (x\<lparr>vd_dvrs := []\<rparr>)" if "P x" for x
    using ch_cut [OF that, of "\<lambda>_. False"] dvr_cut [OF that, of "\<lambda>_. False"] by simp_all
  have p1: "P (fst (dv_exec (\<lambda>s. s\<lparr>vd_channels := []\<rparr>) x))" if "P x" for x by (rule exec [OF that cut(1)])
  have q1: "?Q (fst (dv_exec (\<lambda>s. s\<lparr>vd_channels := []\<rparr>) x))" if "P x" "snd (dv_exec (\<lambda>s. s\<lparr>vd_channels := []\<rparr>) x)" for x
    using p1 [OF that(1)] that(2) by (simp add: dv_exec_def split_beta split: if_splits)
  have q2: "?Q (fst (dv_exec f x))" if "?Q x" "\<And>x. ?Q x \<Longrightarrow> ?Q (f x)" for f x
    using that stmt [of x] that(2) [of "fst (dv_statement x)"] by (simp add: dv_exec_def split_beta)
  have "?Q (fst (run_all ?rest x))" if "?Q x" for x
    by (rule run_all_keeps [where Q = ?Q, OF that]) (use q2 cut(2) next_reset in \<open>auto simp: ignoring_def\<close>)
  with p0 p1 q1 have "P (fst (run_all (dv_exec id # dv_exec (\<lambda>s. s\<lparr>vd_channels := []\<rparr>) # ?rest) s))"
    by (simp only: run_all_Cons [of _ "_ # ?rest"] run_all_Cons [of _ ?rest] split: if_splits) auto
  then have "P (fst (transaction [dv_exec (\<lambda>s. s\<lparr>vd_channels := []\<rparr>), dv_exec (\<lambda>s. s\<lparr>vd_dvrs := []\<rparr>),
       ignoring (dv_exec (\<lambda>s. s\<lparr>vd_next := 1\<rparr>))] s))"
    using 6 rolled by (simp add: transaction_def split_beta del: run_all.simps split: bool.split)
  then show ?case using noted by (simp add: ResetDB_def split_beta)
next
  case (7 i ns s)
  have "P (fst (transaction (map (\<lambda>(k, n). dv_exec (on_channel i n (\<lambda>c. c\<lparr>cc_order := k\<rparr>)))
      (zip (map int [0..<length ns]) ns)) s))"
    by (rule trans [OF 7]) (auto intro!: exec edit_channel)
  with noted show ?case by (simp add: ReorderChannels_def split_beta)
next
  case (8 i n name s)
  show ?case unfolding dv_apply.simps RenameChannel_def by (rule change [OF 8], rule edit_channel) auto
next
  case (9 i n on s)
  show ?case unfolding dv_apply.simps SetChannelHiRes_def by (rule change [OF 9], rule edit_channel) auto
qed (simp_all add: migrated added stored)

lemma runs: "P s \<Longrightarrow> P (dv_run ops s)"
  unfolding dv_run_def by (induction ops arbitrary: s) (simp_all add: applied)

end

section \<open>The tables are well formed\<close>

definition dvr_db_ok :: "dvr_db \<Rightarrow> bool" where
  "dvr_db_ok s = (distinct (map dc_id (vd_dvrs s)) \<and> distinct (map (\<lambda>c. (cc_dvr c, cc_num c)) (vd_channels s))
     \<and> distinct (map cc_id (vd_channels s)) \<and> (\<forall>c\<in>set (vd_channels s). cc_id c < vd_next s)
     \<and> distinct (map kr_key (vd_keys s)))"

lemma dvr_db_ok_keys:
  "dvr_db_ok s \<Longrightarrow> vd_dvrs s' = vd_dvrs s \<Longrightarrow> vd_channels s' = vd_channels s \<Longrightarrow> vd_next s' = vd_next s
     \<Longrightarrow> distinct (map kr_key (vd_keys s')) \<Longrightarrow> dvr_db_ok s'"
  by (simp add: dvr_db_ok_def)

lemma enrich_frame [simp]:
  "vd_dvrs (enrichDeviceKey k a b c s) = vd_dvrs s" "vd_channels (enrichDeviceKey k a b c s) = vd_channels s"
  "vd_next (enrichDeviceKey k a b c s) = vd_next s"
  "map kr_key (vd_keys (enrichDeviceKey k a b c s)) = map kr_key (vd_keys s)"
  by (simp_all add: enrichDeviceKey_def dv_exec_def split_beta)

lemma query_frame [simp]:
  "vd_dvrs (fst (dv_query f s)) = vd_dvrs s" "vd_channels (fst (dv_query f s)) = vd_channels s"
  "vd_keys (fst (dv_query f s)) = vd_keys s" "vd_next (fst (dv_query f s)) = vd_next s"
  by (simp_all add: dv_query_def split_beta)

lemma match_key_tables [simp]:
  "vd_dvrs (fst (match_key col val s)) = vd_dvrs s" "vd_channels (fst (match_key col val s)) = vd_channels s"
  "vd_keys (fst (match_key col val s)) = vd_keys s" "vd_next (fst (match_key col val s)) = vd_next s"
  by (simp_all add: match_key_def split_beta)

lemma match_facets_tables [simp]:
  "vd_dvrs (fst (match_facets fs s)) = vd_dvrs s" "vd_channels (fst (match_facets fs s)) = vd_channels s"
  "vd_keys (fst (match_facets fs s)) = vd_keys s" "vd_next (fst (match_facets fs s)) = vd_next s"
  by (induction fs arbitrary: s) (auto simp: split_beta split: option.split)

lemma insert_frame:
  "vd_dvrs (fst (dv_insert C f s)) = vd_dvrs (if snd (dv_insert C f s) then f (fst (dv_statement s)) else s)"
  "vd_channels (fst (dv_insert C f s)) = vd_channels (if snd (dv_insert C f s) then f (fst (dv_statement s)) else s)"
  "vd_keys (fst (dv_insert C f s)) = vd_keys (if snd (dv_insert C f s) then f (fst (dv_statement s)) else s)"
  "vd_next (fst (dv_insert C f s)) = vd_next (if snd (dv_insert C f s) then f (fst (dv_statement s)) else s)"
  "snd (dv_insert C f s) \<Longrightarrow> \<not> C (fst (dv_statement s))"
  by (auto simp: dv_insert_def split_beta split: if_splits)

lemma resolve_ok: "dvr_db_ok s \<Longrightarrow> dvr_db_ok (fst (resolveStableKey serial mac addr s))"
  by (rule dvr_db_ok_keys)
     (auto simp: resolveStableKey_def Let_def split_beta insert_frame dvr_db_ok_def dest: insert_frame(5) split: option.split bool.split)

lemma seed_cases:
  obtains "vd_keys (seedDeviceKeys s) = vd_keys s"
  | "vd_keys (seedDeviceKeys s) = vd_keys s @ map (\<lambda>d. \<lparr>kr_key = dc_id d, kr_serial = [], kr_mac = [], kr_addr = dc_addr d\<rparr>) (vd_dvrs s)"
    "\<forall>d\<in>set (vd_dvrs s). dc_id d \<notin> kr_key ` set (vd_keys s)"
proof -
  define s1 n where q: "s1 = fst (dv_query (\<lambda>s. length (vd_keys s)) s)" "n = snd (dv_query (\<lambda>s. length (vd_keys s)) s)"
  let ?C = "\<lambda>s. \<exists>d\<in>set (vd_dvrs s). dc_id d \<in> kr_key ` set (vd_keys s)"
  let ?f = "\<lambda>s. s\<lparr>vd_keys := vd_keys s @ map (\<lambda>d. \<lparr>kr_key = dc_id d, kr_serial = [], kr_mac = [], kr_addr = dc_addr d\<rparr>) (vd_dvrs s)\<rparr>"
  have d: "seedDeviceKeys s = (if (case n of None \<Rightarrow> 0 | Some k \<Rightarrow> k) > 0 then s1 else fst (dv_insert ?C ?f s1))"
    by (simp add: seedDeviceKeys_def q split_beta)
  have t: "vd_dvrs s1 = vd_dvrs s" "vd_keys s1 = vd_keys s" by (simp_all add: q)
  show thesis
  proof (cases "(case n of None \<Rightarrow> 0 | Some k \<Rightarrow> k) > 0 \<or> \<not> snd (dv_insert ?C ?f s1)")
    case True
    then have "vd_keys (seedDeviceKeys s) = vd_keys s" by (auto simp: d t insert_frame)
    then show thesis by (rule that(1))
  next
    case False
    then have "\<not> ?C (fst (dv_statement s1))" using insert_frame(5) by blast
    with False t show thesis by (intro that(2)) (simp_all add: d insert_frame)
  qed
qed

lemma seed_frame [simp]:
  "vd_dvrs (seedDeviceKeys s) = vd_dvrs s" "vd_channels (seedDeviceKeys s) = vd_channels s"
  "vd_next (seedDeviceKeys s) = vd_next s"
  by (simp_all add: seedDeviceKeys_def split_beta insert_frame)

lemma seed_ok: "dvr_db_ok s \<Longrightarrow> dvr_db_ok (seedDeviceKeys s)"
proof (rule dvr_db_ok_keys [of s])
  assume ok: "dvr_db_ok s"
  then have d: "distinct (map dc_id (vd_dvrs s))" "distinct (map kr_key (vd_keys s))" by (simp_all add: dvr_db_ok_def)
  show "distinct (map kr_key (vd_keys (seedDeviceKeys s)))"
  proof (cases rule: seed_cases [of s])
    case 1
    with d show ?thesis by simp
  next
    case 2
    have "set (map kr_key (vd_keys s)) \<inter> set (map dc_id (vd_dvrs s)) = {}" using 2(2) by (auto simp: image_iff) metis
    with d show ?thesis unfolding 2 map_append distinct_append by (simp add: comp_def)
  qed
qed simp_all

lemma upsert_dvr_ids: "distinct (map dc_id ds) \<Longrightarrow> distinct (map dc_id (upsert_dvr d ds))"
proof -
  have "map dc_id (map (\<lambda>x. if dc_id x = dc_id d then d else x) ds) = map dc_id ds" by (induction ds) auto
  then show "distinct (map dc_id ds) \<Longrightarrow> distinct (map dc_id (upsert_dvr d ds))"
    by (simp add: upsert_dvr_def del: map_map)
qed

lemma map_same: "(\<And>x. f (g x) = f x) \<Longrightarrow> map f (map g xs) = map f xs"
  by simp

interpretation well_formed: table_invariant dvr_db_ok
proof unfold_locales
  fix s :: dvr_db and d f Q g R ch serial mac addr and s' :: dvr_db
  assume ok: "dvr_db_ok s"
  show "dvr_db_ok (fst (dv_statement s))" "dvr_db_ok (notify s)" "dvr_db_ok (s\<lparr>vd_faults := vd_faults s'\<rparr>)"
    using ok by (simp_all add: dvr_db_ok_def notify_def)
  show "dvr_db_ok (s\<lparr>vd_dvrs := upsert_dvr d (vd_dvrs s)\<rparr>)" using ok upsert_dvr_ids by (simp add: dvr_db_ok_def)
  show "dvr_db_ok (s\<lparr>vd_dvrs := map f (vd_dvrs s)\<rparr>)" if "\<And>d. dc_id (f d) = dc_id d"
    using ok that by (simp add: dvr_db_ok_def comp_def)
  show "dvr_db_ok (s\<lparr>vd_dvrs := filter Q (vd_dvrs s)\<rparr>)" using ok by (simp add: dvr_db_ok_def distinct_map_filter)
  show "dvr_db_ok (s\<lparr>vd_channels := map g (vd_channels s)\<rparr>)"
    if "\<And>c. cc_id (g c) = cc_id c \<and> cc_dvr (g c) = cc_dvr c \<and> cc_num (g c) = cc_num c"
    using ok that by (auto simp: dvr_db_ok_def comp_def)
  show "dvr_db_ok (s\<lparr>vd_channels := filter R (vd_channels s)\<rparr>)" using ok by (simp add: dvr_db_ok_def distinct_map_filter)
  show "dvr_db_ok (s\<lparr>vd_channels := vd_channels s @ [ch], vd_next := vd_next s + 1\<rparr>)"
    if "\<forall>c\<in>set (vd_channels s). \<not> (cc_dvr c = cc_dvr ch \<and> cc_num c = cc_num ch)" "cc_id ch = vd_next s"
    using ok that by (auto simp: dvr_db_ok_def)
  show "dvr_db_ok (s\<lparr>vd_next := 1\<rparr>)" if "vd_channels s = []" using ok that by (simp add: dvr_db_ok_def)
  show "dvr_db_ok (fst (resolveStableKey serial mac addr s))" by (rule resolve_ok [OF ok])
  show "dvr_db_ok (seedDeviceKeys s)" by (rule seed_ok [OF ok])
qed

section \<open>Serial numbers\<close>

text \<open>Without faults a statement does what it says.\<close>

lemma no_faults:
  assumes "vd_faults s = []"
  shows "dv_statement s = (s, True)" "dv_exec f s = (f s, True)" "dv_query h s = (s, Some (h s))"
    "dv_insert C f s = (if C s then (s, False) else (f s, True))"
  using assms by (simp_all add: dv_statement_def dv_exec_def dv_query_def dv_insert_def)

definition lookup_facet :: "facet \<Rightarrow> string \<Rightarrow> key_row list \<Rightarrow> int option" where
  "lookup_facet col val ks = (if val = [] then None else map_option kr_key (find (\<lambda>r. facet_of col r = val) ks))"

lemma match_no_faults: "vd_faults s = [] \<Longrightarrow> match_key col val s = (s, lookup_facet col val (vd_keys s))"
  by (simp add: match_key_def lookup_facet_def no_faults)

lemma lookup_facet_row:
  "lookup_facet col val ks = Some k \<Longrightarrow> val \<noteq> [] \<and> (\<exists>r\<in>set ks. kr_key r = k \<and> facet_of col r = val)"
  by (auto simp: lookup_facet_def dest!: find_SomeD split: if_splits)

lemma lookup_facet_None: "lookup_facet col val ks = None \<Longrightarrow> val \<noteq> [] \<Longrightarrow> \<forall>r\<in>set ks. facet_of col r \<noteq> val"
  by (auto simp: lookup_facet_def find_None_iff)

definition serials_ok :: "key_row list \<Rightarrow> bool" where
  "serials_ok ks = (\<forall>r\<in>set ks. \<forall>r'\<in>set ks. kr_serial r \<noteq> [] \<longrightarrow> kr_serial r = kr_serial r' \<longrightarrow> kr_key r = kr_key r')"

text \<open>A recorded serial number is found under its key.\<close>

lemma lookup_serial:
  assumes "serials_ok ks" "r \<in> set ks" "kr_serial r \<noteq> []"
  shows "lookup_facet Serial (kr_serial r) ks = Some (kr_key r)"
proof (cases "lookup_facet Serial (kr_serial r) ks")
  case None
  with lookup_facet_None [OF this assms(3)] assms(2) have False by auto
  then show ?thesis ..
next
  case (Some k)
  from lookup_facet_row [OF this] obtain r' where "r' \<in> set ks" "kr_key r' = k" "kr_serial r' = kr_serial r" by auto
  with assms Some show ?thesis unfolding serials_ok_def by metis
qed

lemma resolve_no_faults:
  assumes f: "vd_faults s = []"
  obtains k where "snd (resolveStableKey serial mac addr s) = Some k"
      "fst (resolveStableKey serial mac addr s) = enrichDeviceKey k serial mac addr s"
      "lookup_facet Serial serial (vd_keys s) = Some k \<or> lookup_facet Serial serial (vd_keys s) = None"
  | k where "snd (resolveStableKey serial mac addr s) = Some k \<or> snd (resolveStableKey serial mac addr s) = None"
      "fst (resolveStableKey serial mac addr s) = s \<or> fst (resolveStableKey serial mac addr s)
         = s\<lparr>vd_keys := vd_keys s @ [\<lparr>kr_key = k, kr_serial = serial, kr_mac = mac, kr_addr = addr\<rparr>]\<rparr>"
      "lookup_facet Serial serial (vd_keys s) = None"
proof (cases "snd (match_facets [(Serial, serial), (Mac, mac), (Addr, addr)] s)")
  case None
  let ?k = "(case map kr_key (vd_keys s) of [] \<Rightarrow> 1 | k # r \<Rightarrow> foldl max k r + 1)"
  have m: "match_facets [(Serial, serial), (Mac, mac), (Addr, addr)] s = (s, None)"
    "lookup_facet Serial serial (vd_keys s) = None"
    using None f by (auto simp: match_no_faults split: option.splits)
  show thesis
  proof (rule that(2) [where k = ?k])
    show "snd (resolveStableKey serial mac addr s) = Some ?k \<or> snd (resolveStableKey serial mac addr s) = None"
      "fst (resolveStableKey serial mac addr s) = s \<or> fst (resolveStableKey serial mac addr s)
         = s\<lparr>vd_keys := vd_keys s @ [\<lparr>kr_key = ?k, kr_serial = serial, kr_mac = mac, kr_addr = addr\<rparr>]\<rparr>"
      using m f by (auto simp: resolveStableKey_def no_faults Let_def split: list.split)
    show "lookup_facet Serial serial (vd_keys s) = None" by (rule m)
  qed
next
  case (Some k)
  have m: "match_facets [(Serial, serial), (Mac, mac), (Addr, addr)] s = (s, Some k)"
    "lookup_facet Serial serial (vd_keys s) = Some k \<or> lookup_facet Serial serial (vd_keys s) = None"
    using Some f by (auto simp: match_no_faults split: option.splits)
  show thesis by (rule that(1) [of k]) (use m in \<open>simp_all add: resolveStableKey_def\<close>)
qed

definition serials_hold :: "(int \<times> string) set \<Rightarrow> dvr_db \<Rightarrow> bool" where
  "serials_hold p s = (vd_faults s = [] \<and> serials_ok (vd_keys s)
     \<and> (\<forall>x\<in>p. snd x \<noteq> [] \<and> (\<exists>r\<in>set (vd_keys s). kr_key r = fst x \<and> kr_serial r = snd x)))"

lemma serials_hold_frame: "serials_hold p s \<Longrightarrow> vd_keys s' = vd_keys s \<Longrightarrow> vd_faults s' = [] \<Longrightarrow> serials_hold p s'"
  by (simp add: serials_hold_def)

lemma serials_hold_more:
  assumes "serials_hold p s" "vd_keys s' = vd_keys s @ rs" "vd_faults s' = []" "serials_ok (vd_keys s @ rs)"
  shows "serials_hold p s'"
  using assms unfolding serials_hold_def by (metis UnI1 set_append)

lemma serials_enrich:
  assumes "serials_hold p s" "lookup_facet Serial serial (vd_keys s) = Some k \<or> lookup_facet Serial serial (vd_keys s) = None"
  shows "serials_hold p (enrichDeviceKey k serial mac addr s)"
proof -
  let ?f = "\<lambda>r. if kr_key r = k then r\<lparr>kr_serial := fill (kr_serial r) serial, kr_mac := fill (kr_mac r) mac,
      kr_addr := fill (kr_addr r) addr\<rparr> else r"
  have f: "vd_faults s = []" and ok: "serials_ok (vd_keys s)" using assms(1) by (simp_all add: serials_hold_def)
  have e: "vd_keys (enrichDeviceKey k serial mac addr s) = map ?f (vd_keys s)" "vd_faults (enrichDeviceKey k serial mac addr s) = []"
    using f by (simp_all add: enrichDeviceKey_def no_faults)
  have own: "kr_key r' = k" if "r' \<in> set (vd_keys s)" "kr_serial r' = serial" "serial \<noteq> []" for r'
    using assms(2) lookup_serial [OF ok that(1)] that by auto
  have "serials_ok (map ?f (vd_keys s))"
  proof -
    have ser: "kr_key (?f r) = kr_key r" "kr_serial (?f r) = kr_serial r \<or> kr_key r = k \<and> kr_serial (?f r) = serial" for r
      by (simp_all add: fill_def)
    have "kr_key r = kr_key r'"
      if r: "r \<in> set (vd_keys s)" "r' \<in> set (vd_keys s)" "kr_serial (?f r) \<noteq> []" "kr_serial (?f r) = kr_serial (?f r')" for r r'
    proof -
      note o = ok [unfolded serials_ok_def, rule_format, OF r(1,2)]
      show ?thesis
        using ser(2) [of r] ser(2) [of r'] r(3,4) own [OF r(1)] own [OF r(2)] o by metis
    qed
    then show ?thesis unfolding serials_ok_def set_map ball_simps using ser(1) by metis
  qed
  moreover have "\<exists>r\<in>set (map ?f (vd_keys s)). kr_key r = k' \<and> kr_serial r = ser"
    if "r \<in> set (vd_keys s)" "kr_key r = k'" "kr_serial r = ser" "ser \<noteq> []" for r k' ser
    using that by (intro bexI [of _ "?f r"]) (auto simp: fill_def)
  ultimately show ?thesis using assms(1) unfolding serials_hold_def e by blast
qed

lemma serials_resolve: "serials_hold p s \<Longrightarrow> serials_hold p (fst (resolveStableKey serial mac addr s))"
proof -
  assume h: "serials_hold p s"
  then have "vd_faults s = []" by (simp add: serials_hold_def)
  then show ?thesis
  proof (cases rule: resolve_no_faults [of s serial mac addr])
    case (1 k)
    with serials_enrich [OF h] show ?thesis by simp
  next
    case (2 k)
    have n: "\<forall>r\<in>set (vd_keys s). serial \<noteq> [] \<longrightarrow> kr_serial r \<noteq> serial"
      using lookup_facet_None [OF 2(3)] by auto
    have ok: "serials_ok (vd_keys s)" "vd_faults s = []" using h by (simp_all add: serials_hold_def)
    have "serials_ok (vd_keys s @ [\<lparr>kr_key = k, kr_serial = serial, kr_mac = mac, kr_addr = addr\<rparr>])"
      using n ok(1) unfolding serials_ok_def
      by (simp only: set_append ball_Un list.set ball_simps key_row.simps) (metis (no_types))
    then have "serials_hold p (s\<lparr>vd_keys := vd_keys s @ [\<lparr>kr_key = k, kr_serial = serial, kr_mac = mac, kr_addr = addr\<rparr>]\<rparr>)"
      by (intro serials_hold_more [OF h]) (simp_all add: ok)
    with h 2(2) show ?thesis by auto
  qed
qed

lemma serials_seed: "serials_hold p s \<Longrightarrow> serials_hold p (seedDeviceKeys s)"
proof -
  assume h: "serials_hold p s"
  then have ok: "serials_ok (vd_keys s)" "vd_faults s = []" by (simp_all add: serials_hold_def)
  then have f: "vd_faults (seedDeviceKeys s) = []" by (simp add: seedDeviceKeys_def no_faults)
  show ?thesis
  proof (cases rule: seed_cases [of s])
    case 1
    with h f show ?thesis by (rule_tac serials_hold_frame)
  next
    case 2
    have "serials_ok (vd_keys s @ map (\<lambda>d. \<lparr>kr_key = dc_id d, kr_serial = [], kr_mac = [], kr_addr = dc_addr d\<rparr>) (vd_dvrs s))"
      using ok(1) unfolding serials_ok_def by (simp only: set_append ball_Un set_map ball_simps key_row.simps) metis
    then show ?thesis by (intro serials_hold_more [OF h 2(1)] f)
  qed
qed

interpretation serial_rows: table_invariant "serials_hold p" for p
proof unfold_locales
  fix s :: dvr_db and d f Q g R ch serial mac addr and s' :: dvr_db
  assume h: "serials_hold p s"
  then have f: "vd_faults s = []" by (simp add: serials_hold_def)
  show "serials_hold p (fst (dv_statement s))" using h f by (simp add: no_faults)
  show "serials_hold p (notify s)" "serials_hold p (s\<lparr>vd_dvrs := upsert_dvr d (vd_dvrs s)\<rparr>)"
    "serials_hold p (s\<lparr>vd_dvrs := map f (vd_dvrs s)\<rparr>)" "serials_hold p (s\<lparr>vd_dvrs := filter Q (vd_dvrs s)\<rparr>)"
    "serials_hold p (s\<lparr>vd_channels := map g (vd_channels s)\<rparr>)" "serials_hold p (s\<lparr>vd_channels := filter R (vd_channels s)\<rparr>)"
    "serials_hold p (s\<lparr>vd_channels := vd_channels s @ [ch], vd_next := vd_next s + 1\<rparr>)" "serials_hold p (s\<lparr>vd_next := 1\<rparr>)"
    by (rule serials_hold_frame [OF h]; simp add: f notify_def)+
  show "serials_hold p (s\<lparr>vd_faults := vd_faults s'\<rparr>)" if "serials_hold p s'"
    using that by (intro serials_hold_frame [OF h]) (simp_all add: serials_hold_def)
  show "serials_hold p (fst (resolveStableKey serial mac addr s))" by (rule serials_resolve [OF h])
  show "serials_hold p (seedDeviceKeys s)" by (rule serials_seed [OF h])
qed

section \<open>Properties\<close>


text \<open>C27. A device keeps its id: once a serial number is recorded, the device that reports it gets the same
  key after any later operations, a reset of the database included (as long as statements succeed).\<close>

theorem recorded_serial_is_permanent:
  assumes "r \<in> set (vd_keys (dv_run ops0 empty_dvr_db))" "kr_serial r \<noteq> []"
  shows "snd (resolveStableKey (kr_serial r) mac addr (dv_run ops (dv_run ops0 empty_dvr_db))) = Some (kr_key r)"
proof -
  let ?before = "dv_run ops0 empty_dvr_db" and ?s = "dv_run ops (dv_run ops0 empty_dvr_db)"
  have "serials_hold {} empty_dvr_db" by (simp add: serials_hold_def serials_ok_def empty_dvr_db_def)
  then have "serials_hold {} ?before" by (rule serial_rows.runs)
  then have "serials_hold {(kr_key r, kr_serial r)} ?before" using assms by (auto simp: serials_hold_def)
  then have h: "serials_hold {(kr_key r, kr_serial r)} ?s" by (rule serial_rows.runs)
  then obtain r' where r': "r' \<in> set (vd_keys ?s)" "kr_key r' = kr_key r" "kr_serial r' = kr_serial r"
    and f: "vd_faults ?s = []" "serials_ok (vd_keys ?s)" by (auto simp: serials_hold_def)
  have "lookup_facet Serial (kr_serial r) (vd_keys ?s) = Some (kr_key r)"
    using lookup_serial [OF f(2) r'(1)] r' assms(2) by simp
  with f show ?thesis by (simp add: resolveStableKey_def match_no_faults)
qed

definition toy_dvr :: dvr_config where
  "toy_dvr = \<lparr>dc_id = 0, dc_name = '''', dc_addr = ''10.0.0.9'', dc_port = 80, dc_ext_addr = '''', dc_ext_port = 0,
     dc_username = ''admin'', dc_password = ''pw'', dc_refresh = 0, dc_quality = '''', dc_protocol = ''''\<rparr>"

theorem recorded_serial_is_permanent_witness:
  "snd (resolveStableKey ''SN1'' '''' ''10.0.0.77''
     (dv_run [Reset, Add (''SN2'', '''') (toy_dvr\<lparr>dc_addr := ''10.0.0.8''\<rparr>)] (dv_run [Add (''SN1'', '''') toy_dvr] empty_dvr_db))) = Some 1"
proof -
  let ?r = "\<lparr>kr_key = 1, kr_serial = ''SN1'', kr_mac = '''', kr_addr = ''10.0.0.9''\<rparr>"
  have "?r \<in> set (vd_keys (dv_run [Add (''SN1'', '''') toy_dvr] empty_dvr_db))" by code_simp
  from recorded_serial_is_permanent [OF this] show ?thesis by simp
qed

text \<open>A device that is added at an address another one had before takes that one's id, whatever its own
  serial number, which is not recorded: when it moves to a new address it gets another id.\<close>

lemma address_takes_over_id:
  "let s1 = dv_run [Add (''SN1'', '''') toy_dvr] empty_dvr_db;
       (s2, b) = resolveStableKey ''SN2'' '''' ''10.0.0.9'' s1;
       (s3, c) = resolveStableKey ''SN2'' '''' ''10.0.0.8'' s2
   in b = Some 1 \<and> c = Some 2"
  by code_simp

text \<open>Deleting a recorder leaves its channels in the table, and they are back when it is added again.\<close>

lemma deleted_dvr_keeps_channels: "vd_channels (fst (DeleteDVR i s)) = vd_channels s"
  by (simp add: DeleteDVR_def dv_change_def dv_exec_def notify_def split_beta)

lemma image_survives: "ys = xs \<or> ys = map f xs \<Longrightarrow> x \<in> set xs \<Longrightarrow> Q x \<Longrightarrow> Q (f x) \<Longrightarrow> \<exists>y\<in>set ys. Q y"
  by auto

text \<open>A blank password keeps the stored one.\<close>

lemma update_keeps_password:
  assumes "UpdateDVR i req s = (s', ok)" "dc_password req = []" "d \<in> set (vd_dvrs s)" "dc_id d = i"
  shows "\<exists>d'\<in>set (vd_dvrs s'). dc_id d' = i \<and> dc_password d' = dc_password d"
proof -
  let ?f = "\<lambda>x. if dc_id x = i then req\<lparr>dc_id := i,
     dc_password := (if dc_password req = [] then dc_password x else dc_password req),
     dc_protocol := (if dc_protocol req = [] then ''auto'' else dc_protocol req)\<rparr> else x"
  have "vd_dvrs s' = vd_dvrs s \<or> vd_dvrs s' = map ?f (vd_dvrs s)"
    using assms(1) by (auto simp: UpdateDVR_def dv_change_def dv_exec_def on_dvr_def notify_def split_beta split: if_splits)
  moreover have "dc_id (?f d) = i \<and> dc_password (?f d) = dc_password d" using assms by simp
  ultimately show ?thesis using assms(3,4) by (intro image_survives [of "vd_dvrs s'" "vd_dvrs s" ?f d]) simp_all
qed

section \<open>Discovery and the operator's settings\<close>

text \<open>What the operator sets on a channel, beside its identity.\<close>

definition operator_view :: "channel_config \<Rightarrow> int \<times> int \<times> int \<times> string \<times> int \<times> bool \<times> bool" where
  "operator_view c = (cc_id c, cc_dvr c, cc_num c, cc_name c, cc_order c, cc_enabled c, cc_hires c)"

text \<open>The rows \<open>ys\<close> are the rows \<open>xs\<close> with other stream addresses for recorder \<open>i\<close>, and new rows of \<open>i\<close>.\<close>

definition refreshed :: "int \<Rightarrow> channel_config list \<Rightarrow> channel_config list \<Rightarrow> bool" where
  "refreshed i xs ys = (map operator_view (take (length xs) ys) = map operator_view xs
     \<and> filter (\<lambda>c. cc_dvr c \<noteq> i) ys = filter (\<lambda>c. cc_dvr c \<noteq> i) xs)"

lemma refreshed_refl: "refreshed i xs xs" by (simp add: refreshed_def)

lemma refreshed_trans:
  assumes "refreshed i xs ys" "refreshed i ys zs"
  shows "refreshed i xs zs"
proof -
  have l: "length xs \<le> length ys"
    using arg_cong [OF conjunct1 [OF assms(1) [unfolded refreshed_def]], of length] by simp
  have "map operator_view (take (length xs) zs) = take (length xs) (map operator_view (take (length ys) zs))"
    using l by (simp add: take_map min_def)
  also have "\<dots> = map operator_view (take (length xs) ys)" using assms(2) by (simp add: refreshed_def take_map)
  finally show ?thesis using assms by (simp add: refreshed_def)
qed

lemma filter_unmoved: "(\<And>c. Q (f c) = Q c) \<Longrightarrow> (\<And>c. Q c \<Longrightarrow> f c = c) \<Longrightarrow> filter Q (map f xs) = filter Q xs"
  by (induction xs) auto

lemma refreshed_upsert: "refreshed i (vd_channels s) (vd_channels (upsert_channel i ch s))"
proof -
  let ?f = "\<lambda>c. if cc_dvr c = i \<and> cc_num c = cc_num ch then c\<lparr>cc_width := cc_width ch, cc_height := cc_height ch,
      cc_rtsp := cc_rtsp ch, cc_snapshot := cc_snapshot ch\<rparr> else c"
  have "operator_view (?f c) = operator_view c" for c by (simp add: operator_view_def)
  moreover have "filter (\<lambda>c. cc_dvr c \<noteq> i) (map ?f xs) = filter (\<lambda>c. cc_dvr c \<noteq> i) xs" for xs
    by (rule filter_unmoved) simp_all
  ultimately have "refreshed i xs (map ?f xs)" for xs by (simp add: refreshed_def comp_def)
  then show ?thesis by (simp add: upsert_channel_def on_channel_def) (simp add: refreshed_def)
qed

lemma refreshed_exec: "refreshed i (vd_channels s) (vd_channels (fst (dv_exec (upsert_channel i ch) s)))"
  using refreshed_upsert [of i "fst (dv_statement s)" ch] by (simp add: dv_exec_def split_beta refreshed_refl)

text \<open>Storing what a discovery found keeps what the operator set.\<close>

lemma discovery_keeps_rows: "refreshed i (vd_channels s) (vd_channels (store_channels i chs s))"
  unfolding store_channels_def
proof (induction chs arbitrary: s)
  case (Cons ch chs)
  show ?case unfolding foldl_Cons by (rule refreshed_trans [OF refreshed_exec Cons.IH])
qed (simp add: refreshed_refl)

section \<open>Order of the channels\<close>

lemma run_all_no_faults:
  "vd_faults s = [] \<Longrightarrow> \<forall>f\<in>set fs. \<forall>s. vd_faults (f s) = vd_faults s
     \<Longrightarrow> run_all (map dv_exec fs) s = (foldl (\<lambda>s f. f s) s fs, True)"
  by (induction fs arbitrary: s) (simp_all add: no_faults)

fun position :: "int list \<Rightarrow> int \<Rightarrow> nat" where
  "position [] _ = 0"
| "position (x # xs) y = (if x = y then 0 else Suc (position xs y))"

lemma position_nth: "y \<in> set xs \<Longrightarrow> position xs y < length xs \<and> xs ! position xs y = y"
  by (induction xs) auto

lemma position_inj: "inj_on (position xs) (set xs)"
  by (rule inj_onI) (metis position_nth)

lemma position_at: "distinct xs \<Longrightarrow> k < length xs \<Longrightarrow> position xs (xs ! k) = k"
  by (metis distinct_conv_nth nth_mem position_nth)

lemma map_position: "distinct xs \<Longrightarrow> map (position xs) xs = [0..<length xs]"
  by (rule nth_equalityI) (simp_all add: position_at)

lemma same_by_position:
  assumes "distinct xs" "set xs = set nums" "distinct nums" "sorted (map (position nums) xs)"
  shows "xs = nums"
proof (rule map_sorted_distinct_set_unique [where f = "position nums"])
  show "inj_on (position nums) (set xs \<union> set nums)" using assms(2) position_inj by simp
  show "distinct (map (position nums) xs)" using assms position_inj by (simp add: distinct_map)
qed (use assms map_position [OF assms(3)] in simp_all)

lemma reorder_rows:
  "distinct nums \<Longrightarrow> foldl (\<lambda>s f. f s) s (map (\<lambda>(k, n). on_channel i n (\<lambda>c. c\<lparr>cc_order := k\<rparr>)) (zip (map int [a..<a + length nums]) nums))
     = s\<lparr>vd_channels := map (\<lambda>c. if cc_dvr c = i \<and> cc_num c \<in> set nums then c\<lparr>cc_order := int (a + position nums (cc_num c))\<rparr> else c) (vd_channels s)\<rparr>"
proof (induction nums arbitrary: s a)
  case (Cons n nums)
  have u: "[a..<a + length (n # nums)] = a # [Suc a..<Suc a + length nums]" by (simp add: upt_conv_Cons del: upt_Suc)
  from Cons.prems have d: "distinct nums" and n: "n \<notin> set nums" by simp_all
  show ?case unfolding u list.map zip_Cons_Cons prod.case foldl_Cons Cons.IH [OF d] using n
    by (simp add: on_channel_def) (rule arg_cong [where f = "\<lambda>x. s\<lparr>vd_channels := x\<rparr>"], rule map_cong, auto)
qed simp

text \<open>Reordering shows the channels in the order asked for: when the numbers given are those of the
  recorder's channels, each once, listing the channels after it returns them in exactly that order.\<close>

lemma reorder_then_list:
  assumes "dvr_db_ok s" "vd_faults s = []" "distinct nums"
    "set nums = cc_num ` set (filter (\<lambda>c. cc_dvr c = i) (vd_channels s))"
  shows "map_option (map cc_num) (snd (ListChannels i (fst (ReorderChannels i nums s)))) = Some nums"
proof -
  let ?f = "\<lambda>c::channel_config. if cc_dvr c = i \<and> cc_num c \<in> set nums then c\<lparr>cc_order := int (position nums (cc_num c))\<rparr> else c"
  let ?xs = "filter (\<lambda>c. cc_dvr c = i) (map ?f (vd_channels s))"
  let ?fs = "map (\<lambda>(k, n). on_channel i n (\<lambda>c. c\<lparr>cc_order := k\<rparr>)) (zip (map int [0..<length nums]) nums)"
  have r: "run_all (map dv_exec (id # ?fs @ [id])) s = (s\<lparr>vd_channels := map ?f (vd_channels s)\<rparr>, True)"
    using reorder_rows [OF assms(3), of s i 0]
    by (subst run_all_no_faults) (auto simp: assms(2) on_channel_def)
  have e: "dv_exec id # map (\<lambda>(k, n). dv_exec (on_channel i n (\<lambda>c. c\<lparr>cc_order := k\<rparr>))) (zip (map int [0..<length nums]) nums) @ [dv_exec id]
      = map dv_exec (id # ?fs @ [id])"
    by (simp add: split_beta)
  have "fst (ReorderChannels i nums s) = notify (s\<lparr>vd_channels := map ?f (vd_channels s)\<rparr>)"
    unfolding ReorderChannels_def transaction_def e r by simp
  then have l: "snd (ListChannels i (fst (ReorderChannels i nums s))) = Some (sort_key cc_order ?xs)"
    by (simp add: ListChannels_def no_faults notify_def assms(2))
  have x: "?xs = map ?f (filter (\<lambda>c. cc_dvr c = i) (vd_channels s))"
  proof -
    have "(\<lambda>c::channel_config. cc_dvr c = i) \<circ> ?f = (\<lambda>c. cc_dvr c = i)" by (rule ext) simp
    then show ?thesis by (simp only: filter_map)
  qed
  have "distinct (map cc_num (filter (\<lambda>c. cc_dvr c = i) (vd_channels s)))"
    using assms(1) by (auto simp: dvr_db_ok_def distinct_map inj_on_def)
  then have d: "distinct (map cc_num (sort_key cc_order ?xs))"
    unfolding mset_eq_imp_distinct_iff [of "map cc_num (sort_key cc_order ?xs)" "map cc_num ?xs", simplified]
    unfolding x map_map by (subst map_cong [OF refl, where g = cc_num]) simp_all
  have m: "set (map cc_num (sort_key cc_order ?xs)) = set nums"
  proof -
    have "set (map cc_num (sort_key cc_order ?xs)) = set (map cc_num ?xs)" by (simp only: set_map set_sort)
    also have "map cc_num ?xs = map cc_num (filter (\<lambda>c. cc_dvr c = i) (vd_channels s))"
      unfolding x map_map by (rule map_cong) simp_all
    finally show ?thesis using assms(4) by simp
  qed
  have o: "cc_order c = int (position nums (cc_num c))" if "c \<in> set ?xs" for c
    using that assms(4) unfolding x by auto
  have "map int (map (position nums) (map cc_num (sort_key cc_order ?xs))) = map cc_order (sort_key cc_order ?xs)"
    unfolding map_map by (rule map_cong) (simp_all only: set_sort comp_apply o)
  then have "sorted (map int (map (position nums) (map cc_num (sort_key cc_order ?xs))))"
    by (simp only: sorted_sort_key)
  then have "sorted (map (position nums) (map cc_num (sort_key cc_order ?xs)))"
    by (simp add: sorted_map)
  then have "map cc_num (sort_key cc_order ?xs) = nums"
    by (rule same_by_position [OF d m assms(3)])
  with l show ?thesis by simp
qed

definition toy_channel :: "int \<Rightarrow> channel_config" where
  "toy_channel n = \<lparr>cc_id = 0, cc_dvr = 0, cc_num = n, cc_name = ''Gate'', cc_order = n, cc_enabled = True, cc_width = 0,
     cc_height = 0, cc_rtsp = '''', cc_snapshot = '''', cc_hires = False\<rparr>"

end
