(* ===== verification/Go_Digest.thy ===== *)
theory Go_Digest
  imports Dash_Session
begin

text \<open>
  The functions of \<open>crypto/md5\<close>, \<open>crypto/sha1\<close> and \<open>encoding/base64\<close> (the padded standard alphabet)
  that the agent's camera clients use, written out so that a digest can be evaluated. The padding and
  the big-endian words are those of \<open>Dash_Session\<close>.
\<close>

section \<open>MD5\<close>

definition md5_sines :: "32 word list" where
  "md5_sines = [
    0xD76AA478, 0xE8C7B756, 0x242070DB, 0xC1BDCEEE, 0xF57C0FAF, 0x4787C62A, 0xA8304613, 0xFD469501,
    0x698098D8, 0x8B44F7AF, 0xFFFF5BB1, 0x895CD7BE, 0x6B901122, 0xFD987193, 0xA679438E, 0x49B40821,
    0xF61E2562, 0xC040B340, 0x265E5A51, 0xE9B6C7AA, 0xD62F105D, 0x02441453, 0xD8A1E681, 0xE7D3FBC8,
    0x21E1CDE6, 0xC33707D6, 0xF4D50D87, 0x455A14ED, 0xA9E3E905, 0xFCEFA3F8, 0x676F02D9, 0x8D2A4C8A,
    0xFFFA3942, 0x8771F681, 0x6D9D6122, 0xFDE5380C, 0xA4BEEA44, 0x4BDECFA9, 0xF6BB4B60, 0xBEBFBC70,
    0x289B7EC6, 0xEAA127FA, 0xD4EF3085, 0x04881D05, 0xD9D4D039, 0xE6DB99E5, 0x1FA27CF8, 0xC4AC5665,
    0xF4292244, 0x432AFF97, 0xAB9423A7, 0xFC93A039, 0x655B59C3, 0x8F0CCC92, 0xFFEFF47D, 0x85845DD1,
    0x6FA87E4F, 0xFE2CE6E0, 0xA3014314, 0x4E0811A1, 0xF7537E82, 0xBD3AF235, 0x2AD7D2BB, 0xEB86D391]"

definition md5_shifts :: "nat list" where
  "md5_shifts = concat (map (\<lambda>r. concat (replicate 4 r)) [[7, 12, 17, 22], [5, 9, 14, 20], [4, 11, 16, 23], [6, 10, 15, 21]])"

fun le_words :: "bytes \<Rightarrow> 32 word list" where
  "le_words (a # b # c # d # r) = word_of_nat (get_le [a, b, c, d]) # le_words r"
| "le_words r = []"

definition md5_mix :: "nat \<Rightarrow> 32 word \<Rightarrow> 32 word \<Rightarrow> 32 word \<Rightarrow> 32 word \<times> nat" where
  "md5_mix i b c d =
     (if i < 16 then ((b AND c) OR (NOT b AND d), i)
      else if i < 32 then ((d AND b) OR (NOT d AND c), (5 * i + 1) mod 16)
      else if i < 48 then (b XOR c XOR d, (3 * i + 5) mod 16)
      else (c XOR (b OR NOT d), (7 * i) mod 16))"

fun md5_round :: "32 word list \<Rightarrow> 32 word list \<Rightarrow> nat \<times> 32 word \<times> nat \<Rightarrow> 32 word list" where
  "md5_round m [a, b, c, d] (i, k, s) =
     (case md5_mix i b c d of (f, g) \<Rightarrow> [d, b + word_rotl s (a + f + k + m ! g), b, c])"
| "md5_round m v x = v"

definition md5_block :: "32 word list \<Rightarrow> bytes \<Rightarrow> 32 word list" where
  "md5_block hs blk = map2 (+) hs (foldl (md5_round (le_words blk)) hs (zip [0..<64] (zip md5_sines md5_shifts)))"

definition md5_pad :: "bytes \<Rightarrow> bytes" where
  "md5_pad m = m @ [0x80] @ replicate ((119 - length m mod 64) mod 64) 0 @ put_le 8 (8 * length m)"

definition md5 :: "bytes \<Rightarrow> bytes" where
  "md5 m = (let p = md5_pad m
     in concat (map (\<lambda>w. put_le 4 (unat w))
          (foldl md5_block [0x67452301, 0xEFCDAB89, 0x98BADCFE, 0x10325476] (blocks (length p div 64) p))))"

section \<open>SHA-1\<close>

fun sha1_schedule :: "nat \<Rightarrow> 32 word list \<Rightarrow> 32 word list" where
  "sha1_schedule 0 ws = ws"
| "sha1_schedule (Suc n) ws =
     (let t = length ws
      in sha1_schedule n (ws @ [word_rotl 1 (ws ! (t - 3) XOR ws ! (t - 8) XOR ws ! (t - 14) XOR ws ! (t - 16))]))"

definition sha1_mix :: "nat \<Rightarrow> 32 word \<Rightarrow> 32 word \<Rightarrow> 32 word \<Rightarrow> 32 word" where
  "sha1_mix i b c d =
     (if i < 20 then ((b AND c) OR (NOT b AND d)) + 0x5A827999
      else if i < 40 then (b XOR c XOR d) + 0x6ED9EBA1
      else if i < 60 then ((b AND c) OR (b AND d) OR (c AND d)) + 0x8F1BBCDC
      else (b XOR c XOR d) + 0xCA62C1D6)"

fun sha1_round :: "32 word list \<Rightarrow> nat \<times> 32 word \<Rightarrow> 32 word list" where
  "sha1_round [a, b, c, d, e] (i, w) = [word_rotl 5 a + sha1_mix i b c d + e + w, a, word_rotl 30 b, c, d]"
| "sha1_round v x = v"

definition sha1_block :: "32 word list \<Rightarrow> bytes \<Rightarrow> 32 word list" where
  "sha1_block hs blk = map2 (+) hs (foldl sha1_round hs (zip [0..<80] (sha1_schedule 64 (be_words blk))))"

definition sha1 :: "bytes \<Rightarrow> bytes" where
  "sha1 m = (let p = sha_pad m
     in concat (map (\<lambda>w. put_be 4 (unat w))
          (foldl sha1_block [0x67452301, 0xEFCDAB89, 0x98BADCFE, 0x10325476, 0xC3D2E1F0] (blocks (length p div 64) p))))"

section \<open>Standard base64\<close>

definition std_char :: "nat \<Rightarrow> char" where
  "std_char k = (if k = 62 then CHR ''+'' else if k = 63 then CHR ''/'' else b64_char k)"

definition std_encode :: "bytes \<Rightarrow> string" where
  "std_encode bs = map std_char (b64_groups (map unat bs)) @ replicate ((3 - length bs mod 3) mod 3) CHR ''=''"

text \<open>The decoder of \<open>StdEncoding\<close>: line breaks are skipped, the padding has to be there.\<close>

definition std_val :: "char \<Rightarrow> nat option" where
  "std_val c = (if c = CHR ''+'' then Some 62 else if c = CHR ''/'' then Some 63
     else if c = CHR ''-'' \<or> c = CHR ''_'' then None else b64_val c)"

definition std_decode :: "string \<Rightarrow> bytes option" where
  "std_decode s =
     (let cs = filter (\<lambda>c. char_val c \<noteq> 10 \<and> char_val c \<noteq> 13) s;
          ds = takeWhile (\<lambda>c. c \<noteq> CHR ''='') cs
      in if list_all (\<lambda>c. std_val c \<noteq> None) ds
            \<and> drop (length ds) cs = replicate ((4 - length ds mod 4) mod 4) CHR ''=''
         then map_option (map word_of_nat) (b64_bytes (map (the \<circ> std_val) ds)) else None)"

section \<open>Test values\<close>

lemma std_encode_values:
  "std_encode [] = ''''" "std_encode (str_bytes ''a'') = ''YQ==''" "std_encode (str_bytes ''ab>'') = ''YWI+''"
  "std_decode ''YQ=='' = Some (str_bytes ''a'')" "std_decode ''YQ='' = None"
  by code_simp+

end
