(* ===== verification/Agent_Net.thy ===== *)
theory Agent_Net
  imports Go_Net Agent_Store
begin

text \<open>
  What the agent's camera clients use of the network and of \<open>encoding/xml\<close>. An HTTP exchange is a value of
  the parameter \<open>world\<close>: the answer of the network to a query after the queries made so far, redirects
  included, \<open>None\<close> when there is no answer. A computation over the network takes the list of the
  queries made and returns it extended; its result is \<open>None\<close> when the code panics. The tokenizer of
  \<open>encoding/xml\<close> and \<open>net/url\<close> are parameters too; \<open>Unmarshal\<close> is written out over the tokens: the tree
  of the first element, and the values its fields take (\<open>at_path\<close>: the elements at a path of names).
\<close>

section \<open>Exchanges\<close>

datatype http_auth = No_Auth | Basic string string | Header string

record http_query =
  hq_method :: string
  hq_url :: string
  hq_auth :: http_auth
  hq_type :: string
  hq_body :: string
  hq_timeout :: nat

record http_answer =
  ha_status :: nat
  ha_challenge :: string
  ha_body :: "string option"

type_synonym world = "http_query list \<Rightarrow> http_query \<Rightarrow> http_answer option"
type_synonym 'a io = "http_query list \<Rightarrow> 'a option \<times> http_query list"

record url_parts =
  up_scheme :: string
  up_host :: string
  up_hostname :: string
  up_request :: string

datatype xml_token = Start string "(string \<times> string) list" | End string | Chars string

text \<open>The library: parsing a URL, printing it with another host, the tokens of an XML text up to its end or
  its first error, random bytes and the time.\<close>

record agent_lib =
  ag_url :: "string \<Rightarrow> url_parts option"
  ag_with_host :: "string \<Rightarrow> string \<Rightarrow> string"
  ag_tokens :: "string \<Rightarrow> xml_token list"
  ag_random :: "http_query list \<Rightarrow> nat \<Rightarrow> 8 word list"
  ag_created :: "http_query list \<Rightarrow> string"

definition val :: "'a \<Rightarrow> 'a io" where
  "val x log = (Some x, log)"

definition panic :: "'a io" where
  "panic log = (None, log)"

definition seq :: "'a io \<Rightarrow> ('a \<Rightarrow> 'b io) \<Rightarrow> 'b io" where
  "seq m f log = (case m log of (None, log') \<Rightarrow> (None, log') | (Some x, log') \<Rightarrow> f x log')"

text \<open>A computation that draws random bytes or reads the clock depends on the exchanges so far.\<close>

definition with_log :: "(http_query list \<Rightarrow> 'a io) \<Rightarrow> 'a io" where
  "with_log f log = f log log"

fun seq_map :: "('a \<Rightarrow> 'b io) \<Rightarrow> 'a list \<Rightarrow> 'b list io" where
  "seq_map f [] = val []"
| "seq_map f (x # xs) = seq (f x) (\<lambda>y. seq (seq_map f xs) (\<lambda>ys. val (y # ys)))"

definition send :: "world \<Rightarrow> http_query \<Rightarrow> http_answer option io" where
  "send w q log = (Some (w log q), log @ [q])"

text \<open>\<open>http.NewRequest\<close> fails when the URL does not parse. \<open>ask\<close> reports it as an error; \<open>must_ask\<close> is the
  code that ignores the error and uses the nil request.\<close>

definition ask :: "agent_lib \<Rightarrow> world \<Rightarrow> http_query \<Rightarrow> http_answer option io" where
  "ask lib w q = (if ag_url lib (hq_url q) = None then val None else send w q)"

definition must_ask :: "agent_lib \<Rightarrow> world \<Rightarrow> http_query \<Rightarrow> http_answer option io" where
  "must_ask lib w q = (if ag_url lib (hq_url q) = None then panic else send w q)"

definition http_get :: "string \<Rightarrow> http_auth \<Rightarrow> nat \<Rightarrow> http_query" where
  "http_get url auth ms = \<lparr>hq_method = ''GET'', hq_url = url, hq_auth = auth, hq_type = [], hq_body = [], hq_timeout = ms\<rparr>"

section \<open>The tree of an XML text\<close>

text \<open>\<open>Cut\<close>: an element whose end was not read.\<close>

datatype xml = El string "(string \<times> string) list" "xml list" | Tx string | Cut string "xml list"

fun cut_stack :: "(string \<times> (string \<times> string) list \<times> xml list) list \<Rightarrow> xml option" where
  "cut_stack [] = None"
| "cut_stack [(n, _, ks)] = Some (Cut n ks)"
| "cut_stack ((n, _, ks) # (m, b, js) # st) = cut_stack ((m, b, js @ [Cut n ks]) # st)"

text \<open>The first element of the text; the stack holds the open elements, the innermost first.\<close>

fun build :: "(string \<times> (string \<times> string) list \<times> xml list) list \<Rightarrow> xml_token list \<Rightarrow> xml option" where
  "build st [] = cut_stack st"
| "build st (Start n a # ts) = build ((n, a, []) # st) ts"
| "build [] (_ # ts) = build [] ts"
| "build ((n, a, ks) # st) (Chars c # ts) = build ((n, a, ks @ [Tx c]) # st) ts"
| "build [(n, a, ks)] (End _ # ts) = Some (El n a ks)"
| "build ((n, a, ks) # (m, b, js) # st) (End _ # ts) = build ((m, b, js @ [El n a ks]) # st) ts"

definition xml_root :: "agent_lib \<Rightarrow> string \<Rightarrow> xml option" where
  "xml_root lib s = build [] (ag_tokens lib s)"

text \<open>\<open>Unmarshal\<close> fails unless the element is complete.\<close>

definition xml_whole :: "agent_lib \<Rightarrow> string \<Rightarrow> xml option" where
  "xml_whole lib s = (case xml_root lib s of Some (El n a ks) \<Rightarrow> Some (El n a ks) | _ \<Rightarrow> None)"

fun tag :: "xml \<Rightarrow> string option" where
  "tag (El n _ _) = Some n"
| "tag (Cut n _) = Some n"
| "tag (Tx _) = None"

fun kids :: "xml \<Rightarrow> xml list" where
  "kids (El _ _ ks) = ks"
| "kids (Cut _ ks) = ks"
| "kids (Tx _) = []"

fun whole :: "xml \<Rightarrow> bool" where
  "whole (El _ _ _) = True"
| "whole _ = False"

fun at_path :: "string list \<Rightarrow> xml \<Rightarrow> xml list" where
  "at_path [] x = [x]"
| "at_path (n # ns) x = concat (map (at_path ns) (filter (\<lambda>k. tag k = Some n) (kids x)))"

definition text_of :: "xml \<Rightarrow> string" where
  "text_of x = concat (map (\<lambda>k. case k of Tx c \<Rightarrow> c | _ \<Rightarrow> []) (kids x))"

definition last_text :: "string list \<Rightarrow> xml \<Rightarrow> string" where
  "last_text p x = (case at_path p x of [] \<Rightarrow> [] | es \<Rightarrow> text_of (last es))"

definition int_text :: "xml \<Rightarrow> int option" where
  "int_text x = (if text_of x = [] then Some 0 else atoi (TrimSpace (text_of x)))"

text \<open>An \<open>int\<close> field; \<open>None\<close> when one of its elements does not hold a number.\<close>

definition int_field :: "string list \<Rightarrow> xml \<Rightarrow> int option" where
  "int_field p x = (let vs = map int_text (at_path p x)
     in if None \<in> set vs then None else Some (if vs = [] then 0 else the (last vs)))"

definition bool_texts :: "string list" where
  "bool_texts = [''1'', ''t'', ''T'', ''true'', ''TRUE'', ''True'', ''0'', ''f'', ''F'', ''false'', ''FALSE'', ''False'']"

definition bool_field_ok :: "string list \<Rightarrow> xml \<Rightarrow> bool" where
  "bool_field_ok p x = list_all (\<lambda>e. text_of e = [] \<or> TrimSpace (text_of e) \<in> set bool_texts) (at_path p x)"

definition attr :: "string \<Rightarrow> xml \<Rightarrow> string" where
  "attr n x = (case x of El _ as _ \<Rightarrow> (case filter (\<lambda>(m, _). m = n) as of [] \<Rightarrow> [] | l \<Rightarrow> snd (last l)) | _ \<Rightarrow> [])"

section \<open>Lemmas\<close>

fun tokens_of :: "xml \<Rightarrow> xml_token list" where
  "tokens_of (El n a ks) = Start n a # concat (map tokens_of ks) @ [End n]"
| "tokens_of (Tx c) = [Chars c]"
| "tokens_of (Cut n ks) = []"

fun closed_tree :: "xml \<Rightarrow> bool" where
  "closed_tree (El _ _ ks) = list_all closed_tree ks"
| "closed_tree (Tx _) = True"
| "closed_tree (Cut _ _) = False"

lemma build_inner:
  "closed_tree x \<Longrightarrow> build ((n, a, ks) # st) (tokens_of x @ ts) = build ((n, a, ks @ [x]) # st) ts"
proof (induction x arbitrary: n a ks st ts)
  case (El m b js)
  have "build ((m, b, ls) # (n, a, ks) # st) (concat (map tokens_of xs) @ End m # ts)
      = build ((n, a, ks @ [El m b (ls @ xs)]) # st) ts" if "set xs \<subseteq> set js" for xs ls
    using that
  proof (induction xs arbitrary: ls)
    case (Cons x xs)
    then have "closed_tree x" using El.prems by (auto simp: list_all_iff)
    with Cons El.IH [of x m b ls "(n, a, ks) # st"] show ?case by simp
  qed simp
  from this [of js "[]"] show ?case by simp
qed simp_all

text \<open>The tree of a printed element is the element, whatever follows it.\<close>

lemma build_tokens: "list_all closed_tree ks \<Longrightarrow> build [] (tokens_of (El n a ks) @ ts) = Some (El n a ks)"
proof -
  assume k: "list_all closed_tree ks"
  have "build [(n, a, js)] (concat (map tokens_of ls) @ End n # ts) = Some (El n a (js @ ls))"
    if "list_all closed_tree ls" for ls js
    using that by (induction ls arbitrary: js) (simp_all add: build_inner)
  from this [OF k, of "[]"] show ?thesis by simp
qed

subsection \<open>What a computation sends\<close>

definition sends :: "(http_query \<Rightarrow> bool) \<Rightarrow> 'a io \<Rightarrow> bool" where
  "sends P m = (\<forall>log. \<exists>qs. snd (m log) = log @ qs \<and> list_all P qs)"

lemma sends_val [intro, simp]: "sends P (val x)" by (simp add: sends_def val_def)

lemma sends_panic [intro, simp]: "sends P panic" by (simp add: sends_def panic_def)

lemma sends_send: "P q \<Longrightarrow> sends P (send w q)" by (simp add: sends_def send_def)

lemma sends_ask [intro]: "P q \<Longrightarrow> sends P (ask lib w q)" by (simp add: ask_def sends_send)

lemma sends_must_ask [intro]: "P q \<Longrightarrow> sends P (must_ask lib w q)" by (simp add: must_ask_def sends_send)


text \<open>What a computation returns, and a sequence whose second part relies on it.\<close>

definition gives :: "('a \<Rightarrow> bool) \<Rightarrow> 'a io \<Rightarrow> bool" where
  "gives P m = (\<forall>log x. fst (m log) = Some x \<longrightarrow> P x)"

lemma gives_val: "P x \<Longrightarrow> gives P (val x)" by (simp add: gives_def val_def)

lemma gives_panic: "gives P panic" by (simp add: gives_def panic_def)

lemma gives_seq: "(\<And>x. gives P (f x)) \<Longrightarrow> gives P (seq m f)"
  by (auto simp: gives_def seq_def split: option.splits prod.splits)

lemma gives_case_option:
  "(z = None \<Longrightarrow> gives P m) \<Longrightarrow> (\<And>x. z = Some x \<Longrightarrow> gives P (f x)) \<Longrightarrow> gives P (case z of None \<Rightarrow> m | Some x \<Rightarrow> f x)"
  by (cases z) auto

lemma gives_if: "(c \<Longrightarrow> gives P m) \<Longrightarrow> (\<not> c \<Longrightarrow> gives P n) \<Longrightarrow> gives P (if c then m else n)"
  by simp

lemma gives_seq_gives:
  assumes "gives R m" "\<And>x. R x \<Longrightarrow> gives P (f x)"
  shows "gives P (seq m f)"
  unfolding gives_def
proof (intro allI impI)
  fix log y
  assume y: "fst (seq m f log) = Some y"
  then obtain x log' where "m log = (Some x, log')" "fst (f x log') = Some y"
    by (auto simp: seq_def split: option.splits prod.splits)
  with assms show "P y" unfolding gives_def by (metis fst_conv)
qed

lemma sends_seq_gives:
  assumes "sends P m" "gives R m" "\<And>x. R x \<Longrightarrow> sends P (f x)"
  shows "sends P (seq m f)"
  unfolding sends_def
proof
  fix log
  obtain r qs where m: "m log = (r, log @ qs)" "list_all P qs"
    using assms(1) unfolding sends_def by (metis prod.collapse)
  show "\<exists>qs. snd (seq m f log) = log @ qs \<and> list_all P qs"
  proof (cases r)
    case None
    with m show ?thesis by (simp add: seq_def)
  next
    case (Some x)
    with m assms(2) have "R x" unfolding gives_def by (metis fst_conv)
    with assms(3) obtain rs where "snd (f x (log @ qs)) = (log @ qs) @ rs" "list_all P rs"
      unfolding sends_def by blast
    with m Some show ?thesis by (simp add: seq_def)
  qed
qed

lemma sends_seq [intro]: "sends P m \<Longrightarrow> (\<And>x. sends P (f x)) \<Longrightarrow> sends P (seq m f)"
  by (rule sends_seq_gives [where R = "\<lambda>_. True"]) (simp_all add: gives_def)

lemma sends_with_log [intro]: "(\<And>log. sends P (f log)) \<Longrightarrow> sends P (with_log f)"
  by (simp add: sends_def with_log_def)

lemma sends_seq_map: "(\<And>x. x \<in> set xs \<Longrightarrow> sends P (f x)) \<Longrightarrow> sends P (seq_map f xs)"
  by (induction xs) auto

lemma sends_case_option [intro]:
  "sends P m \<Longrightarrow> (\<And>x. sends P (f x)) \<Longrightarrow> sends P (case z of None \<Rightarrow> m | Some x \<Rightarrow> f x)"
  by (cases z) auto

lemma sends_if [intro]: "(c \<Longrightarrow> sends P m) \<Longrightarrow> (\<not> c \<Longrightarrow> sends P n) \<Longrightarrow> sends P (if c then m else n)"
  by simp

lemma sends_mono: "sends P m \<Longrightarrow> (\<And>q. P q \<Longrightarrow> Q q) \<Longrightarrow> sends Q m"
  unfolding sends_def by (metis list_all_iff)

end
