(* ===== verification/Onvif.thy ===== *)
theory Onvif
  imports Go_Digest Agent_Net Agent_Store
begin

text \<open>
  The ONVIF client of the site agent, \<^verbatim>\<open>agent/onvif.go\<close>: SOAP calls with a WS-Security token, answering
  one HTTP Digest challenge; the media and event services of a device, whose addresses are rewritten to
  the host that was dialled; the channels behind its profiles; the topics of its events; and the guard on
  the snapshot address a device supplies. Strings are sequences of bytes.
\<close>

record onvif_client =
  oc_user :: string
  oc_pass :: string
  oc_timeout :: nat

section \<open>HTTP Digest\<close>

definition is_word :: "char \<Rightarrow> bool" where
  "is_word c = (let v = char_val c in is_digit c \<or> 65 \<le> v \<and> v \<le> 90 \<or> 97 \<le> v \<and> v \<le> 122 \<or> c = CHR ''_'')"

text \<open>The white space of \<open>regexp\<close>.\<close>

definition is_blank :: "char \<Rightarrow> bool" where
  "is_blank c = (c = CHR '' '' \<or> char_val c \<in> {9, 10, 12, 13})"

text \<open>What follows the equals sign: a quoted value, else a run without commas and blanks.\<close>

definition param_value :: "string \<Rightarrow> (string \<times> string) option" where
  "param_value s =
     (let bare = takeWhile (\<lambda>c. c \<noteq> CHR '','' \<and> \<not> is_blank c) s;
          unquoted = (if bare = [] then None else Some (bare, drop (length bare) s))
      in case s of [] \<Rightarrow> None
         | c # r \<Rightarrow> if c = CHR 0x22 then (case cut_at (CHR 0x22) r of None \<Rightarrow> unquoted | Some (v, rest) \<Rightarrow> Some (v, rest))
                   else unquoted)"

text \<open>The matches of the expression \<open>digestParamRe\<close>, from left to right; the fuel is the length of the text.\<close>

fun digest_params :: "nat \<Rightarrow> string \<Rightarrow> (string \<times> string) list" where
  "digest_params 0 _ = []"
| "digest_params (Suc n) s =
     (let w = takeWhile is_word s; r = drop (length w) s
      in if s = [] then []
         else if w = [] then digest_params n (tl s)
         else case r of [] \<Rightarrow> []
           | c # v \<Rightarrow> if c \<noteq> CHR ''='' then digest_params n r
                     else case param_value v of
                       None \<Rightarrow> digest_params n r
                     | Some (x, rest) \<Rightarrow> (ToLower w, x) # digest_params n rest)"

definition parseDigestChallenge :: "string \<Rightarrow> (string \<times> string) list" where
  "parseDigestChallenge challenge =
     (let t = TrimSpace challenge;
          i = length (takeWhile (\<lambda>c. c \<noteq> CHR '' '' \<and> char_val c \<noteq> 9) t);
          s = (if i < length t then drop (i + 1) t else t)
      in digest_params (length s) s)"

text \<open>A later parameter replaces an earlier one of the same name.\<close>

definition param :: "(string \<times> string) list \<Rightarrow> string \<Rightarrow> string" where
  "param ps k = (case map_of (rev ps) k of None \<Rightarrow> [] | Some v \<Rightarrow> v)"

definition md5hex :: "string \<Rightarrow> string" where
  "md5hex s = hex_encode (md5 (str_bytes s))"

definition quoted :: "string \<Rightarrow> string" where
  "quoted s = [CHR 0x22] @ s @ [CHR 0x22]"

text \<open>\<open>cnonce\<close>: the value of \<open>randomHex(8)\<close>.\<close>

definition digestAuth :: "agent_lib \<Rightarrow> onvif_client \<Rightarrow> string \<Rightarrow> string \<Rightarrow> string \<Rightarrow> string \<Rightarrow> string" where
  "digestAuth lib c cnonce method endpoint challenge =
     (if \<not> has_prefix (ToLower (TrimSpace challenge)) ''digest'' then []
      else let p = parseDigestChallenge challenge; realm = param p ''realm''; nonce = param p ''nonce''
        in if realm = [] \<or> nonce = [] then []
        else case ag_url lib endpoint of None \<Rightarrow> []
        | Some u \<Rightarrow>
           let uri = up_request u;
               ha1 = md5hex (oc_user c @ '':'' @ realm @ '':'' @ oc_pass c);
               ha2 = md5hex (method @ '':'' @ uri);
               nc = ''00000001'';
               qop = param p ''qop'';
               response = (if qop = ''auth'' then md5hex (ha1 @ '':'' @ nonce @ '':'' @ nc @ '':'' @ cnonce @ '':'' @ qop @ '':'' @ ha2)
                           else md5hex (ha1 @ '':'' @ nonce @ '':'' @ ha2))
           in ''Digest username='' @ quoted (oc_user c) @ '', realm='' @ quoted realm @ '', nonce='' @ quoted nonce
              @ '', uri='' @ quoted uri @ '', response='' @ quoted response
              @ (if qop \<noteq> [] then '', qop='' @ qop @ '', nc='' @ nc @ '', cnonce='' @ quoted cnonce else [])
              @ (if param p ''opaque'' \<noteq> [] then '', opaque='' @ quoted (param p ''opaque'') else [])
              @ (if param p ''algorithm'' \<noteq> [] then '', algorithm='' @ param p ''algorithm'' else []))"

section \<open>SOAP calls\<close>

definition onvifPasswordDigest :: "8 word list \<Rightarrow> string \<Rightarrow> string \<Rightarrow> string" where
  "onvifPasswordDigest nonce created password = std_encode (sha1 (nonce @ str_bytes created @ str_bytes password))"

definition xml_escape_char :: "char \<Rightarrow> string" where
  "xml_escape_char c = (if c = CHR ''&'' then ''&amp;'' else if c = CHR ''<'' then ''&lt;'' else if c = CHR ''>'' then ''&gt;''
     else if c = CHR 0x22 then ''&quot;'' else if c = CHR 0x27 then ''&apos;'' else [c])"

definition xmlEscape :: "string \<Rightarrow> string" where
  "xmlEscape s = concat (map xml_escape_char s)"

definition wsse_ns :: string where
  "wsse_ns = ''http://docs.oasis-open.org/wss/2004/01/oasis-200401-wss-''"

definition wsseHeader :: "agent_lib \<Rightarrow> onvif_client \<Rightarrow> http_query list \<Rightarrow> string" where
  "wsseHeader lib c log =
     (let nonce = ag_random lib log 16; created = ag_created lib log
      in ''<wsse:Security s:mustUnderstand='' @ quoted ''1'' @ '' xmlns:wsse='' @ quoted (wsse_ns @ ''wssecurity-secext-1.0.xsd'')
         @ '' xmlns:wsu='' @ quoted (wsse_ns @ ''wssecurity-utility-1.0.xsd'')
         @ ''><wsse:UsernameToken><wsse:Username>'' @ xmlEscape (oc_user c) @ ''</wsse:Username><wsse:Password Type=''
         @ quoted (wsse_ns @ ''username-token-profile-1.0#PasswordDigest'') @ ''>'' @ onvifPasswordDigest nonce created (oc_pass c)
         @ ''</wsse:Password><wsse:Nonce EncodingType='' @ quoted (wsse_ns @ ''soap-message-security-1.0#Base64Binary'') @ ''>''
         @ std_encode nonce @ ''</wsse:Nonce><wsu:Created>'' @ created @ ''</wsu:Created></wsse:UsernameToken></wsse:Security>'')"

definition soap_query :: "onvif_client \<Rightarrow> string \<Rightarrow> string \<Rightarrow> string \<Rightarrow> http_auth \<Rightarrow> http_query" where
  "soap_query c url action env auth =
     \<lparr>hq_method = ''POST'', hq_url = url, hq_auth = auth,
      hq_type = ''application/soap+xml; charset=utf-8; action='' @ quoted action, hq_body = env, hq_timeout = oc_timeout c\<rparr>"

definition soap_body :: "http_answer \<Rightarrow> string option" where
  "soap_body r = (if ha_status r = 200 then map_option (take (4 * 2 ^ 20)) (ha_body r) else None)"

text \<open>\<open>call\<close>: \<open>None\<close> is an error. A 401 whose challenge cannot be answered is an error too.\<close>

definition soap_envelope :: "string \<Rightarrow> string \<Rightarrow> string" where
  "soap_envelope header inner = ''<?xml version='' @ quoted ''1.0'' @ '' encoding='' @ quoted ''UTF-8'' @ ''?><s:Envelope xmlns:s=''
     @ quoted ''http://www.w3.org/2003/05/soap-envelope'' @ ''><s:Header>'' @ header @ ''</s:Header><s:Body>''
     @ inner @ ''</s:Body></s:Envelope>''"

definition soap_call :: "agent_lib \<Rightarrow> world \<Rightarrow> onvif_client \<Rightarrow> string \<Rightarrow> string \<Rightarrow> string \<Rightarrow> string option io" where
  "soap_call lib w c url action inner = with_log (\<lambda>log.
     let env = soap_envelope (wsseHeader lib c log) inner
     in seq (ask lib w (soap_query c url action env No_Auth)) (\<lambda>r. case r of
          None \<Rightarrow> val None
        | Some r \<Rightarrow>
            if ha_status r = 401 then with_log (\<lambda>log.
              let dh = digestAuth lib c (hex_encode (ag_random lib log 8)) ''POST'' url (ha_challenge r)
              in if dh = [] then val None
                 else seq (ask lib w (soap_query c url action env (Header dh))) (\<lambda>r. val (Option.bind r soap_body)))
            else val (soap_body r)))"

text \<open>\<open>onvifHTTPGet\<close>.\<close>

definition onvifHTTPGet :: "agent_lib \<Rightarrow> world \<Rightarrow> nat \<Rightarrow> string \<Rightarrow> string \<Rightarrow> string \<Rightarrow> string option io" where
  "onvifHTTPGet lib w ms url user pass =
     (let c = \<lparr>oc_user = user, oc_pass = pass, oc_timeout = ms\<rparr>;
          answer = (\<lambda>r. if ha_status r = 200 then map_option (take (16 * 2 ^ 20)) (ha_body r) else None)
      in seq (ask lib w (http_get url No_Auth ms)) (\<lambda>r. case r of
           None \<Rightarrow> val None
         | Some r \<Rightarrow>
             if ha_status r = 401 then with_log (\<lambda>log.
               let dh = digestAuth lib c (hex_encode (ag_random lib log 8)) ''GET'' url (ha_challenge r)
               in seq (ask lib w (http_get url (if dh \<noteq> [] then Header dh else Basic user pass) ms))
                    (\<lambda>r. val (Option.bind r answer)))
             else val (answer r)))"

section \<open>Documents\<close>

record onvif_profile =
  op_token :: string
  op_name :: string
  op_source :: string
  op_width :: int
  op_height :: int

definition profile_of :: "xml \<Rightarrow> onvif_profile option" where
  "profile_of p =
     (case (int_field [''VideoEncoderConfiguration'', ''Resolution'', ''Width''] p,
            int_field [''VideoEncoderConfiguration'', ''Resolution'', ''Height''] p) of
        (Some wd, Some ht) \<Rightarrow> Some \<lparr>op_token = attr ''token'' p, op_name = last_text [''Name''] p,
            op_source = last_text [''VideoSourceConfiguration'', ''SourceToken''] p, op_width = wd, op_height = ht\<rparr>
      | _ \<Rightarrow> None)"

definition parseOnvifProfiles :: "agent_lib \<Rightarrow> string \<Rightarrow> onvif_profile list option" where
  "parseOnvifProfiles lib data =
     (case xml_whole lib data of None \<Rightarrow> None
      | Some x \<Rightarrow> those (map profile_of (at_path [''Body'', ''GetProfilesResponse'', ''Profiles''] x)))"

definition is_element :: "xml \<Rightarrow> bool" where
  "is_element x = (tag x \<noteq> None)"

definition parseOnvifMediaUri :: "agent_lib \<Rightarrow> string \<Rightarrow> string option" where
  "parseOnvifMediaUri lib data =
     (case xml_whole lib data of None \<Rightarrow> None
      | Some x \<Rightarrow>
          let us = concat (map (at_path [''MediaUri'', ''Uri'']) (concat (map (\<lambda>b. filter is_element (kids b)) (at_path [''Body''] x))))
          in if us = [] \<or> text_of (last us) = [] then None else Some (text_of (last us)))"

definition onvif_ns :: "string \<Rightarrow> string" where
  "onvif_ns s = ''http://www.onvif.org/ver10/'' @ s @ ''/wsdl''"

definition onvifDeviceURL :: "string \<Rightarrow> int \<Rightarrow> string" where
  "onvifDeviceURL addr port = ''http://'' @ addr @ '':'' @ itoa port @ ''/onvif/device_service''"

definition onvifFetchURLAllowed :: "agent_lib \<Rightarrow> string \<Rightarrow> bool" where
  "onvifFetchURLAllowed lib raw =
     (case ag_url lib raw of None \<Rightarrow> False
      | Some u \<Rightarrow>
         if up_scheme u \<noteq> ''http'' \<and> up_scheme u \<noteq> ''https'' then False
         else if up_hostname u = [] then False
         else case ParseIP (up_hostname u) of None \<Rightarrow> True
           | Some ip \<Rightarrow> \<not> (IsLinkLocalUnicast ip \<or> IsLinkLocalMulticast ip \<or> IsUnspecified ip))"

section \<open>Services of a device\<close>

definition empty_call :: "string \<Rightarrow> string \<Rightarrow> string \<Rightarrow> string" where
  "empty_call pre name ns = ''<'' @ pre @ '':'' @ name @ '' xmlns:'' @ pre @ ''='' @ quoted ns @ ''/>''"

definition probe :: "agent_lib \<Rightarrow> world \<Rightarrow> onvif_client \<Rightarrow> string \<Rightarrow> bool io" where
  "probe lib w c deviceURL =
     seq (soap_call lib w c deviceURL (onvif_ns ''device'' @ ''/GetDeviceInformation'')
            (empty_call ''tds'' ''GetDeviceInformation'' (onvif_ns ''device'')))
       (\<lambda>r. val (case r of None \<Rightarrow> False | Some body \<Rightarrow> contains_sub body ''GetDeviceInformationResponse''))"

definition getServices :: "agent_lib \<Rightarrow> world \<Rightarrow> onvif_client \<Rightarrow> string \<Rightarrow> string option io" where
  "getServices lib w c url = soap_call lib w c url (onvif_ns ''device'' @ ''/GetServices'')
     (''<tds:GetServices xmlns:tds='' @ quoted (onvif_ns ''device'')
      @ ''><tds:IncludeCapability>false</tds:IncludeCapability></tds:GetServices>'')"

definition getCapabilities :: "agent_lib \<Rightarrow> world \<Rightarrow> onvif_client \<Rightarrow> string \<Rightarrow> string option io" where
  "getCapabilities lib w c url = soap_call lib w c url (onvif_ns ''device'' @ ''/GetCapabilities'')
     (''<tds:GetCapabilities xmlns:tds='' @ quoted (onvif_ns ''device'')
      @ ''><tds:Category>All</tds:Category></tds:GetCapabilities>'')"

text \<open>The address of the first service whose namespace contains \<open>part\<close>.\<close>

definition service_addr :: "agent_lib \<Rightarrow> string \<Rightarrow> string \<Rightarrow> string option" where
  "service_addr lib part body =
     (case xml_whole lib body of None \<Rightarrow> None
      | Some x \<Rightarrow> map_option (last_text [''XAddr''])
          (find (\<lambda>s. contains_sub (last_text [''Namespace''] s) part \<and> last_text [''XAddr''] s \<noteq> [])
             (at_path [''Body'', ''GetServicesResponse'', ''Service''] x)))"

definition capability_addr :: "agent_lib \<Rightarrow> string \<Rightarrow> string \<Rightarrow> string option" where
  "capability_addr lib part body =
     (case xml_whole lib body of None \<Rightarrow> None
      | Some x \<Rightarrow> let a = last_text [''Body'', ''GetCapabilitiesResponse'', ''Capabilities'', part, ''XAddr''] x
          in if a = [] then None else Some a)"

text \<open>The advertised address with the host that was dialled.\<close>

definition rewrite_host :: "agent_lib \<Rightarrow> string \<Rightarrow> string \<Rightarrow> string" where
  "rewrite_host lib deviceURL xaddr =
     (case (ag_url lib xaddr, ag_url lib deviceURL) of
        (Some _, Some d) \<Rightarrow> ag_with_host lib xaddr (up_host d) | _ \<Rightarrow> xaddr)"

text \<open>The two queries both resolvers make, and what they fall back on.\<close>

definition service_url :: "agent_lib \<Rightarrow> world \<Rightarrow> onvif_client \<Rightarrow> string \<Rightarrow> string \<Rightarrow> string \<Rightarrow> 'a \<Rightarrow> (string \<Rightarrow> 'a) \<Rightarrow> 'a io" where
  "service_url lib w c deviceURL part cap fallback found =
     seq (getServices lib w c deviceURL) (\<lambda>r. case Option.bind r (service_addr lib part) of
       Some a \<Rightarrow> val (found (rewrite_host lib deviceURL a))
     | None \<Rightarrow> seq (getCapabilities lib w c deviceURL) (\<lambda>r. case Option.bind r (capability_addr lib cap) of
         Some a \<Rightarrow> val (found (rewrite_host lib deviceURL a))
       | None \<Rightarrow> val fallback))"

definition mediaXAddr :: "agent_lib \<Rightarrow> world \<Rightarrow> onvif_client \<Rightarrow> string \<Rightarrow> string option io" where
  "mediaXAddr lib w c deviceURL = service_url lib w c deviceURL ''/media'' ''Media''
     (map_option (\<lambda>d. ''http://'' @ up_host d @ ''/onvif/media_service'') (ag_url lib deviceURL)) Some"

definition eventsXAddr :: "agent_lib \<Rightarrow> world \<Rightarrow> onvif_client \<Rightarrow> string \<Rightarrow> string io" where
  "eventsXAddr lib w c deviceURL = service_url lib w c deviceURL ''/events'' ''Events'' [] id"

section \<open>Event topics\<close>

text \<open>The state of the loop: the path of the open elements, whether a \<open>TopicSet\<close> is open, the topics so far.\<close>

definition slash_join :: "string list \<Rightarrow> string" where
  "slash_join p = join_with CHR ''/'' p"

fun topic_step :: "string list \<times> bool \<times> string list \<Rightarrow> xml_token \<Rightarrow> string list \<times> bool \<times> string list" where
  "topic_step (path, on, out) (Start n as) =
     (if n = ''TopicSet'' then ([], True, out)
      else if \<not> on then (path, on, out)
      else let p = slash_join (path @ [n])
        in (path @ [n], on, if (''topic'', ''true'') \<in> set as \<and> p \<notin> set out then out @ [p] else out))"
| "topic_step (path, on, out) (End n) =
     (if n = ''TopicSet'' then (path, False, out)
      else if on then (butlast path, on, out) else (path, on, out))"
| "topic_step st (Chars _) = st"

definition parseEventTopics :: "agent_lib \<Rightarrow> string \<Rightarrow> string list" where
  "parseEventTopics lib data = snd (snd (foldl topic_step ([], False, []) (ag_tokens lib data)))"

definition getEventProperties :: "agent_lib \<Rightarrow> world \<Rightarrow> onvif_client \<Rightarrow> string \<Rightarrow> string list option io" where
  "getEventProperties lib w c url =
     seq (soap_call lib w c url (onvif_ns ''events'' @ ''/GetEventProperties'')
            (empty_call ''tev'' ''GetEventProperties'' (onvif_ns ''events'')))
       (\<lambda>r. val (map_option (parseEventTopics lib) r))"

section \<open>Channels\<close>

record onvif_channel =
  oh_num :: int
  oh_name :: string
  oh_width :: int
  oh_height :: int
  oh_rtsp :: string
  oh_snapshot :: string

definition trailing_digits :: "string \<Rightarrow> string" where
  "trailing_digits s = rev (takeWhile is_digit (dropWhile is_blank (rev s)))"

definition chanNumFromSource :: "string \<Rightarrow> nat \<Rightarrow> int" where
  "chanNumFromSource source idx =
     (case atoi (trailing_digits source) of
        Some n \<Rightarrow> if n > 0 then n else int idx + 1
      | None \<Rightarrow> int idx + 1)"

definition getProfiles :: "agent_lib \<Rightarrow> world \<Rightarrow> onvif_client \<Rightarrow> string \<Rightarrow> onvif_profile list option io" where
  "getProfiles lib w c url =
     seq (soap_call lib w c url (onvif_ns ''media'' @ ''/GetProfiles'') (empty_call ''trt'' ''GetProfiles'' (onvif_ns ''media'')))
       (\<lambda>r. val (Option.bind r (parseOnvifProfiles lib)))"

definition getStreamURI :: "agent_lib \<Rightarrow> world \<Rightarrow> onvif_client \<Rightarrow> string \<Rightarrow> string \<Rightarrow> string option io" where
  "getStreamURI lib w c url token =
     seq (soap_call lib w c url (onvif_ns ''media'' @ ''/GetStreamUri'')
         (''<trt:GetStreamUri xmlns:trt='' @ quoted (onvif_ns ''media'') @ '' xmlns:tt='' @ quoted ''http://www.onvif.org/ver10/schema''
          @ ''><trt:StreamSetup><tt:Stream>RTP-Unicast</tt:Stream><tt:Transport><tt:Protocol>RTSP</tt:Protocol></tt:Transport></trt:StreamSetup><trt:ProfileToken>''
          @ xmlEscape token @ ''</trt:ProfileToken></trt:GetStreamUri>''))
       (\<lambda>r. val (Option.bind r (parseOnvifMediaUri lib)))"

definition getSnapshotURI :: "agent_lib \<Rightarrow> world \<Rightarrow> onvif_client \<Rightarrow> string \<Rightarrow> string \<Rightarrow> string option io" where
  "getSnapshotURI lib w c url token =
     seq (soap_call lib w c url (onvif_ns ''media'' @ ''/GetSnapshotUri'')
         (''<trt:GetSnapshotUri xmlns:trt='' @ quoted (onvif_ns ''media'') @ ''><trt:ProfileToken>'' @ xmlEscape token
          @ ''</trt:ProfileToken></trt:GetSnapshotUri>''))
       (\<lambda>r. val (Option.bind r (parseOnvifMediaUri lib)))"

definition source_key :: "onvif_profile \<Rightarrow> string" where
  "source_key p = (if op_source p = [] then op_token p else op_source p)"

fun discover_profiles ::
  "agent_lib \<Rightarrow> world \<Rightarrow> onvif_client \<Rightarrow> string \<Rightarrow> string list \<Rightarrow> onvif_channel list \<Rightarrow> onvif_profile list \<Rightarrow> onvif_channel list io" where
  "discover_profiles lib w c url seen out [] = val out"
| "discover_profiles lib w c url seen out (p # ps) =
     (if source_key p \<in> set seen then discover_profiles lib w c url seen out ps
      else seq (getStreamURI lib w c url (op_token p)) (\<lambda>stream. case stream of
             None \<Rightarrow> discover_profiles lib w c url (source_key p # seen) out ps
           | Some rtsp \<Rightarrow> seq (getSnapshotURI lib w c url (op_token p)) (\<lambda>snap.
               discover_profiles lib w c url (source_key p # seen)
                 (out @ [\<lparr>oh_num = chanNumFromSource (op_source p) (length out), oh_name = op_name p, oh_width = op_width p,
                          oh_height = op_height p, oh_rtsp = rtsp, oh_snapshot = (case snap of None \<Rightarrow> [] | Some s \<Rightarrow> s)\<rparr>]) ps)))"

text \<open>\<open>discover\<close>; \<open>None\<close> is an error.\<close>

definition onvif_discover :: "agent_lib \<Rightarrow> world \<Rightarrow> onvif_client \<Rightarrow> string \<Rightarrow> int \<Rightarrow> onvif_channel list option io" where
  "onvif_discover lib w c addr port =
     seq (mediaXAddr lib w c (onvifDeviceURL addr port)) (\<lambda>url. case url of
       None \<Rightarrow> val None
     | Some url \<Rightarrow> seq (getProfiles lib w c url) (\<lambda>ps. case ps of
         None \<Rightarrow> val None
       | Some ps \<Rightarrow> seq (discover_profiles lib w c url [] [] ps) (\<lambda>out. val (if out = [] then None else Some out))))"

section \<open>Where the credentials go\<close>

text \<open>What \<open>net/url\<close> promises: an address printed with another host has that host when it is parsed again,
  or none at all (an opaque address is printed without it); and the conventional address has its host.\<close>

definition url_laws :: "agent_lib \<Rightarrow> bool" where
  "url_laws lib = (\<forall>d v. ag_url lib d = Some v \<longrightarrow>
     (\<forall>raw u. ag_url lib (ag_with_host lib raw (up_host v)) = Some u \<longrightarrow> up_host u = up_host v \<or> up_host u = [])
     \<and> (\<forall>u. ag_url lib (''http://'' @ up_host v @ ''/onvif/media_service'') = Some u \<longrightarrow> up_host u = up_host v))"

lemma url_lawsD:
  assumes "url_laws lib" "ag_url lib d = Some v"
  shows "ag_url lib (ag_with_host lib raw (up_host v)) = Some u \<Longrightarrow> up_host u = up_host v \<or> up_host u = []"
    "ag_url lib (''http://'' @ up_host v @ ''/onvif/media_service'') = Some u \<Longrightarrow> up_host u = up_host v"
  using assms(1) [unfolded url_laws_def, rule_format, OF assms(2)] by blast+

text \<open>A query to the host \<open>h\<close>; without a host nothing is contacted.\<close>

definition to_host :: "agent_lib \<Rightarrow> string \<Rightarrow> http_query \<Rightarrow> bool" where
  "to_host lib h q = (\<exists>u. ag_url lib (hq_url q) = Some u \<and> (up_host u = h \<or> up_host u = []))"

definition home_url :: "agent_lib \<Rightarrow> string \<Rightarrow> string \<Rightarrow> bool" where
  "home_url lib h url = (\<forall>u. ag_url lib url = Some u \<longrightarrow> up_host u = h \<or> up_host u = [])"

lemma sends_home_ask: "home_url lib h (hq_url q) \<Longrightarrow> sends (to_host lib h) (ask lib w q)"
  by (cases "ag_url lib (hq_url q)") (auto simp: ask_def to_host_def home_url_def intro: sends_send)

lemma sends_soap_call: "home_url lib h url \<Longrightarrow> sends (to_host lib h) (soap_call lib w c url action inner)"
  unfolding soap_call_def Let_def
  by (intro sends_with_log sends_seq sends_case_option sends_if sends_val sends_home_ask) (simp_all add: soap_query_def)

lemma sends_service_url: "home_url lib h url \<Longrightarrow> sends (to_host lib h) (service_url lib w c url part cap fb f)"
  unfolding service_url_def getServices_def getCapabilities_def
  by (intro sends_seq sends_case_option sends_val sends_soap_call)

text \<open>The addresses a resolver returns are at home.\<close>

lemma rewritten_home:
  assumes "url_laws lib" "ag_url lib dev = Some d"
  shows "home_url lib (up_host d) (rewrite_host lib dev a)"
  unfolding home_url_def
proof (intro allI impI)
  fix u
  assume u: "ag_url lib (rewrite_host lib dev a) = Some u"
  show "up_host u = up_host d \<or> up_host u = []"
  proof (cases "ag_url lib a")
    case None
    with u show ?thesis by (simp add: rewrite_host_def)
  next
    case (Some v)
    with u assms(2) have "ag_url lib (ag_with_host lib a (up_host d)) = Some u" by (simp add: rewrite_host_def)
    then show ?thesis by (rule url_lawsD(1) [OF assms])
  qed
qed

lemma mediaXAddr_home:
  assumes "url_laws lib" "ag_url lib dev = Some d"
  shows "gives (\<lambda>r. case r of None \<Rightarrow> True | Some a \<Rightarrow> home_url lib (up_host d) a) (mediaXAddr lib w c dev)"
proof -
  have "home_url lib (up_host d) (''http://'' @ up_host d @ ''/onvif/media_service'')"
    unfolding home_url_def using url_lawsD(2) [OF assms] by blast
  with rewritten_home [OF assms] assms(2) show ?thesis
    unfolding mediaXAddr_def service_url_def by (intro gives_seq gives_case_option gives_val) simp_all
qed

lemma eventsXAddr_home:
  assumes "url_laws lib" "ag_url lib dev = Some d"
  shows "gives (\<lambda>a. a = [] \<or> home_url lib (up_host d) a) (eventsXAddr lib w c dev)"
  using rewritten_home [OF assms] unfolding eventsXAddr_def service_url_def
  by (intro gives_seq gives_case_option gives_val) simp_all

lemma sends_discover_profiles:
  "home_url lib h url \<Longrightarrow> sends (to_host lib h) (discover_profiles lib w c url seen out ps)"
proof (induction ps arbitrary: seen out)
  case (Cons p ps)
  note IH = Cons.IH [OF Cons.prems]
  show ?case unfolding discover_profiles.simps getStreamURI_def getSnapshotURI_def
    by (intro sends_if sends_seq sends_case_option sends_val sends_soap_call Cons.prems IH)
qed simp

lemma sends_onvif_discover:
  assumes "url_laws lib" "ag_url lib (onvifDeviceURL addr port) = Some d"
  shows "sends (to_host lib (up_host d)) (onvif_discover lib w c addr port)"
proof -
  have dev: "home_url lib (up_host d) (onvifDeviceURL addr port)" using assms(2) by (simp add: home_url_def)
  show ?thesis unfolding onvif_discover_def
  proof (rule sends_seq_gives [OF _ mediaXAddr_home [OF assms]])
    show "sends (to_host lib (up_host d)) (mediaXAddr lib w c (onvifDeviceURL addr port))"
      unfolding mediaXAddr_def by (rule sends_service_url [OF dev])
    show "sends (to_host lib (up_host d)) (case url of None \<Rightarrow> val None
        | Some url \<Rightarrow> seq (getProfiles lib w c url) (\<lambda>ps. case ps of None \<Rightarrow> val None
          | Some ps \<Rightarrow> seq (discover_profiles lib w c url [] [] ps) (\<lambda>out. val (if out = [] then None else Some out))))"
      if "case url of None \<Rightarrow> True | Some a \<Rightarrow> home_url lib (up_host d) a" for url
      using that unfolding getProfiles_def
      by (cases url) (auto intro!: sends_seq sends_case_option sends_soap_call sends_discover_profiles)
  qed
qed


text \<open>A plain library: addresses of the form \<open>http://host/path\<close>.\<close>

definition plain_url :: "string \<Rightarrow> url_parts option" where
  "plain_url s = (if has_prefix s ''http://''
     then Some \<lparr>up_scheme = ''http'', up_host = takeWhile (\<lambda>c. c \<noteq> CHR ''/'') (drop 7 s),
                up_hostname = takeWhile (\<lambda>c. c \<noteq> CHR '':'' \<and> c \<noteq> CHR ''/'') (drop 7 s),
                up_request = dropWhile (\<lambda>c. c \<noteq> CHR ''/'') (drop 7 s)\<rparr> else None)"

definition plain_lib :: agent_lib where
  "plain_lib = \<lparr>ag_url = plain_url, ag_with_host = (\<lambda>raw h. ''http://'' @ h @ dropWhile (\<lambda>c. c \<noteq> CHR ''/'') (drop 7 raw)),
     ag_tokens = (\<lambda>s. if s = ''services'' then [Start ''Envelope'' [], Start ''Body'' [], Start ''GetServicesResponse'' [], Start ''Service'' [],
         Start ''Namespace'' [], Chars (onvif_ns ''media''), End ''Namespace'', Start ''XAddr'' [], Chars ''http://evil/media'', End ''XAddr'',
         End ''Service'', End ''GetServicesResponse'', End ''Body'', End ''Envelope''] else []),
     ag_random = (\<lambda>_ n. replicate n 7), ag_created = (\<lambda>_. ''2026-01-01T00:00:00.000Z'')\<rparr>"

lemma plain_url_prefix: "plain_url (''http://'' @ s) = Some \<lparr>up_scheme = ''http'', up_host = takeWhile (\<lambda>c. c \<noteq> CHR ''/'') s,
    up_hostname = takeWhile (\<lambda>c. c \<noteq> CHR '':'' \<and> c \<noteq> CHR ''/'') s, up_request = dropWhile (\<lambda>c. c \<noteq> CHR ''/'') s\<rparr>"
  by (simp add: plain_url_def has_prefix_def)

lemma plain_host: "plain_url s = Some u \<Longrightarrow> takeWhile (\<lambda>c. c \<noteq> CHR ''/'') (up_host u @ r) = up_host u @ takeWhile (\<lambda>c. c \<noteq> CHR ''/'') r"
  by (auto simp: plain_url_def takeWhile_append dest: set_takeWhileD split: if_splits)

lemma takeWhile_dropWhile_same: "takeWhile P (dropWhile P s) = []"
  by (induction s) simp_all

lemma plain_laws: "url_laws plain_lib"
  unfolding url_laws_def plain_lib_def agent_lib.simps plain_url_prefix
  by (auto simp: plain_host takeWhile_dropWhile_same)


section \<open>Topics\<close>

text \<open>The topics of a tree: the paths of the elements marked as topics, outermost first.\<close>

fun topic_paths :: "string list \<Rightarrow> xml \<Rightarrow> string list" where
  "topic_paths p (El n a ks) = (if (''topic'', ''true'') \<in> set a then [slash_join (p @ [n])] else [])
     @ concat (map (topic_paths (p @ [n])) ks)"
| "topic_paths p (Tx _) = []"
| "topic_paths p (Cut _ _) = []"

fun plain_tree :: "xml \<Rightarrow> bool" where
  "plain_tree (El n _ ks) = (n \<noteq> ''TopicSet'' \<and> list_all plain_tree ks)"
| "plain_tree (Tx _) = True"
| "plain_tree (Cut _ _) = False"

definition add_new :: "string list \<Rightarrow> string \<Rightarrow> string list" where
  "add_new out x = (if x \<in> set out then out else out @ [x])"

lemma add_new_firsts: "foldl add_new [] xs = rev (remdups (rev xs))"
proof (induction xs rule: rev_induct)
  case (snoc x xs)
  have "set (foldl add_new [] xs) = set xs" using snoc by simp
  with snoc show ?case by (simp add: add_new_def)
qed simp

lemma topic_tokens:
  "plain_tree x \<Longrightarrow> foldl topic_step (path, True, out) (tokens_of x) = (path, True, foldl add_new out (topic_paths path x))"
proof (induction x arbitrary: path out)
  case (El n a ks)
  have ks: "foldl topic_step (q, True, o1) (concat (map tokens_of xs)) = (q, True, foldl add_new o1 (concat (map (topic_paths q) xs)))"
    if "set xs \<subseteq> set ks" for xs q o1
    using that
  proof (induction xs arbitrary: o1)
    case (Cons x xs)
    then have "plain_tree x" using El.prems by (auto simp: list_all_iff)
    with Cons El.IH [of x q o1] show ?case by simp
  qed simp
  from El.prems ks [of ks] show ?case by (simp add: add_new_def [of out])
qed simp_all

fun is_set :: "xml_token \<Rightarrow> bool" where
  "is_set (Start n _) = (n = ''TopicSet'')"
| "is_set (End n) = (n = ''TopicSet'')"
| "is_set (Chars _) = False"

lemma topic_outside: "list_all (\<lambda>t. \<not> is_set t) ts \<Longrightarrow> foldl topic_step (path, False, out) ts = (path, False, out)"
proof (induction ts)
  case (Cons t ts)
  then show ?case by (cases t) simp_all
qed simp

text \<open>The topics of an event service are those of its topic set: whatever surrounds the set in the
  answer, the result is the paths of the elements marked as topics, from the outside in, each once.\<close>

lemma topics_of_set:
  assumes "ag_tokens lib data = pre @ tokens_of (El ''TopicSet'' a ks) @ post" "list_all plain_tree ks"
    "list_all (\<lambda>t. \<not> is_set t) (pre @ post)"
  shows "parseEventTopics lib data = rev (remdups (rev (concat (map (topic_paths []) ks))))"
proof -
  have "foldl topic_step (q, True, o1) (concat (map tokens_of xs)) = (q, True, foldl add_new o1 (concat (map (topic_paths q) xs)))"
    if "list_all plain_tree xs" for xs q o1
    using that by (induction xs arbitrary: o1) (simp_all add: topic_tokens)
  note inner = this [OF assms(2), of "[]" "[]"]
  have "foldl topic_step ([], False, []) (ag_tokens lib data)
      = foldl topic_step ([], False, foldl add_new [] (concat (map (topic_paths []) ks))) post"
    using assms(3) inner by (simp add: assms(1) topic_outside)
  with assms(3) show ?thesis by (simp add: parseEventTopics_def topic_outside add_new_firsts)
qed

section \<open>Other properties\<close>

text \<open>Escaped text holds no markup, so a credential cannot leave its element.\<close>

lemma xmlEscape_no_markup: "set (xmlEscape s) \<inter> {CHR ''<'', CHR ''>'', CHR 0x22, CHR 0x27} = {}"
proof -
  have "set (xml_escape_char c) \<inter> {CHR ''<'', CHR ''>'', CHR 0x22, CHR 0x27} = {}" for c
    by (simp add: xml_escape_char_def)
  then show ?thesis by (auto simp: xmlEscape_def)
qed

text \<open>Two sources of one device can get the same channel number: the first has no number in its name and is
  given its position, the second is named with that number.\<close>

lemma channel_numbers_collide: "chanNumFromSource ''Front'' 0 = 1" "chanNumFromSource ''VideoSource_1'' 1 = 1"
  by code_simp+

text \<open>A challenge that offers a list of protections is answered with that list and the response of the
  older scheme, which is neither of the two.\<close>

lemma qop_list_not_understood:
  "param (parseDigestChallenge (''Digest realm='' @ quoted ''r'' @ '', nonce='' @ quoted ''n'' @ '', qop='' @ quoted ''auth,auth-int'')) ''qop''
     = ''auth,auth-int''"
  by code_simp

text \<open>An address a device supplies is fetched only over HTTP, and never at a link-local or unspecified
  address, such as the metadata service of a cloud.\<close>

lemma fetch_guard:
  "onvifFetchURLAllowed lib raw \<Longrightarrow> \<exists>u. ag_url lib raw = Some u \<and> up_scheme u \<in> {''http'', ''https''} \<and> up_hostname u \<noteq> []
     \<and> (\<forall>ip. ParseIP (up_hostname u) = Some ip \<longrightarrow> \<not> IsLinkLocalUnicast ip \<and> \<not> IsUnspecified ip)"
  by (auto simp: onvifFetchURLAllowed_def split: option.splits if_splits)

end
