(* ===== verification/Dvr_Discovery.thy ===== *)
theory Dvr_Discovery
  imports Dvr_Store Onvif
begin

text \<open>
  The rest of \<^verbatim>\<open>agent/surveillance.go\<close>: what the agent asks a recorder over the network. It identifies a
  device, guesses its protocol, finds the channels with a picture (ISAPI, Dahua, ONVIF or RTSP), merges and
  normalizes what was found, stores it (\<open>DiscoverChannels\<close>) and fetches snapshots. A request whose URL does
  not parse is a nil pointer in most of these functions, and the call panics (\<open>must_ask\<close>). Probing an RTSP
  address (\<open>gortsplib\<close>), running \<open>ffmpeg\<close> and printing an RTSP URL are parameters. The strings of a device
  are sequences of bytes, read as UTF-8 where the code ranges over runes.
\<close>

record dvr_env =
  de_lib :: agent_lib
  de_rtsp_url :: "string \<Rightarrow> string \<Rightarrow> string \<Rightarrow> string \<Rightarrow> string"
  de_rtsp_ok :: "string \<Rightarrow> bool"
  de_ffmpeg :: bool
  de_frame :: "string \<Rightarrow> string option"

datatype disc_error = Auth_Error | Other_Error

section \<open>Requests to a recorder\<close>

definition dvr_url :: "dvr_config \<Rightarrow> int \<Rightarrow> string \<Rightarrow> string" where
  "dvr_url d port path = ''http://'' @ dc_addr d @ '':'' @ itoa port @ path"

definition dvr_get :: "dvr_env \<Rightarrow> world \<Rightarrow> dvr_config \<Rightarrow> int \<Rightarrow> string \<Rightarrow> nat \<Rightarrow> http_answer option io" where
  "dvr_get e w d port path ms = must_ask (de_lib e) w (http_get (dvr_url d port path) (Basic (dc_username d) (dc_password d)) ms)"

section \<open>Documents\<close>

record device_info =
  di_analog :: int
  di_digital :: int
  di_serial :: string
  di_mac :: string

definition root_named :: "agent_lib \<Rightarrow> string \<Rightarrow> string \<Rightarrow> xml option" where
  "root_named lib n body = (case xml_whole lib body of Some x \<Rightarrow> if tag x = Some n then Some x else None | None \<Rightarrow> None)"

definition isAPIDeviceInfo :: "agent_lib \<Rightarrow> string \<Rightarrow> device_info option" where
  "isAPIDeviceInfo lib body =
     (case root_named lib ''DeviceInfo'' body of None \<Rightarrow> None
      | Some x \<Rightarrow> (case (int_field [''analogChannelNum''] x, int_field [''digitalChannelNum''] x) of
          (Some a, Some b) \<Rightarrow> Some \<lparr>di_analog = a, di_digital = b, di_serial = last_text [''serialNumber''] x,
              di_mac = last_text [''macAddress''] x\<rparr>
        | _ \<Rightarrow> None))"

definition isAPIChannel :: "xml \<Rightarrow> (int \<times> string) option" where
  "isAPIChannel c = (if bool_field_ok [''enabled''] c
     then map_option (\<lambda>i. (i, last_text [''channelName''] c)) (int_field [''id''] c) else None)"

definition isAPIChannelList :: "agent_lib \<Rightarrow> string \<Rightarrow> (int \<times> string) list option" where
  "isAPIChannelList lib body = Option.bind (root_named lib ''StreamingChannelList'' body)
     (\<lambda>x. those (map isAPIChannel (at_path [''StreamingChannel''] x)))"

definition isAPIVideoInput :: "xml \<Rightarrow> (int \<times> string) option" where
  "isAPIVideoInput c = map_option (\<lambda>i. (i, last_text [''inputPort'', ''name''] c)) (int_field [''id''] c)"

definition isAPIVideoInputList :: "agent_lib \<Rightarrow> string \<Rightarrow> (int \<times> string) list option" where
  "isAPIVideoInputList lib body = Option.bind (root_named lib ''VideoInputChannelList'' body)
     (\<lambda>x. those (map isAPIVideoInput (at_path [''VideoInputChannel''] x)))"

text \<open>The size of a stream, decoded with the error ignored: the fields set before it keep their values.\<close>

fun size_fields :: "xml list \<Rightarrow> int \<times> int \<Rightarrow> int \<times> int" where
  "size_fields [] v = v"
| "size_fields (x # xs) (wd, ht) =
     (if \<not> whole x then (wd, ht)
      else if tag x = Some ''videoResolutionWidth'' then (case int_text x of None \<Rightarrow> (wd, ht) | Some n \<Rightarrow> size_fields xs (n, ht))
      else if tag x = Some ''videoResolutionHeight'' then (case int_text x of None \<Rightarrow> (wd, ht) | Some n \<Rightarrow> size_fields xs (wd, n))
      else size_fields xs (wd, ht))"

definition isAPIVideoInfo :: "agent_lib \<Rightarrow> string \<Rightarrow> int \<times> int" where
  "isAPIVideoInfo lib body =
     (case xml_root lib body of None \<Rightarrow> (0, 0)
      | Some x \<Rightarrow> size_fields (concat (map (\<lambda>v. filter is_element (kids v)) (at_path [''Video''] x))) (0, 0))"

section \<open>Identity and protocol\<close>

text \<open>\<open>fetchDeviceIdentity\<close> checks the request it builds, so it never panics.\<close>

definition fetchDeviceIdentity :: "dvr_env \<Rightarrow> world \<Rightarrow> dvr_config \<Rightarrow> (string \<times> string) io" where
  "fetchDeviceIdentity e w d =
     (if dc_protocol d \<noteq> [] \<and> dc_protocol d \<noteq> ''isapi'' then val ([], [])
      else seq (ask (de_lib e) w (http_get (dvr_url d (dc_port d) ''/ISAPI/System/deviceInfo'') (Basic (dc_username d) (dc_password d)) 3000))
        (\<lambda>r. val (case Option.bind r (\<lambda>r. if ha_status r = 200 then Option.bind (ha_body r) (isAPIDeviceInfo (de_lib e)) else None) of
            None \<Rightarrow> ([], []) | Some i \<Rightarrow> (di_serial i, di_mac i))))"

definition answered :: "http_answer option \<Rightarrow> nat list \<Rightarrow> bool" where
  "answered r codes = (case r of None \<Rightarrow> False | Some r \<Rightarrow> ha_status r \<in> set codes)"

definition probeDVRProtocol :: "dvr_env \<Rightarrow> world \<Rightarrow> dvr_config \<Rightarrow> string io" where
  "probeDVRProtocol e w d =
     seq (dvr_get e w d (dc_port d) ''/ISAPI/System/deviceInfo'' 3000) (\<lambda>r.
       if answered r [200, 401, 403] then val ''isapi''
       else seq (dvr_get e w d (dc_port d) ''/cgi-bin/magicBox.cgi?action=getSystemInfo'' 3000) (\<lambda>r.
         if answered r [200, 401] then val ''dahua''
         else seq (probe (de_lib e) w \<lparr>oc_user = dc_username d, oc_pass = dc_password d, oc_timeout = 3000\<rparr> (onvifDeviceURL (dc_addr d) (dc_port d)))
           (\<lambda>ok. val (if ok then ''onvif'' else ''rtsp''))))"

section \<open>Finding channels\<close>

definition found_channel :: "dvr_config \<Rightarrow> int \<Rightarrow> string \<Rightarrow> int \<Rightarrow> int \<times> int \<Rightarrow> channel_config" where
  "found_channel d n name order sz = \<lparr>cc_id = 0, cc_dvr = dc_id d, cc_num = n, cc_name = name, cc_order = order, cc_enabled = False,
     cc_width = fst sz, cc_height = snd sz, cc_rtsp = [], cc_snapshot = [], cc_hires = False\<rparr>"

definition default_name :: "int \<Rightarrow> string" where
  "default_name n = ''Channel '' @ itoa n"

definition fetchChannelResolution :: "dvr_env \<Rightarrow> world \<Rightarrow> dvr_config \<Rightarrow> int \<Rightarrow> (int \<times> int) io" where
  "fetchChannelResolution e w d n =
     seq (dvr_get e w d (dc_port d) (''/ISAPI/Streaming/channels/'' @ itoa n @ ''01'') 10000) (\<lambda>r.
       let sz = (case r of None \<Rightarrow> (0, 0)
         | Some r \<Rightarrow> if ha_status r = 401 \<or> ha_status r = 403 then (1920, 1080)
                     else if ha_status r = 200 then isAPIVideoInfo (de_lib e) (case ha_body r of None \<Rightarrow> [] | Some b \<Rightarrow> b)
                     else (0, 0))
       in if fst sz = 0 \<or> snd sz = 0 then val (0, 0)
          else seq (dvr_get e w d (dc_port d) (''/ISAPI/Streaming/channels/'' @ itoa n @ ''02/picture'') 1500) (\<lambda>p.
            val (if answered p [200, 401, 403] then sz else (0, 0))))"

text \<open>One candidate: kept when it has a size.\<close>

definition try_channel :: "dvr_env \<Rightarrow> world \<Rightarrow> dvr_config \<Rightarrow> int \<times> string \<Rightarrow> channel_config list io" where
  "try_channel e w d c = seq (fetchChannelResolution e w d (fst c)) (\<lambda>sz.
     val (if fst sz = 0 \<or> snd sz = 0 then []
          else [found_channel d (fst c) (if snd c = [] then default_name (fst c) else snd c) (fst c - 1) sz]))"

definition try_channels :: "dvr_env \<Rightarrow> world \<Rightarrow> dvr_config \<Rightarrow> (int \<times> string) list \<Rightarrow> channel_config list io" where
  "try_channels e w d cs = seq (seq_map (try_channel e w d) cs) (\<lambda>rs. val (concat rs))"

text \<open>The three endpoints share the request and its errors; \<open>pick\<close> is what an answer yields.\<close>

definition isapi_list :: "dvr_env \<Rightarrow> world \<Rightarrow> dvr_config \<Rightarrow> string \<Rightarrow> (string \<Rightarrow> (int \<times> string) list option)
    \<Rightarrow> (disc_error + channel_config list) io" where
  "isapi_list e w d path pick =
     seq (dvr_get e w d (dc_port d) path 10000) (\<lambda>r.
       if answered r [401, 403] then val (Inl Auth_Error)
       else case Option.bind r (\<lambda>r. if ha_status r = 200 then Option.bind (ha_body r) pick else None) of
         None \<Rightarrow> val (Inl Other_Error)
       | Some cs \<Rightarrow> seq (try_channels e w d cs) (\<lambda>chs. val (Inr chs)))"

definition discoverISAPIDeviceInfo :: "dvr_env \<Rightarrow> world \<Rightarrow> dvr_config \<Rightarrow> (disc_error + channel_config list) io" where
  "discoverISAPIDeviceInfo e w d = isapi_list e w d ''/ISAPI/System/deviceInfo''
     (\<lambda>body. case isAPIDeviceInfo (de_lib e) body of None \<Rightarrow> None
        | Some i \<Rightarrow> if di_analog i + di_digital i = 0 then None
            else Some (map (\<lambda>n. (n, [])) [1..di_analog i + di_digital i]))"

fun stream_numbers :: "int list \<Rightarrow> (int \<times> string) list \<Rightarrow> (int \<times> string) list" where
  "stream_numbers seen [] = []"
| "stream_numbers seen ((i, name) # cs) =
     (let n = (if i \<ge> 100 then i div 100 else i)
      in if n = 0 \<or> n \<in> set seen then stream_numbers seen cs else (n, name) # stream_numbers (n # seen) cs)"

definition discoverISAPIStreaming :: "dvr_env \<Rightarrow> world \<Rightarrow> dvr_config \<Rightarrow> (disc_error + channel_config list) io" where
  "discoverISAPIStreaming e w d = isapi_list e w d ''/ISAPI/Streaming/channels''
     (\<lambda>body. map_option (stream_numbers []) (isAPIChannelList (de_lib e) body))"

definition discoverISAPIVideoInputs :: "dvr_env \<Rightarrow> world \<Rightarrow> dvr_config \<Rightarrow> (disc_error + channel_config list) io" where
  "discoverISAPIVideoInputs e w d = isapi_list e w d ''/ISAPI/System/Video/inputs/channels''
     (\<lambda>body. map_option (filter (\<lambda>c. fst c \<noteq> 0)) (isAPIVideoInputList (de_lib e) body))"

section \<open>Names\<close>

definition in_range :: "nat \<Rightarrow> nat \<Rightarrow> char \<Rightarrow> bool" where
  "in_range lo hi c = (lo \<le> char_val c \<and> char_val c \<le> hi)"

text \<open>The ranges of the second byte, and how many bytes follow it, for each first byte of a longer rune.\<close>

definition utf8_class :: "nat \<Rightarrow> (nat \<times> nat \<times> nat) option" where
  "utf8_class b = (if 0xC2 \<le> b \<and> b \<le> 0xDF then Some (0x80, 0xBF, 0)
     else if b = 0xE0 then Some (0xA0, 0xBF, 1) else if b = 0xED then Some (0x80, 0x9F, 1)
     else if 0xE1 \<le> b \<and> b \<le> 0xEF then Some (0x80, 0xBF, 1)
     else if b = 0xF0 then Some (0x90, 0xBF, 2) else if b = 0xF4 then Some (0x80, 0x8F, 2)
     else if 0xF1 \<le> b \<and> b \<le> 0xF3 then Some (0x80, 0xBF, 2) else None)"

definition replacement_rune :: string where
  "replacement_rune = [CHR 0xEF, CHR 0xBF, CHR 0xBD]"

text \<open>The encoding of the first rune, and how many bytes of the text it takes; an invalid byte is the
  replacement rune.\<close>

fun first_rune :: "string \<Rightarrow> string \<times> nat" where
  "first_rune [] = ([], 0)"
| "first_rune (c # s) =
     (if char_val c < 0x80 then ([c], 1)
      else case utf8_class (char_val c) of None \<Rightarrow> (replacement_rune, 1)
      | Some (lo, hi, k) \<Rightarrow>
          (case s of [] \<Rightarrow> (replacement_rune, 1)
           | b # t \<Rightarrow> if in_range lo hi b \<and> k \<le> length t \<and> list_all (in_range 0x80 0xBF) (take k t)
                     then (c # b # take k t, k + 2) else (replacement_rune, 1)))"

fun runes :: "nat \<Rightarrow> string \<Rightarrow> string list" where
  "runes 0 s = []"
| "runes (Suc n) s = (if s = [] then [] else fst (first_rune s) # runes n (drop (snd (first_rune s)) s))"

definition control_rune :: "string \<Rightarrow> bool" where
  "control_rune r = (case r of [c] \<Rightarrow> char_val c < 0x20 \<or> char_val c = 0x7F | _ \<Rightarrow> False)"

definition space_rune :: "string \<Rightarrow> bool" where
  "space_rune r = (case r of [c] \<Rightarrow> is_space c
     | [c, b] \<Rightarrow> char_val c = 0xC2 \<and> char_val b \<in> {0x85, 0xA0}
     | [c, b, a] \<Rightarrow> (char_val c, char_val b, char_val a) \<in> {(0xE1, 0x9A, 0x80), (0xE2, 0x81, 0x9F), (0xE3, 0x80, 0x80)}
         \<or> (char_val c, char_val b) = (0xE2, 0x80) \<and> (in_range 0x80 0x8A a \<or> char_val a \<in> {0xA8, 0xA9, 0xAF})
     | _ \<Rightarrow> False)"

definition trim_runes :: "string list \<Rightarrow> string list" where
  "trim_runes rs = rev (dropWhile space_rune (rev (dropWhile space_rune rs)))"

definition sanitizeChannelName :: "string \<Rightarrow> string" where
  "sanitizeChannelName name = concat (trim_runes (take 64 (filter (\<lambda>r. \<not> control_rune r) (runes (length name) name))))"

definition shouldReplaceChannelName :: "string \<Rightarrow> string \<Rightarrow> int \<Rightarrow> bool" where
  "shouldReplaceChannelName current candidate n =
     (if candidate = [] then False else if current = [] then True
      else current = default_name n \<and> candidate \<noteq> current)"

section \<open>Merging\<close>

definition merge_into :: "channel_config \<Rightarrow> channel_config \<Rightarrow> channel_config" where
  "merge_into ch x = x\<lparr>cc_name := (if shouldReplaceChannelName (cc_name x) (cc_name ch) (cc_num ch) then cc_name ch else cc_name x),
     cc_width := (if cc_width x = 0 \<and> cc_width ch > 0 then cc_width ch else cc_width x),
     cc_height := (if cc_height x = 0 \<and> cc_height ch > 0 then cc_height ch else cc_height x)\<rparr>"

text \<open>The map and the order of its keys, as the list of the merged channels.\<close>

definition merge_one :: "channel_config list \<Rightarrow> channel_config \<Rightarrow> channel_config list" where
  "merge_one out c =
     (let ch = c\<lparr>cc_name := sanitizeChannelName (cc_name c)\<rparr>
      in if cc_num c = 0 then out
         else if cc_num c \<in> cc_num ` set out then map (\<lambda>x. if cc_num x = cc_num c then merge_into ch x else x) out
         else out @ [ch])"

definition mergeChannelDiscovery :: "channel_config list list \<Rightarrow> channel_config list" where
  "mergeChannelDiscovery sets = foldl merge_one [] (concat sets)"

definition normalizeChannelDiscovery :: "channel_config list \<Rightarrow> channel_config list" where
  "normalizeChannelDiscovery chs =
     (let cs = take 32 (sort_key cc_num chs) in map2 (\<lambda>i c. c\<lparr>cc_order := i\<rparr>) [0..int (length cs) - 1] cs)"

section \<open>Discovery by protocol\<close>

definition found_list :: "disc_error + channel_config list \<Rightarrow> channel_config list" where
  "found_list r = (case r of Inl _ \<Rightarrow> [] | Inr chs \<Rightarrow> chs)"

definition discoverFromDVRISAPI :: "dvr_env \<Rightarrow> world \<Rightarrow> dvr_config \<Rightarrow> (disc_error + channel_config list) io" where
  "discoverFromDVRISAPI e w d =
     seq (discoverISAPIVideoInputs e w d) (\<lambda>a. seq (discoverISAPIStreaming e w d) (\<lambda>b. seq (discoverISAPIDeviceInfo e w d) (\<lambda>c.
       let merged = mergeChannelDiscovery [found_list a, found_list b, found_list c]
       in val (if merged = [] then Inl (if Inl Auth_Error \<in> {a, b, c} then Auth_Error else Other_Error)
               else Inr (normalizeChannelDiscovery merged)))))"

definition dahua_total :: "string \<Rightarrow> int" where
  "dahua_total body = (if contains_sub body ''maxTotal=32'' then 32 else if contains_sub body ''maxTotal=16'' then 16
     else if contains_sub body ''maxTotal=8'' then 8 else 4)"

definition verifyDahuaSnapshot :: "dvr_env \<Rightarrow> world \<Rightarrow> dvr_config \<Rightarrow> int \<Rightarrow> bool io" where
  "verifyDahuaSnapshot e w d n =
     seq (dvr_get e w d (dc_port d) (''/cgi-bin/snapshot.cgi?channel='' @ itoa n @ ''&subtype=2'') 1500)
       (\<lambda>r. val (answered r [200, 401, 403]))"

definition discoverFromDVRDahua :: "dvr_env \<Rightarrow> world \<Rightarrow> dvr_config \<Rightarrow> (disc_error + channel_config list) io" where
  "discoverFromDVRDahua e w d =
     seq (dvr_get e w d (dc_port d) ''/cgi-bin/magicBox.cgi?action=getSystemInfo'' 10000) (\<lambda>r.
       let n = (case r of None \<Rightarrow> 4 | Some r \<Rightarrow> dahua_total (case ha_body r of None \<Rightarrow> [] | Some b \<Rightarrow> b))
       in seq (seq_map (\<lambda>ch. seq (verifyDahuaSnapshot e w d ch) (\<lambda>ok. val (if ok then [found_channel d ch (default_name ch) (ch - 1) (0, 0)] else []))) [1..n])
            (\<lambda>rs. val (Inr (concat rs))))"

definition channelsFromFoundSet :: "dvr_config \<Rightarrow> (int \<Rightarrow> bool) \<Rightarrow> int \<Rightarrow> channel_config list" where
  "channelsFromFoundSet d found n = map (\<lambda>ch. found_channel d ch (default_name ch) (ch - 1) (0, 0)) (filter found [1..n])"

definition discoverFromDVRRTSP :: "dvr_env \<Rightarrow> dvr_config \<Rightarrow> (disc_error + channel_config list) io" where
  "discoverFromDVRRTSP e d =
     (let chs = channelsFromFoundSet d (\<lambda>ch. de_rtsp_ok e (de_rtsp_url e (dc_username d) (dc_password d)
            (dc_addr d @ '':'' @ itoa (dc_port d)) (''/Streaming/Channels/'' @ itoa ch @ ''01''))) 32
      in val (if chs = [] then Inl Other_Error else Inr chs))"

definition probeDVROnvifEvents :: "dvr_env \<Rightarrow> world \<Rightarrow> dvr_config \<Rightarrow> unit io" where
  "probeDVROnvifEvents e w d =
     (let c = \<lparr>oc_user = dc_username d, oc_pass = dc_password d, oc_timeout = 10000\<rparr>
      in seq (eventsXAddr (de_lib e) w c (onvifDeviceURL (dc_addr d) (dc_port d))) (\<lambda>url.
           if url = [] then val () else seq (getEventProperties (de_lib e) w c url) (\<lambda>_. val ())))"

definition onvif_row :: "dvr_config \<Rightarrow> onvif_channel \<Rightarrow> channel_config" where
  "onvif_row d ch = (found_channel d (oh_num ch) (oh_name ch) (oh_num ch - 1) (oh_width ch, oh_height ch))
     \<lparr>cc_rtsp := oh_rtsp ch, cc_snapshot := oh_snapshot ch\<rparr>"

definition discoverFromDVROnvif :: "dvr_env \<Rightarrow> world \<Rightarrow> dvr_config \<Rightarrow> (disc_error + channel_config list) io" where
  "discoverFromDVROnvif e w d =
     seq (onvif_discover (de_lib e) w \<lparr>oc_user = dc_username d, oc_pass = dc_password d, oc_timeout = 10000\<rparr> (dc_addr d) (dc_port d))
       (\<lambda>r. case r of None \<Rightarrow> val (Inl Other_Error)
          | Some chs \<Rightarrow> seq (probeDVROnvifEvents e w d) (\<lambda>_. val (Inr (map (onvif_row d) chs))))"

definition discoverWithProtocol :: "dvr_env \<Rightarrow> world \<Rightarrow> dvr_config \<Rightarrow> (disc_error + channel_config list) io" where
  "discoverWithProtocol e w d =
     (if dc_protocol d = ''rtsp'' then discoverFromDVRRTSP e d
      else if dc_protocol d = ''dahua'' then discoverFromDVRDahua e w d
      else if dc_protocol d = ''onvif'' then discoverFromDVROnvif e w d
      else discoverFromDVRISAPI e w d)"

section \<open>Discovering the channels of a recorder\<close>

datatype discovery = Panicked | Failed | Listed "channel_config list"

definition set_protocol :: "dvr_config \<Rightarrow> string \<Rightarrow> dvr_db \<Rightarrow> dvr_db" where
  "set_protocol d p s = fst (dv_exec (on_dvr (dc_id d) (\<lambda>d. d\<lparr>dc_protocol := p\<rparr>)) s)"

text \<open>The end: what was found is stored and listed.\<close>

definition finish_discovery :: "int \<Rightarrow> disc_error + channel_config list \<Rightarrow> dvr_db \<Rightarrow> dvr_db \<times> discovery" where
  "finish_discovery i r s = (case r of Inl _ \<Rightarrow> (s, Failed)
     | Inr chs \<Rightarrow> (case ListChannels i (notify (store_channels i (normalizeChannelDiscovery chs) s)) of
         (s', None) \<Rightarrow> (s', Failed) | (s', Some l) \<Rightarrow> (s', Listed l)))"

text \<open>The second attempt: another protocol is tried when the probe names one.\<close>

definition retry_discovery ::
  "dvr_env \<Rightarrow> world \<Rightarrow> int \<Rightarrow> dvr_config \<Rightarrow> disc_error + channel_config list \<Rightarrow> dvr_db \<Rightarrow> http_query list \<Rightarrow> (dvr_db \<times> discovery) \<times> http_query list" where
  "retry_discovery e w i d r s log =
     (case probeDVRProtocol e w d log of
        (None, log') \<Rightarrow> ((s, Panicked), log')
      | (Some p, log') \<Rightarrow>
          if p = dc_protocol d then (finish_discovery i r s, log')
          else let s' = set_protocol d p s
            in case discoverWithProtocol e w (d\<lparr>dc_protocol := p\<rparr>) log' of
                 (None, log2) \<Rightarrow> ((s', Panicked), log2)
               | (Some r', log2) \<Rightarrow> (finish_discovery i r' s', log2))"

definition run_discovery ::
  "dvr_env \<Rightarrow> world \<Rightarrow> int \<Rightarrow> dvr_config \<Rightarrow> dvr_db \<Rightarrow> http_query list \<Rightarrow> (dvr_db \<times> discovery) \<times> http_query list" where
  "run_discovery e w i d s log =
     (case discoverWithProtocol e w d log of
        (None, log') \<Rightarrow> ((s, Panicked), log')
      | (Some r, log') \<Rightarrow>
          if found_list r = [] \<and> dc_protocol d \<noteq> ''auto'' then retry_discovery e w i d r s log'
          else (finish_discovery i r s, log'))"

definition DiscoverChannels ::
  "dvr_env \<Rightarrow> world \<Rightarrow> int \<Rightarrow> dvr_db \<Rightarrow> http_query list \<Rightarrow> (dvr_db \<times> discovery) \<times> http_query list" where
  "DiscoverChannels e w i s log =
     (case getDVR i s of
        (s1, None) \<Rightarrow> ((s1, Failed), log)
      | (s1, Some d) \<Rightarrow>
          if dc_protocol d = ''auto'' \<or> dc_protocol d = [] then
            (case probeDVRProtocol e w d log of
               (None, log') \<Rightarrow> ((s1, Panicked), log')
             | (Some p, log') \<Rightarrow> run_discovery e w i (d\<lparr>dc_protocol := p\<rparr>) (set_protocol d p s1) log')
          else run_discovery e w i d s1 log)"

section \<open>Snapshots\<close>

definition picture :: "http_answer option \<Rightarrow> string option" where
  "picture r = Option.bind r (\<lambda>r. if ha_status r = 200 then ha_body r else None)"

definition stream_suffix :: "dvr_config \<Rightarrow> string" where
  "stream_suffix d = (if dc_quality d = ''main'' then ''01'' else ''02'')"

text \<open>\<open>fetchSnapshotISAPI\<close> and \<open>fetchSnapshotISAPIOnPort\<close>, which differ in the port and the client.\<close>

definition fetchSnapshotISAPI :: "dvr_env \<Rightarrow> world \<Rightarrow> dvr_config \<Rightarrow> int \<Rightarrow> int \<Rightarrow> nat \<Rightarrow> string option io" where
  "fetchSnapshotISAPI e w d n port ms =
     seq (dvr_get e w d port (''/ISAPI/Streaming/channels/'' @ itoa n @ stream_suffix d @ ''/picture'') ms) (\<lambda>r. val (picture r))"

definition fetchSnapshotDahua :: "dvr_env \<Rightarrow> world \<Rightarrow> dvr_config \<Rightarrow> int \<Rightarrow> string option io" where
  "fetchSnapshotDahua e w d n =
     seq (dvr_get e w d (dc_port d) (''/cgi-bin/snapshot.cgi?channel='' @ itoa n @ ''&subtype=''
            @ itoa (if dc_quality d = ''sub'' then 2 else 1)) 10000) (\<lambda>r. val (picture r))"

definition snapshot_uri :: "int \<Rightarrow> int \<Rightarrow> dvr_db \<Rightarrow> dvr_db \<times> string option" where
  "snapshot_uri i n s = (case dv_query (\<lambda>s. find (\<lambda>c. cc_dvr c = i \<and> cc_num c = n) (vd_channels s)) s of
      (s', Some (Some c)) \<Rightarrow> (s', Some (cc_snapshot c)) | (s', _) \<Rightarrow> (s', None))"

text \<open>\<open>fetchSnapshotOnvif\<close> after its query: the address the device supplied is guarded.\<close>

definition fetchSnapshotOnvif :: "dvr_env \<Rightarrow> world \<Rightarrow> dvr_config \<Rightarrow> string option \<Rightarrow> string option io" where
  "fetchSnapshotOnvif e w d uri = (case uri of None \<Rightarrow> val None
     | Some u \<Rightarrow> if u = [] then val None
         else if \<not> onvifFetchURLAllowed (de_lib e) u then val None
         else onvifHTTPGet (de_lib e) w 10000 u (dc_username d) (dc_password d))"

definition fetchSnapshotRTSP :: "dvr_env \<Rightarrow> dvr_config \<Rightarrow> int \<Rightarrow> string option" where
  "fetchSnapshotRTSP e d n = (if \<not> de_ffmpeg e then None
     else de_frame e (de_rtsp_url e (dc_username d) (dc_password d) (dc_addr d @ '':'' @ itoa (dc_port d))
            (''/Streaming/Channels/'' @ itoa n @ stream_suffix d)))"

definition FetchSnapshot :: "dvr_env \<Rightarrow> world \<Rightarrow> int \<Rightarrow> int \<Rightarrow> dvr_db \<Rightarrow> dvr_db \<times> string option io" where
  "FetchSnapshot e w i n s =
     (case getDVR i s of
        (s1, None) \<Rightarrow> (s1, val None)
      | (s1, Some d) \<Rightarrow>
          if dc_protocol d = ''rtsp'' then (s1, seq (fetchSnapshotISAPI e w d n 80 3000) (\<lambda>r. val (case r of
             Some p \<Rightarrow> Some p | None \<Rightarrow> fetchSnapshotRTSP e d n)))
          else if dc_protocol d = ''dahua'' then (s1, fetchSnapshotDahua e w d n)
          else if dc_protocol d = ''onvif'' then
            (case snapshot_uri (dc_id d) n s1 of (s2, u) \<Rightarrow> (s2, fetchSnapshotOnvif e w d u))
          else (s1, fetchSnapshotISAPI e w d n (dc_port d) 10000))"

section \<open>Recorders whose events are read\<close>

fun event_dvrs :: "dvr_config list \<Rightarrow> dvr_db \<Rightarrow> dvr_db \<times> (dvr_config \<times> int list) list" where
  "event_dvrs [] s = (s, [])"
| "event_dvrs (d # ds) s =
     (if \<not> EqualFold (dc_protocol d) ''isapi'' then event_dvrs ds s
      else case ListChannels (dc_id d) s of (s1, chs) \<Rightarrow>
        (case event_dvrs ds s1 of (s2, out) \<Rightarrow>
           (s2, case chs of Some (c # cs) \<Rightarrow> (d, map cc_num (c # cs)) # out | _ \<Rightarrow> out)))"

definition ISAPIEventDVRs :: "dvr_db \<Rightarrow> dvr_db \<times> (dvr_config \<times> int list) list" where
  "ISAPIEventDVRs s = (case ListDVRs s of (s1, None) \<Rightarrow> (s1, []) | (s1, Some ds) \<Rightarrow> event_dvrs ds s1)"

section \<open>Names are clean\<close>

definition is_rune :: "string \<Rightarrow> bool" where
  "is_rune r = (r \<noteq> [] \<and> (\<forall>t. first_rune (r @ t) = (r, length r)))"

lemma first_rune_is_rune: "is_rune (fst (first_rune (c # s)))"
proof -
  have rep: "is_rune replacement_rune"
    by (simp add: is_rune_def replacement_rune_def utf8_class_def in_range_def char_val_def)
  show ?thesis
  proof (cases "char_val c < 0x80")
    case True
    then show ?thesis by (simp add: is_rune_def)
  next
    case False
    show ?thesis
    proof (cases "utf8_class (char_val c)")
      case None
      with False rep show ?thesis by simp
    next
      case (Some x)
      obtain lo hi k where x: "x = (lo, hi, k)" by (cases x) auto
      show ?thesis
      proof (cases "\<exists>b t. s = b # t \<and> in_range lo hi b \<and> k \<le> length t \<and> list_all (in_range 0x80 0xBF) (take k t)")
        case True
        then obtain b t where s: "s = b # t" "in_range lo hi b" "k \<le> length t" "list_all (in_range 0x80 0xBF) (take k t)"
          by blast
        with False Some x show ?thesis by (simp add: is_rune_def)
      next
        case no: False
        have "fst (first_rune (c # s)) = replacement_rune"
          using False Some x no by (cases s) auto
        with rep show ?thesis by simp
      qed
    qed
  qed
qed

lemma runes_are_runes: "r \<in> set (runes n s) \<Longrightarrow> is_rune r"
proof (induction n arbitrary: s)
  case (Suc n)
  then show ?case by (cases s) (auto simp: first_rune_is_rune simp del: first_rune.simps)
qed simp

lemma runes_concat: "list_all is_rune rs \<Longrightarrow> length (concat rs) \<le> n \<Longrightarrow> runes n (concat rs) = rs"
proof (induction rs arbitrary: n)
  case Nil
  show ?case by (cases n) simp_all
next
  case (Cons r rs)
  from Cons.prems have r: "r \<noteq> []" "first_rune (r @ concat rs) = (r, length r)" by (simp_all add: is_rune_def)
  from r(1) Cons.prems obtain m where n: "n = Suc m" "length (concat rs) \<le> m"
    by (cases n; cases r) auto
  with r Cons show ?case by simp
qed

lemma trim_runes_set: "set (trim_runes rs) \<subseteq> set rs"
  by (auto simp: trim_runes_def dest!: set_dropWhileD)

lemma trim_runes_length: "length (trim_runes rs) \<le> length rs"
  unfolding trim_runes_def length_rev by (metis length_dropWhile_le length_rev order_trans)

definition clean_name :: "string \<Rightarrow> bool" where
  "clean_name s = (list_all (\<lambda>r. \<not> control_rune r) (runes (length s) s) \<and> length (runes (length s) s) \<le> 64)"

lemma sanitized_clean: "clean_name (sanitizeChannelName name)"
proof -
  let ?rs = "trim_runes (take 64 (filter (\<lambda>r. \<not> control_rune r) (runes (length name) name)))"
  have sub: "set ?rs \<subseteq> set (filter (\<lambda>r. \<not> control_rune r) (runes (length name) name))"
    by (rule order_trans [OF trim_runes_set set_take_subset])
  then have "list_all is_rune ?rs" using runes_are_runes by (auto simp: list_all_iff)
  from runes_concat [OF this order_refl]
  have r: "runes (length (sanitizeChannelName name)) (sanitizeChannelName name) = ?rs" by (simp add: sanitizeChannelName_def)
  have "length ?rs \<le> length (take 64 (filter (\<lambda>r. \<not> control_rune r) (runes (length name) name)))" by (rule trim_runes_length)
  also have "\<dots> \<le> 64" by simp
  finally show ?thesis unfolding clean_name_def r using sub by (auto simp: list_all_iff)
qed

section \<open>What a discovery finds\<close>

definition clean_list :: "channel_config list \<Rightarrow> bool" where
  "clean_list chs = (sorted_wrt (<) (map cc_num chs) \<and> length chs \<le> 32 \<and> map cc_order chs = [0..int (length chs) - 1]
     \<and> list_all (\<lambda>c. cc_num c \<noteq> 0 \<and> clean_name (cc_name c)) chs)"

definition merged_ok :: "channel_config list \<Rightarrow> bool" where
  "merged_ok out = (distinct (map cc_num out) \<and> list_all (\<lambda>c. cc_num c \<noteq> 0 \<and> clean_name (cc_name c)) out)"

lemma merge_one_ok:
  assumes "merged_ok out"
  shows "merged_ok (merge_one out c)"
proof (cases "cc_num c = 0 \<or> cc_num c \<notin> cc_num ` set out")
  case True
  with assms show ?thesis by (auto simp: merged_ok_def merge_one_def Let_def sanitized_clean)
next
  case False
  let ?f = "\<lambda>x. if cc_num x = cc_num c then merge_into (c\<lparr>cc_name := sanitizeChannelName (cc_name c)\<rparr>) x else x"
  have "cc_num (?f x) = cc_num x" "clean_name (cc_name x) \<Longrightarrow> clean_name (cc_name (?f x))" for x
    by (simp_all add: merge_into_def sanitized_clean)
  moreover from this(1) have "map cc_num (map ?f out) = map cc_num out" by simp
  moreover from calculation(1,2) assms have "list_all (\<lambda>c. cc_num c \<noteq> 0 \<and> clean_name (cc_name c)) (map ?f out)"
    unfolding merged_ok_def list.pred_map by (auto simp: list_all_iff)
  ultimately show ?thesis using assms False
    by (simp add: merged_ok_def merge_one_def Let_def del: map_map)
qed

lemma mergeChannelDiscovery_ok: "merged_ok (mergeChannelDiscovery sets)"
proof -
  have "merged_ok out \<Longrightarrow> merged_ok (foldl merge_one out cs)" for out cs
    by (induction cs arbitrary: out) (simp_all add: merge_one_ok)
  then show ?thesis by (simp add: mergeChannelDiscovery_def merged_ok_def)
qed

lemma map2_order:
  "length ks = length cs \<Longrightarrow> map cc_order (map2 (\<lambda>i c. c\<lparr>cc_order := i\<rparr>) ks cs) = ks"
  "length ks = length cs \<Longrightarrow> (\<And>i c. f (c\<lparr>cc_order := i\<rparr>) = f c) \<Longrightarrow> map f (map2 (\<lambda>i c. c\<lparr>cc_order := i\<rparr>) ks cs) = map f cs"
  by (induction ks cs rule: list_induct2) simp_all

lemma normalize_merged:
  assumes "merged_ok chs"
  shows "clean_list (normalizeChannelDiscovery chs)"
proof -
  let ?cs = "take 32 (sort_key cc_num chs)" and ?out = "normalizeChannelDiscovery chs"
  have out: "?out = map2 (\<lambda>i c. c\<lparr>cc_order := i\<rparr>) [0..int (length ?cs) - 1] ?cs" by (simp add: normalizeChannelDiscovery_def Let_def)
  have l: "length [0..int (length ?cs) - 1] = length ?cs" by simp
  note view = map2_order(2) [OF l, folded out]
  have "sorted_wrt (<) (map cc_num (sort_key cc_num chs))"
  proof (rule sorted_wrt_mono_rel [of _ "\<lambda>x y. x \<le> y \<and> x \<noteq> y"])
    have "distinct (map cc_num (sort_key cc_num chs))"
      using assms mset_eq_imp_distinct_iff [of "map cc_num (sort_key cc_num chs)" "map cc_num chs"]
      by (simp add: merged_ok_def)
    then show "sorted_wrt (\<lambda>x y. x \<le> y \<and> x \<noteq> y) (map cc_num (sort_key cc_num chs))"
      using sorted_sort_key [of cc_num chs] by (simp add: strict_sorted_iff flip: less_le)
  qed auto
  then have "sorted_wrt (<) (map cc_num ?cs)" by (metis sorted_wrt_take take_map)
  then have "sorted_wrt (<) (map cc_num ?out)" using view [of cc_num] by simp
  moreover have "list_all (\<lambda>c. cc_num c \<noteq> 0 \<and> clean_name (cc_name c)) ?out"
  proof -
    have "set ?cs \<subseteq> set chs" using set_take_subset [of 32 "sort_key cc_num chs"] by simp
    then have "list_all (\<lambda>x. fst x \<noteq> 0 \<and> clean_name (snd x)) (map (\<lambda>c. (cc_num c, cc_name c)) ?cs)"
      using assms by (auto simp: merged_ok_def list_all_iff)
    then have "list_all (\<lambda>x. fst x \<noteq> 0 \<and> clean_name (snd x)) (map (\<lambda>c. (cc_num c, cc_name c)) ?out)"
      using view [of "\<lambda>c. (cc_num c, cc_name c)"] by simp
    then show ?thesis by (simp add: list_all_iff)
  qed
  moreover have "length ?out = length ?cs" by (simp add: out)
  moreover have "map cc_order ?out = [0..int (length ?out) - 1]" using map2_order(1) [OF l, folded out] by (simp add: out)
  ultimately show ?thesis by (simp add: clean_list_def)
qed

text \<open>C29. What an ISAPI discovery returns is fit to be stored, whatever the device answers: the channel
  numbers are not zero and strictly increasing, there are at most 32, their orders count from zero, and
  the names hold no control characters and at most 64 runes.\<close>

theorem isapi_discovery_clean:
  "gives (\<lambda>r. case r of Inl _ \<Rightarrow> True | Inr chs \<Rightarrow> clean_list chs) (discoverFromDVRISAPI e w d)"
  unfolding discoverFromDVRISAPI_def Let_def
  by (intro gives_seq gives_val) (simp add: normalize_merged [OF mergeChannelDiscovery_ok] split: if_split)

section \<open>What a discovery stores\<close>

lemma frame_refreshed: "vd_channels s' = vd_channels s \<Longrightarrow> refreshed i (vd_channels s) (vd_channels s')"
  by (simp add: refreshed_refl)

lemma set_protocol_channels [simp]: "vd_channels (set_protocol d p s) = vd_channels s"
  by (simp add: set_protocol_def dv_exec_def on_dvr_def split_beta)

lemma getDVR_channels [simp]: "vd_channels (fst (getDVR i s)) = vd_channels s"
  by (simp add: getDVR_def split_beta split: option.split)

lemma ListChannels_channels [simp]: "vd_channels (fst (ListChannels i s)) = vd_channels s"
  by (simp add: ListChannels_def)

lemma finish_refreshed: "refreshed i (vd_channels s) (vd_channels (fst (finish_discovery i r s)))"
proof (cases r)
  case (Inr chs)
  have "vd_channels (fst (finish_discovery i r s)) = vd_channels (store_channels i (normalizeChannelDiscovery chs) s)"
    using Inr by (simp add: finish_discovery_def split_beta notify_def split: option.split)
  then show ?thesis by (simp add: discovery_keeps_rows)
qed (simp add: finish_discovery_def refreshed_refl)

lemma retry_refreshed: "refreshed i (vd_channels s) (vd_channels (fst (fst (retry_discovery e w i d r s log))))"
  using finish_refreshed [of i "set_protocol d p s" for p]
  by (auto simp: retry_discovery_def Let_def refreshed_refl finish_refreshed split: prod.split option.split)

lemma run_refreshed: "refreshed i (vd_channels s) (vd_channels (fst (fst (run_discovery e w i d s log))))"
  by (auto simp: run_discovery_def refreshed_refl finish_refreshed retry_refreshed split: prod.split option.split)

text \<open>A discovery never loses what the operator set: whatever the device answers, whether the protocol
  is probed again, whatever statements fail and even when it panics, every channel stays in its place with
  its id, number, name, order and switches, and the channels of other recorders do not change at all.\<close>

lemma discovery_keeps_settings:
  "refreshed i (vd_channels s) (vd_channels (fst (fst (DiscoverChannels e w i s log))))"
proof -
  obtain s1 d where g: "getDVR i s = (s1, d)" by fastforce
  then have c: "vd_channels s1 = vd_channels s" by (metis getDVR_channels fst_conv)
  have p: "vd_channels (set_protocol d p s1) = vd_channels s" for d p using c by simp
  show ?thesis
    using run_refreshed [of i s1] run_refreshed [of i "set_protocol d p s1" for d p] unfolding p c
    by (auto simp: DiscoverChannels_def g c refreshed_refl split: prod.split option.split)
qed

section \<open>Where the requests go\<close>

text \<open>A snapshot address that a device supplied is fetched, with the recorder's credentials, only when
  the guard allows it: nothing is sent to a link-local, cloud-metadata or unspecified address.\<close>

lemma snapshot_fetch_guarded:
  "sends (\<lambda>q. onvifFetchURLAllowed (de_lib e) (hq_url q)) (fetchSnapshotOnvif e w d uri)"
proof -
  have "sends (\<lambda>q. onvifFetchURLAllowed (de_lib e) (hq_url q)) (onvifHTTPGet (de_lib e) w ms u user pass)"
    if "onvifFetchURLAllowed (de_lib e) u" for ms u user pass
    unfolding onvifHTTPGet_def Let_def using that
    by (intro sends_seq sends_ask sends_case_option sends_if sends_val sends_with_log) (simp_all add: http_get_def)
  then show ?thesis unfolding fetchSnapshotOnvif_def
    by (intro sends_case_option sends_if sends_val) simp_all
qed

text \<open>A request that carries the credentials of a recorder to its own address and port.\<close>

definition own_query :: "dvr_config \<Rightarrow> http_query \<Rightarrow> bool" where
  "own_query d q = (has_prefix (hq_url q) (dvr_url d (dc_port d) []) \<and> hq_auth q = Basic (dc_username d) (dc_password d))"

lemma dvr_get_own: "sends (own_query d) (dvr_get e w d (dc_port d) path ms)"
  unfolding dvr_get_def by (rule sends_must_ask) (simp add: own_query_def http_get_def dvr_url_def has_prefix_iff)

lemma try_channels_own: "sends (own_query d) (try_channels e w d cs)"
  unfolding try_channels_def try_channel_def fetchChannelResolution_def Let_def
  by (intro sends_seq sends_seq_map sends_if sends_val dvr_get_own)

lemma isapi_own: "sends (own_query d) (discoverFromDVRISAPI e w d)"
  unfolding discoverFromDVRISAPI_def discoverISAPIVideoInputs_def discoverISAPIStreaming_def discoverISAPIDeviceInfo_def
    isapi_list_def Let_def
  by (intro sends_seq sends_if sends_case_option sends_val dvr_get_own try_channels_own)

section \<open>Corner cases\<close>

text \<open>An address that does not make a URL is a nil request, and the discovery panics.\<close>

lemma bad_address_panics:
  assumes "getDVR i s = (s1, Some d)" "dc_protocol d = ''isapi''"
    "ag_url (de_lib e) (dvr_url d (dc_port d) ''/ISAPI/System/Video/inputs/channels'') = None"
  shows "DiscoverChannels e w i s log = ((s1, Panicked), log)"
  using assms by (simp add: DiscoverChannels_def run_discovery_def discoverWithProtocol_def discoverFromDVRISAPI_def
      discoverISAPIVideoInputs_def isapi_list_def dvr_get_def must_ask_def http_get_def seq_def panic_def)

text \<open>A recorder that is switched off while its channels are discovered is taken for an RTSP one.\<close>

lemma silent_send: "send (\<lambda>_ _. None) q log = (Some None, log @ [q])"
  by (simp add: send_def)

lemma silent_ask:
  assumes "\<forall>u. ag_url lib u \<noteq> None"
  shows "must_ask lib (\<lambda>_ _. None) q log = (Some None, log @ [q])" "ask lib (\<lambda>_ _. None) q log = (Some None, log @ [q])"
  using assms by (simp_all add: must_ask_def ask_def silent_send del: not_None_eq)

lemma offline_probe:
  assumes "\<forall>u. ag_url (de_lib e) u \<noteq> None"
  shows "\<exists>log'. probeDVRProtocol e (\<lambda>_ _. None) d log = (Some ''rtsp'', log')"
  by (simp add: probeDVRProtocol_def dvr_get_def seq_def silent_ask [OF assms] answered_def probe_def soap_call_def
      with_log_def Let_def val_def)

lemma offline_becomes_rtsp:
  assumes "getDVR i s = (s1, Some d)" "dc_protocol d = ''isapi''" "vd_faults s1 = []" "\<forall>u. ag_url (de_lib e) u \<noteq> None"
    "\<forall>u. \<not> de_rtsp_ok e u"
  shows "fst (fst (DiscoverChannels e (\<lambda>_ _. None) i s log)) = on_dvr (dc_id d) (\<lambda>d. d\<lparr>dc_protocol := ''rtsp''\<rparr>) s1"
proof -
  have "\<exists>log'. discoverWithProtocol e (\<lambda>_ _. None) d log = (Some (Inl Other_Error), log')"
    using assms(2) by (simp add: discoverWithProtocol_def discoverFromDVRISAPI_def discoverISAPIVideoInputs_def
        discoverISAPIStreaming_def discoverISAPIDeviceInfo_def isapi_list_def dvr_get_def seq_def silent_ask [OF assms(4)]
        answered_def val_def Let_def mergeChannelDiscovery_def found_list_def)
  then obtain log1 where w: "discoverWithProtocol e (\<lambda>_ _. None) d log = (Some (Inl Other_Error), log1)" by blast
  obtain log2 where p: "probeDVRProtocol e (\<lambda>_ _. None) d log1 = (Some ''rtsp'', log2)"
    using offline_probe [OF assms(4)] by blast
  have r: "discoverWithProtocol e (\<lambda>_ _. None) (d\<lparr>dc_protocol := ''rtsp''\<rparr>) log2 = (Some (Inl Other_Error), log2)"
    using assms(5) by (simp add: discoverWithProtocol_def discoverFromDVRRTSP_def channelsFromFoundSet_def val_def Let_def)
  show ?thesis
    using assms(1-3) by (simp add: DiscoverChannels_def run_discovery_def w found_list_def retry_discovery_def p Let_def r
        finish_discovery_def set_protocol_def no_faults)
qed

end
