(* ===== verification/Isapi_Events.thy ===== *)
theory Isapi_Events
  imports Dvr_Discovery
begin

text \<open>
  \<^verbatim>\<open>agent/isapi_events.go\<close>: the events of a Hikvision recorder. The agent makes sure that motion is
  reported to the surveillance centre, then reads the alert stream for ever: it cuts the multipart body
  into lines, collects the lines of each notification, decodes it and hands it on. The conversion of a
  local time is a parameter (\<open>local\<close>, in milliseconds). Letters are lowered as in ASCII.
\<close>

record alert_event =
  ae_ch :: int
  ae_kind :: string
  ae_active :: bool
  ae_ts :: int

section \<open>Notifications\<close>

definition alertKind :: "string \<Rightarrow> string \<Rightarrow> string" where
  "alertKind eventType targetType =
     (let et = ToLower (TrimSpace eventType); tt = ToLower (TrimSpace targetType)
      in if et \<in> {''vmd'', ''motiondetection''} then
           (if tt = ''human'' then ''person'' else if tt = ''vehicle'' then ''vehicle'' else ''motion'')
         else if et = ''linedetection'' then ''linecross''
         else if et \<in> {''fielddetection'', ''regionentrance'', ''regionexiting'', ''intrusion''} then ''intrusion''
         else [])"

definition parseAlertEvent :: "agent_lib \<Rightarrow> (string \<Rightarrow> int option) \<Rightarrow> string \<Rightarrow> alert_event option" where
  "parseAlertEvent lib local block =
     (case xml_whole lib block of None \<Rightarrow> None
      | Some x \<Rightarrow> (case int_field [''channelID''] x of None \<Rightarrow> None
        | Some ch \<Rightarrow>
            if ch \<le> 0 then None
            else let kind = alertKind (last_text [''eventType''] x) (last_text [''targetType''] x)
              in if kind = [] then None
                 else Some \<lparr>ae_ch = ch, ae_kind = kind,
                   ae_active = EqualFold (TrimSpace (last_text [''eventState''] x)) ''active'',
                   ae_ts = (case local (TrimSpace (last_text [''dateTime''] x)) of None \<Rightarrow> 0 | Some t \<Rightarrow> t)\<rparr>))"

section \<open>The alert stream\<close>

definition newline :: char where "newline = CHR 0x0A"

text \<open>The lines a \<open>bufio.Scanner\<close> with a limit of one megabyte delivers: the last one needs no line break, a
  carriage return before the break is dropped, and a line that does not fit ends the scan.\<close>

definition dropCR :: "string \<Rightarrow> string" where
  "dropCR l = (if l \<noteq> [] \<and> last l = CHR 0x0D then butlast l else l)"

definition scan_limit :: nat where "scan_limit = 2 ^ 20"

definition raw_lines :: "string \<Rightarrow> string list" where
  "raw_lines s = (let ls = split_on newline s in if last ls = [] then butlast ls else ls)"

definition scan_lines :: "string \<Rightarrow> string list" where
  "scan_lines s = map dropCR (takeWhile (\<lambda>l. length l < scan_limit) (raw_lines s))"

definition alert_open :: string where "alert_open = ''<EventNotificationAlert''"
definition alert_close :: string where "alert_close = ''</EventNotificationAlert>''"

text \<open>The state of the loop: the buffer, whether a block is open, the blocks completed.\<close>

definition scan_step :: "string \<times> bool \<times> string list \<Rightarrow> string \<Rightarrow> string \<times> bool \<times> string list" where
  "scan_step st line = (case st of (buf, on, out) \<Rightarrow>
     let opens = contains_sub line alert_open;
         buf1 = (if opens then [] else buf);
         buf2 = buf1 @ line @ [newline]
     in if on \<or> opens then
          (if contains_sub line alert_close then (buf2, False, out @ [buf2]) else (buf2, True, out))
        else (buf1, False, out))"

definition alert_blocks :: "string list \<Rightarrow> string list" where
  "alert_blocks lines = snd (snd (foldl scan_step ([], False, []) lines))"

definition scanAlertStream :: "agent_lib \<Rightarrow> (string \<Rightarrow> int option) \<Rightarrow> string \<Rightarrow> alert_event list" where
  "scanAlertStream lib local body = List.map_filter (parseAlertEvent lib local) (alert_blocks (scan_lines body))"

section \<open>Requests\<close>

text \<open>The handshake of the stream and of the update: one challenge is answered. \<open>digestStreamGET\<close> gives up when
  it is no digest challenge, \<open>isapiPUT\<close> repeats the request without credentials.\<close>

definition plain_client :: "dvr_config \<Rightarrow> onvif_client" where
  "plain_client d = \<lparr>oc_user = dc_username d, oc_pass = dc_password d, oc_timeout = 10000\<rparr>"

definition digestStreamGET :: "agent_lib \<Rightarrow> world \<Rightarrow> dvr_config \<Rightarrow> string \<Rightarrow> string option io" where
  "digestStreamGET lib w d url =
     seq (ask lib w (http_get url No_Auth 10000)) (\<lambda>r. case r of
       None \<Rightarrow> val None
     | Some r \<Rightarrow>
         if ha_status r = 401 then with_log (\<lambda>log.
           let dh = digestAuth lib (plain_client d) (hex_encode (ag_random lib log 8)) ''GET'' url (ha_challenge r)
           in if dh = [] then val None
              else seq (ask lib w (http_get url (Header dh) 10000)) (\<lambda>r. val (picture r)))
         else val (picture (Some r)))"

definition put_query :: "string \<Rightarrow> string \<Rightarrow> http_auth \<Rightarrow> http_query" where
  "put_query url body auth = \<lparr>hq_method = ''PUT'', hq_url = url, hq_auth = auth, hq_type = ''application/xml'', hq_body = body,
     hq_timeout = 10000\<rparr>"

definition accepted :: "http_answer option \<Rightarrow> bool" where
  "accepted r = (case r of None \<Rightarrow> False | Some r \<Rightarrow> ha_status r = 200)"

definition isapiPUT :: "agent_lib \<Rightarrow> world \<Rightarrow> dvr_config \<Rightarrow> string \<Rightarrow> string \<Rightarrow> bool io" where
  "isapiPUT lib w d url body =
     seq (ask lib w (put_query url body No_Auth)) (\<lambda>r. case r of
       None \<Rightarrow> val False
     | Some r \<Rightarrow>
         if ha_status r = 401 then with_log (\<lambda>log.
           let dh = digestAuth lib (plain_client d) (hex_encode (ag_random lib log 8)) ''PUT'' url (ha_challenge r)
           in seq (ask lib w (put_query url body (if dh = [] then No_Auth else Header dh))) (\<lambda>r. val (accepted r)))
         else val (accepted (Some r)))"

section \<open>The linkage to the centre\<close>

definition center_mark :: string where
  "center_mark = ''<notificationmethod>center</notificationmethod>''"

definition list_close :: string where
  "list_close = ''</EventTriggerNotificationList>''"

definition center_note :: string where
  "center_note = ''<EventTriggerNotification><id>center</id><notificationMethod>center</notificationMethod></EventTriggerNotification>''"

definition has_center :: "string \<Rightarrow> bool" where
  "has_center body = contains_sub (ToLower body) center_mark"

text \<open>The first closing tag of the list is replaced; \<open>None\<close> when there is none.\<close>

definition add_center :: "string \<Rightarrow> string option" where
  "add_center body = (case find_sub body list_close of None \<Rightarrow> None
     | Some (a, b) \<Rightarrow> Some (a @ center_note @ list_close @ b))"

definition trigger_url :: "dvr_config \<Rightarrow> int \<Rightarrow> string" where
  "trigger_url d ch = dvr_url d (dc_port d) (''/ISAPI/Event/triggers/VMD-'' @ itoa ch)"

definition ensure_channel :: "agent_lib \<Rightarrow> world \<Rightarrow> dvr_config \<Rightarrow> int \<Rightarrow> unit io" where
  "ensure_channel lib w d ch =
     seq (onvifHTTPGet lib w 10000 (trigger_url d ch) (dc_username d) (dc_password d)) (\<lambda>r. case r of
       None \<Rightarrow> val ()
     | Some body \<Rightarrow> if has_center body then val ()
         else (case add_center body of None \<Rightarrow> val ()
           | Some out \<Rightarrow> seq (isapiPUT lib w d (trigger_url d ch) out) (\<lambda>_. val ())))"

definition isapiEnsureCenterLinkage :: "agent_lib \<Rightarrow> world \<Rightarrow> dvr_config \<Rightarrow> int list \<Rightarrow> unit io" where
  "isapiEnsureCenterLinkage lib w d chs = seq (seq_map (ensure_channel lib w d) chs) (\<lambda>_. val ())"

section \<open>The loop\<close>

datatype alert_step = Edge alert_event | Slept nat

text \<open>The rounds of the loop before it is stopped: a connection that fails is retried after \<open>backoff\<close> seconds.\<close>

fun alert_rounds :: "agent_lib \<Rightarrow> (string \<Rightarrow> int option) \<Rightarrow> world \<Rightarrow> dvr_config \<Rightarrow> nat \<Rightarrow> nat \<Rightarrow> alert_step list io" where
  "alert_rounds lib local w d 0 backoff = val []"
| "alert_rounds lib local w d (Suc n) backoff =
     seq (digestStreamGET lib w d (dvr_url d (dc_port d) ''/ISAPI/Event/notification/alertStream'')) (\<lambda>r. case r of
       None \<Rightarrow> seq (alert_rounds lib local w d n (if backoff < 30 then 2 * backoff else backoff)) (\<lambda>out. val (Slept backoff # out))
     | Some body \<Rightarrow> seq (alert_rounds lib local w d n 3) (\<lambda>out. val (map Edge (scanAlertStream lib local body) @ out)))"

definition isapiAlertLoop :: "agent_lib \<Rightarrow> (string \<Rightarrow> int option) \<Rightarrow> world \<Rightarrow> dvr_config \<Rightarrow> int list \<Rightarrow> nat \<Rightarrow> alert_step list io" where
  "isapiAlertLoop lib local w d chs n = seq (isapiEnsureCenterLinkage lib w d chs) (\<lambda>_. alert_rounds lib local w d n 3)"

section \<open>Cutting the stream\<close>

text \<open>A multipart body as the recorder sends it: lines around the notifications, and notifications of one or
  more lines, opened by their first and closed by their last.\<close>

datatype part = Around string | Alert "string list"

fun part_lines :: "part \<Rightarrow> string list" where
  "part_lines (Around l) = [l]"
| "part_lines (Alert ls) = ls"

definition block_ok :: "string list \<Rightarrow> bool" where
  "block_ok ls = (ls \<noteq> [] \<and> contains_sub (hd ls) alert_open \<and> contains_sub (last ls) alert_close
     \<and> list_all (\<lambda>l. \<not> contains_sub l alert_open) (tl ls) \<and> list_all (\<lambda>l. \<not> contains_sub l alert_close) (butlast ls))"

fun part_ok :: "part \<Rightarrow> bool" where
  "part_ok (Around l) = (\<not> contains_sub l alert_open)"
| "part_ok (Alert ls) = block_ok ls"

definition unlines :: "string list \<Rightarrow> string" where
  "unlines ls = concat (map (\<lambda>l. l @ [newline]) ls)"

fun part_block :: "part \<Rightarrow> string list" where
  "part_block (Around _) = []"
| "part_block (Alert ls) = [unlines ls]"

lemma scan_inside:
  assumes "list_all (\<lambda>l. \<not> contains_sub l alert_open) ls" "ls \<noteq> []" "contains_sub (last ls) alert_close"
    "list_all (\<lambda>l. \<not> contains_sub l alert_close) (butlast ls)"
  shows "foldl scan_step (buf, True, out) ls = (buf @ unlines ls, False, out @ [buf @ unlines ls])"
  using assms
proof (induction ls arbitrary: buf)
  case (Cons l ls)
  show ?case
  proof (cases "ls = []")
    case True
    with Cons.prems show ?thesis by (simp add: scan_step_def Let_def unlines_def)
  next
    case False
    with Cons.prems Cons.IH [of "buf @ l @ [newline]"] show ?thesis by (simp add: scan_step_def Let_def unlines_def)
  qed
qed simp

lemma scan_block: "block_ok ls \<Longrightarrow> \<exists>buf'. foldl scan_step (buf, False, out) ls = (buf', False, out @ [unlines ls])"
proof -
  assume b: "block_ok ls"
  then obtain l r where ls: "ls = l # r" by (cases ls) (auto simp: block_ok_def)
  show ?thesis
  proof (cases "r = []")
    case True
    with b ls show ?thesis by (simp add: block_ok_def scan_step_def Let_def unlines_def)
  next
    case False
    then have n: "\<not> contains_sub l alert_close" "contains_sub l alert_open" using b ls by (simp_all add: block_ok_def)
    have "foldl scan_step (l @ [newline], True, out) r = ((l @ [newline]) @ unlines r, False, out @ [(l @ [newline]) @ unlines r])"
      by (rule scan_inside) (use b ls False in \<open>simp_all add: block_ok_def\<close>)
    with n ls show ?thesis by (simp add: scan_step_def Let_def unlines_def)
  qed
qed

lemma scan_parts:
  "list_all part_ok ps \<Longrightarrow> snd (snd (foldl scan_step (buf, False, out) (concat (map part_lines ps)))) = out @ concat (map part_block ps)"
proof (induction ps arbitrary: buf out)
  case (Cons p ps)
  show ?case
  proof (cases p)
    case (Around l)
    with Cons show ?thesis by (simp add: scan_step_def Let_def)
  next
    case (Alert ls)
    with Cons.prems obtain buf' where "foldl scan_step (buf, False, out) ls = (buf', False, out @ [unlines ls])"
      using scan_block by fastforce
    with Alert Cons show ?thesis by simp
  qed
qed simp

lemma split_on_line: "c \<notin> set l \<Longrightarrow> split_on c (l @ c # r) = l # split_on c r"
  by (induction l) (auto split: list.split)

text \<open>The lines as they are sent, with \<open>eol\<close> at the end of each.\<close>

definition sent :: "string \<Rightarrow> string list \<Rightarrow> string" where
  "sent eol ls = concat (map (\<lambda>l. l @ eol) ls)"

lemma scan_sent:
  assumes "cr = [] \<or> cr = [CHR 0x0D]"
    "list_all (\<lambda>l. newline \<notin> set l \<and> CHR 0x0D \<notin> set l \<and> length l + 1 < scan_limit) ls"
  shows "scan_lines (sent (cr @ [newline]) ls) = ls"
proof -
  have "newline \<notin> set cr" using assms(1) by (auto simp: newline_def)
  then have "split_on newline (sent (cr @ [newline]) ls) = map (\<lambda>l. l @ cr) ls @ [[]]"
    using assms(2)
  proof (induction ls)
    case (Cons l ls)
    then show ?case using split_on_line [of newline "l @ cr"] by (simp add: sent_def)
  qed (simp add: sent_def)
  then have r: "raw_lines (sent (cr @ [newline]) ls) = map (\<lambda>l. l @ cr) ls" by (simp add: raw_lines_def)
  have "length cr \<le> 1" using assms(1) by auto
  then have "list_all (\<lambda>l. length l < scan_limit) (map (\<lambda>l. l @ cr) ls)"
    using assms(2) by (auto simp: list_all_iff)
  then have t: "takeWhile (\<lambda>l. length l < scan_limit) (map (\<lambda>l. l @ cr) ls) = map (\<lambda>l. l @ cr) ls"
    by (simp only: takeWhile_eq_all_conv list_all_iff)
  have "dropCR (l @ cr) = l" if "CHR 0x0D \<notin> set l" for l
  proof -
    have "l \<noteq> [] \<Longrightarrow> last l \<noteq> CHR 0x0D" using that by (metis last_in_set)
    with assms(1) show ?thesis by (auto simp: dropCR_def)
  qed
  with assms(2) have "map dropCR (map (\<lambda>l. l @ cr) ls) = ls"
    unfolding map_map by (intro map_idI) (auto simp: list_all_iff)
  then show ?thesis by (simp only: scan_lines_def r t)
qed

text \<open>C30. No alert is lost and none is made up: from a stream of notifications, with any lines before,
  between and after them that do not open one, exactly the notifications are decoded, each once, in their
  order, whichever line ends the device uses (as long as no line exceeds a megabyte).\<close>

theorem alert_stream_exact:
  assumes "list_all part_ok ps" "cr = [] \<or> cr = [CHR 0x0D]"
    "list_all (\<lambda>l. newline \<notin> set l \<and> CHR 0x0D \<notin> set l \<and> length l + 1 < scan_limit) (concat (map part_lines ps))"
  shows "scanAlertStream lib local (sent (cr @ [newline]) (concat (map part_lines ps)))
    = List.map_filter (parseAlertEvent lib local) (concat (map part_block ps))"
  using scan_parts [OF assms(1), of "[]" "[]"] by (simp add: scanAlertStream_def alert_blocks_def scan_sent [OF assms(2,3)])

definition toy_parts :: "part list" where
  "toy_parts = [Around ''--boundary'', Alert [''<EventNotificationAlert>'', ''x</EventNotificationAlert>''], Around ''--boundary'']"

definition alert_lib :: agent_lib where
  "alert_lib = plain_lib\<lparr>ag_tokens := (\<lambda>_. [Start ''EventNotificationAlert'' [], Start ''channelID'' [], Chars ''3'', End ''channelID'',
     Start ''eventType'' [], Chars ''VMD'', End ''eventType'', Start ''eventState'' [], Chars ''active'', End ''eventState'', End ''EventNotificationAlert''])\<rparr>"

theorem alert_stream_exact_witness:
  "scanAlertStream alert_lib (\<lambda>_. None) (sent ([CHR 0x0D] @ [newline]) (concat (map part_lines toy_parts)))
     = [\<lparr>ae_ch = 3, ae_kind = ''motion'', ae_active = True, ae_ts = 0\<rparr>]"
proof -
  have 1: "list_all part_ok toy_parts" by code_simp
  have 2: "list_all (\<lambda>l. newline \<notin> set l \<and> CHR 0x0D \<notin> set l \<and> length l + 1 < scan_limit) (concat (map part_lines toy_parts))"
    by (simp add: toy_parts_def scan_limit_def newline_def)
  have 3: "List.map_filter (parseAlertEvent alert_lib (\<lambda>_. None)) (concat (map part_block toy_parts))
      = [\<lparr>ae_ch = 3, ae_kind = ''motion'', ae_active = True, ae_ts = 0\<rparr>]" by code_simp
  show ?thesis using alert_stream_exact [OF 1 disjI2 [OF refl] 2, of alert_lib "\<lambda>_. None"] unfolding 3 .
qed

section \<open>The linkage is made once\<close>

lemma ToLower_append: "ToLower (a @ b) = ToLower a @ ToLower b"
  by (simp add: ToLower_def)

lemma center_note_marks: "contains_sub (ToLower center_note) center_mark"
  by code_simp

lemma added_center:
  assumes "add_center body = Some out"
  shows "has_center out"
proof -
  obtain a b where "out = a @ center_note @ b" using assms by (auto simp: add_center_def split: option.splits)
  with center_note_marks show ?thesis
    unfolding has_center_def contains_sub_iff by (metis ToLower_append append.assoc)
qed

text \<open>A device that stores what it is sent is not written to again.\<close>

lemma ensure_idempotent:
  assumes "add_center body = Some out" "ag_url lib (trigger_url d ch) \<noteq> None" "length out < 2 ^ 20"
    "\<forall>log q. w log q = Some \<lparr>ha_status = 200, ha_challenge = [], ha_body = Some out\<rparr>"
  shows "sends (\<lambda>q. hq_method q = ''GET'') (ensure_channel lib w d ch)"
proof -
  have g: "onvifHTTPGet lib w 10000 (trigger_url d ch) u p log = (Some (Some out), log @ [http_get (trigger_url d ch) No_Auth 10000])" for u p log
    using assms(2-4) by (simp add: onvifHTTPGet_def Let_def ask_def send_def seq_def val_def http_get_def)
  show ?thesis unfolding sends_def ensure_channel_def
    by (simp add: seq_def g added_center [OF assms(1)] val_def http_get_def)
qed

section \<open>The pauses of the loop\<close>

text \<open>The pause doubles from three seconds while the recorder does not answer, up to 48 seconds.\<close>

fun pauses :: "nat \<Rightarrow> nat \<Rightarrow> nat list" where
  "pauses 0 b = []"
| "pauses (Suc n) b = b # pauses n (if b < 30 then 2 * b else b)"

lemma silent_rounds:
  "fst (alert_rounds lib local (\<lambda>_ _. None) d n b log) = Some (map Slept (pauses n b))"
proof (induction n arbitrary: b log)
  case (Suc n)
  have "\<exists>log'. digestStreamGET lib (\<lambda>_ _. None) d url log = (Some None, log')" for url
    by (simp add: digestStreamGET_def seq_def ask_def send_def val_def)
  then obtain log' where g: "digestStreamGET lib (\<lambda>_ _. None) d (dvr_url d (dc_port d) ''/ISAPI/Event/notification/alertStream'') log = (Some None, log')"
    by blast
  obtain r log2 where r: "alert_rounds lib local (\<lambda>_ _. None) d n (if b < 30 then 2 * b else b) log' = (r, log2)" by fastforce
  with Suc [of "if b < 30 then 2 * b else b" log'] have "r = Some (map Slept (pauses n (if b < 30 then 2 * b else b)))" by simp
  with g r show ?case by (simp add: seq_def val_def)
qed (simp add: val_def)

lemma pauses_bounded: "b \<le> 48 \<Longrightarrow> list_all (\<lambda>p. p \<le> 48) (pauses n b)" if "b \<in> {3, 6, 12, 24, 48}"
  using that by (induction n arbitrary: b) auto

lemma first_pauses: "pauses 6 3 = [3, 6, 12, 24, 48, 48]"
  by (simp add: eval_nat_numeral)

text \<open>A recorder that accepts the connection and ends the stream at once is asked again without any pause.\<close>

lemma ended_stream_spins:
  assumes "\<forall>log q. w log q = Some \<lparr>ha_status = 200, ha_challenge = [], ha_body = Some []\<rparr>"
    "ag_url lib (dvr_url d (dc_port d) ''/ISAPI/Event/notification/alertStream'') \<noteq> None"
  shows "fst (alert_rounds lib local w d n b log) = Some [] \<and> length (snd (alert_rounds lib local w d n b log)) = length log + n"
proof (induction n arbitrary: b log)
  case (Suc n)
  let ?url = "dvr_url d (dc_port d) ''/ISAPI/Event/notification/alertStream''"
  have g: "digestStreamGET lib w d ?url log = (Some (Some []), log @ [http_get ?url No_Auth 10000])"
    using assms by (simp add: digestStreamGET_def seq_def ask_def send_def val_def picture_def http_get_def)
  have s: "scanAlertStream lib local [] = []"
    by (simp add: scanAlertStream_def scan_lines_def raw_lines_def alert_blocks_def List.map_filter_def)
  obtain r log2 where r: "alert_rounds lib local w d n 3 (log @ [http_get ?url No_Auth 10000]) = (r, log2)" by fastforce
  with Suc [of 3 "log @ [http_get ?url No_Auth 10000]"] show ?case by (simp add: seq_def g r val_def s)
qed (simp add: val_def)

end
