(* ===== verification/Agent_Core.thy ===== *)
theory Agent_Core
  imports Isapi_Events Hub_Watch
begin

text \<open>
  \<^verbatim>\<open>agent/agent.go\<close>: the site agent. It connects to the relay and claims the publisher slot, sends the
  surveillance configuration whenever it changes, sends screen frames, forwards the events of the
  recorders with a thumbnail, and carries out what the relay asks for (profiles, snapshots, edits of the
  channels, rediscovery). Its state holds the database, the connection, what was written to it, the
  outcomes of the writes to come (\<open>ga_failing\<close>) and the HTTP queries made so far. Goroutines that handle
  one message run at once, except the snapshot requests, which are bounded: \<open>ga_pending\<close> are those in
  flight. A panic in such a goroutine is recovered and leaves no answer. The JSON encoding, the recorders
  (\<open>dvr_env\<close>, \<open>world\<close>), the clock and the screen are parameters.
\<close>

section \<open>State\<close>

record agent_codec =
  gc_put_hello :: "hello \<Rightarrow> bytes"
  gc_put_auth :: "auth \<Rightarrow> bytes"
  gc_put_config :: "surv_config \<Rightarrow> bytes"
  gc_put_event :: "surv_event \<Rightarrow> bytes"
  gc_put_thumb :: "surv_event_thumb \<Rightarrow> bytes"
  gc_put_snap :: "snapshot_response \<Rightarrow> bytes"
  gc_error :: "bytes \<Rightarrow> error_msg option"
  gc_control :: "bytes \<Rightarrow> control option"
  gc_meta :: "bytes \<Rightarrow> surv_meta option"
  gc_agent_control :: "bytes \<Rightarrow> agent_control option"
  gc_snap_req :: "bytes \<Rightarrow> snapshot_request option"

record agent_cfg =
  gg_relay :: string
  gg_pin :: string
  gg_agent_id :: string
  gg_token :: string
  gg_version :: string
  gg_tile_size :: nat

text \<open>What surrounds the agent: the recorders, the network, and whether a recorder's port answers.\<close>

record site =
  si_codec :: agent_codec
  si_dvrs :: dvr_env
  si_world :: world
  si_reach :: "dvr_config \<Rightarrow> bool"
  si_failed :: string

record site_agent =
  ga_db :: "dvr_db option"
  ga_conn :: "nat option"
  ga_out :: "(nat \<times> bytes) list"
  ga_failing :: "bool list"
  ga_seq :: "32 word"
  ga_profile :: int
  ga_thumbs :: "(string \<times> int) list"
  ga_pending :: "bytes list"
  ga_log :: "http_query list"

definition NewAgent :: "dvr_db option \<Rightarrow> int \<Rightarrow> site_agent" where
  "NewAgent db profile = \<lparr>ga_db = db, ga_conn = None, ga_out = [], ga_failing = [], ga_seq = 0, ga_profile = profile,
     ga_thumbs = [], ga_pending = [], ga_log = []\<rparr>"

section \<open>The address of the relay\<close>

definition IsPrivate :: "nat list \<Rightarrow> bool" where
  "IsPrivate ip = (case To4 ip of
     Some (a, b, _) \<Rightarrow> a = 10 \<or> a = 172 \<and> b div 16 = 1 \<or> a = 192 \<and> b = 168
   | None \<Rightarrow> ip ! 0 div 512 = 126)"

definition isPlaintextPublicRelay :: "agent_lib \<Rightarrow> string \<Rightarrow> bool" where
  "isPlaintextPublicRelay lib relayURL =
     (case ag_url lib relayURL of None \<Rightarrow> False
      | Some u \<Rightarrow>
         if up_scheme u \<noteq> ''ws'' then False
         else case ParseIP (up_hostname u) of
           Some ip \<Rightarrow> \<not> (IsLoopback ip \<or> IsPrivate ip \<or> IsLinkLocalUnicast ip)
         | None \<Rightarrow> up_hostname u \<noteq> ''localhost'' \<and> up_hostname u \<noteq> [])"

section \<open>Writing to the relay\<close>

definition wsWrite :: "nat \<Rightarrow> bytes \<Rightarrow> site_agent \<Rightarrow> site_agent \<times> bool" where
  "wsWrite c msg a = (case ga_failing a of
     True # fs \<Rightarrow> (a\<lparr>ga_failing := fs\<rparr>, False)
   | fs \<Rightarrow> (a\<lparr>ga_out := ga_out a @ [(c, msg)], ga_failing := tl fs\<rparr>, True))"

text \<open>To the connection, when there is one; an error is only logged.\<close>

definition emit :: "message_type \<Rightarrow> bytes \<Rightarrow> site_agent \<Rightarrow> site_agent" where
  "emit t payload a = (case ga_conn a of None \<Rightarrow> a | Some c \<Rightarrow> fst (wsWrite c (MarshalMessage t payload) a))"

definition dvr_row :: "dvr_config \<Rightarrow> dvr_info" where
  "dvr_row d = \<lparr>dv_id = dc_id d, dv_name = dc_name d, dv_addr = dc_addr d, dv_port = dc_port d, dv_ext_addr = dc_ext_addr d,
     dv_ext_port = dc_ext_port d, dv_rtsp_port = 0, dv_username = dc_username d, dv_password = dc_password d,
     dv_refresh_rate = dc_refresh d, dv_stream_quality = dc_quality d, dv_protocol = dc_protocol d\<rparr>"

definition channel_row :: "channel_config \<Rightarrow> channel_info" where
  "channel_row c = \<lparr>ch_id = cc_id c, ch_dvr_id = cc_dvr c, ch_num = cc_num c, ch_name = cc_name c, ch_order = cc_order c,
     ch_enabled = cc_enabled c, ch_width = cc_width c, ch_height = cc_height c, ch_rtsp_uri = cc_rtsp c,
     ch_record_hires = cc_hires c\<rparr>"

fun config_rows :: "dvr_config list \<Rightarrow> dvr_db \<Rightarrow> surv_config \<Rightarrow> dvr_db \<times> surv_config" where
  "config_rows [] s cfg = (s, cfg)"
| "config_rows (d # ds) s cfg =
     (let cfg1 = cfg\<lparr>sc_dvrs := sc_dvrs cfg @ [dvr_row d]\<rparr>
      in case ListChannels (dc_id d) s of
           (s', None) \<Rightarrow> config_rows ds s' cfg1
         | (s', Some chs) \<Rightarrow> config_rows ds s' (cfg1\<lparr>sc_channels := sc_channels cfg1 @ map channel_row chs\<rparr>))"

definition empty_config :: surv_config where
  "empty_config = \<lparr>sc_dvrs = [], sc_channels = [], sc_agent_id = []\<rparr>"

definition sendSurvConfig :: "agent_codec \<Rightarrow> site_agent \<Rightarrow> site_agent" where
  "sendSurvConfig cd a =
     (case ga_db a of None \<Rightarrow> a
      | Some s \<Rightarrow> (case ListDVRs s of
          (s1, None) \<Rightarrow> a\<lparr>ga_db := Some s1\<rparr>
        | (s1, Some ds) \<Rightarrow> (case config_rows ds s1 empty_config of
            (s2, cfg) \<Rightarrow> emit MsgSurvConfig (gc_put_config cd cfg) (a\<lparr>ga_db := Some s2\<rparr>))))"

text \<open>An operation on the database; \<open>onChange\<close> sends the configuration.\<close>

definition with_db :: "agent_codec \<Rightarrow> (dvr_db \<Rightarrow> dvr_db) \<Rightarrow> site_agent \<Rightarrow> site_agent" where
  "with_db cd f a =
     (case ga_db a of None \<Rightarrow> a
      | Some s \<Rightarrow> let s' = f s; a' = a\<lparr>ga_db := Some s'\<rparr>
          in if vd_changes s' > vd_changes s then sendSurvConfig cd a' else a')"

section \<open>Connecting\<close>

definition hello_of :: "agent_cfg \<Rightarrow> site_agent \<Rightarrow> hello" where
  "hello_of g a = \<lparr>hl_role = ''publisher'', hl_agent_id = gg_agent_id g, hl_client = ''opsview-agent'',
     hl_client_version = gg_version g, hl_supports = [''zstd''],
     hl_want_profile = Some (if ga_profile a = 720 then ''720'' else ''1080'')\<rparr>"

definition auth_of :: "agent_cfg \<Rightarrow> auth" where
  "auth_of g = \<lparr>au_token = gg_token g, au_pin = gg_pin g\<rparr>"

text \<open>The two messages of the handshake.\<close>

definition hello_bytes :: "agent_codec \<Rightarrow> agent_cfg \<Rightarrow> site_agent \<Rightarrow> bytes" where
  "hello_bytes cd g a = MarshalMessage MsgHello (gc_put_hello cd (hello_of g a))"

definition auth_bytes :: "agent_codec \<Rightarrow> agent_cfg \<Rightarrow> bytes" where
  "auth_bytes cd g = MarshalMessage MsgAuth (gc_put_auth cd (auth_of g))"

definition rejected :: "agent_codec \<Rightarrow> bytes \<Rightarrow> bool" where
  "rejected cd data = (length data \<ge> HeaderSize \<and> (case DecodeHeader data of
      Inl _ \<Rightarrow> False | Inr hdr \<Rightarrow> h_type hdr = MsgError \<and> gc_error cd (drop HeaderSize data) \<noteq> None))"

text \<open>\<open>dialled\<close>: the connection, if the dial succeeds; \<open>reply\<close>: the first message of the relay within the deadline.\<close>

definition connect :: "agent_codec \<Rightarrow> agent_cfg \<Rightarrow> nat option \<Rightarrow> bytes option \<Rightarrow> site_agent \<Rightarrow> site_agent \<times> bool" where
  "connect cd g dialled reply a =
     (case dialled of None \<Rightarrow> (a, False)
      | Some c \<Rightarrow> (case wsWrite c (hello_bytes cd g a) a of
          (a1, False) \<Rightarrow> (a1, False)
        | (a1, True) \<Rightarrow> (case wsWrite c (auth_bytes cd g) a1 of
            (a2, False) \<Rightarrow> (a2, False)
          | (a2, True) \<Rightarrow> (case reply of
              None \<Rightarrow> (a2, False)
            | Some data \<Rightarrow> if rejected cd data then (a2, False)
                else (sendSurvConfig cd (a2\<lparr>ga_conn := Some c\<rparr>), True)))))"

definition closeConn :: "site_agent \<Rightarrow> site_agent" where
  "closeConn a = a\<lparr>ga_conn := None\<rparr>"

section \<open>Discovery and self-healing\<close>

text \<open>One discovery on the agent's database; False when it panicked.\<close>

definition rediscover :: "site \<Rightarrow> int \<Rightarrow> site_agent \<Rightarrow> site_agent \<times> bool" where
  "rediscover st i a =
     (case ga_db a of None \<Rightarrow> (a, True)
      | Some s \<Rightarrow> (case DiscoverChannels (si_dvrs st) (si_world st) i s (ga_log a) of
          ((s', r), log') \<Rightarrow> (with_db (si_codec st) (\<lambda>_. s') (a\<lparr>ga_log := log'\<rparr>), r \<noteq> Panicked)))"

fun rediscover_all :: "site \<Rightarrow> dvr_config list \<Rightarrow> site_agent \<Rightarrow> site_agent \<times> bool" where
  "rediscover_all st [] a = (a, True)"
| "rediscover_all st (d # ds) a = (case rediscover st (dc_id d) a of
     (a', True) \<Rightarrow> rediscover_all st ds a' | (a', False) \<Rightarrow> (a', False))"

definition reconnectAllDVRs :: "site \<Rightarrow> site_agent \<Rightarrow> site_agent" where
  "reconnectAllDVRs st a =
     (case ga_db a of None \<Rightarrow> a
      | Some s \<Rightarrow> (case ListDVRs s of
          (s', None) \<Rightarrow> a\<lparr>ga_db := Some s'\<rparr>
        | (s', Some ds) \<Rightarrow> (case rediscover_all st ds (a\<lparr>ga_db := Some s'\<rparr>) of
            (a', True) \<Rightarrow> sendSurvConfig (si_codec st) a' | (a', False) \<Rightarrow> a')))"

definition dvrReachable :: "site \<Rightarrow> dvr_config \<Rightarrow> bool" where
  "dvrReachable st d = (if dc_addr d = [] \<or> dc_port d \<le> 0 then False else si_reach st d)"

fun heal_each :: "site \<Rightarrow> dvr_config list \<Rightarrow> site_agent \<Rightarrow> site_agent" where
  "heal_each st [] a = a"
| "heal_each st (d # ds) a =
     (case ga_db a of None \<Rightarrow> a
      | Some s \<Rightarrow> (case ListChannels (dc_id d) s of
          (s', chs) \<Rightarrow>
            let a' = a\<lparr>ga_db := Some s'\<rparr>
            in if chs \<noteq> Some [] then heal_each st ds a'
               else if \<not> dvrReachable st d then heal_each st ds a'
               else case rediscover st (dc_id d) a' of (a2, True) \<Rightarrow> heal_each st ds a2 | (a2, False) \<Rightarrow> a2))"

definition healDVRs :: "site \<Rightarrow> site_agent \<Rightarrow> site_agent" where
  "healDVRs st a =
     (case ga_db a of None \<Rightarrow> a
      | Some s \<Rightarrow> (case ListDVRs s of
          (s', None) \<Rightarrow> a\<lparr>ga_db := Some s'\<rparr>
        | (s', Some ds) \<Rightarrow> heal_each st ds (a\<lparr>ga_db := Some s'\<rparr>)))"

section \<open>Messages of the relay\<close>

definition applySurvMeta :: "agent_codec \<Rightarrow> bytes \<Rightarrow> site_agent \<Rightarrow> site_agent" where
  "applySurvMeta cd payload a =
     (if ga_db a = None then a
      else case gc_meta cd payload of None \<Rightarrow> a
      | Some m \<Rightarrow>
         let a1 = foldl (\<lambda>a rn. with_db cd (\<lambda>s. fst (RenameChannel (sm_dvr_id m) (cr_ch_num rn) (cr_name rn) s)) a) a (sm_renames m);
             a2 = (if sm_order m \<noteq> [] then with_db cd (\<lambda>s. fst (ReorderChannels (sm_dvr_id m) (sm_order m) s)) a1 else a1)
         in foldl (\<lambda>a h. with_db cd (\<lambda>s. fst (SetChannelHiRes (sm_dvr_id m) (cx_ch_num h) (cx_on h) s)) a) a2 (sm_hires m))"

definition handleAgentControl :: "site \<Rightarrow> bytes \<Rightarrow> site_agent \<Rightarrow> site_agent" where
  "handleAgentControl st payload a = (case gc_agent_control (si_codec st) payload of
     None \<Rightarrow> a
   | Some c \<Rightarrow> if ac_action c = ''reconnect'' \<or> ac_action c = ''rediscover'' then reconnectAllDVRs st a else a)"

definition snapshot_slots :: nat where "snapshot_slots = 8"

definition readPump :: "site \<Rightarrow> bytes \<Rightarrow> site_agent \<Rightarrow> site_agent" where
  "readPump st data a =
     (if length data < HeaderSize then a
      else case DecodeHeader data of
        Inl _ \<Rightarrow> a
      | Inr hdr \<Rightarrow>
          let p = drop HeaderSize data; cd = si_codec st
          in if h_type hdr = MsgControl then
               (case gc_control cd p of None \<Rightarrow> a
                | Some c \<Rightarrow> if ct_cmd c = ''set_profile'' then a\<lparr>ga_profile := (if ct_profile c = ''720'' then 720 else 1080)\<rparr> else a)
             else if h_type hdr = MsgSurvMeta then applySurvMeta cd p a
             else if h_type hdr = MsgAgentControl then handleAgentControl st p a
             else if h_type hdr = MsgSurvSnapshot then
               (if length (ga_pending a) < snapshot_slots then a\<lparr>ga_pending := ga_pending a @ [p]\<rparr> else a)
             else a)"

text \<open>A snapshot request that is carried out: \<open>None\<close> is a panic, which leaves no answer. The text of an error is
  \<open>si_failed\<close>.\<close>

definition agent_snapshot :: "site \<Rightarrow> int \<Rightarrow> int \<Rightarrow> site_agent \<Rightarrow> site_agent \<times> string option option" where
  "agent_snapshot st i n a =
     (case ga_db a of None \<Rightarrow> (a, Some None)
      | Some s \<Rightarrow> (case FetchSnapshot (si_dvrs st) (si_world st) i n s of
          (s', m) \<Rightarrow> (case m (ga_log a) of (r, log') \<Rightarrow> (a\<lparr>ga_db := Some s', ga_log := log'\<rparr>, r))))"

definition handleSnapshotRequest :: "site \<Rightarrow> bytes \<Rightarrow> site_agent \<Rightarrow> site_agent" where
  "handleSnapshotRequest st payload a =
     (case gc_snap_req (si_codec st) payload of None \<Rightarrow> a
      | Some q \<Rightarrow> (case agent_snapshot st (sq_dvr_id q) (sq_ch_num q) a of
          (a', None) \<Rightarrow> a'
        | (a', Some r) \<Rightarrow> emit MsgSurvSnapshot (gc_put_snap (si_codec st)
            \<lparr>sr_req_id = sq_req_id q, sr_dvr_id = sq_dvr_id q, sr_ch_num = sq_ch_num q,
             sr_data = (case r of None \<Rightarrow> [] | Some d \<Rightarrow> std_encode (str_bytes d)),
             sr_error = (case r of None \<Rightarrow> if ga_db a = None then ''surveillance manager not initialized'' else si_failed st
                         | Some _ \<Rightarrow> [])\<rparr>) a'))"

text \<open>The \<open>k\<close>-th request in flight finishes and frees its slot.\<close>

definition finish_snapshot :: "site \<Rightarrow> nat \<Rightarrow> site_agent \<Rightarrow> site_agent" where
  "finish_snapshot st k a =
     (if k < length (ga_pending a)
      then handleSnapshotRequest st (ga_pending a ! k) (a\<lparr>ga_pending := take k (ga_pending a) @ drop (Suc k) (ga_pending a)\<rparr>)
      else a)"

section \<open>Events of the recorders\<close>

definition stream_name :: "int \<Rightarrow> int \<Rightarrow> string" where
  "stream_name i n = ''dvr'' @ itoa i @ ''_ch'' @ itoa n"

definition sendSurvEvent :: "agent_codec \<Rightarrow> string \<Rightarrow> alert_event \<Rightarrow> site_agent \<Rightarrow> site_agent" where
  "sendSurvEvent cd chID e = emit MsgSurvEvent (gc_put_event cd
     \<lparr>se_agent_id = [], se_ch_id = chID, se_kind = ae_kind e, se_active = ae_active e, se_ts = ae_ts e\<rparr>)"

definition eventThumbThrottle :: int where "eventThumbThrottle = 3000"

text \<open>The throttle: at \<open>now\<close> a thumbnail of \<open>chID\<close> is taken unless one was less than three seconds before.\<close>

definition thumb_due :: "int \<Rightarrow> string \<Rightarrow> site_agent \<Rightarrow> bool" where
  "thumb_due now chID a = (case map_of (ga_thumbs a) chID of None \<Rightarrow> True | Some prev \<Rightarrow> \<not> now - prev < eventThumbThrottle)"

definition sendEventThumb :: "site \<Rightarrow> int \<Rightarrow> int \<Rightarrow> int \<Rightarrow> int \<Rightarrow> site_agent \<Rightarrow> site_agent" where
  "sendEventThumb st now i n ts a =
     (let chID = stream_name i n
      in if ga_db a = None then a
         else if \<not> thumb_due now chID a then a
         else case agent_snapshot st i n (a\<lparr>ga_thumbs := AList.update chID now (ga_thumbs a)\<rparr>) of
           (a', Some (Some jpeg)) \<Rightarrow>
             if jpeg = [] then a'
             else emit MsgSurvEventThumb (gc_put_thumb (si_codec st)
                    \<lparr>st_agent_id = [], st_ch_id = chID, st_ts = ts, st_jpeg = str_bytes jpeg\<rparr>) a'
         | (a', _) \<Rightarrow> a')"

text \<open>What the event manager does with an edge of recorder \<open>i\<close>.\<close>

definition dvr_edge :: "site \<Rightarrow> int \<Rightarrow> int \<Rightarrow> alert_event \<Rightarrow> site_agent \<Rightarrow> site_agent" where
  "dvr_edge st now i e a =
     (let a' = sendSurvEvent (si_codec st) (stream_name i (ae_ch e)) e a
      in if ae_active e then sendEventThumb st now i (ae_ch e) (ae_ts e) a' else a')"

section \<open>The screen\<close>

definition sendHeartbeat :: "site_agent \<Rightarrow> site_agent" where
  "sendHeartbeat = emit MsgHeartbeat []"

text \<open>One turn of the capture loop: \<open>frame\<close> is what the screen delivers (\<open>None\<close>: an error), \<open>errs\<close> the errors in a
  row. The result says whether the loop goes on.\<close>

definition frame_of :: "agent_cfg \<Rightarrow> 64 word \<Rightarrow> tile list \<Rightarrow> int \<Rightarrow> int \<Rightarrow> site_agent \<Rightarrow> frame_delta" where
  "frame_of g ts tiles wd ht a = \<lparr>fd_seq = ga_seq a, fd_ts = ts, fd_profile = word_of_int (ga_profile a), fd_width = word_of_int wd,
     fd_height = word_of_int ht, fd_tile_size = word_of_nat (gg_tile_size g), fd_tile_count = word_of_nat (length tiles), fd_tiles = tiles\<rparr>"

definition capture_turn :: "agent_cfg \<Rightarrow> 64 word \<Rightarrow> (tile list \<times> int \<times> int) option \<Rightarrow> nat \<times> site_agent \<Rightarrow> (nat \<times> site_agent) \<times> bool" where
  "capture_turn g ts frame x = (case x of (errs, a) \<Rightarrow>
     (case frame of
        None \<Rightarrow> if errs + 1 > 10 then ((errs + 1, a), False) else ((errs + 1, a), True)
      | Some (tiles, wd, ht) \<Rightarrow>
          if tiles = [] then ((0, a), True)
          else let a1 = a\<lparr>ga_seq := ga_seq a + 1\<rparr>;
                   msg = MarshalMessage MsgFrameDelta (EncodeFrameDelta (frame_of g ts tiles wd ht a1))
            in case ga_conn a1 of
                 None \<Rightarrow> ((0, a1), False)
               | Some c \<Rightarrow> (case wsWrite c msg a1 of (a2, ok) \<Rightarrow> ((0, a2), ok))))"

fun capture_loop :: "agent_cfg \<Rightarrow> (64 word \<times> (tile list \<times> int \<times> int) option) list \<Rightarrow> nat \<times> site_agent \<Rightarrow> nat \<times> site_agent" where
  "capture_loop g [] x = x"
| "capture_loop g ((ts, frame) # fs) x = (case capture_turn g ts frame x of (x', True) \<Rightarrow> capture_loop g fs x' | (x', False) \<Rightarrow> x')"

section \<open>Reconnecting\<close>

definition backoffDurations :: "nat list" where
  "backoffDurations = [1, 2, 5, 10, 30]"

text \<open>The pause and the next index.\<close>

definition backoff :: "nat \<Rightarrow> nat \<times> nat" where
  "backoff idx = (backoffDurations ! idx, if idx < length backoffDurations - 1 then idx + 1 else idx)"

datatype attempt = No_Connection | No_Capturer | Ran

text \<open>The pauses of \<open>Run\<close>, for the outcomes of its attempts.\<close>

fun run_pauses :: "nat \<Rightarrow> attempt list \<Rightarrow> nat list" where
  "run_pauses idx [] = []"
| "run_pauses idx (No_Connection # rs) = fst (backoff idx) # run_pauses (snd (backoff idx)) rs"
| "run_pauses idx (No_Capturer # rs) = fst (backoff 0) # run_pauses (snd (backoff 0)) rs"
| "run_pauses idx (Ran # rs) = run_pauses 0 rs"

section \<open>The configuration the relay has\<close>

text \<open>What the relay should know: the recorders by id, and the channels of each in their order.\<close>

definition config_of :: "dvr_db \<Rightarrow> surv_config" where
  "config_of s = (let ds = sort_key dc_id (vd_dvrs s)
     in \<lparr>sc_dvrs = map dvr_row ds,
         sc_channels = concat (map (\<lambda>d. map channel_row (sort_key cc_order (filter (\<lambda>c. cc_dvr c = dc_id d) (vd_channels s)))) ds),
         sc_agent_id = []\<rparr>)"

text \<open>The last message on the connection is that configuration.\<close>

definition published :: "agent_codec \<Rightarrow> nat \<Rightarrow> site_agent \<Rightarrow> bool" where
  "published cd c a = (ga_conn a = Some c \<and> ga_failing a = [] \<and> (\<exists>s out. ga_db a = Some s \<and> vd_faults s = []
     \<and> ga_out a = out @ [(c, MarshalMessage MsgSurvConfig (gc_put_config cd (config_of s)))]))"

text \<open>A connected agent whose database and connection work.\<close>

definition healthy :: "nat \<Rightarrow> site_agent \<Rightarrow> bool" where
  "healthy c a = (ga_conn a = Some c \<and> ga_failing a = [] \<and> (\<exists>s. ga_db a = Some s \<and> vd_faults s = []))"

lemma published_healthy: "published cd c a \<Longrightarrow> healthy c a"
  by (auto simp: published_def healthy_def)

lemma config_rows_no_faults:
  "vd_faults s = [] \<Longrightarrow> config_rows ds s cfg = (s, cfg\<lparr>sc_dvrs := sc_dvrs cfg @ map dvr_row ds,
     sc_channels := sc_channels cfg @ concat (map (\<lambda>d. map channel_row (sort_key cc_order (filter (\<lambda>c. cc_dvr c = dc_id d) (vd_channels s)))) ds)\<rparr>)"
  by (induction ds arbitrary: cfg) (simp_all add: ListChannels_def no_faults Let_def)

lemma emit_healthy: "ga_conn a = Some c \<Longrightarrow> ga_failing a = [] \<Longrightarrow> emit t p a = a\<lparr>ga_out := ga_out a @ [(c, MarshalMessage t p)]\<rparr>"
  by (simp add: emit_def wsWrite_def)

lemma sendSurvConfig_healthy:
  assumes "ga_conn a = Some c" "ga_failing a = []" "ga_db a = Some s" "vd_faults s = []"
  shows "sendSurvConfig cd a = a\<lparr>ga_out := ga_out a @ [(c, MarshalMessage MsgSurvConfig (gc_put_config cd (config_of s)))]\<rparr>"
  using assms by (simp add: sendSurvConfig_def ListDVRs_def no_faults config_rows_no_faults emit_healthy empty_config_def config_of_def Let_def)

lemma with_db_published:
  assumes "healthy c a" "\<And>s. vd_faults s = [] \<Longrightarrow> vd_faults (f s) = [] \<and> vd_changes (f s) > vd_changes s"
  shows "published cd c (with_db cd f a)"
proof -
  obtain s where s: "ga_conn a = Some c" "ga_failing a = []" "ga_db a = Some s" "vd_faults s = []"
    using assms(1) by (auto simp: healthy_def)
  then show ?thesis using assms(2) [OF s(4)]
    by (simp add: with_db_def Let_def sendSurvConfig_healthy published_def)
qed

lemma rename_changes: "vd_faults s = [] \<Longrightarrow> vd_faults (fst (RenameChannel i n x s)) = [] \<and> vd_changes (fst (RenameChannel i n x s)) > vd_changes s"
  by (simp add: RenameChannel_def dv_change_def no_faults notify_def on_channel_def)

lemma hires_changes: "vd_faults s = [] \<Longrightarrow> vd_faults (fst (SetChannelHiRes i n x s)) = [] \<and> vd_changes (fst (SetChannelHiRes i n x s)) > vd_changes s"
  by (simp add: SetChannelHiRes_def dv_change_def no_faults notify_def on_channel_def)

lemma foldl_keeps:
  assumes "\<And>s x. x \<in> set xs \<Longrightarrow> vd_faults (g s x) = vd_faults s \<and> vd_changes (g s x) = vd_changes s"
  shows "vd_faults (foldl g s xs) = vd_faults s \<and> vd_changes (foldl g s xs) = vd_changes s"
  using assms by (induction xs arbitrary: s) simp_all

lemma reorder_changes:
  assumes "vd_faults s = []"
  shows "vd_faults (fst (ReorderChannels i ns s)) = [] \<and> vd_changes (fst (ReorderChannels i ns s)) > vd_changes s"
proof -
  let ?fs = "map (\<lambda>(k, n). on_channel i n (\<lambda>c. c\<lparr>cc_order := k\<rparr>)) (zip (map int [0..<length ns]) ns)"
  have e: "dv_exec id # map (\<lambda>(k, n). dv_exec (on_channel i n (\<lambda>c. c\<lparr>cc_order := k\<rparr>))) (zip (map int [0..<length ns]) ns) @ [dv_exec id]
      = map dv_exec (id # ?fs @ [id])"
    by (simp add: split_beta)
  have r: "run_all (map dv_exec (id # ?fs @ [id])) s = (foldl (\<lambda>s f. f s) s (id # ?fs @ [id]), True)"
    by (rule run_all_no_faults [OF assms]) (auto simp: on_channel_def)
  have "vd_faults (foldl (\<lambda>s f. f s) s (id # ?fs @ [id])) = vd_faults s \<and> vd_changes (foldl (\<lambda>s f. f s) s (id # ?fs @ [id])) = vd_changes s"
    by (rule foldl_keeps) (auto simp: on_channel_def)
  then show ?thesis using assms
    unfolding ReorderChannels_def transaction_def e r by (simp add: notify_def)
qed

lemma fold_edits_published:
  assumes "healthy c a" "\<And>x s. vd_faults s = [] \<Longrightarrow> vd_faults (f x s) = [] \<and> vd_changes (f x s) > vd_changes s"
  shows "healthy c (foldl (\<lambda>a x. with_db cd (f x) a) a xs)
     \<and> (xs \<noteq> [] \<or> published cd c a \<longrightarrow> published cd c (foldl (\<lambda>a x. with_db cd (f x) a) a xs))"
  using assms(1)
proof (induction xs arbitrary: a)
  case (Cons x xs)
  have p: "published cd c (with_db cd (f x) a)" by (rule with_db_published [OF Cons.prems assms(2)])
  from Cons.IH [OF published_healthy [OF p]] p show ?case by simp
qed simp

text \<open>C32. An edit made on the dashboard reaches every viewer: after a relayed edit of names, order or
  recording quality is applied, the last message on the connection is the configuration the database now
  holds, whatever it held before and however many edits the message makes.\<close>

theorem edits_are_published:
  assumes "healthy c a" "gc_meta cd payload = Some m" "sm_renames m \<noteq> [] \<or> sm_order m \<noteq> [] \<or> sm_hires m \<noteq> []"
  shows "published cd c (applySurvMeta cd payload a)"
proof -
  define a1 where "a1 = foldl (\<lambda>a rn. with_db cd (\<lambda>s. fst (RenameChannel (sm_dvr_id m) (cr_ch_num rn) (cr_name rn) s)) a) a (sm_renames m)"
  define a2 where "a2 = (if sm_order m \<noteq> [] then with_db cd (\<lambda>s. fst (ReorderChannels (sm_dvr_id m) (sm_order m) s)) a1 else a1)"
  define a3 where "a3 = foldl (\<lambda>a h. with_db cd (\<lambda>s. fst (SetChannelHiRes (sm_dvr_id m) (cx_ch_num h) (cx_on h) s)) a) a2 (sm_hires m)"
  have 1: "healthy c a1 \<and> (sm_renames m \<noteq> [] \<or> published cd c a \<longrightarrow> published cd c a1)"
    unfolding a1_def by (rule fold_edits_published [OF assms(1) rename_changes])
  have o: "published cd c (with_db cd (\<lambda>s. fst (ReorderChannels (sm_dvr_id m) (sm_order m) s)) a1)"
    by (rule with_db_published [OF conjunct1 [OF 1] reorder_changes])
  have 2: "healthy c a2 \<and> (sm_renames m \<noteq> [] \<or> sm_order m \<noteq> [] \<longrightarrow> published cd c a2)"
  proof (cases "sm_order m = []")
    case True
    then have "a2 = a1" by (simp add: a2_def)
    with 1 True show ?thesis by blast
  next
    case False
    then have "a2 = with_db cd (\<lambda>s. fst (ReorderChannels (sm_dvr_id m) (sm_order m) s)) a1" by (simp add: a2_def)
    with o published_healthy [OF o] show ?thesis by simp
  qed
  have 3: "sm_hires m \<noteq> [] \<or> published cd c a2 \<longrightarrow> published cd c a3"
    unfolding a3_def
    by (rule conjunct2 [OF fold_edits_published [where f = "\<lambda>h s. fst (SetChannelHiRes (sm_dvr_id m) (cx_ch_num h) (cx_on h) s)",
          OF conjunct1 [OF 2] hires_changes]])
  have "ga_db a \<noteq> None" using assms(1) by (auto simp: healthy_def)
  then have "applySurvMeta cd payload a = a3"
    using assms(2) by (simp only: applySurvMeta_def option.case Let_def if_False a1_def a2_def a3_def)
  with 2 3 assms(3) show ?thesis by metis
qed

section \<open>Agent and relay\<close>

lemma agent_authenticates:
  assumes "js_hello (rl_codec rl) (gc_put_hello cd (hello_of g a)) = Some (hello_of g a)"
    "js_auth (rl_codec rl) (gc_put_auth cd (auth_of g)) = Some (auth_of g)"
    "lookup reg (gg_agent_id g) = Some entry" "ae_token entry = gg_token g" "gg_token g \<noteq> []" "gg_pin g \<noteq> []"
  shows "authenticatePublisher rl reg (Some (hello_bytes cd g a)) (Some (auth_bytes cd g)) = Inr (hello_of g a, auth_of g)"
  using assms by (simp add: authenticatePublisher_def readHelloAuth_def hello_bytes_def auth_bytes_def hello_of_def auth_of_def
      validPublisherToken_def)

text \<open>C33. An agent with the right token gets in: when the relay decodes what the agent encodes, the agent
  is registered with its token and its slot and PIN are free, the two messages \<open>connect\<close> writes make the
  relay claim the slot of that agent under that PIN, and its answer makes \<open>connect\<close> succeed.\<close>

theorem agent_admitted:
  assumes "js_hello (rl_codec rl) (gc_put_hello cd (hello_of g a)) = Some (hello_of g a)"
    "js_auth (rl_codec rl) (gc_put_auth cd (auth_of g)) = Some (auth_of g)"
    "lookup (hb_registry h) (gg_agent_id g) = Some entry" "ae_token entry = gg_token g" "gg_token g \<noteq> []" "gg_pin g \<noteq> []"
    "hub_ok h" "slot_free h (ae_id entry) (gg_pin g)" "ga_failing a = []"
    "HandlePublish rl now conn (Some (hello_bytes cd g a)) (Some (auth_bytes cd g)) h = (h', res)"
  shows "res = Some (ae_id entry)
    \<and> (\<exists>s. sessionByID (ae_id entry) h' = Some s \<and> as_publisher s = Some conn \<and> as_pin s = gg_pin g)
    \<and> (let (a', ok) = connect cd g (Some c) (Some (MarshalMessage MsgReady [])) a
       in ok \<and> ga_conn a' = Some c \<and> take 2 (drop (length (ga_out a)) (ga_out a')) = [(c, hello_bytes cd g a), (c, auth_bytes cd g)])"
proof -
  have r: "res = Some (ae_id entry)"
    and s: "\<exists>s. sessionByID (ae_id entry) h' = Some s \<and> as_publisher s = Some conn \<and> as_pin s = gg_pin g"
    using HandlePublish_authenticated [OF assms(7) agent_authenticates [OF assms(1-6)] _ assms(10)] assms(3,8)
    by (auto simp: hello_of_def auth_of_def)
  let ?a2 = "a\<lparr>ga_out := ga_out a @ [(c, hello_bytes cd g a), (c, auth_bytes cd g)], ga_failing := [], ga_conn := Some c\<rparr>"
  have "connect cd g (Some c) (Some (MarshalMessage MsgReady [])) a = (sendSurvConfig cd ?a2, True)"
    using assms(9) by (simp add: connect_def wsWrite_def rejected_def mk_header_def MsgReady_def MsgError_def)
  moreover have "ga_conn (sendSurvConfig cd ?a2) = Some c \<and> (\<exists>out. ga_out (sendSurvConfig cd ?a2) = ga_out ?a2 @ out)"
    by (auto simp: sendSurvConfig_def emit_def wsWrite_def split_beta split: option.split list.split bool.split)
  ultimately show ?thesis using r s by (auto simp: Let_def)
qed

text \<open>Whatever else the relay answers is taken for an admission, also what is no message at all.\<close>

lemma garbage_confirms:
  assumes "ga_failing a = []" "ga_db a = None" "length data < HeaderSize"
  shows "snd (connect cd g (Some c) (Some data) a)"
  using assms by (simp add: connect_def wsWrite_def rejected_def)

section \<open>Bounds\<close>

text \<open>Never more than eight snapshot requests are in flight.\<close>

lemma emit_pending [simp]: "ga_pending (emit t p a) = ga_pending a" "ga_thumbs (emit t p a) = ga_thumbs a"
  by (auto simp: emit_def wsWrite_def split: option.split list.split bool.split)

lemma sendSurvConfig_pending [simp]: "ga_pending (sendSurvConfig cd a) = ga_pending a" "ga_thumbs (sendSurvConfig cd a) = ga_thumbs a"
  by (simp_all add: sendSurvConfig_def split_beta split: option.split)

lemma with_db_pending [simp]: "ga_pending (with_db cd f a) = ga_pending a" "ga_thumbs (with_db cd f a) = ga_thumbs a"
  by (simp_all add: with_db_def Let_def split: option.split)

lemma agent_snapshot_pending [simp]:
  "ga_pending (fst (agent_snapshot st i n a)) = ga_pending a" "ga_thumbs (fst (agent_snapshot st i n a)) = ga_thumbs a"
  by (simp_all add: agent_snapshot_def split_beta split: option.split)

text \<open>Everything the agent does after its start.\<close>

inductive agent_reachable :: "site \<Rightarrow> agent_cfg \<Rightarrow> site_agent \<Rightarrow> bool" for st g where
  started: "agent_reachable st g (NewAgent db profile)"
| connecting: "agent_reachable st g a \<Longrightarrow> agent_reachable st g (fst (connect (si_codec st) g dialled reply a))"
| closing: "agent_reachable st g a \<Longrightarrow> agent_reachable st g (closeConn a)"
| failing_writes: "agent_reachable st g a \<Longrightarrow> agent_reachable st g (a\<lparr>ga_failing := fs\<rparr>)"
| reading: "agent_reachable st g a \<Longrightarrow> agent_reachable st g (readPump st data a)"
| answering: "agent_reachable st g a \<Longrightarrow> agent_reachable st g (finish_snapshot st k a)"
| edge: "agent_reachable st g a \<Longrightarrow> agent_reachable st g (dvr_edge st now i e a)"
| editing: "agent_reachable st g a \<Longrightarrow> agent_reachable st g (with_db (si_codec st) f a)"
| healing: "agent_reachable st g a \<Longrightarrow> agent_reachable st g (healDVRs st a)"
| beating: "agent_reachable st g a \<Longrightarrow> agent_reachable st g (sendHeartbeat a)"
| capturing: "agent_reachable st g a \<Longrightarrow> agent_reachable st g (snd (fst (capture_turn g ts frame (errs, a))))"

lemma wsWrite_pending [simp]: "ga_pending (fst (wsWrite c m a)) = ga_pending a"
  by (auto simp: wsWrite_def split: list.split bool.split)

lemma rediscover_pending [simp]: "ga_pending (fst (rediscover st i a)) = ga_pending a"
  by (simp add: rediscover_def split_beta split: option.split)

lemma rediscover_all_pending [simp]: "ga_pending (fst (rediscover_all st ds a)) = ga_pending a"
proof (induction ds arbitrary: a)
  case (Cons d ds)
  obtain a' ok where r: "rediscover st (dc_id d) a = (a', ok)" by fastforce
  then have "ga_pending a' = ga_pending a" by (metis fst_conv rediscover_pending)
  then show ?case using Cons.IH [of a'] by (cases ok) (simp_all add: r)
qed simp

lemma reconnectAllDVRs_pending [simp]: "ga_pending (reconnectAllDVRs st a) = ga_pending a"
proof -
  have "ga_pending (case rediscover_all st ds a' of (a', True) \<Rightarrow> sendSurvConfig (si_codec st) a' | (a', False) \<Rightarrow> a') = ga_pending a'"
    for ds a' using rediscover_all_pending [of st ds a'] by (auto split: prod.split bool.split simp del: rediscover_all_pending)
  then show ?thesis by (simp add: reconnectAllDVRs_def split: option.split prod.split)
qed

lemma heal_each_pending [simp]: "ga_pending (heal_each st ds a) = ga_pending a"
proof (induction ds arbitrary: a)
  case (Cons d ds)
  show ?case
  proof (cases "ga_db a")
    case (Some s)
    obtain s' chs where l: "ListChannels (dc_id d) s = (s', chs)" by fastforce
    obtain a2 ok where r: "rediscover st (dc_id d) (a\<lparr>ga_db := Some s'\<rparr>) = (a2, ok)" by fastforce
    then have "ga_pending a2 = ga_pending a" using rediscover_pending [of st "dc_id d" "a\<lparr>ga_db := Some s'\<rparr>"] by simp
    then show ?thesis using Cons.IH by (cases ok) (simp_all add: Some l r Let_def)
  qed simp
qed simp

lemma healDVRs_pending [simp]: "ga_pending (healDVRs st a) = ga_pending a"
  by (simp add: healDVRs_def split_beta split: option.split)

lemma applySurvMeta_pending [simp]: "ga_pending (applySurvMeta cd p a) = ga_pending a"
proof -
  have f: "ga_pending (foldl (\<lambda>a x. with_db cd (h x) a) a xs) = ga_pending a" for h :: "'b \<Rightarrow> dvr_db \<Rightarrow> dvr_db" and xs a
    by (induction xs arbitrary: a) simp_all
  show ?thesis by (simp add: applySurvMeta_def f Let_def split: option.split)
qed

lemma connect_pending [simp]: "ga_pending (fst (connect cd g dialled reply a)) = ga_pending a"
proof (cases dialled)
  case (Some c)
  obtain a1 ok1 where 1: "wsWrite c (hello_bytes cd g a) a = (a1, ok1)" by fastforce
  obtain a2 ok2 where 2: "wsWrite c (auth_bytes cd g) a1 = (a2, ok2)" by fastforce
  have "ga_pending a1 = ga_pending a" "ga_pending a2 = ga_pending a1"
    using wsWrite_pending [of c "hello_bytes cd g a" a] wsWrite_pending [of c "auth_bytes cd g" a1] 1 2 by simp_all
  then show ?thesis by (cases ok1; cases ok2) (simp_all add: connect_def Some 1 2 split: option.split)
qed (simp add: connect_def)

lemma handleSnapshotRequest_pending [simp]: "ga_pending (handleSnapshotRequest st p a) = ga_pending a"
proof -
  have "ga_pending (case agent_snapshot st i n a of (a', None) \<Rightarrow> a' | (a', Some r) \<Rightarrow> emit t (q r) a') = ga_pending a" for i n t q
    using agent_snapshot_pending(1) [of st i n a] by (auto split: prod.split option.split simp del: agent_snapshot_pending)
  then show ?thesis by (simp add: handleSnapshotRequest_def split: option.split)
qed

lemma dvr_edge_pending [simp]: "ga_pending (dvr_edge st now i e a) = ga_pending a"
proof -
  have "ga_pending (sendEventThumb st now i n ts b) = ga_pending b" for n ts b
  proof -
    let ?b = "b\<lparr>ga_thumbs := AList.update (stream_name i n) now (ga_thumbs b)\<rparr>"
    obtain x r where x: "agent_snapshot st i n ?b = (x, r)" by fastforce
    then have "ga_pending x = ga_pending b" using agent_snapshot_pending(1) [of st i n ?b] by simp
    then show ?thesis by (simp add: sendEventThumb_def Let_def x split: option.split)
  qed
  then show ?thesis by (simp add: dvr_edge_def Let_def sendSurvEvent_def)
qed

lemma readPump_pending: "ga_pending (readPump st data a) = ga_pending a
    \<or> length (ga_pending a) < snapshot_slots \<and> length (ga_pending (readPump st data a)) = length (ga_pending a) + 1"
  by (auto simp: readPump_def handleAgentControl_def Let_def split: sum.split option.split)

lemma capture_turn_pending: "ga_pending (snd (fst (capture_turn g ts frame (errs, a)))) = ga_pending a"
  by (auto simp: capture_turn_def Let_def wsWrite_def split: option.split prod.split list.split bool.split)

lemma finish_snapshot_pending: "length (ga_pending (finish_snapshot st k a)) \<le> length (ga_pending a)"
  by (simp add: finish_snapshot_def)

lemma snapshots_bounded: "agent_reachable st g a \<Longrightarrow> length (ga_pending a) \<le> snapshot_slots"
proof (induction rule: agent_reachable.induct)
  case (reading a data)
  then show ?case using readPump_pending [of st data a] by auto
next
  case (answering a k)
  then show ?case using finish_snapshot_pending [of st k a] by simp
qed (simp_all add: NewAgent_def closeConn_def sendHeartbeat_def capture_turn_pending)

text \<open>Two thumbnails of one channel are at least three seconds apart, also when the clock is set back.\<close>

lemma thumbs_spaced:
  assumes "map_of (ga_thumbs a) ch = Some t0" "map_of (ga_thumbs (sendEventThumb st now i n ts a)) ch = Some t1"
  shows "t1 = t0 \<or> t1 - t0 \<ge> eventThumbThrottle"
proof -
  let ?a = "a\<lparr>ga_thumbs := AList.update (stream_name i n) now (ga_thumbs a)\<rparr>"
  obtain x r where x: "agent_snapshot st i n ?a = (x, r)" by fastforce
  then have "ga_thumbs x = AList.update (stream_name i n) now (ga_thumbs a)"
    using agent_snapshot_pending(2) [of st i n ?a] by simp
  then have "ga_thumbs (sendEventThumb st now i n ts a) = ga_thumbs a \<or> thumb_due now (stream_name i n) a
     \<and> ga_thumbs (sendEventThumb st now i n ts a) = AList.update (stream_name i n) now (ga_thumbs a)"
    by (simp add: sendEventThumb_def Let_def x split: option.split)
  with assms show ?thesis by (auto simp: update_conv' thumb_due_def split: if_splits)
qed

text \<open>The pauses between attempts never exceed thirty seconds.\<close>

lemma run_pauses_bounded: "idx < 5 \<Longrightarrow> list_all (\<lambda>p. 1 \<le> p \<and> p \<le> 30) (run_pauses idx rs)"
proof (induction idx rs rule: run_pauses.induct)
  case (2 idx rs)
  from 2(2) have "idx = 0 \<or> idx = 1 \<or> idx = 2 \<or> idx = 3 \<or> idx = 4" by arith
  then have "1 \<le> fst (backoff idx) \<and> fst (backoff idx) \<le> 30 \<and> snd (backoff idx) < 5"
    by (auto simp: backoff_def backoffDurations_def)
  with 2(1) show ?case by simp
qed (simp_all add: backoff_def backoffDurations_def)

text \<open>The capture loop gives up after eleven errors in a row and not before.\<close>

lemma capture_gives_up:
  "errs + length fs \<le> 10 \<Longrightarrow> list_all (\<lambda>f. snd f = None) fs \<Longrightarrow> capture_loop g fs (errs, a) = (errs + length fs, a)"
  by (induction fs arbitrary: errs) (auto simp: capture_turn_def)

text \<open>Frames are numbered one after the other, modulo two to the 32.\<close>

lemma frames_numbered:
  assumes "ga_conn a = Some c" "ga_failing a = []" "list_all (\<lambda>f. \<exists>t w h. snd f = Some (t, w, h) \<and> t \<noteq> []) fs"
  shows "ga_out (snd (capture_loop g fs (errs, a))) = ga_out a @ map (\<lambda>(k, ts, f). (c, MarshalMessage MsgFrameDelta
       (EncodeFrameDelta (frame_of g ts (fst (the f)) (fst (snd (the f))) (snd (snd (the f)))
         (a\<lparr>ga_seq := ga_seq a + word_of_nat k\<rparr>))))) (zip [1..<length fs + 1] fs)"
  using assms
proof (induction fs arbitrary: errs a)
  case (Cons f fs)
  obtain ts t w h where f: "f = (ts, Some (t, w, h))" "t \<noteq> []" using Cons.prems(3) by (cases f) auto
  let ?a1 = "a\<lparr>ga_seq := ga_seq a + 1\<rparr>"
  let ?m = "MarshalMessage MsgFrameDelta (EncodeFrameDelta (frame_of g ts t w h ?a1))"
  let ?a2 = "a\<lparr>ga_seq := ga_seq a + 1, ga_out := ga_out a @ [(c, ?m)], ga_failing := []\<rparr>"
  have turn: "capture_turn g ts (Some (t, w, h)) (errs, a) = ((0, ?a2), True)"
    using Cons.prems f by (simp add: capture_turn_def wsWrite_def Let_def)
  have fr: "frame_of g ts' t' w' h' (?a2\<lparr>ga_seq := x\<rparr>) = frame_of g ts' t' w' h' (a\<lparr>ga_seq := x\<rparr>)" for ts' t' w' h' x
    by (simp add: frame_of_def)
  have z: "zip [1..<length (f # fs) + 1] (f # fs) = (1, f) # map (\<lambda>(k, y). (Suc k, y)) (zip [1..<length fs + 1] fs)"
  proof -
    have "[1..<length (f # fs) + 1] = 1 # map Suc [1..<length fs + 1]" by (simp add: map_Suc_upt upt_conv_Cons del: upt_Suc)
    then show ?thesis by (simp add: zip_map1 del: upt_Suc)
  qed
  have s: "ga_seq ?a2 + word_of_nat k = ga_seq a + word_of_nat (Suc k)" for k by simp
  have "ga_out (snd (capture_loop g fs (0, ?a2))) = ga_out ?a2 @ map (\<lambda>(k, ts, f). (c, MarshalMessage MsgFrameDelta
       (EncodeFrameDelta (frame_of g ts (fst (the f)) (fst (snd (the f))) (snd (snd (the f)))
         (?a2\<lparr>ga_seq := ga_seq ?a2 + word_of_nat k\<rparr>))))) (zip [1..<length fs + 1] fs)"
    by (rule Cons.IH) (use Cons.prems in simp_all)
  then show ?case unfolding z fr s by (simp add: f(1) turn split_beta comp_def)
qed simp


text \<open>An agent whose relay decodes what it encodes, and an edit that renames one channel.\<close>

definition toy_agent_codec :: agent_codec where
  "toy_agent_codec = \<lparr>gc_put_hello = (\<lambda>_. [1]), gc_put_auth = (\<lambda>_. [1]), gc_put_config = (\<lambda>_. []), gc_put_event = (\<lambda>_. []),
     gc_put_thumb = (\<lambda>_. []), gc_put_snap = (\<lambda>_. []), gc_error = (\<lambda>_. None), gc_control = (\<lambda>_. None),
     gc_meta = (\<lambda>p. if p = [7] then Some \<lparr>sm_dvr_id = 1, sm_order = [], sm_renames = [\<lparr>cr_ch_num = 2, cr_name = ''Gate''\<rparr>],
       sm_hires = []\<rparr> else None),
     gc_agent_control = (\<lambda>_. None), gc_snap_req = (\<lambda>_. None)\<rparr>"

definition toy_agent_cfg :: agent_cfg where
  "toy_agent_cfg = \<lparr>gg_relay = [], gg_pin = ''9'', gg_agent_id = ''a'', gg_token = ''ta'', gg_version = [], gg_tile_size = 128\<rparr>"

definition toy_agent :: site_agent where
  "toy_agent = (NewAgent (Some empty_dvr_db) 1080)\<lparr>ga_conn := Some 4\<rparr>"

definition toy_agent_relay :: relay where
  "toy_agent_relay = toy_relay\<lparr>rl_codec := toy_codec\<lparr>js_hello := \<lambda>_. Some (hello_of toy_agent_cfg toy_agent)\<rparr>\<rparr>"

definition toy_agent_hub :: hub where
  "toy_agent_hub = NewHub toy_agent_relay toy_registry toy_db no_walls None"

theorem edits_are_published_witness:
  "published toy_agent_codec 4 (applySurvMeta toy_agent_codec [7] toy_agent)"
  by (rule edits_are_published [where m = "the (gc_meta toy_agent_codec [7])"])
    (simp_all add: healthy_def toy_agent_def NewAgent_def empty_dvr_db_def toy_agent_codec_def)

theorem agent_admitted_witness:
  "snd (HandlePublish toy_agent_relay 0 1 (Some (hello_bytes toy_agent_codec toy_agent_cfg toy_agent))
     (Some (auth_bytes toy_agent_codec toy_agent_cfg)) toy_agent_hub) = Some ''a''"
proof -
  let ?e = "\<lparr>ae_id = ''a'', ae_name = ''A'', ae_token = ''ta''\<rparr>"
  have ok: "hub_ok toy_agent_hub"
    unfolding toy_agent_hub_def by (rule reachable_ok [OF hub_reachable.start])
  have reg: "lookup (hb_registry toy_agent_hub) ''a'' = Some ?e"
    by (simp add: toy_agent_hub_def NewHub_def Let_def split: prod.split)
  have free: "slot_free toy_agent_hub ''a'' ''9''"
    by (simp add: slot_free_def toy_agent_hub_def NewHub_def sessionByID_def Let_def split: prod.split)
  show ?thesis
    using agent_admitted [of toy_agent_relay toy_agent_codec toy_agent_cfg toy_agent toy_agent_hub ?e, OF _ _ _ _ _ _ ok _ _
        prod.collapse [symmetric], of 0 1 4] reg free
    by (simp add: toy_agent_cfg_def toy_agent_codec_def toy_agent_relay_def toy_codec_def auth_of_def toy_agent_def NewAgent_def)
qed

end
