(* ===== verification/Agent_Update.thy ===== *)
theory Agent_Update
  imports Go_Digest Agent_Net
begin

text \<open>
  The self-update of the site agent, \<^verbatim>\<open>agent/updater.go\<close>. A request is modelled hop by hop, because the
  client checks every redirect: \<open>hop_world\<close> is the answer to one request after those made so far, with
  the address it redirects to (resolved and printed), the chunks of its body and whether the body ends
  cleanly. The state holds the temporary files, the addresses contacted, the installers that were started
  with the contents they had then, and the outcomes to come of the file operations (\<open>us_faults\<close>, a True
  fails). Ed25519, the temporary path of an address and the decoder of the release are parameters.
\<close>

record hop =
  hp_status :: nat
  hp_location :: "string option"
  hp_chunks :: "bytes list"
  hp_clean :: bool

type_synonym hop_world = "string list \<Rightarrow> string \<Rightarrow> hop option"

record release =
  rl_tag :: string
  rl_html :: string
  rl_assets :: "(string \<times> string) list"

record upd_env =
  ue_lib :: agent_lib
  ue_verify :: "bytes \<Rightarrow> bytes \<Rightarrow> bytes \<Rightarrow> bool"
  ue_temp :: "string \<Rightarrow> string"
  ue_release :: "bytes \<Rightarrow> release option"
  ue_windows :: bool
  ue_version :: string
  ue_key :: string

record upd_state =
  us_files :: "string \<Rightarrow> bytes option"
  us_urls :: "string list"
  us_runs :: "(string \<times> bytes) list"
  us_exit :: bool
  us_faults :: "bool list"

definition upd_start :: "bool list \<Rightarrow> upd_state" where
  "upd_start fs = \<lparr>us_files = (\<lambda>_. None), us_urls = [], us_runs = [], us_exit = False, us_faults = fs\<rparr>"

definition updatePublicKeyB64 :: string where
  "updatePublicKeyB64 = ''ngC0jByNST35TESJxtjWxvbDFlFCO6lN/fSlOEDfB6Y=''"

section \<open>Addresses and signatures\<close>

definition allowedUpdateHost :: "string \<Rightarrow> bool" where
  "allowedUpdateHost host = (host = ''github.com'' \<or> host = ''api.github.com'' \<or> has_suffix host ''.githubusercontent.com'')"

definition validateUpdateURL :: "agent_lib \<Rightarrow> string \<Rightarrow> bool" where
  "validateUpdateURL lib raw = (case ag_url lib raw of None \<Rightarrow> False
     | Some u \<Rightarrow> if up_scheme u \<noteq> ''https'' then False else allowedUpdateHost (up_hostname u))"

datatype sig_error = No_Key | Key_Encoding | Key_Size nat | Sig_Encoding | Sig_Size nat | Sig_Wrong

definition verifyUpdateSignature :: "(bytes \<Rightarrow> bytes \<Rightarrow> bytes \<Rightarrow> bool) \<Rightarrow> bytes \<Rightarrow> string \<Rightarrow> string \<Rightarrow> sig_error option" where
  "verifyUpdateSignature verify digest sigB64 keyB64 =
     (if keyB64 = [] then Some No_Key
      else case std_decode (TrimSpace keyB64) of None \<Rightarrow> Some Key_Encoding
      | Some pub \<Rightarrow>
         if length pub \<noteq> 32 then Some (Key_Size (length pub))
         else case std_decode (TrimSpace sigB64) of None \<Rightarrow> Some Sig_Encoding
         | Some sig \<Rightarrow>
            if length sig \<noteq> 64 then Some (Sig_Size (length sig))
            else if \<not> verify pub digest sig then Some Sig_Wrong else None)"

section \<open>Downloads\<close>

definition is_redirect :: "hop \<Rightarrow> bool" where
  "is_redirect h = (hp_status h \<in> {301, 302, 303, 307, 308} \<and> hp_location h \<noteq> None)"

text \<open>\<open>Client.Get\<close>: \<open>check\<close> is the test of a redirect; \<open>left\<close> redirects may follow (the tenth request may not
  redirect any more).\<close>

fun follow :: "(string \<Rightarrow> bool) \<Rightarrow> hop_world \<Rightarrow> nat \<Rightarrow> string \<Rightarrow> upd_state \<Rightarrow> upd_state \<times> hop option" where
  "follow check w left url s =
     (let s' = s\<lparr>us_urls := us_urls s @ [url]\<rparr>
      in case w (us_urls s) url of
           None \<Rightarrow> (s', None)
         | Some h \<Rightarrow>
             if \<not> is_redirect h then (s', Some h)
             else (case left of 0 \<Rightarrow> (s', None)
               | Suc k \<Rightarrow> if check (the (hp_location h)) then follow check w k (the (hp_location h)) s' else (s', None)))"

declare follow.simps [simp del]

text \<open>The client of \<open>newUpdateHTTPClient\<close>. An address that does not parse is not sent.\<close>

definition client_get :: "agent_lib \<Rightarrow> (string \<Rightarrow> bool) \<Rightarrow> hop_world \<Rightarrow> string \<Rightarrow> upd_state \<Rightarrow> upd_state \<times> hop option" where
  "client_get lib check w url s = (if ag_url lib url = None then (s, None) else follow check w 9 url s)"

definition update_get :: "agent_lib \<Rightarrow> hop_world \<Rightarrow> string \<Rightarrow> upd_state \<Rightarrow> upd_state \<times> hop option" where
  "update_get lib = client_get lib (validateUpdateURL lib)"

definition fetchSignature :: "agent_lib \<Rightarrow> hop_world \<Rightarrow> string \<Rightarrow> upd_state \<Rightarrow> upd_state \<times> string option" where
  "fetchSignature lib w url s =
     (case update_get lib w url s of
        (s', None) \<Rightarrow> (s', None)
      | (s', Some h) \<Rightarrow>
          let body = concat (hp_chunks h)
          in if hp_status h \<noteq> 200 then (s', None)
             else if \<not> hp_clean h \<and> length body < 1024 then (s', None)
             else (s', Some (TrimSpace (map (\<lambda>b. char_of (unat b)) (take 1024 body)))))"

definition file_op :: "upd_state \<Rightarrow> upd_state \<times> bool" where
  "file_op s = (case us_faults s of [] \<Rightarrow> (s, True) | f # fs \<Rightarrow> (s\<lparr>us_faults := fs\<rparr>, \<not> f))"

definition put_file :: "string \<Rightarrow> bytes option \<Rightarrow> upd_state \<Rightarrow> upd_state" where
  "put_file p c s = s\<lparr>us_files := (us_files s)(p := c)\<rparr>"

text \<open>The loop over the chunks: what is written is also hashed, so \<open>acc\<close> is both.\<close>

fun save_chunks :: "string \<Rightarrow> bytes \<Rightarrow> bytes list \<Rightarrow> upd_state \<Rightarrow> upd_state \<times> bytes option" where
  "save_chunks p acc [] s = (s, Some acc)"
| "save_chunks p acc (c # cs) s =
     (if c = [] then save_chunks p acc cs s
      else case file_op s of
        (s', True) \<Rightarrow> save_chunks p (acc @ c) cs (put_file p (Some (acc @ c)) s')
      | (s', False) \<Rightarrow> (put_file p None s', None))"

definition downloadToTemp :: "upd_env \<Rightarrow> hop_world \<Rightarrow> string \<Rightarrow> upd_state \<Rightarrow> upd_state \<times> (string \<times> bytes) option" where
  "downloadToTemp e w url s =
     (case update_get (ue_lib e) w url s of
        (s1, None) \<Rightarrow> (s1, None)
      | (s1, Some h) \<Rightarrow>
          if hp_status h \<noteq> 200 then (s1, None)
          else let p = ue_temp e url in
            case file_op s1 of
              (s2, False) \<Rightarrow> (s2, None)
            | (s2, True) \<Rightarrow>
               (case save_chunks p [] (hp_chunks h) (put_file p (Some []) s2) of
                  (s3, None) \<Rightarrow> (s3, None)
                | (s3, Some data) \<Rightarrow>
                   if \<not> hp_clean h then (put_file p None s3, None)
                   else (case file_op s3 of
                      (s4, True) \<Rightarrow> (s4, Some (p, sha256 data))
                    | (s4, False) \<Rightarrow> (put_file p None s4, None))))"

definition downloadVerified :: "upd_env \<Rightarrow> hop_world \<Rightarrow> string \<Rightarrow> upd_state \<Rightarrow> upd_state \<times> string option" where
  "downloadVerified e w url s =
     (if \<not> validateUpdateURL (ue_lib e) url then (s, None)
      else if ue_key e = [] then (s, None)
      else if \<not> validateUpdateURL (ue_lib e) (url @ ''.sig'') then (s, None)
      else case downloadToTemp e w url s of
        (s1, None) \<Rightarrow> (s1, None)
      | (s1, Some (p, digest)) \<Rightarrow>
          (case fetchSignature (ue_lib e) w (url @ ''.sig'') s1 of
             (s2, None) \<Rightarrow> (put_file p None s2, None)
           | (s2, Some sig) \<Rightarrow>
               if verifyUpdateSignature (ue_verify e) digest sig (ue_key e) \<noteq> None then (put_file p None s2, None)
               else (s2, Some p)))"

section \<open>Installing\<close>

text \<open>Starting the file runs the contents it has at that moment; a start may fail.\<close>

definition runInstaller :: "upd_env \<Rightarrow> string \<Rightarrow> upd_state \<Rightarrow> upd_state \<times> bool" where
  "runInstaller e p s =
     (if \<not> ue_windows e then (s, False)
      else case file_op s of
        (s', False) \<Rightarrow> (s', False)
      | (s', True) \<Rightarrow> (case us_files s' p of
          None \<Rightarrow> (s', False)
        | Some c \<Rightarrow> (s'\<lparr>us_runs := us_runs s' @ [(p, c)]\<rparr>, True)))"

definition DownloadAndInstall :: "upd_env \<Rightarrow> hop_world \<Rightarrow> string \<Rightarrow> upd_state \<Rightarrow> upd_state" where
  "DownloadAndInstall e w url s =
     (case downloadVerified e w url s of
        (s1, None) \<Rightarrow> s1
      | (s1, Some p) \<Rightarrow> (case runInstaller e p s1 of (s2, True) \<Rightarrow> s2\<lparr>us_exit := True\<rparr> | (s2, False) \<Rightarrow> s2))"

record update_info =
  ui_available :: bool
  ui_latest :: string
  ui_download :: string
  ui_html :: string

definition release_url :: string where
  "release_url = ''https://api.github.com/repos/stormixus/OpsView/releases/latest''"

definition release_info :: "string \<Rightarrow> release \<Rightarrow> update_info" where
  "release_info version r =
     \<lparr>ui_available = (version \<noteq> ''dev'' \<and> rl_tag r \<noteq> version), ui_latest = rl_tag r,
      ui_download = (case find (\<lambda>(n, _). contains_sub n ''opsview-agent-setup'') (rl_assets r) of None \<Rightarrow> [] | Some (_, u) \<Rightarrow> u),
      ui_html = rl_html r\<rparr>"

text \<open>The check uses an ordinary client, which follows any redirect.\<close>

definition CheckForUpdate :: "upd_env \<Rightarrow> hop_world \<Rightarrow> upd_state \<Rightarrow> upd_state \<times> update_info option" where
  "CheckForUpdate e w s =
     (case client_get (ue_lib e) (\<lambda>_. True) w release_url s of
        (s', None) \<Rightarrow> (s', None)
      | (s', Some h) \<Rightarrow>
          if hp_status h \<noteq> 200 then (s', None)
          else (s', map_option (release_info (ue_version e)) (ue_release e (concat (hp_chunks h)))))"

text \<open>One turn of the loop, and the loop: \<open>ws\<close> are the worlds of its turns, six hours apart. It ends when the
  installer was started, because the process exits.\<close>

definition update_turn :: "upd_env \<Rightarrow> hop_world \<Rightarrow> upd_state \<Rightarrow> upd_state" where
  "update_turn e w s =
     (if ue_version e = ''dev'' then s
      else case CheckForUpdate e w s of
        (s', None) \<Rightarrow> s'
      | (s', Some i) \<Rightarrow> if ui_available i \<and> ui_download i \<noteq> [] then DownloadAndInstall e w (ui_download i) s' else s')"

fun AutoUpdateLoop :: "upd_env \<Rightarrow> hop_world list \<Rightarrow> upd_state \<Rightarrow> upd_state" where
  "AutoUpdateLoop e [] s = s"
| "AutoUpdateLoop e (w # ws) s = (if us_exit s then s else AutoUpdateLoop e ws (update_turn e w s))"

section \<open>What is contacted\<close>

text \<open>A step that contacts only addresses with property \<open>P\<close>, and starts nothing.\<close>

definition contacts :: "(string \<Rightarrow> bool) \<Rightarrow> upd_state \<Rightarrow> upd_state \<Rightarrow> bool" where
  "contacts P s s' = (us_runs s' = us_runs s \<and> (\<exists>us. us_urls s' = us_urls s @ us \<and> list_all P us))"

lemma contacts_refl [simp]: "contacts P s s" by (simp add: contacts_def)

lemma contacts_trans: "contacts P s s' \<Longrightarrow> contacts P s' s2 \<Longrightarrow> contacts P s s2"
  by (auto simp: contacts_def)

lemma contacts_frame: "us_runs s' = us_runs s \<Longrightarrow> us_urls s' = us_urls s \<Longrightarrow> contacts P s s'"
  by (simp add: contacts_def)

lemma file_op_frame [simp]:
  "us_runs (fst (file_op s)) = us_runs s" "us_urls (fst (file_op s)) = us_urls s" "us_files (fst (file_op s)) = us_files s"
  by (simp_all add: file_op_def split: list.split)

lemma put_file_frame [simp]:
  "us_runs (put_file p c s) = us_runs s" "us_urls (put_file p c s) = us_urls s" "us_files (put_file p c s) = (us_files s)(p := c)"
  by (simp_all add: put_file_def)

lemma follow_contacts: "P url \<Longrightarrow> (\<And>u. check u \<Longrightarrow> P u) \<Longrightarrow> contacts P s (fst (follow check w left url s))"
proof (induction left arbitrary: url s)
  case (Suc k)
  let ?s = "s\<lparr>us_urls := us_urls s @ [url]\<rparr>"
  have one: "contacts P s ?s" using Suc.prems by (simp add: contacts_def)
  have "contacts P s (fst (follow check w k l ?s))" if "check l" for l
    by (rule contacts_trans [OF one Suc.IH]) (use that Suc.prems in blast)+
  with one show ?case by (simp add: follow.simps [of _ _ "Suc k"] Let_def split: option.split)
qed (simp add: follow.simps [of _ _ 0] Let_def contacts_def split: option.split)

lemma update_get_contacts: "validateUpdateURL lib url \<Longrightarrow> contacts (validateUpdateURL lib) s (fst (update_get lib w url s))"
  by (simp add: update_get_def client_get_def follow_contacts)

lemma follow_files: "us_files (fst (follow check w left url s)) = us_files s"
proof (induction left arbitrary: url s)
  case (Suc k)
  then show ?case by (simp add: follow.simps [of _ _ "Suc k"] Let_def split: option.split)
qed (simp add: follow.simps [of _ _ 0] Let_def split: option.split)

lemma update_get_files [simp]: "us_files (fst (update_get lib w url s)) = us_files s"
  by (simp add: update_get_def client_get_def follow_files)

lemma fetchSignature_frame:
  "validateUpdateURL lib url \<Longrightarrow> contacts (validateUpdateURL lib) s (fst (fetchSignature lib w url s))"
  "us_files (fst (fetchSignature lib w url s)) = us_files s"
  using update_get_contacts [of lib url s w] update_get_files [of lib w url s]
  by (simp_all add: fetchSignature_def split_beta Let_def split: option.split)

lemma save_chunks_frame:
  "us_runs (fst (save_chunks p acc cs s)) = us_runs s" "us_urls (fst (save_chunks p acc cs s)) = us_urls s"
  by (induction cs arbitrary: acc s) (simp_all add: split_beta split: bool.split)

lemma save_chunks_file:
  "save_chunks p acc cs s = (s', Some data) \<Longrightarrow> us_files s p = Some acc \<Longrightarrow> us_files s' p = Some data"
proof (induction cs arbitrary: acc s)
  case (Cons c cs)
  show ?case
  proof (cases "c = []")
    case False
    with Cons.prems obtain s1 where "file_op s = (s1, True)" "save_chunks p (acc @ c) cs (put_file p (Some (acc @ c)) s1) = (s', Some data)"
      by (auto split: prod.splits bool.splits)
    with Cons.IH show ?thesis by simp
  qed (use Cons in simp)
qed simp

lemma downloadToTemp_contacts:
  assumes "validateUpdateURL (ue_lib e) url"
  shows "contacts (validateUpdateURL (ue_lib e)) s (fst (downloadToTemp e w url s))"
proof (rule contacts_trans [OF update_get_contacts [OF assms]])
  let ?s1 = "fst (update_get (ue_lib e) w url s)"
  show "contacts (validateUpdateURL (ue_lib e)) ?s1 (fst (downloadToTemp e w url s))"
    by (rule contacts_frame) (simp_all add: downloadToTemp_def split_beta Let_def save_chunks_frame split: option.split bool.split)
qed

lemma downloadToTemp_file:
  assumes "downloadToTemp e w url s = (s', Some (p, digest))"
  shows "\<exists>data. us_files s' p = Some data \<and> digest = sha256 data"
proof -
  obtain s1 h where 1: "update_get (ue_lib e) w url s = (s1, Some h)" "hp_status h = 200"
    using assms by (auto simp: downloadToTemp_def Let_def split: prod.splits option.splits if_splits)
  obtain s2 where 2: "file_op s1 = (s2, True)"
    using assms 1 by (auto simp: downloadToTemp_def Let_def split: prod.splits bool.splits)
  obtain s3 data where 3: "save_chunks (ue_temp e url) [] (hp_chunks h) (put_file (ue_temp e url) (Some []) s2) = (s3, Some data)"
    using assms 1 2 by (auto simp: downloadToTemp_def Let_def split: prod.splits option.splits)
  have 4: "us_files s3 (ue_temp e url) = Some data" by (rule save_chunks_file [OF 3]) simp
  have "p = ue_temp e url \<and> digest = sha256 data \<and> s' = fst (file_op s3)"
    using assms 1 2 3 by (auto simp: downloadToTemp_def Let_def split: prod.splits bool.splits if_splits)
  with 4 show ?thesis by simp
qed

lemma downloadVerified_contacts: "contacts (validateUpdateURL (ue_lib e)) s (fst (downloadVerified e w url s))"
proof (cases "validateUpdateURL (ue_lib e) url \<and> ue_key e \<noteq> [] \<and> validateUpdateURL (ue_lib e) (url @ ''.sig'')")
  case True
  note d = downloadToTemp_contacts [OF conjunct1 [OF True], of s w]
  note f = fetchSignature_frame(1) [of "ue_lib e" "url @ ''.sig''" "fst (downloadToTemp e w url s)" w]
  have "contacts (validateUpdateURL (ue_lib e)) s (fst (fetchSignature (ue_lib e) w (url @ ''.sig'') (fst (downloadToTemp e w url s))))"
    using contacts_trans [OF d f] True by simp
  moreover have "contacts P s (put_file p c s')" if "contacts P s s'" for P p c s'
    using that by (simp add: contacts_def)
  ultimately show ?thesis using True d
    by (simp add: downloadVerified_def split_beta split: option.split)
next
  case False
  then show ?thesis by (auto simp: downloadVerified_def)
qed

section \<open>What is run\<close>

text \<open>An installer whose contents carry a valid signature of the embedded key.\<close>

definition signed_run :: "upd_env \<Rightarrow> string \<times> bytes \<Rightarrow> bool" where
  "signed_run e r = (\<exists>pub sig. std_decode (TrimSpace (ue_key e)) = Some pub \<and> length pub = 32 \<and> length sig = 64
     \<and> ue_verify e pub (sha256 (snd r)) sig)"

lemma verify_None:
  assumes "verifyUpdateSignature (ue_verify e) (sha256 c) sig (ue_key e) = None"
  shows "signed_run e (p, c)"
proof -
  obtain pub where pub: "std_decode (TrimSpace (ue_key e)) = Some pub" "length pub = 32"
    using assms by (auto simp: verifyUpdateSignature_def split: if_splits option.splits)
  obtain sg where sg: "length sg = 64" "ue_verify e pub (sha256 c) sg"
    using assms pub by (auto simp: verifyUpdateSignature_def split: if_splits option.splits)
  from pub sg show ?thesis by (auto simp: signed_run_def)
qed

lemma downloadVerified_file:
  assumes "downloadVerified e w url s = (s', Some p)"
  shows "\<exists>c. us_files s' p = Some c \<and> signed_run e (p, c)"
proof -
  obtain s1 digest where 1: "downloadToTemp e w url s = (s1, Some (p, digest))"
    and s': "s' = fst (fetchSignature (ue_lib e) w (url @ ''.sig'') s1)"
    and v: "\<exists>sig. verifyUpdateSignature (ue_verify e) digest sig (ue_key e) = None"
    using assms by (auto simp: downloadVerified_def split: if_splits prod.splits option.splits)
  obtain c where c: "us_files s1 p = Some c" "digest = sha256 c" using downloadToTemp_file [OF 1] by blast
  from v c(2) have "signed_run e (p, c)" using verify_None by blast
  moreover have "us_files s' p = Some c" using c(1) s' by (simp add: fetchSignature_frame(2))
  ultimately show ?thesis by blast
qed

lemma DownloadAndInstall_runs:
  "\<exists>rs. us_runs (DownloadAndInstall e w url s) = us_runs s @ rs \<and> list_all (signed_run e) rs"
proof -
  obtain s1 r where d: "downloadVerified e w url s = (s1, r)" by fastforce
  have k: "us_runs s1 = us_runs s" using downloadVerified_contacts [of e s w url] d by (simp add: contacts_def)
  show ?thesis
  proof (cases r)
    case None
    with d k show ?thesis by (simp add: DownloadAndInstall_def)
  next
    case (Some p)
    with d obtain c where c: "us_files s1 p = Some c" "signed_run e (p, c)" using downloadVerified_file by blast
    have f: "us_files (fst (file_op s1)) p = Some c" using c by simp
    show ?thesis
    proof (cases "ue_windows e \<and> snd (file_op s1)")
      case True
      with Some d f k c show ?thesis
        by (intro exI [of _ "[(p, c)]"]) (simp add: DownloadAndInstall_def runInstaller_def split_beta split: bool.split)
    next
      case False
      with Some d k show ?thesis
        by (intro exI [of _ "[]"]) (auto simp: DownloadAndInstall_def runInstaller_def split_beta split: bool.split)
    qed
  qed
qed

lemma CheckForUpdate_runs: "us_runs (fst (CheckForUpdate e w s)) = us_runs s"
proof -
  have "contacts (\<lambda>_. True) s (fst (follow (\<lambda>_. True) w 9 release_url s))" by (rule follow_contacts) simp_all
  then show ?thesis by (simp add: CheckForUpdate_def client_get_def contacts_def split_beta split: option.split)
qed

lemma update_turn_runs: "\<exists>rs. us_runs (update_turn e w s) = us_runs s @ rs \<and> list_all (signed_run e) rs"
proof -
  obtain s' i where c: "CheckForUpdate e w s = (s', i)" by fastforce
  have k: "us_runs s' = us_runs s" using CheckForUpdate_runs [of e w s] c by simp
  show ?thesis
    using DownloadAndInstall_runs [of e w "ui_download (the i)" s'] k
    by (auto simp: update_turn_def c split: option.split)
qed

text \<open>C31. Nothing unsigned is ever run: whatever the release server, the mirrors and the file system do over
  any number of turns of the update loop, every installer that was started held, when it was started,
  contents whose digest carries a valid signature under the embedded key.\<close>

theorem only_signed_installers:
  "list_all (signed_run e) (us_runs (AutoUpdateLoop e ws (upd_start fs)))"
proof -
  have "list_all (signed_run e) (us_runs s) \<Longrightarrow> list_all (signed_run e) (us_runs (AutoUpdateLoop e ws s))" for s
  proof (induction ws arbitrary: s)
    case (Cons w ws)
    obtain rs where "us_runs (update_turn e w s) = us_runs s @ rs" "list_all (signed_run e) rs" using update_turn_runs by blast
    with Cons show ?case by simp
  qed simp
  then show ?thesis by (simp add: upd_start_def)
qed

text \<open>A download never leaves the pinned hosts: every address contacted while an update is downloaded and
  verified, redirects included, is https on GitHub.\<close>

lemma download_stays_pinned:
  "list_all (\<lambda>url. \<exists>u. ag_url (ue_lib e) url = Some u \<and> up_scheme u = ''https'' \<and> allowedUpdateHost (up_hostname u))
     (drop (length (us_urls s)) (us_urls (fst (downloadVerified e w url s))))"
proof -
  obtain us where "us_urls (fst (downloadVerified e w url s)) = us_urls s @ us" "list_all (validateUpdateURL (ue_lib e)) us"
    using downloadVerified_contacts unfolding contacts_def by blast
  then show ?thesis by (auto simp: list_all_iff validateUpdateURL_def split: option.splits if_splits)
qed

text \<open>At most ten requests are made for one address.\<close>

lemma follow_bound: "length (us_urls (fst (follow check w left url s))) \<le> length (us_urls s) + left + 1"
proof (induction left arbitrary: url s)
  case (Suc k)
  have "length (us_urls (fst (follow check w k l (s\<lparr>us_urls := us_urls s @ [url]\<rparr>)))) \<le> length (us_urls s) + 1 + k + 1" for l
    using Suc [of l "s\<lparr>us_urls := us_urls s @ [url]\<rparr>"] by simp
  then show ?case by (simp add: follow.simps [of _ _ "Suc k"] Let_def le_SucI split: option.split)
qed (simp add: follow.simps [of _ _ 0] Let_def split: option.split)

text \<open>The check calls any other release newer, an older one too.\<close>

lemma older_release_is_available: "ui_available (release_info ''v2.0.0'' \<lparr>rl_tag = ''v1.0.0'', rl_html = [], rl_assets = []\<rparr>)"
  by (simp add: release_info_def)

text \<open>Without an embedded key nothing verifies.\<close>

lemma no_key_fails: "verifyUpdateSignature verify digest sig [] = Some No_Key"
  by (simp add: verifyUpdateSignature_def)

end
