(* ===== verification/Agent_App.thy ===== *)
theory Agent_App
  imports Agent_Core Agent_Update
begin

text \<open>
  The agent as a program: its settings (\<^verbatim>\<open>agent/config.go\<close>, \<^verbatim>\<open>agent/main.go\<close>), its menu
  (\<^verbatim>\<open>agent/tray.go\<close>) and its local web page (\<^verbatim>\<open>agent/web_ui.go\<close>). The state holds the two files, the tables of
  the one surveillance manager, whether the page and the running agent still have that manager, whether the
  manager's callback is set, and the snapshot cache. \<open>aa_disk\<close> are the outcomes of the file writes to come.
  The JSON decoders and the environment variables are parameters. A handler that panics is cut off by the
  HTTP server (\<open>Dropped\<close>).
\<close>

section \<open>Settings\<close>

record app_config =
  pc_relay :: string
  pc_profile :: int
  pc_auto :: bool
  pc_agent_id :: string
  pc_token :: string

definition default_relay :: string where
  "default_relay = ''ws://127.0.0.1:8080/publish''"

definition defaultConfig :: app_config where
  "defaultConfig = \<lparr>pc_relay = default_relay, pc_profile = 1080, pc_auto = False, pc_agent_id = [], pc_token = []\<rparr>"

record api_status =
  as_pin_shown :: "string option"
  as_ip :: string
  as_config :: app_config

record web_codec =
  wc_parse :: "app_config \<Rightarrow> string \<Rightarrow> app_config option"
  wc_print :: "app_config \<Rightarrow> string"
  wc_save :: "string \<Rightarrow> app_config option"
  wc_dvr :: "string \<Rightarrow> dvr_config option"
  wc_order :: "string \<Rightarrow> (int \<times> int list) option"
  wc_rename :: "string \<Rightarrow> (int \<times> int \<times> string) option"

record app_lib =
  al_site :: site
  al_codec :: web_codec
  al_getenv :: "string \<Rightarrow> string"
  al_ip :: string
  al_version :: string
  al_update :: upd_env
  al_hops :: hop_world

text \<open>A write succeeds, fails before it begins, or stops after some characters: \<open>os.WriteFile\<close> truncates first.\<close>

datatype disk = Written | Refused | Torn nat

record agent_app =
  aa_file :: "string option"
  aa_pin :: "string option"
  aa_disk :: "disk list"
  aa_random :: "nat option list"
  aa_auto :: bool
  aa_db :: dvr_db
  aa_web :: bool
  aa_hook :: bool
  aa_agent :: "(agent_cfg \<times> bool \<times> site_agent) option"
  aa_cache :: "(string \<times> string \<times> int) list"
  aa_log :: "http_query list"
  aa_upd :: upd_state

definition write_file :: "string \<Rightarrow> string option \<Rightarrow> disk list \<Rightarrow> (string option \<times> bool) \<times> disk list" where
  "write_file txt old ds = (case ds of
     [] \<Rightarrow> ((Some txt, True), [])
   | Written # ds' \<Rightarrow> ((Some txt, True), ds')
   | Refused # ds' \<Rightarrow> ((old, False), ds')
   | Torn n # ds' \<Rightarrow> ((Some (take n txt), False), ds'))"

definition loadConfig :: "app_lib \<Rightarrow> agent_app \<Rightarrow> app_config" where
  "loadConfig l a = (case aa_file a of
     None \<Rightarrow> defaultConfig
   | Some txt \<Rightarrow> (case wc_parse (al_codec l) defaultConfig txt of
       None \<Rightarrow> defaultConfig
     | Some c \<Rightarrow>
         let c1 = (if pc_profile c \<noteq> 720 \<and> pc_profile c \<noteq> 1080 then c\<lparr>pc_profile := 1080\<rparr> else c)
         in if pc_relay c1 = [] then c1\<lparr>pc_relay := default_relay\<rparr> else c1))"

definition saveConfig :: "app_lib \<Rightarrow> app_config \<Rightarrow> agent_app \<Rightarrow> agent_app \<times> bool" where
  "saveConfig l c a = (case write_file (wc_print (al_codec l) c) (aa_file a) (aa_disk a) of
     ((f, ok), ds) \<Rightarrow> (a\<lparr>aa_file := f, aa_disk := ds\<rparr>, ok))"

definition loadPublisherToken :: "app_lib \<Rightarrow> string" where
  "loadPublisherToken l = (let t = al_getenv l ''RELAY_PUBLISHER_TOKEN'' in if t \<noteq> [] then t else al_getenv l ''AGENT_TOKEN'')"

definition resolvePublisherToken :: "app_lib \<Rightarrow> app_config \<Rightarrow> string" where
  "resolvePublisherToken l c = (let t = TrimSpace (pc_token c) in if t \<noteq> [] then t else loadPublisherToken l)"

text \<open>\<open>%06d\<close>.\<close>

definition pad6 :: "nat \<Rightarrow> string" where
  "pad6 n = replicate (6 - length (nat_str n)) (CHR ''0'') @ nat_str n"

definition stored_pin :: "agent_app \<Rightarrow> string option" where
  "stored_pin a = (case aa_pin a of None \<Rightarrow> None | Some txt \<Rightarrow> let pin = TrimSpace txt in if length pin = 6 then Some pin else None)"

text \<open>An error of the write is ignored; \<open>None\<close> is an error of the random source.\<close>

definition loadOrCreateAgentPIN :: "agent_app \<Rightarrow> agent_app \<times> string option" where
  "loadOrCreateAgentPIN a = (case stored_pin a of
     Some pin \<Rightarrow> (a, Some pin)
   | None \<Rightarrow> (case aa_random a of
       [] \<Rightarrow> (a, None)
     | None # rs \<Rightarrow> (a\<lparr>aa_random := rs\<rparr>, None)
     | Some r # rs \<Rightarrow>
         let pin = pad6 (r mod 1000000)
         in case write_file (pin @ [CHR 0x0A]) (aa_pin a) (aa_disk a) of
           ((f, _), ds) \<Rightarrow> (a\<lparr>aa_random := rs, aa_pin := f, aa_disk := ds\<rparr>, Some pin)))"

section \<open>The menu\<close>

definition agent_config_of :: "app_lib \<Rightarrow> app_config \<Rightarrow> string \<Rightarrow> agent_cfg" where
  "agent_config_of l c pin = \<lparr>gg_relay = pc_relay c, gg_pin = pin, gg_agent_id = pc_agent_id c,
     gg_token = resolvePublisherToken l c, gg_version = al_version l, gg_tile_size = 128\<rparr>"

text \<open>\<open>mgr\<close>: whether the settings carry the surveillance manager. The callback is set when they do, and it goes to
  whatever agent is running when it is called.\<close>

definition startAgent :: "app_lib \<Rightarrow> app_config \<Rightarrow> bool \<Rightarrow> agent_app \<Rightarrow> agent_app" where
  "startAgent l c mgr a =
     (if aa_agent a \<noteq> None then a
      else case loadOrCreateAgentPIN a of
        (a1, pin) \<Rightarrow>
          a1\<lparr>aa_agent := Some (agent_config_of l c (case pin of Some p \<Rightarrow> p | None \<Rightarrow> ''000000''), mgr, NewAgent None (pc_profile c)),
             aa_web := mgr, aa_hook := (aa_hook a1 \<or> mgr)\<rparr>)"

definition stopAgent :: "agent_app \<Rightarrow> agent_app" where
  "stopAgent a = a\<lparr>aa_agent := None\<rparr>"

definition restartAgent :: "app_lib \<Rightarrow> agent_app \<Rightarrow> agent_app" where
  "restartAgent l a = (let mgr = aa_web a; a1 = stopAgent a in startAgent l (loadConfig l a1) mgr a1)"

definition restartAgentIfRunning :: "app_lib \<Rightarrow> agent_app \<Rightarrow> agent_app" where
  "restartAgentIfRunning l a = (if aa_agent a \<noteq> None then restartAgent l a else a)"

definition toggle_auto :: "app_lib \<Rightarrow> agent_app \<Rightarrow> agent_app" where
  "toggle_auto l a = (let on = \<not> aa_auto a in fst (saveConfig l ((loadConfig l a)\<lparr>pc_auto := on\<rparr>) (a\<lparr>aa_auto := on\<rparr>)))"

text \<open>The program starts: \<open>main\<close>, \<open>runTray\<close>, \<open>onTrayReady\<close>.\<close>

definition boot :: "app_lib \<Rightarrow> agent_app \<Rightarrow> agent_app" where
  "boot l a = (let c = loadConfig l a in startAgent l c True (a\<lparr>aa_auto := pc_auto c, aa_agent := None, aa_web := False, aa_hook := False\<rparr>))"

section \<open>The manager\<close>

text \<open>A step of the running agent, which shares the tables when it has the manager.\<close>

definition agent_step :: "(site_agent \<Rightarrow> site_agent) \<Rightarrow> agent_app \<Rightarrow> agent_app" where
  "agent_step h a = (case aa_agent a of
     None \<Rightarrow> a
   | Some (g, mgr, x) \<Rightarrow>
       let x' = h (x\<lparr>ga_db := if mgr then Some (aa_db a) else None\<rparr>)
       in a\<lparr>aa_agent := Some (g, mgr, x'), aa_db := (case ga_db x' of Some s \<Rightarrow> s | None \<Rightarrow> aa_db a)\<rparr>)"

text \<open>An operation of the manager and the callback after its change; \<open>None\<close>: no agent is running, and the callback
  panics on the nil agent after the change was made.\<close>

definition on_manager :: "app_lib \<Rightarrow> (dvr_db \<Rightarrow> dvr_db \<times> 'r) \<Rightarrow> agent_app \<Rightarrow> agent_app \<times> 'r option" where
  "on_manager l f a = (case f (aa_db a) of (s', r) \<Rightarrow>
     let a' = a\<lparr>aa_db := s'\<rparr>
     in if vd_changes s' > vd_changes (aa_db a) \<and> aa_hook a then
          (if aa_agent a = None then (a', None) else (agent_step (sendSurvConfig (si_codec (al_site l))) a', Some r))
        else (a', Some r))"

section \<open>The web page\<close>

record web_request =
  wr_host :: string
  wr_method :: string
  wr_path :: string
  wr_query :: "string \<Rightarrow> string"
  wr_body :: string

datatype web_answer = Status nat | Page | Settings api_status | Update_Info update_info | Recorders "dvr_config list"
  | Recorder dvr_config | Channels "channel_config list" | Done | Picture string | Dropped

definition isLoopbackHost :: "string \<Rightarrow> bool" where
  "isLoopbackHost hostHeader =
     (let h = trim_set (\<lambda>c. c \<in> set ''[]'') (case SplitHostPort hostHeader of Some (x, _) \<Rightarrow> x | None \<Rightarrow> hostHeader)
      in h = ''127.0.0.1'' \<or> h = ''localhost'' \<or> h = ''::1'' \<or> (case ParseIP h of Some ip \<Rightarrow> IsLoopback ip | None \<Rightarrow> False))"

definition handleAPIStatus :: "app_lib \<Rightarrow> agent_app \<Rightarrow> agent_app \<times> web_answer" where
  "handleAPIStatus l a = (let c = loadConfig l a in case loadOrCreateAgentPIN a of
     (a', pin) \<Rightarrow> (a', Settings \<lparr>as_pin_shown = pin, as_ip = al_ip l, as_config = c\<rparr>))"

definition handleAPISave :: "app_lib \<Rightarrow> web_request \<Rightarrow> agent_app \<Rightarrow> agent_app \<times> web_answer" where
  "handleAPISave l q a =
     (if wr_method q \<noteq> ''POST'' then (a, Status 405)
      else case wc_save (al_codec l) (wr_body q) of
        None \<Rightarrow> (a, Status 400)
      | Some r \<Rightarrow>
          let c = (loadConfig l a)\<lparr>pc_relay := pc_relay r, pc_profile := pc_profile r, pc_token := TrimSpace (pc_token r),
                pc_agent_id := TrimSpace (pc_agent_id r)\<rparr>;
              (c1, a1) = (if pc_auto r \<noteq> pc_auto c then (c\<lparr>pc_auto := pc_auto r\<rparr>, a\<lparr>aa_auto := pc_auto r\<rparr>) else (c, a))
          in case saveConfig l c1 a1 of
               (a2, False) \<Rightarrow> (a2, Status 500)
             | (a2, True) \<Rightarrow> (restartAgentIfRunning l a2, Status 200))"

definition handleAPIUpdate :: "app_lib \<Rightarrow> agent_app \<Rightarrow> agent_app \<times> web_answer" where
  "handleAPIUpdate l a = (case CheckForUpdate (al_update l) (al_hops l) (aa_upd a) of
     (u, None) \<Rightarrow> (a\<lparr>aa_upd := u\<rparr>, Status 500) | (u, Some i) \<Rightarrow> (a\<lparr>aa_upd := u\<rparr>, Update_Info i))"

text \<open>The answer to an operation of the manager.\<close>

definition reply :: "('r \<Rightarrow> web_answer) \<Rightarrow> agent_app \<times> 'r option \<Rightarrow> agent_app \<times> web_answer" where
  "reply k x = (case x of (a, None) \<Rightarrow> (a, Dropped) | (a, Some r) \<Rightarrow> (a, k r))"

definition found_or :: "nat \<Rightarrow> ('r \<Rightarrow> web_answer) \<Rightarrow> 'r option \<Rightarrow> web_answer" where
  "found_or code k r = (case r of None \<Rightarrow> Status code | Some x \<Rightarrow> k x)"

definition done_or :: "nat \<Rightarrow> web_answer \<Rightarrow> bool \<Rightarrow> web_answer" where
  "done_or code ok r = (if r then ok else Status code)"

definition web_add :: "app_lib \<Rightarrow> dvr_config \<Rightarrow> agent_app \<Rightarrow> agent_app \<times> web_answer" where
  "web_add l r a =
     (let d = (if dc_port r = 0 then r\<lparr>dc_port := 80\<rparr> else r)
      in case fetchDeviceIdentity (si_dvrs (al_site l)) (si_world (al_site l)) (dvr_defaults d) (aa_log a) of
           (None, log') \<Rightarrow> (a\<lparr>aa_log := log'\<rparr>, Dropped)
         | (Some ident, log') \<Rightarrow> reply (found_or 500 Recorder) (on_manager l (AddDVR (\<lambda>_. ident) d) (a\<lparr>aa_log := log'\<rparr>)))"

definition handleSurvDVRs :: "app_lib \<Rightarrow> web_request \<Rightarrow> agent_app \<Rightarrow> agent_app \<times> web_answer" where
  "handleSurvDVRs l q a =
     (if \<not> aa_web a then (a, Status 503)
      else if wr_method q = ''GET'' then reply (found_or 500 Recorders) (on_manager l ListDVRs a)
      else if wr_method q = ''POST'' then (case wc_dvr (al_codec l) (wr_body q) of None \<Rightarrow> (a, Status 400) | Some r \<Rightarrow> web_add l r a)
      else (a, Status 405))"

definition web_discover :: "app_lib \<Rightarrow> int \<Rightarrow> agent_app \<Rightarrow> agent_app \<times> web_answer" where
  "web_discover l i a =
     (case DiscoverChannels (si_dvrs (al_site l)) (si_world (al_site l)) i (aa_db a) (aa_log a) of
        ((s', r), log') \<Rightarrow> reply (\<lambda>r. case r of Listed chs \<Rightarrow> Channels chs | Failed \<Rightarrow> Status 500 | Panicked \<Rightarrow> Dropped)
          (on_manager l (\<lambda>_. (s', r)) (a\<lparr>aa_log := log'\<rparr>)))"

definition dvr_path :: "string \<Rightarrow> string \<times> string" where
  "dvr_path p = (let rest = trim_prefix p ''/api/surv/dvrs/'' in case cut_at (CHR ''/'') rest of None \<Rightarrow> (rest, []) | Some x \<Rightarrow> x)"

definition handleSurvDVR :: "app_lib \<Rightarrow> web_request \<Rightarrow> agent_app \<Rightarrow> agent_app \<times> web_answer" where
  "handleSurvDVR l q a =
     (if \<not> aa_web a then (a, Status 503)
      else case dvr_path (wr_path q) of (seg, action) \<Rightarrow> (case atoi seg of
        None \<Rightarrow> (a, Status 400)
      | Some i \<Rightarrow>
          if action = ''discover'' then
            (if wr_method q \<noteq> ''POST'' then (a, Status 405) else web_discover l i a)
          else if action = ''clear-channels'' then
            (if wr_method q \<noteq> ''POST'' then (a, Status 405) else reply (done_or 500 Done) (on_manager l (ClearDVRChannels i) a))
          else if action = ''channels'' then
            (if wr_method q \<noteq> ''GET'' then (a, Status 405) else reply (found_or 500 Channels) (on_manager l (ListChannels i) a))
          else if action = [] then
            (if wr_method q = ''PUT'' then
               (case wc_dvr (al_codec l) (wr_body q) of None \<Rightarrow> (a, Status 400)
                | Some r \<Rightarrow> reply (done_or 500 Done) (on_manager l (UpdateDVR i r) a))
             else if wr_method q = ''DELETE'' then reply (done_or 500 Done) (on_manager l (DeleteDVR i) a)
             else (a, Status 405))
          else (a, Status 404)))"

definition handleSurvResetDB :: "app_lib \<Rightarrow> web_request \<Rightarrow> agent_app \<Rightarrow> agent_app \<times> web_answer" where
  "handleSurvResetDB l q a =
     (if \<not> aa_web a then (a, Status 503)
      else if wr_method q \<noteq> ''POST'' then (a, Status 405)
      else reply (done_or 500 Done) (on_manager l ResetDB a))"

definition snapCacheTTL :: int where "snapCacheTTL = 8000"

definition snap_key :: "int \<Rightarrow> int \<Rightarrow> string" where
  "snap_key i n = itoa i @ '':'' @ itoa n"

definition cached :: "int \<Rightarrow> string \<Rightarrow> agent_app \<Rightarrow> string option" where
  "cached now key a = (case map_of (aa_cache a) key of Some (p, at) \<Rightarrow> if now - at < snapCacheTTL then Some p else None | None \<Rightarrow> None)"

text \<open>\<open>now\<close> is the clock at the look-up, \<open>later\<close> when the picture is stored.\<close>

definition handleSurvSnapshot :: "app_lib \<Rightarrow> int \<Rightarrow> int \<Rightarrow> web_request \<Rightarrow> agent_app \<Rightarrow> agent_app \<times> web_answer" where
  "handleSurvSnapshot l now later q a =
     (if \<not> aa_web a then (a, Status 503)
      else case atoi (wr_query q ''dvr'') of None \<Rightarrow> (a, Status 400) | Some i \<Rightarrow> (case atoi (wr_query q ''ch'') of
        None \<Rightarrow> (a, Status 400)
      | Some n \<Rightarrow> (case cached now (snap_key i n) a of
          Some p \<Rightarrow> (a, Picture p)
        | None \<Rightarrow> (case FetchSnapshot (si_dvrs (al_site l)) (si_world (al_site l)) i n (aa_db a) of
            (s', m) \<Rightarrow> (case m (aa_log a) of
              (None, log') \<Rightarrow> (a\<lparr>aa_db := s', aa_log := log'\<rparr>, Dropped)
            | (Some None, log') \<Rightarrow> (a\<lparr>aa_db := s', aa_log := log'\<rparr>, Status 502)
            | (Some (Some p), log') \<Rightarrow>
                (a\<lparr>aa_db := s', aa_log := log', aa_cache := AList.update (snap_key i n) (p, later) (aa_cache a)\<rparr>, Picture p))))))"

text \<open>The body is cut at 64 KiB.\<close>

definition handleSurvChannelReorder :: "app_lib \<Rightarrow> web_request \<Rightarrow> agent_app \<Rightarrow> agent_app \<times> web_answer" where
  "handleSurvChannelReorder l q a =
     (if \<not> aa_web a then (a, Status 503)
      else if wr_method q \<noteq> ''POST'' then (a, Status 405)
      else case wc_order (al_codec l) (take 65536 (wr_body q)) of
        None \<Rightarrow> (a, Status 400)
      | Some (i, ns) \<Rightarrow> reply (done_or 500 (Status 204)) (on_manager l (ReorderChannels i ns) a))"

definition handleSurvChannelRename :: "app_lib \<Rightarrow> web_request \<Rightarrow> agent_app \<Rightarrow> agent_app \<times> web_answer" where
  "handleSurvChannelRename l q a =
     (if \<not> aa_web a then (a, Status 503)
      else if wr_method q \<noteq> ''POST'' then (a, Status 405)
      else case wc_rename (al_codec l) (take 65536 (wr_body q)) of
        None \<Rightarrow> (a, Status 400)
      | Some (i, n, name) \<Rightarrow> reply (done_or 500 (Status 204)) (on_manager l (RenameChannel i n (TrimSpace name)) a))"

text \<open>The routes, for a path as the multiplexer hands it on, and the check before all of them.\<close>

definition web_route :: "app_lib \<Rightarrow> int \<Rightarrow> int \<Rightarrow> web_request \<Rightarrow> agent_app \<Rightarrow> agent_app \<times> web_answer" where
  "web_route l now later q a =
     (let p = wr_path q
      in if p = ''/api/status'' then handleAPIStatus l a
         else if p = ''/api/save'' then handleAPISave l q a
         else if p = ''/api/update'' then handleAPIUpdate l a
         else if p = ''/api/surv/dvrs'' then handleSurvDVRs l q a
         else if has_prefix p ''/api/surv/dvrs/'' then handleSurvDVR l q a
         else if p = ''/api/surv/reset-db'' then handleSurvResetDB l q a
         else if p = ''/api/surv/snapshot'' then handleSurvSnapshot l now later q a
         else if p = ''/api/surv/channels/reorder'' then handleSurvChannelReorder l q a
         else if p = ''/api/surv/channels/rename'' then handleSurvChannelRename l q a
         else if p = ''/'' then (a, Page) else (a, Status 404))"

definition localOnly :: "app_lib \<Rightarrow> int \<Rightarrow> int \<Rightarrow> web_request \<Rightarrow> agent_app \<Rightarrow> agent_app \<times> web_answer" where
  "localOnly l now later q a = (if \<not> isLoopbackHost (wr_host q) then (a, Status 403) else web_route l now later q a)"

section \<open>The program\<close>

datatype app_op = Menu_Auto | Menu_Start | Menu_Pause | Menu_Restart | Web int int web_request | Runs "site_agent \<Rightarrow> site_agent"

text \<open>Restart is enabled only while the agent runs.\<close>

fun app_step :: "app_lib \<Rightarrow> app_op \<Rightarrow> agent_app \<Rightarrow> agent_app" where
  "app_step l Menu_Auto a = toggle_auto l a"
| "app_step l Menu_Start a = startAgent l (loadConfig l a) False a"
| "app_step l Menu_Pause a = stopAgent a"
| "app_step l Menu_Restart a = restartAgentIfRunning l a"
| "app_step l (Web now later q) a = fst (localOnly l now later q a)"
| "app_step l (Runs h) a = agent_step h a"

definition app_run :: "app_lib \<Rightarrow> app_op list \<Rightarrow> agent_app \<Rightarrow> agent_app" where
  "app_run l ops a = foldl (\<lambda>a x. app_step l x a) a ops"


section \<open>The host check\<close>

lemma parse_ipv4_last: "\<not> is_digit (last s) \<Longrightarrow> parse_ipv4 s = None"
proof (rule ccontr)
  assume n: "\<not> is_digit (last s)" "parse_ipv4 s \<noteq> None"
  then obtain a r1 b r2 c d where c: "cut_at CHR ''.'' s = Some (a, r1)" "cut_at CHR ''.'' r1 = Some (b, r2)"
    "cut_at CHR ''.'' r2 = Some (c, d)" "v4_field d \<noteq> None"
    by (auto simp: parse_ipv4_def split: option.splits prod.splits)
  then have "s = a @ CHR ''.'' # b @ CHR ''.'' # c @ CHR ''.'' # d" "d \<noteq> []" "list_all is_digit d"
    by (auto dest!: cut_at_Some simp: v4_field_def split: if_splits)
  then show False using n(1) by (simp add: list_all_iff)
qed

lemma trim_set_id: "(\<And>c. c \<in> set s \<Longrightarrow> \<not> p c) \<Longrightarrow> trim_set p s = s"
proof -
  assume n: "\<And>c. c \<in> set s \<Longrightarrow> \<not> p c"
  then have "dropWhile p s = s" "dropWhile p (rev s) = rev s"
    by (metis dropWhile_eq_self_iff hd_in_set, metis dropWhile_eq_self_iff hd_in_set set_rev n)
  then show ?thesis by (simp add: trim_set_def)
qed

text \<open>A name of the domain name system: no colon, bracket or percent sign, and its last character is not a digit.\<close>

definition dns_name :: "string \<Rightarrow> bool" where
  "dns_name s = (s \<noteq> [] \<and> set s \<inter> set '':[]%'' = {} \<and> \<not> is_digit (last s))"

lemma ParseIP_name: "dns_name s \<Longrightarrow> ParseIP s = None"
proof -
  assume d: "dns_name s"
  then have n: "parse_ipv4 s = None" by (intro parse_ipv4_last) (simp add: dns_name_def)
  have no: "CHR '':'' \<notin> set s" "CHR ''%'' \<notin> set s" using d by (auto simp: dns_name_def)
  show ?thesis
  proof (cases "dropWhile (\<lambda>c. c \<notin> set ''.:%'') s")
    case (Cons c r)
    then have "c \<in> set s" "\<not> c \<notin> set ''.:%''"
      by (metis list.set_intros(1) set_dropWhileD, metis (no_types, lifting) dropWhile_eq_Cons_conv)
    then have "c = CHR ''.''" using no by auto
    with Cons n show ?thesis unfolding ParseIP_def by simp
  next
    case Nil
    show ?thesis unfolding ParseIP_def Nil by simp
  qed
qed

text \<open>The local page cannot be reached through DNS rebinding: a request that names any host of the domain
  name system except \<open>localhost\<close>, with or without a port, is refused before any handler sees it, so it
  changes nothing, whatever address the name resolves to.\<close>

lemma rebinding_refused:
  assumes "dns_name name" "name \<noteq> ''localhost''" "wr_host q = name \<or> wr_host q = name @ '':'' @ nat_str port"
  shows "localOnly l now later q a = (a, Status 403)"
proof -
  have n: "CHR '':'' \<notin> set name" "CHR ''['' \<notin> set name" "CHR '']'' \<notin> set name" "name \<noteq> []"
    using assms(1) by (auto simp: dns_name_def)
  have port: "SplitHostPort (name @ '':'' @ nat_str port) = Some (name, nat_str port)"
  proof -
    have "cut_last CHR '':'' (name @ '':'' @ nat_str port) = Some (name, nat_str port)"
      using cut_last_append [of "CHR '':''" "nat_str port" name] by (simp add: digit_notin_nat_str)
    moreover have "hd name \<noteq> CHR ''[''" using n by (metis hd_in_set)
    ultimately show ?thesis using n by (simp add: SplitHostPort_def digit_notin_nat_str)
  qed
  have c: "cut_last CHR '':'' name = None" using n by simp
  have bare: "SplitHostPort name = None" unfolding SplitHostPort_def c by simp
  have h: "(case SplitHostPort (wr_host q) of Some (x, _) \<Rightarrow> x | None \<Rightarrow> wr_host q) = name"
    using assms(3) port bare by (elim disjE) (simp_all only: option.case prod.case)
  have "trim_set (\<lambda>c. c \<in> set ''[]'') name = name" using n by (intro trim_set_id) auto
  moreover have "name \<noteq> ''127.0.0.1''" "name \<noteq> ''::1''" using assms(1) by (auto simp: dns_name_def is_digit_def char_val_def)
  ultimately have "\<not> isLoopbackHost (wr_host q)"
    using assms(2) ParseIP_name [OF assms(1)] unfolding isLoopbackHost_def h Let_def by simp
  then show ?thesis by (simp add: localOnly_def)
qed

section \<open>The manager, the page and the menu\<close>

text \<open>Whether the page and the running agent have the manager.\<close>

definition app_mode :: "agent_app \<Rightarrow> bool \<times> bool option" where
  "app_mode a = (aa_web a, map_option (\<lambda>(g, mgr, x). mgr) (aa_agent a))"

definition mode_ok :: "agent_app \<Rightarrow> bool" where
  "mode_ok a = (case aa_agent a of None \<Rightarrow> True | Some (g, mgr, x) \<Rightarrow> mgr = aa_web a)"

lemma agent_step_mode [simp]: "app_mode (agent_step h a) = app_mode a"
  by (auto simp: agent_step_def app_mode_def Let_def split: option.split)

lemma on_manager_mode [simp]: "app_mode (fst (on_manager l f a)) = app_mode a"
proof -
  obtain s r where f: "f (aa_db a) = (s, r)" by fastforce
  have "app_mode (a\<lparr>aa_db := s\<rparr>) = app_mode a" by (simp add: app_mode_def)
  then show ?thesis by (simp add: on_manager_def f Let_def)
qed

lemma reply_mode [simp]: "app_mode (fst (reply k x)) = app_mode (fst x)"
  by (simp add: reply_def split_beta split: option.split)

lemma field_mode [simp]:
  "app_mode (a\<lparr>aa_log := x1\<rparr>) = app_mode a" "app_mode (a\<lparr>aa_file := x2\<rparr>) = app_mode a" "app_mode (a\<lparr>aa_disk := x3\<rparr>) = app_mode a"
  "app_mode (a\<lparr>aa_auto := x4\<rparr>) = app_mode a" "app_mode (a\<lparr>aa_random := x5\<rparr>) = app_mode a" "app_mode (a\<lparr>aa_pin := x6\<rparr>) = app_mode a"
  "app_mode (a\<lparr>aa_db := x7\<rparr>) = app_mode a" "app_mode (a\<lparr>aa_cache := x8\<rparr>) = app_mode a" "app_mode (a\<lparr>aa_upd := x9\<rparr>) = app_mode a"
  by (simp_all add: app_mode_def)

lemma pin_mode [simp]: "app_mode (fst (loadOrCreateAgentPIN a)) = app_mode a"
  by (simp add: loadOrCreateAgentPIN_def Let_def split_beta split: option.split list.split)

lemma saveConfig_mode [simp]: "app_mode (fst (saveConfig l c a)) = app_mode a"
  by (simp add: saveConfig_def split_beta)

lemma startAgent_mode: "app_mode (startAgent l c mgr a) = (if snd (app_mode a) = None then (mgr, Some mgr) else app_mode a)"
  by (simp add: startAgent_def app_mode_def split_beta)

lemma stopAgent_mode: "app_mode (stopAgent a) = (fst (app_mode a), None)"
  by (simp add: stopAgent_def app_mode_def)

text \<open>A restart hands the manager over.\<close>

lemma restart_mode:
  "app_mode (restartAgentIfRunning l a) = (if snd (app_mode a) = None then app_mode a else (fst (app_mode a), Some (fst (app_mode a))))"
  by (simp add: restartAgentIfRunning_def restartAgent_def Let_def startAgent_mode stopAgent_mode) (auto simp: app_mode_def)

lemma save_mode:
  assumes "snd (app_mode a) = None \<or> snd (app_mode a) = Some (fst (app_mode a))"
  shows "app_mode (fst (handleAPISave l q a)) = app_mode a"
proof (cases "wr_method q = ''POST'' \<and> wc_save (al_codec l) (wr_body q) \<noteq> None")
  case True
  then obtain r where r: "wr_method q = ''POST''" "wc_save (al_codec l) (wr_body q) = Some r" by auto
  have *: "app_mode (fst (case saveConfig l c b of (a2, False) \<Rightarrow> (a2, Status 500) | (a2, True) \<Rightarrow> (restartAgentIfRunning l a2, Status 200)))
      = app_mode a" if "app_mode b = app_mode a" for c b
  proof -
    obtain a2 ok where s: "saveConfig l c b = (a2, ok)" by fastforce
    then have "app_mode a2 = app_mode a" using saveConfig_mode [of l c b] that by simp
    then show ?thesis using assms by (cases ok; cases "app_mode a") (auto simp: s restart_mode)
  qed
  show ?thesis by (simp add: handleAPISave_def r Let_def *)
qed (auto simp: handleAPISave_def)

lemma web_mode:
  assumes "snd (app_mode a) = None \<or> snd (app_mode a) = Some (fst (app_mode a))"
  shows "app_mode (fst (localOnly l now later q a)) = app_mode a"
proof -
  have 1: "app_mode (fst (handleAPIStatus l a)) = app_mode a" by (simp add: handleAPIStatus_def split_beta)
  have 2: "app_mode (fst (handleAPIUpdate l a)) = app_mode a" by (simp add: handleAPIUpdate_def split_beta split: option.split)
  have 3: "app_mode (fst (web_add l r a)) = app_mode a" for r by (simp add: web_add_def Let_def split_beta split: option.split)
  then have 4: "app_mode (fst (handleSurvDVRs l q a)) = app_mode a" by (simp add: handleSurvDVRs_def split: option.split)
  have 5: "app_mode (fst (web_discover l i a)) = app_mode a" for i by (simp add: web_discover_def split_beta)
  then have 6: "app_mode (fst (handleSurvDVR l q a)) = app_mode a" by (simp add: handleSurvDVR_def split_beta split: option.split)
  have 7: "app_mode (fst (handleSurvSnapshot l now later q a)) = app_mode a"
    by (simp add: handleSurvSnapshot_def split_beta split: option.split)
  have 8: "app_mode (fst (handleSurvResetDB l q a)) = app_mode a" "app_mode (fst (handleSurvChannelReorder l q a)) = app_mode a"
    "app_mode (fst (handleSurvChannelRename l q a)) = app_mode a"
    by (simp_all add: handleSurvResetDB_def handleSurvChannelReorder_def handleSurvChannelRename_def split_beta split: option.split)
  show ?thesis by (simp add: localOnly_def web_route_def Let_def 1 2 4 6 7 8 save_mode [OF assms])
qed

text \<open>Whether the operations, from a running or a paused agent, contain a start from the menu that takes effect;
  and whether the agent runs after them.\<close>

fun started_again :: "bool \<Rightarrow> app_op list \<Rightarrow> bool" where
  "started_again r [] = False"
| "started_again r (Menu_Start # ops) = (\<not> r \<or> started_again True ops)"
| "started_again r (Menu_Pause # ops) = started_again False ops"
| "started_again r (_ # ops) = started_again r ops"

lemma app_step_mode:
  assumes "snd (app_mode a) = None \<or> snd (app_mode a) = Some (fst (app_mode a))"
  shows "app_mode (app_step l x a) = (case x of
      Menu_Start \<Rightarrow> if snd (app_mode a) = None then (False, Some False) else app_mode a
    | Menu_Pause \<Rightarrow> (fst (app_mode a), None)
    | _ \<Rightarrow> app_mode a)"
  using assms by (cases x; cases "app_mode a") (auto simp: web_mode restart_mode startAgent_mode stopAgent_mode toggle_auto_def Let_def)

lemma app_run_mode:
  assumes "snd (app_mode a) = None \<or> snd (app_mode a) = Some (fst (app_mode a))"
  shows "fst (app_mode (app_run l ops a)) = (fst (app_mode a) \<and> \<not> started_again (snd (app_mode a) \<noteq> None) ops)
    \<and> (snd (app_mode (app_run l ops a)) = None \<or> snd (app_mode (app_run l ops a)) = Some (fst (app_mode (app_run l ops a))))"
  using assms
proof (induction ops arbitrary: a)
  case (Cons x ops)
  let ?m = "app_mode (app_step l x a)"
  have m: "?m = (case x of
      Menu_Start \<Rightarrow> if snd (app_mode a) = None then (False, Some False) else app_mode a
    | Menu_Pause \<Rightarrow> (fst (app_mode a), None)
    | _ \<Rightarrow> app_mode a)" by (rule app_step_mode [OF Cons.prems])
  then have ok: "snd ?m = None \<or> snd ?m = Some (fst ?m)" using Cons.prems by (cases x) auto
  have r: "app_run l (x # ops) a = app_run l ops (app_step l x a)" by (simp add: app_run_def)
  have "(fst ?m \<and> \<not> started_again (snd ?m \<noteq> None) ops) = (fst (app_mode a) \<and> \<not> started_again (snd (app_mode a) \<noteq> None) (x # ops))"
    unfolding m by (cases x; cases "snd (app_mode a)") simp_all
  with Cons.IH [OF ok] show ?case unfolding r by metis
qed (simp add: app_run_def)

text \<open>Surveillance lives until the agent is started from the menu: whatever is saved, requested, paused,
  restarted or toggled, the web page and the running agent keep the surveillance manager that the program
  began with exactly as long as no paused agent was started again from the menu; after such a start
  neither ever has it again.\<close>

lemma surveillance_until_start:
  "aa_web (app_run l ops (boot l a)) = (\<not> started_again True ops)
   \<and> list_all (\<lambda>(g, mgr, x). mgr = (\<not> started_again True ops)) (case aa_agent (app_run l ops (boot l a)) of None \<Rightarrow> [] | Some y \<Rightarrow> [y])"
proof -
  have b: "app_mode (boot l a) = (True, Some True)" by (simp add: boot_def Let_def startAgent_mode) (simp add: app_mode_def)
  obtain w m where wm: "app_mode (app_run l ops (boot l a)) = (w, m)" by fastforce
  note r = app_run_mode [of "boot l a" l ops, unfolded b wm fst_conv snd_conv]
  have "w = (\<not> started_again True ops)" using r by simp
  moreover have "m = None \<or> m = Some w" using r by blast
  ultimately have "aa_web (app_run l ops (boot l a)) = (\<not> started_again True ops)"
    "map_option (\<lambda>(g, mgr, x). mgr) (aa_agent (app_run l ops (boot l a))) \<in> {None, Some (\<not> started_again True ops)}"
    using wm by (auto simp: app_mode_def)
  then show ?thesis by (auto split: option.split)
qed


section \<open>Settings\<close>

lemma length_nat_str_6: "n < 1000000 \<Longrightarrow> length (nat_str n) \<le> 6"
proof -
  assume n: "n < 1000000"
  have "length (nat_str n) \<le> length (nat_str (n div 1000)) + 3" if "n \<ge> 1000" for n
  proof -
    have "n div 10 div 10 div 10 = n div 1000" by (simp add: div_mult2_eq [symmetric])
    then show ?thesis using that by (simp add: nat_str_big [of n] nat_str_big [of "n div 10"] nat_str_big [of "n div 10 div 10"])
  qed
  then show ?thesis
  proof (cases "n < 1000")
    case False
    with n have "n div 1000 < 1000" by linarith
    from length_nat_str [OF this] False \<open>\<And>n. n \<ge> 1000 \<Longrightarrow> length (nat_str n) \<le> length (nat_str (n div 1000)) + 3\<close> [of n]
    show ?thesis by linarith
  qed (use length_nat_str [of n] in simp)
qed

lemma pad6_length: "n < 1000000 \<Longrightarrow> length (pad6 n) = 6"
  using length_nat_str_6 [of n] by (simp add: pad6_def)

lemma pad6_digits: "list_all is_digit (pad6 n)"
proof -
  have "is_digit (CHR ''0'')" by (simp add: is_digit_def char_val_def)
  then show ?thesis using nat_str_digits [of n] by (auto simp: pad6_def list_all_iff)
qed

lemma is_digit_not_space: "is_digit c \<Longrightarrow> \<not> is_space c"
  by (auto simp: is_digit_def is_space_def char_val_def)

lemma trim_line: "list_all is_digit s \<Longrightarrow> s \<noteq> [] \<Longrightarrow> TrimSpace (s @ [CHR 0x0A]) = s"
proof -
  assume s: "list_all is_digit s" "s \<noteq> []"
  have n: "\<not> is_space c" if "c \<in> set s" for c using s(1) that is_digit_not_space by (auto simp: list_all_iff)
  have sp: "is_space (CHR 0x0A)" by (simp add: is_space_def char_val_def)
  have "dropWhile is_space (s @ [CHR 0x0A]) = s @ [CHR 0x0A]"
    using n s(2) by (metis append_is_Nil_conv dropWhile_eq_self_iff hd_append2 hd_in_set)
  moreover have "dropWhile is_space (rev s) = rev s" using n by (metis dropWhile_eq_self_iff hd_in_set set_rev)
  ultimately show ?thesis using sp by (simp add: TrimSpace_def trim_set_def)
qed

text \<open>A site keeps its PIN: when the disk takes the write, the PIN that was handed out first is six digits or
  the six characters found in the file, and it is the one every later call hands out, whatever random
  numbers and disk errors are still to come.\<close>

lemma agent_pin_stable:
  assumes "loadOrCreateAgentPIN a = (a', Some pin)" "aa_disk a = []"
  shows "length pin = 6 \<and> stored_pin a' = Some pin
    \<and> snd (loadOrCreateAgentPIN (a'\<lparr>aa_random := rs, aa_disk := ds\<rparr>)) = Some pin
    \<and> aa_pin (fst (loadOrCreateAgentPIN (a'\<lparr>aa_random := rs, aa_disk := ds\<rparr>))) = aa_pin a'"
proof -
  have *: "length pin = 6 \<and> stored_pin a' = Some pin"
  proof (cases "stored_pin a")
    case (Some p)
    then have "length p = 6" by (auto simp: stored_pin_def Let_def split: option.splits if_splits)
    with Some assms(1) show ?thesis by (simp add: loadOrCreateAgentPIN_def)
  next
    case None
    then obtain r rest where r: "aa_random a = Some r # rest"
      using assms(1) by (cases "aa_random a"; cases "hd (aa_random a)") (auto simp: loadOrCreateAgentPIN_def)
    let ?p = "pad6 (r mod 1000000)"
    have l: "length ?p = 6" by (rule pad6_length) simp
    then have t: "TrimSpace (?p @ [CHR 0x0A]) = ?p" by (intro trim_line pad6_digits) auto
    have "a' = a\<lparr>aa_random := rest, aa_pin := Some (?p @ [CHR 0x0A]), aa_disk := []\<rparr>" "pin = ?p"
      using assms None r by (auto simp: loadOrCreateAgentPIN_def write_file_def Let_def)
    then show ?thesis using l t by (simp add: stored_pin_def)
  qed
  then have "stored_pin (a'\<lparr>aa_random := rs, aa_disk := ds\<rparr>) = Some pin" by (simp add: stored_pin_def)
  with * show ?thesis by (simp add: loadOrCreateAgentPIN_def)
qed

text \<open>When the disk refuses it, every call makes up another PIN: the page shows one that the running agent does not use.\<close>

lemma refused_pin_changes:
  assumes "aa_pin a = None" "aa_random a = Some r # Some r' # rs" "aa_disk a = Refused # ds"
  shows "snd (loadOrCreateAgentPIN a) = Some (pad6 (r mod 1000000))"
    "stored_pin (fst (loadOrCreateAgentPIN a)) = None" "aa_random (fst (loadOrCreateAgentPIN a)) = Some r' # rs"
  using assms by (simp_all add: loadOrCreateAgentPIN_def write_file_def stored_pin_def Let_def)

lemma loadConfig_cong: "aa_file a = aa_file b \<Longrightarrow> loadConfig l a = loadConfig l b"
  by (simp add: loadConfig_def)

text \<open>What a saved request becomes when it is loaded: a blank address and an unknown profile are replaced.\<close>

definition effective :: "app_config \<Rightarrow> app_config" where
  "effective c = \<lparr>pc_relay = (if pc_relay c = [] then default_relay else pc_relay c),
     pc_profile = (if pc_profile c = 720 then 720 else 1080), pc_auto = pc_auto c,
     pc_agent_id = TrimSpace (pc_agent_id c), pc_token = TrimSpace (pc_token c)\<rparr>"

text \<open>What a save writes.\<close>

definition saved_config :: "app_lib \<Rightarrow> app_config \<Rightarrow> agent_app \<Rightarrow> app_config" where
  "saved_config l r a = (loadConfig l a)\<lparr>pc_relay := pc_relay r, pc_profile := pc_profile r, pc_token := TrimSpace (pc_token r),
     pc_agent_id := TrimSpace (pc_agent_id r), pc_auto := pc_auto r\<rparr>"

text \<open>Saved settings take effect: when the page answers a save with success, the running agent has been
  replaced by one that uses the address, token, identity and profile of the request (a blank address and
  an unknown profile replaced by the defaults), with the surveillance manager the page has, and a later
  start of the program reads the same settings.\<close>

lemma saved_settings_take_effect:
  assumes "wc_parse (al_codec l) defaultConfig (wc_print (al_codec l) (saved_config l r a)) = Some (saved_config l r a)"
    "handleAPISave l q a = (a', Status 200)" "wc_save (al_codec l) (wr_body q) = Some r" "aa_agent a \<noteq> None"
  shows "loadConfig l a' = effective r
    \<and> (\<exists>pin. aa_agent a' = Some (agent_config_of l (effective r) pin, aa_web a, NewAgent None (pc_profile (effective r))))"
proof -
  define c where "c = saved_config l r a"
  note parsed = assms(1) [folded c_def]
  have step: "handleAPISave l q a = (case saveConfig l c (a\<lparr>aa_auto := x\<rparr>) of
       (a2, False) \<Rightarrow> (a2, Status 500) | (a2, True) \<Rightarrow> (restartAgentIfRunning l a2, Status 200))"
    if "x = (if pc_auto r \<noteq> pc_auto (loadConfig l a) then pc_auto r else aa_auto a)" for x
  proof -
    have "wr_method q = ''POST''" using assms(2) by (auto simp: handleAPISave_def split: if_splits)
    then show ?thesis using assms(3) that by (cases "pc_auto r = pc_auto (loadConfig l a)") (simp_all add: handleAPISave_def c_def saved_config_def Let_def)
  qed
  obtain x where x: "x = (if pc_auto r \<noteq> pc_auto (loadConfig l a) then pc_auto r else aa_auto a)" by blast
  obtain a2 where s: "saveConfig l c (a\<lparr>aa_auto := x\<rparr>) = (a2, True)" "a' = restartAgentIfRunning l a2"
    using assms(2) unfolding step [OF x] by (auto split: prod.splits bool.splits)
  have a2: "aa_file a2 = Some (wc_print (al_codec l) c)" "aa_agent a2 = aa_agent a" "aa_web a2 = aa_web a"
    using s(1) by (auto simp: saveConfig_def write_file_def split: list.splits disk.splits)
  have load: "loadConfig l b = effective r" if "aa_file b = aa_file a2" for b
    unfolding loadConfig_def that a2(1) option.case parsed by (simp add: effective_def c_def saved_config_def Let_def)
  obtain p1 pin where p: "loadOrCreateAgentPIN (stopAgent a2) = (p1, pin)" by fastforce
  have f: "aa_file p1 = aa_file a2"
    using p by (auto simp: loadOrCreateAgentPIN_def stopAgent_def Let_def split: option.splits list.splits prod.splits)
  have a': "a' = p1\<lparr>aa_agent := Some (agent_config_of l (effective r) (case pin of Some p \<Rightarrow> p | None \<Rightarrow> ''000000''), aa_web a,
       NewAgent None (pc_profile (effective r))), aa_web := aa_web a, aa_hook := (aa_hook p1 \<or> aa_web a)\<rparr>"
    using s(2) assms(4) p a2 load [of "stopAgent a2"]
    by (simp add: restartAgentIfRunning_def restartAgent_def startAgent_def Let_def stopAgent_def)
  then have "aa_file a' = aa_file a2" using f by simp
  then show ?thesis using load [of a'] a' by (intro conjI exI [of _ "case pin of Some p \<Rightarrow> p | None \<Rightarrow> ''000000''"]) simp_all
qed


section \<open>Edits\<close>

text \<open>The page and the connected agent share the manager, and the database works.\<close>

definition linked :: "nat \<Rightarrow> agent_app \<Rightarrow> bool" where
  "linked c a = (aa_web a \<and> aa_hook a \<and> vd_faults (aa_db a) = []
     \<and> (case aa_agent a of None \<Rightarrow> False | Some (g, mgr, x) \<Rightarrow> mgr \<and> ga_conn x = Some c \<and> ga_failing x = []))"

text \<open>The last thing the agent wrote is the configuration that the tables hold.\<close>

definition up_to_date :: "agent_codec \<Rightarrow> nat \<Rightarrow> agent_app \<Rightarrow> bool" where
  "up_to_date cd c a = (case aa_agent a of None \<Rightarrow> False | Some (g, mgr, x) \<Rightarrow> published cd c x \<and> ga_db x = Some (aa_db a))"

lemma on_manager_published:
  assumes "linked c a" "vd_faults (fst (f (aa_db a))) = []" "vd_changes (fst (f (aa_db a))) > vd_changes (aa_db a)"
  shows "up_to_date (si_codec (al_site l)) c (fst (on_manager l f a))"
proof -
  obtain s r where f: "f (aa_db a) = (s, r)" by fastforce
  obtain g x where x: "aa_agent a = Some (g, True, x)" "ga_conn x = Some c" "ga_failing x = []" "aa_hook a"
    using assms(1) by (auto simp: linked_def split: option.splits)
  with assms(2,3) f show ?thesis
    by (simp add: on_manager_def agent_step_def up_to_date_def published_def Let_def sendSurvConfig_healthy)
qed

lemma match_facets_no_faults: "vd_faults s = [] \<Longrightarrow> fst (match_facets fs s) = s"
proof (induction fs)
  case (Cons p fs)
  then show ?case by (cases p) (simp add: match_no_faults split: option.split)
qed simp

lemma resolve_counts:
  assumes "vd_faults s = []"
  shows "vd_faults (fst (resolveStableKey serial mac addr s)) = [] \<and> vd_changes (fst (resolveStableKey serial mac addr s)) = vd_changes s"
proof -
  obtain k where m: "match_facets [(Serial, serial), (Mac, mac), (Addr, addr)] s = (s, k)"
    using match_facets_no_faults [OF assms] by (metis prod.collapse)
  show ?thesis
    unfolding resolveStableKey_def m
    by (cases k) (simp_all add: enrichDeviceKey_def no_faults assms Let_def)
qed

lemma add_changes:
  assumes "vd_faults s = []"
  shows "vd_faults (fst (AddDVR ident d s)) = []"
    "snd (AddDVR ident d s) \<noteq> None \<Longrightarrow> vd_changes (fst (AddDVR ident d s)) > vd_changes s"
proof -
  obtain serial mac where i: "ident (dvr_defaults d) = (serial, mac)" by fastforce
  obtain s1 k where k: "resolveStableKey serial mac (dc_addr (dvr_defaults d)) s = (s1, k)" by fastforce
  then have s1: "vd_faults s1 = []" "vd_changes s1 = vd_changes s"
    using resolve_counts [OF assms, of serial mac "dc_addr (dvr_defaults d)"] by simp_all
  show "vd_faults (fst (AddDVR ident d s)) = []"
    "snd (AddDVR ident d s) \<noteq> None \<Longrightarrow> vd_changes (fst (AddDVR ident d s)) > vd_changes s"
    by (cases k; simp add: AddDVR_def i k Let_def dv_change_def no_faults s1 notify_def)+
qed

lemma table_changes:
  assumes "vd_faults s = []"
  shows "vd_faults (fst (UpdateDVR i d s)) = [] \<and> vd_changes (fst (UpdateDVR i d s)) > vd_changes s"
    "vd_faults (fst (DeleteDVR i s)) = [] \<and> vd_changes (fst (DeleteDVR i s)) > vd_changes s"
    "vd_faults (fst (ClearDVRChannels i s)) = [] \<and> vd_changes (fst (ClearDVRChannels i s)) > vd_changes s"
    "vd_faults (fst (ResetDB s)) = [] \<and> vd_changes (fst (ResetDB s)) > vd_changes s"
  using assms
  by (simp_all add: UpdateDVR_def DeleteDVR_def ClearDVRChannels_def ResetDB_def transaction_def ignoring_def dv_change_def no_faults
      on_dvr_def notify_def)

lemmas edit_changes = table_changes rename_changes reorder_changes

text \<open>An answer that confirms an edit.\<close>

definition confirms :: "web_answer \<Rightarrow> bool" where
  "confirms r = (case r of Done \<Rightarrow> True | Status n \<Rightarrow> n = 204 | Recorder d \<Rightarrow> True | _ \<Rightarrow> False)"

lemma reply_published:
  assumes "linked c a" "vd_faults (fst (f (aa_db a))) = [] \<and> vd_changes (fst (f (aa_db a))) > vd_changes (aa_db a)"
  shows "up_to_date (si_codec (al_site l)) c (fst (reply k (on_manager l f a)))"
  using on_manager_published [OF assms(1), of f l] assms(2) by (simp add: reply_def split_beta split: option.split)

lemma linked_log [simp]: "linked c (a\<lparr>aa_log := log\<rparr>) = linked c a"
  by (simp add: linked_def)

lemma add_published:
  assumes "linked c a" "confirms (snd (web_add l r a))"
  shows "up_to_date (si_codec (al_site l)) c (fst (web_add l r a))"
proof -
  define d where "d = (if dc_port r = 0 then r\<lparr>dc_port := 80\<rparr> else r)"
  obtain ident log where q: "fetchDeviceIdentity (si_dvrs (al_site l)) (si_world (al_site l)) (dvr_defaults d) (aa_log a) = (ident, log)"
    by fastforce
  have w: "web_add l r a = (case ident of None \<Rightarrow> (a\<lparr>aa_log := log\<rparr>, Dropped)
      | Some x \<Rightarrow> reply (found_or 500 Recorder) (on_manager l (AddDVR (\<lambda>_. x) d) (a\<lparr>aa_log := log\<rparr>)))"
    unfolding web_add_def Let_def by (fold d_def) (simp add: q split: option.split)
  then obtain x where x: "ident = Some x" using assms(2) by (cases ident) (auto simp: confirms_def)
  let ?f = "AddDVR (\<lambda>_. x) d" and ?a = "a\<lparr>aa_log := log\<rparr>"
  have l: "linked c ?a" "vd_faults (aa_db a) = []" using assms(1) by (simp_all add: linked_def)
  have "snd (?f (aa_db a)) \<noteq> None"
    using assms(2) unfolding w x option.case
    by (auto simp: reply_def on_manager_def found_or_def confirms_def Let_def split: prod.splits option.splits if_splits)
  then have "vd_faults (fst (?f (aa_db ?a))) = [] \<and> vd_changes (fst (?f (aa_db ?a))) > vd_changes (aa_db ?a)"
    using add_changes [OF l(2)] by simp
  from reply_published [where f = ?f, OF l(1) this] show ?thesis unfolding w x option.case .
qed

lemma localOnly_cases:
  "localOnly l now later q a \<in> {handleAPIStatus l a, handleAPISave l q a, handleAPIUpdate l a, handleSurvDVRs l q a, handleSurvDVR l q a,
     handleSurvResetDB l q a, handleSurvSnapshot l now later q a, handleSurvChannelReorder l q a, handleSurvChannelRename l q a,
     (a, Page), (a, Status 404), (a, Status 403)}"
  by (simp add: localOnly_def web_route_def Let_def)

text \<open>A confirmed edit is a published edit: when the page answers that a recorder was added, changed, deleted,
  cleared or reset, or a channel renamed or moved, the connected agent has sent the relay, as its last
  message, the configuration that the tables hold at that moment.\<close>

lemma web_edits_published:
  assumes "linked c a" "localOnly l now later q a = (a', r)" "confirms r"
  shows "up_to_date (si_codec (al_site l)) c a'"
proof -
  let ?u = "up_to_date (si_codec (al_site l)) c"
  have f: "vd_faults (aa_db a) = []" using assms(1) by (simp add: linked_def)
  have pub: "?u (fst (reply k (on_manager l g a)))"
    if "\<And>s. vd_faults s = [] \<Longrightarrow> vd_faults (fst (g s)) = [] \<and> vd_changes (fst (g s)) > vd_changes s" for k g
    by (rule reply_published [where f = g, OF assms(1)]) (rule that [OF f])
  note edits = pub [OF table_changes(1)] pub [OF table_changes(2)] pub [OF table_changes(3)] pub [OF table_changes(4)]
    pub [OF rename_changes] pub [OF reorder_changes] add_published [OF assms(1)]
  have no: "\<not> confirms (snd (handleAPIStatus l a))" "\<not> confirms (snd (handleAPISave l q a))" "\<not> confirms (snd (handleAPIUpdate l a))"
    "\<not> confirms (snd (handleSurvSnapshot l now later q a))" "\<And>i. \<not> confirms (snd (web_discover l i a))"
    "\<And>x. \<not> confirms (snd (reply (found_or 500 Recorders) x))" "\<And>x. \<not> confirms (snd (reply (found_or 500 Channels) x))"
    "\<And>b n. n \<noteq> 204 \<Longrightarrow> \<not> confirms (snd (b::agent_app, Status n))"
    by (auto simp: handleAPIStatus_def handleAPISave_def handleAPIUpdate_def handleSurvSnapshot_def web_discover_def reply_def confirms_def
        found_or_def Let_def split: prod.split option.split discovery.split bool.split)
  have 1: "?u (fst (handleSurvDVRs l q a))" if "confirms (snd (handleSurvDVRs l q a))"
    using that no edits(7) by (auto simp: handleSurvDVRs_def split: if_splits option.splits)
  have 2: "?u (fst (handleSurvDVR l q a))" if "confirms (snd (handleSurvDVR l q a))"
    using that no edits(1-3) by (auto simp: handleSurvDVR_def split: if_splits option.splits prod.splits)
  have 3: "?u (fst (handleSurvResetDB l q a))" if "confirms (snd (handleSurvResetDB l q a))"
    using that no edits(4) by (auto simp: handleSurvResetDB_def split: if_splits)
  have 4: "?u (fst (handleSurvChannelRename l q a))" if "confirms (snd (handleSurvChannelRename l q a))"
    using that no edits(5) by (auto simp: handleSurvChannelRename_def split: if_splits option.splits prod.splits)
  have 5: "?u (fst (handleSurvChannelReorder l q a))" if "confirms (snd (handleSurvChannelReorder l q a))"
    using that no edits(6) by (auto simp: handleSurvChannelReorder_def split: if_splits option.splits prod.splits)
  have p: "\<not> confirms (snd (a, Page))" by (simp add: confirms_def)
  have s: "\<not> confirms (snd (a, Status 404))" "\<not> confirms (snd (a, Status 403))" by (simp_all add: confirms_def)
  have r: "confirms (snd (localOnly l now later q a))" "a' = fst (localOnly l now later q a)" using assms(2,3) by simp_all
  from localOnly_cases [of l now later q a] r(1) have "?u (fst (localOnly l now later q a))"
    by (elim insertE emptyE; simp only: 1 2 3 4 5 no p s not_False_eq_True simp_thms)
  with r(2) show ?thesis by simp
qed


text \<open>While the agent is paused the callback dereferences the nil agent: the edit is stored, the request is cut off.\<close>

lemma paused_edit_panics:
  assumes "aa_agent a = None" "aa_hook a" "aa_web a" "vd_faults (aa_db a) = []" "wr_method q = ''POST''"
  shows "handleSurvResetDB l q a = (a\<lparr>aa_db := fst (ResetDB (aa_db a))\<rparr>, Dropped)"
proof -
  obtain s' r where "ResetDB (aa_db a) = (s', r)" by fastforce
  with table_changes(4) [OF assms(4)] assms show ?thesis
    by (simp add: handleSurvResetDB_def on_manager_def reply_def Let_def)
qed

text \<open>A picture that was delivered is delivered again without asking the recorder until it is eight seconds old, and
  never after that.\<close>

lemma snapshot_cached:
  assumes "handleSurvSnapshot l now later q a = (a', Picture p)"
  shows "now2 - later < snapCacheTTL \<Longrightarrow> cached now (snap_key (the (atoi (wr_query q ''dvr''))) (the (atoi (wr_query q ''ch'')))) a = None
      \<Longrightarrow> handleSurvSnapshot l now2 later2 q a' = (a', Picture p)"
    "cached t k a = Some p' \<Longrightarrow> \<exists>at. map_of (aa_cache a) k = Some (p', at) \<and> t < at + snapCacheTTL"
proof -
  assume t: "now2 - later < snapCacheTTL"
    and c: "cached now (snap_key (the (atoi (wr_query q ''dvr''))) (the (atoi (wr_query q ''ch'')))) a = None"
  have w: "aa_web a" using assms by (auto simp: handleSurvSnapshot_def split: if_splits)
  then obtain i n where i: "atoi (wr_query q ''dvr'') = Some i" "atoi (wr_query q ''ch'') = Some n"
    using assms by (auto simp: handleSurvSnapshot_def split: option.splits)
  obtain s' m where f: "FetchSnapshot (si_dvrs (al_site l)) (si_world (al_site l)) i n (aa_db a) = (s', m)" by fastforce
  obtain r log where m: "m (aa_log a) = (r, log)" by fastforce
  from c i have c': "cached now (snap_key i n) a = None" by simp
  have "r = Some (Some p)" "a' = a\<lparr>aa_db := s', aa_log := log, aa_cache := AList.update (snap_key i n) (p, later) (aa_cache a)\<rparr>"
    using assms w i c' f m by (auto simp: handleSurvSnapshot_def split: option.splits)
  then show "handleSurvSnapshot l now2 later2 q a' = (a', Picture p)"
    using w i t by (simp add: handleSurvSnapshot_def cached_def update_conv')
next
  show "cached t k a = Some p' \<Longrightarrow> \<exists>at. map_of (aa_cache a) k = Some (p', at) \<and> t < at + snapCacheTTL"
    by (auto simp: cached_def split: option.splits if_splits)
qed

section \<open>Examples\<close>

text \<open>A settings file of two entries, and an agent connected over connection 4.\<close>

definition toy_config :: app_config where
  "toy_config = \<lparr>pc_relay = [], pc_profile = 480, pc_auto = False, pc_agent_id = ''a'', pc_token = ''ta''\<rparr>"

definition toy_web_codec :: web_codec where
  "toy_web_codec = \<lparr>wc_parse = (\<lambda>_ t. Some (if t = ''c'' then toy_config else defaultConfig)), wc_print = (\<lambda>c. ''c''),
     wc_save = (\<lambda>_. Some toy_config), wc_dvr = (\<lambda>_. None), wc_order = (\<lambda>_. None), wc_rename = (\<lambda>_. Some (1, 2, ''Gate''))\<rparr>"

definition toy_app :: agent_app where
  "toy_app = \<lparr>aa_file = None, aa_pin = None, aa_disk = [], aa_random = [Some 7], aa_auto = False, aa_db = empty_dvr_db, aa_web = True,
     aa_hook = True, aa_agent = Some (toy_agent_cfg, True, toy_agent), aa_cache = [], aa_log = [], aa_upd = upd_start []\<rparr>"

definition toy_lib :: app_lib where
  "toy_lib = \<lparr>al_site = \<lparr>si_codec = toy_agent_codec,
        si_dvrs = \<lparr>de_lib = plain_lib, de_rtsp_url = (\<lambda>_ _ h p. h @ p), de_rtsp_ok = (\<lambda>_. False), de_ffmpeg = False, de_frame = (\<lambda>_. None)\<rparr>,
        si_world = (\<lambda>_ _. None), si_reach = (\<lambda>_. False), si_failed = ''failed''\<rparr>,
     al_codec = toy_web_codec, al_getenv = (\<lambda>_. []), al_ip = ''203.0.113.5'', al_version = ''dev'',
     al_update = \<lparr>ue_lib = plain_lib, ue_verify = (\<lambda>_ _ _. False), ue_temp = id, ue_release = (\<lambda>_. None), ue_windows = True,
        ue_version = ''dev'', ue_key = []\<rparr>, al_hops = (\<lambda>_ _. None)\<rparr>"

definition toy_request :: "string \<Rightarrow> web_request" where
  "toy_request p = \<lparr>wr_host = ''localhost:8080'', wr_method = ''POST'', wr_path = p, wr_query = (\<lambda>_. []), wr_body = []\<rparr>"

lemma loopback_localhost: "isLoopbackHost ''localhost:8080''"
  by (simp add: isLoopbackHost_def SplitHostPort_def cut_last_def trim_set_def Let_def)

end
