(* ===== verification/Viewer_Update.thy ===== *)
theory Viewer_Update
  imports Agent_Update
begin

text \<open>
  The updater of the desktop viewer, \<^verbatim>\<open>viewer/updater.go\<close>. The viewer has its own copy of the agent's pinning, download and
  verification, with a host that only tests set, progress events and an installer for each platform. Its
  state holds the agent's (files, addresses, faults), the progress events, the commands that were started
  with the contents of the installer at that moment. Ed25519, the JSON of the
  release, the content length of an answer and the path of the temporary file are parameters.
\<close>

section \<open>Addresses\<close>

datatype platform = Windows | Darwin string | Linux | Unsupported

record viewer_release =
  vr_tag :: string
  vr_html :: string
  vr_assets :: "(string \<times> string \<times> int) list"

record viewer_env =
  ve_base :: upd_env
  ve_seam :: string
  ve_os :: platform
  ve_length :: "hop \<Rightarrow> int"
  ve_ctx :: bool
  ve_exe_dir :: "string option"
  ve_release :: "bytes \<Rightarrow> viewer_release option"

record viewer_upd =
  vu_base :: upd_state
  vu_progress :: "(int \<times> int) list"
  vu_started :: "(string list \<times> bytes option) list"

definition viewer_allowedUpdateHost :: "string \<Rightarrow> string \<Rightarrow> bool" where
  "viewer_allowedUpdateHost seam host = (host = ''github.com'' \<or> host = ''api.github.com''
     \<or> has_suffix host ''.githubusercontent.com'' \<or> (seam \<noteq> [] \<and> host = seam))"

definition viewer_validateUpdateURL :: "viewer_env \<Rightarrow> string \<Rightarrow> bool" where
  "viewer_validateUpdateURL e raw = (case ag_url (ue_lib (ve_base e)) raw of None \<Rightarrow> False
     | Some u \<Rightarrow> if up_scheme u \<noteq> ''https'' then False else viewer_allowedUpdateHost (ve_seam e) (up_hostname u))"

definition viewer_verifyUpdateSignature :: "(bytes \<Rightarrow> bytes \<Rightarrow> bytes \<Rightarrow> bool) \<Rightarrow> bytes \<Rightarrow> string \<Rightarrow> string \<Rightarrow> bool" where
  "viewer_verifyUpdateSignature verify digest sigB64 keyB64 =
     (if keyB64 = [] then False
      else case std_decode (TrimSpace keyB64) of None \<Rightarrow> False
      | Some pub \<Rightarrow>
         if length pub \<noteq> 32 then False
         else case std_decode (TrimSpace sigB64) of None \<Rightarrow> False
         | Some sig \<Rightarrow> if length sig \<noteq> 64 then False else verify pub digest sig)"

section \<open>Downloads\<close>

text \<open>A step on the agent's part of the state.\<close>

definition on_base :: "(upd_state \<Rightarrow> upd_state \<times> 'a) \<Rightarrow> viewer_upd \<Rightarrow> viewer_upd \<times> 'a" where
  "on_base f s = (case f (vu_base s) of (b, r) \<Rightarrow> (s\<lparr>vu_base := b\<rparr>, r))"

definition viewer_get :: "viewer_env \<Rightarrow> hop_world \<Rightarrow> string \<Rightarrow> viewer_upd \<Rightarrow> viewer_upd \<times> hop option" where
  "viewer_get e w url = on_base (client_get (ue_lib (ve_base e)) (viewer_validateUpdateURL e) w url)"

definition remove_file :: "string \<Rightarrow> viewer_upd \<Rightarrow> viewer_upd" where
  "remove_file p s = s\<lparr>vu_base := put_file p None (vu_base s)\<rparr>"

definition write_to :: "string \<Rightarrow> bytes \<Rightarrow> viewer_upd \<Rightarrow> viewer_upd" where
  "write_to p c s = s\<lparr>vu_base := put_file p (Some c) (vu_base s)\<rparr>"

definition viewer_fetchSignature :: "viewer_env \<Rightarrow> hop_world \<Rightarrow> string \<Rightarrow> viewer_upd \<Rightarrow> viewer_upd \<times> string option" where
  "viewer_fetchSignature e w url s =
     (case viewer_get e w url s of
        (s', None) \<Rightarrow> (s', None)
      | (s', Some h) \<Rightarrow>
          let body = concat (hp_chunks h)
          in if hp_status h \<noteq> 200 then (s', None)
             else if \<not> hp_clean h \<and> length body < 1024 then (s', None)
             else (s', Some (TrimSpace (map (\<lambda>b. char_of (unat b)) (take 1024 body)))))"

text \<open>The progress is sent after a write, when the length of the body is known and the window exists.\<close>

definition progress :: "viewer_env \<Rightarrow> hop \<Rightarrow> nat \<Rightarrow> viewer_upd \<Rightarrow> viewer_upd" where
  "progress e h n s = (if ve_length e h > 0 \<and> ve_ctx e then s\<lparr>vu_progress := vu_progress s @ [(int n, ve_length e h)]\<rparr> else s)"

fun viewer_save :: "viewer_env \<Rightarrow> hop \<Rightarrow> string \<Rightarrow> bytes \<Rightarrow> bytes list \<Rightarrow> viewer_upd \<Rightarrow> viewer_upd \<times> bytes option" where
  "viewer_save e h p acc [] s = (s, Some acc)"
| "viewer_save e h p acc (c # cs) s =
     (if c = [] then viewer_save e h p acc cs s
      else case on_base file_op s of
        (s', True) \<Rightarrow> viewer_save e h p (acc @ c) cs (progress e h (length (acc @ c)) (write_to p (acc @ c) s'))
      | (s', False) \<Rightarrow> (remove_file p s', None))"

definition viewer_downloadToTemp :: "viewer_env \<Rightarrow> hop_world \<Rightarrow> string \<Rightarrow> viewer_upd \<Rightarrow> viewer_upd \<times> (string \<times> bytes) option" where
  "viewer_downloadToTemp e w url s =
     (case viewer_get e w url s of
        (s1, None) \<Rightarrow> (s1, None)
      | (s1, Some h) \<Rightarrow>
          if hp_status h \<noteq> 200 then (s1, None)
          else let p = ue_temp (ve_base e) url in
            case on_base file_op s1 of
              (s2, False) \<Rightarrow> (s2, None)
            | (s2, True) \<Rightarrow>
               (case viewer_save e h p [] (hp_chunks h) (write_to p [] s2) of
                  (s3, None) \<Rightarrow> (s3, None)
                | (s3, Some data) \<Rightarrow>
                   if \<not> hp_clean h then (remove_file p s3, None)
                   else (case on_base file_op s3 of
                      (s4, True) \<Rightarrow> (s4, Some (p, sha256 data))
                    | (s4, False) \<Rightarrow> (remove_file p s4, None))))"

definition viewer_downloadVerified :: "viewer_env \<Rightarrow> hop_world \<Rightarrow> string \<Rightarrow> viewer_upd \<Rightarrow> viewer_upd \<times> string option" where
  "viewer_downloadVerified e w url s =
     (if \<not> viewer_validateUpdateURL e url then (s, None)
      else if ue_key (ve_base e) = [] then (s, None)
      else if \<not> viewer_validateUpdateURL e (url @ ''.sig'') then (s, None)
      else case viewer_downloadToTemp e w url s of
        (s1, None) \<Rightarrow> (s1, None)
      | (s1, Some (p, digest)) \<Rightarrow>
          (case viewer_fetchSignature e w (url @ ''.sig'') s1 of
             (s2, None) \<Rightarrow> (remove_file p s2, None)
           | (s2, Some sig) \<Rightarrow>
               if \<not> viewer_verifyUpdateSignature (ue_verify (ve_base e)) digest sig (ue_key (ve_base e)) then (remove_file p s2, None)
               else (s2, Some p)))"

section \<open>Installing\<close>

definition elevate :: "string \<Rightarrow> string" where
  "elevate p = ''Start-Process -FilePath '' @ [CHR 0x27] @ p @ [CHR 0x27] @ '' -Verb RunAs''"

definition started :: "string list \<Rightarrow> string \<Rightarrow> viewer_upd \<Rightarrow> viewer_upd" where
  "started argv p s = s\<lparr>vu_started := vu_started s @ [(argv, us_files (vu_base s) p)]\<rparr>"

definition leave :: "viewer_upd \<Rightarrow> viewer_upd" where
  "leave s = s\<lparr>vu_base := (vu_base s)\<lparr>us_exit := True\<rparr>\<rparr>"

text \<open>A command that is started may fail to start, \<open>tar\<close> may also fail while it runs. On Linux a message asks
  the user to restart the program, elsewhere the process exits.\<close>

datatype install = Not_Installed | Exited | Restart_Needed

definition viewer_runInstaller :: "viewer_env \<Rightarrow> string \<Rightarrow> viewer_upd \<Rightarrow> viewer_upd \<times> install" where
  "viewer_runInstaller e p s =
     (case ve_os e of
        Windows \<Rightarrow> (case on_base file_op s of
            (s', False) \<Rightarrow> (s', Not_Installed)
          | (s', True) \<Rightarrow> (leave (started [''powershell'', ''-NoProfile'', ''-WindowStyle'', ''Hidden'', ''-Command'', elevate p] p s'), Exited))
      | Darwin _ \<Rightarrow> (case on_base file_op s of
            (s', False) \<Rightarrow> (s', Not_Installed) | (s', True) \<Rightarrow> (leave (started [''open'', p] p s'), Exited))
      | Linux \<Rightarrow> (case ve_exe_dir e of None \<Rightarrow> (s, Not_Installed)
          | Some dir \<Rightarrow> (case on_base file_op s of
              (s', False) \<Rightarrow> (s', Not_Installed)
            | (s', True) \<Rightarrow> (remove_file p (started [''tar'', ''xzf'', p, ''-C'', dir] p s'), Restart_Needed)))
      | Unsupported \<Rightarrow> (s, Not_Installed))"

definition viewer_DownloadAndInstall :: "viewer_env \<Rightarrow> hop_world \<Rightarrow> string \<Rightarrow> viewer_upd \<Rightarrow> viewer_upd \<times> install" where
  "viewer_DownloadAndInstall e w url s =
     (case viewer_downloadVerified e w url s of (s1, None) \<Rightarrow> (s1, Not_Installed) | (s1, Some p) \<Rightarrow> viewer_runInstaller e p s1)"

definition platformSuffix :: "platform \<Rightarrow> string" where
  "platformSuffix os = (case os of Darwin arch \<Rightarrow> ''darwin-'' @ arch @ ''.dmg'' | Windows \<Rightarrow> ''windows-amd64-setup.exe''
     | Linux \<Rightarrow> ''linux-amd64.tar.gz'' | Unsupported \<Rightarrow> [])"

definition viewer_info :: "viewer_env \<Rightarrow> viewer_release \<Rightarrow> update_info \<times> int" where
  "viewer_info e r =
     (case find (\<lambda>(n, _). platformSuffix (ve_os e) \<noteq> [] \<and> contains_sub n (platformSuffix (ve_os e))) (vr_assets r) of
        None \<Rightarrow> (\<lparr>ui_available = (ue_version (ve_base e) \<noteq> ''dev'' \<and> vr_tag r \<noteq> ue_version (ve_base e)), ui_latest = vr_tag r,
                  ui_download = [], ui_html = vr_html r\<rparr>, 0)
      | Some (_, u, n) \<Rightarrow> (\<lparr>ui_available = (ue_version (ve_base e) \<noteq> ''dev'' \<and> vr_tag r \<noteq> ue_version (ve_base e)), ui_latest = vr_tag r,
                  ui_download = u, ui_html = vr_html r\<rparr>, n))"

definition viewer_CheckForUpdate :: "viewer_env \<Rightarrow> hop_world \<Rightarrow> viewer_upd \<Rightarrow> viewer_upd \<times> (update_info \<times> int) option" where
  "viewer_CheckForUpdate e w s =
     (case on_base (client_get (ue_lib (ve_base e)) (\<lambda>_. True) w release_url) s of
        (s', None) \<Rightarrow> (s', None)
      | (s', Some h) \<Rightarrow>
          if hp_status h \<noteq> 200 then (s', None)
          else (s', map_option (viewer_info e) (ve_release e (concat (hp_chunks h)))))"

section \<open>The viewer downloads like the agent\<close>

lemma viewer_allowed: "viewer_allowedUpdateHost [] = allowedUpdateHost"
  by (intro ext) (simp add: viewer_allowedUpdateHost_def allowedUpdateHost_def)

lemma viewer_valid: "ve_seam e = [] \<Longrightarrow> viewer_validateUpdateURL e = validateUpdateURL (ue_lib (ve_base e))"
  by (intro ext) (simp add: viewer_validateUpdateURL_def validateUpdateURL_def viewer_allowed split: option.split)

lemma viewer_verify: "viewer_verifyUpdateSignature verify digest sig key = (verifyUpdateSignature verify digest sig key = None)"
  by (auto simp: viewer_verifyUpdateSignature_def verifyUpdateSignature_def split: option.split)

text \<open>The result and the agent's part of the state.\<close>

definition seen :: "viewer_upd \<times> 'a \<Rightarrow> upd_state \<times> 'a" where
  "seen x = (vu_base (fst x), snd x)"

lemma seen_on_base [simp]: "seen (on_base f s) = f (vu_base s)"
  by (simp add: seen_def on_base_def split_beta)

lemma seen_fst: "vu_base (fst x) = fst (seen x)" and seen_snd: "snd x = snd (seen x)"
  by (simp_all add: seen_def)

lemma seen_get: "ve_seam e = [] \<Longrightarrow> seen (viewer_get e w url s) = update_get (ue_lib (ve_base e)) w url (vu_base s)"
  by (simp add: viewer_get_def update_get_def viewer_valid)

lemma seen_pair: "seen (s, r) = (vu_base s, r)"
  by (simp add: seen_def)

lemma base_frames [simp]:
  "vu_base (progress e h n s) = vu_base s" "vu_base (write_to p c s) = put_file p (Some c) (vu_base s)"
  "vu_base (remove_file p s) = put_file p None (vu_base s)"
  by (simp_all add: progress_def write_to_def remove_file_def)

lemma seen_split: "x = (s, r) \<Longrightarrow> seen x = y \<Longrightarrow> y = (vu_base s, r)"
  by (simp add: seen_pair)

lemma seen_save: "seen (viewer_save e h p acc cs s) = save_chunks p acc cs (vu_base s)"
proof (induction cs arbitrary: acc s)
  case (Cons c cs)
  obtain s' r where f: "on_base file_op s = (s', r)" by fastforce
  note b = seen_split [OF f seen_on_base]
  show ?case using Cons.IH by (cases "c = []"; cases r) (simp_all add: f b seen_pair)
qed (simp add: seen_pair)

lemma seen_fetchSignature:
  assumes "ve_seam e = []"
  shows "seen (viewer_fetchSignature e w url s) = fetchSignature (ue_lib (ve_base e)) w url (vu_base s)"
proof -
  obtain s' r where g: "viewer_get e w url s = (s', r)" by fastforce
  note b = seen_split [OF g seen_get [OF assms]]
  show ?thesis by (cases r) (simp_all add: viewer_fetchSignature_def fetchSignature_def g b seen_pair Let_def)
qed

lemma seen_downloadToTemp:
  assumes "ve_seam e = []"
  shows "seen (viewer_downloadToTemp e w url s) = downloadToTemp (ve_base e) w url (vu_base s)"
proof -
  let ?p = "ue_temp (ve_base e) url"
  obtain s1 r where g: "viewer_get e w url s = (s1, r)" by fastforce
  note b1 = seen_split [OF g seen_get [OF assms]]
  show ?thesis
  proof (cases r)
    case None
    then show ?thesis by (simp add: viewer_downloadToTemp_def downloadToTemp_def g b1 seen_pair)
  next
    case (Some h)
    obtain s2 ok where f: "on_base file_op s1 = (s2, ok)" by fastforce
    note b2 = seen_split [OF f seen_on_base]
    obtain s3 d where v: "viewer_save e h ?p [] (hp_chunks h) (write_to ?p [] s2) = (s3, d)" by fastforce
    note b3 = seen_split [OF v seen_save]
    obtain s4 ok' where c: "on_base file_op s3 = (s4, ok')" by fastforce
    note b4 = seen_split [OF c seen_on_base]
    show ?thesis unfolding viewer_downloadToTemp_def downloadToTemp_def g b1 Some
      by (cases ok; cases d; cases ok') (simp_all add: f b2 v b3 [simplified] c b4 seen_pair Let_def)
  qed
qed

lemma seen_downloadVerified:
  assumes "ve_seam e = []"
  shows "seen (viewer_downloadVerified e w url s) = downloadVerified (ve_base e) w url (vu_base s)"
proof -
  obtain s1 r where d: "viewer_downloadToTemp e w url s = (s1, r)" by fastforce
  note b1 = seen_split [OF d seen_downloadToTemp [OF assms]]
  obtain s2 g where f: "viewer_fetchSignature e w (url @ ''.sig'') s1 = (s2, g)" by fastforce
  note b2 = seen_split [OF f seen_fetchSignature [OF assms]]
  show ?thesis unfolding viewer_downloadVerified_def downloadVerified_def viewer_valid [OF assms] viewer_verify
    by (cases r; cases g) (auto simp: d b1 f b2 seen_pair)
qed

text \<open>What the viewer starts was verified: the downloads start nothing, and the installer that is started then is the
  file that passed the check.\<close>

lemma started_frames [simp]:
  "vu_started (fst (on_base f s)) = vu_started s" "vu_started (progress e h n s) = vu_started s"
  "vu_started (write_to p c s) = vu_started s" "vu_started (remove_file p s) = vu_started s" "vu_started (leave s) = vu_started s"
  "vu_started (fst (viewer_get e w url s)) = vu_started s"
  by (simp_all add: on_base_def progress_def write_to_def remove_file_def leave_def viewer_get_def split_beta)

lemma started_save [simp]: "vu_started (fst (viewer_save e h p acc cs s)) = vu_started s"
  by (induction cs arbitrary: acc s) (simp_all add: split_beta split: bool.split)

lemma started_fetch [simp]: "vu_started (fst (viewer_fetchSignature e w url s)) = vu_started s"
  by (simp add: viewer_fetchSignature_def split_beta Let_def split: option.split)

lemma started_temp [simp]: "vu_started (fst (viewer_downloadToTemp e w url s)) = vu_started s"
proof -
  obtain s1 r where g: "viewer_get e w url s = (s1, r)" by fastforce
  have k: "vu_started s1 = vu_started s" using started_frames(6) [of e w url s] g by simp
  show ?thesis
  proof (cases r)
    case (Some h)
    obtain s2 ok where f: "on_base file_op s1 = (s2, ok)" by fastforce
    obtain s3 d where v: "viewer_save e h (ue_temp (ve_base e) url) [] (hp_chunks h) (write_to (ue_temp (ve_base e) url) [] s2) = (s3, d)" by fastforce
    obtain s4 ok' where c: "on_base file_op s3 = (s4, ok')" by fastforce
    have "vu_started s2 = vu_started s1" "vu_started s3 = vu_started s2" "vu_started s4 = vu_started s3"
      using started_frames(1) [of file_op s1] f started_save v started_frames(1) [of file_op s3] c
      by (metis fst_conv started_frames(3))+
    with k show ?thesis unfolding viewer_downloadToTemp_def g Some
      by (cases ok; cases d; cases ok') (simp_all add: f v c Let_def)
  qed (simp add: viewer_downloadToTemp_def g k)
qed

lemma started_downloadVerified: "vu_started (fst (viewer_downloadVerified e w url s)) = vu_started s"
proof -
  obtain s1 r where d: "viewer_downloadToTemp e w url s = (s1, r)" by fastforce
  obtain s2 g where f: "viewer_fetchSignature e w (url @ ''.sig'') s1 = (s2, g)" by fastforce
  have "vu_started s1 = vu_started s" "vu_started s2 = vu_started s1"
    using started_temp [of e w url s] d started_fetch [of e w "url @ ''.sig''" s1] f by simp_all
  then show ?thesis unfolding viewer_downloadVerified_def
    by (cases r; cases g) (auto simp: d f)
qed

lemma viewer_starts_signed:
  assumes "ve_seam e = []"
  shows "\<exists>rs. vu_started (fst (viewer_DownloadAndInstall e w url s)) = vu_started s @ rs
    \<and> list_all (\<lambda>(argv, c). \<exists>p d. c = Some d \<and> signed_run (ve_base e) (p, d)) rs"
proof -
  obtain s1 r where d: "viewer_downloadVerified e w url s = (s1, r)" by fastforce
  have k: "vu_started s1 = vu_started s" using started_downloadVerified [of e w url s] d by simp
  show ?thesis
  proof (cases r)
    case None
    with d k show ?thesis by (simp add: viewer_DownloadAndInstall_def)
  next
    case (Some p)
    note b = seen_split [OF d seen_downloadVerified [OF assms], unfolded Some]
    obtain c where c: "us_files (vu_base s1) p = Some c" "signed_run (ve_base e) (p, c)" using downloadVerified_file [OF b] by blast
    have "\<exists>rs. vu_started (fst (viewer_runInstaller e p s1)) = vu_started s1 @ rs
        \<and> list_all (\<lambda>(argv, x). x = Some c) rs"
      by (simp add: viewer_runInstaller_def on_base_def started_def c split_beta split: platform.split option.split bool.split)
    then obtain rs where rs: "vu_started (fst (viewer_runInstaller e p s1)) = vu_started s1 @ rs"
      "list_all (\<lambda>(argv, x). x = Some c) rs" by blast
    from rs(2) c(2) have "list_all (\<lambda>(argv, c). \<exists>p d. c = Some d \<and> signed_run (ve_base e) (p, d)) rs"
      by (induction rs) auto
    with rs(1) k d Some show ?thesis by (auto simp: viewer_DownloadAndInstall_def)
  qed
qed

text \<open>The command for PowerShell puts the path between single quotes without doubling those it contains: a path with
  a quote ends the string early, and what follows is no longer part of the path.\<close>

definition quoted_part :: "string \<Rightarrow> string" where
  "quoted_part s = takeWhile (\<lambda>c. c \<noteq> CHR 0x27) (drop 25 s)"

lemma elevate_plain: "CHR 0x27 \<notin> set p \<Longrightarrow> quoted_part (elevate p) = p"
  by (auto simp: quoted_part_def elevate_def takeWhile_tail takeWhile_eq_all_conv)

section \<open>Properties\<close>

text \<open>C36. The two copies of the updater are one: without the host that only tests set, the viewer contacts the
  same addresses, leaves the same files, accepts the same installers and fails in the same cases as the
  agent, whatever the servers and the file system do.\<close>

theorem viewer_updater_agrees:
  assumes "ve_seam e = []"
  shows "seen (viewer_downloadVerified e w url s) = downloadVerified (ve_base e) w url (vu_base s)"
  by (rule seen_downloadVerified [OF assms])


lemma elevate_quote: "quoted_part (elevate (''a'' @ [CHR 0x27] @ '';calc'')) = ''a''"
  by (simp add: quoted_part_def elevate_def)

text \<open>A small library: the addresses of one host.\<close>

definition toy_update :: upd_env where
  "toy_update = \<lparr>ue_lib = \<lparr>ag_url = (\<lambda>s. if has_prefix s ''https://github.com/'' then Some \<lparr>up_scheme = ''https'',
        up_host = ''github.com'', up_hostname = ''github.com'', up_request = drop 18 s\<rparr> else None),
      ag_with_host = (\<lambda>s _. s), ag_tokens = (\<lambda>_. []), ag_random = (\<lambda>_ n. replicate n 0), ag_created = (\<lambda>_. [])\<rparr>,
    ue_verify = (\<lambda>pub d sig. sig = replicate 64 1), ue_temp = (\<lambda>u. ''/tmp/setup''), ue_release = (\<lambda>_. None), ue_windows = True,
    ue_version = ''v1'', ue_key = replicate 43 CHR ''A'' @ ''=''\<rparr>"

definition toy_viewer :: viewer_env where
  "toy_viewer = \<lparr>ve_base = toy_update, ve_seam = [], ve_os = Windows, ve_length = (\<lambda>_. 3), ve_ctx = True, ve_exe_dir = None,
     ve_release = (\<lambda>_. None)\<rparr>"

theorem viewer_updater_agrees_witness:
  "seen (viewer_downloadVerified toy_viewer (\<lambda>_ _. None) ''https://github.com/a'' \<lparr>vu_base = upd_start [], vu_progress = [], vu_started = []\<rparr>)
     = downloadVerified toy_update (\<lambda>_ _. None) ''https://github.com/a'' (upd_start [])"
  using viewer_updater_agrees [of toy_viewer "\<lambda>_ _. None" "''https://github.com/a''" "\<lparr>vu_base = upd_start [], vu_progress = [], vu_started = []\<rparr>"]
  by (simp add: toy_viewer_def)

end
