(* ===== verification/Release_Sign.thy ===== *)
theory Release_Sign
  imports Viewer_Update
begin

text \<open>
  The command that signs a release, \<^verbatim>\<open>viewer/cmd/updatesign/main.go\<close>, and the path of a release from the
  signer to the two updaters. Ed25519 is the parameter \<open>sign\<close>.
\<close>

section \<open>Signing a release\<close>

text \<open>The files of the signer; the outcomes of the reads to come (a True fails) and of the writes (a number:
  the write fails after so many bytes).\<close>

record sign_disk =
  sd_files :: "string \<Rightarrow> bytes option"
  sd_reads :: "bool list"
  sd_writes :: "nat option list"

text \<open>The two keys that \<open>gen\<close> prints for a generated pair, the public one for the updaters, the private one for the signer.\<close>

definition gen :: "bytes \<Rightarrow> bytes \<Rightarrow> string \<times> string" where
  "gen pub priv = (std_encode pub, std_encode priv)"

definition decodePrivateKey :: "string \<Rightarrow> bytes option" where
  "decodePrivateKey keyB64 =
     (if TrimSpace keyB64 = [] then None
      else case std_decode (TrimSpace keyB64) of None \<Rightarrow> None
      | Some key \<Rightarrow> if length key \<noteq> 64 then None else Some key)"

definition sha256File :: "string \<Rightarrow> sign_disk \<Rightarrow> sign_disk \<times> bytes option" where
  "sha256File path d =
     (case sd_reads d of
        True # rs \<Rightarrow> (d\<lparr>sd_reads := rs\<rparr>, None)
      | rs \<Rightarrow> (d\<lparr>sd_reads := tl rs\<rparr>, map_option sha256 (sd_files d path)))"

definition signFileToSig :: "(bytes \<Rightarrow> bytes \<Rightarrow> bytes) \<Rightarrow> bytes \<Rightarrow> string \<Rightarrow> sign_disk \<Rightarrow> sign_disk \<times> string option" where
  "signFileToSig sign priv path d = (case sha256File path d of (d', r) \<Rightarrow> (d', map_option (\<lambda>dg. std_encode (sign priv dg)) r))"

definition write_sig :: "string \<Rightarrow> bytes \<Rightarrow> sign_disk \<Rightarrow> sign_disk \<times> bool" where
  "write_sig p c d =
     (case sd_writes d of
        Some n # ws \<Rightarrow> (d\<lparr>sd_files := (sd_files d)(p := Some (take n c)), sd_writes := ws\<rparr>, False)
      | ws \<Rightarrow> (d\<lparr>sd_files := (sd_files d)(p := Some c), sd_writes := tl ws\<rparr>, True))"

fun sign_each :: "(bytes \<Rightarrow> bytes \<Rightarrow> bytes) \<Rightarrow> bytes \<Rightarrow> string list \<Rightarrow> sign_disk \<Rightarrow> sign_disk \<times> bool" where
  "sign_each sign priv [] d = (d, True)"
| "sign_each sign priv (f # fs) d =
     (case signFileToSig sign priv f d of
        (d1, None) \<Rightarrow> (d1, False)
      | (d1, Some sig) \<Rightarrow> (case write_sig (f @ ''.sig'') (str_bytes (sig @ [CHR 0x0A])) d1 of
          (d2, True) \<Rightarrow> sign_each sign priv fs d2 | (d2, False) \<Rightarrow> (d2, False)))"

definition signFiles :: "(bytes \<Rightarrow> bytes \<Rightarrow> bytes) \<Rightarrow> string \<Rightarrow> string list \<Rightarrow> sign_disk \<Rightarrow> sign_disk \<times> bool" where
  "signFiles sign keyB64 files d =
     (case decodePrivateKey keyB64 of None \<Rightarrow> (d, False)
      | Some priv \<Rightarrow> if files = [] then (d, False) else sign_each sign priv files d)"

section \<open>Base64 is decoded as it was encoded\<close>

lemma b64_low: "k < 62 \<Longrightarrow> char_val (b64_char k) \<notin> {9, 10, 11, 12, 13, 32, 43, 45, 47, 61, 95}"
  by (simp add: b64_char_def char_val_def) arith

lemma std_letter:
  assumes "k < 64"
  shows "std_val (std_char k) = Some k" "std_char k \<noteq> CHR ''=''" "\<not> is_space (std_char k)"
    "char_val (std_char k) \<noteq> 10" "char_val (std_char k) \<noteq> 13"
proof -
  have n: "b64_char k \<noteq> CHR ''+'' \<and> b64_char k \<noteq> CHR ''/'' \<and> b64_char k \<noteq> CHR ''-'' \<and> b64_char k \<noteq> CHR ''_'' \<and> b64_char k \<noteq> CHR ''=''"
    if "k < 62" using b64_low [OF that] by (auto simp: char_val_def)
  have sp: "\<not> is_space (b64_char k)" if "k < 62"
  proof -
    have "b64_char k \<noteq> CHR '' ''" using b64_low [OF that] by (auto simp: char_val_def)
    moreover have "\<not> (9 \<le> char_val (b64_char k) \<and> char_val (b64_char k) \<le> 13)"
      using b64_low [OF that] unfolding insert_iff empty_iff by presburger
    ultimately show ?thesis by (simp add: is_space_def)
  qed
  consider "k < 62" | "k = 62" | "k = 63" using assms by arith
  note c = this
  show "std_val (std_char k) = Some k" by (rule c) (use n in \<open>auto simp: std_val_def std_char_def\<close>)
  show "std_char k \<noteq> CHR ''=''" by (rule c) (use n in \<open>auto simp: std_char_def\<close>)
  show "\<not> is_space (std_char k)" by (rule c) (use sp in \<open>auto simp: std_char_def is_space_def char_val_def\<close>)
  show "char_val (std_char k) \<noteq> 10" by (rule c) (use b64_low in \<open>auto simp: std_char_def char_val_def\<close>)
  show "char_val (std_char k) \<noteq> 13" by (rule c) (use b64_low in \<open>auto simp: std_char_def char_val_def\<close>)
qed

lemma b64_padding: "(4 - length (b64_groups xs) mod 4) mod 4 = (3 - length xs mod 3) mod 3"
proof (induction xs rule: b64_groups.induct)
  case (1 a b c r)
  have "length (b64_groups (a # b # c # r)) = length (b64_groups r) + 4" "length (a # b # c # r) = length r + 3" by simp_all
  then show ?case using 1 by (simp only: mod_add_self2)
qed simp_all

lemma std_encode_plain: "c \<in> set (std_encode bs) \<Longrightarrow> \<not> is_space c \<and> char_val c \<noteq> 10 \<and> char_val c \<noteq> 13"
proof -
  assume c: "c \<in> set (std_encode bs)"
  have g: "\<forall>y\<in>set (b64_groups (map unat bs)). y < 64" by (rule b64_groups_bound) (simp add: unat_byte_less)
  from c consider k where "k \<in> set (b64_groups (map unat bs))" "c = std_char k" | "c = CHR ''=''"
    by (auto simp: std_encode_def)
  then show ?thesis
    by cases (use g std_letter in auto, simp_all add: is_space_def char_val_def)
qed

lemma std_round_trip [simp]: "std_decode (std_encode bs) = Some bs"
proof -
  let ?g = "b64_groups (map unat bs)" and ?pad = "replicate ((3 - length bs mod 3) mod 3) CHR ''=''"
  have b: "\<forall>x\<in>set (map unat bs). x < 256" by (simp add: unat_byte_less)
  have g: "\<forall>y\<in>set ?g. y < 64" by (rule b64_groups_bound [OF b])
  have cs: "filter (\<lambda>c. char_val c \<noteq> 10 \<and> char_val c \<noteq> 13) (std_encode bs) = std_encode bs"
    using std_encode_plain by (simp add: filter_id_conv)
  have e: "std_encode bs = map std_char ?g @ ?pad" by (simp add: std_encode_def)
  have ds: "takeWhile (\<lambda>c. c \<noteq> CHR ''='') (std_encode bs) = map std_char ?g"
    unfolding e using g std_letter(2) by (subst takeWhile_append2) (auto simp: takeWhile_replicate)
  have v: "list_all (\<lambda>c. std_val c \<noteq> None) (map std_char ?g)" "map (the \<circ> std_val) (map std_char ?g) = ?g"
    using g by (auto simp: list_all_iff std_letter(1) intro!: map_idI)
  have p: "drop (length ?g) (std_encode bs) = replicate ((4 - length ?g mod 4) mod 4) CHR ''=''"
    using b64_padding [of "map unat bs"] by (simp add: e)
  show ?thesis unfolding std_decode_def Let_def cs ds length_map
    using v p b64_bytes_groups [OF b] by (simp add: map_idI)
qed

lemma TrimSpace_line: "(\<And>c. c \<in> set s \<Longrightarrow> \<not> is_space c) \<Longrightarrow> TrimSpace (s @ [CHR 0x0A]) = s \<and> TrimSpace s = s"
proof -
  assume n: "\<And>c. c \<in> set s \<Longrightarrow> \<not> is_space c"
  have sp: "is_space CHR 0x0A" by (simp add: is_space_def char_val_def)
  have d: "dropWhile is_space t = t" if "set t \<subseteq> set s" for t
    using that n by (cases t) auto
  show ?thesis
    by (cases "s = []") (use d [of s] d [of "rev s"] sp n in \<open>auto simp: TrimSpace_def trim_set_def dropWhile_append3 neq_Nil_conv\<close>)
qed

section \<open>From the signer to the updaters\<close>

lemma save_all: "us_faults s = [] \<Longrightarrow> \<exists>s'. save_chunks p acc cs s = (s', Some (acc @ concat cs)) \<and> us_faults s' = []"
proof (induction cs arbitrary: acc s)
  case (Cons c cs)
  have f: "file_op s = (s, True)" using Cons.prems by (simp add: file_op_def)
  from Cons.IH [of s acc] Cons.IH [of "put_file p (Some (acc @ c)) s" "acc @ c"] Cons.prems show ?case
    by (cases "c = []") (simp_all add: f put_file_def)
qed simp

lemma save_file: "us_faults s = [] \<Longrightarrow> us_files s p = Some acc \<Longrightarrow>
    \<exists>s'. save_chunks p acc cs s = (s', Some (acc @ concat cs)) \<and> us_faults s' = [] \<and> us_files s' p = Some (acc @ concat cs)"
  using save_all save_chunks_file by metis

lemma sign_disk_frames:
  "signFileToSig sign priv g d = (d1, Some sig) \<Longrightarrow> sd_files d1 = sd_files d \<and> (\<exists>c. sd_files d g = Some c \<and> sig = std_encode (sign priv (sha256 c)))"
  "write_sig p c d1 = (d2, True) \<Longrightarrow> sd_files d2 = (sd_files d1)(p := Some c)"
  by (auto simp: signFileToSig_def sha256File_def write_sig_def split: list.splits bool.splits option.splits)

lemma sign_each_cons:
  assumes "sign_each sign priv (g # fs) d = (d', True)"
  obtains c d2 where "sd_files d g = Some c" "sign_each sign priv fs d2 = (d', True)"
    "sd_files d2 = (sd_files d)(g @ ''.sig'' := Some (str_bytes (std_encode (sign priv (sha256 c)) @ [CHR 0x0A])))"
proof -
  obtain d1 sig where 1: "signFileToSig sign priv g d = (d1, Some sig)"
    using assms by (auto split: prod.splits option.splits)
  obtain d2 where 2: "write_sig (g @ ''.sig'') (str_bytes (sig @ [CHR 0x0A])) d1 = (d2, True)"
    using assms 1 by (auto split: prod.splits bool.splits)
  have 3: "sign_each sign priv fs d2 = (d', True)" using assms 1 2 by simp
  show thesis using that 3 sign_disk_frames(1) [OF 1] sign_disk_frames(2) [OF 2] by auto
qed

text \<open>A file that is no signature keeps its contents, and its signature is beside it when all files are signed.\<close>

lemma sign_each_keeps:
  "sign_each sign priv fs d = (d', True) \<Longrightarrow> \<forall>g\<in>set fs. p \<noteq> g @ ''.sig'' \<Longrightarrow> sd_files d' p = sd_files d p"
proof (induction fs arbitrary: d)
  case (Cons g fs)
  from Cons.prems(1) show ?case
    by (rule sign_each_cons) (use Cons in simp)
qed simp

lemma sign_each_sig:
  assumes "sign_each sign priv fs d = (d', True)" "f \<in> set fs" "\<forall>g\<in>set fs. f \<noteq> g @ ''.sig''" "sd_files d f = Some data"
  shows "sd_files d' (f @ ''.sig'') = Some (str_bytes (std_encode (sign priv (sha256 data)) @ [CHR 0x0A]))"
  using assms
proof (induction fs arbitrary: d)
  case (Cons g fs)
  from Cons.prems(1) obtain c d2 where g: "sd_files d g = Some c" and r: "sign_each sign priv fs d2 = (d', True)"
    and d2: "sd_files d2 = (sd_files d)(g @ ''.sig'' := Some (str_bytes (std_encode (sign priv (sha256 c)) @ [CHR 0x0A])))"
    by (rule sign_each_cons)
  have k: "sd_files d2 f = Some data" using d2 Cons.prems by simp
  show ?case
  proof (cases "f \<in> set fs")
    case True
    with Cons.IH [OF r] k Cons.prems show ?thesis by simp
  next
    case False
    then have "g = f" "c = data" using Cons.prems g by auto
    moreover have "\<forall>h\<in>set fs. f @ ''.sig'' \<noteq> h @ ''.sig''" using False by auto
    ultimately show ?thesis using sign_each_keeps [OF r] d2 by simp
  qed
qed simp

text \<open>Files that can be read and written are signed.\<close>

lemma sign_each_total:
  "sd_reads d = [] \<Longrightarrow> sd_writes d = [] \<Longrightarrow> \<forall>f\<in>set fs. sd_files d f \<noteq> None \<Longrightarrow> \<exists>d'. sign_each sign priv fs d = (d', True)"
proof (induction fs arbitrary: d)
  case (Cons f fs)
  then obtain c where c: "sd_files d f = Some c" by auto
  let ?sig = "str_bytes (std_encode (sign priv (sha256 c)) @ [CHR 0x0A])"
  let ?d = "d\<lparr>sd_files := (sd_files d)(f @ ''.sig'' := Some ?sig)\<rparr>"
  have 1: "signFileToSig sign priv f d = (d, Some (std_encode (sign priv (sha256 c))))"
    using Cons.prems(1) c by (simp add: signFileToSig_def sha256File_def)
  have 2: "write_sig (f @ ''.sig'') ?sig d = (?d, True)" using Cons.prems(2) by (simp add: write_sig_def)
  have "\<exists>d'. sign_each sign priv fs ?d = (d', True)" by (rule Cons.IH) (use Cons.prems in auto)
  with 1 2 show ?case by simp
qed simp

lemma str_bytes_back [simp]: "map (\<lambda>b. char_of (unat b)) (str_bytes s) = s"
  by (induction s) (simp_all add: str_bytes_def char_val_def unat_of_nat)

lemma b64_groups_length: "length (b64_groups xs) \<le> 2 * length xs"
  by (induction xs rule: b64_groups.induct) simp_all

lemma signature_line:
  assumes "length sig = 64"
  shows "take 1024 (str_bytes (std_encode sig @ [CHR 0x0A])) = str_bytes (std_encode sig @ [CHR 0x0A])"
  using b64_groups_length [of "map unat sig"] assms by (simp add: str_bytes_def std_encode_def)

text \<open>A world that serves an address with a body, whatever was asked before.\<close>

definition serves :: "hop_world \<Rightarrow> string \<Rightarrow> bytes \<Rightarrow> bool" where
  "serves w url body = (\<forall>log. \<exists>cs. w log url = Some \<lparr>hp_status = 200, hp_location = None, hp_chunks = cs, hp_clean = True\<rparr>
     \<and> concat cs = body)"

lemma serves_get:
  assumes "serves w url body" "validateUpdateURL lib url"
  shows "\<exists>cs. update_get lib w url s = (s\<lparr>us_urls := us_urls s @ [url]\<rparr>,
    Some \<lparr>hp_status = 200, hp_location = None, hp_chunks = cs, hp_clean = True\<rparr>) \<and> concat cs = body"
proof -
  obtain cs where c: "w (us_urls s) url = Some \<lparr>hp_status = 200, hp_location = None, hp_chunks = cs, hp_clean = True\<rparr>" "concat cs = body"
    using assms(1) by (auto simp: serves_def)
  have "ag_url lib url \<noteq> None" using assms(2) by (auto simp: validateUpdateURL_def split: option.splits)
  then have "update_get lib w url s = (s\<lparr>us_urls := us_urls s @ [url]\<rparr>,
      Some \<lparr>hp_status = 200, hp_location = None, hp_chunks = cs, hp_clean = True\<rparr>)"
    by (simp add: update_get_def client_get_def follow.simps [of _ _ 9] is_redirect_def c(1) Let_def)
  with c(2) show ?thesis by blast
qed

lemma served_installer:
  assumes "serves w url data" "validateUpdateURL (ue_lib e) url" "us_faults s = []"
  shows "\<exists>s'. downloadToTemp e w url s = (s', Some (ue_temp e url, sha256 data)) \<and> us_faults s' = []
    \<and> us_files s' (ue_temp e url) = Some data"
proof -
  let ?p = "ue_temp e url" and ?s = "s\<lparr>us_urls := us_urls s @ [url]\<rparr>"
  obtain cs where g: "update_get (ue_lib e) w url s = (?s, Some \<lparr>hp_status = 200, hp_location = None, hp_chunks = cs, hp_clean = True\<rparr>)"
    "concat cs = data" using serves_get [OF assms(1, 2)] by blast
  have ok: "file_op t = (t, True)" if "us_faults t = []" for t using that by (simp add: file_op_def)
  obtain s' where s: "save_chunks ?p [] cs (put_file ?p (Some []) ?s) = (s', Some data)" "us_faults s' = []" "us_files s' ?p = Some data"
    using save_file [of "put_file ?p (Some []) ?s" ?p "[]" cs] assms(3) g(2) by (auto simp: put_file_def)
  show ?thesis using ok assms(3) s by (simp add: downloadToTemp_def g(1) Let_def)
qed

lemma served_signature:
  assumes "serves w url (str_bytes (std_encode sig @ [CHR 0x0A]))" "validateUpdateURL lib url" "length sig = 64"
  shows "\<exists>s'. fetchSignature lib w url s = (s', Some (std_encode sig)) \<and> us_files s' = us_files s"
proof -
  let ?s = "s\<lparr>us_urls := us_urls s @ [url]\<rparr>"
  obtain cs where g: "update_get lib w url s = (?s, Some \<lparr>hp_status = 200, hp_location = None, hp_chunks = cs, hp_clean = True\<rparr>)"
    "concat cs = str_bytes (std_encode sig @ [CHR 0x0A])" using serves_get [OF assms(1, 2)] by blast
  have "TrimSpace (std_encode sig @ [CHR 0x0A]) = std_encode sig" using TrimSpace_line std_encode_plain by blast
  then show ?thesis by (simp add: fetchSignature_def g Let_def signature_line [OF assms(3)])
qed

lemma std_encode_ne: "bs \<noteq> [] \<Longrightarrow> std_encode bs \<noteq> []"
proof
  assume "bs \<noteq> []" "std_encode bs = []"
  then show False using std_round_trip [of bs] std_round_trip [of "[]"] by (simp add: std_encode_values)
qed

lemma signature_verifies:
  assumes "length pub = 32" "length sig = 64" "verify pub digest sig"
  shows "verifyUpdateSignature verify digest (std_encode sig) (std_encode pub) = None"
proof -
  have t: "TrimSpace (std_encode x) = std_encode x" for x using TrimSpace_line std_encode_plain by blast
  have "std_encode pub \<noteq> []" by (rule std_encode_ne) (use assms(1) in auto)
  then show ?thesis using assms by (simp add: verifyUpdateSignature_def t)
qed

lemma released_installer:
  assumes k: "gen pub priv = (ue_key e, key64)" "length pub = 32" "length priv = 64"
    and v: "\<And>m. length (sign priv m) = 64 \<and> ue_verify e pub m (sign priv m)"
    and f: "signFiles sign key64 fs d = (d', True)" "f \<in> set fs" "\<forall>g\<in>set fs. f \<noteq> g @ ''.sig''" "sd_files d f = Some data"
    and u: "validateUpdateURL (ue_lib e) url" "validateUpdateURL (ue_lib e) (url @ ''.sig'')"
    and w: "serves w url data" "serves w (url @ ''.sig'') (the (sd_files d' (f @ ''.sig'')))"
    and s: "us_faults s = []"
  shows "\<exists>s'. downloadVerified e w url s = (s', Some (ue_temp e url)) \<and> us_files s' (ue_temp e url) = Some data"
proof -
  let ?sig = "sign priv (sha256 data)"
  have t: "TrimSpace (std_encode x) = std_encode x" for x using TrimSpace_line std_encode_plain by blast
  have "decodePrivateKey key64 = Some priv"
    using k std_encode_ne [of priv] by (cases "priv = []") (auto simp: gen_def decodePrivateKey_def t)
  then have "sign_each sign priv fs d = (d', True)" using f(1) by (auto simp: signFiles_def split: if_splits)
  from sign_each_sig [OF this f(2-4)]
  have b: "serves w (url @ ''.sig'') (str_bytes (std_encode ?sig @ [CHR 0x0A]))" using w(2) by simp
  obtain s1 where 1: "downloadToTemp e w url s = (s1, Some (ue_temp e url, sha256 data))" "us_files s1 (ue_temp e url) = Some data"
    using served_installer [OF w(1) u(1) s] by blast
  obtain s2 where 2: "fetchSignature (ue_lib e) w (url @ ''.sig'') s1 = (s2, Some (std_encode ?sig))" "us_files s2 = us_files s1"
    using served_signature [OF b u(2)] v by blast
  have "verifyUpdateSignature (ue_verify e) (sha256 data) (std_encode ?sig) (ue_key e) = None"
    using signature_verifies [OF k(2)] v k(1) by (simp add: gen_def)
  moreover have "ue_key e \<noteq> []" using calculation by (auto simp: verifyUpdateSignature_def)
  ultimately show ?thesis using 1 2 u by (simp add: downloadVerified_def)
qed

section \<open>Properties\<close>

text \<open>C37. A release that was signed is installed by both updaters: with a generated key pair, the private key given to the
  signer and the public one embedded in the programs, every file that was signed and is served with its
  signature is accepted by the agent and by the viewer, and the installer on disk is the file.\<close>

theorem signed_release_installs:
  assumes "ve_seam e = []" "gen pub priv = (ue_key (ve_base e), key64)" "length pub = 32" "length priv = 64"
    and "\<And>m. length (sign priv m) = 64 \<and> ue_verify (ve_base e) pub m (sign priv m)"
    and "signFiles sign key64 fs d = (d', True)" "f \<in> set fs" "\<forall>g\<in>set fs. f \<noteq> g @ ''.sig''" "sd_files d f = Some data"
    and "validateUpdateURL (ue_lib (ve_base e)) url" "validateUpdateURL (ue_lib (ve_base e)) (url @ ''.sig'')"
    and "serves w url data" "serves w (url @ ''.sig'') (the (sd_files d' (f @ ''.sig'')))"
    and "us_faults (vu_base s) = []"
  shows "\<exists>a v. downloadVerified (ve_base e) w url (vu_base s) = (a, Some (ue_temp (ve_base e) url))
    \<and> us_files a (ue_temp (ve_base e) url) = Some data
    \<and> viewer_downloadVerified e w url s = (v, Some (ue_temp (ve_base e) url))
    \<and> us_files (vu_base v) (ue_temp (ve_base e) url) = Some data"
proof -
  obtain a where a: "downloadVerified (ve_base e) w url (vu_base s) = (a, Some (ue_temp (ve_base e) url))"
    "us_files a (ue_temp (ve_base e) url) = Some data" using released_installer [OF assms(2-)] by blast
  then have "seen (viewer_downloadVerified e w url s) = (a, Some (ue_temp (ve_base e) url))"
    using seen_downloadVerified [OF assms(1)] by simp
  with a show ?thesis by (cases "viewer_downloadVerified e w url s") (simp add: seen_pair)
qed

definition toy_sign :: "bytes \<Rightarrow> bytes \<Rightarrow> bytes" where
  "toy_sign priv m = replicate 64 1"

definition toy_disk :: sign_disk where
  "toy_disk = \<lparr>sd_files = [''a'' \<mapsto> [1, 2, 3], ''b'' \<mapsto> [4]], sd_reads = [], sd_writes = []\<rparr>"

definition toy_signed :: "sign_disk \<times> bool" where
  "toy_signed = signFiles toy_sign (std_encode (replicate 64 0)) [''a'', ''b''] toy_disk"

definition toy_server :: hop_world where
  "toy_server = (\<lambda>log url. Some \<lparr>hp_status = 200, hp_location = None,
     hp_chunks = [if url = ''https://github.com/a'' then [1, 2, 3] else the (sd_files (fst toy_signed) ''a.sig'')], hp_clean = True\<rparr>)"

lemma toy_signs: "toy_signed = (fst toy_signed, True)"
proof -
  have "std_encode (replicate 64 0) \<noteq> []" by (rule std_encode_ne) simp
  moreover have "TrimSpace (std_encode x) = std_encode x" for x using TrimSpace_line std_encode_plain by blast
  ultimately have k: "decodePrivateKey (std_encode (replicate 64 0)) = Some (replicate 64 0)" by (simp add: decodePrivateKey_def)
  have "\<exists>d'. sign_each toy_sign (replicate 64 0) [''a'', ''b''] toy_disk = (d', True)"
    by (rule sign_each_total) (simp_all add: toy_disk_def)
  with k show ?thesis by (auto simp: toy_signed_def signFiles_def)
qed

lemma toy_key: "gen (replicate 32 0) (replicate 64 0) = (ue_key toy_update, std_encode (replicate 64 0))"
proof -
  have g: "b64_groups (replicate (3 * k + 2) 0) = replicate (4 * k + 3) 0" for k
  proof (induction k)
    case (Suc k)
    have "3 * Suc k + 2 = Suc (Suc (Suc (3 * k + 2)))" "4 * Suc k + 3 = Suc (Suc (Suc (Suc (4 * k + 3))))" by simp_all
    with Suc show ?case by (simp only: replicate_Suc b64_groups.simps) simp
  next
    case 0
    have "3 * 0 + 2 = Suc (Suc (0::nat))" "4 * 0 + 3 = Suc (Suc (Suc (0::nat)))" by simp_all
    then show ?case by (simp only: replicate.simps) simp
  qed
  have "std_encode (replicate 32 0) = replicate 43 CHR ''A'' @ ''=''"
    using g [of 10] by (simp add: std_encode_def map_replicate std_char_def b64_char_def char_of_def bit_0)
  then show ?thesis by (simp add: gen_def toy_update_def)
qed

theorem signed_release_installs_witness:
  "\<exists>a v. downloadVerified toy_update toy_server ''https://github.com/a'' (upd_start []) = (a, Some ''/tmp/setup'')
    \<and> us_files a ''/tmp/setup'' = Some [1, 2, 3]
    \<and> viewer_downloadVerified toy_viewer toy_server ''https://github.com/a'' \<lparr>vu_base = upd_start [], vu_progress = [], vu_started = []\<rparr>
        = (v, Some ''/tmp/setup'')
    \<and> us_files (vu_base v) ''/tmp/setup'' = Some [1, 2, 3]"
proof -
  note t = signed_release_installs [of toy_viewer "replicate 32 0" "replicate 64 0" "std_encode (replicate 64 0)" toy_sign
    "[''a'', ''b'']" toy_disk "fst toy_signed" "''a''" "[1, 2, 3]" "''https://github.com/a''" toy_server
    "\<lparr>vu_base = upd_start [], vu_progress = [], vu_started = []\<rparr>"]
  show ?thesis
    using t toy_key toy_signs [unfolded toy_signed_def]
    by (simp add: toy_viewer_def toy_update_def toy_sign_def toy_disk_def toy_server_def serves_def upd_start_def toy_signed_def
        validateUpdateURL_def allowedUpdateHost_def has_prefix_def has_suffix_def)
qed

end
