(* ===== verification/Viewer_Store.thy ===== *)
theory Viewer_Store
  imports Dvr_Store
begin

text \<open>
  The database of the desktop viewer, the upper part of \<^verbatim>\<open>viewer/cctv.go\<close>. Its tables are those of the agent's
  without the keys of the devices, and a recorder has a place among the tabs (\<open>display_order\<close>). The rows are the
  records of \<open>Dvr_Store\<close>, whose fields for ONVIF addresses and recording quality stay empty here. As there,
  \<open>vt_faults\<close> lists the outcomes of the statements to come, and a failing one changes nothing; the creation
  times are left out.
\<close>

section \<open>Tables\<close>

record viewer_db =
  vt_dvrs :: "(int \<times> dvr_config) list"
  vt_channels :: "channel_config list"
  vt_next_dvr :: int
  vt_next_ch :: int
  vt_faults :: "bool list"

definition viewer_fresh :: "bool list \<Rightarrow> viewer_db" where
  "viewer_fresh fs = \<lparr>vt_dvrs = [], vt_channels = [], vt_next_dvr = 1, vt_next_ch = 1, vt_faults = fs\<rparr>"

definition vt_statement :: "viewer_db \<Rightarrow> viewer_db \<times> bool" where
  "vt_statement s = (case vt_faults s of [] \<Rightarrow> (s, True) | f # fs \<Rightarrow> (s\<lparr>vt_faults := fs\<rparr>, \<not> f))"

definition vt_exec :: "(viewer_db \<Rightarrow> viewer_db) \<Rightarrow> viewer_db \<Rightarrow> viewer_db \<times> bool" where
  "vt_exec f s = (case vt_statement s of (s', ok) \<Rightarrow> if ok then (f s', True) else (s', False))"

definition vt_query :: "(viewer_db \<Rightarrow> 'a) \<Rightarrow> viewer_db \<Rightarrow> viewer_db \<times> 'a option" where
  "vt_query f s = (case vt_statement s of (s', ok) \<Rightarrow> (s', if ok then Some (f s') else None))"

text \<open>A transaction is begun, its statements run until one fails, and it is committed; else it is rolled back.\<close>

fun vt_all :: "(viewer_db \<Rightarrow> viewer_db) list \<Rightarrow> viewer_db \<Rightarrow> viewer_db \<times> bool" where
  "vt_all [] s = (s, True)"
| "vt_all (f # fs) s = (case vt_exec f s of (s', True) \<Rightarrow> vt_all fs s' | (s', False) \<Rightarrow> (s', False))"

definition vt_transaction :: "(viewer_db \<Rightarrow> viewer_db) list \<Rightarrow> viewer_db \<Rightarrow> viewer_db \<times> bool" where
  "vt_transaction fs s = (case vt_all (id # fs @ [id]) s of
      (s', True) \<Rightarrow> (s', True) | (s', False) \<Rightarrow> (s\<lparr>vt_faults := vt_faults s'\<rparr>, False))"

section \<open>Recorders\<close>

text \<open>Sorted by place, then by id.\<close>

definition viewer_ListDVRs :: "viewer_db \<Rightarrow> viewer_db \<times> dvr_config list option" where
  "viewer_ListDVRs = vt_query (\<lambda>s. map snd (sort_key fst (sort_key (dc_id \<circ> snd) (vt_dvrs s))))"

definition viewer_AddDVR :: "dvr_config \<Rightarrow> viewer_db \<Rightarrow> viewer_db \<times> dvr_config option" where
  "viewer_AddDVR req s =
     (let d = req\<lparr>dc_name := (if dc_name req = [] then dc_addr req else dc_name req),
                  dc_protocol := (if dc_protocol req = [] then ''isapi'' else dc_protocol req), dc_refresh := 2000, dc_quality := ''sub''\<rparr>
      in case vt_exec (\<lambda>s. s\<lparr>vt_dvrs := vt_dvrs s @ [(0, d\<lparr>dc_id := vt_next_dvr s\<rparr>)], vt_next_dvr := vt_next_dvr s + 1\<rparr>) s of
           (s', True) \<Rightarrow> (s', Some (d\<lparr>dc_id := vt_next_dvr s\<rparr>)) | (s', False) \<Rightarrow> (s', None))"

definition on_tabs :: "int \<Rightarrow> (int \<times> dvr_config \<Rightarrow> int \<times> dvr_config) \<Rightarrow> viewer_db \<Rightarrow> viewer_db" where
  "on_tabs i f s = s\<lparr>vt_dvrs := map (\<lambda>r. if dc_id (snd r) = i then f r else r) (vt_dvrs s)\<rparr>"

definition viewer_UpdateDVR :: "int \<Rightarrow> dvr_config \<Rightarrow> viewer_db \<Rightarrow> viewer_db \<times> bool" where
  "viewer_UpdateDVR i req = vt_exec (on_tabs i (\<lambda>r. (fst r, req\<lparr>dc_id := i,
     dc_protocol := (if dc_protocol req = [] then ''auto'' else dc_protocol req)\<rparr>)))"

definition viewer_DeleteDVR :: "int \<Rightarrow> viewer_db \<Rightarrow> viewer_db \<times> bool" where
  "viewer_DeleteDVR i = vt_exec (\<lambda>s. s\<lparr>vt_dvrs := filter (\<lambda>r. dc_id (snd r) \<noteq> i) (vt_dvrs s)\<rparr>)"

definition viewer_getDVR :: "int \<Rightarrow> viewer_db \<Rightarrow> viewer_db \<times> dvr_config option" where
  "viewer_getDVR i s = (case vt_query (\<lambda>s. find (\<lambda>r. dc_id (snd r) = i) (vt_dvrs s)) s of
      (s', Some (Some r)) \<Rightarrow> (s', Some (if dc_protocol (snd r) = [] then (snd r)\<lparr>dc_protocol := ''isapi''\<rparr> else snd r))
    | (s', _) \<Rightarrow> (s', None))"

definition tab_moves :: "(int \<times> int) list \<Rightarrow> (viewer_db \<Rightarrow> viewer_db) list" where
  "tab_moves ks = map (\<lambda>(k, i). on_tabs i (\<lambda>r. (k, snd r))) ks"

definition viewer_ReorderDVRs :: "int list \<Rightarrow> viewer_db \<Rightarrow> viewer_db \<times> bool" where
  "viewer_ReorderDVRs ids = vt_transaction (tab_moves (zip (map int [0..<length ids]) ids))"

section \<open>Channels\<close>

definition viewer_ListChannels :: "int \<Rightarrow> viewer_db \<Rightarrow> viewer_db \<times> channel_config list option" where
  "viewer_ListChannels i = vt_query (\<lambda>s. sort_key cc_order (filter (\<lambda>c. cc_dvr c = i) (vt_channels s)))"

definition on_chans :: "(channel_config \<Rightarrow> bool) \<Rightarrow> (channel_config \<Rightarrow> channel_config) \<Rightarrow> viewer_db \<Rightarrow> viewer_db" where
  "on_chans P f s = s\<lparr>vt_channels := map (\<lambda>c. if P c then f c else c) (vt_channels s)\<rparr>"

definition viewer_UpdateChannel :: "int \<Rightarrow> string \<Rightarrow> int \<Rightarrow> bool \<Rightarrow> viewer_db \<Rightarrow> viewer_db \<times> bool" where
  "viewer_UpdateChannel i name order on = vt_exec (on_chans (\<lambda>c. cc_id c = i)
     (\<lambda>c. c\<lparr>cc_name := name, cc_order := order, cc_enabled := on\<rparr>))"

definition viewer_ReorderChannels :: "int \<Rightarrow> int list \<Rightarrow> viewer_db \<Rightarrow> viewer_db \<times> bool" where
  "viewer_ReorderChannels i nums = vt_transaction (map (\<lambda>(k, n). on_chans (\<lambda>c. cc_dvr c = i \<and> cc_num c = n) (\<lambda>c. c\<lparr>cc_order := k\<rparr>))
     (zip (map int [0..<length nums]) nums))"

text \<open>What a discovery writes: an existing row keeps its name, order and switch.\<close>

definition viewer_upsert :: "int \<Rightarrow> channel_config \<Rightarrow> viewer_db \<Rightarrow> viewer_db" where
  "viewer_upsert i ch s =
     (if \<exists>c\<in>set (vt_channels s). cc_dvr c = i \<and> cc_num c = cc_num ch
      then on_chans (\<lambda>c. cc_dvr c = i \<and> cc_num c = cc_num ch) (\<lambda>c. c\<lparr>cc_width := cc_width ch, cc_height := cc_height ch\<rparr>) s
      else s\<lparr>vt_channels := vt_channels s @ [ch\<lparr>cc_id := vt_next_ch s, cc_dvr := i, cc_enabled := True\<rparr>], vt_next_ch := vt_next_ch s + 1\<rparr>)"

definition viewer_store :: "int \<Rightarrow> channel_config list \<Rightarrow> viewer_db \<Rightarrow> viewer_db" where
  "viewer_store i chs s = foldl (\<lambda>s ch. fst (vt_exec (viewer_upsert i ch) s)) s chs"

section \<open>Sequences of operations\<close>

datatype viewer_op =
    V_Add dvr_config
  | V_Update int dvr_config
  | V_Delete int
  | V_Tabs "int list"
  | V_Channel int string int bool
  | V_Order int "int list"
  | V_Found int "channel_config list"
  | V_Protocol int string
  | V_Size int int int int
  | V_Clear

fun vt_apply :: "viewer_op \<Rightarrow> viewer_db \<Rightarrow> viewer_db" where
  "vt_apply (V_Add d) s = fst (viewer_AddDVR d s)"
| "vt_apply (V_Update i d) s = fst (viewer_UpdateDVR i d s)"
| "vt_apply (V_Delete i) s = fst (viewer_DeleteDVR i s)"
| "vt_apply (V_Tabs ids) s = fst (viewer_ReorderDVRs ids s)"
| "vt_apply (V_Channel i name order on) s = fst (viewer_UpdateChannel i name order on s)"
| "vt_apply (V_Order i nums) s = fst (viewer_ReorderChannels i nums s)"
| "vt_apply (V_Found i chs) s = viewer_store i chs s"
| "vt_apply (V_Protocol i p) s = fst (vt_exec (on_tabs i (\<lambda>r. (fst r, (snd r)\<lparr>dc_protocol := p\<rparr>))) s)"
| "vt_apply (V_Size i n x y) s = fst (vt_exec (on_chans (\<lambda>c. cc_dvr c = i \<and> cc_num c = n) (\<lambda>c. c\<lparr>cc_width := x, cc_height := y\<rparr>)) s)"
| "vt_apply V_Clear s = fst (vt_exec (\<lambda>s. s\<lparr>vt_channels := []\<rparr>) s)"

definition vt_run :: "viewer_op list \<Rightarrow> viewer_db \<Rightarrow> viewer_db" where
  "vt_run ops s = foldl (\<lambda>s x. vt_apply x s) s ops"

section \<open>The tables are well formed\<close>

definition viewer_ok :: "viewer_db \<Rightarrow> bool" where
  "viewer_ok s = (distinct (map (dc_id \<circ> snd) (vt_dvrs s)) \<and> (\<forall>r\<in>set (vt_dvrs s). dc_id (snd r) < vt_next_dvr s)
     \<and> distinct (map (\<lambda>c. (cc_dvr c, cc_num c)) (vt_channels s))
     \<and> distinct (map cc_id (vt_channels s)) \<and> (\<forall>c\<in>set (vt_channels s). cc_id c < vt_next_ch s))"

lemma vt_statement_tables [simp]:
  "vt_dvrs (fst (vt_statement s)) = vt_dvrs s" "vt_channels (fst (vt_statement s)) = vt_channels s"
  "vt_next_dvr (fst (vt_statement s)) = vt_next_dvr s" "vt_next_ch (fst (vt_statement s)) = vt_next_ch s"
  by (simp_all add: vt_statement_def split: list.split)

lemma viewer_ok_tables:
  "viewer_ok s \<Longrightarrow> vt_dvrs s' = vt_dvrs s \<Longrightarrow> vt_channels s' = vt_channels s \<Longrightarrow> vt_next_dvr s' = vt_next_dvr s
    \<Longrightarrow> vt_next_ch s' = vt_next_ch s \<Longrightarrow> viewer_ok s'"
  by (simp add: viewer_ok_def)

lemma ok_statement: "viewer_ok s \<Longrightarrow> viewer_ok (fst (vt_statement s))"
  by (rule viewer_ok_tables) simp_all

lemma ok_exec: "viewer_ok s \<Longrightarrow> (\<And>s. viewer_ok s \<Longrightarrow> viewer_ok (f s)) \<Longrightarrow> viewer_ok (fst (vt_exec f s))"
  using ok_statement [of s] by (simp add: vt_exec_def split_beta)

lemma ok_all: "viewer_ok s \<Longrightarrow> (\<And>f s. f \<in> set fs \<Longrightarrow> viewer_ok s \<Longrightarrow> viewer_ok (f s)) \<Longrightarrow> viewer_ok (fst (vt_all fs s))"
proof (induction fs arbitrary: s)
  case (Cons f fs)
  have "viewer_ok (fst (vt_exec f s))" by (rule ok_exec) (use Cons.prems in auto)
  with Cons.IH [OF this] Cons.prems(2) show ?case by (simp add: split_beta split: bool.split)
qed simp

lemma ok_transaction:
  assumes "viewer_ok s" "\<And>f s. f \<in> set fs \<Longrightarrow> viewer_ok s \<Longrightarrow> viewer_ok (f s)"
  shows "viewer_ok (fst (vt_transaction fs s))"
proof -
  have "viewer_ok (fst (vt_all (id # fs @ [id]) s))" by (rule ok_all) (use assms in auto)
  moreover have "viewer_ok (s\<lparr>vt_faults := x\<rparr>)" for x by (rule viewer_ok_tables [OF assms(1)]) simp_all
  ultimately show ?thesis by (simp add: vt_transaction_def split_beta split: bool.split del: vt_all.simps)
qed

lemma viewer_ok_view:
  "viewer_ok s = (distinct (map (dc_id \<circ> snd) (vt_dvrs s)) \<and> (\<forall>i\<in>set (map (dc_id \<circ> snd) (vt_dvrs s)). i < vt_next_dvr s)
     \<and> distinct (map (\<lambda>c. (cc_dvr c, cc_num c)) (vt_channels s))
     \<and> distinct (map cc_id (vt_channels s)) \<and> (\<forall>i\<in>set (map cc_id (vt_channels s)). i < vt_next_ch s))"
  by (simp add: viewer_ok_def)

lemma viewer_ok_cong:
  assumes "viewer_ok s" "map (dc_id \<circ> snd) (vt_dvrs s') = map (dc_id \<circ> snd) (vt_dvrs s)" "vt_next_dvr s' = vt_next_dvr s"
    "map (\<lambda>c. (cc_dvr c, cc_num c)) (vt_channels s') = map (\<lambda>c. (cc_dvr c, cc_num c)) (vt_channels s)"
    "map cc_id (vt_channels s') = map cc_id (vt_channels s)" "vt_next_ch s' = vt_next_ch s"
  shows "viewer_ok s'"
  using assms(1) unfolding viewer_ok_view assms(2-) .

lemma ok_tabs: "viewer_ok s \<Longrightarrow> (\<And>r. dc_id (snd r) = i \<Longrightarrow> dc_id (snd (f r)) = i) \<Longrightarrow> viewer_ok (on_tabs i f s)"
  by (rule viewer_ok_cong) (auto simp: on_tabs_def)

lemma ok_chans:
  "viewer_ok s \<Longrightarrow> (\<And>c. cc_id (f c) = cc_id c \<and> cc_dvr (f c) = cc_dvr c \<and> cc_num (f c) = cc_num c) \<Longrightarrow> viewer_ok (on_chans P f s)"
  by (rule viewer_ok_cong) (auto simp: on_chans_def)

lemma ok_upsert: "viewer_ok s \<Longrightarrow> viewer_ok (viewer_upsert i ch s)"
proof (cases "\<exists>c\<in>set (vt_channels s). cc_dvr c = i \<and> cc_num c = cc_num ch")
  case True
  assume "viewer_ok s"
  with True show ?thesis by (simp add: viewer_upsert_def ok_chans)
next
  case False
  assume "viewer_ok s"
  with False show ?thesis by (auto simp: viewer_upsert_def viewer_ok_def)
qed

lemma ok_store: "viewer_ok s \<Longrightarrow> viewer_ok (viewer_store i chs s)"
  unfolding viewer_store_def
proof (induction chs arbitrary: s)
  case (Cons ch chs)
  from ok_exec [OF Cons.prems ok_upsert] Cons.IH show ?case by simp
qed simp

lemma ok_filter: "viewer_ok s \<Longrightarrow> viewer_ok (s\<lparr>vt_dvrs := filter P (vt_dvrs s)\<rparr>)"
  by (auto simp: viewer_ok_def distinct_map_filter)

lemma ok_add: "viewer_ok s \<Longrightarrow> viewer_ok (s\<lparr>vt_dvrs := vt_dvrs s @ [(0, d\<lparr>dc_id := vt_next_dvr s\<rparr>)], vt_next_dvr := vt_next_dvr s + 1\<rparr>)"
  by (auto simp: viewer_ok_def)

lemma ok_apply: "viewer_ok s \<Longrightarrow> viewer_ok (vt_apply x s)"
proof (cases x)
  case (V_Add d)
  assume "viewer_ok s"
  then have "viewer_ok (fst (vt_exec (\<lambda>s. s\<lparr>vt_dvrs := vt_dvrs s @ [(0, d'\<lparr>dc_id := vt_next_dvr s\<rparr>)], vt_next_dvr := vt_next_dvr s + 1\<rparr>) s))" for d'
    by (rule ok_exec) (rule ok_add)
  with V_Add show ?thesis by (simp add: viewer_AddDVR_def Let_def split_beta split: bool.split)
next
  case (V_Clear)
  assume "viewer_ok s"
  then have "viewer_ok (fst (vt_exec (\<lambda>s. s\<lparr>vt_channels := []\<rparr>) s))" by (rule ok_exec) (simp add: viewer_ok_def)
  with V_Clear show ?thesis by simp
qed (auto simp: viewer_UpdateDVR_def viewer_DeleteDVR_def viewer_ReorderDVRs_def tab_moves_def viewer_UpdateChannel_def viewer_ReorderChannels_def
    intro!: ok_exec ok_transaction ok_tabs ok_chans ok_store ok_filter)

lemma ok_run: "viewer_ok s \<Longrightarrow> viewer_ok (vt_run ops s)"
  unfolding vt_run_def by (induction ops arbitrary: s) (simp_all add: ok_apply)

lemma ok_fresh: "viewer_ok (viewer_fresh fs)"
  by (simp add: viewer_ok_def viewer_fresh_def)

section \<open>The order of the tabs\<close>

fun place :: "(int \<times> int) list \<Rightarrow> int \<Rightarrow> int \<Rightarrow> int" where
  "place [] i k = k"
| "place ((n, j) # r) i k = place r i (if i = j then n else k)"

definition place_all :: "(int \<times> int) list \<Rightarrow> (int \<times> dvr_config) list \<Rightarrow> (int \<times> dvr_config) list" where
  "place_all ks rs = map (\<lambda>r. (place ks (dc_id (snd r)) (fst r), snd r)) rs"

lemma place_all_Cons:
  "place_all ((n, j) # ks) rs = place_all ks (map (\<lambda>r. if dc_id (snd r) = j then (n, snd r) else r) rs)"
  by (simp add: place_all_def)

lemma vt_exec_tables:
  "snd (vt_exec f s) \<Longrightarrow> fst (vt_exec f s) = f (fst (vt_statement s))"
  by (simp add: vt_exec_def split_beta split: if_splits)

lemma tabs_moved:
  "snd (vt_all (tab_moves ks @ [id]) s) \<Longrightarrow> vt_dvrs (fst (vt_all (tab_moves ks @ [id]) s)) = place_all ks (vt_dvrs s)
    \<and> vt_channels (fst (vt_all (tab_moves ks @ [id]) s)) = vt_channels s"
proof (induction ks arbitrary: s)
  case Nil
  then show ?case by (simp add: tab_moves_def place_all_def vt_exec_def split_beta split: if_splits bool.splits)
next
  case (Cons x ks)
  obtain k i where x: "x = (k, i)" by (cases x)
  let ?f = "on_tabs i (\<lambda>r. (k, snd r))"
  have e: "vt_all (tab_moves (x # ks) @ [id]) s
      = (if snd (vt_exec ?f s) then vt_all (tab_moves ks @ [id]) (fst (vt_exec ?f s)) else (fst (vt_exec ?f s), False))"
    by (simp add: x tab_moves_def split_beta split: bool.split)
  have ok: "snd (vt_exec ?f s)" "snd (vt_all (tab_moves ks @ [id]) (fst (vt_exec ?f s)))" using Cons.prems unfolding e by (auto split: if_splits)
  have "vt_dvrs (fst (vt_exec ?f s)) = map (\<lambda>r. if dc_id (snd r) = i then (k, snd r) else r) (vt_dvrs s)"
    "vt_channels (fst (vt_exec ?f s)) = vt_channels s"
    by (simp_all add: vt_exec_tables [OF ok(1)] on_tabs_def)
  note t = this
  show ?case unfolding e if_P [OF ok(1)] unfolding x place_all_Cons by (rule Cons.IH [OF ok(2), unfolded t])
qed

lemma place_other: "i \<notin> snd ` set ks \<Longrightarrow> place ks i k = k"
  by (induction ks arbitrary: k) auto

lemma place_nth:
  "distinct ids \<Longrightarrow> j < length ids \<Longrightarrow> b = a + length ids \<Longrightarrow> place (zip (map int [a..<b]) ids) (ids ! j) k = int (a + j)"
proof (induction ids arbitrary: a j k)
  case (Cons x ids)
  have u: "zip (map int [a..<b]) (x # ids) = (int a, x) # zip (map int [Suc a..<b]) ids"
  proof -
    have "[a..<b] = a # [Suc a..<b]" using Cons.prems(3) by (intro upt_conv_Cons) simp
    then show ?thesis by simp
  qed
  show ?case
  proof (cases j)
    case 0
    have "x \<notin> snd ` set (zip (map int [Suc a..<b]) ids)" using Cons.prems by (auto dest: set_zip_rightD)
    with 0 show ?thesis unfolding u by (simp add: place_other)
  next
    case (Suc m)
    have "place (zip (map int [Suc a..<b]) ids) (ids ! m) k = int (Suc a + m)" for k
      using Suc Cons.prems by (intro Cons.IH) simp_all
    with Suc show ?thesis unfolding u by simp
  qed
qed simp

text \<open>Rows whose places are the positions of their ids come out in the order of the ids.\<close>

lemma sorted_by_place:
  assumes d: "distinct ids" and m: "mset (map (dc_id \<circ> snd) rs) = mset ids"
    and p: "\<And>r. r \<in> set rs \<Longrightarrow> \<exists>j<length ids. fst r = int j \<and> dc_id (snd r) = ids ! j"
  shows "map (dc_id \<circ> snd) (sort_key fst (sort_key (dc_id \<circ> snd) rs)) = ids"
proof -
  let ?L = "sort_key fst (sort_key (dc_id \<circ> snd) rs)" and ?pos = "\<lambda>i. int (THE j. j < length ids \<and> ids ! j = i)"
  have the: "(THE j. j < length ids \<and> ids ! j = ids ! k) = k" if "k < length ids" for k
    using that d by (auto simp: nth_eq_iff_index_eq)
  have f: "fst r = ?pos (dc_id (snd r))" if "r \<in> set rs" for r using p [OF that] the by auto
  have "mset (map fst ?L) = mset (map fst rs)" by simp
  also have "map fst rs = map ?pos (map (dc_id \<circ> snd) rs)" using f by simp
  also have "mset (map ?pos (map (dc_id \<circ> snd) rs)) = image_mset ?pos (mset (map (dc_id \<circ> snd) rs))" by (rule mset_map)
  also have "\<dots> = mset (map ?pos ids)" unfolding m by (rule mset_map [symmetric])
  also have "map ?pos ids = map int [0..<length ids]" using the by (intro nth_equalityI) simp_all
  finally have "mset (map fst ?L) = mset (map int [0..<length ids])" .
  moreover have "sorted (map fst ?L)" by simp
  moreover have "sorted (map int [0..<length ids])" by (simp add: sorted_map)
  ultimately have k: "map fst ?L = map int [0..<length ids]" by (metis properties_for_sort sorted_sort_id)
  have "map (dc_id \<circ> snd) ?L = map (\<lambda>r. ids ! nat (fst r)) ?L"
  proof -
    have "dc_id (snd r) = ids ! nat (fst r)" if "r \<in> set rs" for r using p [OF that] by auto
    then show ?thesis by simp
  qed
  also have "\<dots> = map ((!) ids \<circ> nat) (map fst ?L)" by simp
  also have "\<dots> = ids" unfolding k by (simp add: map_nth comp_def)
  finally show ?thesis .
qed

lemma tabs_sorted:
  assumes s: "viewer_ok s" and m: "mset ids = mset (map (dc_id \<circ> snd) (vt_dvrs s))"
    and r: "viewer_ReorderDVRs ids s = (s', True)" and l: "viewer_ListDVRs s' = (s2, Some ds)"
  shows "map dc_id ds = ids \<and> mset ds = mset (map snd (vt_dvrs s)) \<and> vt_channels s' = vt_channels s"
proof -
  let ?ks = "zip (map int [0..<length ids]) ids"
  have "distinct (map (dc_id \<circ> snd) (vt_dvrs s))" using s by (simp add: viewer_ok_def)
  then have d: "distinct ids" by (rule mset_eq_imp_distinct_iff [OF m, THEN iffD2])
  let ?b = "fst (vt_exec id s)"
  have e: "vt_all (id # tab_moves ?ks @ [id]) s = (if snd (vt_exec id s) then vt_all (tab_moves ?ks @ [id]) ?b else (?b, False))"
    by (simp add: split_beta split: bool.split)
  have "vt_all (id # tab_moves ?ks @ [id]) s = (s', True)"
    using r unfolding viewer_ReorderDVRs_def vt_transaction_def by (auto simp del: vt_all.simps split: prod.splits bool.splits)
  then have t: "snd (vt_exec id s)" "vt_all (tab_moves ?ks @ [id]) ?b = (s', True)" unfolding e by (simp_all split: if_splits)
  have b: "vt_dvrs ?b = vt_dvrs s" "vt_channels ?b = vt_channels s" using vt_exec_tables [OF t(1)] by simp_all
  have s': "vt_dvrs s' = place_all ?ks (vt_dvrs s)" "vt_channels s' = vt_channels s" using tabs_moved [of ?ks ?b] t(2) b by simp_all
  have ds: "ds = map snd (sort_key fst (sort_key (dc_id \<circ> snd) (vt_dvrs s')))"
    using l by (auto simp: viewer_ListDVRs_def vt_query_def split_beta split: if_splits)
  have i: "map (dc_id \<circ> snd) (vt_dvrs s') = map (dc_id \<circ> snd) (vt_dvrs s)" "map snd (vt_dvrs s') = map snd (vt_dvrs s)"
    by (simp_all add: s' place_all_def)
  have "map (dc_id \<circ> snd) (sort_key fst (sort_key (dc_id \<circ> snd) (vt_dvrs s'))) = ids"
  proof (rule sorted_by_place [OF d])
    show "mset (map (dc_id \<circ> snd) (vt_dvrs s')) = mset ids" using i m by simp
    fix r assume "r \<in> set (vt_dvrs s')"
    then obtain q where q: "q \<in> set (vt_dvrs s)" "r = (place ?ks (dc_id (snd q)) (fst q), snd q)" by (auto simp: s' place_all_def)
    have "dc_id (snd q) \<in> set ids" using q(1) mset_eq_setD [OF m] by auto
    then obtain j where j: "j < length ids" "ids ! j = dc_id (snd q)" by (auto simp: in_set_conv_nth)
    have "place ?ks (ids ! j) (fst q) = int j" using place_nth [OF d j(1), of "length ids" 0 "fst q"] by simp
    with j q(2) show "\<exists>j<length ids. fst r = int j \<and> dc_id (snd r) = ids ! j" by auto
  qed
  moreover have "mset ds = mset (map snd (vt_dvrs s'))" unfolding ds by (metis mset_map mset_sort)
  ultimately show ?thesis using i(2) s'(2) by (simp add: ds comp_def)
qed

text \<open>C40. The tabs are listed in the order they were put: after any history of the database, when the recorders are
  reordered by a permutation of their ids, listing them gives that order and the same rows, and a reordering
  that fails at any statement leaves the order, the rows and the channels as they were.\<close>

theorem reordered_tabs_listed:
  assumes "mset ids = mset (map (dc_id \<circ> snd) (vt_dvrs (vt_run ops (viewer_fresh fs))))"
    and "viewer_ReorderDVRs ids (vt_run ops (viewer_fresh fs)) = (s', ok)"
  shows "if ok then (case snd (viewer_ListDVRs s') of None \<Rightarrow> True
       | Some ds \<Rightarrow> map dc_id ds = ids \<and> mset ds = mset (map snd (vt_dvrs (vt_run ops (viewer_fresh fs)))))
     else vt_dvrs s' = vt_dvrs (vt_run ops (viewer_fresh fs)) \<and> vt_channels s' = vt_channels (vt_run ops (viewer_fresh fs))"
proof (cases ok)
  case True
  with assms tabs_sorted [OF ok_run [OF ok_fresh]] show ?thesis by (cases "viewer_ListDVRs s'") (auto split: option.split)
next
  case False
  with assms(2) show ?thesis by (auto simp: viewer_ReorderDVRs_def vt_transaction_def split: prod.splits bool.splits)
qed

definition toy_dvr :: "string \<Rightarrow> dvr_config" where
  "toy_dvr name = \<lparr>dc_id = 0, dc_name = name, dc_addr = ''h'', dc_port = 80, dc_ext_addr = [], dc_ext_port = 0, dc_username = ''u'',
     dc_password = ''p'', dc_refresh = 0, dc_quality = [], dc_protocol = []\<rparr>"

theorem reordered_tabs_listed_witness:
  "map dc_id (the (snd (viewer_ListDVRs (fst (viewer_ReorderDVRs [3, 1, 2]
     (vt_run [V_Add (toy_dvr ''a''), V_Add (toy_dvr ''b''), V_Add (toy_dvr ''c'')] (viewer_fresh []))))))) = [3, 1, 2]"
proof -
  let ?ops = "[V_Add (toy_dvr ''a''), V_Add (toy_dvr ''b''), V_Add (toy_dvr ''c'')]"
  have "mset [3, 1, 2] = mset (map (dc_id \<circ> snd) (vt_dvrs (vt_run ?ops (viewer_fresh []))))"
    by (simp add: vt_run_def viewer_fresh_def viewer_AddDVR_def vt_exec_def vt_statement_def Let_def)
  moreover have "snd (viewer_ReorderDVRs [3, 1, 2] (vt_run ?ops (viewer_fresh [])))" by code_simp
  moreover have "snd (viewer_ListDVRs (fst (viewer_ReorderDVRs [3, 1, 2] (vt_run ?ops (viewer_fresh []))))) \<noteq> None" by code_simp
  ultimately show ?thesis
    using reordered_tabs_listed [of "[3, 1, 2]" ?ops "[]" "fst (viewer_ReorderDVRs [3, 1, 2] (vt_run ?ops (viewer_fresh [])))" True]
    by (auto simp: prod_eq_iff split: option.splits)
qed

end
