(* ===== verification/Viewer_Streams.thy ===== *)
theory Viewer_Streams
  imports Dvr_Discovery
begin

text \<open>
  The live streams of the viewer's recorders, \<^verbatim>\<open>viewer/cctv_rtsp.go\<close>. Each channel that is watched has an object
  with an RTSP client and a WebRTC peer, and a goroutine that reconnects the client when it drops. The state
  numbers the clients and peers and lists those that are open. Starts, stops, the goroutines and the packets are
  interleaved: an event of \<open>stream_step\<close> is what one of them does between two points where it waits or takes a
  lock, and an event that is not possible changes nothing. What a camera answers to a connection, the steps of
  WebRTC that fail, and the printing of an address are given to the model.
\<close>

section \<open>Addresses\<close>

definition rtspPortFor :: "dvr_config \<Rightarrow> int" where
  "rtspPortFor d = (if dc_port d = 0 \<or> dc_port d = 80 \<or> dc_port d = 8000 then 554 else dc_port d)"

definition channel_url :: "dvr_env \<Rightarrow> dvr_config \<Rightarrow> int \<Rightarrow> string \<Rightarrow> string" where
  "channel_url e d n sid = de_rtsp_url e (dc_username d) (dc_password d) (dc_addr d @ '':'' @ itoa (rtspPortFor d))
     (''/Streaming/Channels/'' @ itoa n @ sid)"

definition stream_order :: "dvr_config \<Rightarrow> string list" where
  "stream_order d = (if dc_quality d = ''main'' then [''01'', ''02''] else [''02'', ''01''])"

definition stream_key :: "int \<Rightarrow> int \<Rightarrow> string" where
  "stream_key i n = itoa i @ ''_'' @ itoa n"

section \<open>State\<close>

text \<open>Where the goroutine of a stream is: before it reads the client, waiting for that client to end, in the
  pause before an attempt, in the attempt, with the new client of an attempt, or at its end.\<close>

datatype loop_pos = Top | Waiting nat | Pausing nat | Trying nat | Holding nat | Ended

record channel_stream =
  vs_dvr :: dvr_config
  vs_num :: int
  vs_client :: "nat option"
  vs_pc :: "nat option"
  vs_track :: bool
  vs_cancel :: bool
  vs_done :: bool
  vs_pos :: loop_pos

text \<open>The streams are numbered in the order they were made. \<open>rs_begun\<close> and \<open>rs_built\<close> are the calls of
  \<open>StartChannelStream\<close> that are on their way, before and after the stream exists; \<open>rs_sent\<close> lists the streams
  whose packets were forwarded.\<close>

record rtsp_state =
  rs_open :: "nat list"
  rs_pcs :: "nat list"
  rs_next :: nat
  rs_streams :: "channel_stream list"
  rs_map :: "(string \<times> nat) list"
  rs_begun :: "string list"
  rs_built :: "(string \<times> nat) list"
  rs_sent :: "nat list"

definition rtsp_start :: rtsp_state where
  "rtsp_start = \<lparr>rs_open = [], rs_pcs = [], rs_next = 0, rs_streams = [], rs_map = [], rs_begun = [], rs_built = [], rs_sent = []\<rparr>"

section \<open>Connecting\<close>

datatype connection = Bad_URL | Unreachable | Undescribed | No_H264 | Has_H264

definition open_client :: "rtsp_state \<Rightarrow> rtsp_state" where
  "open_client s = s\<lparr>rs_open := rs_next s # rs_open s, rs_next := rs_next s + 1\<rparr>"

definition close_client :: "nat \<Rightarrow> rtsp_state \<Rightarrow> rtsp_state" where
  "close_client c s = s\<lparr>rs_open := removeAll c (rs_open s)\<rparr>"

definition open_pc :: "rtsp_state \<Rightarrow> rtsp_state" where
  "open_pc s = s\<lparr>rs_pcs := rs_next s # rs_pcs s, rs_next := rs_next s + 1\<rparr>"

definition close_pc :: "nat \<Rightarrow> rtsp_state \<Rightarrow> rtsp_state" where
  "close_pc p s = s\<lparr>rs_pcs := removeAll p (rs_pcs s)\<rparr>"

text \<open>The streams are tried in order; a client that reached the camera is closed again when it has no H264.\<close>

fun connect_each :: "(string \<Rightarrow> connection) \<Rightarrow> string list \<Rightarrow> rtsp_state \<Rightarrow> rtsp_state \<times> nat option" where
  "connect_each cam [] s = (s, None)"
| "connect_each cam (url # urls) s =
     (if cam url = Bad_URL \<or> cam url = Unreachable then connect_each cam urls s
      else if cam url = Undescribed \<or> cam url = No_H264 then connect_each cam urls (close_client (rs_next s) (open_client s))
      else (open_client s, Some (rs_next s)))"

definition connectH264 :: "dvr_env \<Rightarrow> (string \<Rightarrow> connection) \<Rightarrow> dvr_config \<Rightarrow> int \<Rightarrow> rtsp_state \<Rightarrow> rtsp_state \<times> nat option" where
  "connectH264 e cam d n s = connect_each cam (map (channel_url e d n) (stream_order d)) s"

section \<open>Starting and stopping\<close>

definition stopped :: "channel_stream \<Rightarrow> channel_stream" where
  "stopped v = v\<lparr>vs_client := None, vs_pc := None, vs_track := False, vs_cancel := False, vs_done := (vs_done v \<or> vs_cancel v)\<rparr>"

definition close_opt :: "(nat \<Rightarrow> rtsp_state \<Rightarrow> rtsp_state) \<Rightarrow> nat option \<Rightarrow> rtsp_state \<Rightarrow> rtsp_state" where
  "close_opt f c s = (case c of None \<Rightarrow> s | Some c \<Rightarrow> f c s)"

definition stream_stop :: "nat \<Rightarrow> rtsp_state \<Rightarrow> rtsp_state" where
  "stream_stop i s = (let v = rs_streams s ! i; s' = close_opt close_client (vs_client v) (close_opt close_pc (vs_pc v) s)
     in s'\<lparr>rs_streams := (rs_streams s)[i := stopped v]\<rparr>)"

definition stop_keys :: "(string \<Rightarrow> bool) \<Rightarrow> rtsp_state \<Rightarrow> rtsp_state" where
  "stop_keys P s = (foldl (\<lambda>s i. stream_stop i s) s (map snd (filter (\<lambda>x. P (fst x)) (rs_map s))))
     \<lparr>rs_map := filter (\<lambda>x. \<not> P (fst x)) (rs_map s)\<rparr>"

definition StopDVRStreams :: "int \<Rightarrow> rtsp_state \<Rightarrow> rtsp_state" where
  "StopDVRStreams i = stop_keys (\<lambda>k. has_prefix k (itoa i @ ''_''))"

definition StopAllStreams :: "rtsp_state \<Rightarrow> rtsp_state" where
  "StopAllStreams = stop_keys (\<lambda>_. True)"

text \<open>\<open>StartChannelStream\<close> in three parts: it stops the stream that is there, connects and makes the new one, and
  enters it. \<open>bad\<close> is the step of the second part that fails; the peer exists from the third step on.\<close>

datatype start_step = RTSP_Setup | New_Peer | New_Track | Add_Track | Set_Offer | Create_Answer | Set_Answer | No_Description | RTSP_Play

definition start_begin :: "string \<Rightarrow> rtsp_state \<Rightarrow> rtsp_state" where
  "start_begin k s = (stop_keys (\<lambda>x. x = k) s)\<lparr>rs_begun := k # rs_begun s\<rparr>"

definition start_pipeline :: "string \<Rightarrow> dvr_config \<Rightarrow> int \<Rightarrow> nat \<Rightarrow> start_step option \<Rightarrow> rtsp_state \<Rightarrow> rtsp_state" where
  "start_pipeline k d n c bad s =
     (if bad = Some RTSP_Setup \<or> bad = Some New_Peer then close_client c s
      else let s1 = open_pc s in case bad of
        Some _ \<Rightarrow> close_client c (close_pc (rs_next s) s1)
      | None \<Rightarrow> s1\<lparr>rs_streams := rs_streams s @ [\<lparr>vs_dvr = d, vs_num = n, vs_client = Some c, vs_pc = Some (rs_next s), vs_track = True,
                    vs_cancel = True, vs_done = False, vs_pos = Top\<rparr>],
                  rs_built := (k, length (rs_streams s)) # rs_built s\<rparr>)"

definition start_build :: "dvr_env \<Rightarrow> string \<Rightarrow> (dvr_config \<times> int) option \<Rightarrow> (string \<Rightarrow> connection) \<Rightarrow> start_step option
    \<Rightarrow> rtsp_state \<Rightarrow> rtsp_state" where
  "start_build e k dn cam bad s =
     (let s0 = s\<lparr>rs_begun := remove1 k (rs_begun s)\<rparr>
      in case dn of None \<Rightarrow> s0
      | Some (d, n) \<Rightarrow> (case connectH264 e cam d n s0 of
          (s1, None) \<Rightarrow> s1 | (s1, Some c) \<Rightarrow> start_pipeline k d n c bad s1))"

definition start_install :: "string \<Rightarrow> nat \<Rightarrow> rtsp_state \<Rightarrow> rtsp_state" where
  "start_install k i s = s\<lparr>rs_map := (k, i) # filter (\<lambda>x. fst x \<noteq> k) (rs_map s), rs_built := remove1 (k, i) (rs_built s)\<rparr>"

section \<open>The reconnecting goroutine\<close>

definition on_stream :: "nat \<Rightarrow> (channel_stream \<Rightarrow> channel_stream) \<Rightarrow> rtsp_state \<Rightarrow> rtsp_state" where
  "on_stream i f s = s\<lparr>rs_streams := (rs_streams s)[i := f (rs_streams s ! i)]\<rparr>"

definition at_pos :: "loop_pos \<Rightarrow> channel_stream \<Rightarrow> channel_stream" where
  "at_pos p v = v\<lparr>vs_pos := p\<rparr>"

definition give_up :: "channel_stream \<Rightarrow> channel_stream" where
  "give_up v = v\<lparr>vs_done := True, vs_pos := Ended\<rparr>"

definition loop_look :: "nat \<Rightarrow> rtsp_state \<Rightarrow> rtsp_state" where
  "loop_look i s = (case vs_client (rs_streams s ! i) of None \<Rightarrow> on_stream i give_up s | Some c \<Rightarrow> on_stream i (at_pos (Waiting c)) s)"

text \<open>The client has ended, by itself or because it was closed.\<close>

definition loop_dropped :: "nat \<Rightarrow> nat \<Rightarrow> rtsp_state \<Rightarrow> rtsp_state" where
  "loop_dropped i c s = on_stream i (\<lambda>v. at_pos (if vs_done v then Ended else Pausing 1) v) (close_client c s)"

definition attempt_failed :: "nat \<Rightarrow> channel_stream \<Rightarrow> channel_stream" where
  "attempt_failed a v = (if a < 5 then at_pos (Pausing (a + 1)) v else give_up v)"

definition loop_attempt :: "dvr_env \<Rightarrow> nat \<Rightarrow> nat \<Rightarrow> (string \<Rightarrow> connection) \<Rightarrow> bool \<Rightarrow> rtsp_state \<Rightarrow> rtsp_state" where
  "loop_attempt e i a cam ok s =
     (case connectH264 e cam (vs_dvr (rs_streams s ! i)) (vs_num (rs_streams s ! i)) s of
        (s1, None) \<Rightarrow> on_stream i (attempt_failed a) s1
      | (s1, Some c) \<Rightarrow> if ok then on_stream i (at_pos (Holding c)) s1 else on_stream i (attempt_failed a) (close_client c s1))"

definition loop_swap :: "nat \<Rightarrow> nat \<Rightarrow> rtsp_state \<Rightarrow> rtsp_state" where
  "loop_swap i c s = on_stream i (\<lambda>v. v\<lparr>vs_client := Some c, vs_pos := Top\<rparr>) (close_opt close_client (vs_client (rs_streams s ! i)) s)"

section \<open>Steps\<close>

datatype stream_event =
    Begin string
  | Build string "(dvr_config \<times> int) option" "string \<Rightarrow> connection" "start_step option"
  | Install string nat
  | Stop_DVR int
  | Stop_All
  | Look nat
  | Dropped nat
  | Timer nat
  | Cancelled nat
  | Attempt nat "string \<Rightarrow> connection" bool
  | Swap nat
  | Peer_Lost nat
  | Packet nat

fun at_loop :: "nat \<Rightarrow> rtsp_state \<Rightarrow> loop_pos option" where
  "at_loop i s = (if i < length (rs_streams s) then Some (vs_pos (rs_streams s ! i)) else None)"

fun stream_step :: "dvr_env \<Rightarrow> stream_event \<Rightarrow> rtsp_state \<Rightarrow> rtsp_state" where
  "stream_step e (Begin k) s = start_begin k s"
| "stream_step e (Build k dn cam bad) s = (if k \<in> set (rs_begun s) then start_build e k dn cam bad s else s)"
| "stream_step e (Install k i) s = (if (k, i) \<in> set (rs_built s) then start_install k i s else s)"
| "stream_step e (Stop_DVR i) s = StopDVRStreams i s"
| "stream_step e Stop_All s = StopAllStreams s"
| "stream_step e (Look i) s = (case at_loop i s of Some Top \<Rightarrow> loop_look i s | _ \<Rightarrow> s)"
| "stream_step e (Dropped i) s = (case at_loop i s of Some (Waiting c) \<Rightarrow> loop_dropped i c s | _ \<Rightarrow> s)"
| "stream_step e (Timer i) s = (case at_loop i s of Some (Pausing a) \<Rightarrow> on_stream i (at_pos (Trying a)) s | _ \<Rightarrow> s)"
| "stream_step e (Cancelled i) s = (case at_loop i s of
      Some (Pausing a) \<Rightarrow> (if vs_done (rs_streams s ! i) then on_stream i (at_pos Ended) s else s) | _ \<Rightarrow> s)"
| "stream_step e (Attempt i cam ok) s = (case at_loop i s of Some (Trying a) \<Rightarrow> loop_attempt e i a cam ok s | _ \<Rightarrow> s)"
| "stream_step e (Swap i) s = (case at_loop i s of Some (Holding c) \<Rightarrow> loop_swap i c s | _ \<Rightarrow> s)"
| "stream_step e (Peer_Lost i) s = (if i < length (rs_streams s) then on_stream i (\<lambda>v. v\<lparr>vs_done := True\<rparr>) s else s)"
| "stream_step e (Packet i) s = (if i < length (rs_streams s) \<and> vs_track (rs_streams s ! i) then s\<lparr>rs_sent := rs_sent s @ [i]\<rparr> else s)"

declare at_loop.simps [simp del]

definition stream_run :: "dvr_env \<Rightarrow> stream_event list \<Rightarrow> rtsp_state \<Rightarrow> rtsp_state" where
  "stream_run e evs s = foldl (\<lambda>s ev. stream_step e ev s) s evs"

section \<open>Keys\<close>

lemma nth_upd: "j < length xs \<Longrightarrow> xs[i := x] ! j = (if j = i then x else xs ! j)"
  by simp

lemma stream_key_prefix: "has_prefix (stream_key i n) (itoa j @ ''_'') = (i = j)"
proof -
  have d: "CHR ''_'' \<notin> set (itoa m)" for m by (rule notin_itoa) (simp_all add: is_digit_def char_val_def)
  have t: "takeWhile (\<lambda>c. c \<noteq> CHR ''_'') (itoa m @ ''_'' @ r) = itoa m" for m r
    using d by (subst takeWhile_append2) auto
  show ?thesis
  proof
    assume "has_prefix (stream_key i n) (itoa j @ ''_'')"
    then have "itoa i @ ''_'' @ itoa n = itoa j @ ''_'' @ drop (length (itoa j) + 1) (stream_key i n)"
      unfolding has_prefix_def stream_key_def by (metis append.assoc append_take_drop_id length_append list.size(3,4) One_nat_def add_0 plus_1_eq_Suc add.commute)
    then have "itoa i = itoa j" using t by metis
    then show "i = j" by (rule itoa_inj)
  qed (simp add: has_prefix_def stream_key_def)
qed

section \<open>Stopping\<close>

lemma stopped_simps [simp]:
  "vs_client (stopped v) = None" "vs_pc (stopped v) = None" "vs_track (stopped v) = False" "vs_pos (stopped v) = vs_pos v"
  "stopped (stopped v) = stopped v" "vs_done (stopped v) = (vs_done v \<or> vs_cancel v)"
  by (simp_all add: stopped_def)

lemma close_opt_frames [simp]:
  "rs_streams (close_opt close_client c s) = rs_streams s" "rs_streams (close_opt close_pc c s) = rs_streams s"
  "rs_map (close_opt close_client c s) = rs_map s" "rs_map (close_opt close_pc c s) = rs_map s"
  "rs_begun (close_opt close_client c s) = rs_begun s" "rs_begun (close_opt close_pc c s) = rs_begun s"
  "rs_built (close_opt close_client c s) = rs_built s" "rs_built (close_opt close_pc c s) = rs_built s"
  "rs_sent (close_opt close_client c s) = rs_sent s" "rs_sent (close_opt close_pc c s) = rs_sent s"
  "rs_pcs (close_opt close_client c s) = rs_pcs s" "rs_open (close_opt close_pc c s) = rs_open s"
  "set (rs_open (close_opt close_client c s)) = {x \<in> set (rs_open s). c \<noteq> Some x}"
  "set (rs_pcs (close_opt close_pc c s)) = {x \<in> set (rs_pcs s). c \<noteq> Some x}"
  by (auto simp: close_opt_def close_client_def close_pc_def split: option.split)

lemma stream_stop_frames [simp]:
  "rs_map (stream_stop i s) = rs_map s" "rs_begun (stream_stop i s) = rs_begun s" "rs_built (stream_stop i s) = rs_built s"
  "rs_sent (stream_stop i s) = rs_sent s" "length (rs_streams (stream_stop i s)) = length (rs_streams s)"
  "set (rs_open (stream_stop i s)) = {c \<in> set (rs_open s). vs_client (rs_streams s ! i) \<noteq> Some c}"
  "set (rs_pcs (stream_stop i s)) = {p \<in> set (rs_pcs s). vs_pc (rs_streams s ! i) \<noteq> Some p}"
  "j < length (rs_streams s) \<Longrightarrow> rs_streams (stream_stop i s) ! j = (if j = i then stopped (rs_streams s ! j) else rs_streams s ! j)"
  by (simp_all add: stream_stop_def Let_def)

definition stop_each :: "nat list \<Rightarrow> rtsp_state \<Rightarrow> rtsp_state" where
  "stop_each is s = foldl (\<lambda>s i. stream_stop i s) s is"

lemma stop_each_frames [simp]:
  "rs_map (stop_each is s) = rs_map s" "rs_begun (stop_each is s) = rs_begun s" "rs_built (stop_each is s) = rs_built s"
  "rs_sent (stop_each is s) = rs_sent s" "length (rs_streams (stop_each is s)) = length (rs_streams s)"
  by (induction "is" arbitrary: s) (simp_all add: stop_each_def)

lemma stop_each_streams:
  "\<forall>i\<in>set is. i < length (rs_streams s) \<Longrightarrow> j < length (rs_streams s)
    \<Longrightarrow> rs_streams (stop_each is s) ! j = (if j \<in> set is then stopped (rs_streams s ! j) else rs_streams s ! j)"
  by (induction "is" arbitrary: s) (simp_all add: stop_each_def)

lemma stop_each_open:
  "\<forall>i\<in>set is. i < length (rs_streams s)
    \<Longrightarrow> set (rs_open (stop_each is s)) = {c \<in> set (rs_open s). \<forall>i\<in>set is. vs_client (rs_streams s ! i) \<noteq> Some c}"
  by (induction "is" arbitrary: s) (auto simp: stop_each_def)

lemma stop_each_pcs:
  "\<forall>i\<in>set is. i < length (rs_streams s)
    \<Longrightarrow> set (rs_pcs (stop_each is s)) = {p \<in> set (rs_pcs s). \<forall>i\<in>set is. vs_pc (rs_streams s ! i) \<noteq> Some p}"
  by (induction "is" arbitrary: s) (auto simp: stop_each_def)

definition chosen :: "(string \<Rightarrow> bool) \<Rightarrow> rtsp_state \<Rightarrow> nat list" where
  "chosen P s = map snd (filter (\<lambda>x. P (fst x)) (rs_map s))"

lemma stop_keys_alt: "stop_keys P s = (stop_each (chosen P s) s)\<lparr>rs_map := filter (\<lambda>x. \<not> P (fst x)) (rs_map s)\<rparr>"
  by (simp add: stop_keys_def stop_each_def chosen_def)

lemma set_chosen: "set (chosen P s) = {i. \<exists>k. P k \<and> (k, i) \<in> set (rs_map s)}"
  by (force simp: chosen_def)

section \<open>A stopped stream stays silent\<close>

text \<open>The streams that exist keep their place, and none gets its track back.\<close>

definition later :: "rtsp_state \<Rightarrow> rtsp_state \<Rightarrow> bool" where
  "later s s' = (length (rs_streams s) \<le> length (rs_streams s') \<and>
     (\<forall>i<length (rs_streams s). vs_track (rs_streams s' ! i) \<longrightarrow> vs_track (rs_streams s ! i)))"

lemma later_refl [simp]: "later s s" by (simp add: later_def)

lemma later_trans: "later s s' \<Longrightarrow> later s' s2 \<Longrightarrow> later s s2"
  by (auto simp: later_def)

lemma later_same: "rs_streams s' = rs_streams s \<Longrightarrow> later s s'"
  by (simp add: later_def)

lemma later_on: "vs_track (f (rs_streams s ! i)) = vs_track (rs_streams s ! i) \<Longrightarrow> later s (on_stream i f s)"
  by (auto simp: later_def on_stream_def nth_upd split: if_splits)

lemma later_stop: "later s (stream_stop i s)"
  by (auto simp: later_def stream_stop_def Let_def nth_upd split: if_splits)

lemma later_stop_keys: "later s (stop_keys P s)"
proof -
  have "later s (stop_each is s)" for "is"
  proof (induction "is" arbitrary: s)
    case (Cons i "is")
    have "stop_each (i # is) s = stop_each is (stream_stop i s)" by (simp add: stop_each_def)
    with Cons [of "stream_stop i s"] later_stop later_trans show ?case by metis
  qed (simp add: stop_each_def)
  then have "later s (stop_each (chosen P s) s)" .
  then show ?thesis by (simp add: later_def stop_keys_alt)
qed

lemma client_frames [simp]:
  "rs_streams (open_client s) = rs_streams s" "rs_streams (close_client c s) = rs_streams s"
  "rs_streams (open_pc s) = rs_streams s" "rs_streams (close_pc c s) = rs_streams s"
  "rs_map (open_client s) = rs_map s" "rs_map (close_client c s) = rs_map s" "rs_map (open_pc s) = rs_map s" "rs_map (close_pc c s) = rs_map s"
  "rs_begun (open_client s) = rs_begun s" "rs_begun (close_client c s) = rs_begun s"
  "rs_begun (open_pc s) = rs_begun s" "rs_begun (close_pc c s) = rs_begun s"
  "rs_built (open_client s) = rs_built s" "rs_built (close_client c s) = rs_built s"
  "rs_built (open_pc s) = rs_built s" "rs_built (close_pc c s) = rs_built s"
  "rs_sent (open_client s) = rs_sent s" "rs_sent (close_client c s) = rs_sent s"
  "rs_sent (open_pc s) = rs_sent s" "rs_sent (close_pc c s) = rs_sent s"
  "rs_pcs (open_client s) = rs_pcs s" "rs_pcs (close_client c s) = rs_pcs s"
  "rs_open (open_pc s) = rs_open s" "rs_open (close_pc c s) = rs_open s"
  by (simp_all add: open_client_def close_client_def open_pc_def close_pc_def)

lemma connect_frames:
  assumes "connectH264 e cam d n s = (s', c)"
  shows "rs_streams s' = rs_streams s \<and> rs_map s' = rs_map s \<and> rs_begun s' = rs_begun s \<and> rs_built s' = rs_built s
    \<and> rs_sent s' = rs_sent s \<and> rs_pcs s' = rs_pcs s
    \<and> set (rs_open s') \<subseteq> (case c of None \<Rightarrow> set (rs_open s) | Some c \<Rightarrow> insert c (set (rs_open s)))"
proof -
  have "connect_each cam urls s = (s', c) \<Longrightarrow> ?thesis" for urls
  proof (induction urls arbitrary: s)
    case (Cons url urls)
    let ?s = "close_client (rs_next s) (open_client s)"
    have k: "set (rs_open ?s) \<subseteq> set (rs_open s)" by (auto simp: close_client_def open_client_def)
    consider "cam url = Bad_URL \<or> cam url = Unreachable" | "cam url = Undescribed \<or> cam url = No_H264" | "cam url = Has_H264"
      using connection.exhaust by blast
    then show ?case
    proof cases
      case 2
      then have "connect_each cam urls ?s = (s', c)" using Cons.prems by auto
      from Cons.IH [OF this] k show ?thesis by (cases c) (simp_all, blast+)
    qed (use Cons in \<open>auto simp: open_client_def\<close>)
  qed auto
  then show ?thesis using assms by (simp add: connectH264_def)
qed

lemma later_pipeline: "later s (start_pipeline k d n c bad s)"
  by (cases bad) (auto simp: start_pipeline_def Let_def later_def nth_append)

lemma later_build: "later s (start_build e k dn cam bad s)"
proof (cases dn)
  case (Some dn')
  obtain d n where dn: "dn = Some (d, n)" using Some by (cases dn') auto
  obtain s1 r where c: "connectH264 e cam d n (s\<lparr>rs_begun := remove1 k (rs_begun s)\<rparr>) = (s1, r)" by fastforce
  have "later s s1" by (rule later_same) (use connect_frames [OF c] in simp)
  with later_pipeline [of s1] show ?thesis by (cases r) (auto simp: start_build_def dn c intro: later_trans)
qed (simp add: start_build_def later_same)

lemma later_attempt: "later s (loop_attempt e i a cam ok s)"
proof -
  obtain s1 r where c: "connectH264 e cam (vs_dvr (rs_streams s ! i)) (vs_num (rs_streams s ! i)) s = (s1, r)" by fastforce
  have 1: "later s s1" by (rule later_same) (use connect_frames [OF c] in simp)
  have t: "vs_track (attempt_failed a v) = vs_track v" for v by (simp add: attempt_failed_def at_pos_def give_up_def)
  have 2: "later s1 (on_stream i (attempt_failed a) s1)" "later s1 (on_stream i (at_pos p) s1)" for p
    by (rule later_on, simp add: t at_pos_def)+
  have 3: "later s1 (on_stream i (attempt_failed a) (close_client x s1))" for x
    using 2(1) by (simp add: later_def on_stream_def)
  note f = later_trans [OF 1 2(1)] later_trans [OF 1 2(2)] later_trans [OF 1 3]
  show ?thesis using f by (cases r) (simp_all add: loop_attempt_def c)
qed

lemma later_step: "later s (stream_step e ev s)"
proof (cases ev)
  case (Begin k)
  then show ?thesis using later_stop_keys [of s "\<lambda>x. x = k"] by (simp add: start_begin_def later_def)
next
  case (Look i)
  have "later s (loop_look i s)"
    by (cases "vs_client (rs_streams s ! i)") (simp_all add: loop_look_def later_on give_up_def at_pos_def)
  with Look show ?thesis by (simp split: option.split loop_pos.split)
next
  case (Dropped i)
  have "later s (loop_dropped i c s)" for c
    using later_on [of "\<lambda>v. at_pos (if vs_done v then Ended else Pausing 1) v" "close_client c s" i]
    by (simp add: loop_dropped_def later_def at_pos_def)
  with Dropped show ?thesis by (simp split: option.split loop_pos.split)
next
  case (Swap i)
  have "later s (loop_swap i c s)" for c
    using later_on [of "\<lambda>v. v\<lparr>vs_client := Some c, vs_pos := Top\<rparr>" "close_opt close_client (vs_client (rs_streams s ! i)) s" i]
    by (simp add: loop_swap_def later_def)
  with Swap show ?thesis by (simp split: option.split loop_pos.split)
qed (auto simp: StopDVRStreams_def StopAllStreams_def later_stop_keys later_build later_attempt start_install_def later_on at_pos_def later_same
    split: option.split loop_pos.split)

lemma later_run: "later s (stream_run e evs s)"
proof (induction evs arbitrary: s)
  case (Cons ev evs)
  have "stream_run e (ev # evs) s = stream_run e evs (stream_step e ev s)" by (simp add: stream_run_def)
  then show ?case using later_trans [OF later_step Cons.IH] by simp
qed (simp add: stream_run_def)

text \<open>Only packets are recorded as sent.\<close>

lemma sent_stop_keys [simp]: "rs_sent (stop_keys P s) = rs_sent s"
  by (simp add: stop_keys_alt)

lemma sent_on [simp]: "rs_sent (on_stream i f s) = rs_sent s"
  by (simp add: on_stream_def)

lemma sent_build [simp]: "rs_sent (start_build e k dn cam bad s) = rs_sent s"
proof (cases dn)
  case (Some dn')
  obtain d n where dn: "dn = Some (d, n)" using Some by (cases dn') auto
  obtain s1 r where c: "connectH264 e cam d n (s\<lparr>rs_begun := remove1 k (rs_begun s)\<rparr>) = (s1, r)" by fastforce
  have "rs_sent (start_pipeline k d n x bad s1) = rs_sent s1" for x by (cases bad) (auto simp: start_pipeline_def Let_def)
  with connect_frames [OF c] show ?thesis by (cases r) (simp_all add: start_build_def dn c)
qed (simp add: start_build_def)

lemma sent_attempt [simp]: "rs_sent (loop_attempt e i a cam ok s) = rs_sent s"
proof -
  obtain s1 r where c: "connectH264 e cam (vs_dvr (rs_streams s ! i)) (vs_num (rs_streams s ! i)) s = (s1, r)" by fastforce
  then show ?thesis using connect_frames [OF c] by (cases r) (simp_all add: loop_attempt_def)
qed

lemma sent_loop [simp]:
  "rs_sent (loop_look i s) = rs_sent s" "rs_sent (loop_dropped i c s) = rs_sent s" "rs_sent (loop_swap i c s) = rs_sent s"
  by (simp_all add: loop_look_def loop_dropped_def loop_swap_def split: option.split)

lemma sent_step: "rs_sent (stream_step e ev s) = rs_sent s
  \<or> (\<exists>i<length (rs_streams s). vs_track (rs_streams s ! i) \<and> rs_sent (stream_step e ev s) = rs_sent s @ [i])"
  by (cases ev) (auto simp: start_begin_def start_install_def StopDVRStreams_def StopAllStreams_def split: option.split loop_pos.split)

lemma silent_run:
  "i < length (rs_streams s) \<Longrightarrow> \<not> vs_track (rs_streams s ! i)
    \<Longrightarrow> \<exists>r. rs_sent (stream_run e evs s) = rs_sent s @ r \<and> i \<notin> set r"
proof (induction evs arbitrary: s)
  case (Cons ev evs)
  let ?s = "stream_step e ev s"
  have l: "i < length (rs_streams ?s) \<and> \<not> vs_track (rs_streams ?s ! i)"
    using later_step [of s e ev] Cons.prems by (auto simp: later_def)
  then obtain r where r: "rs_sent (stream_run e evs ?s) = rs_sent ?s @ r" "i \<notin> set r" using Cons.IH by blast
  have "stream_run e (ev # evs) s = stream_run e evs ?s" by (simp add: stream_run_def)
  with sent_step [of e ev s] r Cons.prems show ?case by auto
qed (simp add: stream_run_def)

text \<open>The numbers in the map are those of streams.\<close>

definition indexed :: "rtsp_state \<Rightarrow> bool" where
  "indexed s = (\<forall>x\<in>set (rs_map s) \<union> set (rs_built s). snd x < length (rs_streams s))"

lemma indexed_grow:
  assumes "indexed s" "length (rs_streams s) \<le> length (rs_streams s')"
    "set (rs_map s') \<union> set (rs_built s') \<subseteq> set (rs_map s) \<union> set (rs_built s) \<union> {x. snd x < length (rs_streams s')}"
  shows "indexed s'"
  unfolding indexed_def
proof
  fix x assume "x \<in> set (rs_map s') \<union> set (rs_built s')"
  then have "x \<in> set (rs_map s) \<union> set (rs_built s) \<or> snd x < length (rs_streams s')" using assms(3) by blast
  with assms(1, 2) show "snd x < length (rs_streams s')" unfolding indexed_def using less_le_trans by blast
qed

lemma keys_on [simp]: "rs_map (on_stream i f s) = rs_map s" "rs_built (on_stream i f s) = rs_built s" "rs_begun (on_stream i f s) = rs_begun s"
  by (simp_all add: on_stream_def)

lemma keys_attempt [simp]:
  "rs_map (loop_attempt e i a cam ok s) = rs_map s" "rs_built (loop_attempt e i a cam ok s) = rs_built s"
  "rs_begun (loop_attempt e i a cam ok s) = rs_begun s"
proof -
  obtain s1 r where c: "connectH264 e cam (vs_dvr (rs_streams s ! i)) (vs_num (rs_streams s ! i)) s = (s1, r)" by fastforce
  show "rs_map (loop_attempt e i a cam ok s) = rs_map s" "rs_built (loop_attempt e i a cam ok s) = rs_built s"
    "rs_begun (loop_attempt e i a cam ok s) = rs_begun s"
    using connect_frames [OF c] by (cases r; simp add: loop_attempt_def c)+
qed

lemma keys_loop [simp]:
  "rs_map (loop_look i s) = rs_map s" "rs_map (loop_dropped i c s) = rs_map s" "rs_map (loop_swap i c s) = rs_map s"
  "rs_built (loop_look i s) = rs_built s" "rs_built (loop_dropped i c s) = rs_built s" "rs_built (loop_swap i c s) = rs_built s"
  "rs_begun (loop_look i s) = rs_begun s" "rs_begun (loop_dropped i c s) = rs_begun s" "rs_begun (loop_swap i c s) = rs_begun s"
  by (simp_all add: loop_look_def loop_dropped_def loop_swap_def split: option.split)

lemma keys_build:
  "rs_map (start_build e k dn cam bad s) = rs_map s \<and>
   (rs_built (start_build e k dn cam bad s) = rs_built s \<or> rs_built (start_build e k dn cam bad s) = (k, length (rs_streams s)) # rs_built s
      \<and> length (rs_streams (start_build e k dn cam bad s)) = Suc (length (rs_streams s)))"
proof (cases dn)
  case (Some dn')
  obtain d n where dn: "dn = Some (d, n)" using Some by (cases dn') auto
  obtain s1 r where c: "connectH264 e cam d n (s\<lparr>rs_begun := remove1 k (rs_begun s)\<rparr>) = (s1, r)" by fastforce
  have "rs_map (start_pipeline k d n x bad s1) = rs_map s1 \<and> (rs_built (start_pipeline k d n x bad s1) = rs_built s1
      \<or> rs_built (start_pipeline k d n x bad s1) = (k, length (rs_streams s1)) # rs_built s1
        \<and> length (rs_streams (start_pipeline k d n x bad s1)) = Suc (length (rs_streams s1)))" for x
    by (cases bad) (auto simp: start_pipeline_def Let_def)
  with connect_frames [OF c] show ?thesis by (cases r) (simp_all add: start_build_def dn c)
qed (simp add: start_build_def)

lemma indexed_step:
  assumes "indexed s"
  shows "indexed (stream_step e ev s)"
proof (rule indexed_grow [OF assms])
  show "length (rs_streams s) \<le> length (rs_streams (stream_step e ev s))" using later_step by (simp add: later_def)
  then show "set (rs_map (stream_step e ev s)) \<union> set (rs_built (stream_step e ev s))
    \<subseteq> set (rs_map s) \<union> set (rs_built s) \<union> {x. snd x < length (rs_streams (stream_step e ev s))}"
  proof (cases ev)
    case (Build k dn cam bad)
    with keys_build [of e k dn cam bad s] show ?thesis by auto
  next
    case (Install k i)
    then show ?thesis using set_remove1_subset [of "(k, i)" "rs_built s"] by (auto simp: start_install_def)
  qed (auto simp: start_begin_def StopDVRStreams_def StopAllStreams_def stop_keys_alt split: option.split loop_pos.split)
qed

lemma run_induct: "Q s \<Longrightarrow> (\<And>ev s. Q s \<Longrightarrow> Q (stream_step e ev s)) \<Longrightarrow> Q (stream_run e evs s)"
  by (induction evs arbitrary: s) (simp_all add: stream_run_def)

lemma indexed_run: "indexed (stream_run e evs rtsp_start)"
  by (rule run_induct [where Q = indexed], simp add: indexed_def rtsp_start_def, rule indexed_step)

lemma stopped_keys_silent:
  assumes "indexed s" "i \<in> set (chosen P s)"
  shows "\<exists>r. rs_sent (stream_run e evs (stop_keys P s)) = rs_sent s @ r \<and> i \<notin> set r"
proof -
  have b: "\<forall>j\<in>set (chosen P s). j < length (rs_streams s)" using assms(1) unfolding indexed_def set_chosen by force
  have "\<not> vs_track (rs_streams (stop_keys P s) ! i)" using stop_each_streams [OF b, of i] b assms(2) by (simp add: stop_keys_alt)
  with silent_run [of i "stop_keys P s"] b assms(2) show ?thesis by (simp add: stop_keys_alt)
qed

section \<open>Stops that close everything\<close>

definition calm :: "channel_stream \<Rightarrow> bool" where
  "calm v = (case vs_pos v of Pausing _ \<Rightarrow> False | Trying _ \<Rightarrow> False | Holding _ \<Rightarrow> False | _ \<Rightarrow> True)"

text \<open>A sequence of events in which two starts of one channel never overlap and no stream is stopped while it is
  reconnecting.\<close>

fun orderly_event :: "stream_event \<Rightarrow> rtsp_state \<Rightarrow> bool" where
  "orderly_event (Begin k) s = (k \<notin> set (rs_begun s) \<union> fst ` set (rs_built s) \<and> list_all (\<lambda>i. calm (rs_streams s ! i)) (chosen (\<lambda>x. x = k) s))"
| "orderly_event (Stop_DVR d) s = list_all (\<lambda>i. calm (rs_streams s ! i)) (chosen (\<lambda>k. has_prefix k (itoa d @ ''_'')) s)"
| "orderly_event Stop_All s = list_all (\<lambda>i. calm (rs_streams s ! i)) (chosen (\<lambda>_. True) s)"
| "orderly_event _ s = True"

fun orderly :: "dvr_env \<Rightarrow> stream_event list \<Rightarrow> rtsp_state \<Rightarrow> bool" where
  "orderly e [] s = True"
| "orderly e (ev # evs) s = (orderly_event ev s \<and> orderly e evs (stream_step e ev s))"

definition dead :: "channel_stream \<Rightarrow> bool" where
  "dead v = (vs_client v = None \<and> vs_pc v = None \<and> (case vs_pos v of Top \<Rightarrow> True | Waiting _ \<Rightarrow> vs_done v | Ended \<Rightarrow> True | _ \<Rightarrow> False))"

definition owns :: "channel_stream \<Rightarrow> nat \<Rightarrow> bool" where
  "owns v c = (vs_client v = Some c \<or> vs_pos v = Holding c)"

definition kept :: "rtsp_state \<Rightarrow> (string \<times> nat) list" where
  "kept s = rs_map s @ rs_built s"

definition tidy :: "rtsp_state \<Rightarrow> bool" where
  "tidy s = (distinct (map fst (kept s) @ rs_begun s) \<and> distinct (map snd (kept s))
     \<and> (\<forall>x\<in>set (kept s). snd x < length (rs_streams s) \<and> vs_cancel (rs_streams s ! snd x))
     \<and> (\<forall>i<length (rs_streams s). i \<in> snd ` set (kept s) \<or> dead (rs_streams s ! i))
     \<and> (\<forall>c\<in>set (rs_open s). \<exists>i<length (rs_streams s). owns (rs_streams s ! i) c)
     \<and> (\<forall>p\<in>set (rs_pcs s). \<exists>i<length (rs_streams s). vs_pc (rs_streams s ! i) = Some p))"

lemma tidyD:
  assumes "tidy s"
  shows "distinct (map fst (kept s) @ rs_begun s)" "distinct (map snd (kept s))"
    "x \<in> set (kept s) \<Longrightarrow> snd x < length (rs_streams s) \<and> vs_cancel (rs_streams s ! snd x)"
    "i < length (rs_streams s) \<Longrightarrow> i \<notin> snd ` set (kept s) \<Longrightarrow> dead (rs_streams s ! i)"
    "c \<in> set (rs_open s) \<Longrightarrow> \<exists>i<length (rs_streams s). owns (rs_streams s ! i) c"
    "p \<in> set (rs_pcs s) \<Longrightarrow> \<exists>i<length (rs_streams s). vs_pc (rs_streams s ! i) = Some p"
  using assms unfolding tidy_def by blast+

lemma tidyI:
  assumes "distinct (map fst (kept s) @ rs_begun s)" "distinct (map snd (kept s))"
    "\<And>x. x \<in> set (kept s) \<Longrightarrow> snd x < length (rs_streams s) \<and> vs_cancel (rs_streams s ! snd x)"
    "\<And>i. i < length (rs_streams s) \<Longrightarrow> i \<notin> snd ` set (kept s) \<Longrightarrow> dead (rs_streams s ! i)"
    "\<And>c. c \<in> set (rs_open s) \<Longrightarrow> \<exists>i<length (rs_streams s). owns (rs_streams s ! i) c"
    "\<And>p. p \<in> set (rs_pcs s) \<Longrightarrow> \<exists>i<length (rs_streams s). vs_pc (rs_streams s ! i) = Some p"
  shows "tidy s"
  using assms unfolding tidy_def by blast

lemma tidy_loop:
  assumes t: "tidy s" and i: "i < length (rs_streams s)"
    and k: "rs_map s' = rs_map s" "rs_built s' = rs_built s" "rs_begun s' = rs_begun s" "rs_pcs s' = rs_pcs s"
    and u: "rs_streams s' = (rs_streams s)[i := v]"
    and v: "vs_cancel v = vs_cancel (rs_streams s ! i)" "vs_pc v = vs_pc (rs_streams s ! i)" "dead (rs_streams s ! i) \<Longrightarrow> dead v"
    and c: "\<And>c. c \<in> set (rs_open s') \<Longrightarrow> owns v c \<or> c \<in> set (rs_open s) \<and> \<not> owns (rs_streams s ! i) c"
  shows "tidy s'"
proof -
  have l: "length (rs_streams s') = length (rs_streams s)" using u by simp
  have n: "rs_streams s' ! j = (if j = i then v else rs_streams s ! j)" if "j < length (rs_streams s)" for j using u that by simp
  have kept: "kept s' = kept s" using k by (simp add: kept_def)
  have o: "\<exists>j<length (rs_streams s'). owns (rs_streams s' ! j) c" if a: "c \<in> set (rs_open s')" for c
  proof (cases "owns v c")
    case False
    then have "c \<in> set (rs_open s)" "\<not> owns (rs_streams s ! i) c" using c [OF a] by blast+
    then obtain j where "j < length (rs_streams s)" "owns (rs_streams s ! j) c" "j \<noteq> i" using tidyD(5) [OF t] by blast
    with n l show ?thesis by (intro exI [of _ j]) simp
  qed (use i n l in auto)
  have p: "\<exists>j<length (rs_streams s'). vs_pc (rs_streams s' ! j) = Some x" if pc: "x \<in> set (rs_pcs s')" for x
  proof -
    obtain j where "j < length (rs_streams s)" "vs_pc (rs_streams s ! j) = Some x" using tidyD(6) [OF t pc [unfolded k(4)]] by blast
    with n l v(2) show ?thesis by (cases "j = i") (auto intro!: exI [of _ j])
  qed
  have a: "snd x < length (rs_streams s') \<and> vs_cancel (rs_streams s' ! snd x)" if "x \<in> set (kept s')" for x
    using tidyD(3) [OF t, of x] that n l v(1) by (cases "snd x = i") (auto simp: kept)
  have d: "dead (rs_streams s' ! j)" if "j < length (rs_streams s')" "j \<notin> snd ` set (kept s')" for j
    using tidyD(4) [OF t, of j] that n l v(3) i by (cases "j = i") (auto simp: kept)
  show ?thesis by (rule tidyI) (use a d o p tidyD(1, 2) [OF t] in \<open>simp_all add: kept k(3)\<close>)
qed

lemma calm_stopped: "calm v \<Longrightarrow> vs_cancel v \<Longrightarrow> dead (stopped v)"
  by (simp add: calm_def dead_def split: loop_pos.splits)

lemma tidy_stop:
  assumes t: "tidy s" and c: "\<forall>i\<in>set (chosen P s). calm (rs_streams s ! i)"
  shows "tidy (stop_keys P s)"
proof -
  let ?s = "stop_keys P s" and ?n = "length (rs_streams s)"
  have b: "\<forall>j\<in>set (chosen P s). j < ?n \<and> vs_cancel (rs_streams s ! j)"
    using tidyD(3) [OF t] unfolding kept_def set_chosen by force
  then have b': "\<forall>j\<in>set (chosen P s). j < ?n" by blast
  have l: "length (rs_streams ?s) = ?n" by (simp add: stop_keys_alt)
  have n: "rs_streams ?s ! j = (if j \<in> set (chosen P s) then stopped (rs_streams s ! j) else rs_streams s ! j)" if "j < ?n" for j
    using stop_each_streams [OF b' that] by (simp add: stop_keys_alt)
  have kept: "kept ?s = filter (\<lambda>x. \<not> P (fst x)) (rs_map s) @ rs_built s" by (simp add: kept_def stop_keys_alt)
  have m: "map fst (filter (\<lambda>x. \<not> P (fst x)) (rs_map s)) = filter (\<lambda>x. \<not> P x) (map fst (rs_map s))" by (simp add: filter_map comp_def)
  have d: "distinct (map fst (kept ?s) @ rs_begun ?s)" "distinct (map snd (kept ?s))"
    using tidyD(1, 2) [OF t] unfolding kept by (auto simp: kept_def stop_keys_alt distinct_map_filter)
  have gone: "snd x \<notin> set (chosen P s)" if "x \<in> set (kept ?s)" for x
  proof
    assume "snd x \<in> set (chosen P s)"
    then obtain k where k: "P k" "(k, snd x) \<in> set (rs_map s)" by (auto simp: set_chosen)
    have x: "x \<in> set (kept s)" "x \<in> set (rs_built s) \<or> \<not> P (fst x)" using that unfolding kept by (auto simp: kept_def)
    have "inj_on snd (set (kept s))" using tidyD(2) [OF t] by (simp add: distinct_map)
    then have e: "x = (k, snd x)" using k(2) x(1) inj_onD [of snd "set (kept s)" x "(k, snd x)"] by (simp add: kept_def)
    have "\<not> (x \<in> set (rs_map s) \<and> x \<in> set (rs_built s))" using tidyD(2) [OF t] by (auto simp: kept_def)
    with e k x(2) show False by (metis fst_conv)
  qed
  have old: "x \<in> set (kept s)" if "x \<in> set (kept ?s)" for x using that unfolding kept by (auto simp: kept_def)
  have a: "snd x < ?n \<and> vs_cancel (rs_streams ?s ! snd x)" if "x \<in> set (kept ?s)" for x
    using tidyD(3) [OF t old [OF that]] gone [OF that] n by simp
  have dd: "i \<in> snd ` set (kept ?s) \<or> dead (rs_streams ?s ! i)" if i: "i < ?n" for i
  proof (cases "i \<in> set (chosen P s)")
    case True
    with b c n [OF i] calm_stopped show ?thesis by simp
  next
    case False
    have "i \<in> snd ` set (kept s) \<Longrightarrow> i \<in> snd ` set (kept ?s)" using False unfolding kept by (force simp: kept_def set_chosen)
    with tidyD(4) [OF t i] n [OF i] False show ?thesis by auto
  qed
  have own: "owns (stopped (rs_streams s ! i)) x \<or> vs_client (rs_streams s ! i) = Some x" if "owns (rs_streams s ! i) x" for i x
    using that by (auto simp: owns_def)
  have o: "\<exists>i<?n. owns (rs_streams ?s ! i) x" if x: "x \<in> set (rs_open ?s)" for x
  proof -
    have x': "x \<in> set (rs_open s)" "\<forall>i\<in>set (chosen P s). vs_client (rs_streams s ! i) \<noteq> Some x"
      using x stop_each_open [OF b'] by (auto simp: stop_keys_alt)
    then obtain i where "i < ?n" "owns (rs_streams s ! i) x" using tidyD(5) [OF t] by blast
    with x'(2) n own show ?thesis by (intro exI [of _ i]) auto
  qed
  have p: "\<exists>i<?n. vs_pc (rs_streams ?s ! i) = Some x" if x: "x \<in> set (rs_pcs ?s)" for x
  proof -
    have x': "x \<in> set (rs_pcs s)" "\<forall>i\<in>set (chosen P s). vs_pc (rs_streams s ! i) \<noteq> Some x"
      using x stop_each_pcs [OF b'] by (auto simp: stop_keys_alt)
    then obtain i where "i < ?n" "vs_pc (rs_streams s ! i) = Some x" using tidyD(6) [OF t] by blast
    with x'(2) n show ?thesis by (intro exI [of _ i]) auto
  qed
  show ?thesis by (rule tidyI) (use d a dd o p in \<open>auto simp: l\<close>)
qed

lemma tidy_connect:
  assumes t: "tidy s" and c: "connectH264 e cam d n s = (s', None)"
  shows "tidy s'"
proof -
  note f = connect_frames [OF c]
  have k: "kept s' = kept s" "rs_begun s' = rs_begun s" "rs_streams s' = rs_streams s" "rs_pcs s' = rs_pcs s"
    using f by (simp_all add: kept_def)
  have "\<exists>i<length (rs_streams s'). owns (rs_streams s' ! i) x" if x: "x \<in> set (rs_open s')" for x
  proof -
    have "x \<in> set (rs_open s)" using f x by auto
    then show ?thesis using tidyD(5) [OF t] k by simp
  qed
  then show ?thesis using tidyD [OF t] by (intro tidyI) (simp_all add: k)
qed

lemma tidy_begun:
  assumes "tidy s" "k \<in> set (rs_begun s)"
  shows "tidy (s\<lparr>rs_begun := remove1 k (rs_begun s)\<rparr>)" "k \<notin> fst ` set (kept s)" "k \<notin> set (remove1 k (rs_begun s))"
proof -
  have d: "distinct (map fst (kept s) @ rs_begun s)" by (rule tidyD(1) [OF assms(1)])
  then show "k \<notin> fst ` set (kept s)" "k \<notin> set (remove1 k (rs_begun s))" using assms(2) by auto
  have "distinct (map fst (kept s) @ remove1 k (rs_begun s))" using d set_remove1_subset [of k "rs_begun s"] by (auto simp: distinct_remove1)
  then show "tidy (s\<lparr>rs_begun := remove1 k (rs_begun s)\<rparr>)" using tidyD [OF assms(1)]
    by (intro tidyI) (simp_all add: kept_def)
qed

text \<open>A client that was just opened: a pipeline that fails closes it, else the new stream owns it.\<close>

lemma tidy_pipeline:
  assumes t: "tidy s" and k: "k \<notin> fst ` set (kept s)" "k \<notin> set (rs_begun s)"
    and s': "rs_streams s' = rs_streams s" "rs_map s' = rs_map s" "rs_built s' = rs_built s" "rs_begun s' = rs_begun s" "rs_pcs s' = rs_pcs s"
      "set (rs_open s') \<subseteq> insert c (set (rs_open s))"
  shows "tidy (start_pipeline k d n c bad s')"
proof -
  let ?t = "start_pipeline k d n c bad s'"
  have kept: "kept s' = kept s" using s' by (simp add: kept_def)
  show ?thesis
  proof (cases bad)
    case (Some b)
    have e: "rs_streams ?t = rs_streams s" "kept ?t = kept s" "rs_begun ?t = rs_begun s" "set (rs_pcs ?t) \<subseteq> set (rs_pcs s)"
      "set (rs_open ?t) \<subseteq> set (rs_open s)"
      using s' by (auto simp: start_pipeline_def Some Let_def kept_def close_client_def open_pc_def close_pc_def)
    show ?thesis
    proof (rule tidyI)
      show "\<exists>i<length (rs_streams ?t). owns (rs_streams ?t ! i) x" if "x \<in> set (rs_open ?t)" for x
        using tidyD(5) [OF t, of x] e that by auto
      show "\<exists>i<length (rs_streams ?t). vs_pc (rs_streams ?t ! i) = Some x" if "x \<in> set (rs_pcs ?t)" for x
        using tidyD(6) [OF t, of x] e that by auto
    qed (use tidyD [OF t] e in auto)
  next
    case None
    let ?v = "\<lparr>vs_dvr = d, vs_num = n, vs_client = Some c, vs_pc = Some (rs_next s'), vs_track = True, vs_cancel = True, vs_done = False, vs_pos = Top\<rparr>"
    let ?n = "length (rs_streams s)"
    have e: "rs_streams ?t = rs_streams s @ [?v]" "rs_map ?t = rs_map s" "rs_built ?t = (k, ?n) # rs_built s" "rs_begun ?t = rs_begun s"
      "rs_pcs ?t = rs_next s' # rs_pcs s" "rs_open ?t = rs_open s'"
      using s' by (simp_all add: start_pipeline_def None Let_def open_pc_def)
    have m: "set (kept ?t) = insert (k, ?n) (set (kept s))" using e by (auto simp: kept_def)
    have new: "?n \<notin> snd ` set (kept s)" using tidyD(3) [OF t] by fastforce
    show ?thesis
    proof (rule tidyI)
      show "distinct (map fst (kept ?t) @ rs_begun ?t)" using tidyD(1) [OF t] k e by (auto simp: kept_def)
      show "distinct (map snd (kept ?t))" using tidyD(2) [OF t] new e by (auto simp: kept_def)
      show "snd x < length (rs_streams ?t) \<and> vs_cancel (rs_streams ?t ! snd x)" if "x \<in> set (kept ?t)" for x
        using tidyD(3) [OF t, of x] that m e(1) by (auto simp: nth_append)
      show "dead (rs_streams ?t ! i)" if "i < length (rs_streams ?t)" "i \<notin> snd ` set (kept ?t)" for i
      proof -
        have "i \<noteq> ?n" "i \<notin> snd ` set (kept s)" using that(2) m by auto
        with that(1) tidyD(4) [OF t, of i] e(1) show ?thesis by (simp add: nth_append)
      qed
      show "\<exists>i<length (rs_streams ?t). owns (rs_streams ?t ! i) x" if x: "x \<in> set (rs_open ?t)" for x
      proof (cases "x = c")
        case False
        then have "x \<in> set (rs_open s)" using x s'(6) e(6) by auto
        then obtain i where "i < ?n" "owns (rs_streams s ! i) x" using tidyD(5) [OF t] by blast
        then show ?thesis using e(1) by (intro exI [of _ i]) (simp add: nth_append)
      qed (use e(1) in \<open>auto simp: owns_def intro!: exI [of _ ?n]\<close>)
      show "\<exists>i<length (rs_streams ?t). vs_pc (rs_streams ?t ! i) = Some x" if x: "x \<in> set (rs_pcs ?t)" for x
      proof (cases "x = rs_next s'")
        case False
        then have "x \<in> set (rs_pcs s)" using x e(5) by simp
        then obtain i where "i < ?n" "vs_pc (rs_streams s ! i) = Some x" using tidyD(6) [OF t] by blast
        then show ?thesis using e(1) by (intro exI [of _ i]) (simp add: nth_append)
      qed (use e(1) in \<open>auto intro!: exI [of _ ?n]\<close>)
    qed
  qed
qed

lemma tidy_build:
  assumes t: "tidy s" and k: "k \<in> set (rs_begun s)"
  shows "tidy (start_build e k dn cam bad s)"
proof -
  let ?s = "s\<lparr>rs_begun := remove1 k (rs_begun s)\<rparr>"
  note b = tidy_begun [OF t k]
  show ?thesis
  proof (cases dn)
    case (Some dn')
    obtain d n where dn: "dn = Some (d, n)" using Some by (cases dn') auto
    obtain s1 r where c: "connectH264 e cam d n ?s = (s1, r)" by fastforce
    show ?thesis
    proof (cases r)
      case None
      with tidy_connect [OF b(1)] c show ?thesis by (simp add: start_build_def dn)
    next
      case (Some x)
      have "tidy (start_pipeline k d n x bad s1)"
        by (rule tidy_pipeline [OF b(1)]) (use connect_frames [OF c] b(2, 3) Some in \<open>simp_all add: kept_def\<close>)
      with c Some show ?thesis by (simp add: start_build_def dn)
    qed
  qed (use b in \<open>simp add: start_build_def\<close>)
qed

lemma tidy_install:
  assumes t: "tidy s" and k: "(k, i) \<in> set (rs_built s)"
  shows "tidy (start_install k i s)"
proof -
  let ?t = "start_install k i s"
  have d: "distinct (map fst (rs_map s) @ map fst (rs_built s) @ rs_begun s)" using tidyD(1) [OF t] by (simp add: kept_def)
  have n: "k \<notin> fst ` set (rs_map s)" using d k by force
  then have f: "filter (\<lambda>x. fst x \<noteq> k) (rs_map s) = rs_map s" by (force simp: filter_id_conv)
  have e: "rs_map ?t = (k, i) # rs_map s" "rs_built ?t = remove1 (k, i) (rs_built s)" "rs_begun ?t = rs_begun s" "rs_streams ?t = rs_streams s"
    "rs_open ?t = rs_open s" "rs_pcs ?t = rs_pcs s"
    by (simp_all add: start_install_def f)
  have "mset (rs_built s) = add_mset (k, i) (mset (remove1 (k, i) (rs_built s)))" using k by simp
  then have p: "mset (kept ?t) = mset (kept s)" by (simp add: kept_def e)
  have ms: "mset (map g (kept ?t)) = mset (map g (kept s))" for g :: "string \<times> nat \<Rightarrow> 'a" using p by simp
  have "mset (map fst (kept ?t) @ rs_begun ?t) = mset (map fst (kept s) @ rs_begun s)" using p e(3) by simp
  then have "distinct (map fst (kept ?t) @ rs_begun ?t)" using tidyD(1) [OF t] mset_eq_imp_distinct_iff by blast
  moreover have "distinct (map snd (kept ?t))" using tidyD(2) [OF t] ms [of snd] mset_eq_imp_distinct_iff by blast
  moreover have "set (kept ?t) = set (kept s)" using p mset_eq_setD by blast
  ultimately show ?thesis using tidyD [OF t] by (intro tidyI) (simp_all add: e)
qed

lemma at_loopD: "at_loop i s = Some p \<Longrightarrow> i < length (rs_streams s) \<and> vs_pos (rs_streams s ! i) = p"
  by (simp add: at_loop.simps split: if_splits)

lemma on_stream_frames [simp]:
  "rs_open (on_stream i f s) = rs_open s" "rs_pcs (on_stream i f s) = rs_pcs s"
  "rs_streams (on_stream i f s) = (rs_streams s)[i := f (rs_streams s ! i)]"
  by (simp_all add: on_stream_def)

text \<open>The goroutine keeps the peer and the right to cancel; it moves on, or ends, or gets a new client.\<close>

lemma tidy_move:
  assumes t: "tidy s" and i: "i < length (rs_streams s)"
    and f: "vs_cancel (f (rs_streams s ! i)) = vs_cancel (rs_streams s ! i)" "vs_pc (f (rs_streams s ! i)) = vs_pc (rs_streams s ! i)"
      "dead (rs_streams s ! i) \<Longrightarrow> dead (f (rs_streams s ! i))" "\<And>c. owns (rs_streams s ! i) c \<Longrightarrow> owns (f (rs_streams s ! i)) c"
  shows "tidy (on_stream i f s)"
  by (rule tidy_loop [OF t i, where v = "f (rs_streams s ! i)"]) (use f in auto)

lemma tidy_close: "tidy s \<Longrightarrow> tidy (close_client c s)"
  using tidyD by (intro tidyI) (auto simp: kept_def close_client_def)

lemma tidy_attempt:
  assumes t: "tidy s" and p: "at_loop i s = Some (Trying a)"
  shows "tidy (loop_attempt e i a cam ok s)"
proof -
  have i: "i < length (rs_streams s)" "vs_pos (rs_streams s ! i) = Trying a" using at_loopD [OF p] by auto
  have nd: "\<not> dead (rs_streams s ! i)" using i(2) by (simp add: dead_def)
  have fail: "vs_cancel (attempt_failed a v) = vs_cancel v" "vs_pc (attempt_failed a v) = vs_pc v" "vs_client (attempt_failed a v) = vs_client v" for v
    by (simp_all add: attempt_failed_def at_pos_def give_up_def)
  obtain s1 r where c: "connectH264 e cam (vs_dvr (rs_streams s ! i)) (vs_num (rs_streams s ! i)) s = (s1, r)" by fastforce
  note f = connect_frames [OF c]
  show ?thesis
  proof (cases r)
    case None
    have "tidy s1" using tidy_connect [OF t] c None by simp
    then have "tidy (on_stream i (attempt_failed a) s1)"
      by (rule tidy_move) (use i nd f fail in \<open>auto simp: owns_def\<close>)
    with None c show ?thesis by (simp add: loop_attempt_def)
  next
    case (Some x)
    have o: "set (rs_open (close_client x s1)) \<subseteq> set (rs_open s)" using f Some by (auto simp: close_client_def)
    have 1: "tidy (on_stream i (at_pos (Holding x)) s1)"
      by (rule tidy_loop [OF t i(1), where v = "at_pos (Holding x) (rs_streams s ! i)"])
        (use f nd i Some in \<open>auto simp: at_pos_def owns_def\<close>)
    have 2: "tidy (on_stream i (attempt_failed a) (close_client x s1))"
      by (rule tidy_loop [OF t i(1), where v = "attempt_failed a (rs_streams s ! i)"])
        (use f nd i o fail in \<open>auto simp: owns_def\<close>)
    from 1 2 Some c show ?thesis by (simp add: loop_attempt_def)
  qed
qed

lemma tidy_swap:
  assumes t: "tidy s" and p: "at_loop i s = Some (Holding c)"
  shows "tidy (loop_swap i c s)"
proof -
  have i: "i < length (rs_streams s)" "vs_pos (rs_streams s ! i) = Holding c" using at_loopD [OF p] by auto
  show ?thesis
    by (rule tidy_loop [OF t i(1), where v = "(rs_streams s ! i)\<lparr>vs_client := Some c, vs_pos := Top\<rparr>"])
      (use i in \<open>auto simp: loop_swap_def owns_def dead_def\<close>)
qed

lemma tidy_loop_step:
  assumes t: "tidy s"
  shows "at_loop i s = Some Top \<Longrightarrow> tidy (loop_look i s)"
    "at_loop i s = Some (Waiting c) \<Longrightarrow> tidy (loop_dropped i c s)"
    "at_loop i s = Some (Pausing a) \<Longrightarrow> tidy (on_stream i (at_pos p) s)"
    "i < length (rs_streams s) \<Longrightarrow> tidy (on_stream i (\<lambda>v. v\<lparr>vs_done := True\<rparr>) s)"
proof -
  assume p: "at_loop i s = Some Top"
  note i = at_loopD [OF p]
  show "tidy (loop_look i s)"
  proof (cases "vs_client (rs_streams s ! i)")
    case None
    have "tidy (on_stream i give_up s)" by (rule tidy_move [OF t]) (use i None in \<open>auto simp: give_up_def dead_def owns_def\<close>)
    with None show ?thesis by (simp add: loop_look_def)
  next
    case (Some x)
    have "tidy (on_stream i (at_pos (Waiting x)) s)" by (rule tidy_move [OF t]) (use i Some in \<open>auto simp: at_pos_def dead_def owns_def\<close>)
    with Some show ?thesis by (simp add: loop_look_def)
  qed
next
  assume p: "at_loop i s = Some (Waiting c)"
  note i = at_loopD [OF p]
  show "tidy (loop_dropped i c s)" unfolding loop_dropped_def
    by (rule tidy_move [OF tidy_close [OF t]]) (use i in \<open>auto simp: at_pos_def dead_def owns_def\<close>)
next
  assume p: "at_loop i s = Some (Pausing a)"
  note i = at_loopD [OF p]
  show "tidy (on_stream i (at_pos p) s)"
    by (rule tidy_move [OF t]) (use i in \<open>auto simp: at_pos_def dead_def owns_def\<close>)
next
  assume "i < length (rs_streams s)"
  then show "tidy (on_stream i (\<lambda>v. v\<lparr>vs_done := True\<rparr>) s)"
    by (rule tidy_move [OF t]) (auto simp: dead_def owns_def split: loop_pos.splits)
qed

lemma tidy_begin:
  assumes t: "tidy s" and o: "orderly_event (Begin k) s"
  shows "tidy (start_begin k s)"
proof -
  let ?s = "stop_keys (\<lambda>x. x = k) s"
  have s: "tidy ?s" by (rule tidy_stop [OF t]) (use o in \<open>simp add: list_all_iff\<close>)
  have e: "rs_begun ?s = rs_begun s" by (simp add: stop_keys_alt)
  have k: "k \<notin> fst ` set (kept ?s)" "k \<notin> set (rs_begun s)" using o by (auto simp: kept_def stop_keys_alt)
  have d: "distinct (map fst (kept ?s) @ rs_begun ?s)" by (rule tidyD(1) [OF s])
  have "distinct (map fst (kept ?s) @ k # rs_begun ?s)" using d k e by auto
  with s show ?thesis unfolding start_begin_def by (intro tidyI) (use tidyD [OF s] in \<open>simp_all add: kept_def e\<close>)
qed

lemma tidy_step: "tidy s \<Longrightarrow> orderly_event ev s \<Longrightarrow> tidy (stream_step e ev s)"
proof (cases ev)
  case (Packet i)
  assume "tidy s"
  then show ?thesis unfolding Packet by (simp add: tidy_def kept_def)
qed (auto simp: tidy_begin tidy_build tidy_install tidy_attempt tidy_swap tidy_loop_step StopDVRStreams_def StopAllStreams_def list_all_iff
    simp del: orderly_event.simps(1) intro!: tidy_stop split: option.split loop_pos.split)

lemma tidy_run: "tidy s \<Longrightarrow> orderly e evs s \<Longrightarrow> tidy (stream_run e evs s)"
  by (induction evs arbitrary: s) (simp_all add: stream_run_def tidy_step)

lemma tidy_start: "tidy rtsp_start"
  by (simp add: tidy_def kept_def rtsp_start_def)

section \<open>Properties\<close>

text \<open>C38. What was stopped stays silent: after all streams, or those of a recorder, were stopped, no packet of a stream
  that was in the map is ever forwarded again, however the goroutines, new starts and stops are interleaved
  before and after, even when a goroutine was reconnecting at that moment.\<close>

theorem stopped_streams_silent:
  "set (drop (length (rs_sent (stream_run e before rtsp_start)))
      (rs_sent (stream_run e after (StopAllStreams (stream_run e before rtsp_start)))))
     \<inter> snd ` set (rs_map (stream_run e before rtsp_start)) = {}
   \<and> set (drop (length (rs_sent (stream_run e before rtsp_start)))
      (rs_sent (stream_run e after (StopDVRStreams d (stream_run e before rtsp_start)))))
     \<inter> {i. \<exists>n. (stream_key d n, i) \<in> set (rs_map (stream_run e before rtsp_start))} = {}"
proof -
  let ?s = "stream_run e before rtsp_start"
  have "i \<notin> set (drop (length (rs_sent ?s)) (rs_sent (stream_run e after (stop_keys P ?s))))" if "i \<in> set (chosen P ?s)" for i P
    using stopped_keys_silent [OF indexed_run that, of e after] by auto
  then have c: "set (drop (length (rs_sent ?s)) (rs_sent (stream_run e after (stop_keys P ?s)))) \<inter> set (chosen P ?s) = {}" for P
    by blast
  have a: "snd ` set (rs_map ?s) = set (chosen (\<lambda>_. True) ?s)" by (simp add: chosen_def)
  have "{i. \<exists>n. (stream_key d n, i) \<in> set (rs_map ?s)} \<subseteq> set (chosen (\<lambda>k. has_prefix k (itoa d @ ''_'')) ?s)"
    using stream_key_prefix by (auto simp: set_chosen)
  with c [of "\<lambda>k. has_prefix k (itoa d @ ''_'')"] c [of "\<lambda>_. True"] show ?thesis
    unfolding StopAllStreams_def StopDVRStreams_def a by blast
qed


definition toy_streams :: dvr_env where
  "toy_streams = \<lparr>de_lib = plain_lib, de_rtsp_url = (\<lambda>u p h path. ''rtsp://'' @ h @ path), de_rtsp_ok = (\<lambda>_. True), de_ffmpeg = False, de_frame = (\<lambda>_. None)\<rparr>"

definition toy_camera :: dvr_config where
  "toy_camera = \<lparr>dc_id = 1, dc_name = ''d'', dc_addr = ''h'', dc_port = 80, dc_ext_addr = [], dc_ext_port = 0, dc_username = ''u'',
     dc_password = ''p'', dc_refresh = 2000, dc_quality = ''sub'', dc_protocol = ''rtsp''\<rparr>"

definition only_main :: "string \<Rightarrow> connection" where
  "only_main url = (if url = ''rtsp://h:554/Streaming/Channels/101'' then Has_H264 else No_H264)"

definition toy_start :: "stream_event list" where
  "toy_start = [Begin ''1_1'', Build ''1_1'' (Some (toy_camera, 1)) only_main None, Install ''1_1'' 0, Look 0, Packet 0]"


text \<open>Both conditions are needed. A stop during an attempt finds no client to close, and the attempt then gives the
  stopped stream a client that stays open; of two starts of one channel that overlap, the first stream is
  overwritten in the map and never stopped.\<close>

lemma stop_during_reconnect_leaks:
  "rs_open (stream_run toy_streams (toy_start @ [Dropped 0, Timer 0, Stop_All, Attempt 0 only_main True, Swap 0, Look 0]) rtsp_start) \<noteq> []"
  by code_simp

lemma overlapping_starts_leak:
  "rs_open (stream_run toy_streams [Begin ''1_1'', Begin ''1_1'', Build ''1_1'' (Some (toy_camera, 1)) only_main None,
     Build ''1_1'' (Some (toy_camera, 1)) only_main None, Install ''1_1'' 0, Install ''1_1'' 1, Stop_All] rtsp_start) \<noteq> []"
  by code_simp

text \<open>A peer that fails ends the goroutine at the next drop, but its client stays open and its stream in the map.\<close>

lemma lost_peer_keeps_client:
  "rs_open (stream_run toy_streams (toy_start @ [Peer_Lost 0]) rtsp_start) \<noteq> []" by code_simp

end
