(* ===== verification/Viewer_Hls.thy ===== *)
theory Viewer_Hls
  imports Go_Net
begin

text \<open>
  The stream of an RTSP address that the viewer serves as HLS, \<^verbatim>\<open>viewer/stream_proxy.go\<close>. The clients and muxers are
  numbered, and those that are open are listed. A packet is handled in two steps, because its handler waits for
  the mutex that \<open>StartStream\<close> and \<open>StopStream\<close> hold: it arrives from an open client, and is later written to the muxer that
  is there then. What the camera offers and the calls of the two libraries that fail are given to the model.
\<close>

section \<open>State\<close>

datatype codec = H264 | H265 | Other_Codec

text \<open>A track carries the parameter sets its format had: those of an H264 track are SPS and PPS.\<close>

record format_info =
  fi_codec :: codec
  fi_vps :: "bytes option"
  fi_sps :: "bytes option"
  fi_pps :: "bytes option"

record hls_track =
  ht_client :: nat
  ht_codec :: codec
  ht_params :: "bytes option list"

record hls_state =
  hl_open :: "nat list"
  hl_muxers :: "nat list"
  hl_next :: nat
  hl_client :: "nat option"
  hl_muxer :: "(nat \<times> hls_track) option"
  hl_running :: bool
  hl_waiting :: "hls_track list"
  hl_written :: "(nat \<times> hls_track) list"

definition hls_start :: hls_state where
  "hls_start = \<lparr>hl_open = [], hl_muxers = [], hl_next = 0, hl_client = None, hl_muxer = None, hl_running = False, hl_waiting = [], hl_written = []\<rparr>"

section \<open>Operations\<close>

definition hls_close_client :: "nat \<Rightarrow> hls_state \<Rightarrow> hls_state" where
  "hls_close_client c s = s\<lparr>hl_open := removeAll c (hl_open s)\<rparr>"

definition hls_close_muxer :: "nat \<Rightarrow> hls_state \<Rightarrow> hls_state" where
  "hls_close_muxer m s = s\<lparr>hl_muxers := removeAll m (hl_muxers s)\<rparr>"

definition stopLocked :: "hls_state \<Rightarrow> hls_state" where
  "stopLocked s =
     (let s1 = (case hl_muxer s of None \<Rightarrow> s | Some (m, _) \<Rightarrow> (hls_close_muxer m s)\<lparr>hl_muxer := None\<rparr>);
          s2 = (case hl_client s1 of None \<Rightarrow> s1 | Some c \<Rightarrow> (hls_close_client c s1)\<lparr>hl_client := None\<rparr>)
      in s2\<lparr>hl_running := False\<rparr>)"

definition StopStream :: "hls_state \<Rightarrow> hls_state" where
  "StopStream = stopLocked"

definition IsRunning :: "hls_state \<Rightarrow> bool" where
  "IsRunning s = hl_running s"

definition setupH264 :: "nat \<Rightarrow> format_info \<Rightarrow> hls_track" where
  "setupH264 c f = \<lparr>ht_client = c, ht_codec = H264, ht_params = [fi_sps f, fi_pps f]\<rparr>"

definition setupH265 :: "nat \<Rightarrow> format_info \<Rightarrow> hls_track" where
  "setupH265 c f = \<lparr>ht_client = c, ht_codec = H265, ht_params = [fi_vps f, fi_sps f, fi_pps f]\<rparr>"

text \<open>\<open>ok\<close> tells whether the decoder is created and the SETUP request answered.\<close>

definition setupCodec :: "bool \<Rightarrow> nat \<Rightarrow> format_info list \<Rightarrow> hls_track option" where
  "setupCodec ok c fs =
     (case find (\<lambda>f. fi_codec f = H264) fs of
        Some f \<Rightarrow> if ok then Some (setupH264 c f) else None
      | None \<Rightarrow> (case find (\<lambda>f. fi_codec f = H265) fs of
          Some f \<Rightarrow> if ok then Some (setupH265 c f) else None
        | None \<Rightarrow> None))"

text \<open>What happens after the address was parsed: the connection, the description (its formats in order), the codec, the
  muxer, the PLAY request.\<close>

record hls_world =
  hw_url :: bool
  hw_connect :: bool
  hw_describe :: "format_info list option"
  hw_setup :: bool
  hw_muxer :: bool
  hw_play :: bool

definition StartStream :: "hls_world \<Rightarrow> hls_state \<Rightarrow> hls_state \<times> string option" where
  "StartStream w s =
     (let s0 = stopLocked s; c = hl_next s0
      in if \<not> hw_url w \<or> \<not> hw_connect w then (s0, None)
         else let s1 = s0\<lparr>hl_open := c # hl_open s0, hl_next := c + 1\<rparr>
           in case Option.bind (hw_describe w) (setupCodec (hw_setup w) c) of
                None \<Rightarrow> (hls_close_client c s1, None)
              | Some t \<Rightarrow>
                  if \<not> hw_muxer w then (hls_close_client c s1, None)
                  else let m = hl_next s1; s2 = s1\<lparr>hl_muxers := m # hl_muxers s1, hl_next := m + 1\<rparr>
                    in if \<not> hw_play w then (hls_close_client c (hls_close_muxer m s2), None)
                       else (s2\<lparr>hl_client := Some c, hl_muxer := Some (m, t), hl_running := True\<rparr>, Some ''/ops/hls/index.m3u8''))"

definition hls_prefix :: string where
  "hls_prefix = ''/ops/hls/''"

text \<open>The request as the muxer sees it: its number and the path; without a muxer the answer is 404.\<close>

definition ServeHLS :: "string \<Rightarrow> hls_state \<Rightarrow> (nat \<times> string) option" where
  "ServeHLS path s = map_option (\<lambda>(m, _). (m, ''/'' @ trim_prefix path hls_prefix)) (hl_muxer s)"

section \<open>Steps\<close>

datatype hls_event =
    Start_Stream hls_world
  | Stop_Stream
  | Packet_Arrives hls_track
  | Packet_Written

fun hls_step :: "hls_event \<Rightarrow> hls_state \<Rightarrow> hls_state" where
  "hls_step (Start_Stream w) s = fst (StartStream w s)"
| "hls_step Stop_Stream s = StopStream s"
| "hls_step (Packet_Arrives t) s = (if ht_client t \<in> set (hl_open s) then s\<lparr>hl_waiting := hl_waiting s @ [t]\<rparr> else s)"
| "hls_step Packet_Written s = (case hl_waiting s of [] \<Rightarrow> s
     | t # ts \<Rightarrow> (case hl_muxer s of None \<Rightarrow> s\<lparr>hl_waiting := ts\<rparr>
         | Some (m, _) \<Rightarrow> s\<lparr>hl_waiting := ts, hl_written := hl_written s @ [(m, t)]\<rparr>))"

definition hls_run :: "hls_event list \<Rightarrow> hls_state \<Rightarrow> hls_state" where
  "hls_run evs s = foldl (\<lambda>s ev. hls_step ev s) s evs"

section \<open>What is open\<close>

definition hls_inv :: "hls_state \<Rightarrow> bool" where
  "hls_inv s = (hl_running s = (hl_client s \<noteq> None) \<and>
     (case (hl_client s, hl_muxer s) of
        (None, None) \<Rightarrow> hl_open s = [] \<and> hl_muxers s = []
      | (Some c, Some (m, t)) \<Rightarrow> hl_open s = [c] \<and> hl_muxers s = [m] \<and> ht_client t = c
      | _ \<Rightarrow> False))"

lemma hls_inv_cases:
  assumes "hls_inv s"
  obtains (idle) "hl_client s = None" "hl_muxer s = None" "hl_open s = []" "hl_muxers s = []" "\<not> hl_running s"
  | (live) c m t where "hl_client s = Some c" "hl_muxer s = Some (m, t)" "hl_open s = [c]" "hl_muxers s = [m]" "ht_client t = c" "hl_running s"
  using assms by (auto simp: hls_inv_def split: option.splits)

lemma stopLocked_idle:
  assumes "hls_inv s"
  shows "hl_client (stopLocked s) = None \<and> hl_muxer (stopLocked s) = None \<and> hl_open (stopLocked s) = [] \<and> hl_muxers (stopLocked s) = []
    \<and> \<not> hl_running (stopLocked s)"
  using assms by (cases rule: hls_inv_cases) (simp_all add: stopLocked_def hls_close_muxer_def hls_close_client_def)

lemma setupCodec_client: "setupCodec ok c fs = Some t \<Longrightarrow> ht_client t = c"
  by (auto simp: setupCodec_def setupH264_def setupH265_def split: option.splits if_splits)

lemma hls_inv_start: "hls_inv s \<Longrightarrow> hls_inv (fst (StartStream w s))"
proof -
  assume "hls_inv s"
  note i = stopLocked_idle [OF this]
  show ?thesis
  proof (cases "Option.bind (hw_describe w) (setupCodec (hw_setup w) (hl_next (stopLocked s)))")
    case None
    with i show ?thesis by (simp add: StartStream_def Let_def hls_inv_def hls_close_client_def)
  next
    case (Some t)
    then have "ht_client t = hl_next (stopLocked s)" by (auto simp: bind_eq_Some_conv dest: setupCodec_client)
    with i Some show ?thesis by (simp add: StartStream_def Let_def hls_inv_def hls_close_client_def hls_close_muxer_def)
  qed
qed

lemma hls_inv_step: "hls_inv s \<Longrightarrow> hls_inv (hls_step ev s)"
proof (cases ev)
  case Stop_Stream
  assume "hls_inv s"
  with Stop_Stream stopLocked_idle [of s] show ?thesis by (simp add: StopStream_def hls_inv_def)
next
  case Packet_Written
  assume "hls_inv s"
  then show ?thesis by (cases rule: hls_inv_cases) (simp_all add: Packet_Written hls_inv_def split: list.split)
next
  case (Packet_Arrives t)
  assume "hls_inv s"
  then show ?thesis by (cases rule: hls_inv_cases) (simp_all add: Packet_Arrives hls_inv_def)
qed (simp add: hls_inv_start)

lemma hls_inv_run: "hls_inv s \<Longrightarrow> hls_inv (hls_run evs s)"
  by (induction evs arbitrary: s) (simp_all add: hls_run_def hls_inv_step)

definition opt_list :: "'a option \<Rightarrow> 'a list" where
  "opt_list x = (case x of None \<Rightarrow> [] | Some a \<Rightarrow> [a])"

text \<open>One stream is open or none: after any sequence of starts, with any failures, stops and packets, the client
  and the muxer that are open are exactly those of the running stream, its track comes from its client, and
  a request for HLS is answered by that muxer just when the stream runs.\<close>

lemma one_stream_open:
  "let s = hls_run evs hls_start in
     hl_open s = opt_list (hl_client s) \<and> hl_muxers s = opt_list (map_option fst (hl_muxer s))
     \<and> map_option (\<lambda>(m, t). ht_client t) (hl_muxer s) = hl_client s \<and> IsRunning s = (hl_client s \<noteq> None)
     \<and> ServeHLS (hls_prefix @ p) s = map_option (\<lambda>(m, t). (m, ''/'' @ p)) (hl_muxer s)"
proof -
  have "hls_inv (hls_run evs hls_start)" by (rule hls_inv_run) (simp add: hls_inv_def hls_start_def)
  then show ?thesis unfolding Let_def by (cases rule: hls_inv_cases) (simp_all add: IsRunning_def ServeHLS_def opt_list_def)
qed

text \<open>A handler that waits for the mutex while the stream is replaced writes its packet, of the old client's track,
  to the new muxer.\<close>

definition toy_hls :: hls_world where
  "toy_hls = \<lparr>hw_url = True, hw_connect = True, hw_describe = Some [\<lparr>fi_codec = H264, fi_vps = None, fi_sps = None, fi_pps = None\<rparr>],
     hw_setup = True, hw_muxer = True, hw_play = True\<rparr>"

lemma stale_packet_reaches_new_muxer:
  "hl_written (hls_run [Start_Stream toy_hls, Packet_Arrives \<lparr>ht_client = 0, ht_codec = H264, ht_params = [None, None]\<rparr>,
     Start_Stream toy_hls, Packet_Written] hls_start) = [(3, \<lparr>ht_client = 0, ht_codec = H264, ht_params = [None, None]\<rparr>)]"
  by (simp add: hls_run_def hls_start_def toy_hls_def StartStream_def Let_def stopLocked_def setupCodec_def setupH264_def
      hls_close_client_def hls_close_muxer_def)

end
