(* ===== verification/Viewer_Cctv.thy ===== *)
theory Viewer_Cctv
  imports Viewer_Store Viewer_Streams Viewer_Hls
begin

text \<open>
  What the viewer asks its recorders, the rest of \<^verbatim>\<open>viewer/cctv.go\<close> with \<^verbatim>\<open>cctv_scan.go\<close>, the discovery and the
  connection test of \<^verbatim>\<open>cctv_rtsp.go\<close>, and the handlers of \<^verbatim>\<open>cctv_proxy.go\<close>. Requests are those of \<open>Agent_Net\<close>, and
  a request whose address does not parse panics as there. Dialling a port, describing an RTSP address, running
  \<open>ffmpeg\<close> and the upscaler, and decoding and scaling a JPEG are parameters.
\<close>

record viewer_cctv =
  vc_env :: dvr_env
  vc_dial :: "string \<Rightarrow> bool"
  vc_codecs :: "string \<Rightarrow> (nat \<times> string) list option"
  vc_reach :: "string \<Rightarrow> connection"
  vc_size :: "string \<Rightarrow> (int \<times> int) option"
  vc_bicubic :: "int \<Rightarrow> string \<Rightarrow> string option"
  vc_esrgan :: "(int \<Rightarrow> string \<Rightarrow> string option) option"

section \<open>Protocols\<close>

definition viewer_probe :: "dvr_env \<Rightarrow> world \<Rightarrow> dvr_config \<Rightarrow> string io" where
  "viewer_probe e w d =
     seq (dvr_get e w d (dc_port d) ''/ISAPI/System/deviceInfo'' 3000) (\<lambda>r.
       if answered r [200] then val ''isapi''
       else seq (dvr_get e w d (dc_port d) ''/cgi-bin/magicBox.cgi?action=getSystemInfo'' 3000) (\<lambda>r.
         if answered r [200, 401] then val ''dahua'' else val ''rtsp''))"

definition checkRTSPPort :: "viewer_cctv \<Rightarrow> string \<Rightarrow> int \<Rightarrow> bool" where
  "checkRTSPPort v addr port = vc_dial v (addr @ '':'' @ itoa port)"

definition probeTCPPort :: "viewer_cctv \<Rightarrow> string \<Rightarrow> int \<Rightarrow> bool" where
  "probeTCPPort v addr port = vc_dial v ((if CHR '':'' \<in> set addr then ''['' @ addr @ '']'' else addr) @ '':'' @ itoa port)"

definition streamProtocolFor :: "viewer_cctv \<Rightarrow> world \<Rightarrow> dvr_config \<Rightarrow> string io" where
  "streamProtocolFor v w d = seq (viewer_probe (vc_env v) w d) (\<lambda>vendor.
     if vendor = ''rtsp'' then val vendor
     else if checkRTSPPort v (dc_addr d) (rtspPortFor d) then val ''rtsp''
     else val vendor)"

definition blank_dvr :: "string \<Rightarrow> int \<Rightarrow> string \<Rightarrow> string \<Rightarrow> dvr_config" where
  "blank_dvr addr port user pass = \<lparr>dc_id = 0, dc_name = [], dc_addr = addr, dc_port = port, dc_ext_addr = [], dc_ext_port = 0,
     dc_username = user, dc_password = pass, dc_refresh = 0, dc_quality = [], dc_protocol = []\<rparr>"

definition ProbeReachable :: "viewer_cctv \<Rightarrow> world \<Rightarrow> string \<Rightarrow> int \<Rightarrow> string \<Rightarrow> string \<Rightarrow> bool io" where
  "ProbeReachable v w raw port user pass =
     (let addr = TrimSpace raw
      in if addr = [] \<or> port \<le> 0 then val False
         else seq (viewer_probe (vc_env v) w (blank_dvr addr port user pass)) (\<lambda>p. val (
           if p = ''isapi'' \<or> p = ''dahua'' then True
           else if probeTCPPort v addr port then True
           else if port \<noteq> 554 then probeTCPPort v addr 554
           else False)))"

section \<open>Finding channels\<close>

definition viewer_resolution :: "dvr_env \<Rightarrow> world \<Rightarrow> dvr_config \<Rightarrow> int \<Rightarrow> (int \<times> int) io" where
  "viewer_resolution e w d n =
     seq (dvr_get e w d (dc_port d) (''/ISAPI/Streaming/channels/'' @ itoa n @ ''01'') 10000) (\<lambda>r. val (case r of None \<Rightarrow> (0, 0)
       | Some r \<Rightarrow> if ha_status r = 401 \<or> ha_status r = 403 then (1920, 1080)
                   else if ha_status r = 200 then isAPIVideoInfo (de_lib e) (case ha_body r of None \<Rightarrow> [] | Some b \<Rightarrow> b)
                   else (0, 0)))"

definition viewer_try :: "dvr_env \<Rightarrow> world \<Rightarrow> dvr_config \<Rightarrow> int \<times> string \<Rightarrow> channel_config list io" where
  "viewer_try e w d c = seq (viewer_resolution e w d (fst c)) (\<lambda>sz.
     val (if fst sz = 0 \<or> snd sz = 0 then []
          else [found_channel d (fst c) (if snd c = [] then default_name (fst c) else snd c) (fst c - 1) sz]))"

text \<open>The three ISAPI lists; \<open>pick\<close> reads the body, and None is an error.\<close>

definition viewer_list :: "dvr_env \<Rightarrow> world \<Rightarrow> dvr_config \<Rightarrow> string \<Rightarrow> (string \<Rightarrow> (int \<times> string) list option) \<Rightarrow> channel_config list option io" where
  "viewer_list e w d path pick =
     seq (dvr_get e w d (dc_port d) path 10000) (\<lambda>r.
       case Option.bind r (\<lambda>r. if ha_status r = 200 then Option.bind (ha_body r) pick else None) of
         None \<Rightarrow> val None
       | Some cs \<Rightarrow> seq (seq_map (viewer_try e w d) cs) (\<lambda>rs. val (Some (concat rs))))"

definition viewer_discoverDeviceInfo :: "dvr_env \<Rightarrow> world \<Rightarrow> dvr_config \<Rightarrow> channel_config list option io" where
  "viewer_discoverDeviceInfo e w d = viewer_list e w d ''/ISAPI/System/deviceInfo''
     (\<lambda>body. case isAPIDeviceInfo (de_lib e) body of None \<Rightarrow> None
        | Some i \<Rightarrow> if di_analog i + di_digital i = 0 then None
            else Some (map (\<lambda>n. (n, [])) [1..di_analog i + di_digital i]))"

fun viewer_numbers :: "int list \<Rightarrow> (int \<times> string) list \<Rightarrow> (int \<times> string) list" where
  "viewer_numbers seen [] = []"
| "viewer_numbers seen ((i, name) # cs) =
     (let n = (if i \<ge> 100 then i div 100 else i)
      in if n = 0 \<or> n \<in> set seen then viewer_numbers seen cs else (n, name) # viewer_numbers (n # seen) cs)"

definition viewer_discoverStreaming :: "dvr_env \<Rightarrow> world \<Rightarrow> dvr_config \<Rightarrow> channel_config list option io" where
  "viewer_discoverStreaming e w d = viewer_list e w d ''/ISAPI/Streaming/channels''
     (\<lambda>body. map_option (viewer_numbers []) (isAPIChannelList (de_lib e) body))"

definition viewer_discoverInputs :: "dvr_env \<Rightarrow> world \<Rightarrow> dvr_config \<Rightarrow> channel_config list option io" where
  "viewer_discoverInputs e w d = viewer_list e w d ''/ISAPI/System/Video/inputs/channels''
     (\<lambda>body. map_option (filter (\<lambda>c. fst c \<noteq> 0)) (isAPIVideoInputList (de_lib e) body))"

definition replaces_name :: "string \<Rightarrow> string \<Rightarrow> int \<Rightarrow> bool" where
  "replaces_name current candidate n =
     (if candidate = [] then False else if current = [] then True
      else current = default_name n \<and> candidate \<noteq> current)"

text \<open>The map of the merged channels with the order of its keys, as the list of its values.\<close>

definition merge_detected :: "channel_config list \<Rightarrow> channel_config \<Rightarrow> channel_config list" where
  "merge_detected out ch =
     (if cc_num ch = 0 then out
      else if cc_num ch \<in> cc_num ` set out then map (\<lambda>x. if cc_num x = cc_num ch then x\<lparr>
          cc_name := (if replaces_name (cc_name x) (cc_name ch) (cc_num ch) then cc_name ch else cc_name x),
          cc_width := (if cc_width x = 0 \<and> cc_width ch > 0 then cc_width ch else cc_width x),
          cc_height := (if cc_height x = 0 \<and> cc_height ch > 0 then cc_height ch else cc_height x)\<rparr> else x) out
      else out @ [ch])"

definition mergeDetectedChannels :: "channel_config list list \<Rightarrow> channel_config list" where
  "mergeDetectedChannels sets = foldl merge_detected [] (concat sets)"

definition normalizeDetectedChannels :: "channel_config list \<Rightarrow> channel_config list" where
  "normalizeDetectedChannels chs = (let cs = sort_key cc_num chs in map2 (\<lambda>i c. c\<lparr>cc_order := i\<rparr>) [0..int (length cs) - 1] cs)"

definition or_none :: "channel_config list option \<Rightarrow> channel_config list" where
  "or_none r = (case r of None \<Rightarrow> [] | Some cs \<Rightarrow> cs)"

definition viewer_discoverISAPI :: "dvr_env \<Rightarrow> world \<Rightarrow> dvr_config \<Rightarrow> channel_config list option io" where
  "viewer_discoverISAPI e w d =
     seq (viewer_discoverInputs e w d) (\<lambda>a. seq (viewer_discoverStreaming e w d) (\<lambda>b. seq (viewer_discoverDeviceInfo e w d) (\<lambda>c.
       let merged = mergeDetectedChannels [or_none a, or_none b, or_none c]
       in val (if merged = [] then None else Some (normalizeDetectedChannels merged)))))"

text \<open>The three tests follow one another, so the last one that matches counts.\<close>

definition dahua_channels :: "string \<Rightarrow> int" where
  "dahua_channels body = (if contains_sub body ''maxTotal=8'' then 8 else if contains_sub body ''maxTotal=32'' then 32
     else if contains_sub body ''maxTotal=16'' then 16 else 4)"

definition viewer_discoverDahua :: "dvr_env \<Rightarrow> world \<Rightarrow> dvr_config \<Rightarrow> channel_config list option io" where
  "viewer_discoverDahua e w d =
     seq (dvr_get e w d (dc_port d) ''/cgi-bin/devVideoInput.cgi?action=getCaps'' 10000) (\<lambda>r.
       if (case r of None \<Rightarrow> True | Some r \<Rightarrow> ha_status r \<noteq> 200 \<or> ha_body r = None) then val None
       else seq (dvr_get e w d (dc_port d) ''/cgi-bin/magicBox.cgi?action=getSystemInfo'' 10000) (\<lambda>r.
         let n = (case r of None \<Rightarrow> 4 | Some r \<Rightarrow> dahua_channels (case ha_body r of None \<Rightarrow> [] | Some b \<Rightarrow> b))
         in val (Some (map (\<lambda>ch. found_channel d ch (default_name ch) (ch - 1) (0, 0)) [1..n]))))"

text \<open>The channels of an RTSP address: the search ends after three misses in a row once one was found.\<close>

fun until_misses :: "dvr_config \<Rightarrow> (int \<Rightarrow> bool) \<Rightarrow> nat \<Rightarrow> channel_config list \<Rightarrow> int list \<Rightarrow> channel_config list" where
  "until_misses d found misses out [] = out"
| "until_misses d found misses out (ch # chs) =
     (if found ch then until_misses d found 0 (out @ [found_channel d ch (default_name ch) (ch - 1) (0, 0)]) chs
      else if out \<noteq> [] then (if misses + 1 \<ge> 3 then out else until_misses d found (misses + 1) out chs)
      else until_misses d found misses out chs)"

definition probeRTSPChannelGo :: "viewer_cctv \<Rightarrow> string \<Rightarrow> bool" where
  "probeRTSPChannelGo v url = (vc_reach v url = No_H264 \<or> vc_reach v url = Has_H264)"

definition viewer_discoverRTSP :: "viewer_cctv \<Rightarrow> dvr_config \<Rightarrow> channel_config list option" where
  "viewer_discoverRTSP v d =
     (let chs = until_misses d (\<lambda>ch. probeRTSPChannelGo v (channel_url (vc_env v) d ch ''01'')) 0 [] [1..32]
      in if chs = [] then None else Some chs)"

definition viewer_discover :: "viewer_cctv \<Rightarrow> world \<Rightarrow> dvr_config \<Rightarrow> channel_config list option io" where
  "viewer_discover v w d =
     (if dc_protocol d = ''rtsp'' then val (viewer_discoverRTSP v d)
      else if dc_protocol d = ''dahua'' then viewer_discoverDahua (vc_env v) w d
      else viewer_discoverISAPI (vc_env v) w d)"

section \<open>Discovering the channels of a recorder\<close>

definition viewer_set_protocol :: "dvr_config \<Rightarrow> string \<Rightarrow> viewer_db \<Rightarrow> viewer_db" where
  "viewer_set_protocol d p s = fst (vt_exec (on_tabs (dc_id d) (\<lambda>r. (fst r, (snd r)\<lparr>dc_protocol := p\<rparr>))) s)"

definition viewer_finish :: "int \<Rightarrow> channel_config list option \<Rightarrow> viewer_db \<Rightarrow> viewer_db \<times> discovery" where
  "viewer_finish i r s = (case r of None \<Rightarrow> (s, Failed)
     | Some chs \<Rightarrow> (case viewer_ListChannels i (viewer_store i (normalizeDetectedChannels chs) s) of
         (s', None) \<Rightarrow> (s', Failed) | (s', Some l) \<Rightarrow> (s', Listed l)))"

definition viewer_retry :: "viewer_cctv \<Rightarrow> world \<Rightarrow> int \<Rightarrow> dvr_config \<Rightarrow> channel_config list option \<Rightarrow> viewer_db \<Rightarrow> http_query list
    \<Rightarrow> (viewer_db \<times> discovery) \<times> http_query list" where
  "viewer_retry v w i d r s log =
     (case viewer_probe (vc_env v) w d log of
        (None, log') \<Rightarrow> ((s, Panicked), log')
      | (Some p, log') \<Rightarrow>
          if p = dc_protocol d then (viewer_finish i r s, log')
          else let s' = viewer_set_protocol d p s
            in case viewer_discover v w (d\<lparr>dc_protocol := p\<rparr>) log' of
                 (None, log2) \<Rightarrow> ((s', Panicked), log2)
               | (Some r', log2) \<Rightarrow> (viewer_finish i r' s', log2))"

definition viewer_attempt :: "viewer_cctv \<Rightarrow> world \<Rightarrow> int \<Rightarrow> dvr_config \<Rightarrow> viewer_db \<Rightarrow> http_query list
    \<Rightarrow> (viewer_db \<times> discovery) \<times> http_query list" where
  "viewer_attempt v w i d s log =
     (case viewer_discover v w d log of
        (None, log') \<Rightarrow> ((s, Panicked), log')
      | (Some r, log') \<Rightarrow>
          if or_none r = [] \<and> dc_protocol d \<noteq> ''auto'' then viewer_retry v w i d r s log'
          else (viewer_finish i r s, log'))"

definition viewer_DiscoverChannels :: "viewer_cctv \<Rightarrow> world \<Rightarrow> int \<Rightarrow> viewer_db \<Rightarrow> http_query list
    \<Rightarrow> (viewer_db \<times> discovery) \<times> http_query list" where
  "viewer_DiscoverChannels v w i s log =
     (case viewer_getDVR i s of
        (s1, None) \<Rightarrow> ((s1, Failed), log)
      | (s1, Some d) \<Rightarrow>
          if dc_protocol d = ''auto'' \<or> dc_protocol d = [] then
            (case streamProtocolFor v w d log of
               (None, log') \<Rightarrow> ((s1, Panicked), log')
             | (Some p, log') \<Rightarrow> viewer_attempt v w i (d\<lparr>dc_protocol := p\<rparr>) (viewer_set_protocol d p s1) log')
          else viewer_attempt v w i d s1 log)"

text \<open>All recorders: the channels are deleted first.\<close>

fun rediscover_each :: "viewer_cctv \<Rightarrow> world \<Rightarrow> dvr_config list \<Rightarrow> channel_config list \<Rightarrow> viewer_db \<Rightarrow> http_query list
    \<Rightarrow> (viewer_db \<times> discovery) \<times> http_query list" where
  "rediscover_each v w [] all s log = ((s, Listed all), log)"
| "rediscover_each v w (d # ds) all s log =
     (case viewer_DiscoverChannels v w (dc_id d) s log of
        ((s', Panicked), log') \<Rightarrow> ((s', Panicked), log')
      | ((s', Failed), log') \<Rightarrow> rediscover_each v w ds all s' log'
      | ((s', Listed chs), log') \<Rightarrow> rediscover_each v w ds (all @ chs) s' log')"

definition RediscoverAllChannels :: "viewer_cctv \<Rightarrow> world \<Rightarrow> viewer_db \<Rightarrow> http_query list \<Rightarrow> (viewer_db \<times> discovery) \<times> http_query list" where
  "RediscoverAllChannels v w s log =
     (case viewer_ListDVRs s of
        (s1, None) \<Rightarrow> ((s1, Failed), log)
      | (s1, Some ds) \<Rightarrow> (case vt_exec (\<lambda>s. s\<lparr>vt_channels := []\<rparr>) s1 of
          (s2, False) \<Rightarrow> ((s2, Failed), log) | (s2, True) \<Rightarrow> rediscover_each v w ds [] s2 log))"

section \<open>Snapshots\<close>

definition viewer_suffix :: "dvr_config \<Rightarrow> string" where
  "viewer_suffix d = (if dc_quality d = ''main'' then ''01'' else ''02'')"

definition viewer_snapshotISAPI :: "dvr_env \<Rightarrow> world \<Rightarrow> dvr_config \<Rightarrow> int \<Rightarrow> int \<Rightarrow> nat \<Rightarrow> string option io" where
  "viewer_snapshotISAPI e w d n port ms =
     seq (dvr_get e w d port (''/ISAPI/Streaming/channels/'' @ itoa n @ viewer_suffix d @ ''/picture'') ms) (\<lambda>r. val (picture r))"

definition viewer_snapshotDahua :: "dvr_env \<Rightarrow> world \<Rightarrow> dvr_config \<Rightarrow> int \<Rightarrow> string option io" where
  "viewer_snapshotDahua e w d n =
     seq (dvr_get e w d (dc_port d) (''/cgi-bin/snapshot.cgi?channel='' @ itoa n @ ''&subtype=''
            @ itoa (if dc_quality d = ''sub'' then 2 else 1)) 10000) (\<lambda>r. val (picture r))"

definition viewer_snapshotRTSP :: "dvr_env \<Rightarrow> dvr_config \<Rightarrow> int \<Rightarrow> string option" where
  "viewer_snapshotRTSP e d n = (if \<not> de_ffmpeg e then None else de_frame e (channel_url e d n (viewer_suffix d)))"

definition viewer_snapshot :: "dvr_env \<Rightarrow> world \<Rightarrow> dvr_config \<Rightarrow> int \<Rightarrow> string option io" where
  "viewer_snapshot e w d n =
     (if dc_protocol d = ''rtsp'' then seq (viewer_snapshotISAPI e w d n 80 3000) (\<lambda>r. val (case r of
         Some p \<Rightarrow> Some p | None \<Rightarrow> viewer_snapshotRTSP e d n))
      else if dc_protocol d = ''dahua'' then viewer_snapshotDahua e w d n
      else viewer_snapshotISAPI e w d n (dc_port d) 10000)"

text \<open>The size of a channel is taken from the picture while it is not known; the error of the query is ignored.\<close>

definition maybeDetectResolution :: "viewer_cctv \<Rightarrow> int \<Rightarrow> int \<Rightarrow> string \<Rightarrow> viewer_db \<Rightarrow> viewer_db" where
  "maybeDetectResolution v i n jpeg s =
     (case vt_query (\<lambda>s. find (\<lambda>c. cc_dvr c = i \<and> cc_num c = n) (vt_channels s)) s of
        (s', r) \<Rightarrow>
          if (case r of Some (Some c) \<Rightarrow> cc_width c > 0 \<and> cc_height c > 0 | _ \<Rightarrow> False) then s'
          else (case vc_size v jpeg of None \<Rightarrow> s'
            | Some (x, y) \<Rightarrow> if x > 0 \<and> y > 0
                then fst (vt_exec (on_chans (\<lambda>c. cc_dvr c = i \<and> cc_num c = n) (\<lambda>c. c\<lparr>cc_width := x, cc_height := y\<rparr>)) s')
                else s'))"

definition upscaleESRGAN :: "viewer_cctv \<Rightarrow> int \<Rightarrow> string \<Rightarrow> string option" where
  "upscaleESRGAN v scale data = (case vc_esrgan v of None \<Rightarrow> None | Some f \<Rightarrow> f (min 4 (max 2 scale)) data)"

definition upscaleBicubic :: "viewer_cctv \<Rightarrow> int \<Rightarrow> string \<Rightarrow> string" where
  "upscaleBicubic v factor data = (case vc_bicubic v factor data of None \<Rightarrow> data | Some x \<Rightarrow> x)"

text \<open>\<open>busy\<close>: another upscaling holds the semaphore.\<close>

definition upscaled :: "viewer_cctv \<Rightarrow> bool \<Rightarrow> int \<Rightarrow> bool \<Rightarrow> string \<Rightarrow> string" where
  "upscaled v busy factor ai data =
     (if factor \<le> 1 then data
      else case (if ai \<and> vc_esrgan v \<noteq> None \<and> \<not> busy then upscaleESRGAN v factor data else None) of
        Some x \<Rightarrow> x | None \<Rightarrow> upscaleBicubic v factor data)"

definition viewer_FetchSnapshot :: "viewer_cctv \<Rightarrow> world \<Rightarrow> bool \<Rightarrow> int \<Rightarrow> int \<Rightarrow> int \<Rightarrow> bool \<Rightarrow> viewer_db \<Rightarrow> http_query list
    \<Rightarrow> (viewer_db \<times> string option) option \<times> http_query list" where
  "viewer_FetchSnapshot v w busy i n factor ai s log =
     (case viewer_getDVR i s of
        (s1, None) \<Rightarrow> (Some (s1, None), log)
      | (s1, Some d) \<Rightarrow> seq (viewer_snapshot (vc_env v) w d n) (\<lambda>r. val (case r of
           None \<Rightarrow> (s1, None)
         | Some data \<Rightarrow> (maybeDetectResolution v i n data s1, Some (upscaled v busy factor ai data)))) log)"

section \<open>The connection test\<close>

datatype report_line = Device string string int string | Port_Open int | Port_Closed int | Bad_Address string | No_Connection string
  | No_Description string | Track string nat string | H264_Found string | H264_Missing string

definition test_stream :: "viewer_cctv \<Rightarrow> dvr_config \<Rightarrow> string \<Rightarrow> report_line list" where
  "test_stream v d sid =
     (let url = channel_url (vc_env v) d 1 sid
      in case vc_reach v url of
           Bad_URL \<Rightarrow> [Bad_Address sid]
         | Unreachable \<Rightarrow> [No_Connection sid]
         | Undescribed \<Rightarrow> [No_Description sid]
         | r \<Rightarrow> map (\<lambda>(i, c). Track sid i c) (case vc_codecs v url of None \<Rightarrow> [] | Some ts \<Rightarrow> ts)
               @ [if r = Has_H264 then H264_Found sid else H264_Missing sid])"

definition TestDVRConnection :: "viewer_cctv \<Rightarrow> int \<Rightarrow> viewer_db \<Rightarrow> viewer_db \<times> report_line list option" where
  "TestDVRConnection v i s =
     (case viewer_getDVR i s of
        (s', None) \<Rightarrow> (s', None)
      | (s', Some d) \<Rightarrow>
          let head = Device (dc_name d) (dc_addr d) (dc_port d) (dc_protocol d)
          in if checkRTSPPort v (dc_addr d) (rtspPortFor d)
             then (s', Some (head # Port_Open (rtspPortFor d) # concat (map (test_stream v d) [''01'', ''02''])))
             else (s', Some [head, Port_Closed (rtspPortFor d)]))"

section \<open>What a discovery returns\<close>

definition detected_ok :: "channel_config list \<Rightarrow> bool" where
  "detected_ok chs = (sorted_wrt (<) (map cc_num chs) \<and> 0 \<notin> cc_num ` set chs \<and> map cc_order chs = [0..int (length chs) - 1])"

lemma merge_detected_nums:
  "map cc_num (merge_detected out ch) = (if cc_num ch = 0 \<or> cc_num ch \<in> cc_num ` set out then map cc_num out else map cc_num out @ [cc_num ch])"
  by (auto simp: merge_detected_def)

lemma merge_all_nums:
  "distinct (map cc_num out) \<Longrightarrow> 0 \<notin> cc_num ` set out
    \<Longrightarrow> distinct (map cc_num (foldl merge_detected out chs)) \<and> 0 \<notin> cc_num ` set (foldl merge_detected out chs)"
proof (induction chs arbitrary: out)
  case (Cons ch chs)
  have "distinct (map cc_num (merge_detected out ch))" using Cons.prems(1) unfolding merge_detected_nums by simp
  moreover have "0 \<notin> set (map cc_num (merge_detected out ch))" using Cons.prems(2) unfolding merge_detected_nums by simp
  ultimately show ?case using Cons.IH by simp
qed simp

lemma map2_number:
  assumes "length xs = length is"
  shows "map cc_order (map2 (\<lambda>i c. c\<lparr>cc_order := i\<rparr>) is xs) = is" "map cc_num (map2 (\<lambda>i c. c\<lparr>cc_order := i\<rparr>) is xs) = map cc_num xs"
  using assms by (induction xs "is" rule: list_induct2) simp_all

lemma normalize_ok:
  assumes "distinct (map cc_num chs)" "0 \<notin> cc_num ` set chs"
  shows "detected_ok (normalizeDetectedChannels chs)"
proof -
  let ?s = "sort_key cc_num chs" and ?i = "[0..int (length chs) - 1]"
  have n: "normalizeDetectedChannels chs = map2 (\<lambda>i c. c\<lparr>cc_order := i\<rparr>) ?i ?s" by (simp add: normalizeDetectedChannels_def Let_def)
  have l: "length ?s = length ?i" by simp
  have "distinct (map cc_num ?s)" using assms(1) by (metis distinct_map distinct_sort mset_sort set_mset_mset)
  then have "sorted_wrt (<) (map cc_num ?s)" by (simp add: strict_sorted_iff)
  then show ?thesis using map2_number [OF l] assms(2) unfolding detected_ok_def n
    by (metis (no_types, lifting) image_set length_map set_map set_sort length_sort)
qed

lemma viewer_isapi_ok: "gives (\<lambda>r. case r of None \<Rightarrow> True | Some chs \<Rightarrow> chs \<noteq> [] \<and> detected_ok chs) (viewer_discoverISAPI e w d)"
proof -
  have "detected_ok (normalizeDetectedChannels (mergeDetectedChannels cs))" for cs
    by (rule normalize_ok) (use merge_all_nums [of "[]"] in \<open>simp_all add: mergeDetectedChannels_def\<close>)
  moreover have "chs \<noteq> [] \<Longrightarrow> normalizeDetectedChannels chs \<noteq> []" for chs
    by (cases chs) (auto simp: normalizeDetectedChannels_def Let_def)
  ultimately show ?thesis unfolding viewer_discoverISAPI_def Let_def by (intro gives_seq gives_val) simp
qed

text \<open>On lists whose names are clean and that hold at most 32 numbers, merging and normalizing are the agent's.\<close>

lemma merge_like_agent:
  "\<forall>c\<in>set chs. sanitizeChannelName (cc_name c) = cc_name c \<Longrightarrow> foldl merge_detected out chs = foldl merge_one out chs"
proof (induction chs arbitrary: out)
  case (Cons ch chs)
  have "merge_detected out ch = merge_one out ch"
    using Cons.prems by (simp add: merge_detected_def merge_one_def merge_into_def replaces_name_def shouldReplaceChannelName_def)
  with Cons show ?case by simp
qed simp

lemma normalize_like_agent: "length chs \<le> 32 \<Longrightarrow> normalizeDetectedChannels chs = normalizeChannelDiscovery chs"
  by (simp add: normalizeDetectedChannels_def normalizeChannelDiscovery_def Let_def)

text \<open>A gap of three channels ends the RTSP discovery: what comes after it is not found.\<close>

lemma rtsp_gap_hides_channels:
  "map cc_num (until_misses d (\<lambda>ch. ch \<in> {1, 2, 6, 7}) 0 [] [1..32]) = [1, 2]"
  by (simp add: upto.simps found_channel_def)

text \<open>A discovery that finds nothing leaves the channels alone. Rediscovering all recorders deletes them first, so
  while no recorder answers the names, orders and switches of all channels are lost.\<close>

lemma viewer_protocol_channels [simp]: "vt_channels (viewer_set_protocol d p s) = vt_channels s"
  by (simp add: viewer_set_protocol_def vt_exec_def on_tabs_def split_beta)

lemma offline_discovery_keeps:
  assumes off: "\<And>d log. fst (viewer_discover v w d log) \<noteq> None \<Longrightarrow> fst (viewer_discover v w d log) = Some None"
  shows "vt_channels (fst (fst (viewer_DiscoverChannels v w i s log))) = vt_channels s"
proof -
  have f: "viewer_finish i None t = (t, Failed)" for t by (simp add: viewer_finish_def)
  have r: "vt_channels (fst (fst (viewer_retry v w i d None t log))) = vt_channels t" for d t log
  proof -
    obtain p log' where p: "viewer_probe (vc_env v) w d log = (p, log')" by fastforce
    obtain q log2 where q: "viewer_discover v w (d\<lparr>dc_protocol := the p\<rparr>) log' = (q, log2)" by fastforce
    have "q = None \<or> q = Some None" using off [of "d\<lparr>dc_protocol := the p\<rparr>" log'] q by (cases q) auto
    then show ?thesis using p q by (cases p) (auto simp: viewer_retry_def Let_def f)
  qed
  have a: "vt_channels (fst (fst (viewer_attempt v w i d t log))) = vt_channels t" for d t log
  proof -
    obtain q log2 where q: "viewer_discover v w d log = (q, log2)" by fastforce
    have "q = None \<or> q = Some None" using off [of d log] q by (cases q) auto
    then show ?thesis using q r by (auto simp: viewer_attempt_def f)
  qed
  have g: "vt_channels (fst (viewer_getDVR i s)) = vt_channels s"
    by (simp add: viewer_getDVR_def vt_query_def split_beta split: option.split)
  obtain s1 d where d: "viewer_getDVR i s = (s1, d)" by fastforce
  show ?thesis
  proof (cases d)
    case (Some d)
    obtain p log' where p: "streamProtocolFor v w d log = (p, log')" by fastforce
    show ?thesis using d g Some a p by (cases p) (auto simp: viewer_DiscoverChannels_def)
  qed (use d g in \<open>simp add: viewer_DiscoverChannels_def\<close>)
qed

lemma rediscovery_loses_channels:
  assumes off: "\<And>d log. fst (viewer_discover v w d log) \<noteq> None \<Longrightarrow> fst (viewer_discover v w d log) = Some None"
    and ok: "vt_faults s = []"
  shows "vt_channels (fst (fst (RediscoverAllChannels v w s log))) = []"
proof -
  have e: "vt_channels (fst (fst (rediscover_each v w ds all t log))) = vt_channels t" for ds all t log
  proof (induction ds arbitrary: all t log)
    case (Cons d ds)
    obtain t' r log' where r: "viewer_DiscoverChannels v w (dc_id d) t log = ((t', r), log')" by (metis prod.collapse)
    have "vt_channels t' = vt_channels t" using offline_discovery_keeps [where v = v and w = w and i = "dc_id d" and s = t and log = log, OF off] r by simp
    with r Cons.IH show ?case by (cases r) simp_all
  qed simp
  show ?thesis using ok e by (simp add: RediscoverAllChannels_def viewer_ListDVRs_def vt_query_def vt_exec_def vt_statement_def)
qed

end
