(* ===== verification/Viewer_Scan.thy ===== *)
theory Viewer_Scan
  imports Viewer_Cctv
begin

text \<open>
  The scan of the local network, \<^verbatim>\<open>viewer/cctv_scan.go\<close>, and the viewer's handlers of local requests,
  \<^verbatim>\<open>viewer/cctv_proxy.go\<close>, with \<open>GetConfig\<close> of \<^verbatim>\<open>viewer/app.go\<close>. The addresses of the interfaces are given to
  the model. The workers of a scan run side by side: \<open>sched\<close> is the sequence of the (host, port) pairs in the
  order they are probed, which a cancelled scan cuts short.
\<close>

section \<open>Subnets\<close>

type_synonym ipv4 = "nat \<times> nat \<times> nat \<times> nat"

text \<open>An address of an interface: a net with its address (None: IPv6) and the bytes of its mask, or something else.\<close>

datatype iface_addr = Ip_Net "ipv4 option" "nat list" | Other_Addr

record iface =
  if_up :: bool
  if_loopback :: bool
  if_addrs :: "iface_addr list option"

definition mask_octet :: "nat \<Rightarrow> nat \<Rightarrow> nat" where
  "mask_octet ones x = (x div 2 ^ (8 - ones)) * 2 ^ (8 - ones)"

text \<open>The first \<open>ones\<close> bits of an address.\<close>

fun mask_ip :: "nat \<Rightarrow> ipv4 \<Rightarrow> ipv4" where
  "mask_ip ones (a, b, c, d) = (mask_octet (min 8 ones) a, mask_octet (min 8 (ones - 8)) b, mask_octet (min 8 (ones - 16)) c,
     mask_octet (min 8 (ones - 24)) d)"

text \<open>\<open>Mask.Size\<close>: the number of leading ones, or 0 when ones follow a zero.\<close>

definition mask_size :: "nat list \<Rightarrow> nat" where
  "mask_size m = (case find (\<lambda>k. m = map (\<lambda>j. mask_octet (min 8 (k - 8 * j)) 255) [0..<length m]) [0..<8 * length m + 1] of
     None \<Rightarrow> 0 | Some k \<Rightarrow> k)"

fun ip_string :: "ipv4 \<Rightarrow> string" where
  "ip_string (a, b, c, d) = dotted a b c d"

definition subnet_of :: "iface_addr \<Rightarrow> string option" where
  "subnet_of a = (case a of
      Ip_Net (Some ip) m \<Rightarrow>
        if fst ip = 169 \<and> fst (snd ip) = 254 then None
        else if length m \<noteq> 4 then None
        else let ones = mask_size m
          in if ones < 8 \<or> ones > 30 then None
             else if ones \<ge> 24 then Some (ip_string (mask_ip ones ip) @ ''/24'') else None
    | _ \<Rightarrow> None)"

definition add_new :: "string list \<Rightarrow> string option \<Rightarrow> string list" where
  "add_new out s = (case s of None \<Rightarrow> out | Some c \<Rightarrow> if c \<in> set out then out else out @ [c])"

text \<open>None: the interfaces cannot be read.\<close>

definition ListScanSubnets :: "iface list option \<Rightarrow> string list option" where
  "ListScanSubnets ifs = map_option (\<lambda>ifs. foldl add_new [] (map subnet_of (concat (map (\<lambda>i.
     if if_up i \<and> \<not> if_loopback i then (case if_addrs i of None \<Rightarrow> [] | Some as \<Rightarrow> as) else []) ifs)))) ifs"

text \<open>\<open>net.ParseCIDR\<close> for IPv4: the masked address and the length of the prefix.\<close>

definition parse_cidr :: "string \<Rightarrow> (ipv4 \<times> nat) option" where
  "parse_cidr s =
     (case cut_at CHR ''/'' s of None \<Rightarrow> None
      | Some (a, m) \<Rightarrow> (case parse_ipv4 a of None \<Rightarrow> None
         | Some ip \<Rightarrow> if m \<noteq> [] \<and> list_all is_digit m \<and> dec_val m \<le> 32 then Some (mask_ip (dec_val m) ip, dec_val m) else None))"

section \<open>Scanning\<close>

record lan_device =
  ld_addr :: string
  ld_port :: int
  ld_protocol :: string
  ld_vendor :: string
  ld_added :: bool

definition scan_hosts :: "ipv4 \<Rightarrow> string list" where
  "scan_hosts base = (case base of (a, b, c, d) \<Rightarrow> map (\<lambda>i. dotted a b c i) [1..<255])"

definition scan_ports :: "int list" where
  "scan_ports = [80, 8000]"

text \<open>One port of a host: a hit, or nothing.\<close>

definition probe_port :: "viewer_cctv \<Rightarrow> world \<Rightarrow> string \<Rightarrow> string \<Rightarrow> string \<times> int \<Rightarrow> (string \<times> int \<times> string) list io" where
  "probe_port v w user pass hp =
     (if \<not> probeTCPPort v (fst hp) (snd hp) then val []
      else seq (viewer_probe (vc_env v) w (blank_dvr (fst hp) (snd hp) user pass)) (\<lambda>p.
        val (if p \<noteq> ''isapi'' \<and> p \<noteq> ''dahua'' then [] else [(fst hp, snd hp, p)])))"

definition vendor_of :: "string \<Rightarrow> string" where
  "vendor_of p = (if p = ''isapi'' then ''Hikvision'' else if p = ''dahua'' then ''Dahua'' else p)"

definition host_key :: "string \<Rightarrow> int \<Rightarrow> string" where
  "host_key addr port = addr @ '':'' @ itoa port"

definition device_of :: "string list \<Rightarrow> string \<times> int \<times> string \<Rightarrow> lan_device" where
  "device_of known h = (case h of (a, p, proto) \<Rightarrow> \<lparr>ld_addr = a, ld_port = p, ld_protocol = proto, ld_vendor = vendor_of proto,
     ld_added = (host_key a p \<in> set known)\<rparr>)"

text \<open>The first hit of a key counts; the list is the map's values (Go's order is random).\<close>

definition collect_hits :: "string list \<Rightarrow> (string \<times> int \<times> string) list \<Rightarrow> lan_device list" where
  "collect_hits known hits = foldl (\<lambda>out h.
     if host_key (fst h) (fst (snd h)) \<in> (\<lambda>d. host_key (ld_addr d) (ld_port d)) ` set out then out else out @ [device_of known h]) [] hits"

definition ScanLAN :: "viewer_cctv \<Rightarrow> world \<Rightarrow> ((string \<times> int) list \<Rightarrow> (string \<times> int) list) \<Rightarrow> string \<Rightarrow> string \<Rightarrow> string \<Rightarrow> viewer_db
    \<Rightarrow> viewer_db \<times> lan_device list option io" where
  "ScanLAN v w sched subnet username pass s =
     (case parse_cidr (TrimSpace subnet) of
        None \<Rightarrow> (s, val None)
      | Some (base, ones) \<Rightarrow>
          if ones > 24 then (s, val None)
          else (case viewer_ListDVRs s of (s', ds) \<Rightarrow>
            let known = (case ds of None \<Rightarrow> [] | Some ds \<Rightarrow> map (\<lambda>d. host_key (dc_addr d) (dc_port d)) ds);
                user = (if username = [] then ''admin'' else username);
                work = sched (List.product (scan_hosts base) scan_ports)
            in (s', seq (seq_map (probe_port v w user pass) work) (\<lambda>hits. val (Some (collect_hits known (concat hits)))))))"

section \<open>Local requests\<close>

definition defaultUpscale :: int where
  "defaultUpscale = 2"

definition snapshot_path :: string where
  "snapshot_path = ''/cctv/snapshot/''"

datatype viewer_route = To_Snapshot | To_HLS | To_Next

definition viewer_route_of :: "string \<Rightarrow> viewer_route" where
  "viewer_route_of path = (if has_prefix path snapshot_path then To_Snapshot else if has_prefix path hls_prefix then To_HLS else To_Next)"

text \<open>The factor a request asks for; \<open>q\<close> gives the first value of a parameter, or the empty string.\<close>

definition upscale_of :: "(string \<Rightarrow> string) \<Rightarrow> int" where
  "upscale_of q = (if q ''raw'' = ''1'' then 1
     else case (if q ''upscale'' = [] then None else atoi (q ''upscale'')) of
       None \<Rightarrow> defaultUpscale | Some n \<Rightarrow> if 1 \<le> n \<and> n \<le> 4 then n else defaultUpscale)"

definition snapshot_target :: "string \<Rightarrow> (int \<times> int) option" where
  "snapshot_target path =
     (case cut_at CHR ''/'' (trim_prefix path snapshot_path) of None \<Rightarrow> None
      | Some (a, b) \<Rightarrow> if CHR ''/'' \<in> set b then None
          else (case atoi a of None \<Rightarrow> None | Some i \<Rightarrow> map_option (\<lambda>n. (i, n)) (atoi b)))"

text \<open>The status and the body of the answer.\<close>

definition viewer_handleSnapshot :: "viewer_cctv \<Rightarrow> world \<Rightarrow> bool \<Rightarrow> string \<Rightarrow> (string \<Rightarrow> string) \<Rightarrow> viewer_db \<Rightarrow> http_query list
    \<Rightarrow> (viewer_db \<times> nat \<times> string) option \<times> http_query list" where
  "viewer_handleSnapshot v w busy path q s log =
     (case snapshot_target path of
        None \<Rightarrow> (Some (s, 400, []), log)
      | Some (i, n) \<Rightarrow> (case viewer_FetchSnapshot v w busy i n (upscale_of q) (q ''ai'' = ''1'') s log of
          (None, log') \<Rightarrow> (None, log')
        | (Some (s', None), log') \<Rightarrow> (Some (s', 502, []), log')
        | (Some (s', Some data), log') \<Rightarrow> (Some (s', 200, data), log')))"

definition GetConfig :: "(string \<Rightarrow> string) \<Rightarrow> string \<times> string" where
  "GetConfig env = (if env ''WATCH_URL'' = [] then ''ws://127.0.0.1:8080/watch'' else env ''WATCH_URL'', env ''WATCH_PIN'')"

section \<open>What a scan lists\<close>

lemma collect_keys:
  "distinct (map (\<lambda>d. host_key (ld_addr d) (ld_port d)) (collect_hits known hits)) \<and>
   set (collect_hits known hits) \<subseteq> device_of known ` set hits \<and>
   (\<lambda>d. host_key (ld_addr d) (ld_port d)) ` set (collect_hits known hits) = (\<lambda>h. host_key (fst h) (fst (snd h))) ` set hits"
proof (induction hits rule: rev_induct)
  case (snoc h hits)
  obtain a p proto where h: "h = (a, p, proto)" by (cases h)
  let ?out = "collect_hits known hits"
  have e: "collect_hits known (hits @ [h]) = (if host_key a p \<in> (\<lambda>d. host_key (ld_addr d) (ld_port d)) ` set ?out then ?out else ?out @ [device_of known h])"
    by (simp add: collect_hits_def h)
  have k: "host_key (ld_addr (device_of known h)) (ld_port (device_of known h)) = host_key a p" by (simp add: device_of_def h)
  show ?case
  proof (cases "host_key a p \<in> (\<lambda>d. host_key (ld_addr d) (ld_port d)) ` set ?out")
    case True
    with snoc e show ?thesis by (auto simp: h)
  next
    case False
    then show ?thesis unfolding e if_not_P [OF False] using snoc k by (auto simp: h)
  qed
qed (simp add: collect_hits_def)

lemma gives_seq_map:
  assumes "\<And>x. x \<in> set xs \<Longrightarrow> gives P (f x)"
  shows "gives (list_all P) (seq_map f xs)"
  using assms
proof (induction xs)
  case (Cons x xs)
  have "gives (list_all P) (seq_map f xs)" using Cons by simp
  then have "gives (list_all P) (seq (seq_map f xs) (\<lambda>ys. val (y # ys)))" if "P y" for y
    by (rule gives_seq_gives) (use that in \<open>simp add: gives_val\<close>)
  moreover have "gives P (f x)" using Cons.prems by simp
  ultimately show ?case unfolding seq_map.simps by (intro gives_seq_gives [of P "f x"])
qed (simp add: gives_val)

text \<open>Every device is listed once, was probed, and speaks one of the two interfaces, in whatever order the workers get
  to the hosts; it is marked as added just when a recorder with its address and port is stored.\<close>

lemma scan_lists_devices:
  assumes sched: "set (sched (List.product (scan_hosts base) scan_ports)) \<subseteq> set (List.product (scan_hosts base) scan_ports)"
    and subnet: "parse_cidr (TrimSpace subnet) = Some (base, ones)" and db: "viewer_ListDVRs s = (s', Some ds)"
  shows "gives (\<lambda>r. case r of None \<Rightarrow> True | Some ls \<Rightarrow> distinct (map (\<lambda>d. host_key (ld_addr d) (ld_port d)) ls)
      \<and> list_all (\<lambda>l. ld_addr l \<in> set (scan_hosts base) \<and> ld_port l \<in> set scan_ports \<and> probeTCPPort v (ld_addr l) (ld_port l)
          \<and> ld_protocol l \<in> {''isapi'', ''dahua''}
          \<and> ld_added l = (host_key (ld_addr l) (ld_port l) \<in> (\<lambda>d. host_key (dc_addr d) (dc_port d)) ` set ds)) ls)
    (snd (ScanLAN v w sched subnet user pass s))"
proof (cases "ones > 24")
  case True
  then show ?thesis using subnet by (simp add: ScanLAN_def gives_val)
next
  case False
  let ?known = "map (\<lambda>d. host_key (dc_addr d) (dc_port d)) ds" and ?u = "if user = [] then ''admin'' else user"
  let ?P = "\<lambda>h. fst h \<in> set (scan_hosts base) \<and> fst (snd h) \<in> set scan_ports \<and> probeTCPPort v (fst h) (fst (snd h)) \<and> snd (snd h) \<in> {''isapi'', ''dahua''}"
  have one: "gives (list_all ?P) (probe_port v w ?u pass hp)" if "hp \<in> set (List.product (scan_hosts base) scan_ports)" for hp
    using that unfolding probe_port_def by (intro gives_if gives_seq gives_val) auto
  have all: "gives (list_all (list_all ?P)) (seq_map (probe_port v w ?u pass) (sched (List.product (scan_hosts base) scan_ports)))"
    by (rule gives_seq_map) (use one sched in blast)
  have dev: "ld_addr (device_of ?known h) = fst h \<and> ld_port (device_of ?known h) = fst (snd h) \<and> ld_protocol (device_of ?known h) = snd (snd h)
      \<and> ld_added (device_of ?known h) = (host_key (fst h) (fst (snd h)) \<in> set ?known)" for h
    by (cases h) (simp add: device_of_def)
  have out: "list_all (\<lambda>l. ld_addr l \<in> set (scan_hosts base) \<and> ld_port l \<in> set scan_ports \<and> probeTCPPort v (ld_addr l) (ld_port l)
      \<and> ld_protocol l \<in> {''isapi'', ''dahua''} \<and> ld_added l = (host_key (ld_addr l) (ld_port l) \<in> set ?known)) (collect_hits ?known (concat hits))"
    if "list_all (list_all ?P) hits" for hits
  proof -
    have "list_all ?P (concat hits)" using that by (auto simp: list_all_iff)
    then have p: "?P h" if "h \<in> set (concat hits)" for h using that by (simp only: list_all_iff)
    show ?thesis unfolding list_all_iff
    proof
      fix l assume "l \<in> set (collect_hits ?known (concat hits))"
      then obtain h where "h \<in> set (concat hits)" "l = device_of ?known h" using collect_keys [of ?known "concat hits"] by blast
      with p [of h] dev [of h] show "ld_addr l \<in> set (scan_hosts base) \<and> ld_port l \<in> set scan_ports \<and> probeTCPPort v (ld_addr l) (ld_port l)
        \<and> ld_protocol l \<in> {''isapi'', ''dahua''} \<and> ld_added l = (host_key (ld_addr l) (ld_port l) \<in> set ?known)" by metis
    qed
  qed
  have e: "snd (ScanLAN v w sched subnet user pass s) = seq (seq_map (probe_port v w ?u pass) (sched (List.product (scan_hosts base) scan_ports)))
      (\<lambda>hits. val (Some (collect_hits ?known (concat hits))))"
    using subnet db False by (simp add: ScanLAN_def Let_def)
  have k: "set ?known = (\<lambda>d. host_key (dc_addr d) (dc_port d)) ` set ds" by simp
  show ?thesis unfolding e
  proof (rule gives_seq_gives [OF all], rule gives_val)
    fix hits assume h: "list_all (list_all ?P) hits"
    show "case Some (collect_hits ?known (concat hits)) of None \<Rightarrow> True | Some ls \<Rightarrow> distinct (map (\<lambda>d. host_key (ld_addr d) (ld_port d)) ls)
      \<and> list_all (\<lambda>l. ld_addr l \<in> set (scan_hosts base) \<and> ld_port l \<in> set scan_ports \<and> probeTCPPort v (ld_addr l) (ld_port l)
          \<and> ld_protocol l \<in> {''isapi'', ''dahua''}
          \<and> ld_added l = (host_key (ld_addr l) (ld_port l) \<in> (\<lambda>d. host_key (dc_addr d) (dc_port d)) ` set ds)) ls"
      using out [OF h] conjunct1 [OF collect_keys [of ?known "concat hits"]] unfolding k by simp
  qed
qed

text \<open>A wider subnet is accepted, and only its first 254 addresses are scanned; a narrower one is refused.\<close>

lemma wide_subnet_scans_first:
  "parse_cidr ''10.1.2.0/16'' = Some ((10, 1, 0, 0), 16)" "scan_hosts (10, 1, 0, 0) = map (\<lambda>i. dotted 10 1 0 i) [1..<255]"
proof -
  show "parse_cidr ''10.1.2.0/16'' = Some ((10, 1, 0, 0), 16)" by code_simp
qed (simp add: scan_hosts_def)

lemma half_subnet_refused: "snd (ScanLAN v w sched ''10.1.2.0/25'' user pass s) = val None"
proof -
  have "parse_cidr (TrimSpace ''10.1.2.0/25'') = Some ((10, 1, 2, 0), 25)" by code_simp
  then show ?thesis by (simp add: ScanLAN_def)
qed

text \<open>The listed subnets of an interface narrower than 24 bits do not name a network of 24 bits.\<close>

lemma listed_half_subnet: "subnet_of (Ip_Net (Some (10, 1, 2, 130)) [255, 255, 255, 128]) = Some ''10.1.2.128/24''"
  by code_simp

end
