(* ===== verification/Viewer_Upscale.thy ===== *)
theory Viewer_Upscale
  imports Viewer_Cctv Rec_Images
begin

text \<open>
  The super-resolution program of the viewer, \<^verbatim>\<open>initESRGAN\<close>, \<^verbatim>\<open>hasESRGAN\<close> and \<^verbatim>\<open>upscaleESRGAN\<close> of
  \<^verbatim>\<open>viewer/cctv.go\<close>: where it is looked for, how it is run and what is left on the disk. \<open>Viewer_Cctv\<close> knows the
  program only as the function \<open>vc_esrgan\<close>. Looking up an executable and running the program are parameters; a
  file system maps the paths of files to their contents, with the paths of Unix.
\<close>

type_synonym temp_files = "string \<Rightarrow> string option"

section \<open>Looking for the program\<close>

text \<open>\<open>filepath.Dir\<close>.\<close>

definition dir_of :: "string \<Rightarrow> string" where
  "dir_of p = (case cut_last CHR ''/'' p of None \<Rightarrow> ''.'' | Some (d, _) \<Rightarrow> clean_path (d @ ''/''))"

definition esrgan_name :: string where "esrgan_name = ''realesrgan-ncnn-vulkan''"

definition esrgan_candidates :: "string option \<Rightarrow> string \<Rightarrow> string list" where
  "esrgan_candidates execPath home =
     esrgan_name #
     (case execPath of None \<Rightarrow> [] | Some p \<Rightarrow>
        [path_join [dir_of p, esrgan_name], path_join [dir_of p, ''esrgan'', esrgan_name],
         path_join [dir_of p, ''..'', ''Resources'', ''esrgan'', esrgan_name]]) @
     [path_join [home, ''.opsview'', esrgan_name]]"

text \<open>\<open>lookPath\<close> is \<open>exec.LookPath\<close>, \<open>None\<close> for an error; the empty path stands for no program.\<close>

fun first_found :: "(string \<Rightarrow> string option) \<Rightarrow> string list \<Rightarrow> string" where
  "first_found lookPath [] = []"
| "first_found lookPath (c # cs) = (case lookPath c of Some p \<Rightarrow> p | None \<Rightarrow> first_found lookPath cs)"

definition initESRGAN :: "(string \<Rightarrow> string option) \<Rightarrow> string option \<Rightarrow> string \<Rightarrow> string" where
  "initESRGAN lookPath execPath home = first_found lookPath (esrgan_candidates execPath home)"

definition hasESRGAN :: "string \<Rightarrow> bool" where "hasESRGAN path = (path \<noteq> [])"

section \<open>Running it\<close>

text \<open>
  How the program ended: in time, with an error and its output, or stopped after ten seconds. \<open>ue_write\<close> is the
  error of writing the input, \<open>ue_unread\<close> the error of reading a file that is not there.
\<close>

datatype run_end = Finished | Run_Failed string string | Timed_Out

record upscale_env =
  ue_temp :: string
  ue_write :: "string option"
  ue_exec :: "string list \<Rightarrow> temp_files \<Rightarrow> run_end \<times> temp_files"
  ue_unread :: "string \<Rightarrow> string"

definition esrgan_in :: "upscale_env \<Rightarrow> int \<Rightarrow> string" where
  "esrgan_in u t = path_join [ue_temp u, ''opsview-esrgan-in-'' @ itoa t @ ''.jpg'']"

definition esrgan_out :: "upscale_env \<Rightarrow> int \<Rightarrow> string" where
  "esrgan_out u t = path_join [ue_temp u, ''opsview-esrgan-out-'' @ itoa t @ ''.jpg'']"

definition esrgan_args :: "string \<Rightarrow> string \<Rightarrow> string \<Rightarrow> int \<Rightarrow> string list" where
  "esrgan_args path tin tout scale =
     [path, ''-i'', tin, ''-o'', tout, ''-s'', itoa scale, ''-n'', ''realesrgan-x4plus'',
      ''-m'', path_join [dir_of path, ''models''], ''-f'', ''jpg'']"

definition run_esrgan ::
    "upscale_env \<Rightarrow> string \<Rightarrow> int \<Rightarrow> int \<Rightarrow> int \<Rightarrow> string \<Rightarrow> temp_files \<Rightarrow> (string + string) \<times> temp_files" where
  "run_esrgan u path t1 t2 scale data fs =
     (if path = [] then (Inl ''esrgan not available'', fs)
      else
        let s = min 4 (max 2 scale); tin = esrgan_in u t1; tout = esrgan_out u t2;
            removed = (\<lambda>fs. fs(tin := None, tout := None))
        in case ue_write u of
             Some err \<Rightarrow> (Inl err, removed fs)
           | None \<Rightarrow>
             (case ue_exec u (esrgan_args path tin tout s) (fs(tin \<mapsto> data)) of
                (Timed_Out, fs1) \<Rightarrow> (Inl ''esrgan timeout (10s)'', removed fs1)
              | (Run_Failed err out, fs1) \<Rightarrow> (Inl (err @ '': '' @ out), removed fs1)
              | (Finished, fs1) \<Rightarrow>
                  (case fs1 tout of None \<Rightarrow> (Inl (ue_unread u tout), removed fs1) | Some r \<Rightarrow> (Inr r, removed fs1))))"

section \<open>Properties\<close>

lemma first_found_Some:
  assumes "\<And>c p. lookPath c = Some p \<Longrightarrow> p \<noteq> []"
  shows "(first_found lookPath cs \<noteq> []) = (\<exists>c \<in> set cs. lookPath c \<noteq> None)"
  by (induction cs) (auto split: option.splits dest: assms)

text \<open>The program counts as found exactly when one of the candidates is; the one on the path comes first.\<close>

lemma hasESRGAN_found:
  assumes "\<And>c p. lookPath c = Some p \<Longrightarrow> p \<noteq> []"
  shows "hasESRGAN (initESRGAN lookPath ex home) = (\<exists>c \<in> set (esrgan_candidates ex home). lookPath c \<noteq> None)"
  by (simp add: hasESRGAN_def initESRGAN_def first_found_Some [OF assms])

lemma path_first: "lookPath esrgan_name = Some p \<Longrightarrow> initESRGAN lookPath ex home = p"
  by (simp add: initESRGAN_def esrgan_candidates_def)

text \<open>Both temporary files are gone whatever happens, and only the program itself can change another file.\<close>

lemma no_temp_left:
  assumes "path \<noteq> []" "run_esrgan u path t1 t2 scale data fs = (r, fs')"
  shows "fs' (esrgan_in u t1) = None" "fs' (esrgan_out u t2) = None"
  using assms by (auto simp: run_esrgan_def Let_def split: option.splits prod.splits run_end.splits)

lemma other_files_kept:
  assumes "run_esrgan u path t1 t2 scale data fs = (r, fs')" "p \<noteq> esrgan_in u t1" "p \<noteq> esrgan_out u t2"
    and "\<And>args g e g'. ue_exec u args g = (e, g') \<Longrightarrow> g' p = g p"
  shows "fs' p = fs p"
  using assms(1-3)
  by (auto simp: run_esrgan_def Let_def dest!: assms(4) split: if_splits option.splits prod.splits run_end.splits)

text \<open>\<open>upscaleESRGAN\<close> of \<open>Viewer_Cctv\<close> is the run of the program, its errors forgotten.\<close>

definition esrgan_of :: "upscale_env \<Rightarrow> string \<Rightarrow> int \<Rightarrow> int \<Rightarrow> temp_files \<Rightarrow> (int \<Rightarrow> string \<Rightarrow> string option) option" where
  "esrgan_of u path t1 t2 fs =
     (if hasESRGAN path then
        Some (\<lambda>scale data. case fst (run_esrgan u path t1 t2 scale data fs) of Inl _ \<Rightarrow> None | Inr x \<Rightarrow> Some x)
      else None)"

lemma run_esrgan_clamped: "run_esrgan u path t1 t2 (min 4 (max 2 scale)) data fs = run_esrgan u path t1 t2 scale data fs"
  by (simp add: run_esrgan_def)

lemma upscaleESRGAN_runs:
  assumes "vc_esrgan v = esrgan_of u path t1 t2 fs"
  shows "upscaleESRGAN v scale data
    = (case fst (run_esrgan u path t1 t2 scale data fs) of Inl _ \<Rightarrow> None | Inr x \<Rightarrow> Some x)"
  using assms
  by (cases "path = []") (simp_all add: upscaleESRGAN_def esrgan_of_def hasESRGAN_def run_esrgan_clamped run_esrgan_def [of u "[]"])

end
