(* ===== verification/Viewer_Autostart.thy ===== *)
theory Viewer_Autostart
  imports Ov_Prelude
begin

text \<open>
  Starting the viewer at login, \<^verbatim>\<open>viewer/autostart_linux.go\<close> and \<^verbatim>\<open>viewer/autostart_darwin.go\<close>: an entry in a directory of the
  desktop. The state is the contents of the entry's file, if it exists, and the outcomes to come of the file
  operations; a write that is cut short leaves the first part of its text. Where the file lies is not modelled. On Windows
  (\<^verbatim>\<open>viewer/autostart_windows.go\<close>, and \<^verbatim>\<open>agent/autostart_windows.go\<close> for the agent) the entry is a value of the registry.
\<close>

datatype file_outcome = Done | Refused | Cut_Short nat

record entry_file =
  ef_text :: "string option"
  ef_outcomes :: "file_outcome list"

definition ef_next :: "entry_file \<Rightarrow> entry_file \<times> file_outcome" where
  "ef_next s = (case ef_outcomes s of [] \<Rightarrow> (s, Done) | r # rs \<Rightarrow> (s\<lparr>ef_outcomes := rs\<rparr>, r))"

definition newline_str :: string where
  "newline_str = [CHR 0x0A]"

text \<open>A text as its lines, each with its end.\<close>

definition text_lines :: "string list \<Rightarrow> string" where
  "text_lines ls = concat (map (\<lambda>l. l @ newline_str) ls)"

definition quote_str :: string where
  "quote_str = [CHR 0x22]"

section \<open>The entries\<close>

definition desktop_entry :: "string \<Rightarrow> string" where
  "desktop_entry exe = text_lines [''[Desktop Entry]'', ''Type=Application'', ''Name=OpsView'', ''Exec='' @ exe, ''Terminal=false'',
     ''X-GNOME-Autostart-enabled=true'']"

text \<open>Inside an application bundle the bundle is opened.\<close>

definition program_args :: "string \<Rightarrow> string list" where
  "program_args exe = (case find_sub ''.app/'' exe of
      Some (a, _) \<Rightarrow> [''    <array>'', ''        <string>/usr/bin/open</string>'', ''        <string>-a</string>'',
        ''        <string>'' @ a @ ''.app</string>'', ''    </array>'']
    | None \<Rightarrow> [''    <array>'', ''        <string>'' @ exe @ ''</string>'', ''    </array>''])"

definition launch_agent :: "string \<Rightarrow> string" where
  "launch_agent exe = text_lines (
     [''<?xml version='' @ quote_str @ ''1.0'' @ quote_str @ '' encoding='' @ quote_str @ ''UTF-8'' @ quote_str @ ''?>'',
      ''<!DOCTYPE plist PUBLIC '' @ quote_str @ ''-//Apple//DTD PLIST 1.0//EN'' @ quote_str @ '' '' @ quote_str
        @ ''http://www.apple.com/DTDs/PropertyList-1.0.dtd'' @ quote_str @ ''>'',
      ''<plist version='' @ quote_str @ ''1.0'' @ quote_str @ ''>'', ''<dict>'', ''    <key>Label</key>'',
      ''    <string>com.opsview.viewer</string>'', ''    <key>ProgramArguments</key>'']
     @ program_args exe @
     [''    <key>RunAtLoad</key>'', ''    <true/>'', ''    <key>KeepAlive</key>'', ''    <false/>'', ''</dict>'', ''</plist>''])"

section \<open>Setting\<close>

definition isAutoStartEnabled :: "entry_file \<Rightarrow> bool" where
  "isAutoStartEnabled s = (ef_text s \<noteq> None)"

text \<open>\<open>exe\<close> is the path of the program with its links resolved, None when it is not known.\<close>

definition setAutoStart :: "(string \<Rightarrow> string) \<Rightarrow> string option \<Rightarrow> bool \<Rightarrow> entry_file \<Rightarrow> entry_file \<times> bool" where
  "setAutoStart entry exe on s =
     (if \<not> on then
        (if ef_text s = None then (s, True)
         else case ef_next s of (s', Done) \<Rightarrow> (s'\<lparr>ef_text := None\<rparr>, True) | (s', _) \<Rightarrow> (s', False))
      else case exe of None \<Rightarrow> (s, False)
      | Some exe \<Rightarrow> (case ef_next s of
          (s1, Done) \<Rightarrow> (case ef_next s1 of
              (s2, Done) \<Rightarrow> (s2\<lparr>ef_text := Some (entry exe)\<rparr>, True)
            | (s2, Refused) \<Rightarrow> (s2, False)
            | (s2, Cut_Short n) \<Rightarrow> (s2\<lparr>ef_text := Some (take n (entry exe))\<rparr>, False))
        | (s1, _) \<Rightarrow> (s1, False)))"

definition setAutoStart_linux :: "string option \<Rightarrow> bool \<Rightarrow> entry_file \<Rightarrow> entry_file \<times> bool" where
  "setAutoStart_linux = setAutoStart desktop_entry"

definition setAutoStart_darwin :: "string option \<Rightarrow> bool \<Rightarrow> entry_file \<Rightarrow> entry_file \<times> bool" where
  "setAutoStart_darwin = setAutoStart launch_agent"

section \<open>The registry\<close>

text \<open>The value of the program's name under the key of the user's programs, and which operations to come fail.\<close>

record registry_value =
  rv_text :: "string option"
  rv_faults :: "bool list"

definition rv_next :: "registry_value \<Rightarrow> registry_value \<times> bool" where
  "rv_next s = (case rv_faults s of [] \<Rightarrow> (s, True) | f # fs \<Rightarrow> (s\<lparr>rv_faults := fs\<rparr>, \<not> f))"

definition isAutoStartEnabled_windows :: "registry_value \<Rightarrow> registry_value \<times> bool" where
  "isAutoStartEnabled_windows s = (case rv_next s of
      (s1, False) \<Rightarrow> (s1, False)
    | (s1, True) \<Rightarrow> (case rv_next s1 of (s2, ok) \<Rightarrow> (s2, ok \<and> rv_text s2 \<noteq> None)))"

text \<open>Deleting a value that is not there is no error of the viewer.\<close>

definition setAutoStart_windows :: "string option \<Rightarrow> bool \<Rightarrow> registry_value \<Rightarrow> registry_value \<times> bool" where
  "setAutoStart_windows exe on s = (case rv_next s of
      (s1, False) \<Rightarrow> (s1, False)
    | (s1, True) \<Rightarrow>
        if \<not> on then (case rv_next s1 of (s2, True) \<Rightarrow> (s2\<lparr>rv_text := None\<rparr>, True) | (s2, False) \<Rightarrow> (s2, False))
        else case exe of None \<Rightarrow> (s1, False)
        | Some exe \<Rightarrow> (case rv_next s1 of (s2, True) \<Rightarrow> (s2\<lparr>rv_text := Some exe\<rparr>, True) | (s2, False) \<Rightarrow> (s2, False)))"

text \<open>The agent only logs what fails.\<close>

definition agent_setAutoStart :: "string option \<Rightarrow> bool \<Rightarrow> registry_value \<Rightarrow> registry_value" where
  "agent_setAutoStart exe on s = (case rv_next s of
      (s1, False) \<Rightarrow> s1
    | (s1, True) \<Rightarrow>
        if on then (case exe of None \<Rightarrow> s1
          | Some exe \<Rightarrow> (case rv_next s1 of (s2, True) \<Rightarrow> s2\<lparr>rv_text := Some exe\<rparr> | (s2, False) \<Rightarrow> s2))
        else (case rv_next s1 of (s2, True) \<Rightarrow> s2\<lparr>rv_text := None\<rparr> | (s2, False) \<Rightarrow> s2))"

section \<open>What is set is what is read\<close>

lemma ef_next_text [simp]: "ef_text (fst (ef_next s)) = ef_text s"
  by (simp add: ef_next_def split: list.split)

lemma autostart_reads_back:
  assumes "setAutoStart entry exe on s = (s', True)"
  shows "isAutoStartEnabled s' = on \<and> ef_text s' = (if on then Some (entry (the exe)) else None)"
proof -
  obtain s1 r1 where 1: "ef_next s = (s1, r1)" by fastforce
  obtain s2 r2 where 2: "ef_next s1 = (s2, r2)" by fastforce
  show ?thesis using assms ef_next_text [of s]
    by (cases on; cases exe; cases r1; cases r2) (auto simp: setAutoStart_def isAutoStartEnabled_def 1 2 split: if_splits)
qed

text \<open>A write that is cut short is reported as an error, and the viewer then starts at login all the same.\<close>

lemma cut_entry_counts:
  "setAutoStart_linux (Some ''/opt/v'') True \<lparr>ef_text = None, ef_outcomes = [Done, Cut_Short 3]\<rparr>
     = (\<lparr>ef_text = Some ''[De'', ef_outcomes = []\<rparr>, False)"
  by (simp add: setAutoStart_linux_def setAutoStart_def ef_next_def desktop_entry_def text_lines_def)

lemma bundle_is_opened: "program_args ''/A/V.app/Contents/MacOS/v'' ! 3 = ''        <string>/A/V.app</string>''"
  by code_simp

lemma rv_next_text [simp]: "rv_text (fst (rv_next s)) = rv_text s"
  by (simp add: rv_next_def split: list.split)

text \<open>The registry holds what was set, or what it held before when an error is returned; the agent changes it the same way.\<close>

lemma registry_set:
  "rv_text (fst (setAutoStart_windows exe on s)) = (if snd (setAutoStart_windows exe on s) then (if on then exe else None) else rv_text s)"
  "agent_setAutoStart exe on s = fst (setAutoStart_windows exe on s)"
proof -
  obtain s1 r1 where 1: "rv_next s = (s1, r1)" by fastforce
  obtain s2 r2 where 2: "rv_next s1 = (s2, r2)" by fastforce
  have t: "rv_text s1 = rv_text s" "rv_text s2 = rv_text s" using rv_next_text [of s] rv_next_text [of s1] 1 2 by simp_all
  show "rv_text (fst (setAutoStart_windows exe on s)) = (if snd (setAutoStart_windows exe on s) then (if on then exe else None) else rv_text s)"
    by (cases r1; cases r2; cases exe) (simp_all add: setAutoStart_windows_def 1 2 t)
  show "agent_setAutoStart exe on s = fst (setAutoStart_windows exe on s)"
    by (cases r1; cases r2; cases exe) (simp_all add: setAutoStart_windows_def agent_setAutoStart_def 1 2)
qed

end
