(* ===== verification/Spec2Isabelle.thy ===== *)
theory Spec2Isabelle
  imports Limiter Frame_Buffer Agent_Registry Live_Grid Camera_Dial Relay_Main Event_Lists Test_Pattern Plates Screen_Capture Agent_App Release_Sign Viewer_Scan Viewer_Upscale Viewer_Autostart
begin

text \<open>
  OpsView lets an operator watch the screens and cameras of many sites. A Windows agent at a site
  publishes its screen as tile deltas and describes its recorders; the relay, a Go server, accepts
  agents and watchers, fans the messages out, pulls the cameras' RTSP streams, repackages them for the
  browser, records them, pairs motion events into intervals and serves a dashboard; a desktop viewer talks
  to the recorders of its own network directly. This development models the wire protocol
  (\<^verbatim>\<open>proto/\<close>), the relay (\<^verbatim>\<open>relay/\<close>), the agent (\<^verbatim>\<open>agent/\<close>) and the viewer (\<^verbatim>\<open>viewer/\<close>) and proves what their parts promise. The definitions are executable; every handler is one definition that
  threads the state of the component it changes and returns its answer.

  \<^bold>\<open>Parts and theories.\<close>
  \<^item> \<open>Ov_Prelude\<close>: bytes, Go's strings, association lists, decimal numbers, the collections
    \<open>inv_intros\<close> and friends, and the locale of byte-level fields.
  \<^item> The protocol. \<open>Ovp_Wire\<close> (\<^verbatim>\<open>proto/ovp.go\<close>: header, \<open>Marshal\<close>, \<open>ReadMessage\<close>),
    \<open>Ovp_Frame\<close> (\<^verbatim>\<open>proto/frame.go\<close>: frame deltas), \<open>Ovp_Messages\<close>
    (\<^verbatim>\<open>proto/json_messages.go\<close>: the payload records; the JSON text is a parameter).
  \<^item> Screens. \<open>Frame_Buffer\<close> (\<^verbatim>\<open>relay/framebuf.go\<close>): the tile cache, the frame a joining watcher
    gets and the painting of a snapshot; \<open>Test_Pattern\<close> (\<^verbatim>\<open>relay/testpattern.go\<close>): the picture shown without a publisher.
  \<^item> Who may connect. \<open>Limiter\<close> (\<^verbatim>\<open>relay/limiter.go\<close>), \<open>Agent_Store\<close> (\<^verbatim>\<open>relay/store.go\<close>),
    \<open>Agent_Registry\<close> (\<^verbatim>\<open>relay/agent_registry.go\<close>), \<open>Go_Net\<close> (address and origin checks of
    \<^verbatim>\<open>relay/surv_transcode.go\<close> and \<^verbatim>\<open>relay/security.go\<close>), \<open>Dash_Session\<close>
    (\<^verbatim>\<open>relay/dashboard_session.go\<close>, with SHA-256, HMAC, base64 and hex written out).
  \<^item> Sessions. \<open>Agent_Session\<close> (\<^verbatim>\<open>relay/agent_session.go\<close>), \<open>Hub\<close> and \<open>Hub_Watch\<close>
    (\<^verbatim>\<open>relay/hub.go\<close>): publishers, watchers, snapshots, the REST handlers, and the hub as the step
    relation \<open>hub_step\<close> over all of them; \<open>Alerts\<close> (\<^verbatim>\<open>relay/alerts.go\<close>).
  \<^item> Cameras. \<open>Annex_B\<close> and \<open>Stream_Hub\<close> (\<^verbatim>\<open>relay/surv_ws.go\<close>, \<^verbatim>\<open>relay/surv_transcode.go\<close>):
    from the byte stream to access units, fragments and the WebSocket clients of a stream;
    \<open>Wall_Layout\<close> (\<^verbatim>\<open>relay/wallorder.go\<close>, the pure part of \<^verbatim>\<open>relay/surv_mosaic.go\<close>);
    \<open>Surv_Proxy\<close> (\<^verbatim>\<open>relay/surv_proxy.go\<close>): which pipelines and walls run;
    \<open>Camera_Dial\<close>: its dial of a camera, step by step; \<open>Surv_Router\<close>
    (\<^verbatim>\<open>relay/surv_router.go\<close>); \<open>Live_Grid\<close> (\<^verbatim>\<open>relay/live_grid_ws.go\<close>): many streams on one
    connection, as the step relation \<open>grid_step\<close>.
  \<^item> Recordings. \<open>Events\<close> (\<^verbatim>\<open>relay/events.go\<close>), \<open>Recorder\<close> (\<^verbatim>\<open>relay/recorder.go\<close>,
    \<^verbatim>\<open>relay/recordings.go\<close>, \<^verbatim>\<open>relay/rectimeline.go\<close>), \<open>Thumb_Cache\<close> and \<open>Rec_Images\<close>
    (\<^verbatim>\<open>relay/recthumb.go\<close>, \<^verbatim>\<open>relay/thumb_variants.go\<close>, \<^verbatim>\<open>relay/recexport.go\<close>,
    \<^verbatim>\<open>relay/recsprite.go\<close>, \<^verbatim>\<open>relay/lprexport.go\<close>), \<open>Event_Lists\<close> (the lists of events of \<^verbatim>\<open>relay/events.go\<close> and
    the pruning of old thumbnails), \<open>Plates\<close> (\<^verbatim>\<open>relay/lpr/\<close>: plate recognition around its two networks).
  \<^item> The dashboard. \<open>Dashboard\<close> (\<^verbatim>\<open>relay/dashboard.go\<close>, \<^verbatim>\<open>relay/dashboard_state.go\<close>): login, the
    gated handlers and the state they report; \<open>Relay_Main\<close> (\<^verbatim>\<open>relay/main.go\<close>): configuration,
    start-up and routes.
  \<^item> The agent's recorders. \<open>Dvr_Store\<close> (the tables of \<^verbatim>\<open>agent/surveillance.go\<close>), \<open>Go_Digest\<close> (MD5, SHA-1
    and base64 of Go's library), \<open>Agent_Net\<close> (HTTP exchanges and the decoding of XML), \<open>Onvif\<close>
    (\<^verbatim>\<open>agent/onvif.go\<close>), \<open>Dvr_Discovery\<close> (discovery and snapshots of \<^verbatim>\<open>agent/surveillance.go\<close>),
    \<open>Isapi_Events\<close> (\<^verbatim>\<open>agent/isapi_events.go\<close>).
  \<^item> The agent. \<open>Agent_Core\<close> (\<^verbatim>\<open>agent/agent.go\<close>: the connection to the relay), \<open>Screen_Capture\<close>
    (\<^verbatim>\<open>agent/capturer_windows.go\<close>, \<^verbatim>\<open>agent/capturer_dummy.go\<close>), \<open>Agent_Update\<close>
    (\<^verbatim>\<open>agent/updater.go\<close>), \<open>Agent_App\<close> (\<^verbatim>\<open>agent/main.go\<close>, \<^verbatim>\<open>agent/config.go\<close>, \<^verbatim>\<open>agent/tray.go\<close>,
    \<^verbatim>\<open>agent/web_ui.go\<close>: the settings, the menu and the local page around one running agent).
  \<^item> The desktop viewer. \<open>Viewer_Store\<close> and \<open>Viewer_Cctv\<close> (\<^verbatim>\<open>viewer/cctv.go\<close>: its database, and what it asks the
    recorders), \<open>Viewer_Upscale\<close> (the program that enlarges its snapshots), \<open>Viewer_Streams\<close> (\<^verbatim>\<open>viewer/cctv_rtsp.go\<close>: the live streams as the steps \<open>stream_step\<close> of starts, stops and
    reconnecting goroutines), \<open>Viewer_Hls\<close> (\<^verbatim>\<open>viewer/stream_proxy.go\<close>), \<open>Viewer_Scan\<close> (\<^verbatim>\<open>viewer/cctv_scan.go\<close>,
    \<^verbatim>\<open>viewer/cctv_proxy.go\<close>, \<^verbatim>\<open>viewer/app.go\<close>), \<open>Viewer_Autostart\<close> (the entries that start it at login),
    \<open>Viewer_Update\<close> (\<^verbatim>\<open>viewer/updater.go\<close>) and \<open>Release_Sign\<close> (\<^verbatim>\<open>viewer/cmd/updatesign/main.go\<close>, which makes the
    signatures that both updaters check). It shares the requests, rows and library records of the agent's theories.

  \<^bold>\<open>How the parts interact.\<close> \<open>Relay_Main\<close> builds a \<open>registry\<close>, a store and a \<open>hub\<close>. The
  hub holds an \<open>agent_session\<close> per site, each with a frame buffer, a publisher, watchers and a
  \<open>surv_proxy\<close>. A publisher's configuration message reaches \<open>HandleSurvConfig\<close>, its event
  messages the \<open>event_store\<close>, its thumbnails \<open>storeEventThumb\<close>; the recorder reads the proxies'
  stream lists; the dashboard reads and edits all of it. The relay's messages to a publisher are what
  \<open>readPump\<close> of an agent handles; the agent's messages are what \<open>agent_admitted\<close> and the session
  theories receive. Page, menu and running agent of a site share one database, whose callback publishes.
  The stream entries of a proxy own a \<open>ws_hub\<close>, whose clients are the single-stream sockets and the slots of a live grid.

  \<^bold>\<open>State and concurrency.\<close> A struct is a record, a Go map an association list (its arbitrary order of
  iteration is a parameter or an arbitrary choice wherever the code's result depends on it), a pointer
  that is compared is a number used once, a nil pointer or an error is \<open>None\<close> or \<open>Inl\<close>. What runs
  under one lock is one step; what does not is several (the two halves of \<open>HandlePublish\<close>, the
  writer loop of the live grid, the reader and the fan-out of a session), and the step relations
  interleave them. Time is an argument.

  \<^bold>\<open>What the lemmas show.\<close> Each theory ends with its properties; before them stand the invariant of its
  state and one preservation lemma per operation (collected in \<open>inv_intros\<close>), the laws of its
  encoders, and the facts its properties share. Contracts are locales, each interpreted on the code's
  own definitions: \<open>wire_field\<close> and \<open>stream_codec\<close> (fixed-width fields; encoders whose output can
  be read back from the front of a stream) on the three field widths, the messages, the tiles and the
  AVCC units; \<open>keyed_table\<close> on the five tables of the store; \<open>session_loop\<close> (an operation of a
  session that neither changes who publishes nor breaks it) on the fan-out, the watcher's pump and the
  leaving of a watcher;
  \<open>table_invariant\<close> (what an invariant of the agent's database has to survive, statement by statement) on
  the well-formedness of the tables and on the permanence of recorded serial numbers.

  \<^bold>\<open>Bounds and fuel.\<close> Three scanners of strings take fuel (the parameters of a digest challenge, the runes
  of a name: the length of the text, and every turn takes at least one character; the hops of a download:
  the ten requests Go allows). Other loops are structural or have a measure; the eviction loop
  of the image cache is a \<open>partial_function\<close> and \<open>thumb_cache_is_lru\<close> shows that it returns.
  Machine integers are words where they wrap (sequence numbers, presentation times, the fields of the
  wire, distances of seconds) and integers with their range checked where the code checks it.

  \<^bold>\<open>Parameters.\<close> JSON, zstd, JPEG, PNG, fMP4 and H.264 syntax, RTSP dials, the URL library, calendars,
  file metadata, ffmpeg, the networks of plate recognition, floating-point operations and the WebSocket library are
  arguments of the definitions that use them. Where a property needs something of them (a decoder that
  inverts its encoder) it is a named hypothesis, and the witness instantiates it.

  \<^bold>\<open>Not modelled.\<close> \<open>setupUPNP\<close>, the tray icon and the service wrappers only call libraries; response
  headers, log texts and static pages are left out; the JavaScript and Kotlin clients are not in the
  language of the core. Of the agent, the drawing of the menu and the text of the page are left out; the COM calls of the capturer are outcomes given to the model.
  Of the viewer, the window and the creation of the tables are left out;
  ffmpeg, the upscaler's program and WebRTC are outcomes given to the model.
\<close>

end
